(* ===== verification/Prelude.thy ===== *)
theory Prelude
  imports Complex_Main "HOL-Library.AList" "HOL-Library.Sublist"
begin

text \<open>
  Shared vocabulary of the development.

  \<^item> Rust's \<^verbatim>\<open>String\<close>/\<^verbatim>\<open>&str\<close> is the list of the bytes of its UTF-8 encoding
    (HOL's \<^typ>\<open>string\<close>, whose characters are bytes), so \<^verbatim>\<open>len()\<close> is \<^const>\<open>length\<close> and
    every index is a byte offset, as in Rust.  Slicing off a character boundary panics in Rust;
    \<open>slice_to\<close> and \<open>slice_from\<close> return \<^const>\<open>None\<close> there.
  \<^item> Rust's \<^verbatim>\<open>HashMap\<close> is an association list whose keys are distinct (\<open>hm_wf\<close>); the iteration
    order of a \<^verbatim>\<open>HashMap\<close> is unspecified, and no theorem depends on the order of the list.
  \<^item> \<^verbatim>\<open>Result<T, E>\<close> is the sum \<open>'e + 'a\<close> with \<^const>\<open>Inl\<close> for \<^verbatim>\<open>Err\<close>.
  \<^item> A clock read (\<^verbatim>\<open>Instant::now()\<close>, \<^verbatim>\<open>Utc::now()\<close>, \<^verbatim>\<open>now_ms\<close>) is an argument \<open>now\<close>.
  \<^item> The locale \<open>invariant_system\<close> is the shared contract of all step relations: an invariant
    that holds initially and is kept by each step holds in every reachable state.
\<close>

named_theorems str_simps \<open>rewrite rules for byte strings\<close>
named_theorems hm_simps \<open>rewrite rules for hash maps\<close>

type_synonym ('e, 'a) result = "'e + 'a"
type_synonym ('k, 'v) hash_map = "('k \<times> 'v) list"


section \<open>Integers\<close>

abbreviation u32_max :: nat where "u32_max \<equiv> 2 ^ 32 - 1"
abbreviation u64_max :: nat where "u64_max \<equiv> 2 ^ 64 - 1"
abbreviation i64_max :: int where "i64_max \<equiv> 2 ^ 63 - 1"
abbreviation i64_min :: int where "i64_min \<equiv> - (2 ^ 63)"

text \<open>\<^verbatim>\<open>saturating_add\<close> and \<^verbatim>\<open>saturating_mul\<close> of unsigned values clamp at the type's maximum;
  \<^verbatim>\<open>saturating_sub\<close> clamps at zero, which is what subtraction on \<^typ>\<open>nat\<close> does.\<close>

definition sat_add :: "nat \<Rightarrow> nat \<Rightarrow> nat \<Rightarrow> nat" where
  "sat_add mx a b = min (a + b) mx"

definition sat_mul :: "nat \<Rightarrow> nat \<Rightarrow> nat \<Rightarrow> nat" where
  "sat_mul mx a b = min (a * b) mx"

definition i64_sat_add :: "int \<Rightarrow> int \<Rightarrow> int" where
  "i64_sat_add a b = max i64_min (min (a + b) i64_max)"

text \<open>Subtraction on \<^verbatim>\<open>usize\<close> in a release build, which is compiled without overflow checks.\<close>

definition usize_sub :: "nat \<Rightarrow> nat \<Rightarrow> nat" where
  "usize_sub a b = (if b \<le> a then a - b else 2 ^ 64 - (b - a) mod 2 ^ 64)"

text \<open>Addition and multiplication on \<^verbatim>\<open>u64\<close> in a release build wrap around, and \<^verbatim>\<open>as u64\<close> reinterprets a
  signed value; \<^verbatim>\<open>as i64\<close> goes the other way, and addition on \<^verbatim>\<open>i64\<close> wraps as well.\<close>

definition u64_add :: "nat \<Rightarrow> nat \<Rightarrow> nat" where
  "u64_add a b = (a + b) mod 2 ^ 64"

definition u64_mul :: "nat \<Rightarrow> nat \<Rightarrow> nat" where
  "u64_mul a b = (a * b) mod 2 ^ 64"

definition as_u64 :: "int \<Rightarrow> nat" where
  "as_u64 i = nat (i mod 2 ^ 64)"

definition as_i64 :: "nat \<Rightarrow> int" where
  "as_i64 n = (if n < 2 ^ 63 then int n else int n - 2 ^ 64)"

definition i64_add :: "int \<Rightarrow> int \<Rightarrow> int" where
  "i64_add a b = (a + b + 2 ^ 63) mod 2 ^ 64 - 2 ^ 63"

lemma i64_add_exact: "i64_min \<le> a + b \<Longrightarrow> a + b \<le> i64_max \<Longrightarrow> i64_add a b = a + b"
  by (simp add: i64_add_def)

lemma u64_add_exact: "a + b < 2 ^ 64 \<Longrightarrow> u64_add a b = a + b"
  by (simp add: u64_add_def)

lemma u64_mul_exact: "a * b < 2 ^ 64 \<Longrightarrow> u64_mul a b = a * b"
  by (simp add: u64_mul_def)

lemma as_u64_nonneg: "0 \<le> i \<Longrightarrow> i < 2 ^ 64 \<Longrightarrow> as_u64 i = nat i"
  by (simp add: as_u64_def)

lemma i64_sat_add_range: "i64_min \<le> i64_sat_add a b \<and> i64_sat_add a b \<le> i64_max"
  by (auto simp: i64_sat_add_def)

lemma i64_sat_add_exact: "i64_min \<le> a + b \<Longrightarrow> a + b \<le> i64_max \<Longrightarrow> i64_sat_add a b = a + b"
  by (auto simp: i64_sat_add_def)

lemma i64_sat_add_mono: "0 \<le> b \<Longrightarrow> a \<le> i64_max \<Longrightarrow> a \<le> i64_sat_add a b"
  by (auto simp: i64_sat_add_def)


text \<open>\<^verbatim>\<open>Duration::from_secs\<close> and \<^verbatim>\<open>Duration::from_millis\<close>, in nanoseconds; an \<^verbatim>\<open>Instant\<close> is an integer number of them.\<close>

definition from_secs :: "nat \<Rightarrow> int" where "from_secs n = int n * 1000000000"
definition from_millis :: "nat \<Rightarrow> int" where "from_millis n = int n * 1000000"


section \<open>Byte strings\<close>

definition newline :: char where "newline = CHR 0x0A"
definition em_dash :: string where "em_dash = [CHR 0xE2, CHR 0x80, CHR 0x94]"

definition quoted :: "string \<Rightarrow> string" where "quoted s = [CHR 0x27] @ s @ [CHR 0x27]"

definition starts_with :: "string \<Rightarrow> string \<Rightarrow> bool" where
  "starts_with s p = prefix p s"

definition ends_with :: "string \<Rightarrow> string \<Rightarrow> bool" where
  "ends_with s p = suffix p s"

fun contains :: "string \<Rightarrow> string \<Rightarrow> bool" where
  "contains [] p = (p = [])"
| "contains (c # s) p = (prefix p (c # s) \<or> contains s p)"

lemma contains_sublist: "contains s p = sublist p s"
  by (induction s) (auto simp: sublist_Cons_right)

text \<open>\<^verbatim>\<open>str::rfind(char)\<close>: the last position of a byte.\<close>

fun rfind_char :: "char \<Rightarrow> string \<Rightarrow> nat option" where
  "rfind_char c [] = None"
| "rfind_char c (x # xs) =
     (case rfind_char c xs of
        Some i \<Rightarrow> Some (Suc i)
      | None \<Rightarrow> if x = c then Some 0 else None)"

text \<open>\<^verbatim>\<open>str::rfind(&str)\<close>: the last position at which a pattern starts.\<close>

fun rfind_str :: "string \<Rightarrow> string \<Rightarrow> nat option" where
  "rfind_str p [] = (if p = [] then Some 0 else None)"
| "rfind_str p (x # xs) =
     (case rfind_str p xs of
        Some i \<Rightarrow> Some (Suc i)
      | None \<Rightarrow> if prefix p (x # xs) then Some 0 else None)"

text \<open>\<^verbatim>\<open>str::replace\<close> for a non-empty pattern: leftmost, non-overlapping occurrences.\<close>

function replace_all :: "string \<Rightarrow> string \<Rightarrow> string \<Rightarrow> string" where
  "replace_all p r [] = []"
| "replace_all p r (c # s) =
     (if p \<noteq> [] \<and> prefix p (c # s) then r @ replace_all p r (drop (length p) (c # s))
      else c # replace_all p r s)"
  by pat_completeness auto
termination
  by (relation "measure (\<lambda>(p, r, s). length s)") auto

text \<open>\<^verbatim>\<open>str::split(char)\<close>: always at least one piece.\<close>

fun split_on :: "char \<Rightarrow> string \<Rightarrow> string list" where
  "split_on c [] = [[]]"
| "split_on c (x # xs) =
     (if x = c then [] # split_on c xs
      else (case split_on c xs of [] \<Rightarrow> [[x]] | l # ls \<Rightarrow> (x # l) # ls))"

text \<open>\<^verbatim>\<open>str::lines\<close>: a final empty piece is dropped, and a carriage return before the newline.\<close>

definition strip_cr :: "string \<Rightarrow> string" where
  "strip_cr l = (if l \<noteq> [] \<and> last l = CHR 0x0D then butlast l else l)"

definition lines_of :: "string \<Rightarrow> string list" where
  "lines_of s =
     (let ls = split_on newline s
      in (if last ls = [] then map strip_cr (butlast ls)
          else map strip_cr (butlast ls) @ [last ls]))"

fun join_with :: "string \<Rightarrow> string list \<Rightarrow> string" where
  "join_with sep [] = []"
| "join_with sep [x] = x"
| "join_with sep (x # y # xs) = x @ sep @ join_with sep (y # xs)"

text \<open>
  Unicode white space at the front of a byte string, as the number of bytes of the character
  (0 when the first character is not white space): U+0009..U+000D, U+0020, U+0085, U+00A0,
  U+1680, U+2000..U+200A, U+2028, U+2029, U+202F, U+205F and U+3000 in UTF-8.
\<close>

abbreviation byte :: "char \<Rightarrow> nat" where "byte c \<equiv> of_char c"

fun ws3 :: "nat \<Rightarrow> nat \<Rightarrow> nat \<Rightarrow> bool" where
  "ws3 a b c =
     (a = 0xE1 \<and> b = 0x9A \<and> c = 0x80
      \<or> a = 0xE2 \<and> b = 0x80 \<and> (0x80 \<le> c \<and> c \<le> 0x8A \<or> c = 0xA8 \<or> c = 0xA9 \<or> c = 0xAF)
      \<or> a = 0xE2 \<and> b = 0x81 \<and> c = 0x9F
      \<or> a = 0xE3 \<and> b = 0x80 \<and> c = 0x80)"

definition ws1 :: "nat \<Rightarrow> bool" where
  "ws1 a = (0x09 \<le> a \<and> a \<le> 0x0D \<or> a = 0x20)"

definition ws2 :: "nat \<Rightarrow> nat \<Rightarrow> bool" where
  "ws2 a b = (a = 0xC2 \<and> (b = 0x85 \<or> b = 0xA0))"

fun ws_len :: "string \<Rightarrow> nat" where
  "ws_len [] = 0"
| "ws_len [a] = (if ws1 (byte a) then 1 else 0)"
| "ws_len [a, b] = (if ws1 (byte a) then 1 else if ws2 (byte a) (byte b) then 2 else 0)"
| "ws_len (a # b # c # s) =
     (if ws1 (byte a) then 1 else if ws2 (byte a) (byte b) then 2
      else if ws3 (byte a) (byte b) (byte c) then 3 else 0)"

text \<open>The same at the back, on the reversed string.\<close>

fun ws_len_rev :: "string \<Rightarrow> nat" where
  "ws_len_rev [] = 0"
| "ws_len_rev [a] = (if ws1 (byte a) then 1 else 0)"
| "ws_len_rev [b, a] = (if ws1 (byte b) then 1 else if ws2 (byte a) (byte b) then 2 else 0)"
| "ws_len_rev (c # b # a # s) =
     (if ws1 (byte c) then 1 else if ws2 (byte b) (byte c) then 2
      else if ws3 (byte a) (byte b) (byte c) then 3 else 0)"

lemma ws_len_le: "ws_len s \<le> length s"
  by (cases s rule: ws_len.cases) auto

lemma ws_len_rev_le: "ws_len_rev s \<le> length s"
  by (cases s rule: ws_len_rev.cases) auto

lemma ws_len_drop: "0 < ws_len s \<Longrightarrow> length (drop (ws_len s) s) < length s"
  using ws_len_le [of s] by auto

lemma ws_len_rev_drop: "0 < ws_len_rev s \<Longrightarrow> length (drop (ws_len_rev s) s) < length s"
  using ws_len_rev_le [of s] by auto

function trim_start :: "string \<Rightarrow> string" where
  "trim_start s = (if ws_len s = 0 then s else trim_start (drop (ws_len s) s))"
  by pat_completeness auto
termination
  by (relation "measure length") (auto dest: ws_len_drop)

function trim_start_rev :: "string \<Rightarrow> string" where
  "trim_start_rev s = (if ws_len_rev s = 0 then s else trim_start_rev (drop (ws_len_rev s) s))"
  by pat_completeness auto
termination
  by (relation "measure length") (auto dest: ws_len_rev_drop)

declare trim_start.simps [simp del] trim_start_rev.simps [simp del]

definition trim_end :: "string \<Rightarrow> string" where
  "trim_end s = rev (trim_start_rev (rev s))"

definition trim :: "string \<Rightarrow> string" where
  "trim s = trim_end (trim_start s)"

text \<open>\<^verbatim>\<open>trim_start_matches('\n')\<close>.\<close>

definition trim_newlines :: "string \<Rightarrow> string" where
  "trim_newlines s = dropWhile (\<lambda>c. c = newline) s"

text \<open>\<^verbatim>\<open>str::to_lowercase\<close> on the ASCII letters; other bytes are left as they are (the model's
  strings are therefore taken to be free of non-ASCII cased letters where it is used).\<close>

definition lower_char :: "char \<Rightarrow> char" where
  "lower_char c = (if 65 \<le> byte c \<and> byte c \<le> 90 then char_of (byte c + 32) else c)"

definition to_lowercase :: "string \<Rightarrow> string" where
  "to_lowercase s = map lower_char s"

text \<open>Decimal printing (\<^verbatim>\<open>format!("{}", n)\<close>).\<close>

fun show_nat :: "nat \<Rightarrow> string" where
  "show_nat n = (if n < 10 then [char_of (48 + n)] else show_nat (n div 10) @ [char_of (48 + n mod 10)])"

declare show_nat.simps [simp del]

lemma show_nat_digits [simp]: "show_nat 0 = ''0''" "show_nat 1 = ''1''" "show_nat (Suc 0) = ''1''"
  by code_simp+

definition show_int :: "int \<Rightarrow> string" where
  "show_int i = (if i < 0 then ''-'' @ show_nat (nat (- i)) else show_nat (nat i))"



text \<open>\<^verbatim>\<open>str::strip_prefix\<close> and \<^verbatim>\<open>str::strip_suffix\<close>.\<close>

definition strip_prefix :: "string \<Rightarrow> string \<Rightarrow> string option" where
  "strip_prefix p s = (if starts_with s p then Some (drop (length p) s) else None)"

definition strip_suffix :: "string \<Rightarrow> string \<Rightarrow> string option" where
  "strip_suffix p s = (if ends_with s p then Some (take (length s - length p) s) else None)"

text \<open>\<^verbatim>\<open>str::parse\<close> for the integer types: an optional sign and digits, within the range of the type.\<close>

definition digit_char :: "char \<Rightarrow> bool" where "digit_char c = (48 \<le> byte c \<and> byte c \<le> 57)"

definition digits_value :: "string \<Rightarrow> nat" where
  "digits_value ds = foldl (\<lambda>n c. 10 * n + (byte c - 48)) 0 ds"

definition parse_unsigned :: "nat \<Rightarrow> string \<Rightarrow> nat option" where
  "parse_unsigned bound s =
     (let ds = (case strip_prefix ''+'' s of Some t \<Rightarrow> t | None \<Rightarrow> s)
      in if ds = [] \<or> \<not> list_all digit_char ds \<or> bound \<le> digits_value ds then None else Some (digits_value ds))"

definition parse_u32 :: "string \<Rightarrow> nat option" where "parse_u32 = parse_unsigned (2 ^ 32)"

definition parse_usize :: "string \<Rightarrow> nat option" where "parse_usize = parse_unsigned (2 ^ 64)"

definition parse_i64 :: "string \<Rightarrow> int option" where
  "parse_i64 s =
     (case strip_prefix ''-'' s of
        Some ds \<Rightarrow> if ds = [] \<or> \<not> list_all digit_char ds \<or> 2 ^ 63 < digits_value ds then None else Some (- int (digits_value ds))
      | None \<Rightarrow> map_option int (parse_unsigned (2 ^ 63) s))"

text \<open>\<^verbatim>\<open>.map(str::trim).filter(|v| !v.is_empty())\<close> on an optional text.\<close>

definition non_empty :: "string option \<Rightarrow> string option" where
  "non_empty raw = (case raw of None \<Rightarrow> None | Some s \<Rightarrow> if trim s = [] then None else Some (trim s))"

text \<open>\<^verbatim>\<open>str::eq_ignore_ascii_case\<close> and \<^verbatim>\<open>char::is_ascii_alphanumeric\<close>.\<close>

definition eq_ignore_case :: "string \<Rightarrow> string \<Rightarrow> bool" where
  "eq_ignore_case a b = (to_lowercase a = to_lowercase b)"

definition ascii_alnum :: "char \<Rightarrow> bool" where
  "ascii_alnum c = (48 \<le> byte c \<and> byte c \<le> 57 \<or> 65 \<le> byte c \<and> byte c \<le> 90 \<or> 97 \<le> byte c \<and> byte c \<le> 122)"


subsection \<open>Facts about the string operations\<close>

lemma strip_prefix_case: "(case strip_prefix p h of Some t \<Rightarrow> P t | None \<Rightarrow> False) \<longleftrightarrow> (\<exists>t. h = p @ t \<and> P t)"
  by (auto simp: strip_prefix_def starts_with_def prefix_def)

lemma show_nat_digits_only: "set (show_nat n) \<subseteq> {c. 48 \<le> (of_char c :: nat) \<and> (of_char c :: nat) < 58}"
proof (induction n rule: less_induct)
  case (less n)
  show ?case
  proof (cases "n < 10")
    case True
    then show ?thesis by (subst show_nat.simps) auto
  next
    case False
    then have "set (show_nat (n div 10)) \<subseteq> {c. 48 \<le> (of_char c :: nat) \<and> (of_char c :: nat) < 58}" by (intro less) auto
    then show ?thesis using False by (subst show_nat.simps) (auto simp: subset_eq)
  qed
qed

lemma show_nat_no_colon: "CHR '':'' \<notin> set (show_nat n)"
  using show_nat_digits_only [of n] by auto

lemma char_of_digit_inject: "a < 10 \<Longrightarrow> b < 10 \<Longrightarrow> char_of (48 + a) = (char_of (48 + b) :: char) \<longleftrightarrow> a = (b :: nat)"
proof
  assume "a < 10" "b < 10" and "char_of (48 + a) = (char_of (48 + b) :: char)"
  then have "(of_char (char_of (48 + a) :: char) :: nat) = of_char (char_of (48 + b) :: char)" by simp
  then show "a = b" using \<open>a < 10\<close> \<open>b < 10\<close> by simp
qed simp

lemma show_nat_not_Nil: "show_nat n \<noteq> []"
  by (subst show_nat.simps) simp

lemma show_nat_inject: "show_nat m = show_nat n \<Longrightarrow> m = n"
proof (induction m arbitrary: n rule: less_induct)
  case (less m)
  consider "m < 10" "n < 10" | "m < 10" "10 \<le> n" | "10 \<le> m" "n < 10" | "10 \<le> m" "10 \<le> n" by linarith
  then show ?case
  proof cases
    case 1
    then show ?thesis using less.prems by (simp add: show_nat.simps char_of_digit_inject)
  next
    case 2
    then show ?thesis using less.prems show_nat_not_Nil [of "n div 10"] show_nat_not_Nil [of "m div 10"] by (subst (asm) (1 2) show_nat.simps) simp
  next
    case 3
    then show ?thesis using less.prems show_nat_not_Nil [of "n div 10"] show_nat_not_Nil [of "m div 10"] by (subst (asm) (1 2) show_nat.simps) simp
  next
    case 4
    then have "show_nat (m div 10) = show_nat (n div 10)" "m mod 10 = n mod 10"
      using less.prems by (subst (asm) (1 2) show_nat.simps; simp add: char_of_digit_inject)+
    then have "m div 10 = n div 10" using less.IH 4 by simp
    then show ?thesis using \<open>m mod 10 = n mod 10\<close> by (metis div_mult_mod_eq)
  qed
qed

lemma digits_value_snoc: "digits_value (ds @ [c]) = 10 * digits_value ds + (byte c - 48)"
  by (simp add: digits_value_def)

lemma digits_value_show_nat: "digits_value (show_nat n) = n"
proof (induction n rule: less_induct)
  case (less n)
  show ?case
  proof (cases "n < 10")
    case True
    then show ?thesis by (subst show_nat.simps) (simp add: digits_value_def of_char_of)
  next
    case False
    then have "digits_value (show_nat (n div 10)) = n div 10" using less by simp
    moreover have "show_nat n = show_nat (n div 10) @ [char_of (48 + n mod 10)]"
      using False by (subst show_nat.simps) simp
    ultimately show ?thesis by (simp add: digits_value_snoc of_char_of)
  qed
qed

lemma parse_show_u32: "n < 2 ^ 32 \<Longrightarrow> parse_u32 (show_nat n) = Some n"
proof -
  assume n: "n < 2 ^ 32"
  have digits: "list_all digit_char (show_nat n)"
    using show_nat_digits_only [of n] by (auto simp: list_all_iff digit_char_def)
  then have "strip_prefix ''+'' (show_nat n) = None"
    by (cases "show_nat n") (auto simp: strip_prefix_def starts_with_def digit_char_def)
  with digits n show ?thesis
    by (simp add: parse_u32_def parse_unsigned_def digits_value_show_nat show_nat_not_Nil)
qed


lemma last_separator_unique:
  assumes "x \<notin> set b" and "x \<notin> set b'" and "a @ x # b = a' @ x # b'"
  shows "a = a' \<and> b = b'"
proof -
  have "takeWhile (\<lambda>y. y \<noteq> x) (rev (a @ x # b)) = rev b" "takeWhile (\<lambda>y. y \<noteq> x) (rev (a' @ x # b')) = rev b'"
    using assms(1,2) by (simp_all add: takeWhile_append)
  then have "b = b'" using assms(3) by simp
  then show ?thesis using assms(3) by simp
qed

lemma rfind_char_Some:
  "rfind_char c s = Some i \<Longrightarrow> i < length s \<and> s ! i = c \<and> (\<forall>j. i < j \<longrightarrow> j < length s \<longrightarrow> s ! j \<noteq> c)"
proof (induction s arbitrary: i)
  case Nil
  then show ?case by simp
next
  case (Cons x xs)
  show ?case
  proof (cases "rfind_char c xs")
    case None
    then have "c \<notin> set xs"
      by (induction xs) (auto split: option.splits if_splits)
    moreover have "i = 0" "x = c"
      using Cons.prems None by (auto split: if_splits)
    ultimately show ?thesis
      by (auto simp: nth_Cons in_set_conv_nth split: nat.splits)
  next
    case (Some k)
    with Cons.prems have "i = Suc k" by simp
    with Cons.IH [OF Some] show ?thesis
      by (auto simp: nth_Cons split: nat.splits)
  qed
qed

lemma rfind_char_None: "rfind_char c s = None \<longleftrightarrow> c \<notin> set s"
  by (induction s) (auto split: option.splits)

lemma rfind_str_Some:
  "rfind_str p s = Some i \<Longrightarrow> i + length p \<le> length s \<and> take (length p) (drop i s) = p"
proof (induction s arbitrary: i)
  case Nil
  then show ?case by (simp split: if_splits)
next
  case (Cons x xs)
  then show ?case
    by (auto simp: prefix_length_le [of p "x # xs", simplified] prefix_def
        dest: arg_cong [of _ _ length] split: option.splits if_splits)
qed

text \<open>A text of visible ASCII characters has nothing to trim.\<close>

definition visible_ascii :: "char \<Rightarrow> bool" where "visible_ascii c = (33 \<le> byte c \<and> byte c \<le> 126)"

lemma ws_len_visible: "list_all visible_ascii s \<Longrightarrow> ws_len s = 0"
  by (cases s rule: ws_len.cases) (auto simp: visible_ascii_def ws1_def ws2_def)

lemma ws_len_rev_visible: "list_all visible_ascii s \<Longrightarrow> ws_len_rev s = 0"
  by (cases s rule: ws_len_rev.cases) (auto simp: visible_ascii_def ws1_def ws2_def)

lemma trim_visible: "list_all visible_ascii s \<Longrightarrow> trim s = s"
  using ws_len_visible [of s] ws_len_rev_visible [of "rev s"]
  by (simp add: trim_def trim_end_def trim_start.simps [of s] trim_start_rev.simps [of "rev s"])

lemma trim_show_nat: "trim (show_nat n) = show_nat n"
  using show_nat_digits_only [of n] by (intro trim_visible) (auto simp: list_all_iff visible_ascii_def)

lemma trim_start_suffix: "suffix (trim_start s) s"
proof (induction s rule: trim_start.induct)
  case (1 s)
  show ?case
  proof (cases "ws_len s = 0")
    case True
    then show ?thesis by (simp add: trim_start.simps)
  next
    case False
    then have "suffix (trim_start (drop (ws_len s) s)) (drop (ws_len s) s)"
      by (rule "1.IH")
    then have "suffix (trim_start (drop (ws_len s) s)) s"
      using suffix_drop by (rule suffix_order.trans)
    with False show ?thesis by (subst trim_start.simps) simp
  qed
qed

lemma trim_start_rev_suffix: "suffix (trim_start_rev s) s"
proof (induction s rule: trim_start_rev.induct)
  case (1 s)
  show ?case
  proof (cases "ws_len_rev s = 0")
    case True
    then show ?thesis by (simp add: trim_start_rev.simps)
  next
    case False
    then have "suffix (trim_start_rev (drop (ws_len_rev s) s)) (drop (ws_len_rev s) s)"
      by (rule "1.IH")
    then have "suffix (trim_start_rev (drop (ws_len_rev s) s)) s"
      using suffix_drop by (rule suffix_order.trans)
    with False show ?thesis by (subst trim_start_rev.simps) simp
  qed
qed

lemma trim_end_prefix: "prefix (trim_end s) s"
  using trim_start_rev_suffix [of "rev s"] by (simp add: trim_end_def suffix_to_prefix)

lemma trim_sublist: "sublist (trim s) s"
  unfolding trim_def
  using trim_end_prefix [of "trim_start s"] trim_start_suffix [of s]
  by (metis prefix_imp_sublist sublist_order.dual_order.trans suffix_imp_sublist)

lemma length_trim_le: "length (trim s) \<le> length s"
  using trim_sublist sublist_length_le by blast

lemma to_lowercase_length [simp]: "length (to_lowercase s) = length s"
  by (simp add: to_lowercase_def)


section \<open>Character boundaries and slices\<close>

text \<open>A byte 10xxxxxx continues a UTF-8 character; every other position is a boundary.\<close>

definition continuation :: "char \<Rightarrow> bool" where
  "continuation c = (128 \<le> byte c \<and> byte c < 192)"

definition is_char_boundary :: "string \<Rightarrow> nat \<Rightarrow> bool" where
  "is_char_boundary s i = (i = 0 \<or> i = length s \<or> i < length s \<and> \<not> continuation (s ! i))"

definition slice_to :: "string \<Rightarrow> nat \<Rightarrow> string option" where
  "slice_to s i = (if is_char_boundary s i then Some (take i s) else None)"

definition slice_from :: "string \<Rightarrow> nat \<Rightarrow> string option" where
  "slice_from s i = (if is_char_boundary s i then Some (drop i s) else None)"

lemma is_char_boundary_le: "is_char_boundary s i \<Longrightarrow> i \<le> length s"
  by (auto simp: is_char_boundary_def)

lemma is_char_boundary_0 [simp]: "is_char_boundary s 0"
  by (simp add: is_char_boundary_def)

lemma is_char_boundary_length [simp]: "is_char_boundary s (length s)"
  by (simp add: is_char_boundary_def)

lemma newline_boundary: "rfind_char newline s = Some i \<Longrightarrow> is_char_boundary s i"
  by (auto dest!: rfind_char_Some simp: is_char_boundary_def continuation_def newline_def)

lemma boundary_take: "is_char_boundary (take k s) i \<Longrightarrow> i < k \<Longrightarrow> is_char_boundary s i"
  by (auto simp: is_char_boundary_def min_def split: if_splits)

lemma slice_to_Some [simp]: "is_char_boundary s i \<Longrightarrow> slice_to s i = Some (take i s)"
  by (simp add: slice_to_def)

lemma slice_from_Some [simp]: "is_char_boundary s i \<Longrightarrow> slice_from s i = Some (drop i s)"
  by (simp add: slice_from_def)

text \<open>The idiom \<^verbatim>\<open>s[..k].rfind('\n').unwrap_or(k)\<close>: the last line boundary at or before \<open>k\<close>.\<close>

definition line_cut :: "string \<Rightarrow> nat \<Rightarrow> nat" where
  "line_cut s k = (case rfind_char newline (take k s) of Some i \<Rightarrow> i | None \<Rightarrow> k)"

lemma line_cut_le: "line_cut s k \<le> k"
  by (auto simp: line_cut_def dest!: rfind_char_Some split: option.splits)

lemma line_cut_boundary:
  assumes "is_char_boundary s k"
  shows "is_char_boundary s (line_cut s k)"
proof (cases "rfind_char newline (take k s)")
  case None
  with assms show ?thesis by (simp add: line_cut_def)
next
  case (Some i)
  then have "is_char_boundary (take k s) i"
    by (rule newline_boundary)
  moreover have "i < k"
    using rfind_char_Some [OF Some] by simp
  ultimately have "is_char_boundary s i"
    by (rule boundary_take)
  with Some show ?thesis
    by (simp add: line_cut_def)
qed


section \<open>Words\<close>

text \<open>\<^verbatim>\<open>split_whitespace\<close>: the non-empty pieces between white space.\<close>

fun until_ws :: "string \<Rightarrow> string" where
  "until_ws [] = []"
| "until_ws (c # s) = (if ws_len (c # s) > 0 then [] else c # until_ws s)"

fun from_ws :: "string \<Rightarrow> string" where
  "from_ws [] = []"
| "from_ws (c # s) = (if ws_len (c # s) > 0 then c # s else from_ws s)"

lemma until_from_ws: "until_ws s @ from_ws s = s"
  by (induction s) auto

lemma from_ws_length: "length (from_ws s) \<le> length s"
  by (induction s) auto

lemma trim_start_no_ws: "trim_start s \<noteq> [] \<Longrightarrow> ws_len (trim_start s) = 0"
proof (induction s rule: trim_start.induct)
  case (1 s)
  then show ?case
    by (subst trim_start.simps, subst (asm) trim_start.simps) (auto split: if_splits)
qed

function split_whitespace :: "string \<Rightarrow> string list" where
  "split_whitespace s =
     (let t = trim_start s in if t = [] then [] else until_ws t # split_whitespace (from_ws t))"
  by pat_completeness auto
termination
proof (relation "measure length")
  fix s t assume t: "t = trim_start s" and ne: "t \<noteq> []"
  obtain c r where r: "t = c # r" using ne by (cases t) auto
  then have "length (from_ws t) < length t"
    using trim_start_no_ws [of s] t from_ws_length [of r] by simp
  moreover have "length t \<le> length s"
    using t trim_start_suffix [of s] suffix_length_le by blast
  ultimately show "(from_ws t, s) \<in> measure length" by simp
qed simp

declare split_whitespace.simps [simp del]


section \<open>Characters\<close>

text \<open>\<^verbatim>\<open>str::chars\<close> on a UTF-8 string: each character as its bytes, and its code point.\<close>

function chars_of :: "string \<Rightarrow> string list" where
  "chars_of [] = []"
| "chars_of (c # s) = (c # takeWhile continuation s) # chars_of (dropWhile continuation s)"
  by pat_completeness auto
termination
  by (relation "measure length") (auto simp: le_imp_less_Suc length_dropWhile_le)

fun code_point :: "string \<Rightarrow> nat" where
  "code_point [a] = byte a"
| "code_point [a, b] = (byte a mod 32) * 64 + byte b mod 64"
| "code_point [a, b, c] = (byte a mod 16) * 4096 + (byte b mod 64) * 64 + byte c mod 64"
| "code_point [a, b, c, d] = (byte a mod 8) * 262144 + (byte b mod 64) * 4096 + (byte c mod 64) * 64 + byte d mod 64"
| "code_point _ = 0xFFFD"

lemma concat_chars_of [simp]: "concat (chars_of s) = s"
  by (induction s rule: chars_of.induct) auto

lemma chars_of_ascii: "list_all (\<lambda>c. \<not> continuation c) s \<Longrightarrow> chars_of s = map (\<lambda>c. [c]) s"
proof (induction s rule: chars_of.induct)
  case (2 c s)
  then have "takeWhile continuation s = [] \<and> dropWhile continuation s = s"
    by (cases s) auto
  then show ?case using 2 by simp
qed simp


section \<open>Files of lines\<close>

text \<open>Lines that survive a round trip through a file, each followed by a newline.\<close>

definition clean_line :: "string \<Rightarrow> bool" where
  "clean_line l = (newline \<notin> set l \<and> (l = [] \<or> last l \<noteq> CHR 0x0D))"

definition unlines :: "string list \<Rightarrow> string" where
  "unlines ls = concat (map (\<lambda>l. l @ [newline]) ls)"

lemma unlines_simps [simp]: "unlines [] = []" "unlines (l # ls) = l @ newline # unlines ls"
  "unlines (ls @ ms) = unlines ls @ unlines ms"
  by (simp_all add: unlines_def)

lemma split_on_terminated: "c \<notin> set l \<Longrightarrow> split_on c (l @ c # s) = l # split_on c s"
  by (induction l) auto

lemma split_on_unlines: "list_all clean_line ls \<Longrightarrow> split_on newline (unlines ls) = ls @ [[]]"
  by (induction ls) (auto simp: clean_line_def split_on_terminated)

lemma lines_of_unlines: "list_all clean_line ls \<Longrightarrow> lines_of (unlines ls) = ls"
  by (auto simp: lines_of_def split_on_unlines Let_def strip_cr_def clean_line_def list_all_iff intro!: map_idI)

lemma join_unlines: "ls \<noteq> [] \<Longrightarrow> join_with [newline] ls @ [newline] = unlines ls"
proof (induction ls)
  case (Cons l ls)
  then show ?case by (cases ls) auto
qed simp


section \<open>Iterators\<close>

text \<open>\<^verbatim>\<open>Iterator::max_by_key\<close>: the last of the elements with the greatest key.\<close>

fun max_by_key :: "('a \<Rightarrow> 'b::linorder) \<Rightarrow> 'a list \<Rightarrow> 'a option" where
  "max_by_key f [] = None"
| "max_by_key f (x # xs) = Some (foldl (\<lambda>b y. if f b \<le> f y then y else b) x xs)"

lemma max_by_key_None [simp]: "max_by_key f xs = None \<longleftrightarrow> xs = []"
  by (cases xs) auto

lemma foldl_max_spec:
  "foldl (\<lambda>b y. if f b \<le> f y then y else b) x xs \<in> set (x # xs)
   \<and> (\<forall>y \<in> set (x # xs). f y \<le> (f (foldl (\<lambda>b y. if f b \<le> f y then y else b) x xs) :: 'b::linorder))"
proof (induction xs arbitrary: x)
  case (Cons y ys)
  show ?case
    using Cons.IH [of "if f x \<le> f y then y else x"] by (auto split: if_splits)
qed simp

lemma max_by_key_Some:
  assumes "max_by_key f xs = Some x"
  shows "x \<in> set xs \<and> (\<forall>y \<in> set xs. f y \<le> f x)"
proof (cases xs)
  case (Cons z zs)
  with assms foldl_max_spec [of f z zs] show ?thesis by auto
qed (use assms in simp)


text \<open>\<^verbatim>\<open>iter_mut().find(P)\<close> followed by a write: the first match is updated in place, and \<^const>\<open>None\<close> says that
  there is none.\<close>

fun update_first :: "('a \<Rightarrow> bool) \<Rightarrow> ('a \<Rightarrow> 'a) \<Rightarrow> 'a list \<Rightarrow> 'a list option" where
  "update_first P f [] = None"
| "update_first P f (x # xs) = (if P x then Some (f x # xs) else map_option (Cons x) (update_first P f xs))"

lemma update_first_list_all:
  "update_first P f xs = Some ys \<Longrightarrow> list_all Q xs \<Longrightarrow> (\<And>x. Q x \<Longrightarrow> Q (f x)) \<Longrightarrow> list_all Q ys"
  by (induction xs arbitrary: ys) (auto split: if_splits)

lemma update_first_fresh:
  "list_all (\<lambda>x. \<not> P x) xs \<Longrightarrow> P y \<Longrightarrow> update_first P f (xs @ [y]) = Some (xs @ [f y])"
  by (induction xs) auto

lemma update_first_None: "update_first P f xs = None \<longleftrightarrow> find P xs = None"
  by (induction xs) auto

lemma update_first_find:
  "update_first P f xs = Some ys \<Longrightarrow> (\<And>x. P x \<Longrightarrow> P (f x)) \<Longrightarrow> find P ys = map_option f (find P xs)"
  by (induction xs arbitrary: ys) (auto split: if_splits)

lemma update_first_find_other:
  "update_first P f xs = Some ys \<Longrightarrow> (\<And>x. P x \<Longrightarrow> \<not> Q x \<and> \<not> Q (f x)) \<Longrightarrow> find Q ys = find Q xs"
  by (induction xs arbitrary: ys) (auto split: if_splits)

lemma update_first_map:
  "update_first P f xs = Some ys \<Longrightarrow> (\<And>x. P x \<Longrightarrow> g (f x) = g x) \<Longrightarrow> map g ys = map g xs"
  by (induction xs arbitrary: ys) (auto split: if_splits)

lemma length_filter_eq: "length (filter P xs) = length xs \<longleftrightarrow> (\<forall>x \<in> set xs. P x)"
  by (metis filter_True length_filter_less less_irrefl)

lemma in_take_or_drop: "x \<in> set xs \<Longrightarrow> x \<in> set (take n xs) \<or> x \<in> set (drop n xs)"
  by (metis append_take_drop_id Un_iff set_append)

lemma find_filter_other: "find P (filter Q xs) = find (\<lambda>x. P x \<and> Q x) xs"
  by (induction xs) auto

lemma find_Some_mem: "find P xs = Some x \<Longrightarrow> x \<in> set xs \<and> P x"
  by (induction xs) (auto split: if_splits)

lemma find_snoc: "find P (xs @ [x]) = (case find P xs of Some y \<Rightarrow> Some y | None \<Rightarrow> if P x then Some x else None)"
  by (induction xs) auto


text \<open>The leftmost minimal element that satisfies a predicate, as a stable sort finds it.\<close>

fun first_min :: "('a \<Rightarrow> bool) \<Rightarrow> ('a \<Rightarrow> 'b::linorder) \<Rightarrow> 'a list \<Rightarrow> 'a option" where
  "first_min P f [] = None"
| "first_min P f (x # xs) =
     (if P x then (case first_min P f xs of Some y \<Rightarrow> if f y < f x then Some y else Some x | None \<Rightarrow> Some x)
      else first_min P f xs)"

lemma find_insort:
  "sorted (map f ys) \<Longrightarrow> find P (insort_key f x ys) =
     (if P x then (case find P ys of Some y \<Rightarrow> if f y < f x then Some y else Some x | None \<Rightarrow> Some x) else find P ys)"
proof (induction ys)
  case (Cons y ys)
  have "f y \<le> f z" if "find P ys = Some z" for z
    using that Cons.prems find_Some_mem [of P ys z] by auto
  then show ?case
    using Cons by (auto split: option.split)
qed simp

lemma find_sort_key: "find P (sort_key f xs) = first_min P f xs"
  by (induction xs) (simp_all add: find_insort split: option.split)

lemma first_min_Some:
  "first_min P f xs = Some x \<Longrightarrow> x \<in> set xs \<and> P x \<and> (\<forall>y \<in> set xs. P y \<longrightarrow> f x \<le> f y)"
proof (induction xs arbitrary: x)
  case (Cons z zs)
  show ?case
  proof (cases "first_min P f zs")
    case None
    then have "\<forall>y \<in> set zs. \<not> P y"
      by (induction zs) (auto split: if_splits option.splits)
    then show ?thesis using Cons.prems None by (auto split: if_splits)
  next
    case (Some y)
    then show ?thesis using Cons.prems Cons.IH [OF Some] by (fastforce split: if_splits)
  qed
qed simp


text \<open>The newest \<open>n\<close> elements of a list that grows at the end.\<close>

definition last_n :: "nat \<Rightarrow> 'a list \<Rightarrow> 'a list" where
  "last_n n xs = drop (length xs - n) xs"

lemma last_n_snoc: "last_n n (last_n n xs @ [x]) = last_n n (xs @ [x])"
  by (cases "length xs \<le> n") (auto simp: last_n_def Suc_diff_le)

lemma length_last_n [simp]: "length (last_n n xs) = min n (length xs)"
  by (auto simp: last_n_def)

lemma map_last_n: "map f (last_n n xs) = last_n n (map f xs)"
  by (simp add: last_n_def drop_map)

lemma set_last_n: "set (last_n n xs) \<subseteq> set xs"
  by (simp add: last_n_def set_drop_subset)


section \<open>Hash maps\<close>

abbreviation hm_get :: "('k, 'v) hash_map \<Rightarrow> 'k \<Rightarrow> 'v option" where
  "hm_get m k \<equiv> map_of m k"

abbreviation hm_contains_key :: "('k, 'v) hash_map \<Rightarrow> 'k \<Rightarrow> bool" where
  "hm_contains_key m k \<equiv> map_of m k \<noteq> None"

abbreviation hm_insert :: "'k \<Rightarrow> 'v \<Rightarrow> ('k, 'v) hash_map \<Rightarrow> ('k, 'v) hash_map" where
  "hm_insert \<equiv> AList.update"

abbreviation hm_remove :: "'k \<Rightarrow> ('k, 'v) hash_map \<Rightarrow> ('k, 'v) hash_map" where
  "hm_remove \<equiv> AList.delete"

text \<open>\<^verbatim>\<open>HashMap::retain\<close> and the in-place update of all values (\<^verbatim>\<open>values_mut\<close>).\<close>

definition hm_retain :: "('k \<Rightarrow> 'v \<Rightarrow> bool) \<Rightarrow> ('k, 'v) hash_map \<Rightarrow> ('k, 'v) hash_map" where
  "hm_retain P m = filter (\<lambda>(k, v). P k v) m"

definition hm_map_values :: "('v \<Rightarrow> 'v) \<Rightarrow> ('k, 'v) hash_map \<Rightarrow> ('k, 'v) hash_map" where
  "hm_map_values f m = map (\<lambda>(k, v). (k, f v)) m"

text \<open>\<^verbatim>\<open>get_mut\<close> followed by a write: nothing happens on a missing key.\<close>

definition hm_modify :: "'k \<Rightarrow> ('v \<Rightarrow> 'v) \<Rightarrow> ('k, 'v) hash_map \<Rightarrow> ('k, 'v) hash_map" where
  "hm_modify k f m = (case map_of m k of None \<Rightarrow> m | Some v \<Rightarrow> AList.update k (f v) m)"

definition hm_wf :: "('k, 'v) hash_map \<Rightarrow> bool" where
  "hm_wf m = distinct (map fst m)"

lemma hm_get_insert [hm_simps, simp]:
  "map_of (AList.update k v m) j = (if j = k then Some v else map_of m j)"
  by (simp add: update_conv')

lemma hm_get_remove [hm_simps, simp]:
  "map_of (AList.delete k m) j = (if j = k then None else map_of m j)"
  by (simp add: delete_conv')

lemma hm_get_modify [hm_simps, simp]:
  "map_of (hm_modify k f m) j = (if j = k then map_option f (map_of m k) else map_of m j)"
  by (auto simp: hm_modify_def split: option.splits)

lemma hm_get_map_values [hm_simps, simp]:
  "map_of (hm_map_values f m) j = map_option f (map_of m j)"
  by (induction m) (auto simp: hm_map_values_def)

lemma hm_get_retain [hm_simps, simp]:
  "hm_wf m \<Longrightarrow> map_of (hm_retain P m) j =
     (case map_of m j of None \<Rightarrow> None | Some v \<Rightarrow> if P j v then Some v else None)"
proof (induction m)
  case Nil
  then show ?case by (simp add: hm_retain_def)
next
  case (Cons a m)
  obtain k v where a: "a = (k, v)" by (cases a)
  have "map_of m k = None"
    using Cons.prems a by (simp add: hm_wf_def map_of_eq_None_iff)
  with Cons a show ?case
    by (auto simp: hm_wf_def hm_retain_def split: option.splits)
qed

lemma hm_wf_Nil [simp]: "hm_wf []"
  by (simp add: hm_wf_def)

lemma hm_wf_insert [intro, simp]: "hm_wf m \<Longrightarrow> hm_wf (AList.update k v m)"
  by (simp add: hm_wf_def distinct_update)

lemma hm_wf_remove [intro, simp]: "hm_wf m \<Longrightarrow> hm_wf (AList.delete k m)"
  by (simp add: hm_wf_def distinct_delete)

lemma hm_wf_modify [intro, simp]: "hm_wf m \<Longrightarrow> hm_wf (hm_modify k f m)"
  by (auto simp: hm_modify_def split: option.splits)

lemma hm_wf_retain [intro, simp]: "hm_wf m \<Longrightarrow> hm_wf (hm_retain P m)"
  by (simp add: hm_wf_def hm_retain_def distinct_map_filter)

lemma length_update: "length (hm_insert k v m) = (if hm_contains_key m k then length m else Suc (length m))"
  by (induction m) auto

lemma length_delete: "hm_wf m \<Longrightarrow> hm_contains_key m k \<Longrightarrow> length (hm_remove k m) = length m - 1"
proof (induction m)
  case (Cons a m)
  obtain k' v where a: "a = (k', v)" by (cases a)
  show ?case
  proof (cases "k' = k")
    case True
    then have "hm_remove k m = m" using Cons.prems(1) a by (simp add: hm_wf_def delete_id)
    then show ?thesis using a True by simp
  next
    case False
    then have "hm_contains_key m k" using Cons.prems(2) a by (simp split: if_splits)
    moreover from this have "0 < length m" by (cases m) auto
    ultimately show ?thesis using Cons a False by (simp add: hm_wf_def)
  qed
qed simp

lemma map_fst_map_values [simp]: "map fst (hm_map_values f m) = map fst m"
  by (induction m) (auto simp: hm_map_values_def)

lemma hm_wf_map_values [intro, simp]: "hm_wf m \<Longrightarrow> hm_wf (hm_map_values f m)"
  by (simp add: hm_wf_def)


section \<open>Step relations and their invariants\<close>

text \<open>
  The contract of a component whose operations interleave: a predicate on initial states, a step
  relation and an invariant that the initial states satisfy and every step keeps.  The clients
  of a component use only \<open>reachable_inv\<close> and its companions.
\<close>

locale invariant_system =
  fixes init :: "'s \<Rightarrow> bool"
    and step :: "'s \<Rightarrow> 's \<Rightarrow> bool"
    and inv :: "'s \<Rightarrow> bool"
  assumes inv_init: "init s \<Longrightarrow> inv s"
    and inv_step: "inv s \<Longrightarrow> step s t \<Longrightarrow> inv t"
begin

lemma steps_inv: "step\<^sup>*\<^sup>* s t \<Longrightarrow> inv s \<Longrightarrow> inv t"
  by (induction rule: rtranclp_induct) (auto intro: inv_step)

lemma reachable_inv: "init s \<Longrightarrow> step\<^sup>*\<^sup>* s t \<Longrightarrow> inv t"
  using steps_inv inv_init by blast

lemma reachable_step_inv: "init s \<Longrightarrow> step\<^sup>*\<^sup>* s t \<Longrightarrow> step t u \<Longrightarrow> inv t \<and> inv u"
  using reachable_inv inv_step by blast

text \<open>A quantity that no step decreases under the invariant only grows along a run.\<close>

lemma steps_mono:
  fixes f :: "'s \<Rightarrow> 'a::order"
  assumes mono: "\<And>u v. inv u \<Longrightarrow> step u v \<Longrightarrow> f u \<le> f v"
  shows "step\<^sup>*\<^sup>* s t \<Longrightarrow> inv s \<Longrightarrow> f s \<le> f t"
proof (induction rule: rtranclp_induct)
  case base
  then show ?case by simp
next
  case (step u v)
  then have "inv u" using steps_inv by blast
  with mono step have "f u \<le> f v" by blast
  with step show ?case by auto
qed

end

end
