(* ===== verification/Stream_Chunker.thy ===== *)
theory Stream_Chunker
  imports Prelude
begin

text \<open>
  \<^verbatim>\<open>agent-core/src/stream_chunker.rs\<close>: splitting a streamed answer into messages at paragraph, line or
  sentence ends, closing and reopening code fences.  The loop of \<^verbatim>\<open>drain\<close> need not end, so it has
  fuel; its outcome distinguishes running out of fuel from the panic of a slice inside a
  character.
\<close>

section \<open>Configuration and fences\<close>

datatype break_preference = ParagraphBreak | NewlineBreak | SentenceBreak

record chunking_config =
  min_chars :: nat
  max_chars :: nat
  preference :: break_preference
  flush_on_paragraph :: bool

definition default_chunking_config :: chunking_config where
  "default_chunking_config =
     \<lparr>min_chars = 200, max_chars = 1500, preference = ParagraphBreak, flush_on_paragraph = False\<rparr>"

record fence_span =
  fs_start :: nat
  fs_end :: nat
  fs_open_line :: string
  fs_marker :: char
  fs_indent :: string

record open_fence =
  of_start :: nat
  of_marker :: char
  of_len :: nat
  of_indent :: string
  of_line :: string

definition backtick :: char where "backtick = CHR 0x60"
definition tilde :: char where "tilde = CHR 0x7E"

text \<open>The marker at the front of a line: the character and how often it is repeated.\<close>

definition fence_marker :: "string \<Rightarrow> (char \<times> nat) option" where
  "fence_marker line =
     (let trimmed = trim_start line; indent_len = length line - length trimmed in
      if indent_len \<le> 3 then
        (case trimmed of
           [] \<Rightarrow> None
         | c # _ \<Rightarrow>
             (let marker_len = length (takeWhile (\<lambda>x. x = c) trimmed) in
              if (c = backtick \<or> c = tilde) \<and> marker_len \<ge> 3 then Some (c, marker_len) else None))
      else None)"

definition close_fence :: "open_fence \<Rightarrow> nat \<Rightarrow> fence_span" where
  "close_fence f e =
     \<lparr>fs_start = of_start f, fs_end = e, fs_open_line = of_line f, fs_marker = of_marker f, fs_indent = of_indent f\<rparr>"

fun parse_lines :: "nat \<Rightarrow> string list \<Rightarrow> nat \<Rightarrow> open_fence option \<Rightarrow> fence_span list" where
  "parse_lines len [] pos op = (case op of None \<Rightarrow> [] | Some f \<Rightarrow> [close_fence f len])"
| "parse_lines len (line # lines) pos op =
     (let pos' = pos + length line + 1 in
      case fence_marker line of
        None \<Rightarrow> parse_lines len lines pos' op
      | Some (c, n) \<Rightarrow>
          (case op of
             Some f \<Rightarrow>
               if c = of_marker f \<and> n \<ge> of_len f
               then close_fence f (pos + length line) # parse_lines len lines pos' None
               else parse_lines len lines pos' op
           | None \<Rightarrow>
               parse_lines len lines pos'
                 (Some \<lparr>of_start = pos, of_marker = c, of_len = n,
                        of_indent = take (length line - length (trim_start line)) line, of_line = line\<rparr>)))"

definition parse_fence_spans :: "string \<Rightarrow> fence_span list" where
  "parse_fence_spans s = parse_lines (length s) (split_on newline s) 0 None"

definition is_safe_fence_break :: "fence_span list \<Rightarrow> nat \<Rightarrow> bool" where
  "is_safe_fence_break spans i = (\<not> list_ex (\<lambda>s. i > fs_start s \<and> i < fs_end s) spans)"


section \<open>Break positions\<close>

text \<open>The backward searches: \<open>find_last\<close> gives the position of the last match in a prefix, which lies before
  the end of the prefix for the non-empty patterns used here; the last test only makes
  that visible for the termination proof.\<close>

function search_back ::
  "(string \<Rightarrow> nat option) \<Rightarrow> nat \<Rightarrow> string \<Rightarrow> fence_span list \<Rightarrow> nat \<Rightarrow> nat option" where
  "search_back find_last mn buf spans i =
     (if i > mn then
        (case find_last (take i buf) of
           None \<Rightarrow> None
         | Some pos \<Rightarrow>
             if pos < mn then None
             else if is_safe_fence_break spans pos then Some pos
             else if pos < i then search_back find_last mn buf spans pos else None)
      else None)"
  by pat_completeness auto
termination
  by (relation "measure (\<lambda>(f, mn, buf, spans, i). i)") auto

declare search_back.simps [simp del]

definition find_paragraph_break :: "nat \<Rightarrow> string \<Rightarrow> fence_span list \<Rightarrow> nat option" where
  "find_paragraph_break mn buf spans = search_back (rfind_str [newline, newline]) mn buf spans (length buf)"

definition find_newline_break :: "nat \<Rightarrow> string \<Rightarrow> fence_span list \<Rightarrow> nat option" where
  "find_newline_break mn buf spans = search_back (rfind_char newline) mn buf spans (length buf)"

definition sentence_end :: "nat \<Rightarrow> string \<Rightarrow> fence_span list \<Rightarrow> nat \<Rightarrow> bool" where
  "sentence_end mn buf spans i =
     (i \<ge> mn \<and> buf ! i \<in> {CHR ''.'', CHR ''!'', CHR ''?''}
      \<and> (i + 1 \<ge> length buf \<or> ws_len (drop (i + 1) buf) > 0)
      \<and> is_safe_fence_break spans (i + 1))"

definition find_sentence_break :: "nat \<Rightarrow> string \<Rightarrow> fence_span list \<Rightarrow> nat option" where
  "find_sentence_break mn buf spans =
     fold (\<lambda>i lst. if sentence_end mn buf spans i then Some (i + 1) else lst) [0..<length buf] None"

definition or_else :: "'a option \<Rightarrow> 'a option \<Rightarrow> 'a option" where
  "or_else a b = (case a of Some x \<Rightarrow> Some x | None \<Rightarrow> b)"

text \<open>\<^const>\<open>None\<close> is the panic of \<^verbatim>\<open>&self.buffer[..window]\<close>.\<close>

definition pick_break_index :: "chunking_config \<Rightarrow> string \<Rightarrow> nat option" where
  "pick_break_index cfg buffer =
     (let window = min (length buffer) (max_chars cfg) in
      case slice_to buffer window of
        None \<Rightarrow> None
      | Some buf \<Rightarrow>
          (let spans = parse_fence_spans buf; mn = min_chars cfg;
               sentence = find_sentence_break mn buf spans;
               line = or_else (find_newline_break mn buf spans) sentence
           in or_else
                (case preference cfg of
                   ParagraphBreak \<Rightarrow> or_else (find_paragraph_break mn buf spans) line
                 | NewlineBreak \<Rightarrow> line
                 | SentenceBreak \<Rightarrow> sentence)
                (Some window)))"

definition split_at :: "string \<Rightarrow> nat \<Rightarrow> (string \<times> string option \<times> string option \<times> string) option" where
  "split_at buffer idx =
     (case (slice_to buffer idx, slice_from buffer idx) of
        (Some chunk, Some rest) \<Rightarrow>
          (let buffer' = trim_newlines rest; spans = parse_fence_spans chunk in
           if spans \<noteq> [] \<and> fs_end (last spans) \<ge> length chunk
           then Some (chunk, Some (newline # fs_indent (last spans) @ replicate 3 (fs_marker (last spans))),
                      Some (fs_open_line (last spans) @ [newline]), buffer')
           else Some (chunk, None, None, buffer'))
      | _ \<Rightarrow> None)"


section \<open>drain\<close>

datatype drain_result = Drained "string list" string | Panicked | OutOfFuel

fun drain_loop :: "nat \<Rightarrow> chunking_config \<Rightarrow> bool \<Rightarrow> string list \<Rightarrow> string \<Rightarrow> drain_result" where
  "drain_loop 0 cfg force chunks buffer = OutOfFuel"
| "drain_loop (Suc fuel) cfg force chunks buffer =
     (if trim buffer = [] then Drained chunks (if force then [] else buffer)
      else if \<not> force \<and> length buffer < min_chars cfg then Drained chunks buffer
      else if force \<and> length buffer \<le> max_chars cfg then Drained (chunks @ [trim buffer]) []
      else
        (case pick_break_index cfg buffer of
           None \<Rightarrow> Panicked
         | Some idx \<Rightarrow>
             (case split_at buffer idx of
                None \<Rightarrow> Panicked
              | Some (chunk, fence_close, fence_reopen, rest) \<Rightarrow>
                  (let out = chunk @ (case fence_close of Some c \<Rightarrow> c | None \<Rightarrow> []);
                       trimmed = trim out;
                       chunks' = (if trimmed \<noteq> [] then chunks @ [trimmed] else chunks);
                       buffer' = (case fence_reopen of Some r \<Rightarrow> r @ trim_newlines rest | None \<Rightarrow> rest)
                   in drain_loop fuel cfg force chunks' buffer'))))"

record stream_chunker =
  sc_config :: chunking_config
  sc_buffer :: string

definition chunker_new :: "chunking_config \<Rightarrow> stream_chunker" where
  "chunker_new cfg = \<lparr>sc_config = cfg, sc_buffer = []\<rparr>"

definition chunker_push :: "string \<Rightarrow> stream_chunker \<Rightarrow> stream_chunker" where
  "chunker_push s ch = ch\<lparr>sc_buffer := sc_buffer ch @ s\<rparr>"

definition drain :: "nat \<Rightarrow> bool \<Rightarrow> stream_chunker \<Rightarrow> (string list \<times> stream_chunker) option" where
  "drain fuel force ch =
     (case drain_loop fuel (sc_config ch) force [] (sc_buffer ch) of
        Drained chunks rest \<Rightarrow> Some (chunks, ch\<lparr>sc_buffer := rest\<rparr>)
      | _ \<Rightarrow> None)"


section \<open>Plain text\<close>

text \<open>ASCII text without fence markers, for which splitting is exact.\<close>

definition plain_char :: "char \<Rightarrow> bool" where
  "plain_char c = (byte c < 128 \<and> c \<noteq> backtick \<and> c \<noteq> tilde)"

definition visible :: "string \<Rightarrow> string" where
  "visible s = filter (\<lambda>c. \<not> ws1 (byte c)) s"

lemma visible_append [simp]: "visible (s @ t) = visible s @ visible t"
  by (simp add: visible_def)

lemma visible_Nil [simp]: "visible [] = []"
  by (simp add: visible_def)

lemma trim_Nil: "trim [] = []"
  using length_trim_le [of "[]"] by simp

lemma split_on_chars: "l \<in> set (split_on c s) \<Longrightarrow> set l \<subseteq> set s"
proof (induction s arbitrary: l)
  case (Cons x s)
  then show ?case
    by (fastforce split: if_splits list.splits)
qed simp

lemma fence_marker_chars: "fence_marker l = Some (c, n) \<Longrightarrow> c \<in> set l \<and> (c = backtick \<or> c = tilde)"
  using set_mono_suffix [OF trim_start_suffix [of l]]
  by (auto simp: fence_marker_def Let_def split: if_splits list.splits)

lemma parse_lines_plain: "(\<And>l. l \<in> set ls \<Longrightarrow> fence_marker l = None) \<Longrightarrow> parse_lines n ls pos None = []"
  by (induction ls arbitrary: pos) (auto simp: Let_def)

lemma parse_plain:
  assumes "list_all plain_char s"
  shows "parse_fence_spans s = []"
proof -
  have "fence_marker l = None" if "l \<in> set (split_on newline s)" for l
    using split_on_chars [OF that] assms fence_marker_chars [of l]
    by (cases "fence_marker l") (auto simp: list_all_iff plain_char_def)
  then show ?thesis
    unfolding parse_fence_spans_def by (rule parse_lines_plain)
qed

lemma plain_boundary:
  assumes "list_all plain_char s" and "i \<le> length s"
  shows "is_char_boundary s i"
proof (cases "i < length s")
  case True
  then have "byte (s ! i) < 128"
    using assms(1) by (simp add: list_all_length plain_char_def)
  with True show ?thesis
    by (simp add: is_char_boundary_def continuation_def)
qed (use assms(2) in simp)

lemma plain_take: "list_all plain_char s \<Longrightarrow> list_all plain_char (take i s)"
  and plain_drop: "list_all plain_char s \<Longrightarrow> list_all plain_char (drop i s)"
  and plain_trim_newlines: "list_all plain_char s \<Longrightarrow> list_all plain_char (trim_newlines s)"
  by (auto simp: list_all_iff trim_newlines_def dest: in_set_takeD in_set_dropD set_dropWhileD)

lemma ws_len_plain: "plain_char c \<Longrightarrow> ws_len (c # s) = (if ws1 (byte c) then 1 else 0)"
  by (cases "c # s" rule: ws_len.cases) (auto simp: plain_char_def ws2_def)

lemma ws_len_rev_plain:
  "list_all plain_char (c # s) \<Longrightarrow> ws_len_rev (c # s) = (if ws1 (byte c) then 1 else 0)"
  by (cases "c # s" rule: ws_len_rev.cases) (auto simp: plain_char_def ws2_def)

lemma visible_trim_start: "list_all plain_char s \<Longrightarrow> visible (trim_start s) = visible s"
proof (induction s)
  case (Cons c s)
  then show ?case
    by (subst trim_start.simps) (simp add: ws_len_plain visible_def)
qed (simp add: trim_start.simps)

lemma visible_trim_start_rev: "list_all plain_char s \<Longrightarrow> visible (trim_start_rev s) = visible s"
proof (induction s)
  case (Cons c s)
  then show ?case
    by (subst trim_start_rev.simps) (simp add: ws_len_rev_plain visible_def)
qed (simp add: trim_start_rev.simps)

lemma visible_rev: "visible (rev s) = rev (visible s)"
  by (simp add: visible_def rev_filter)

lemma visible_trim:
  assumes "list_all plain_char s"
  shows "visible (trim s) = visible s"
proof -
  have "list_all plain_char (trim_start s)"
    using assms set_mono_suffix [OF trim_start_suffix [of s]] by (auto simp: list_all_iff)
  then have "visible (trim_start_rev (rev (trim_start s))) = visible (rev (trim_start s))"
    by (intro visible_trim_start_rev) simp
  then show ?thesis
    using visible_trim_start [OF assms] by (simp add: trim_def trim_end_def visible_rev)
qed

lemma visible_trim_newlines: "visible (trim_newlines s) = visible s"
  by (induction s) (auto simp: trim_newlines_def visible_def newline_def ws1_def)

lemma search_back_Some: "search_back f mn buf spans i = Some pos \<Longrightarrow> \<exists>j. f (take j buf) = Some pos"
proof (induction f mn buf spans i rule: search_back.induct)
  case (1 f mn buf spans i)
  then show ?case
    by (subst (asm) (2) search_back.simps) (auto split: if_splits option.splits)
qed

lemma find_newline_break_Some:
  assumes "find_newline_break mn buf spans = Some pos"
  shows "pos < length buf \<and> buf ! pos = newline"
proof -
  obtain j where "rfind_char newline (take j buf) = Some pos"
    using assms search_back_Some unfolding find_newline_break_def by blast
  from rfind_char_Some [OF this] show ?thesis by auto
qed

lemma find_paragraph_break_Some:
  assumes "find_paragraph_break mn buf spans = Some pos"
  shows "pos < length buf \<and> buf ! pos = newline"
proof -
  obtain j where "rfind_str [newline, newline] (take j buf) = Some pos"
    using assms search_back_Some unfolding find_paragraph_break_def by blast
  from rfind_str_Some [OF this] have "pos + 2 \<le> length (take j buf)"
      "take (Suc (Suc 0)) (drop pos (take j buf)) = [newline, newline]"
    by simp_all
  then show ?thesis
    by (auto simp: take_Suc_conv_app_nth)
qed

lemma find_sentence_break_Some:
  assumes "find_sentence_break mn buf spans = Some pos"
  shows "0 < pos \<and> pos \<le> length buf"
proof -
  have "fold (\<lambda>i lst. if P i then Some (i + 1) else lst) [0..<n] None = Some p \<Longrightarrow> 0 < p \<and> p \<le> n" for P n p
    by (induction n) (auto split: if_splits)
  then show ?thesis
    using assms unfolding find_sentence_break_def by blast
qed

text \<open>A break position makes progress: it is positive, or a newline that is stripped afterwards.\<close>

lemma pick_break_plain:
  assumes "list_all plain_char buffer" and "0 < max_chars cfg" and "buffer \<noteq> []"
  shows "\<exists>idx. pick_break_index cfg buffer = Some idx \<and> idx \<le> min (length buffer) (max_chars cfg)
    \<and> (0 < idx \<or> buffer ! idx = newline)"
proof -
  let ?w = "min (length buffer) (max_chars cfg)"
  let ?buf = "take ?w buffer" and ?spans = "parse_fence_spans (take ?w buffer)" and ?mn = "min_chars cfg"
  have ok: "slice_to buffer ?w = Some ?buf"
    using plain_boundary [OF assms(1), of ?w] by simp
  have w: "0 < ?w" using assms(2,3) by simp
  have nl: "idx \<le> ?w \<and> (0 < idx \<or> buffer ! idx = newline)" if "idx < length ?buf \<and> ?buf ! idx = newline" for idx
    using that by auto
  have par: "find_paragraph_break ?mn ?buf ?spans = Some idx \<Longrightarrow> idx \<le> ?w \<and> (0 < idx \<or> buffer ! idx = newline)" for idx
    using nl find_paragraph_break_Some by blast
  have lin: "find_newline_break ?mn ?buf ?spans = Some idx \<Longrightarrow> idx \<le> ?w \<and> (0 < idx \<or> buffer ! idx = newline)" for idx
    using nl find_newline_break_Some by blast
  have sen: "find_sentence_break ?mn ?buf ?spans = Some idx \<Longrightarrow> idx \<le> ?w \<and> (0 < idx \<or> buffer ! idx = newline)" for idx
    using find_sentence_break_Some [of ?mn ?buf ?spans idx] by auto
  show ?thesis
    using ok w par lin sen
    by (cases "find_paragraph_break ?mn ?buf ?spans"; cases "find_newline_break ?mn ?buf ?spans";
        cases "find_sentence_break ?mn ?buf ?spans"; cases "preference cfg")
      (auto simp: pick_break_index_def or_else_def Let_def)
qed

lemma split_at_plain:
  assumes "list_all plain_char buffer" and "idx \<le> length buffer"
  shows "split_at buffer idx = Some (take idx buffer, None, None, trim_newlines (drop idx buffer))"
  using plain_boundary [OF assms] parse_plain [OF plain_take [OF assms(1), of idx]]
  by (simp add: split_at_def Let_def)

lemma break_progress:
  assumes "idx \<le> length buffer" and "0 < idx \<or> buffer ! idx = newline" and "buffer \<noteq> []"
  shows "length (trim_newlines (drop idx buffer)) < length buffer"
proof (cases "0 < idx")
  case True
  have "length (trim_newlines (drop idx buffer)) \<le> length (drop idx buffer)"
    unfolding trim_newlines_def by (rule length_dropWhile_le)
  then show ?thesis using True assms by simp
next
  case False
  then obtain s where "buffer = newline # s"
    using assms by (cases buffer) auto
  then show ?thesis
    using False length_dropWhile_le [of "\<lambda>c. c = newline" s] by (simp add: trim_newlines_def)
qed

lemma drain_loop_plain:
  assumes "0 < max_chars cfg"
  shows "list_all plain_char buffer \<Longrightarrow> length buffer < fuel \<Longrightarrow>
    \<exists>cs rest. drain_loop fuel cfg force chunks buffer = Drained (chunks @ cs) rest
      \<and> list_all (\<lambda>c. c \<noteq> [] \<and> length c \<le> max_chars cfg) cs
      \<and> visible (concat cs @ rest) = visible buffer \<and> (force \<longrightarrow> rest = [])"
proof (induction fuel arbitrary: chunks buffer)
  case (Suc fuel)
  note plain = Suc.prems(1)
  show ?case
  proof (cases "trim buffer = [] \<or> \<not> force \<and> length buffer < min_chars cfg")
    case True
    have "visible buffer = []" if "trim buffer = []"
      using visible_trim [OF plain] that by (simp add: visible_def)
    then show ?thesis using True by (cases force) (auto simp: visible_def)
  next
    case more: False
    show ?thesis
    proof (cases "force \<and> length buffer \<le> max_chars cfg")
      case True
      then show ?thesis
        using more length_trim_le [of buffer] visible_trim [OF plain] by auto
    next
      case False
      have "buffer \<noteq> []"
        using more trim_Nil by auto
      then obtain idx where idx: "pick_break_index cfg buffer = Some idx" "idx \<le> min (length buffer) (max_chars cfg)"
          "0 < idx \<or> buffer ! idx = newline"
        using pick_break_plain [OF plain assms] by blast
      let ?rest = "trim_newlines (drop idx buffer)" and ?c = "trim (take idx buffer)"
      let ?new = "if ?c \<noteq> [] then [?c] else []"
      have unf: "drain_loop (Suc fuel) cfg force chunks buffer = drain_loop fuel cfg force (chunks @ ?new) ?rest"
        using more False idx split_at_plain [OF plain, of idx] by (auto simp: Let_def)
      have "length ?rest < fuel"
        using break_progress [OF _ idx(3) \<open>buffer \<noteq> []\<close>] idx(2) Suc.prems(2) by simp
      then obtain cs rest where ih: "drain_loop fuel cfg force (chunks @ ?new) ?rest = Drained ((chunks @ ?new) @ cs) rest"
          "list_all (\<lambda>c. c \<noteq> [] \<and> length c \<le> max_chars cfg) cs"
          "visible (concat cs @ rest) = visible ?rest" "force \<longrightarrow> rest = []"
        using Suc.IH [OF plain_trim_newlines [OF plain_drop [OF plain]]] by blast
      have "length ?c \<le> max_chars cfg"
        using length_trim_le [of "take idx buffer"] idx(2) by simp
      moreover have "visible ?c @ visible ?rest = visible buffer"
        using visible_trim [OF plain_take [OF plain]] visible_append [of "take idx buffer" "drop idx buffer"]
        by (simp add: visible_trim_newlines)
      moreover have "visible (concat ?new) = visible ?c"
        by (simp add: visible_def)
      ultimately show ?thesis
        using unf ih by (intro exI [of _ "?new @ cs"] exI [of _ rest]) auto
    qed
  qed
qed simp



section \<open>Properties\<close>

text \<open>C32: flushing plain text is complete.  For ASCII text without fence characters and a positive
  size limit, a forced drain ends within one pass per byte, empties the buffer, emits only non-empty messages within the
  limit, and together they hold every visible character of the buffer in order.\<close>

theorem drain_plain_text:
  assumes "list_all plain_char (sc_buffer ch)" and "0 < max_chars (sc_config ch)"
  shows "\<exists>chunks. drain (Suc (length (sc_buffer ch))) True ch = Some (chunks, ch\<lparr>sc_buffer := []\<rparr>)
    \<and> list_all (\<lambda>c. c \<noteq> [] \<and> length c \<le> max_chars (sc_config ch)) chunks
    \<and> visible (concat chunks) = visible (sc_buffer ch)"
  using drain_loop_plain [OF assms(2,1), of "Suc (length (sc_buffer ch))" True "[]"]
  by (fastforce simp: drain_def)

definition sample_chunker :: stream_chunker where
  "sample_chunker = \<lparr>sc_config = \<lparr>min_chars = 2, max_chars = 6, preference = SentenceBreak, flush_on_paragraph = False\<rparr>,
     sc_buffer = ''Hi. Go now!''\<rparr>"

theorem drain_plain_text_witness:
  "\<exists>chunks. drain (Suc (length (sc_buffer sample_chunker))) True sample_chunker
       = Some (chunks, sample_chunker\<lparr>sc_buffer := []\<rparr>)
     \<and> list_all (\<lambda>c. c \<noteq> [] \<and> length c \<le> 6) chunks \<and> visible (concat chunks) = ''Hi.Gonow!''"
proof -
  have "list_all plain_char (sc_buffer sample_chunker)" "0 < max_chars (sc_config sample_chunker)"
    "visible (sc_buffer sample_chunker) = ''Hi.Gonow!''" "max_chars (sc_config sample_chunker) = 6"
    by (simp_all add: sample_chunker_def plain_char_def backtick_def tilde_def visible_def ws1_def)
  then show ?thesis
    using drain_plain_text [of sample_chunker] by (simp only:)
qed

text \<open>A code block that ends exactly at a break is closed a second time and reopened: the end of a
  closed fence is its last byte, and the test for an open fence only compares it with the end of
  the chunk.\<close>

definition fence3 :: string where "fence3 = replicate 3 backtick"

theorem closed_fence_reopened:
  "split_at (fence3 @ [newline] @ ''x'' @ [newline] @ fence3 @ [newline, newline] @ ''next'') 9 =
     Some (fence3 @ [newline] @ ''x'' @ [newline] @ fence3, Some (newline # fence3), Some (fence3 @ [newline]), ''next'')"
  by code_simp

text \<open>A fence line as long as the size limit makes \<^verbatim>\<open>drain\<close> loop forever: the chunk is put back
  as the reopened fence, so no amount of fuel is enough.\<close>

definition tight_config :: chunking_config where
  "tight_config = \<lparr>min_chars = 0, max_chars = 3, preference = SentenceBreak, flush_on_paragraph = False\<rparr>"

lemma reopened_fence_step:
  "pick_break_index tight_config (fence3 @ newline # ''x'') = Some 3"
  "split_at (fence3 @ newline # ''x'') 3 =
     Some (fence3, Some (newline # fence3), Some (fence3 @ [newline]), ''x'')"
  "trim (fence3 @ newline # ''x'') \<noteq> []" "trim (fence3 @ newline # fence3) \<noteq> []"
  "length (fence3 @ newline # ''x'') > max_chars tight_config" "trim_newlines ''x'' = ''x''"
  by code_simp+

theorem long_fence_line_never_drains:
  "drain_loop fuel tight_config True chunks (fence3 @ newline # ''x'') = OutOfFuel"
proof (induction fuel arbitrary: chunks)
  case (Suc fuel)
  then show ?case
    using reopened_fence_step by (simp add: Let_def)
qed simp

end
