(* ===== verification/Cron_Service.thy ===== *)
theory Cron_Service
  imports Prelude
begin

text \<open>
  \<^verbatim>\<open>cron-core\<close>: the job data (\<^verbatim>\<open>types.rs\<close>), next run times (\<^verbatim>\<open>schedule.rs\<close>), stagger and backoff, and the service that
  keeps the jobs in a file (\<^verbatim>\<open>store.rs\<close>, \<^verbatim>\<open>service.rs\<close>).  Clock readings and the outcome of file writes are
  arguments; the \<^verbatim>\<open>chrono\<close> and \<^verbatim>\<open>cron\<close> crates and the SHA-256 digest are parameters.  Run counters are unbounded
  naturals; times wrap at 64 bits as in a release build.
\<close>

section \<open>Jobs\<close>

datatype cron_schedule_kind =
    At string
  | Every nat "nat option"
  | Cron string "string option"

record cron_delivery =
  cd_channel :: string
  cd_target :: string
  cd_target_type :: "string option"

datatype cron_payload_kind =
    SystemEvent string
  | AgentTurn string "string option" "nat option" "string option"

record cron_job_state =
  next_run_at_ms :: "nat option"
  last_run_at_ms :: "nat option"
  last_status :: "string option"
  last_error :: "string option"
  consecutive_errors :: nat
  running_since_ms :: "nat option"
  total_runs :: nat
  total_errors :: nat

record cron_job =
  cj_id :: string
  cj_name :: string
  cj_enabled :: bool
  cj_schedule :: cron_schedule_kind
  cj_payload :: cron_payload_kind
  cj_session_target :: string
  cj_state :: cron_job_state
  cj_created_at_ms :: nat
  cj_updated_at_ms :: nat
  cj_delete_after_run :: bool
  cj_delivery :: "cron_delivery list"
  cj_max_retries :: "nat option"
  cj_timeout_secs :: "nat option"

record cron_job_patch =
  patch_name :: "string option"
  patch_enabled :: "bool option"
  patch_schedule :: "cron_schedule_kind option"


section \<open>Schedules\<close>

text \<open>What the code uses of its date crates: the instant of an RFC 3339 text in milliseconds since
  the epoch, whether an instant is representable, and the first instant of a cron expression after a given one
  (\<^const>\<open>None\<close> for an invalid expression as well).\<close>

record calendar =
  parse_rfc3339 :: "string \<Rightarrow> int option"
  valid_millis :: "int \<Rightarrow> bool"
  cron_after :: "string \<Rightarrow> int \<Rightarrow> int option"

definition every_next :: "nat \<Rightarrow> nat \<Rightarrow> nat \<Rightarrow> nat" where
  "every_next every anchor now =
     (let elapsed = now - anchor; periods = elapsed div every;
          nxt = u64_add anchor (u64_mul (u64_add periods 1) every)
      in if nxt \<le> now then u64_add nxt every else nxt)"

definition compute_next_run :: "calendar \<Rightarrow> cron_schedule_kind \<Rightarrow> nat \<Rightarrow> nat option" where
  "compute_next_run cal sched now =
     (case sched of
        At when \<Rightarrow>
          (case parse_rfc3339 cal when of
             None \<Rightarrow> None
           | Some ms \<Rightarrow> (let ts = as_u64 ms in if ts > now then Some ts else None))
      | Every every anchor_ms \<Rightarrow>
          (let anchor = (case anchor_ms of Some a \<Rightarrow> a | None \<Rightarrow> 0)
           in if every = 0 then None else Some (every_next every anchor now))
      | Cron expr tz \<Rightarrow>
          if valid_millis cal (as_i64 now) then map_option as_u64 (cron_after cal expr (as_i64 now)) else None)"

text \<open>The first eight bytes of the digest, little endian, are a parameter.\<close>

definition stagger_offset :: "(string \<Rightarrow> nat) \<Rightarrow> string \<Rightarrow> nat \<Rightarrow> nat" where
  "stagger_offset sha64 jid window = (if window = 0 then 0 else sha64 jid mod window)"

definition apply_stagger :: "(string \<Rightarrow> nat) \<Rightarrow> nat \<Rightarrow> string \<Rightarrow> nat \<Rightarrow> nat" where
  "apply_stagger sha64 next_run jid window = u64_add next_run (stagger_offset sha64 jid window)"

definition BACKOFF_STEPS :: "nat list" where
  "BACKOFF_STEPS = [30000, 60000, 300000, 900000, 3600000]"

definition backoff_delay_ms :: "nat \<Rightarrow> nat" where
  "backoff_delay_ms errs =
     (if errs = 0 then 0 else BACKOFF_STEPS ! min (errs - 1) (length BACKOFF_STEPS - 1))"


section \<open>The store and the service\<close>

text \<open>The job file: missing, unreadable (also when it does not parse), or a list of jobs.  A write goes to a
  temporary file that is renamed at the end, so it replaces the file or leaves it alone; \<open>io\<close> is the
  error of a failing write.\<close>

datatype jobs_file = NoFile | Unreadable | Jobs "cron_job list"

datatype cron_error = JobNotFound string | JobDisabled string | StoreError string

fun store_load :: "jobs_file \<Rightarrow> cron_job list" where
  "store_load (Jobs js) = js"
| "store_load _ = []"

definition store_save :: "string option \<Rightarrow> cron_job list \<Rightarrow> jobs_file \<Rightarrow> (cron_error + unit) \<times> jobs_file" where
  "store_save io js file = (case io of None \<Rightarrow> (Inr (), Jobs js) | Some e \<Rightarrow> (Inl (StoreError e), file))"

record cron_service =
  svc_store :: jobs_file
  svc_running :: bool

definition service_new :: "jobs_file \<Rightarrow> cron_service" where
  "service_new store = \<lparr>svc_store = store, svc_running = False\<rparr>"

definition service_stop :: "cron_service \<Rightarrow> cron_service" where
  "service_stop svc = svc\<lparr>svc_running := False\<rparr>"

definition service_list :: "cron_service \<Rightarrow> cron_job list" where
  "service_list svc = store_load (svc_store svc)"

definition service_get :: "string \<Rightarrow> cron_service \<Rightarrow> cron_job option" where
  "service_get jid svc = find (\<lambda>j. cj_id j = jid) (service_list svc)"

text \<open>Saving the changed list and answering with \<open>v\<close>.\<close>

definition save_with :: "string option \<Rightarrow> 'a \<Rightarrow> cron_job list \<Rightarrow> cron_service \<Rightarrow> (cron_error + 'a) \<times> cron_service" where
  "save_with io v js svc =
     (case store_save io js (svc_store svc) of
        (Inr _, file) \<Rightarrow> (Inr v, svc\<lparr>svc_store := file\<rparr>)
      | (Inl e, file) \<Rightarrow> (Inl e, svc\<lparr>svc_store := file\<rparr>))"

definition service_add ::
  "string option \<Rightarrow> calendar \<Rightarrow> nat \<Rightarrow> cron_job \<Rightarrow> cron_service \<Rightarrow> (cron_error + cron_job) \<times> cron_service" where
  "service_add io cal now job svc =
     (let job' = job\<lparr>cj_created_at_ms := now, cj_updated_at_ms := now,
                     cj_state := (cj_state job)\<lparr>next_run_at_ms := compute_next_run cal (cj_schedule job) now\<rparr>\<rparr>
      in save_with io job' (service_list svc @ [job']) svc)"

definition service_remove :: "string option \<Rightarrow> string \<Rightarrow> cron_service \<Rightarrow> (cron_error + unit) \<times> cron_service" where
  "service_remove io jid svc =
     (let jobs = service_list svc; kept = filter (\<lambda>j. cj_id j \<noteq> jid) jobs
      in if length kept = length jobs then (Inl (JobNotFound jid), svc) else save_with io () kept svc)"

text \<open>The shape of the operations that change one job: the first job with the id is updated.\<close>

definition with_job ::
  "string option \<Rightarrow> string \<Rightarrow> (cron_job \<Rightarrow> cron_job) \<Rightarrow> cron_service \<Rightarrow> (cron_error + cron_job) \<times> cron_service" where
  "with_job io jid f svc =
     (case update_first (\<lambda>j. cj_id j = jid) f (service_list svc) of
        None \<Rightarrow> (Inl (JobNotFound jid), svc)
      | Some jobs \<Rightarrow> save_with io (f (the (service_get jid svc))) jobs svc)"

definition unit_of :: "(cron_error + 'a) \<times> cron_service \<Rightarrow> (cron_error + unit) \<times> cron_service" where
  "unit_of r = (map_sum id (\<lambda>_. ()) (fst r), snd r)"

definition apply_patch :: "calendar \<Rightarrow> nat \<Rightarrow> nat \<Rightarrow> cron_job_patch \<Rightarrow> cron_job \<Rightarrow> cron_job" where
  "apply_patch cal now_s now_u patch job =
     (let job1 = (case patch_name patch of Some n \<Rightarrow> job\<lparr>cj_name := n\<rparr> | None \<Rightarrow> job);
          job2 = (case patch_enabled patch of Some b \<Rightarrow> job1\<lparr>cj_enabled := b\<rparr> | None \<Rightarrow> job1);
          job3 = (case patch_schedule patch of
                    Some s \<Rightarrow> job2\<lparr>cj_schedule := s,
                                 cj_state := (cj_state job2)\<lparr>next_run_at_ms := compute_next_run cal s now_s\<rparr>\<rparr>
                  | None \<Rightarrow> job2)
      in job3\<lparr>cj_updated_at_ms := now_u\<rparr>)"

definition service_update ::
  "string option \<Rightarrow> calendar \<Rightarrow> nat \<Rightarrow> nat \<Rightarrow> string \<Rightarrow> cron_job_patch \<Rightarrow> cron_service
   \<Rightarrow> (cron_error + cron_job) \<times> cron_service" where
  "service_update io cal now_s now_u jid patch svc = with_job io jid (apply_patch cal now_s now_u patch) svc"

definition set_running :: "nat \<Rightarrow> cron_job \<Rightarrow> cron_job" where
  "set_running now job = job\<lparr>cj_state := (cj_state job)\<lparr>running_since_ms := Some now\<rparr>\<rparr>"

definition service_mark_running ::
  "string option \<Rightarrow> string \<Rightarrow> nat \<Rightarrow> cron_service \<Rightarrow> (cron_error + unit) \<times> cron_service" where
  "service_mark_running io jid now svc = unit_of (with_job io jid (set_running now) svc)"

definition retry_budget :: "cron_job \<Rightarrow> nat" where
  "retry_budget job = (case cj_max_retries job of Some n \<Rightarrow> n | None \<Rightarrow> 5)"

definition after_run :: "calendar \<Rightarrow> nat \<Rightarrow> bool \<Rightarrow> string \<Rightarrow> cron_job \<Rightarrow> cron_job" where
  "after_run cal now success out job =
     (let st = (cj_state job)\<lparr>last_run_at_ms := Some now, running_since_ms := None,
                             total_runs := total_runs (cj_state job) + 1\<rparr>;
          scheduled_next = compute_next_run cal (cj_schedule job) now;
          st' = (if success then
                   st\<lparr>last_status := Some ''ok'', last_error := None, consecutive_errors := 0,
                      next_run_at_ms := scheduled_next\<rparr>
                 else
                   (let errs = consecutive_errors st + 1;
                        backoff_due = sat_add u64_max now (backoff_delay_ms errs)
                    in st\<lparr>last_status := Some ''error'', last_error := Some out, consecutive_errors := errs,
                          total_errors := total_errors st + 1,
                          next_run_at_ms :=
                            (if errs \<ge> retry_budget job then None
                             else Some (case scheduled_next of Some nxt \<Rightarrow> max nxt backoff_due | None \<Rightarrow> backoff_due))\<rparr>))
      in job\<lparr>cj_state := st', cj_updated_at_ms := now\<rparr>)"

definition service_update_after_run ::
  "string option \<Rightarrow> calendar \<Rightarrow> nat \<Rightarrow> string \<Rightarrow> bool \<Rightarrow> string \<Rightarrow> cron_service
   \<Rightarrow> (cron_error + unit) \<times> cron_service" where
  "service_update_after_run io cal now jid success out svc =
     unit_of (with_job io jid (after_run cal now success out) svc)"

definition set_due_now :: "cron_job \<Rightarrow> cron_job" where
  "set_due_now job = job\<lparr>cj_state := (cj_state job)\<lparr>next_run_at_ms := Some 0\<rparr>\<rparr>"

definition service_trigger :: "string option \<Rightarrow> string \<Rightarrow> cron_service \<Rightarrow> (cron_error + unit) \<times> cron_service" where
  "service_trigger io jid svc = unit_of (with_job io jid set_due_now svc)"


section \<open>Due jobs\<close>

text \<open>\<^verbatim>\<open>is_due\<close> of \<^verbatim>\<open>scheduler.rs\<close>.\<close>

definition in_backoff :: "nat \<Rightarrow> cron_job \<Rightarrow> bool" where
  "in_backoff now job =
     (case last_run_at_ms (cj_state job) of
        None \<Rightarrow> False
      | Some last_run \<Rightarrow> now < u64_add last_run (backoff_delay_ms (consecutive_errors (cj_state job))))"

definition is_due :: "cron_job \<Rightarrow> nat \<Rightarrow> bool" where
  "is_due job now =
     (if running_since_ms (cj_state job) \<noteq> None then False
      else if consecutive_errors (cj_state job) > 0 \<and>
              (consecutive_errors (cj_state job) \<ge> retry_budget job \<or> in_backoff now job) then False
      else (case next_run_at_ms (cj_state job) of Some nxt \<Rightarrow> now \<ge> nxt | None \<Rightarrow> False))"


section \<open>Next runs\<close>

text \<open>Without overflow the next run is the first instant after \<open>now\<close> on the grid of the anchor.\<close>

lemma every_next_exact:
  assumes "0 < every" and "anchor \<le> now" and "now + every < 2 ^ 64"
  shows "every_next every anchor now = anchor + ((now - anchor) div every + 1) * every"
    and "now < every_next every anchor now" and "every_next every anchor now \<le> now + every"
proof -
  define q where "q = (now - anchor) div every"
  have "q * every + (now - anchor) mod every = now - anchor" "(now - anchor) mod every < every"
    using assms(1) by (simp_all add: q_def)
  then have le: "anchor + (q * every + every) \<le> now + every" and gt: "now < anchor + (q * every + every)"
    using assms(2) by linarith+
  have "q + 1 \<le> q * every + every"
    using mult_le_mono2 [of 1 every "q + 1"] assms(1) by simp
  then have "u64_add q 1 = q + 1" "u64_mul (q + 1) every = q * every + every"
      "u64_add anchor (q * every + every) = anchor + (q * every + every)"
    using le assms(3) u64_mul_exact [of "q + 1" every] u64_add_exact [of q 1]
      u64_add_exact [of anchor "q * every + every"] by simp_all
  then have eq: "every_next every anchor now = anchor + (q * every + every)"
    using gt by (simp add: every_next_def Let_def flip: q_def)
  then show "every_next every anchor now = anchor + ((now - anchor) div every + 1) * every"
    and "now < every_next every anchor now" and "every_next every anchor now \<le> now + every"
    using le gt by (simp_all add: q_def)
qed

lemma every_next_future_anchor:
  assumes "0 < every" and "now < anchor" and "anchor + every < 2 ^ 64"
  shows "every_next every anchor now = anchor + every"
  using assms by (simp add: every_next_def Let_def u64_add_def u64_mul_def)

lemma backoff_pos:
  assumes "0 < errs"
  shows "30000 \<le> backoff_delay_ms errs \<and> backoff_delay_ms errs \<le> 3600000"
proof -
  have "\<forall>d \<in> set BACKOFF_STEPS. 30000 \<le> d \<and> d \<le> 3600000"
    by (simp add: BACKOFF_STEPS_def)
  moreover have "min (errs - 1) (length BACKOFF_STEPS - 1) < length BACKOFF_STEPS"
    by (simp add: BACKOFF_STEPS_def)
  ultimately have "30000 \<le> BACKOFF_STEPS ! min (errs - 1) (length BACKOFF_STEPS - 1)
      \<and> BACKOFF_STEPS ! min (errs - 1) (length BACKOFF_STEPS - 1) \<le> 3600000"
    using nth_mem by blast
  then show ?thesis
    using assms by (simp add: backoff_delay_ms_def)
qed


section \<open>The job map\<close>

text \<open>Every operation on the store is an operation on the map from ids to jobs.\<close>

lemma service_list_save [simp]:
  "service_list (snd (save_with None v js svc)) = js"
  "fst (save_with None v js svc) = Inr v"
  "save_with (Some e) v js svc = (Inl (StoreError e), svc)"
  by (simp_all add: save_with_def store_save_def service_list_def)

lemma with_job_None: "service_get jid svc = None \<Longrightarrow> with_job io jid f svc = (Inl (JobNotFound jid), svc)"
  using update_first_None [of "\<lambda>j. cj_id j = jid" f "service_list svc"]
  by (simp add: with_job_def service_get_def)

lemma with_job_Some:
  assumes "service_get jid svc = Some job" and "\<And>j. cj_id (f j) = cj_id j"
  shows "fst (with_job None jid f svc) = Inr (f job)"
    and "service_get k (snd (with_job None jid f svc)) = (if k = jid then Some (f job) else service_get k svc)"
    and "map cj_id (service_list (snd (with_job None jid f svc))) = map cj_id (service_list svc)"
proof -
  obtain jobs where jobs: "update_first (\<lambda>j. cj_id j = jid) f (service_list svc) = Some jobs"
    using assms(1) update_first_None [of "\<lambda>j. cj_id j = jid" f "service_list svc"]
    by (fastforce simp: service_get_def)
  then show "fst (with_job None jid f svc) = Inr (f job)"
    "map cj_id (service_list (snd (with_job None jid f svc))) = map cj_id (service_list svc)"
    using assms update_first_map [OF jobs, of cj_id] by (simp_all add: with_job_def)
  have "find (\<lambda>j. cj_id j = jid) jobs = Some (f job)"
    using update_first_find [OF jobs] assms by (simp add: service_get_def)
  moreover have "find (\<lambda>j. cj_id j = k) jobs = find (\<lambda>j. cj_id j = k) (service_list svc)" if "k \<noteq> jid"
    using update_first_find_other [OF jobs, of "\<lambda>j. cj_id j = k"] that assms(2) by simp
  ultimately show "service_get k (snd (with_job None jid f svc)) = (if k = jid then Some (f job) else service_get k svc)"
    using jobs by (simp add: with_job_def service_get_def)
qed

lemma keeps_id [simp]:
  "cj_id (apply_patch cal a b p job) = cj_id job" "cj_id (set_running n job) = cj_id job"
  "cj_id (after_run cal n ok out job) = cj_id job" "cj_id (set_due_now job) = cj_id job"
  by (simp_all add: apply_patch_def set_running_def after_run_def set_due_now_def Let_def split: option.split)


text \<open>The operations as values, to speak about sequences of them.\<close>

datatype service_op =
    OpAdd calendar nat cron_job
  | OpRemove string
  | OpUpdate calendar nat nat string cron_job_patch
  | OpMarkRunning string nat
  | OpUpdateAfterRun calendar nat string bool string
  | OpTrigger string

fun run_op :: "string option \<Rightarrow> service_op \<Rightarrow> cron_service \<Rightarrow> (cron_error + unit) \<times> cron_service" where
  "run_op io (OpAdd cal now job) svc = unit_of (service_add io cal now job svc)"
| "run_op io (OpRemove jid) svc = service_remove io jid svc"
| "run_op io (OpUpdate cal a b jid p) svc = unit_of (service_update io cal a b jid p svc)"
| "run_op io (OpMarkRunning jid now) svc = service_mark_running io jid now svc"
| "run_op io (OpUpdateAfterRun cal now jid ok out) svc = service_update_after_run io cal now jid ok out svc"
| "run_op io (OpTrigger jid) svc = service_trigger io jid svc"

fun op_target :: "service_op \<Rightarrow> string option" where
  "op_target (OpAdd _ _ _) = None"
| "op_target (OpRemove jid) = Some jid"
| "op_target (OpUpdate _ _ _ jid _) = Some jid"
| "op_target (OpMarkRunning jid _) = Some jid"
| "op_target (OpUpdateAfterRun _ _ jid _ _) = Some jid"
| "op_target (OpTrigger jid) = Some jid"

text \<open>The change an operation makes to a job that is present.\<close>

fun op_change :: "service_op \<Rightarrow> cron_job \<Rightarrow> cron_job" where
  "op_change (OpUpdate cal a b _ p) job = apply_patch cal a b p job"
| "op_change (OpMarkRunning _ now) job = set_running now job"
| "op_change (OpUpdateAfterRun cal now _ ok out) job = after_run cal now ok out job"
| "op_change (OpTrigger _) job = set_due_now job"
| "op_change _ job = job"

fun is_remove :: "service_op \<Rightarrow> bool" where
  "is_remove (OpRemove _) = True"
| "is_remove _ = False"

definition added_job :: "calendar \<Rightarrow> nat \<Rightarrow> cron_job \<Rightarrow> cron_job" where
  "added_job cal now job =
     job\<lparr>cj_created_at_ms := now, cj_updated_at_ms := now,
         cj_state := (cj_state job)\<lparr>next_run_at_ms := compute_next_run cal (cj_schedule job) now\<rparr>\<rparr>"

text \<open>The specification of an operation on the map of jobs.\<close>

fun op_spec :: "service_op \<Rightarrow> (string \<rightharpoonup> cron_job) \<Rightarrow> (string \<rightharpoonup> cron_job)" where
  "op_spec (OpAdd cal now job) m = (if m (cj_id job) = None then m(cj_id job \<mapsto> added_job cal now job) else m)"
| "op_spec (OpRemove jid) m = m(jid := None)"
| "op_spec (OpUpdate cal a b jid p) m = m(jid := map_option (apply_patch cal a b p) (m jid))"
| "op_spec (OpMarkRunning jid now) m = m(jid := map_option (set_running now) (m jid))"
| "op_spec (OpUpdateAfterRun cal now jid ok out) m = m(jid := map_option (after_run cal now ok out) (m jid))"
| "op_spec (OpTrigger jid) m = m(jid := map_option set_due_now (m jid))"

definition jobs_map :: "cron_service \<Rightarrow> (string \<rightharpoonup> cron_job)" where
  "jobs_map svc = (\<lambda>k. service_get k svc)"

lemma unit_of_simps [simp]: "snd (unit_of r) = snd r" "fst (unit_of (Inl e, svc)) = Inl e"
  "fst (unit_of (Inr v, svc)) = Inr ()"
  by (simp_all add: unit_of_def)

lemma remove_missing: "service_get jid svc = None \<Longrightarrow> service_remove io jid svc = (Inl (JobNotFound jid), svc)"
  by (simp add: service_remove_def Let_def service_get_def find_None_iff length_filter_eq)

lemma remove_present:
  "service_get jid svc \<noteq> None \<Longrightarrow>
   service_remove io jid svc = save_with io () (filter (\<lambda>j. cj_id j \<noteq> jid) (service_list svc)) svc"
  by (auto simp: service_remove_def Let_def service_get_def find_None_iff length_filter_eq)

lemma remove_get:
  assumes "service_get jid svc \<noteq> None"
  shows "service_get k (snd (service_remove None jid svc)) = (if k = jid then None else service_get k svc)"
proof -
  have "find (\<lambda>j. cj_id j = k \<and> cj_id j \<noteq> jid) js = (if k = jid then None else find (\<lambda>j. cj_id j = k) js)"
    for js :: "cron_job list"
    by (induction js) auto
  then show ?thesis
    by (simp add: remove_present [OF assms] service_get_def find_filter_other)
qed

lemma add_get:
  "service_get k (snd (service_add None cal now job svc)) =
     (case service_get k svc of Some j \<Rightarrow> Some j | None \<Rightarrow> if k = cj_id job then Some (added_job cal now job) else None)"
  by (auto simp: service_add_def Let_def service_get_def find_snoc added_job_def split: option.split)

lemma with_job_spec:
  assumes "\<And>j. cj_id (f j) = cj_id j"
  shows "(\<lambda>k. service_get k (snd (with_job None jid f svc))) = (\<lambda>k. service_get k svc)(jid := map_option f (service_get jid svc))"
  using assms with_job_Some(2) [of jid svc _ f] with_job_None [of jid svc None f]
  by (cases "service_get jid svc") (auto simp: fun_eq_iff)

lemma save_result:
  "save_with io v js svc =
     (case io of None \<Rightarrow> (Inr v, svc\<lparr>svc_store := Jobs js\<rparr>) | Some m \<Rightarrow> (Inl (StoreError m), svc))"
  by (cases io) (simp_all add: save_with_def store_save_def)

lemma with_job_result:
  "with_job io jid f svc =
     (case service_get jid svc of
        None \<Rightarrow> (Inl (JobNotFound jid), svc)
      | Some job \<Rightarrow> save_with io (f job) (the (update_first (\<lambda>j. cj_id j = jid) f (service_list svc))) svc)"
  using update_first_None [of "\<lambda>j. cj_id j = jid" f "service_list svc"]
  by (auto simp: with_job_def service_get_def split: option.split)

lemma remove_result:
  "service_remove io jid svc =
     (case service_get jid svc of
        None \<Rightarrow> (Inl (JobNotFound jid), svc)
      | Some _ \<Rightarrow> save_with io () (filter (\<lambda>j. cj_id j \<noteq> jid) (service_list svc)) svc)"
  by (cases "service_get jid svc") (simp_all add: remove_missing remove_present)

lemmas service_op_defs = service_add_def service_update_def service_mark_running_def
  service_update_after_run_def service_trigger_def

lemmas service_op_results = with_job_result remove_result save_result


section \<open>Properties\<close>

text \<open>The next run of a schedule lies strictly in the future: an interval that does not overflow, a time of
  day, and a cron expression, for a date library whose next instant comes after the given one and fits
  64 bits.\<close>

theorem next_run_in_future:
  assumes "compute_next_run cal sched now = Some t" and "now < 2 ^ 63"
    and "\<And>e i u. cron_after cal e i = Some u \<Longrightarrow> i < u \<and> u < 2 ^ 63"
    and "\<And>every a. sched = Every every a \<Longrightarrow> now + every < 2 ^ 64 \<and> (case a of Some x \<Rightarrow> x + every < 2 ^ 64 | None \<Rightarrow> True)"
  shows "now < t"
proof (cases sched)
  case (At s)
  then show ?thesis
    using assms(1) by (auto simp: compute_next_run_def Let_def split: option.splits if_splits)
next
  case (Every every a)
  define anchor where "anchor = (case a of Some x \<Rightarrow> x | None \<Rightarrow> 0)"
  have t: "0 < every" "t = every_next every anchor now"
    using assms(1) Every by (auto simp: compute_next_run_def Let_def anchor_def split: if_splits)
  have "now + every < 2 ^ 64" "anchor + every < 2 ^ 64"
    using assms(4) [OF Every] by (auto simp: anchor_def split: option.splits)
  then show ?thesis
    using t every_next_exact(2) [of every anchor now] every_next_future_anchor [of every now anchor]
    by (cases "anchor \<le> now") auto
next
  case (Cron e tz)
  then obtain u where u: "cron_after cal e (int now) = Some u" "t = as_u64 u"
    using assms(1,2) by (auto simp: compute_next_run_def as_i64_def split: if_splits)
  then have "int now < u" "u < 2 ^ 63" using assms(3) by blast+
  then have "t = nat u" using u(2) as_u64_nonneg [of u] by auto
  then show ?thesis using \<open>int now < u\<close> by auto
qed

text \<open>An interval schedule runs on the grid of its anchor: from the anchor on, the next run is the
  earliest instant after now whose distance to the anchor is a multiple of the interval.\<close>

theorem every_runs_on_grid:
  assumes "0 < every" and "anchor \<le> now" and "now + every < 2 ^ 64"
  shows "\<exists>t. compute_next_run cal (Every every (Some anchor)) now = Some t \<and> now < t \<and> (t - anchor) mod every = 0
    \<and> (\<forall>u. now < u \<and> (u - anchor) mod every = 0 \<longrightarrow> t \<le> u)"
proof -
  let ?t = "every_next every anchor now"
  note ex = every_next_exact [OF assms]
  have "?t \<le> u" if u: "now < u" "(u - anchor) mod every = 0" for u
  proof -
    obtain k where k: "u - anchor = k * every"
      using u(2) by (metis mod_0_imp_dvd dvd_def mult.commute)
    then have "now - anchor < k * every" using u(1) assms(2) by linarith
    then have "(now - anchor) div every < k" using assms(1) less_mult_imp_div_less by blast
    then have "((now - anchor) div every + 1) * every \<le> k * every" by (intro mult_le_mono1) simp
    then show ?thesis using ex(1) k u(1) assms(2) by linarith
  qed
  moreover have "(?t - anchor) mod every = 0"
    using ex(1) by (metis add_diff_cancel_left' mod_mult_self2_is_0)
  ultimately show ?thesis
    using ex(2) assms(1) by (auto simp: compute_next_run_def Let_def)
qed

definition sample_calendar :: calendar where
  "sample_calendar = \<lparr>parse_rfc3339 = (\<lambda>_. Some 5000), valid_millis = (\<lambda>_. True),
     cron_after = (\<lambda>_ i. if i < 1000 then Some (i + 60) else None)\<rparr>"

theorem next_run_in_future_witness:
  "compute_next_run sample_calendar (Cron ''* * * * *'' None) 100 = Some 160 \<and> (100::nat) < 160"
proof
  show step: "compute_next_run sample_calendar (Cron ''* * * * *'' None) 100 = Some 160"
    by (simp add: compute_next_run_def sample_calendar_def as_i64_def as_u64_def)
  show "(100::nat) < 160"
    by (rule next_run_in_future [OF step]) (auto simp: sample_calendar_def split: if_splits)
qed

theorem every_runs_on_grid_witness:
  "\<exists>t. compute_next_run sample_calendar (Every 60 (Some 7)) 100 = Some t \<and> 100 < t \<and> (t - 7) mod 60 = 0
    \<and> (\<forall>u. 100 < u \<and> (u - 7) mod 60 = 0 \<longrightarrow> t \<le> u)"
  by (rule every_runs_on_grid) simp_all

text \<open>C26: the errors of the service are exact and harmless: an operation on an unknown id answers
  \<^const>\<open>JobNotFound\<close>, otherwise it fails only with the error of the write, and a failed operation leaves
  the service as it was.\<close>

theorem service_errors_exact:
  "(fst (run_op io op svc) = Inl e \<longleftrightarrow>
     (case op_target op of
        Some jid \<Rightarrow> if service_get jid svc = None then e = JobNotFound jid else \<exists>m. io = Some m \<and> e = StoreError m
      | None \<Rightarrow> \<exists>m. io = Some m \<and> e = StoreError m))
   \<and> (isl (fst (run_op io op svc)) \<longrightarrow> snd (run_op io op svc) = svc)"
  by (cases op; cases io) (auto simp: service_op_defs service_op_results unit_of_def Let_def split: option.splits)

theorem service_errors_exact_witness:
  "fst (run_op None (OpRemove ''x'') (service_new NoFile)) = Inl (JobNotFound ''x'')
   \<and> snd (run_op None (OpRemove ''x'') (service_new NoFile)) = service_new NoFile"
proof -
  have "fst (run_op None (OpRemove ''x'') (service_new NoFile)) = Inl (JobNotFound ''x'')"
    using service_errors_exact [of None "OpRemove ''x''" "service_new NoFile" "JobNotFound ''x''"]
    by (simp add: service_get_def service_list_def service_new_def)
  moreover from this have "isl (fst (run_op None (OpRemove ''x'') (service_new NoFile)))" by simp
  ultimately show ?thesis
    using service_errors_exact [of None "OpRemove ''x''" "service_new NoFile" "JobNotFound ''x''"] by blast
qed

lemma run_op_spec:
  "jobs_map (snd (run_op io op svc)) = (if io = None then op_spec op (jobs_map svc) else jobs_map svc)"
proof (cases io)
  case None
  show ?thesis
  proof (cases op)
    case (OpAdd cal now job)
    then show ?thesis
      using None by (auto simp: jobs_map_def fun_eq_iff add_get split: option.split)
  next
    case (OpRemove jid)
    then show ?thesis
      using None by (cases "service_get jid svc") (auto simp: jobs_map_def fun_eq_iff remove_missing remove_get)
  qed (simp_all add: None jobs_map_def service_op_defs with_job_spec)
next
  case (Some m)
  then show ?thesis
    by (cases op) (auto simp: jobs_map_def service_op_defs service_op_results Let_def split: option.split)
qed

text \<open>C25: the job file implements a map from ids to jobs: along any sequence of operations the map follows the
  specification of each one whose write succeeds and stays as it is at the others.\<close>

theorem service_refines_map:
  "jobs_map (fold (\<lambda>(io, op) svc. snd (run_op io op svc)) ops svc) =
     fold (\<lambda>(io, op) m. if io = None then op_spec op m else m) ops (jobs_map svc)"
  by (induction ops arbitrary: svc) (simp_all add: run_op_spec split: prod.split)

definition sample_state :: cron_job_state where
  "sample_state = \<lparr>next_run_at_ms = None, last_run_at_ms = None, last_status = None, last_error = None,
     consecutive_errors = 0, running_since_ms = None, total_runs = 0, total_errors = 0\<rparr>"

definition sample_job :: cron_job where
  "sample_job = \<lparr>cj_id = ''j1'', cj_name = ''digest'', cj_enabled = True, cj_schedule = Every 60000 None,
     cj_payload = SystemEvent ''hi'', cj_session_target = ''main'', cj_state = sample_state, cj_created_at_ms = 0,
     cj_updated_at_ms = 0, cj_delete_after_run = False, cj_delivery = [], cj_max_retries = Some 2, cj_timeout_secs = None\<rparr>"

definition sample_service :: cron_service where
  "sample_service = service_new (Jobs [sample_job])"

lemma sample_get: "service_get ''j1'' sample_service = Some sample_job"
  by (simp add: service_get_def service_list_def sample_service_def service_new_def sample_job_def)

text \<open>When a failed job runs again.  Until its retry budget is used up, a job that failed at \<open>now\<close> is due
  exactly from the backoff delay on and not before its schedule; after that it is never due.\<close>

theorem failed_job_due_iff:
  assumes "now + 3600000 < 2 ^ 64"
  shows "is_due (after_run cal now False out job) t \<longleftrightarrow>
    consecutive_errors (cj_state job) + 1 < retry_budget job
    \<and> now + backoff_delay_ms (consecutive_errors (cj_state job) + 1) \<le> t
    \<and> (\<forall>nxt. compute_next_run cal (cj_schedule job) now = Some nxt \<longrightarrow> nxt \<le> t)"
proof -
  let ?d = "backoff_delay_ms (Suc (consecutive_errors (cj_state job)))"
  have "?d \<le> 3600000" using backoff_pos [of "Suc (consecutive_errors (cj_state job))"] by simp
  then have "u64_add now ?d = now + ?d" "sat_add u64_max now ?d = now + ?d"
    using assms by (auto simp: u64_add_exact sat_add_def)
  then show ?thesis
    by (auto simp: is_due_def in_backoff_def after_run_def retry_budget_def Let_def split: option.splits)
qed

theorem failed_job_due_iff_witness:
  "\<forall>t. is_due (after_run sample_calendar 1000 False ''boom'' sample_job) t \<longleftrightarrow> 60000 \<le> t"
proof
  fix t :: nat
  have "compute_next_run sample_calendar (cj_schedule sample_job) 1000 = Some 60000"
    "consecutive_errors (cj_state sample_job) = 0" "retry_budget sample_job = 2" "backoff_delay_ms (0 + 1) = 30000"
    by (simp_all add: sample_job_def sample_state_def retry_budget_def backoff_delay_ms_def BACKOFF_STEPS_def
        compute_next_run_def every_next_def u64_add_def u64_mul_def)
  then show "is_due (after_run sample_calendar 1000 False ''boom'' sample_job) t \<longleftrightarrow> 60000 \<le> t"
    using failed_job_due_iff [of 1000 sample_calendar "''boom''" sample_job t] by auto
qed

text \<open>A job whose retry budget is used up.\<close>

definition exhausted :: "cron_job \<Rightarrow> bool" where
  "exhausted job = (0 < consecutive_errors (cj_state job) \<and> retry_budget job \<le> consecutive_errors (cj_state job))"

fun resets :: "string \<Rightarrow> service_op \<Rightarrow> bool" where
  "resets jid (OpRemove k) = (k = jid)"
| "resets jid (OpUpdateAfterRun _ _ k ok _) = (k = jid \<and> ok)"
| "resets jid _ = False"

lemma exhausted_not_due: "exhausted job \<Longrightarrow> \<not> is_due job t"
  by (simp add: exhausted_def is_due_def)

lemma exhausted_changes:
  "exhausted job \<Longrightarrow> exhausted (apply_patch cal a b p job)"
  "exhausted job \<Longrightarrow> exhausted (set_running n job)"
  "exhausted job \<Longrightarrow> exhausted (set_due_now job)"
  "exhausted job \<Longrightarrow> exhausted (after_run cal n False out job)"
  by (auto simp: exhausted_def apply_patch_def set_running_def set_due_now_def after_run_def retry_budget_def
      Let_def split: option.splits)

text \<open>A job that has used up its retries stays off: no trigger, patch, new schedule or failing run makes it
  due again; only a successful run (which the scheduler will not start) or its removal does.\<close>

theorem exhausted_stays_off:
  assumes "service_get jid svc = Some job" and "exhausted job"
    and "list_all (\<lambda>(io, op). \<not> resets jid op) ops"
  shows "\<exists>job'. service_get jid (fold (\<lambda>(io, op) svc. snd (run_op io op svc)) ops svc) = Some job'
    \<and> exhausted job' \<and> (\<forall>t. \<not> is_due job' t)"
  using assms
proof (induction ops arbitrary: svc job)
  case Nil
  then show ?case by (simp add: exhausted_not_due)
next
  case (Cons a ops)
  obtain io op where a: "a = (io, op)" by (cases a)
  have "jobs_map (snd (run_op io op svc)) jid = (if io = None then op_spec op (jobs_map svc) jid else jobs_map svc jid)"
    by (simp add: run_op_spec)
  moreover have "\<exists>job'. op_spec op (jobs_map svc) jid = Some job' \<and> exhausted job'"
    using Cons.prems a by (cases op) (auto simp: jobs_map_def exhausted_changes)
  ultimately obtain job' where "service_get jid (snd (run_op io op svc)) = Some job'" "exhausted job'"
    using Cons.prems by (auto simp: jobs_map_def split: if_splits)
  then show ?case
    using Cons.IH Cons.prems(3) a by simp
qed

definition tired_service :: cron_service where
  "tired_service = service_new (Jobs [sample_job\<lparr>cj_state := sample_state\<lparr>consecutive_errors := 2\<rparr>\<rparr>])"

theorem exhausted_stays_off_witness:
  "\<exists>job'. service_get ''j1'' (fold (\<lambda>(io, op) svc. snd (run_op io op svc)) [(None, OpTrigger ''j1'')] tired_service) = Some job'
    \<and> exhausted job' \<and> (\<forall>t. \<not> is_due job' t)"
  by (rule exhausted_stays_off [of _ _ "sample_job\<lparr>cj_state := sample_state\<lparr>consecutive_errors := 2\<rparr>\<rparr>"])
    (simp_all add: tired_service_def service_get_def service_list_def service_new_def sample_job_def exhausted_def
      sample_state_def retry_budget_def)


section \<open>Counters\<close>

text \<open>The counters and the status of a job agree.\<close>

definition job_consistent :: "cron_job \<Rightarrow> bool" where
  "job_consistent job =
     (let st = cj_state job in
      consecutive_errors st \<le> total_errors st \<and> total_errors st \<le> total_runs st
      \<and> (last_run_at_ms st = None \<longleftrightarrow> total_runs st = 0)
      \<and> (last_status st = Some ''error'' \<longleftrightarrow> 0 < consecutive_errors st)
      \<and> (last_status st = Some ''error'' \<longleftrightarrow> last_error st \<noteq> None))"

fun op_consistent :: "service_op \<Rightarrow> bool" where
  "op_consistent (OpAdd _ _ job) = job_consistent job"
| "op_consistent _ = True"

definition service_consistent :: "cron_service \<Rightarrow> bool" where
  "service_consistent svc = list_all job_consistent (service_list svc)"

lemma consistent_changes:
  "job_consistent job \<Longrightarrow> job_consistent (apply_patch cal a b p job)"
  "job_consistent job \<Longrightarrow> job_consistent (set_running n job)"
  "job_consistent job \<Longrightarrow> job_consistent (set_due_now job)"
  "job_consistent job \<Longrightarrow> job_consistent (after_run cal n ok out job)"
  "job_consistent job \<Longrightarrow> job_consistent (added_job cal n job)"
  by (auto simp: job_consistent_def apply_patch_def set_running_def set_due_now_def after_run_def added_job_def
      Let_def split: option.splits)

lemma list_all_filter: "list_all P xs \<Longrightarrow> list_all P (filter Q xs)"
  by (simp add: list_all_iff)

lemma save_list_all:
  "list_all P js \<Longrightarrow> list_all P (service_list svc) \<Longrightarrow> list_all P (service_list (snd (save_with io v js svc)))"
  by (cases io) (simp_all add: save_result service_list_def)

lemma with_job_list_all:
  assumes "list_all P (service_list svc)" and "\<And>j. P j \<Longrightarrow> P (f j)"
  shows "list_all P (service_list (snd (with_job io jid f svc)))"
  using assms update_first_list_all [of "\<lambda>j. cj_id j = jid" f "service_list svc" _ P]
  by (auto simp: with_job_def intro!: save_list_all split: option.split)

interpretation service_counters: invariant_system
  service_consistent "\<lambda>s t. \<exists>io op. op_consistent op \<and> t = snd (run_op io op s)" service_consistent
proof
  fix s t assume inv: "service_consistent s" and "\<exists>io op. op_consistent op \<and> t = snd (run_op io op s)"
  then obtain io op where op: "op_consistent op" "t = snd (run_op io op s)" by blast
  show "service_consistent t"
  proof (cases op)
    case (OpAdd cal now job)
    then have "t = snd (save_with io (added_job cal now job) (service_list s @ [added_job cal now job]) s)"
      using op(2) by (simp add: service_add_def added_job_def Let_def)
    then show ?thesis
      using inv op(1) OpAdd by (auto simp: service_consistent_def consistent_changes intro!: save_list_all)
  next
    case (OpRemove jid)
    then show ?thesis
      using inv op(2) list_all_filter [of job_consistent "service_list s" "\<lambda>j. cj_id j \<noteq> jid"]
      by (auto simp: service_consistent_def remove_result intro!: save_list_all split: option.split)
  qed (use inv op(2) in \<open>auto simp: service_consistent_def service_op_defs consistent_changes intro!: with_job_list_all\<close>)
qed

text \<open>The run counters stay consistent: along any operations that add only consistent jobs, the errors in a row
  never exceed all errors, these never exceed the runs, and the status is \<open>error\<close> exactly while there are
  errors in a row.\<close>

theorem job_counters_consistent:
  assumes "service_consistent svc" and "(\<lambda>s t. \<exists>io op. op_consistent op \<and> t = snd (run_op io op s))\<^sup>*\<^sup>* svc svc'"
  shows "service_consistent svc'"
  using service_counters.reachable_inv [OF assms] .

theorem job_counters_consistent_witness:
  "service_consistent (snd (run_op None (OpUpdateAfterRun sample_calendar 1000 ''j1'' False ''boom'') sample_service))"
proof (rule job_counters_consistent [of sample_service])
  show "service_consistent sample_service"
    by (simp add: sample_service_def service_new_def service_consistent_def service_list_def sample_job_def
        sample_state_def job_consistent_def)
  show "(\<lambda>s t. \<exists>io op. op_consistent op \<and> t = snd (run_op io op s))\<^sup>*\<^sup>* sample_service
      (snd (run_op None (OpUpdateAfterRun sample_calendar 1000 ''j1'' False ''boom'') sample_service))"
    using op_consistent.simps(5) by blast
qed

end
