(* ===== verification/Cron_Scheduler.thy ===== *)
theory Cron_Scheduler
  imports Cron_Service
begin

text \<open>
  \<^verbatim>\<open>cron-core\<close>: running jobs (\<^verbatim>\<open>scheduler.rs\<close>), the run log, the run metrics and the session reaper.  The executor's
  answers, clock readings and the outcomes of file operations are inputs of a run; the scheduling loop with its tasks and
  permits is a step relation.  The JSON encoding of a log entry is a parameter.
\<close>

section \<open>Run log\<close>

record delivery_result =
  dr_channel :: string
  dr_target :: string
  dr_success :: bool
  dr_error :: "string option"

record run_log_entry =
  le_timestamp_ms :: nat
  le_status :: string
  le_duration_ms :: nat
  le_output_preview :: string
  le_error :: "string option"
  le_deliveries :: "delivery_result list"

definition MAX_LOG_LINES :: nat where "MAX_LOG_LINES = 500"
definition OUTPUT_PREVIEW_MAX :: nat where "OUTPUT_PREVIEW_MAX = 500"

definition ellipsis :: string where "ellipsis = [CHR 0xE2, CHR 0x80, CHR 0xA6]"

text \<open>The log files by job id.  A failing append stops before the write or, when it fails while pruning,
  after it.\<close>

type_synonym run_log = "(string, string) hash_map"

datatype log_fault = NoFault | AppendFails string | PruneFails string

definition log_prune :: "string \<Rightarrow> nat \<Rightarrow> string" where
  "log_prune content max_lines =
     (let lines = lines_of content in
      if length lines \<le> max_lines then content
      else join_with [newline] (drop (length lines - max_lines) lines) @ [newline])"

definition log_append ::
  "(run_log_entry \<Rightarrow> string) \<Rightarrow> log_fault \<Rightarrow> string \<Rightarrow> run_log_entry \<Rightarrow> run_log \<Rightarrow> (string + unit) \<times> run_log" where
  "log_append ser fault jid entry logs =
     (let line = ser entry @ [newline];
          content = (case hm_get logs jid of Some c \<Rightarrow> c | None \<Rightarrow> []) @ line
      in case fault of
           AppendFails e \<Rightarrow> (Inl e, logs)
         | PruneFails e \<Rightarrow> (Inl e, hm_insert jid content logs)
         | NoFault \<Rightarrow> (Inr (), hm_insert jid (log_prune content MAX_LOG_LINES) logs))"

definition log_read :: "(string \<Rightarrow> run_log_entry option) \<Rightarrow> string \<Rightarrow> nat \<Rightarrow> run_log \<Rightarrow> run_log_entry list" where
  "log_read parse jid limit logs =
     (case hm_get logs jid of
        None \<Rightarrow> []
      | Some content \<Rightarrow> List.map_filter parse (take limit (rev (lines_of content))))"

text \<open>\<^const>\<open>None\<close> is the panic of the slice.\<close>

definition truncate_preview :: "string \<Rightarrow> string option" where
  "truncate_preview s =
     (if length s \<le> OUTPUT_PREVIEW_MAX then Some s
      else map_option (\<lambda>p. p @ ellipsis) (slice_to s OUTPUT_PREVIEW_MAX))"


section \<open>Running a job\<close>

record cron_run_result =
  rr_job_id :: string
  rr_output :: string
  rr_success :: bool
  rr_duration_ms :: nat
  rr_deliveries :: "delivery_result list"

datatype cron_event =
    JobStarted string nat
  | JobCompleted string nat bool
  | JobFailed string string nat
  | SchedulerStarted
  | SchedulerStopped

record cron_world =
  cw_service :: cron_service
  cw_log :: run_log
  cw_events :: "cron_event list"

text \<open>The inputs of one run: the clock at each reading, the outcome of each file operation, and the
  executor.  \<open>run_agent_turn\<close> answers \<^const>\<open>None\<close> when the timeout strikes first.\<close>

record run_env =
  re_calendar :: calendar
  re_ser :: "run_log_entry \<Rightarrow> string"
  re_start_ms :: nat
  re_duration_ms :: nat
  re_log_ms :: nat
  re_update_ms :: nat
  re_io_mark :: "string option"
  re_io_update :: "string option"
  re_io_remove :: "string option"
  re_log_fault :: log_fault
  run_agent_turn :: "cron_job \<Rightarrow> string \<Rightarrow> string option \<Rightarrow> nat option \<Rightarrow> nat \<Rightarrow> (string + string) option"
  deliver :: "cron_delivery \<Rightarrow> string \<Rightarrow> string + unit"

definition emit :: "cron_event \<Rightarrow> cron_world \<Rightarrow> cron_world" where
  "emit ev w = w\<lparr>cw_events := cw_events w @ [ev]\<rparr>"

definition begin_run :: "run_env \<Rightarrow> cron_job \<Rightarrow> cron_world \<Rightarrow> bool \<times> cron_world" where
  "begin_run env job w =
     (case service_mark_running (re_io_mark env) (cj_id job) (re_start_ms env) (cw_service w) of
        (Inl e, svc) \<Rightarrow> (False, w\<lparr>cw_service := svc\<rparr>)
      | (Inr _, svc) \<Rightarrow> (True, emit (JobStarted (cj_id job) (re_start_ms env)) (w\<lparr>cw_service := svc\<rparr>)))"

definition execute_payload :: "run_env \<Rightarrow> cron_job \<Rightarrow> string \<times> bool" where
  "execute_payload env job =
     (let timeout = (case cj_timeout_secs job of Some t \<Rightarrow> t | None \<Rightarrow> 300);
          exec_result = (case cj_payload job of
              SystemEvent text \<Rightarrow> Inr text
            | AgentTurn message model timeout_secs channel \<Rightarrow>
                (case run_agent_turn env job message model timeout_secs timeout of
                   Some r \<Rightarrow> r
                 | None \<Rightarrow> Inl ''execution timed out''))
      in case exec_result of Inr text \<Rightarrow> (text, True) | Inl e \<Rightarrow> (e, False))"

definition deliver_one :: "run_env \<Rightarrow> string \<Rightarrow> cron_delivery \<Rightarrow> delivery_result" where
  "deliver_one env out d =
     (case deliver env d out of
        Inr _ \<Rightarrow> \<lparr>dr_channel = cd_channel d, dr_target = cd_target d, dr_success = True, dr_error = None\<rparr>
      | Inl e \<Rightarrow> \<lparr>dr_channel = cd_channel d, dr_target = cd_target d, dr_success = False, dr_error = Some e\<rparr>)"

definition deliver_all :: "run_env \<Rightarrow> cron_job \<Rightarrow> string \<Rightarrow> bool \<Rightarrow> delivery_result list" where
  "deliver_all env job out success = (if success then map (deliver_one env out) (cj_delivery job) else [])"

text \<open>The end of a run, from the log entry on; \<^const>\<open>None\<close> is a panic while the preview is cut, which
  happens before anything is written.\<close>

definition finish_run :: "run_env \<Rightarrow> cron_job \<Rightarrow> cron_world \<Rightarrow> cron_world option" where
  "finish_run env job w =
     (let (out, success) = execute_payload env job;
          deliveries = deliver_all env job out success
      in case truncate_preview out of
           None \<Rightarrow> None
         | Some preview \<Rightarrow>
             (let entry = \<lparr>le_timestamp_ms = re_log_ms env, le_status = (if success then ''ok'' else ''error''),
                           le_duration_ms = re_duration_ms env, le_output_preview = preview,
                           le_error = (if success then None else Some out), le_deliveries = deliveries\<rparr>;
                  logs = snd (log_append (re_ser env) (re_log_fault env) (cj_id job) entry (cw_log w));
                  svc1 = snd (service_update_after_run (re_io_update env) (re_calendar env) (re_update_ms env)
                                (cj_id job) success out (cw_service w));
                  svc2 = (if cj_delete_after_run job then snd (service_remove (re_io_remove env) (cj_id job) svc1) else svc1);
                  w' = w\<lparr>cw_service := svc2, cw_log := logs\<rparr>
              in Some (if success then emit (JobCompleted (cj_id job) (re_duration_ms env) True) w'
                       else emit (JobFailed (cj_id job) out
                              (case service_get (cj_id job) svc2 of
                                 Some j \<Rightarrow> consecutive_errors (cj_state j)
                               | None \<Rightarrow> 0)) w')))"

text \<open>\<^verbatim>\<open>execute_job\<close>: the world it leaves, and whether its task panicked.\<close>

definition execute_job :: "run_env \<Rightarrow> cron_job \<Rightarrow> cron_world \<Rightarrow> bool \<times> cron_world" where
  "execute_job env job w =
     (case begin_run env job w of
        (False, w1) \<Rightarrow> (False, w1)
      | (True, w1) \<Rightarrow> (case finish_run env job w1 of Some w2 \<Rightarrow> (False, w2) | None \<Rightarrow> (True, w1)))"

definition run_once :: "run_env \<Rightarrow> string \<Rightarrow> cron_world \<Rightarrow> (cron_error + bool) \<times> cron_world" where
  "run_once env jid w =
     (case service_get jid (cw_service w) of
        None \<Rightarrow> (Inl (JobNotFound jid), w)
      | Some job \<Rightarrow>
          if \<not> cj_enabled job then (Inl (JobDisabled jid), w)
          else (let (panicked, w') = execute_job env job w in (Inr panicked, w')))"


section \<open>The scheduling loop\<close>

definition stuck_threshold_ms :: nat where "stuck_threshold_ms = 2 * 60 * 60 * 1000"
definition max_concurrent :: nat where "max_concurrent = 3"

text \<open>One stuck job is counted as a failed run.  \<open>io\<close> and \<open>clock\<close> give the outcome of the write and the clock
  of the service for each job.\<close>

definition clear_stuck ::
  "calendar \<Rightarrow> (string \<Rightarrow> string option) \<Rightarrow> (string \<Rightarrow> nat) \<Rightarrow> nat \<Rightarrow> cron_job \<Rightarrow> cron_world \<Rightarrow> cron_world" where
  "clear_stuck cal io clock now job w =
     (case running_since_ms (cj_state job) of
        None \<Rightarrow> w
      | Some since \<Rightarrow>
          if now - since > stuck_threshold_ms then
            (let svc = snd (service_update_after_run (io (cj_id job)) cal (clock (cj_id job)) (cj_id job) False
                              ''Job timed out (stuck detection)'' (cw_service w))
             in emit (JobFailed (cj_id job) ''stuck detection timeout'' (consecutive_errors (cj_state job) + 1))
                  (w\<lparr>cw_service := svc\<rparr>))
          else w)"

definition detect_stuck_jobs ::
  "calendar \<Rightarrow> (string \<Rightarrow> string option) \<Rightarrow> (string \<Rightarrow> nat) \<Rightarrow> nat \<Rightarrow> cron_job list \<Rightarrow> cron_world \<Rightarrow> cron_world" where
  "detect_stuck_jobs cal io clock now jobs w = fold (clear_stuck cal io clock now) jobs w"

definition due_jobs :: "nat \<Rightarrow> cron_job list \<Rightarrow> cron_job list" where
  "due_jobs now jobs = filter (\<lambda>j. cj_enabled j \<and> is_due j now) jobs"

text \<open>A spawned task: not yet marked, or running since the mark.\<close>

datatype cron_task = Spawned cron_job | Running cron_job

fun task_job :: "cron_task \<Rightarrow> cron_job" where
  "task_job (Spawned j) = j"
| "task_job (Running j) = j"

datatype loop_phase = Sleeping | Dispatching "cron_job list" | Stopped

record cron_sched =
  sc_world :: cron_world
  sc_phase :: loop_phase
  sc_tasks :: "cron_task list"
  sc_running :: bool

definition sched_new :: "cron_service \<Rightarrow> run_log \<Rightarrow> cron_sched" where
  "sched_new svc logs =
     \<lparr>sc_world = \<lparr>cw_service = svc, cw_log = logs, cw_events = [SchedulerStarted]\<rparr>, sc_phase = Sleeping, sc_tasks = [],
      sc_running = True\<rparr>"

text \<open>
  The steps: the loop wakes up, clears stuck jobs and takes a snapshot of the due ones; it spawns the next of them
  once a permit is free; a task marks its job and later ends; other callers use the service or
  stop the loop.  The permit of a task is returned when the task ends, by a panic as well.
\<close>

inductive cron_step :: "cron_sched \<Rightarrow> cron_sched \<Rightarrow> bool" where
  Tick: "sc_phase s = Sleeping \<Longrightarrow> sc_running s \<Longrightarrow> jobs = service_list (cw_service (sc_world s)) \<Longrightarrow>
     cron_step s (s\<lparr>sc_world := detect_stuck_jobs cal io clock now jobs (sc_world s),
                    sc_phase := Dispatching (due_jobs now jobs)\<rparr>)"
| Exit: "sc_phase s = Sleeping \<Longrightarrow> \<not> sc_running s \<Longrightarrow>
     cron_step s (s\<lparr>sc_world := emit SchedulerStopped (sc_world s), sc_phase := Stopped\<rparr>)"
| Spawn: "sc_phase s = Dispatching (job # jobs) \<Longrightarrow> length (sc_tasks s) < max_concurrent \<Longrightarrow>
     cron_step s (s\<lparr>sc_phase := Dispatching jobs, sc_tasks := sc_tasks s @ [Spawned job]\<rparr>)"
| Sleep: "sc_phase s = Dispatching [] \<Longrightarrow> cron_step s (s\<lparr>sc_phase := Sleeping\<rparr>)"
| Mark: "sc_tasks s = ts1 @ Spawned job # ts2 \<Longrightarrow> begin_run env job (sc_world s) = (True, w) \<Longrightarrow>
     cron_step s (s\<lparr>sc_world := w, sc_tasks := ts1 @ Running job # ts2\<rparr>)"
| MarkFails: "sc_tasks s = ts1 @ Spawned job # ts2 \<Longrightarrow> begin_run env job (sc_world s) = (False, w) \<Longrightarrow>
     cron_step s (s\<lparr>sc_world := w, sc_tasks := ts1 @ ts2\<rparr>)"
| Finish: "sc_tasks s = ts1 @ Running job # ts2 \<Longrightarrow> finish_run env job (sc_world s) = Some w \<Longrightarrow>
     cron_step s (s\<lparr>sc_world := w, sc_tasks := ts1 @ ts2\<rparr>)"
| Panic: "sc_tasks s = ts1 @ Running job # ts2 \<Longrightarrow> finish_run env job (sc_world s) = None \<Longrightarrow>
     cron_step s (s\<lparr>sc_tasks := ts1 @ ts2\<rparr>)"
| External: "cron_step s (s\<lparr>sc_world := (sc_world s)\<lparr>cw_service := snd (run_op io op (cw_service (sc_world s)))\<rparr>\<rparr>)"
| Stop: "cron_step s (s\<lparr>sc_running := False\<rparr>)"


section \<open>Metrics\<close>

text \<open>\<^verbatim>\<open>fetch_add\<close> wraps at 64 bits; the success rate is a rational number.\<close>

record cron_metrics =
  cm_total_runs :: nat
  cm_successful_runs :: nat
  cm_failed_runs :: nat
  cm_total_duration_ms :: nat
  cm_active_jobs :: nat

record cron_metrics_snapshot = cron_metrics +
  cm_avg_duration_ms :: nat
  cm_success_rate :: rat

definition metrics_new :: cron_metrics where
  "metrics_new = \<lparr>cm_total_runs = 0, cm_successful_runs = 0, cm_failed_runs = 0, cm_total_duration_ms = 0, cm_active_jobs = 0\<rparr>"

definition record_run :: "bool \<Rightarrow> nat \<Rightarrow> cron_metrics \<Rightarrow> cron_metrics" where
  "record_run success duration m =
     (let m1 = m\<lparr>cm_total_runs := u64_add (cm_total_runs m) 1,
                 cm_total_duration_ms := u64_add (cm_total_duration_ms m) duration\<rparr>
      in if success then m1\<lparr>cm_successful_runs := u64_add (cm_successful_runs m) 1\<rparr>
         else m1\<lparr>cm_failed_runs := u64_add (cm_failed_runs m) 1\<rparr>)"

definition set_active_jobs :: "nat \<Rightarrow> cron_metrics \<Rightarrow> cron_metrics" where
  "set_active_jobs n m = m\<lparr>cm_active_jobs := n\<rparr>"

definition metrics_snapshot :: "cron_metrics \<Rightarrow> cron_metrics_snapshot" where
  "metrics_snapshot m =
     (let n = cm_total_runs m in
      \<lparr>cm_total_runs = n, cm_successful_runs = cm_successful_runs m, cm_failed_runs = cm_failed_runs m,
       cm_total_duration_ms = cm_total_duration_ms m, cm_active_jobs = cm_active_jobs m,
       cm_avg_duration_ms = (if n > 0 then cm_total_duration_ms m div n else 0),
       cm_success_rate = (if n > 0 then of_nat (cm_successful_runs m) / of_nat n else 0)\<rparr>)"


section \<open>Session reaper\<close>

text \<open>A directory entry as the sweep sees it: the first and second reading of the modification time
  (\<open>Inl\<close> a failing metadata call, \<^const>\<open>None\<close> an unknown time), the lock and the outcome of the
  removal.\<close>

record dir_entry =
  de_path :: string
  de_is_jsonl :: bool
  de_modified :: "string + int option"
  de_locked :: bool
  de_modified2 :: "int option"
  de_remove :: "string option"

record session_reaper =
  retention_hours :: nat
  sweep_interval_mins :: nat

record reaper_result =
  rp_pruned :: nat
  rp_errors :: "string list"

definition default_session_reaper :: session_reaper where
  "default_session_reaper = \<lparr>retention_hours = 24, sweep_interval_mins = 5\<rparr>"

definition sweep_entry :: "int \<Rightarrow> dir_entry \<Rightarrow> reaper_result \<times> string list \<Rightarrow> reaper_result \<times> string list" where
  "sweep_entry cutoff e acc =
     (let (r, removed) = acc in
      if \<not> de_is_jsonl e then acc
      else (case de_modified e of
              Inl m \<Rightarrow> (r\<lparr>rp_errors := rp_errors r @ [de_path e @ '': '' @ m]\<rparr>, removed)
            | Inr None \<Rightarrow> acc
            | Inr (Some t) \<Rightarrow>
                if \<not> t < cutoff then acc
                else if de_locked e then acc
                else if (case de_modified2 e of Some t2 \<Rightarrow> t2 \<ge> cutoff | None \<Rightarrow> False) then acc
                else (case de_remove e of
                        None \<Rightarrow> (r\<lparr>rp_pruned := rp_pruned r + 1\<rparr>, removed @ [de_path e])
                      | Some m \<Rightarrow> (r\<lparr>rp_errors := rp_errors r @ [''Failed to remove '' @ de_path e @ '': '' @ m]\<rparr>, removed))))"

text \<open>Times in milliseconds; the directory is a list of entries or the error of reading it.  The second
  component lists the removed files.\<close>

definition sweep :: "session_reaper \<Rightarrow> int \<Rightarrow> (string + dir_entry list) \<Rightarrow> reaper_result \<times> string list" where
  "sweep cfg now dir =
     (let cutoff = now - int (retention_hours cfg) * 3600000 in
      case dir of
        Inl e \<Rightarrow> (\<lparr>rp_pruned = 0, rp_errors = [''Failed to read sessions dir: '' @ e]\<rparr>, [])
      | Inr entries \<Rightarrow> fold (sweep_entry cutoff) entries (\<lparr>rp_pruned = 0, rp_errors = []\<rparr>, []))"


section \<open>The log as a list of entries\<close>

lemma log_prune_unlines:
  assumes "list_all clean_line ls" and "0 < n"
  shows "log_prune (unlines ls) n = unlines (last_n n ls)"
proof (cases "length ls \<le> n")
  case False
  then have "drop (length ls - n) ls \<noteq> []" using assms(2) by auto
  then show ?thesis
    using False lines_of_unlines [OF assms(1)] by (simp add: log_prune_def last_n_def join_unlines)
qed (simp add: log_prune_def last_n_def lines_of_unlines [OF assms(1)])

definition append_all :: "(run_log_entry \<Rightarrow> string) \<Rightarrow> string \<Rightarrow> run_log_entry list \<Rightarrow> run_log \<Rightarrow> run_log" where
  "append_all ser jid es logs = fold (\<lambda>e l. snd (log_append ser NoFault jid e l)) es logs"

lemma append_all_content:
  assumes "hm_get logs jid = None" and "es \<noteq> []" and "list_all (\<lambda>e. clean_line (ser e)) es"
  shows "hm_get (append_all ser jid es logs) jid = Some (unlines (last_n MAX_LOG_LINES (map ser es)))"
  using assms(2,3)
proof (induction es rule: rev_induct)
  case (snoc e es)
  let ?old = "last_n MAX_LOG_LINES (map ser es)"
  have old: "(case hm_get (append_all ser jid es logs) jid of Some c \<Rightarrow> c | None \<Rightarrow> []) = unlines ?old"
    using snoc assms(1) by (cases "es = []") (auto simp: append_all_def last_n_def)
  have "list_all clean_line (?old @ [ser e])"
    using snoc.prems set_last_n [of MAX_LOG_LINES "map ser es"] by (auto simp: list_all_iff)
  from log_prune_unlines [OF this, of MAX_LOG_LINES]
  have "log_prune (unlines ?old @ ser e @ [newline]) MAX_LOG_LINES = unlines (last_n MAX_LOG_LINES (map ser (es @ [e])))"
    by (simp add: last_n_snoc MAX_LOG_LINES_def)
  then show ?case
    using old by (simp add: append_all_def log_append_def Let_def)
qed simp

lemma map_filter_map_Some: "list_all (\<lambda>x. p (f x) = Some x) xs \<Longrightarrow> List.map_filter p (map f xs) = xs"
  by (induction xs) (auto simp: List.map_filter_simps)


section \<open>Properties\<close>

text \<open>The run log keeps what was written: after any number of successful appends for a job, reading it
  gives the newest first, at most the limit, out of the newest 500.  The encoding of an entry
  is assumed to be one line that decodes to the entry.\<close>

theorem run_log_roundtrip:
  assumes "hm_get logs jid = None"
    and "list_all (\<lambda>e. clean_line (ser e) \<and> parse (ser e) = Some e) es"
  shows "log_read parse jid limit (append_all ser jid es logs) = take limit (rev (last_n 500 es))"
proof (cases "es = []")
  case False
  have "take limit (rev (last_n 500 (map ser es))) = map ser (take limit (rev (last_n 500 es)))"
    by (simp add: rev_map take_map flip: map_last_n)
  moreover have "set (take limit (rev (last_n 500 es))) \<subseteq> set es"
    using set_take_subset [of limit "rev (last_n 500 es)"] set_last_n [of 500 es] by auto
  then have "list_all (\<lambda>e. parse (ser e) = Some e) (take limit (rev (last_n 500 es)))"
    using assms(2) by (auto simp: list_all_iff)
  moreover have "list_all clean_line (last_n 500 (map ser es))"
    using assms(2) set_last_n [of 500 "map ser es"] by (auto simp: list_all_iff)
  moreover have "list_all (\<lambda>e. clean_line (ser e)) es"
    using assms(2) by (auto simp: list_all_iff)
  ultimately show ?thesis
    using append_all_content [OF assms(1) False, of ser]
    by (simp add: log_read_def MAX_LOG_LINES_def lines_of_unlines map_filter_map_Some)
qed (use assms(1) in \<open>simp add: log_read_def append_all_def last_n_def\<close>)

definition sample_entry :: run_log_entry where
  "sample_entry = \<lparr>le_timestamp_ms = 1, le_status = ''ok'', le_duration_ms = 2, le_output_preview = ''hi'', le_error = None,
     le_deliveries = []\<rparr>"

theorem run_log_roundtrip_witness:
  "log_read (\<lambda>l. if l = ''1'' then Some sample_entry else None) ''j1'' 2
     (append_all (\<lambda>e. show_nat (le_timestamp_ms e)) ''j1'' [sample_entry, sample_entry, sample_entry] []) = [sample_entry, sample_entry]"
  using run_log_roundtrip [of "[]" "''j1''" "\<lambda>e. show_nat (le_timestamp_ms e)" "\<lambda>l. if l = ''1'' then Some sample_entry else None"
      "[sample_entry, sample_entry, sample_entry]" 2]
  by (simp add: sample_entry_def clean_line_def newline_def last_n_def)

text \<open>What a run leaves of the job it ran.\<close>

definition settled_job :: "run_env \<Rightarrow> cron_job \<Rightarrow> cron_job \<Rightarrow> cron_job" where
  "settled_job env job stored =
     after_run (re_calendar env) (re_update_ms env) (snd (execute_payload env job)) (fst (execute_payload env job))
       (set_running (re_start_ms env) stored)"

lemma settled_not_running [simp]: "running_since_ms (cj_state (settled_job env job stored)) = None"
  by (simp add: settled_job_def after_run_def Let_def)

lemma mark_running_get:
  assumes "service_get jid svc = Some job"
  shows "fst (service_mark_running None jid now svc) = Inr ()"
    and "service_get k (snd (service_mark_running None jid now svc)) = (if k = jid then Some (set_running now job) else service_get k svc)"
  using with_job_Some(1,2) [OF assms, of "set_running now"]
  by (simp_all add: service_mark_running_def unit_of_def)

lemma update_after_run_get:
  assumes "service_get jid svc = Some job"
  shows "service_get k (snd (service_update_after_run None cal now jid ok out svc)) =
    (if k = jid then Some (after_run cal now ok out job) else service_get k svc)"
  using with_job_Some(2) [OF assms, of "after_run cal now ok out"]
  by (simp add: service_update_after_run_def unit_of_def)

lemma begin_run_ok:
  assumes "service_get (cj_id job) (cw_service w) = Some stored" and "re_io_mark env = None"
  shows "\<exists>w1. begin_run env job w = (True, w1)
    \<and> (\<forall>k. service_get k (cw_service w1) =
          (if k = cj_id job then Some (set_running (re_start_ms env) stored) else service_get k (cw_service w)))
    \<and> cw_log w1 = cw_log w \<and> cw_events w1 = cw_events w @ [JobStarted (cj_id job) (re_start_ms env)]"
proof -
  obtain r svc where r: "service_mark_running None (cj_id job) (re_start_ms env) (cw_service w) = (r, svc)"
    by fastforce
  moreover have "r = Inr ()"
    using mark_running_get(1) [OF assms(1), of "re_start_ms env"] r by simp
  moreover have "service_get k svc =
      (if k = cj_id job then Some (set_running (re_start_ms env) stored) else service_get k (cw_service w))" for k
    using mark_running_get(2) [OF assms(1), of k "re_start_ms env"] r by simp
  ultimately show ?thesis
    using assms(2) by (simp add: begin_run_def emit_def)
qed

text \<open>What running a job does.  With working files and an output that can be cut, a run of a stored job does not
  panic, appends one log entry, announces the start and the end, and leaves the job no longer running, with its
  counters and next run updated, or removed when it is to be deleted after the run; other jobs
  are untouched.\<close>

theorem execute_job_settles:
  assumes "service_get (cj_id job) (cw_service w) = Some stored"
    and "re_io_mark env = None" and "re_io_update env = None" and "re_io_remove env = None"
    and "truncate_preview (fst (execute_payload env job)) = Some preview"
  shows "\<exists>w'. execute_job env job w = (False, w')
    \<and> service_get k (cw_service w') =
        (if k \<noteq> cj_id job then service_get k (cw_service w)
         else if cj_delete_after_run job then None else Some (settled_job env job stored))
    \<and> running_since_ms (cj_state (settled_job env job stored)) = None
    \<and> length (cw_events w') = length (cw_events w) + 2"
proof -
  obtain w1 where w1: "begin_run env job w = (True, w1)"
      "\<forall>k. service_get k (cw_service w1) =
        (if k = cj_id job then Some (set_running (re_start_ms env) stored) else service_get k (cw_service w))"
      "length (cw_events w1) = length (cw_events w) + 1"
    using begin_run_ok [OF assms(1,2)] by fastforce
  obtain out ok where p: "execute_payload env job = (out, ok)" by fastforce
  let ?svc = "snd (service_update_after_run None (re_calendar env) (re_update_ms env) (cj_id job) ok out (cw_service w1))"
  have svc: "service_get k ?svc = (if k = cj_id job then Some (settled_job env job stored) else service_get k (cw_service w))" for k
    using update_after_run_get [of "cj_id job" "cw_service w1"] w1(2) p by (simp add: settled_job_def)
  have rem: "service_get k (snd (service_remove None (cj_id job) ?svc)) = (if k = cj_id job then None else service_get k (cw_service w))" for k
    using remove_get [of "cj_id job" ?svc k] svc by simp
  show ?thesis
    using w1(1,3) p assms(3-5) svc rem
    by (cases ok) (simp_all add: execute_job_def finish_run_def Let_def emit_def)
qed

definition sample_env :: run_env where
  "sample_env = \<lparr>re_calendar = sample_calendar, re_ser = (\<lambda>_. ''e''), re_start_ms = 1000, re_duration_ms = 5, re_log_ms = 1005,
     re_update_ms = 1006, re_io_mark = None, re_io_update = None, re_io_remove = None, re_log_fault = NoFault,
     run_agent_turn = (\<lambda>_ _ _ _ _. None), deliver = (\<lambda>_ _. Inr ())\<rparr>"

definition sample_world :: cron_world where
  "sample_world = \<lparr>cw_service = sample_service, cw_log = [], cw_events = []\<rparr>"

theorem execute_job_settles_witness:
  "\<exists>w'. execute_job sample_env sample_job sample_world = (False, w')
    \<and> service_get ''j1'' (cw_service w') = Some (settled_job sample_env sample_job sample_job)
    \<and> running_since_ms (cj_state (settled_job sample_env sample_job sample_job)) = None"
proof -
  have "service_get (cj_id sample_job) (cw_service sample_world) = Some sample_job" "cj_id sample_job = ''j1''"
    "\<not> cj_delete_after_run sample_job" "truncate_preview (fst (execute_payload sample_env sample_job)) = Some ''hi''"
    "re_io_mark sample_env = None" "re_io_update sample_env = None" "re_io_remove sample_env = None"
    using sample_get by (simp_all add: sample_world_def sample_job_def sample_env_def execute_payload_def truncate_preview_def
        OUTPUT_PREVIEW_MAX_def)
  then show ?thesis
    using execute_job_settles [of sample_job sample_world sample_job sample_env "''hi''" "''j1''"] by auto
qed

text \<open>An output that cannot be cut at byte 500 kills the run after the work is done.  The task panics before
  the log and the job are updated, so the job stays marked as running and is not due at any time.\<close>

theorem preview_panic_blocks_job:
  assumes "service_get (cj_id job) (cw_service w) = Some stored" and "re_io_mark env = None"
    and "500 < length (fst (execute_payload env job))" and "\<not> is_char_boundary (fst (execute_payload env job)) 500"
  shows "\<exists>w' j. execute_job env job w = (True, w') \<and> service_get (cj_id job) (cw_service w') = Some j
    \<and> (\<forall>t. \<not> is_due j t) \<and> cw_log w' = cw_log w"
proof -
  obtain w1 where w1: "begin_run env job w = (True, w1)"
      "service_get (cj_id job) (cw_service w1) = Some (set_running (re_start_ms env) stored)" "cw_log w1 = cw_log w"
    using begin_run_ok [OF assms(1,2)] by auto
  have "truncate_preview (fst (execute_payload env job)) = None"
    using assms(3,4) by (simp add: truncate_preview_def OUTPUT_PREVIEW_MAX_def slice_to_def)
  then have "finish_run env job w1 = None"
    by (cases "execute_payload env job") (simp add: finish_run_def)
  moreover have "\<not> is_due (set_running (re_start_ms env) stored) t" for t
    by (simp add: is_due_def set_running_def)
  ultimately show ?thesis
    using w1 by (auto simp: execute_job_def)
qed

definition long_output :: string where
  "long_output = replicate 499 CHR ''a'' @ [CHR 0xC3, CHR 0xA9]"

theorem preview_panic_blocks_job_witness:
  "\<exists>w' j. execute_job sample_env (sample_job\<lparr>cj_payload := SystemEvent long_output\<rparr>) sample_world = (True, w')
    \<and> service_get ''j1'' (cw_service w') = Some j \<and> (\<forall>t. \<not> is_due j t)"
proof -
  have "\<not> is_char_boundary long_output 500" "length long_output = 501"
    by (simp_all add: long_output_def is_char_boundary_def continuation_def nth_append)
  then show ?thesis
    using preview_panic_blocks_job [of "sample_job\<lparr>cj_payload := SystemEvent long_output\<rparr>" sample_world sample_job sample_env]
      sample_get by (auto simp: sample_world_def sample_job_def sample_env_def execute_payload_def)
qed

text \<open>Every task and every job waiting for a permit was enabled and due when the loop looked at it.\<close>

definition was_due :: "cron_job \<Rightarrow> bool" where
  "was_due job = (cj_enabled job \<and> (\<exists>now. is_due job now))"

definition sched_inv :: "cron_sched \<Rightarrow> bool" where
  "sched_inv s =
     (length (sc_tasks s) \<le> max_concurrent \<and> list_all (\<lambda>t. was_due (task_job t)) (sc_tasks s)
      \<and> (\<forall>jobs. sc_phase s = Dispatching jobs \<longrightarrow> list_all was_due jobs))"

lemma due_jobs_was_due: "list_all was_due (due_jobs now jobs)"
  by (auto simp: due_jobs_def was_due_def list_all_iff)

interpretation scheduler: invariant_system "\<lambda>s. \<exists>svc logs. s = sched_new svc logs" cron_step sched_inv
proof
  fix s t assume inv: "sched_inv s" and step: "cron_step s t"
  show "sched_inv t"
    using step inv by cases (auto simp: sched_inv_def due_jobs_was_due)
qed (auto simp: sched_inv_def sched_new_def)




section \<open>Overlapping runs\<close>

text \<open>A job that may run longer than the stuck threshold.\<close>

definition slow_job :: cron_job where
  "slow_job = sample_job\<lparr>cj_payload := AgentTurn ''work'' None None None, cj_timeout_secs := Some 10800,
     cj_state := sample_state\<lparr>next_run_at_ms := Some 0\<rparr>\<rparr>"

definition slow_service :: cron_service where
  "slow_service = service_new (Jobs [slow_job])"

text \<open>The job as it is stored at each stage: running, cleared as stuck, and running again.\<close>

definition cleared_job :: cron_job where
  "cleared_job = after_run sample_calendar 7300000 False ''Job timed out (stuck detection)'' (set_running 1000 slow_job)"

definition world_at :: "cron_job \<Rightarrow> cron_event list \<Rightarrow> cron_world" where
  "world_at job evs = \<lparr>cw_service = \<lparr>svc_store = Jobs [job], svc_running = False\<rparr>, cw_log = [], cw_events = evs\<rparr>"

lemma slow_ids [simp]: "cj_id slow_job = ''j1''" "cj_id cleared_job = ''j1''" "cj_enabled slow_job" "cj_enabled cleared_job"
  by (simp_all add: slow_job_def sample_job_def cleared_job_def set_running_def after_run_def Let_def)

lemma slow_due:
  "is_due slow_job 1000" "\<not> is_due (set_running 1000 slow_job) t" "is_due cleared_job 7400000"
  "running_since_ms (cj_state slow_job) = None" "running_since_ms (cj_state cleared_job) = None"
  by (simp_all add: slow_job_def sample_job_def sample_state_def is_due_def set_running_def cleared_job_def after_run_def
      retry_budget_def Let_def compute_next_run_def every_next_def u64_add_def u64_mul_def sat_add_def in_backoff_def
      backoff_delay_ms_def BACKOFF_STEPS_def)

lemma begin_world_at:
  "cj_id job = cj_id stored \<Longrightarrow> re_io_mark env = None \<Longrightarrow>
   begin_run env job (world_at stored evs) =
     (True, world_at (set_running (re_start_ms env) stored) (evs @ [JobStarted (cj_id job) (re_start_ms env)]))"
  by (simp add: begin_run_def world_at_def service_mark_running_def with_job_def service_list_def service_get_def
      save_result unit_of_def emit_def)

lemma stuck_world_at:
  "detect_stuck_jobs sample_calendar (\<lambda>_. None) (\<lambda>_. 7300000) 7300000 [set_running 1000 slow_job]
     (world_at (set_running 1000 slow_job) evs) =
   world_at cleared_job (evs @ [JobFailed ''j1'' ''stuck detection timeout'' 1])"
proof -
  have "running_since_ms (cj_state (set_running 1000 slow_job)) = Some 1000"
    "consecutive_errors (cj_state (set_running 1000 slow_job)) = 0"
    by (simp_all add: set_running_def slow_job_def sample_job_def sample_state_def)
  then show ?thesis
    by (simp add: detect_stuck_jobs_def clear_stuck_def stuck_threshold_ms_def world_at_def service_update_after_run_def
        with_job_def service_list_def service_get_def save_result unit_of_def emit_def cleared_job_def Let_def)
qed

definition sched_at :: "cron_job \<Rightarrow> cron_event list \<Rightarrow> loop_phase \<Rightarrow> cron_task list \<Rightarrow> cron_sched" where
  "sched_at job evs ph ts = \<lparr>sc_world = world_at job evs, sc_phase = ph, sc_tasks = ts, sc_running = True\<rparr>"

lemma step_tick:
  assumes "detect_stuck_jobs sample_calendar (\<lambda>_. None) (\<lambda>_. 7300000) now [j] (world_at j evs) = world_at j' evs'"
  shows "cron_step (sched_at j evs Sleeping ts) (sched_at j' evs' (Dispatching (due_jobs now [j])) ts)"
proof -
  have "[j] = service_list (cw_service (world_at j evs))"
    by (simp add: world_at_def service_list_def)
  then show ?thesis
    using cron_step.Tick [of "sched_at j evs Sleeping ts" "[j]" now sample_calendar "\<lambda>_. None" "\<lambda>_. 7300000"] assms
    by (simp add: sched_at_def)
qed

lemma step_spawn:
  "length ts < 3 \<Longrightarrow> cron_step (sched_at job evs (Dispatching [j]) ts) (sched_at job evs (Dispatching []) (ts @ [Spawned j]))"
  using cron_step.Spawn [of "sched_at job evs (Dispatching [j]) ts" j "[]"] by (simp add: sched_at_def max_concurrent_def)

lemma step_mark:
  assumes "cj_id j = cj_id stored"
  shows "cron_step (sched_at stored evs ph (ts @ [Spawned j]))
    (sched_at (set_running 1000 stored) (evs @ [JobStarted (cj_id j) 1000]) ph (ts @ [Running j]))"
  using cron_step.Mark [of "sched_at stored evs ph (ts @ [Spawned j])" ts j "[]" sample_env] begin_world_at [OF assms, of sample_env]
  by (simp add: sched_at_def sample_env_def)

lemma step_sleep: "cron_step (sched_at job evs (Dispatching []) ts) (sched_at job evs Sleeping ts)"
  using cron_step.Sleep [of "sched_at job evs (Dispatching []) ts"] by (simp add: sched_at_def)

text \<open>A job that is due and not running is started, whatever else runs.\<close>

lemma run_started:
  assumes "is_due job now" and "cj_enabled job" and "running_since_ms (cj_state job) = None" and "length ts < 3"
  shows "cron_step\<^sup>*\<^sup>* (sched_at job evs Sleeping ts)
    (sched_at (set_running 1000 job) (evs @ [JobStarted (cj_id job) 1000]) Sleeping (ts @ [Running job]))"
proof -
  have "cron_step (sched_at job evs Sleeping ts) (sched_at job evs (Dispatching [job]) ts)"
    using step_tick [of now job evs job evs ts] assms(1-3) by (simp add: detect_stuck_jobs_def clear_stuck_def due_jobs_def)
  then show ?thesis
    using step_spawn [OF assms(4), of job evs job] step_mark [of job job evs "Dispatching []" ts]
      step_sleep [of "set_running 1000 job" "evs @ [JobStarted (cj_id job) 1000]" "ts @ [Running job]"]
    by (blast intro: converse_rtranclp_into_rtranclp)
qed

text \<open>Clearing a stuck job can start it a second time while the first run is still going.  From a service with one job
  whose timeout is longer than the two hours after which a run counts as stuck, the loop reaches a state with
  two running tasks for that job.\<close>

theorem stuck_job_runs_twice:
  "\<exists>s. cron_step\<^sup>*\<^sup>* (sched_new slow_service []) s
     \<and> length (filter (\<lambda>t. \<exists>j. t = Running j \<and> cj_id j = ''j1'') (sc_tasks s)) = 2"
proof -
  let ?run = "set_running 1000 slow_job" and ?ts = "[Running slow_job]"
  let ?e1 = "[SchedulerStarted] @ [JobStarted ''j1'' 1000]"
  let ?e2 = "?e1 @ [JobFailed ''j1'' ''stuck detection timeout'' 1]"
  have "sched_new slow_service [] = sched_at slow_job [SchedulerStarted] Sleeping []"
    by (simp add: sched_new_def slow_service_def service_new_def sched_at_def world_at_def)
  then have "cron_step\<^sup>*\<^sup>* (sched_new slow_service []) (sched_at ?run ?e1 Sleeping ?ts)"
    using run_started [of slow_job 1000 "[]" "[SchedulerStarted]"] by (simp add: slow_due)
  moreover have "cron_step (sched_at ?run ?e1 Sleeping ?ts) (sched_at cleared_job ?e2 (Dispatching []) ?ts)"
    using step_tick [OF stuck_world_at [of ?e1], of ?ts] by (simp add: due_jobs_def slow_due)
  moreover have "cron_step (sched_at cleared_job ?e2 (Dispatching []) ?ts) (sched_at cleared_job ?e2 Sleeping ?ts)"
    by (rule step_sleep)
  moreover have "cron_step\<^sup>*\<^sup>* (sched_at cleared_job ?e2 Sleeping ?ts)
      (sched_at (set_running 1000 cleared_job) (?e2 @ [JobStarted ''j1'' 1000]) Sleeping (?ts @ [Running cleared_job]))"
    using run_started [of cleared_job 7400000 ?ts ?e2] by (simp add: slow_due)
  ultimately have "cron_step\<^sup>*\<^sup>* (sched_new slow_service [])
      (sched_at (set_running 1000 cleared_job) (?e2 @ [JobStarted ''j1'' 1000]) Sleeping (?ts @ [Running cleared_job]))"
    by (meson rtranclp.rtrancl_into_rtrancl rtranclp_trans)
  moreover have "length (filter (\<lambda>t. \<exists>j. t = Running j \<and> cj_id j = ''j1'')
      (sc_tasks (sched_at (set_running 1000 cleared_job) (?e2 @ [JobStarted ''j1'' 1000]) Sleeping (?ts @ [Running cleared_job])))) = 2"
    by (simp add: sched_at_def)
  ultimately show ?thesis by blast
qed


section \<open>Reaper and metrics\<close>

text \<open>A file the sweep may remove.\<close>

definition reapable :: "int \<Rightarrow> dir_entry \<Rightarrow> bool" where
  "reapable cutoff e =
     (de_is_jsonl e \<and> (\<exists>t. de_modified e = Inr (Some t) \<and> t < cutoff) \<and> \<not> de_locked e
      \<and> (\<forall>t2. de_modified2 e = Some t2 \<longrightarrow> t2 < cutoff))"

lemma sweep_fold:
  "rp_pruned (fst acc) = length (snd acc) \<Longrightarrow>
   rp_pruned (fst (fold (sweep_entry cutoff) es acc)) = length (snd (fold (sweep_entry cutoff) es acc))
   \<and> snd (fold (sweep_entry cutoff) es acc) = snd acc @ map de_path (filter (\<lambda>e. reapable cutoff e \<and> de_remove e = None) es)"
proof (induction es arbitrary: acc)
  case (Cons e es)
  have "rp_pruned (fst (sweep_entry cutoff e acc)) = length (snd (sweep_entry cutoff e acc))
      \<and> snd (sweep_entry cutoff e acc) = snd acc @ (if reapable cutoff e \<and> de_remove e = None then [de_path e] else [])"
    using Cons.prems by (auto simp: sweep_entry_def reapable_def Let_def split: prod.split sum.split option.split)
  then show ?case
    using Cons.IH [of "sweep_entry cutoff e acc"] by simp
qed simp

text \<open>The sweep removes exactly the session files that are older than the retention at both readings and
  not locked, as far as the removal succeeds, and reports their number.\<close>

theorem sweep_removes_exactly:
  "snd (sweep cfg now (Inr entries)) =
     map de_path (filter (\<lambda>e. reapable (now - int (retention_hours cfg) * 3600000) e \<and> de_remove e = None) entries)
   \<and> rp_pruned (fst (sweep cfg now (Inr entries))) = length (snd (sweep cfg now (Inr entries)))"
  using sweep_fold [of "(\<lparr>rp_pruned = 0, rp_errors = []\<rparr>, [])"] by (simp add: sweep_def)

text \<open>Every recorded run is counted once, as a success or a failure.\<close>

lemma record_run_counts:
  "cm_total_runs m = u64_add (cm_successful_runs m) (cm_failed_runs m) \<Longrightarrow>
   cm_total_runs (record_run ok d m) = u64_add (cm_successful_runs (record_run ok d m)) (cm_failed_runs (record_run ok d m))"
  by (simp add: record_run_def u64_add_def Let_def mod_simps ac_simps)

end
