(* ===== verification/Rw_Locks.thy ===== *)
theory Rw_Locks
  imports Prelude
begin

text \<open>
  Reader-writer locks as the asynchronous tasks of the program use them: a task is the sequence of
  lock operations of the functions it runs, a request is granted when it is compatible with what
  the tasks hold (a task's own locks included, since the locks are not reentrant), and a guard is released
  where the code drops it.  Tasks that take their locks in a common order never block each
  other for good.
\<close>

datatype lock_mode = Rd | Wr

datatype 'l lock_op = Acquire 'l lock_mode | Release 'l

record 'l lock_task =
  held :: "('l \<times> lock_mode) list"
  todo :: "'l lock_op list"

definition task :: "'l lock_op list \<Rightarrow> 'l lock_task" where
  "task p = \<lparr>held = [], todo = p\<rparr>"

definition grantable :: "'l \<Rightarrow> lock_mode \<Rightarrow> 'l lock_task list \<Rightarrow> bool" where
  "grantable l m ts =
     (\<not> list_ex (\<lambda>t. list_ex (\<lambda>(k, n). k = l \<and> (m = Wr \<or> n = Wr)) (held t)) ts)"

text \<open>The state after the next operation of a task, when it can go on.\<close>

definition task_next :: "'l lock_task list \<Rightarrow> 'l lock_task \<Rightarrow> 'l lock_task option" where
  "task_next ts t =
     (case todo t of
        [] \<Rightarrow> None
      | Acquire l m # p \<Rightarrow> if grantable l m ts then Some \<lparr>held = (l, m) # held t, todo = p\<rparr> else None
      | Release l # p \<Rightarrow> Some \<lparr>held = filter (\<lambda>(k, _). k \<noteq> l) (held t), todo = p\<rparr>)"

inductive lock_step :: "'l lock_task list \<Rightarrow> 'l lock_task list \<Rightarrow> bool" where
  "i < length ts \<Longrightarrow> task_next ts (ts ! i) = Some t \<Longrightarrow> lock_step ts (ts[i := t])"

text \<open>Some task has work left and none can go on.\<close>

definition deadlocked :: "'l lock_task list \<Rightarrow> bool" where
  "deadlocked ts = (list_ex (\<lambda>t. todo t \<noteq> []) ts \<and> list_all (\<lambda>t. task_next ts t = None) ts)"

lemma deadlocked_no_step: "deadlocked ts \<Longrightarrow> \<not> lock_step ts ts'"
  by (auto simp: deadlocked_def list_all_length elim!: lock_step.cases)


section \<open>Lock order\<close>

text \<open>A task that takes locks in the order of \<open>rank\<close> and gives all of them back.\<close>

fun ordered :: "('l \<Rightarrow> nat) \<Rightarrow> ('l \<times> lock_mode) list \<Rightarrow> 'l lock_op list \<Rightarrow> bool" where
  "ordered rank h [] = (h = [])"
| "ordered rank h (Acquire l m # p) = (list_all (\<lambda>(k, _). rank k < rank l) h \<and> ordered rank ((l, m) # h) p)"
| "ordered rank h (Release l # p) = ordered rank (filter (\<lambda>(k, _). k \<noteq> l) h) p"

definition tasks_ordered :: "('l \<Rightarrow> nat) \<Rightarrow> 'l lock_task list \<Rightarrow> bool" where
  "tasks_ordered rank ts = list_all (\<lambda>t. ordered rank (held t) (todo t)) ts"

lemma ordered_next:
  "ordered rank (held t) (todo t) \<Longrightarrow> task_next ts t = Some t' \<Longrightarrow> ordered rank (held t') (todo t')"
  by (auto simp: task_next_def split: list.splits lock_op.splits if_splits)

interpretation lock_order: invariant_system "tasks_ordered rank" lock_step "tasks_ordered rank" for rank
proof
  fix s t assume inv: "tasks_ordered rank s" and step: "lock_step s t"
  from step show "tasks_ordered rank t"
  proof cases
    case (1 i u)
    then have "ordered rank (held (s ! i)) (todo (s ! i))"
      using inv by (simp add: tasks_ordered_def list_all_length)
    then have "ordered rank (held u) (todo u)"
      using 1 ordered_next by blast
    then show ?thesis
      using 1 inv by (simp add: tasks_ordered_def list_all_length nth_list_update)
  qed
qed simp

text \<open>The lock a task waits for.\<close>

definition waits_for :: "'l lock_task list \<Rightarrow> 'l lock_task \<Rightarrow> 'l \<Rightarrow> bool" where
  "waits_for ts t l = (\<exists>m p. todo t = Acquire l m # p \<and> \<not> grantable l m ts)"

lemma blocked_waits: "task_next ts t = None \<Longrightarrow> todo t \<noteq> [] \<Longrightarrow> \<exists>l. waits_for ts t l"
  by (auto simp: waits_for_def task_next_def split: list.splits lock_op.splits if_splits)

text \<open>The holder of a lock another task waits for is not done, and waits, if at all, for a lock of
  higher rank.\<close>

lemma holder_waits_higher:
  assumes "tasks_ordered rank ts" and "list_all (\<lambda>t. task_next ts t = None) ts" and "waits_for ts t l"
  obtains u k where "u \<in> set ts" and "waits_for ts u k" and "rank l < rank k"
proof -
  obtain u n where u: "u \<in> set ts" "(l, n) \<in> set (held u)"
    using assms(3) by (auto simp: waits_for_def grantable_def list_ex_iff)
  have ord: "ordered rank (held u) (todo u)"
    using assms(1) u(1) by (auto simp: tasks_ordered_def list_all_iff)
  then have "todo u \<noteq> []" using u(2) by auto
  then obtain k where k: "waits_for ts u k"
    using blocked_waits [of ts u] assms(2) u(1) by (auto simp: list_all_iff)
  then have "rank l < rank k"
    using ord u(2) by (auto simp: waits_for_def list_all_iff)
  then show thesis using that u(1) k by blast
qed

lemma ordered_not_deadlocked:
  assumes "tasks_ordered rank ts"
  shows "\<not> deadlocked ts"
proof
  assume dead: "deadlocked ts"
  then have blocked: "list_all (\<lambda>t. task_next ts t = None) ts"
    by (simp add: deadlocked_def)
  define W where "W = {l. \<exists>t \<in> set ts. waits_for ts t l}"
  have "W \<subseteq> (\<lambda>t. case todo t of Acquire l m # p \<Rightarrow> l | _ \<Rightarrow> undefined) ` set ts"
    by (force simp: W_def waits_for_def)
  then have "finite W" using finite_subset by blast
  moreover obtain t where "t \<in> set ts" "todo t \<noteq> []" "task_next ts t = None"
    using dead by (auto simp: deadlocked_def list_ex_iff list_all_iff)
  then have "W \<noteq> {}"
    using blocked_waits [of ts t] by (auto simp: W_def)
  ultimately have "finite (rank ` W)" "rank ` W \<noteq> {}" by simp_all
  then obtain l where l: "l \<in> W" "rank l = Max (rank ` W)"
    using Max_in by (metis imageE)
  then obtain u where "waits_for ts u l" by (auto simp: W_def)
  then obtain v k where "v \<in> set ts" "waits_for ts v k" "rank l < rank k"
    by (rule holder_waits_higher [OF assms blocked])
  then have "k \<in> W" by (auto simp: W_def)
  with \<open>rank l < rank k\<close> show False
    using Max_ge [OF \<open>finite (rank ` W)\<close>, of "rank k"] l(2) by auto
qed

text \<open>Tasks that start without locks and take them in order never reach a deadlock.\<close>

lemma ordered_tasks_deadlock_free:
  assumes "list_all (ordered rank []) ps" and "lock_step\<^sup>*\<^sup>* (map task ps) ts"
  shows "\<not> deadlocked ts"
proof -
  have "tasks_ordered rank (map task ps)"
    using assms(1) by (simp add: tasks_ordered_def list_all_iff task_def)
  then show ?thesis
    using lock_order.reachable_inv [OF _ assms(2)] ordered_not_deadlocked by blast
qed

text \<open>Two tasks that take two locks in opposite orders can block each other.\<close>

lemma opposite_orders_deadlock:
  assumes "a \<noteq> b" and "m1 = Wr \<or> n2 = Wr" and "m2 = Wr \<or> n1 = Wr"
  shows "\<exists>ts. lock_step\<^sup>*\<^sup>* (map task [Acquire a m1 # Acquire b m2 # p, Acquire b n1 # Acquire a n2 # q]) ts \<and> deadlocked ts"
proof -
  let ?t1 = "\<lparr>held = [(a, m1)], todo = Acquire b m2 # p\<rparr>" and ?t2 = "\<lparr>held = [(b, n1)], todo = Acquire a n2 # q\<rparr>"
  let ?s0 = "map task [Acquire a m1 # Acquire b m2 # p, Acquire b n1 # Acquire a n2 # q]"
  have "lock_step ?s0 (?s0[0 := ?t1])"
    by (rule lock_step.intros) (simp_all add: task_def grantable_def task_next_def)
  moreover have "lock_step (?s0[0 := ?t1]) (?s0[0 := ?t1, 1 := ?t2])"
    using assms(1) by (intro lock_step.intros) (simp_all add: task_def grantable_def task_next_def)
  moreover have "deadlocked (?s0[0 := ?t1, 1 := ?t2])"
    using assms by (auto simp: deadlocked_def grantable_def task_def task_next_def)
  ultimately show ?thesis
    by (meson converse_rtranclp_into_rtranclp rtranclp.rtrancl_refl)
qed

end
