(* ===== verification/Sessions.thy ===== *)
theory Sessions
  imports Rw_Locks
begin

text \<open>
  \<^verbatim>\<open>security-core\<close>: login sessions (\<^verbatim>\<open>session.rs\<close>), the auth manager in front of them (\<^verbatim>\<open>lib.rs\<close>) and the
  audit log (\<^verbatim>\<open>audit.rs\<close>).  Random tokens and clock readings are arguments.  The two maps of the session manager
  are protected by two locks; the operations are given as functions, as steps between which
  other tasks may run, and as the sequences of locks they take.
\<close>

section \<open>Sessions\<close>

record auth_user =
  au_id :: string
  au_username :: string
  au_display_name :: string
  au_email :: "string option"
  au_avatar_url :: "string option"
  au_roles :: "string list"
  au_provider :: string

datatype auth_error =
    InvalidCredentials | TokenExpired | TokenInvalid | UserNotFound | UserDisabled | RateLimited
  | OAuthError string | Internal string

fun show_auth_error :: "auth_error \<Rightarrow> string" where
  "show_auth_error InvalidCredentials = ''Invalid credentials''"
| "show_auth_error TokenExpired = ''Token expired''"
| "show_auth_error TokenInvalid = ''Token invalid''"
| "show_auth_error UserNotFound = ''User not found''"
| "show_auth_error UserDisabled = ''User disabled''"
| "show_auth_error RateLimited = ''Rate limited''"
| "show_auth_error (OAuthError msg) = ''OAuth error: '' @ msg"
| "show_auth_error (Internal msg) = ''Internal error: '' @ msg"

record security_session =
  ss_token :: string
  ss_user_id :: string
  ss_username :: string
  ss_created_at :: int
  ss_expires_at :: int
  ss_last_activity :: int
  ss_ip_address :: "string option"
  ss_user_agent :: "string option"
  ss_metadata :: "(string, string) hash_map"

definition is_expired :: "int \<Rightarrow> security_session \<Rightarrow> bool" where
  "is_expired now s = (now \<ge> ss_expires_at s)"

definition update_activity :: "int \<Rightarrow> security_session \<Rightarrow> security_session" where
  "update_activity now s = s\<lparr>ss_last_activity := now\<rparr>"

record session_manager =
  sm_sessions :: "(string, security_session) hash_map"
  sm_user_sessions :: "(string, string list) hash_map"
  sm_timeout_secs :: nat

definition session_manager_new :: "nat \<Rightarrow> session_manager" where
  "session_manager_new timeout = \<lparr>sm_sessions = [], sm_user_sessions = [], sm_timeout_secs = timeout\<rparr>"

definition user_tokens :: "string \<Rightarrow> session_manager \<Rightarrow> string list" where
  "user_tokens u m = (case hm_get (sm_user_sessions m) u of Some ts \<Rightarrow> ts | None \<Rightarrow> [])"

definition create_session :: "string \<Rightarrow> int \<Rightarrow> auth_user \<Rightarrow> session_manager \<Rightarrow> string \<times> session_manager" where
  "create_session token now user m =
     (let session = \<lparr>ss_token = token, ss_user_id = au_id user, ss_username = au_username user, ss_created_at = now,
                     ss_expires_at = i64_add now (as_i64 (sm_timeout_secs m)), ss_last_activity = now,
                     ss_ip_address = None, ss_user_agent = None, ss_metadata = []\<rparr>
      in (token, m\<lparr>sm_sessions := hm_insert token session (sm_sessions m),
                   sm_user_sessions := hm_insert (au_id user) (user_tokens (au_id user) m @ [token]) (sm_user_sessions m)\<rparr>))"

text \<open>Revoking takes the two locks one after the other: the session goes first, then its entry in
  the list of its user.\<close>

definition unindex :: "string \<Rightarrow> string \<Rightarrow> session_manager \<Rightarrow> session_manager" where
  "unindex user token m =
     m\<lparr>sm_user_sessions := hm_modify user (filter (\<lambda>t. t \<noteq> token)) (sm_user_sessions m)\<rparr>"

definition drop_session :: "string \<Rightarrow> session_manager \<Rightarrow> session_manager" where
  "drop_session token m = m\<lparr>sm_sessions := hm_remove token (sm_sessions m)\<rparr>"

definition revoke_session :: "string \<Rightarrow> session_manager \<Rightarrow> (auth_error + unit) \<times> session_manager" where
  "revoke_session token m =
     (case hm_get (sm_sessions m) token of
        Some s \<Rightarrow> (Inr (), unindex (ss_user_id s) token (drop_session token m))
      | None \<Rightarrow> (Inl TokenInvalid, m))"

definition session_user :: "security_session \<Rightarrow> auth_user" where
  "session_user s =
     \<lparr>au_id = ss_user_id s, au_username = ss_username s, au_display_name = ss_username s, au_email = None,
      au_avatar_url = None, au_roles = [], au_provider = ''session''\<rparr>"

definition validate_session :: "int \<Rightarrow> string \<Rightarrow> session_manager \<Rightarrow> (auth_error + auth_user) \<times> session_manager" where
  "validate_session now token m =
     (case hm_get (sm_sessions m) token of
        None \<Rightarrow> (Inl TokenInvalid, m)
      | Some s \<Rightarrow>
          if is_expired now s then (Inl TokenExpired, snd (revoke_session token m))
          else (Inr (session_user s), m))"

definition refresh_session :: "int \<Rightarrow> int \<Rightarrow> string \<Rightarrow> session_manager \<Rightarrow> (auth_error + string) \<times> session_manager" where
  "refresh_session check now token m =
     (case hm_get (sm_sessions m) token of
        None \<Rightarrow> (Inl TokenInvalid, m)
      | Some s \<Rightarrow>
          if is_expired check s then (Inl TokenExpired, m)
          else (Inr token,
                m\<lparr>sm_sessions := hm_modify token (\<lambda>s. s\<lparr>ss_expires_at := i64_add now (as_i64 (sm_timeout_secs m)),
                                                        ss_last_activity := now\<rparr>) (sm_sessions m)\<rparr>))"

text \<open>Revoking everything removes the user's list first, then the sessions in it.\<close>

definition revoke_all_user_sessions :: "string \<Rightarrow> session_manager \<Rightarrow> nat \<times> session_manager" where
  "revoke_all_user_sessions user m =
     (let tokens = user_tokens user m;
          m1 = m\<lparr>sm_user_sessions := hm_remove user (sm_user_sessions m)\<rparr>
      in (length tokens, fold drop_session tokens m1))"

definition get_session :: "string \<Rightarrow> session_manager \<Rightarrow> security_session option" where
  "get_session token m = hm_get (sm_sessions m) token"

definition list_user_sessions :: "string \<Rightarrow> session_manager \<Rightarrow> security_session list" where
  "list_user_sessions user m = List.map_filter (hm_get (sm_sessions m)) (user_tokens user m)"

definition cleanup_expired :: "int \<Rightarrow> session_manager \<Rightarrow> session_manager" where
  "cleanup_expired now m =
     (let expired_tokens = map fst (filter (\<lambda>(_, s). ss_expires_at s < now) (sm_sessions m))
      in fold (\<lambda>token m. snd (revoke_session token m)) expired_tokens m)"

definition session_count :: "session_manager \<Rightarrow> nat" where
  "session_count m = length (sm_sessions m)"

definition active_user_count :: "session_manager \<Rightarrow> nat" where
  "active_user_count m = length (sm_user_sessions m)"


section \<open>The auth manager\<close>

record security_config =
  oauth_enabled :: bool
  dm_pairing_enabled :: bool
  session_timeout_secs :: nat
  max_sessions_per_user :: nat
  sec_require_approval :: bool

definition default_security_config :: security_config where
  "default_security_config = \<lparr>oauth_enabled = False, dm_pairing_enabled = True, session_timeout_secs = 3600,
     max_sessions_per_user = 5, sec_require_approval = True\<rparr>"

record credentials =
  cr_username :: "string option"
  cr_password :: "string option"
  cr_token :: "string option"
  cr_oauth_provider :: "string option"
  cr_oauth_code :: "string option"

text \<open>A provider is what the manager calls of it.\<close>

record auth_provider =
  ap_authenticate :: "credentials \<Rightarrow> auth_error + auth_user"
  ap_validate_token :: "string \<Rightarrow> auth_error + auth_user"

record auth_manager =
  am_providers :: "(string, auth_provider) hash_map"
  am_sessions :: session_manager
  am_config :: security_config

definition auth_manager_new :: "security_config \<Rightarrow> auth_manager" where
  "auth_manager_new cfg =
     \<lparr>am_providers = [], am_sessions = session_manager_new (session_timeout_secs cfg), am_config = cfg\<rparr>"

definition register_provider :: "string \<Rightarrow> auth_provider \<Rightarrow> auth_manager \<Rightarrow> auth_manager" where
  "register_provider name p m = m\<lparr>am_providers := hm_insert name p (am_providers m)\<rparr>"

definition authenticate :: "credentials \<Rightarrow> auth_manager \<Rightarrow> auth_error + auth_user" where
  "authenticate c m =
     (case (cr_token c, hm_get (am_providers m) ''token'') of
        (Some token, Some p) \<Rightarrow> ap_validate_token p token
      | _ \<Rightarrow>
          (case (cr_oauth_code c, cr_oauth_provider c) of
             (Some _, Some name) \<Rightarrow>
               (case hm_get (am_providers m) name of
                  Some p \<Rightarrow> ap_authenticate p c
                | None \<Rightarrow> Inl InvalidCredentials)
           | _ \<Rightarrow> Inl InvalidCredentials))"


section \<open>Audit log\<close>

datatype audit_event_kind =
    AuthAttempt | AuthSuccess | AuthFailure | SessionCreate | SessionRevoke | ToolCallEvent | ToolDenied
  | MessageSend | MessageReceive | ConfigChange | PluginLoad | PluginError | RateLimitedEvent | ContentFiltered

record audit_event =
  ae_id :: string
  ae_kind :: audit_event_kind
  ae_timestamp :: int
  ae_actor :: "string option"
  ae_target :: "string option"
  ae_detail :: "string option"
  ae_ip_address :: "string option"
  ae_success :: bool

definition audit_event_new :: "string \<Rightarrow> int \<Rightarrow> audit_event_kind \<Rightarrow> audit_event" where
  "audit_event_new eid now k = \<lparr>ae_id = eid, ae_kind = k, ae_timestamp = now, ae_actor = None, ae_target = None,
     ae_detail = None, ae_ip_address = None, ae_success = True\<rparr>"

record audit_log =
  al_events :: "audit_event list"
  al_max_events :: nat

definition audit_log_new :: "nat \<Rightarrow> audit_log" where
  "audit_log_new mx = \<lparr>al_events = [], al_max_events = mx\<rparr>"

definition audit_record :: "audit_event \<Rightarrow> audit_log \<Rightarrow> audit_log" where
  "audit_record ev l =
     (let events = al_events l @ [ev]; overflow = length events - al_max_events l
      in l\<lparr>al_events := (if overflow > 0 then drop overflow events else events)\<rparr>)"

definition audit_query :: "audit_event_kind option \<Rightarrow> nat \<Rightarrow> audit_log \<Rightarrow> audit_event list" where
  "audit_query kind limit l =
     take limit (filter (\<lambda>e. case kind of None \<Rightarrow> True | Some k \<Rightarrow> ae_kind e = k) (rev (al_events l)))"

definition audit_count :: "audit_log \<Rightarrow> nat" where
  "audit_count l = length (al_events l)"

definition audit_clear :: "audit_log \<Rightarrow> audit_log" where
  "audit_clear l = l\<lparr>al_events := []\<rparr>"


section \<open>Interleaved operations\<close>

text \<open>
  The manager with the second halves that are still to be done: entries to take out of a user's list,
  and lists of tokens whose sessions are to be dropped.  New tokens are fresh: no session has them and
  no pending half mentions them.
\<close>

record session_system =
  sy_manager :: session_manager
  sy_unindex :: "(string \<times> string) list"
  sy_drop :: "string list list"

inductive session_step :: "session_system \<Rightarrow> session_system \<Rightarrow> bool" where
  Create: "hm_get (sm_sessions (sy_manager y)) token = None \<Longrightarrow> token \<notin> set (concat (sy_drop y)) \<Longrightarrow>
     token \<notin> snd ` set (sy_unindex y) \<Longrightarrow>
     session_step y (y\<lparr>sy_manager := snd (create_session token now user (sy_manager y))\<rparr>)"
| Refresh: "session_step y (y\<lparr>sy_manager := snd (refresh_session check now token (sy_manager y))\<rparr>)"
| RevokeFirst: "hm_get (sm_sessions (sy_manager y)) token = Some s \<Longrightarrow>
     session_step y (y\<lparr>sy_manager := drop_session token (sy_manager y), sy_unindex := (ss_user_id s, token) # sy_unindex y\<rparr>)"
| RevokeSecond: "sy_unindex y = us1 @ (user, token) # us2 \<Longrightarrow>
     session_step y (y\<lparr>sy_manager := unindex user token (sy_manager y), sy_unindex := us1 @ us2\<rparr>)"
| RevokeAllFirst: "session_step y (y\<lparr>sy_manager := (sy_manager y)\<lparr>sm_user_sessions := hm_remove user (sm_user_sessions (sy_manager y))\<rparr>,
     sy_drop := user_tokens user (sy_manager y) # sy_drop y\<rparr>)"
| RevokeAllSecond: "sy_drop y = ds1 @ tokens # ds2 \<Longrightarrow>
     session_step y (y\<lparr>sy_manager := fold drop_session tokens (sy_manager y), sy_drop := ds1 @ ds2\<rparr>)"

text \<open>Every session is listed for its user or about to be dropped.\<close>

definition session_inv :: "session_system \<Rightarrow> bool" where
  "session_inv y =
     (hm_wf (sm_sessions (sy_manager y)) \<and>
      (\<forall>token s. hm_get (sm_sessions (sy_manager y)) token = Some s \<longrightarrow>
         token \<in> set (user_tokens (ss_user_id s) (sy_manager y)) \<or> token \<in> set (concat (sy_drop y)))
      \<and> (\<forall>(user, token) \<in> set (sy_unindex y). hm_get (sm_sessions (sy_manager y)) token = None))"

lemma fold_drop_sessions:
  "hm_get (sm_sessions (fold drop_session ts m)) t = (if t \<in> set ts then None else hm_get (sm_sessions m) t)"
  "sm_user_sessions (fold drop_session ts m) = sm_user_sessions m"
  "sm_timeout_secs (fold drop_session ts m) = sm_timeout_secs m"
  "hm_wf (sm_sessions m) \<Longrightarrow> hm_wf (sm_sessions (fold drop_session ts m))"
  by (induction ts arbitrary: m) (auto simp: drop_session_def)

lemma user_tokens_simps:
  "user_tokens u (drop_session t m) = user_tokens u m"
  "user_tokens u (fold drop_session ts m) = user_tokens u m"
  "user_tokens u (unindex v t m) = (if u = v then filter (\<lambda>x. x \<noteq> t) (user_tokens u m) else user_tokens u m)"
  "user_tokens u (snd (create_session t now user m)) = user_tokens u m @ (if u = au_id user then [t] else [])"
  "user_tokens u (m\<lparr>sm_user_sessions := hm_remove v (sm_user_sessions m)\<rparr>) = (if u = v then [] else user_tokens u m)"
  "user_tokens u (m\<lparr>sm_sessions := ss\<rparr>) = user_tokens u m"
  by (auto simp: user_tokens_def drop_session_def unindex_def create_session_def fold_drop_sessions Let_def split: option.split)

lemma sessions_simps:
  "sm_sessions (unindex v t m) = sm_sessions m"
  "hm_get (sm_sessions (drop_session t m)) k = (if k = t then None else hm_get (sm_sessions m) k)"
  by (simp_all add: unindex_def drop_session_def)

lemma create_get:
  "hm_get (sm_sessions (snd (create_session t now user m))) k = Some s \<Longrightarrow>
   if k = t then ss_user_id s = au_id user else hm_get (sm_sessions m) k = Some s"
  "hm_get (sm_sessions (snd (create_session t now user m))) k = None \<longleftrightarrow> k \<noteq> t \<and> hm_get (sm_sessions m) k = None"
  "hm_wf (sm_sessions m) \<Longrightarrow> hm_wf (sm_sessions (snd (create_session t now user m)))"
  by (auto simp: create_session_def Let_def split: if_splits)

interpretation session_sys: invariant_system
  "\<lambda>y. \<exists>timeout. y = \<lparr>sy_manager = session_manager_new timeout, sy_unindex = [], sy_drop = []\<rparr>" session_step session_inv
proof
  fix y z assume inv: "session_inv y" and step: "session_step y z"
  from step show "session_inv z"
  proof cases
    case (Create token now user)
    let ?m = "snd (create_session token now user (sy_manager y))"
    have "k \<in> set (user_tokens (ss_user_id s) ?m) \<or> k \<in> set (concat (sy_drop y))" if "hm_get (sm_sessions ?m) k = Some s" for k s
      using create_get(1) [OF that] inv by (cases "k = token") (auto simp: session_inv_def user_tokens_simps)
    moreover have "\<forall>(u, k) \<in> set (sy_unindex y). hm_get (sm_sessions ?m) k = None"
      using inv Create(4) by (force simp: session_inv_def create_get(2))
    ultimately show ?thesis
      using inv Create(1) create_get(3) by (auto simp: session_inv_def)
  next
    case (Refresh check now token)
    then show ?thesis
      using inv by (auto simp: session_inv_def refresh_session_def user_tokens_simps split: option.splits if_splits)
  next
    case (RevokeFirst token s)
    then show ?thesis
      using inv by (auto simp: session_inv_def user_tokens_simps sessions_simps split: if_splits)
        (simp add: drop_session_def)
  next
    case (RevokeSecond us1 user token us2)
    then show ?thesis
      using inv by (auto simp: session_inv_def user_tokens_simps sessions_simps)
  next
    case (RevokeAllFirst user)
    then show ?thesis
      using inv by (auto simp: session_inv_def user_tokens_simps)
  next
    case (RevokeAllSecond ds1 tokens ds2)
    then show ?thesis
      using inv by (auto simp: session_inv_def user_tokens_simps fold_drop_sessions split: if_splits)
  qed
qed (auto simp: session_inv_def session_manager_new_def)


section \<open>Locks\<close>

text \<open>The locks each operation takes, in the order of the code, with the place where each guard ends.\<close>

datatype session_lock = SessionsLock | UserSessionsLock

type_synonym session_program = "session_lock lock_op list"

definition create_session_locks :: session_program where
  "create_session_locks =
     [Acquire SessionsLock Wr, Acquire UserSessionsLock Wr, Release UserSessionsLock, Release SessionsLock]"

definition revoke_session_locks :: session_program where
  "revoke_session_locks =
     [Acquire SessionsLock Wr, Release SessionsLock, Acquire UserSessionsLock Wr, Release UserSessionsLock]"

definition validate_session_locks :: session_program where
  "validate_session_locks = [Acquire SessionsLock Rd, Release SessionsLock]"

definition validate_expired_locks :: session_program where
  "validate_expired_locks = validate_session_locks @ revoke_session_locks"

definition refresh_session_locks :: session_program where
  "refresh_session_locks = [Acquire SessionsLock Wr, Release SessionsLock]"

definition revoke_all_locks :: session_program where
  "revoke_all_locks =
     [Acquire UserSessionsLock Wr, Release UserSessionsLock, Acquire SessionsLock Wr, Release SessionsLock]"

definition list_user_sessions_locks :: session_program where
  "list_user_sessions_locks =
     [Acquire UserSessionsLock Rd, Acquire SessionsLock Rd, Release SessionsLock, Release UserSessionsLock]"

text \<open>The clean-up reads the sessions and revokes each expired one.\<close>

definition cleanup_locks :: "nat \<Rightarrow> session_program" where
  "cleanup_locks n = [Acquire SessionsLock Rd, Release SessionsLock] @ concat (replicate n revoke_session_locks)"

definition writer_programs :: "session_program set" where
  "writer_programs =
     {create_session_locks, revoke_session_locks, validate_session_locks, validate_expired_locks,
      refresh_session_locks, revoke_all_locks} \<union> range cleanup_locks"

fun session_rank :: "session_lock \<Rightarrow> nat" where
  "session_rank SessionsLock = 0"
| "session_rank UserSessionsLock = 1"

lemma cleanup_ordered: "ordered session_rank [] (cleanup_locks n)"
proof -
  have "ordered session_rank [] (concat (replicate n revoke_session_locks))"
    by (induction n) (simp_all add: revoke_session_locks_def)
  then show ?thesis by (simp add: cleanup_locks_def)
qed

lemma writer_programs_ordered: "p \<in> writer_programs \<Longrightarrow> ordered session_rank [] p"
  by (auto simp: writer_programs_def create_session_locks_def revoke_session_locks_def validate_session_locks_def
      validate_expired_locks_def refresh_session_locks_def revoke_all_locks_def cleanup_ordered)


section \<open>Properties\<close>


definition sample_user :: auth_user where
  "sample_user = \<lparr>au_id = ''u1'', au_username = ''ann'', au_display_name = ''Ann'', au_email = None, au_avatar_url = None,
     au_roles = [], au_provider = ''test''\<rparr>"


text \<open>A session is accepted exactly while it is known and not expired: validating a token answers the
  session's user before the expiry, and otherwise an error, after which the token is no longer known.\<close>

theorem validate_session_correct:
  "(case hm_get (sm_sessions m) token of
      Some s \<Rightarrow> if now < ss_expires_at s then validate_session now token m = (Inr (session_user s), m)
        else fst (validate_session now token m) = Inl TokenExpired
          \<and> get_session token (snd (validate_session now token m)) = None
    | None \<Rightarrow> validate_session now token m = (Inl TokenInvalid, m))
   \<and> (get_session t (snd (validate_session now token m)) = get_session t m \<or> t = token)"
  by (auto simp: validate_session_def is_expired_def revoke_session_def get_session_def sessions_simps split: option.split)

text \<open>A created session lives for the configured time: with a timeout that does not overflow, the token
  is valid from its creation until, but not at, the expiry.\<close>

theorem created_session_lifetime:
  assumes "sm_timeout_secs m < 2 ^ 62" and "0 \<le> now" and "now < 2 ^ 62"
  shows "isl (fst (validate_session t token (snd (create_session token now user m)))) \<longleftrightarrow> now + int (sm_timeout_secs m) \<le> t"
proof -
  have "int (sm_timeout_secs m) < 2 ^ 62"
    using assms(1) by (metis of_nat_less_iff of_nat_numeral of_nat_power)
  then have "i64_add now (as_i64 (sm_timeout_secs m)) = now + int (sm_timeout_secs m)"
    using assms by (simp add: as_i64_def i64_add_exact)
  then show ?thesis
    by (simp add: validate_session_def create_session_def is_expired_def Let_def)
qed

theorem created_session_lifetime_witness:
  "isl (fst (validate_session 65 ''t1'' (snd (create_session ''t1'' 5 sample_user (session_manager_new 60)))))"
  using created_session_lifetime [of "session_manager_new 60" 5 65 "''t1''" sample_user] by (simp add: session_manager_new_def)

text \<open>C29: the session operations cannot block each other for good, listing a user's sessions left
  out: tasks running any of them, in any number, never reach a deadlock.\<close>

theorem session_writers_deadlock_free:
  assumes "list_all (\<lambda>p. p \<in> writer_programs) ps" and "lock_step\<^sup>*\<^sup>* (map task ps) ts"
  shows "\<not> deadlocked ts"
proof (rule ordered_tasks_deadlock_free [OF _ assms(2)])
  show "list_all (ordered session_rank []) ps"
    using assms(1) writer_programs_ordered by (auto simp: list_all_iff)
qed

theorem session_writers_deadlock_free_witness:
  "\<not> deadlocked (map task [create_session_locks, revoke_all_locks, cleanup_locks 2])"
  by (rule session_writers_deadlock_free [OF _ rtranclp.rtrancl_refl]) (simp add: writer_programs_def)

text \<open>Listing a user's sessions and creating a session can deadlock: they take the two locks in opposite orders.\<close>

theorem list_sessions_deadlock:
  "\<exists>ts. lock_step\<^sup>*\<^sup>* (map task [create_session_locks, list_user_sessions_locks]) ts \<and> deadlocked ts"
  unfolding create_session_locks_def list_user_sessions_locks_def
  by (rule opposite_orders_deadlock) simp_all

text \<open>The audit log keeps the newest events up to its capacity, and a query answers the newest matching
  ones first.\<close>

theorem audit_log_keeps_newest:
  "audit_query kind limit (fold audit_record evs (audit_log_new mx)) =
     take limit (filter (\<lambda>e. case kind of None \<Rightarrow> True | Some k \<Rightarrow> ae_kind e = k) (rev (last_n mx evs)))"
proof -
  have "al_events (fold audit_record evs (audit_log_new mx)) = last_n mx evs \<and> al_max_events (fold audit_record evs (audit_log_new mx)) = mx"
  proof (induction evs rule: rev_induct)
    case (snoc e evs)
    have "al_events (audit_record e l) = last_n (al_max_events l) (al_events l @ [e])" "al_max_events (audit_record e l) = al_max_events l" for l
      by (simp_all add: audit_record_def Let_def last_n_def)
    with snoc show ?case by (simp add: last_n_snoc)
  qed (simp add: audit_log_new_def last_n_def)
  then show ?thesis by (simp add: audit_query_def)
qed

end
