(* ===== verification/Pairing.thy ===== *)
theory Pairing
  imports Rw_Locks
begin

text \<open>
  Pairing codes: direct message pairing (\<^verbatim>\<open>security-core/src/pairing.rs\<close>), device pairing with long-term tokens
  (\<^verbatim>\<open>security-core/src/device_pairing.rs\<close>) and the setup codes with their request store (\<^verbatim>\<open>pairing\<close> crate).
  Random values and clock readings are arguments.
\<close>

section \<open>Direct message pairing\<close>

datatype pairing_status = PairPending | PairApproved | PairRejected | PairExpired | PairRevoked

record pairing_request =
  pr_id :: string
  pr_from_user_id :: string
  pr_from_display_name :: string
  pr_to_user_id :: "string option"
  pr_to_identifier :: "string option"
  pr_code :: string
  pr_status :: pairing_status
  pr_created_at :: int
  pr_expires_at :: int
  pr_metadata :: "(string, string) hash_map"

record dm_pairing =
  dm_id :: string
  dm_user_a :: string
  dm_user_b :: string
  dm_created_at :: int
  dm_last_message_at :: int
  dm_metadata :: "(string, string) hash_map"

datatype pairing_error = RequestNotFound | PairingNotFound | InvalidCode | RequestExpired | InvalidStatus

fun show_pairing_error :: "pairing_error \<Rightarrow> string" where
  "show_pairing_error RequestNotFound = ''Pairing request not found''"
| "show_pairing_error PairingNotFound = ''Pairing not found''"
| "show_pairing_error InvalidCode = ''Invalid pairing code''"
| "show_pairing_error RequestExpired = ''Pairing request expired''"
| "show_pairing_error InvalidStatus = ''Invalid request status''"

record pairing_manager =
  pm_requests :: "(string, pairing_request) hash_map"
  pm_pairings :: "(string, dm_pairing) hash_map"
  pm_code_store :: "(string, string) hash_map"
  pm_timeout_secs :: int
  pm_code_length :: nat

definition pairing_manager_new :: "int \<Rightarrow> pairing_manager" where
  "pairing_manager_new timeout =
     \<lparr>pm_requests = [], pm_pairings = [], pm_code_store = [], pm_timeout_secs = timeout, pm_code_length = 8\<rparr>"

definition with_code_length :: "nat \<Rightarrow> pairing_manager \<Rightarrow> pairing_manager" where
  "with_code_length n m = m\<lparr>pm_code_length := n\<rparr>"

text \<open>The alphabet of codes, without easily confused characters; the same in both crates.\<close>

definition CHARSET :: string where
  "CHARSET = ''ABCDEFGHJKLMNPQRSTUVWXYZ23456789''"

definition generate_code :: "nat list \<Rightarrow> string" where
  "generate_code draws = map (\<lambda>i. CHARSET ! i) draws"

definition create_request ::
  "string \<Rightarrow> string \<Rightarrow> int \<Rightarrow> string \<Rightarrow> string \<Rightarrow> string option \<Rightarrow> pairing_manager \<Rightarrow> pairing_request \<times> pairing_manager" where
  "create_request rid code now from_user from_name to_ident m =
     (let request = \<lparr>pr_id = rid, pr_from_user_id = from_user, pr_from_display_name = from_name, pr_to_user_id = None,
                     pr_to_identifier = to_ident, pr_code = code, pr_status = PairPending, pr_created_at = now,
                     pr_expires_at = i64_add now (pm_timeout_secs m), pr_metadata = []\<rparr>
      in (request, m\<lparr>pm_requests := hm_insert rid request (pm_requests m),
                     pm_code_store := hm_insert code rid (pm_code_store m)\<rparr>))"

definition approve_request ::
  "string \<Rightarrow> int \<Rightarrow> string \<Rightarrow> string \<Rightarrow> pairing_manager \<Rightarrow> (pairing_error + dm_pairing) \<times> pairing_manager" where
  "approve_request pid now rid to_user m =
     (case hm_get (pm_requests m) rid of
        None \<Rightarrow> (Inl RequestNotFound, m)
      | Some r \<Rightarrow>
          if pr_status r \<noteq> PairPending then (Inl InvalidStatus, m)
          else if now > pr_expires_at r then
            (Inl RequestExpired, m\<lparr>pm_requests := hm_modify rid (\<lambda>r. r\<lparr>pr_status := PairExpired\<rparr>) (pm_requests m)\<rparr>)
          else
            (let pairing = \<lparr>dm_id = pid, dm_user_a = pr_from_user_id r, dm_user_b = to_user, dm_created_at = now,
                            dm_last_message_at = now, dm_metadata = pr_metadata r\<rparr>
             in (Inr pairing,
                 m\<lparr>pm_requests := hm_modify rid (\<lambda>r. r\<lparr>pr_status := PairApproved, pr_to_user_id := Some to_user\<rparr>) (pm_requests m),
                   pm_pairings := hm_insert pid pairing (pm_pairings m)\<rparr>)))"

definition reject_request :: "string \<Rightarrow> pairing_manager \<Rightarrow> (pairing_error + unit) \<times> pairing_manager" where
  "reject_request rid m =
     (case hm_get (pm_requests m) rid of
        None \<Rightarrow> (Inl RequestNotFound, m)
      | Some r \<Rightarrow>
          if pr_status r \<noteq> PairPending then (Inl InvalidStatus, m)
          else (Inr (), m\<lparr>pm_requests := hm_modify rid (\<lambda>r. r\<lparr>pr_status := PairRejected\<rparr>) (pm_requests m)\<rparr>))"

definition verify_code :: "int \<Rightarrow> string \<Rightarrow> pairing_manager \<Rightarrow> pairing_error + pairing_request" where
  "verify_code now code m =
     (case hm_get (pm_code_store m) code of
        None \<Rightarrow> Inl InvalidCode
      | Some rid \<Rightarrow>
          (case hm_get (pm_requests m) rid of
             None \<Rightarrow> Inl RequestNotFound
           | Some r \<Rightarrow>
               if now > pr_expires_at r then Inl RequestExpired
               else if pr_status r \<noteq> PairPending then Inl InvalidStatus
               else Inr r))"

definition get_pairing :: "string \<Rightarrow> string \<Rightarrow> pairing_manager \<Rightarrow> dm_pairing option" where
  "get_pairing a b m =
     find (\<lambda>p. dm_user_a p = a \<and> dm_user_b p = b \<or> dm_user_a p = b \<and> dm_user_b p = a) (map snd (pm_pairings m))"

definition list_user_pairings :: "string \<Rightarrow> pairing_manager \<Rightarrow> dm_pairing list" where
  "list_user_pairings u m = filter (\<lambda>p. dm_user_a p = u \<or> dm_user_b p = u) (map snd (pm_pairings m))"

definition remove_pairing :: "string \<Rightarrow> pairing_manager \<Rightarrow> (pairing_error + unit) \<times> pairing_manager" where
  "remove_pairing pid m =
     (case hm_get (pm_pairings m) pid of
        None \<Rightarrow> (Inl PairingNotFound, m)
      | Some _ \<Rightarrow> (Inr (), m\<lparr>pm_pairings := hm_remove pid (pm_pairings m)\<rparr>))"

definition forget_request :: "string \<Rightarrow> pairing_manager \<Rightarrow> pairing_manager" where
  "forget_request rid m =
     (case hm_get (pm_requests m) rid of
        None \<Rightarrow> m
      | Some r \<Rightarrow> m\<lparr>pm_requests := hm_remove rid (pm_requests m), pm_code_store := hm_remove (pr_code r) (pm_code_store m)\<rparr>)"

definition cleanup_requests :: "int \<Rightarrow> pairing_manager \<Rightarrow> pairing_manager" where
  "cleanup_requests now m =
     (let expired = map fst (filter (\<lambda>(_, r). pr_expires_at r < now \<or> pr_status r = PairExpired) (pm_requests m))
      in fold forget_request expired m)"


section \<open>Device pairing\<close>

definition CODE_EXPIRY_SECS :: int where "CODE_EXPIRY_SECS = 300"

record pending_code =
  pc_code :: string
  pc_device_name :: "string option"
  pc_created_at :: int
  pc_expires_at :: int

record paired_device =
  pd_device_id :: string
  pd_device_name :: string
  pd_token :: string
  pd_paired_at :: int
  pd_last_seen :: "int option"

datatype device_pairing_error = DevInvalidCode | DevCodeExpired | DevDeviceNotFound

fun show_device_pairing_error :: "device_pairing_error \<Rightarrow> string" where
  "show_device_pairing_error DevInvalidCode = ''Invalid pairing code''"
| "show_device_pairing_error DevCodeExpired = ''Pairing code expired''"
| "show_device_pairing_error DevDeviceNotFound = ''Device not found''"

text \<open>The devices, the index from tokens to positions, and the device file: \<open>dp_disk\<close> is its content, \<^const>\<open>None\<close> when
  there is no file or no path.\<close>

record device_pairing =
  dp_pending :: "(string, pending_code) hash_map"
  dp_devices :: "paired_device list"
  dp_token_index :: "(string, nat) hash_map"
  dp_has_path :: bool
  dp_disk :: "paired_device list option"

definition device_pairing_new :: "bool \<Rightarrow> paired_device list option \<Rightarrow> device_pairing" where
  "device_pairing_new has_path disk =
     \<lparr>dp_pending = [], dp_devices = [], dp_token_index = [], dp_has_path = has_path, dp_disk = disk\<rparr>"

definition index_tokens :: "paired_device list \<Rightarrow> (string, nat) hash_map" where
  "index_tokens ds = fold (\<lambda>(i, d) idx. hm_insert (pd_token d) i idx) (enumerate 0 ds) []"

text \<open>\<open>bad\<close> is the error of reading or parsing the file.\<close>

definition device_load :: "string option \<Rightarrow> device_pairing \<Rightarrow> (string + unit) \<times> device_pairing" where
  "device_load bad m =
     (if \<not> dp_has_path m then (Inr (), m)
      else (case dp_disk m of
              None \<Rightarrow> (Inr (), m)
            | Some ds \<Rightarrow>
                (case bad of
                   Some e \<Rightarrow> (Inl e, m)
                 | None \<Rightarrow> (Inr (), m\<lparr>dp_devices := ds, dp_token_index := index_tokens ds\<rparr>))))"

definition device_save :: "string option \<Rightarrow> device_pairing \<Rightarrow> (string + unit) \<times> device_pairing" where
  "device_save io m =
     (if \<not> dp_has_path m then (Inr (), m)
      else (case io of Some e \<Rightarrow> (Inl e, m) | None \<Rightarrow> (Inr (), m\<lparr>dp_disk := Some (dp_devices m)\<rparr>)))"

text \<open>\<^verbatim>\<open>format!("{:06}", n)\<close>.\<close>

definition random_code :: "nat \<Rightarrow> string" where
  "random_code n = (let s = show_nat n in replicate (6 - length s) CHR ''0'' @ s)"

definition device_generate_code :: "nat \<Rightarrow> int \<Rightarrow> string option \<Rightarrow> device_pairing \<Rightarrow> string \<times> device_pairing" where
  "device_generate_code n now name m =
     (let code = random_code n;
          pending = \<lparr>pc_code = code, pc_device_name = name, pc_created_at = now, pc_expires_at = i64_add now CODE_EXPIRY_SECS\<rparr>
      in (code, m\<lparr>dp_pending := hm_insert code pending (dp_pending m)\<rparr>))"

definition device_verify_code ::
  "string option \<Rightarrow> string \<Rightarrow> string \<Rightarrow> int \<Rightarrow> string \<Rightarrow> device_pairing \<Rightarrow> (device_pairing_error + paired_device) \<times> device_pairing" where
  "device_verify_code io did token now code m =
     (case hm_get (dp_pending m) code of
        None \<Rightarrow> (Inl DevInvalidCode, m)
      | Some p \<Rightarrow>
          (let m1 = m\<lparr>dp_pending := hm_remove code (dp_pending m)\<rparr> in
           if now > pc_expires_at p then (Inl DevCodeExpired, m1)
           else
             (let device = \<lparr>pd_device_id = did,
                            pd_device_name = (case pc_device_name p of Some n \<Rightarrow> n | None \<Rightarrow> ''Unknown Device''),
                            pd_token = token, pd_paired_at = now, pd_last_seen = Some now\<rparr>;
                  idx = length (dp_devices m1);
                  m2 = m1\<lparr>dp_devices := dp_devices m1 @ [device], dp_token_index := hm_insert token idx (dp_token_index m1)\<rparr>
              in (Inr device, snd (device_save io m2)))))"

definition nth_opt :: "nat \<Rightarrow> 'a list \<Rightarrow> 'a option" where
  "nth_opt i xs = (if i < length xs then Some (xs ! i) else None)"

definition validate_token :: "string \<Rightarrow> device_pairing \<Rightarrow> string option" where
  "validate_token token m =
     (case hm_get (dp_token_index m) token of
        None \<Rightarrow> None
      | Some i \<Rightarrow> map_option pd_device_id (nth_opt i (dp_devices m)))"

text \<open>\<^verbatim>\<open>touch\<close> looks up the position under one lock and writes under the other.\<close>

definition touch_at :: "int \<Rightarrow> nat \<Rightarrow> device_pairing \<Rightarrow> device_pairing" where
  "touch_at now i m =
     (if i < length (dp_devices m)
      then m\<lparr>dp_devices := (dp_devices m)[i := (dp_devices m ! i)\<lparr>pd_last_seen := Some now\<rparr>]\<rparr> else m)"

definition touch :: "int \<Rightarrow> string \<Rightarrow> device_pairing \<Rightarrow> device_pairing" where
  "touch now token m = (case hm_get (dp_token_index m) token of Some i \<Rightarrow> touch_at now i m | None \<Rightarrow> m)"

fun remove_first :: "('a \<Rightarrow> bool) \<Rightarrow> 'a list \<Rightarrow> 'a list option" where
  "remove_first P [] = None"
| "remove_first P (x # xs) = (if P x then Some xs else map_option (Cons x) (remove_first P xs))"

definition revoke_device ::
  "string option \<Rightarrow> string \<Rightarrow> device_pairing \<Rightarrow> (device_pairing_error + unit) \<times> device_pairing" where
  "revoke_device io did m =
     (case remove_first (\<lambda>d. pd_device_id d = did) (dp_devices m) of
        None \<Rightarrow> (Inl DevDeviceNotFound, m)
      | Some ds \<Rightarrow> (Inr (), snd (device_save io (m\<lparr>dp_devices := ds, dp_token_index := index_tokens ds\<rparr>))))"

definition cleanup_expired_codes :: "int \<Rightarrow> device_pairing \<Rightarrow> device_pairing" where
  "cleanup_expired_codes now m = m\<lparr>dp_pending := hm_retain (\<lambda>_ p. pc_expires_at p > now) (dp_pending m)\<rparr>"


section \<open>Setup codes and their requests\<close>

definition CODE_LEN :: nat where "CODE_LEN = 8"

text \<open>\<^verbatim>\<open>c as u8\<close> keeps the low byte of the code point.\<close>

definition validate_setup_code :: "string \<Rightarrow> bool" where
  "validate_setup_code code =
     (length code = CODE_LEN \<and> list_all (\<lambda>c. code_point c mod 256 \<in> set (map byte CHARSET)) (chars_of code))"

record setup_request =
  sr_id :: string
  sr_code :: string
  sr_created_at :: nat
  sr_last_seen_at :: nat
  sr_meta :: "(string, string) hash_map"
  sr_approved :: bool

datatype setup_error = TooManyPending nat | SetupNotFound string | SetupExpired string

record pairing_store =
  ps_requests :: "setup_request list"
  ps_max_pending :: nat
  ps_ttl_ms :: nat

definition pairing_store_new :: "nat \<Rightarrow> nat \<Rightarrow> pairing_store" where
  "pairing_store_new mx ttl = \<lparr>ps_requests = [], ps_max_pending = mx, ps_ttl_ms = ttl\<rparr>"

definition setup_live :: "nat \<Rightarrow> pairing_store \<Rightarrow> setup_request \<Rightarrow> bool" where
  "setup_live now m r = (usize_sub now (sr_created_at r) < ps_ttl_ms m)"

definition setup_cleanup :: "nat \<Rightarrow> pairing_store \<Rightarrow> pairing_store" where
  "setup_cleanup now m = m\<lparr>ps_requests := filter (\<lambda>r. sr_approved r \<or> setup_live now m r) (ps_requests m)\<rparr>"

definition list_pending :: "pairing_store \<Rightarrow> setup_request list" where
  "list_pending m = filter (\<lambda>r. \<not> sr_approved r) (ps_requests m)"

definition list_approved :: "pairing_store \<Rightarrow> setup_request list" where
  "list_approved m = filter sr_approved (ps_requests m)"

definition setup_create :: "string \<Rightarrow> nat list \<Rightarrow> nat \<Rightarrow> nat \<Rightarrow> pairing_store \<Rightarrow> (setup_error + setup_request) \<times> pairing_store" where
  "setup_create rid draws now0 now m =
     (let m1 = setup_cleanup now0 m in
      if length (list_pending m1) \<ge> ps_max_pending m1 then (Inl (TooManyPending (ps_max_pending m1)), m1)
      else
        (let req = \<lparr>sr_id = rid, sr_code = generate_code draws, sr_created_at = now, sr_last_seen_at = now, sr_meta = [],
                    sr_approved = False\<rparr>
         in (Inr req, m1\<lparr>ps_requests := ps_requests m1 @ [req]\<rparr>)))"

definition setup_verify :: "nat \<Rightarrow> string \<Rightarrow> pairing_store \<Rightarrow> setup_request option" where
  "setup_verify now code m = find (\<lambda>r. sr_code r = code \<and> \<not> sr_approved r \<and> setup_live now m r) (ps_requests m)"

definition setup_approve :: "nat \<Rightarrow> string \<Rightarrow> pairing_store \<Rightarrow> (setup_error + unit) \<times> pairing_store" where
  "setup_approve now rid m =
     (case update_first (\<lambda>r. sr_id r = rid) (\<lambda>r. r\<lparr>sr_approved := True, sr_last_seen_at := now\<rparr>) (ps_requests m) of
        None \<Rightarrow> (Inl (SetupNotFound rid), m)
      | Some rs \<Rightarrow> (Inr (), m\<lparr>ps_requests := rs\<rparr>))"

definition setup_reject :: "string \<Rightarrow> pairing_store \<Rightarrow> (setup_error + unit) \<times> pairing_store" where
  "setup_reject rid m =
     (case remove_first (\<lambda>r. sr_id r = rid) (ps_requests m) of
        None \<Rightarrow> (Inl (SetupNotFound rid), m)
      | Some rs \<Rightarrow> (Inr (), m\<lparr>ps_requests := rs\<rparr>))"

text \<open>The list of paired ids.\<close>

type_synonym allowlist = "string set"

definition allowlist_add :: "string \<Rightarrow> allowlist \<Rightarrow> allowlist" where
  "allowlist_add i a = insert i a"

definition allowlist_remove :: "string \<Rightarrow> allowlist \<Rightarrow> bool \<times> allowlist" where
  "allowlist_remove i a = (i \<in> a, a - {i})"

definition allowlist_contains :: "string \<Rightarrow> allowlist \<Rightarrow> bool" where
  "allowlist_contains i a = (i \<in> a)"


section \<open>Device tokens\<close>

definition token_positions :: "(string, nat) hash_map \<Rightarrow> paired_device list \<Rightarrow> bool" where
  "token_positions idx ds = (\<forall>t i. hm_get idx t = Some i \<longleftrightarrow> i < length ds \<and> pd_token (ds ! i) = t)"

lemma index_tokens_snoc: "index_tokens (ds @ [d]) = hm_insert (pd_token d) (length ds) (index_tokens ds)"
  by (simp add: index_tokens_def enumerate_append_eq)

lemma token_positions_snoc:
  "token_positions idx ds \<Longrightarrow> pd_token d \<notin> pd_token ` set ds \<Longrightarrow>
   token_positions (hm_insert (pd_token d) (length ds) idx) (ds @ [d])"
  by (auto simp: token_positions_def nth_append less_Suc_eq) (metis imageI nth_mem)

lemma token_positions_index: "distinct (map pd_token ds) \<Longrightarrow> token_positions (index_tokens ds) ds"
proof (induction ds rule: rev_induct)
  case Nil
  then show ?case by (simp add: token_positions_def index_tokens_def)
next
  case (snoc d ds)
  then show ?case by (auto simp: index_tokens_snoc intro!: token_positions_snoc)
qed

lemma token_positions_update:
  "token_positions idx ds \<Longrightarrow> i < length ds \<Longrightarrow> pd_token d = pd_token (ds ! i) \<Longrightarrow> token_positions idx (ds[i := d])"
  by (auto simp: token_positions_def nth_list_update)

lemma remove_first_set: "remove_first P xs = Some ys \<Longrightarrow> set ys \<subseteq> set xs"
  by (induction xs arbitrary: ys) (auto split: if_splits)

lemma remove_first_distinct:
  "remove_first P xs = Some ys \<Longrightarrow> distinct (map f xs) \<Longrightarrow> distinct (map f ys)"
proof (induction xs arbitrary: ys)
  case (Cons x xs)
  then show ?case
    using remove_first_set [of P xs] by (fastforce split: if_splits)
qed simp

lemma remove_first_gone:
  "remove_first (\<lambda>x. f x = k) xs = Some ys \<Longrightarrow> distinct (map f xs) \<Longrightarrow> k \<notin> f ` set ys"
  by (induction xs arbitrary: ys) (auto split: if_splits)

lemma remove_first_others:
  "remove_first P xs = Some ys \<Longrightarrow> (\<And>x. P x \<Longrightarrow> \<not> Q x) \<Longrightarrow> find Q ys = find Q xs"
  by (induction xs arbitrary: ys) (auto split: if_splits)

text \<open>The operations of the device manager, with the two halves of a touch apart: the position may be one
  found earlier.  Tokens and device ids are drawn at random and assumed to be new.\<close>

inductive device_step :: "device_pairing \<Rightarrow> device_pairing \<Rightarrow> bool" where
  Generate: "device_step m (snd (device_generate_code n now name m))"
| Verify: "token \<notin> pd_token ` set (dp_devices m) \<Longrightarrow> did \<notin> pd_device_id ` set (dp_devices m) \<Longrightarrow>
     device_step m (snd (device_verify_code io did token now code m))"
| TouchAt: "device_step m (touch_at now i m)"
| Revoke: "device_step m (snd (revoke_device io did m))"
| Cleanup: "device_step m (cleanup_expired_codes now m)"
| Load: "device_step m (snd (device_load bad m))"

definition unique_devices :: "paired_device list \<Rightarrow> bool" where
  "unique_devices ds = (distinct (map pd_token ds) \<and> distinct (map pd_device_id ds))"

definition device_inv :: "device_pairing \<Rightarrow> bool" where
  "device_inv m =
     (token_positions (dp_token_index m) (dp_devices m) \<and> unique_devices (dp_devices m)
      \<and> (\<forall>ds. dp_disk m = Some ds \<longrightarrow> unique_devices ds))"

lemma device_inv_save: "device_inv m \<Longrightarrow> device_inv (snd (device_save io m))"
  by (auto simp: device_inv_def device_save_def split: option.split)

lemma map_update_same: "f y = f (xs ! i) \<Longrightarrow> map f (xs[i := y]) = map f xs"
  by (metis list_update_id map_update)

lemma device_inv_touch: "device_inv m \<Longrightarrow> device_inv (touch_at now i m)"
  by (auto simp: device_inv_def touch_at_def unique_devices_def map_update_same intro!: token_positions_update)

lemma device_inv_set:
  "device_inv m \<Longrightarrow> unique_devices ds \<Longrightarrow> device_inv (m\<lparr>dp_devices := ds, dp_token_index := index_tokens ds\<rparr>)"
  by (simp add: device_inv_def unique_devices_def token_positions_index)

lemma device_inv_revoke:
  assumes "device_inv m"
  shows "device_inv (snd (revoke_device io did m))"
proof (cases "remove_first (\<lambda>d. pd_device_id d = did) (dp_devices m)")
  case (Some ds)
  then have "unique_devices ds"
    using assms remove_first_distinct [OF Some, of pd_token] remove_first_distinct [OF Some, of pd_device_id]
    by (simp add: device_inv_def unique_devices_def)
  then show ?thesis
    using Some device_inv_save [OF device_inv_set [OF assms]] by (simp add: revoke_device_def)
qed (simp add: revoke_device_def assms)

lemma device_inv_verify:
  assumes "device_inv m" and "token \<notin> pd_token ` set (dp_devices m)" and "did \<notin> pd_device_id ` set (dp_devices m)"
  shows "device_inv (snd (device_verify_code io did token now code m))"
proof -
  have "device_inv (m\<lparr>dp_pending := p, dp_devices := dp_devices m @ [d],
      dp_token_index := hm_insert token (length (dp_devices m)) (dp_token_index m)\<rparr>)"
    if "pd_token d = token" "pd_device_id d = did" for p d
    using assms that token_positions_snoc [of "dp_token_index m" "dp_devices m" d]
    by (auto simp: device_inv_def unique_devices_def)
  moreover have "device_inv (m\<lparr>dp_pending := p\<rparr>)" for p
    using assms(1) by (simp add: device_inv_def)
  ultimately show ?thesis
    using assms(1) by (auto simp: device_verify_code_def Let_def intro!: device_inv_save split: option.split)
qed

interpretation device_sys: invariant_system
  "\<lambda>m. \<exists>path disk. m = device_pairing_new path disk \<and> (\<forall>ds. disk = Some ds \<longrightarrow> unique_devices ds)" device_step device_inv
proof
  fix m m' assume inv: "device_inv m" and step: "device_step m m'"
  from step show "device_inv m'"
  proof cases
    case (Load bad)
    then show ?thesis
      using inv device_inv_set [OF inv] by (auto simp: device_load_def device_inv_def split: option.split)
  qed (use inv in \<open>auto simp: device_inv_verify device_inv_touch device_inv_revoke
      device_generate_code_def cleanup_expired_codes_def device_inv_def [of "m\<lparr>dp_pending := _\<rparr>"] Let_def
      simp flip: device_inv_def\<close>)
qed (auto simp: device_inv_def device_pairing_new_def token_positions_def unique_devices_def)

lemma nth_opt_find:
  assumes "token_positions idx ds"
  shows "(case hm_get idx t of None \<Rightarrow> None | Some i \<Rightarrow> nth_opt i ds) = find (\<lambda>d. pd_token d = t) ds"
proof (cases "hm_get idx t")
  case None
  have "pd_token (ds ! i) \<noteq> t" if "i < length ds" for i
  proof
    assume "pd_token (ds ! i) = t"
    with that assms have "hm_get idx t = Some i" by (simp add: token_positions_def)
    with None show False by simp
  qed
  then have "\<forall>d \<in> set ds. pd_token d \<noteq> t" by (metis in_set_conv_nth)
  then have "find (\<lambda>d. pd_token d = t) ds = None" by (auto simp: find_None_iff)
  then show ?thesis using None by simp
next
  case (Some i)
  then have i: "i < length ds" "pd_token (ds ! i) = t"
    using assms by (simp_all add: token_positions_def)
  have "pd_token (ds ! j) \<noteq> t" if "j < i" for j
  proof
    assume "pd_token (ds ! j) = t"
    then have "hm_get idx t = Some j"
      using assms that i(1) by (simp add: token_positions_def)
    then show False using Some that by simp
  qed
  then have "find (\<lambda>d. pd_token d = t) ds = Some (ds ! i)"
    unfolding find_Some_iff using i by (intro exI [of _ i]) simp
  then show ?thesis using Some i by (simp add: nth_opt_def)
qed

lemma validate_token_find:
  "device_inv m \<Longrightarrow> validate_token t m = map_option pd_device_id (find (\<lambda>d. pd_token d = t) (dp_devices m))"
  using nth_opt_find [of "dp_token_index m" "dp_devices m" t]
  by (auto simp: device_inv_def validate_token_def split: option.splits)

lemma remove_first_find:
  assumes "remove_first (\<lambda>x. g x = k) xs = Some ys" and "distinct (map f xs)" and "distinct (map g xs)"
  shows "find (\<lambda>x. f x = t) ys = (case find (\<lambda>x. f x = t) xs of None \<Rightarrow> None | Some x \<Rightarrow> if g x = k then None else Some x)"
  using assms
proof (induction xs arbitrary: ys)
  case (Cons x xs)
  have "find (\<lambda>z. f z = t) xs = None" if "f x = t"
    using Cons.prems(2) that unfolding find_None_iff by auto (metis imageI)
  moreover have "g z \<noteq> g x" if "find (\<lambda>z. f z = t) xs = Some z" for z
    using Cons.prems(3) find_Some_mem [OF that] by (metis distinct.simps(2) image_eqI list.set_map list.simps(9))
  ultimately show ?case
    using Cons by (auto split: if_splits option.splits)
qed simp

lemma revoke_validate:
  assumes "device_inv m" and "fst (revoke_device io did m) = Inr ()"
  shows "validate_token t (snd (revoke_device io did m)) = (if validate_token t m = Some did then None else validate_token t m)"
proof (cases "remove_first (\<lambda>d. pd_device_id d = did) (dp_devices m)")
  case (Some ds)
  have uniq: "distinct (map pd_token (dp_devices m))" "distinct (map pd_device_id (dp_devices m))"
    using assms(1) by (simp_all add: device_inv_def unique_devices_def)
  from Some have "dp_devices (snd (revoke_device io did m)) = ds"
    by (auto simp: revoke_device_def device_save_def split: option.split)
  then show ?thesis
    using remove_first_find [OF Some, of pd_token t] uniq assms(1)
    by (auto simp: validate_token_find device_inv_revoke split: option.splits)
qed (use assms(2) in \<open>simp add: revoke_device_def\<close>)


section \<open>Pending requests\<close>

inductive setup_step :: "pairing_store \<Rightarrow> pairing_store \<Rightarrow> bool" where
  "setup_step m (snd (setup_create rid draws now0 now m))"
| "setup_step m (snd (setup_approve now rid m))"
| "setup_step m (snd (setup_reject rid m))"
| "setup_step m (setup_cleanup now m)"

definition setup_inv :: "pairing_store \<Rightarrow> bool" where
  "setup_inv m = (length (list_pending m) \<le> ps_max_pending m)"

lemma update_first_filter_le:
  "update_first P f xs = Some ys \<Longrightarrow> (\<And>x. \<not> Q (f x)) \<Longrightarrow> length (filter Q ys) \<le> length (filter Q xs)"
  by (induction xs arbitrary: ys) (auto split: if_splits intro: le_SucI)

lemma remove_first_filter_le:
  "remove_first P xs = Some ys \<Longrightarrow> length (filter Q ys) \<le> length (filter Q xs)"
  by (induction xs arbitrary: ys) (auto split: if_splits intro: le_SucI)

lemma setup_cleanup_pending: "length (list_pending (setup_cleanup now m)) \<le> length (list_pending m)"
proof -
  have "length (filter (\<lambda>r. \<not> sr_approved r) (filter (\<lambda>r. sr_approved r \<or> setup_live now m r) rs))
      \<le> length (filter (\<lambda>r. \<not> sr_approved r) rs)" for rs :: "setup_request list"
    by (induction rs) auto
  then show ?thesis
    unfolding list_pending_def setup_cleanup_def by simp
qed

interpretation setup_store: invariant_system "\<lambda>m. \<exists>mx ttl. m = pairing_store_new mx ttl" setup_step setup_inv
proof
  fix m m' assume inv: "setup_inv m" and step: "setup_step m m'"
  from step show "setup_inv m'"
  proof cases
    case (1 rid draws now0 now)
    have "ps_max_pending (setup_cleanup now0 m) = ps_max_pending m"
      by (simp add: setup_cleanup_def)
    then show ?thesis
      using 1 inv setup_cleanup_pending [of now0 m]
      by (auto simp: setup_create_def Let_def setup_inv_def list_pending_def)
  next
    case (2 now rid)
    then show ?thesis
      using inv by (auto simp: setup_approve_def setup_inv_def list_pending_def
          dest!: update_first_filter_le [where Q = "\<lambda>r. \<not> sr_approved r"] split: option.split)
  next
    case (3 rid)
    then show ?thesis
      using inv by (auto simp: setup_reject_def setup_inv_def list_pending_def
          dest!: remove_first_filter_le [where Q = "\<lambda>r. \<not> sr_approved r"] split: option.split)
  next
    case (4 now)
    then show ?thesis
      using inv setup_cleanup_pending [of now m] by (simp add: setup_inv_def setup_cleanup_def)
  qed
qed (auto simp: setup_inv_def pairing_store_new_def list_pending_def)


section \<open>Locks\<close>

datatype pairing_lock = RequestsLock | PairingsLock | CodesLock

definition create_request_locks :: "pairing_lock lock_op list" where
  "create_request_locks = [Acquire RequestsLock Wr, Acquire CodesLock Wr, Release CodesLock, Release RequestsLock]"

definition verify_code_locks :: "pairing_lock lock_op list" where
  "verify_code_locks = [Acquire CodesLock Rd, Acquire RequestsLock Rd, Release RequestsLock, Release CodesLock]"

definition approve_request_locks :: "pairing_lock lock_op list" where
  "approve_request_locks =
     [Acquire RequestsLock Wr, Acquire PairingsLock Wr, Release PairingsLock, Release RequestsLock]"

datatype device_lock = PendingLock | DevicesLock | TokenIndexLock

definition device_verify_locks :: "device_lock lock_op list" where
  "device_verify_locks =
     [Acquire PendingLock Wr, Release PendingLock, Acquire DevicesLock Wr, Acquire TokenIndexLock Wr,
      Release DevicesLock, Release TokenIndexLock, Acquire DevicesLock Rd, Release DevicesLock]"

definition revoke_device_locks :: "device_lock lock_op list" where
  "revoke_device_locks =
     [Acquire DevicesLock Wr, Acquire TokenIndexLock Wr, Release DevicesLock, Release TokenIndexLock,
      Acquire DevicesLock Rd, Release DevicesLock]"

definition validate_token_locks :: "device_lock lock_op list" where
  "validate_token_locks = [Acquire TokenIndexLock Rd, Acquire DevicesLock Rd, Release DevicesLock, Release TokenIndexLock]"


section \<open>Properties\<close>

text \<open>C30: device tokens are exact.  In every reachable state of the device manager a token is accepted for precisely the device
  that carries it, and after a device is revoked no token is accepted for it while the tokens of
  the other devices stay valid.\<close>

theorem device_tokens_exact:
  assumes "device_step\<^sup>*\<^sup>* (device_pairing_new path disk) m" and "\<forall>ds. disk = Some ds \<longrightarrow> unique_devices ds"
  shows "validate_token t m = map_option pd_device_id (find (\<lambda>d. pd_token d = t) (dp_devices m))
    \<and> (fst (revoke_device io did m) = Inr () \<longrightarrow>
        validate_token t (snd (revoke_device io did m)) = (if validate_token t m = Some did then None else validate_token t m))"
proof -
  have inv: "device_inv m"
    using device_sys.reachable_inv [OF _ assms(1)] assms(2) by blast
  then show ?thesis
    using revoke_validate [OF inv, of io did t] by (simp add: validate_token_find)
qed

definition sample_manager :: device_pairing where
  "sample_manager =
     snd (device_verify_code None ''d1'' ''dev_a'' 20 (random_code 42) (snd (device_generate_code 42 10 (Some ''phone'') (device_pairing_new False None))))"

theorem device_tokens_exact_witness:
  "validate_token ''dev_a'' sample_manager = Some ''d1''
    \<and> validate_token ''dev_a'' (snd (revoke_device None ''d1'' sample_manager)) = None"
proof -
  let ?m0 = "snd (device_generate_code 42 10 (Some ''phone'') (device_pairing_new False None))"
  have "device_step (device_pairing_new False None) ?m0"
    by (rule device_step.Generate)
  moreover have "dp_devices ?m0 = []"
    by (simp add: device_generate_code_def device_pairing_new_def Let_def)
  then have "device_step ?m0 sample_manager"
    unfolding sample_manager_def by (intro device_step.Verify) simp_all
  ultimately have reach: "device_step\<^sup>*\<^sup>* (device_pairing_new False None) sample_manager"
    by (meson converse_rtranclp_into_rtranclp rtranclp.rtrancl_refl)
  have dev: "map pd_token (dp_devices sample_manager) = [''dev_a'']" "map pd_device_id (dp_devices sample_manager) = [''d1'']"
    by (simp_all add: sample_manager_def device_verify_code_def device_generate_code_def device_pairing_new_def Let_def
        device_save_def i64_add_def CODE_EXPIRY_SECS_def)
  then obtain d where d: "dp_devices sample_manager = [d]" "pd_token d = ''dev_a''" "pd_device_id d = ''d1''"
    by auto
  then have "fst (revoke_device None ''d1'' sample_manager) = Inr ()"
    by (simp add: revoke_device_def)
  then show ?thesis
    using device_tokens_exact [OF reach, of "''dev_a''" None "''d1''"] d by simp
qed

text \<open>The request store never holds more pending setup requests than its limit, whatever sequence of
  creations, approvals, rejections and clean-ups.\<close>

theorem pending_requests_bounded:
  assumes "setup_step\<^sup>*\<^sup>* (pairing_store_new mx ttl) m"
  shows "length (list_pending m) \<le> ps_max_pending m"
  using setup_store.reachable_inv [OF _ assms] by (auto simp: setup_inv_def)

theorem pending_requests_bounded_witness:
  "length (list_pending (snd (setup_create ''r1'' [0, 1, 2, 3, 4, 5, 6, 7] 0 0 (pairing_store_new 1 100)))) \<le>
   ps_max_pending (snd (setup_create ''r1'' [0, 1, 2, 3, 4, 5, 6, 7] 0 0 (pairing_store_new 1 100)))"
  by (rule pending_requests_bounded, rule r_into_rtranclp, rule setup_step.intros(1))

lemma charset_single: "c \<in> set CHARSET \<Longrightarrow> \<not> continuation c \<and> byte c < 256"
  by (auto simp: CHARSET_def continuation_def)



text \<open>The validator also accepts characters outside the alphabet whose code point ends in the same byte: four times
  U+0141.\<close>

theorem validate_accepts_wide_chars:
  "validate_setup_code (concat (replicate 4 [CHR 0xC5, CHR 0x81])) \<and> CHR 0xC5 \<notin> set CHARSET"
  by code_simp

text \<open>A pairing request is used at most once.  Approving succeeds exactly for a pending request that has not
  expired, and afterwards the request can be neither approved again nor rejected nor found by its code.\<close>

theorem request_approved_once:
  "(isl (fst (approve_request pid now rid u m)) \<longleftrightarrow>
     \<not> (\<exists>r. hm_get (pm_requests m) rid = Some r \<and> pr_status r = PairPending \<and> now \<le> pr_expires_at r))
   \<and> (isl (fst (approve_request pid now rid u m)) \<or>
      (let m' = snd (approve_request pid now rid u m) in
       fst (approve_request pid2 now2 rid u2 m') = Inl InvalidStatus \<and> fst (reject_request rid m') = Inl InvalidStatus
       \<and> (hm_get (pm_code_store m') code = Some rid \<longrightarrow> isl (verify_code now2 code m'))))"
  by (auto simp: approve_request_def reject_request_def verify_code_def Let_def split: option.split)

text \<open>Checking a pairing code and creating a request can deadlock: they take the two locks in opposite orders.\<close>

theorem verify_code_deadlock:
  "\<exists>ts. lock_step\<^sup>*\<^sup>* (map task [create_request_locks, verify_code_locks]) ts \<and> deadlocked ts"
  unfolding create_request_locks_def verify_code_locks_def by (rule opposite_orders_deadlock) simp_all

text \<open>Revoking a device and validating a token can deadlock in the same way.\<close>

theorem validate_token_deadlock:
  "\<exists>ts. lock_step\<^sup>*\<^sup>* (map task [revoke_device_locks, validate_token_locks]) ts \<and> deadlocked ts"
  unfolding revoke_device_locks_def validate_token_locks_def by (rule opposite_orders_deadlock) simp_all

end
