(* ===== verification/OAuth_Profiles.thy ===== *)
theory OAuth_Profiles
  imports Prelude
begin

text \<open>
  \<^verbatim>\<open>security-core\<close>: the OAuth client with its state store (\<^verbatim>\<open>oauth.rs\<close>) and the rotation of auth profiles
  (\<^verbatim>\<open>auth_profiles.rs\<close>).  The HTTP calls, the percent-encoding crate, random states and clock readings are parameters;
  instants are milliseconds on the monotonic clock.
\<close>

section \<open>OAuth providers and URLs\<close>

datatype oauth_provider = Google | Discord | GitHub | Slack | Custom

fun oauth_as_str :: "oauth_provider \<Rightarrow> string" where
  "oauth_as_str Google = ''google''"
| "oauth_as_str Discord = ''discord''"
| "oauth_as_str GitHub = ''github''"
| "oauth_as_str Slack = ''slack''"
| "oauth_as_str Custom = ''custom''"

definition oauth_parse :: "string \<Rightarrow> oauth_provider option" where
  "oauth_parse s =
     (let l = to_lowercase s in
      if l = ''google'' then Some Google
      else if l = ''discord'' then Some Discord
      else if l = ''github'' then Some GitHub
      else if l = ''slack'' then Some Slack
      else if l = ''custom'' then Some Custom
      else None)"

record oauth_config =
  oc_provider :: oauth_provider
  oc_client_id :: string
  oc_client_secret :: string
  oc_redirect_uri :: string
  oc_scopes :: "string list"
  oc_auth_url :: string
  oc_token_url :: string
  oc_user_info_url :: string

definition oauth_google :: "string \<Rightarrow> string \<Rightarrow> string \<Rightarrow> oauth_config" where
  "oauth_google cid secret redirect =
     \<lparr>oc_provider = Google, oc_client_id = cid, oc_client_secret = secret, oc_redirect_uri = redirect,
      oc_scopes = [''openid'', ''email'', ''profile''],
      oc_auth_url = ''https://accounts.google.com/o/oauth2/v2/auth'',
      oc_token_url = ''https://oauth2.googleapis.com/token'',
      oc_user_info_url = ''https://www.googleapis.com/oauth2/v2/userinfo''\<rparr>"

definition oauth_discord :: "string \<Rightarrow> string \<Rightarrow> string \<Rightarrow> oauth_config" where
  "oauth_discord cid secret redirect =
     \<lparr>oc_provider = Discord, oc_client_id = cid, oc_client_secret = secret, oc_redirect_uri = redirect,
      oc_scopes = [''identify'', ''email''],
      oc_auth_url = ''https://discord.com/api/oauth2/authorize'',
      oc_token_url = ''https://discord.com/api/oauth2/token'',
      oc_user_info_url = ''https://discord.com/api/users/@me''\<rparr>"

definition oauth_github :: "string \<Rightarrow> string \<Rightarrow> string \<Rightarrow> oauth_config" where
  "oauth_github cid secret redirect =
     \<lparr>oc_provider = GitHub, oc_client_id = cid, oc_client_secret = secret, oc_redirect_uri = redirect,
      oc_scopes = [''user:email'', ''read:user''],
      oc_auth_url = ''https://github.com/login/oauth/authorize'',
      oc_token_url = ''https://github.com/login/oauth/access_token'',
      oc_user_info_url = ''https://api.github.com/user''\<rparr>"

definition get_auth_url :: "(string \<Rightarrow> string) \<Rightarrow> oauth_config \<Rightarrow> string \<Rightarrow> string" where
  "get_auth_url enc cfg st =
     oc_auth_url cfg @ ''?client_id='' @ enc (oc_client_id cfg) @ ''&redirect_uri='' @ enc (oc_redirect_uri cfg)
     @ ''&response_type=code&scope='' @ join_with '' '' (oc_scopes cfg) @ ''&state='' @ enc st"


section \<open>Tokens and users\<close>

record oauth_token =
  ot_access_token :: string
  ot_refresh_token :: "string option"
  ot_token_type :: string
  ot_expires_in :: nat
  ot_scope :: "string option"
  ot_created_at :: int

definition oauth_is_expired :: "int \<Rightarrow> oauth_token \<Rightarrow> bool" where
  "oauth_is_expired now t = (now \<ge> i64_add (ot_created_at t) (as_i64 (ot_expires_in t)))"

definition refresh_needed :: "int \<Rightarrow> oauth_token \<Rightarrow> bool" where
  "refresh_needed now t = (now \<ge> i64_add (ot_created_at t) (i64_add (as_i64 (ot_expires_in t)) (- 300)))"

datatype oauth_error = Network string | Parse string | TokenError string | UnsupportedProvider

fun show_oauth_error :: "oauth_error \<Rightarrow> string" where
  "show_oauth_error (Network msg) = ''Network error: '' @ msg"
| "show_oauth_error (Parse msg) = ''Parse error: '' @ msg"
| "show_oauth_error (TokenError msg) = ''Token error: '' @ msg"
| "show_oauth_error UnsupportedProvider = ''Unsupported OAuth provider''"

record token_response =
  tr_access_token :: string
  tr_refresh_token :: "string option"
  tr_token_type :: string
  tr_expires_in :: "nat option"
  tr_scope :: "string option"

definition token_of_response :: "int \<Rightarrow> string option \<Rightarrow> token_response \<Rightarrow> oauth_token" where
  "token_of_response now old r =
     \<lparr>ot_access_token = tr_access_token r,
      ot_refresh_token = (case tr_refresh_token r of Some t \<Rightarrow> Some t | None \<Rightarrow> old),
      ot_token_type = tr_token_type r,
      ot_expires_in = (case tr_expires_in r of Some n \<Rightarrow> n | None \<Rightarrow> 3600),
      ot_scope = tr_scope r, ot_created_at = now\<rparr>"

text \<open>\<open>post\<close> sends a form to the token URL: \<open>Inl\<close> is a network or a parse error.\<close>

definition exchange_code ::
  "(string \<Rightarrow> (string \<times> string) list \<Rightarrow> oauth_error + token_response) \<Rightarrow> int \<Rightarrow> oauth_config \<Rightarrow> string \<Rightarrow> oauth_error + oauth_token" where
  "exchange_code post now cfg code =
     map_sum id (token_of_response now None)
       (post (oc_token_url cfg)
          [(''client_id'', oc_client_id cfg), (''client_secret'', oc_client_secret cfg), (''code'', code),
           (''grant_type'', ''authorization_code''), (''redirect_uri'', oc_redirect_uri cfg)])"

definition refresh_token ::
  "(string \<Rightarrow> (string \<times> string) list \<Rightarrow> oauth_error + token_response) \<Rightarrow> int \<Rightarrow> oauth_config \<Rightarrow> string \<Rightarrow> oauth_error + oauth_token" where
  "refresh_token post now cfg rt =
     map_sum id (token_of_response now (Some rt))
       (post (oc_token_url cfg)
          [(''client_id'', oc_client_id cfg), (''client_secret'', oc_client_secret cfg), (''refresh_token'', rt),
           (''grant_type'', ''refresh_token'')])"

record oauth_user =
  ou_id :: string
  ou_username :: string
  ou_display_name :: string
  ou_email :: "string option"
  ou_avatar_url :: "string option"

text \<open>The bodies of the three user endpoints: id, name (and display name), e-mail and picture.\<close>

record google_user =
  gu_id :: string
  gu_name :: string
  gu_email :: "string option"
  gu_picture :: "string option"

record discord_user =
  du_id :: string
  du_username :: string
  du_global_name :: "string option"
  du_email :: "string option"
  du_avatar :: "string option"

record github_user =
  hu_id :: nat
  hu_login :: string
  hu_name :: "string option"
  hu_email :: "string option"
  hu_avatar_url :: "string option"

definition google_to_user :: "google_user \<Rightarrow> oauth_user" where
  "google_to_user u = \<lparr>ou_id = gu_id u, ou_username = gu_name u, ou_display_name = gu_name u, ou_email = gu_email u,
     ou_avatar_url = gu_picture u\<rparr>"

definition discord_to_user :: "discord_user \<Rightarrow> oauth_user" where
  "discord_to_user u =
     \<lparr>ou_id = du_id u, ou_username = du_username u,
      ou_display_name = (case du_global_name u of Some n \<Rightarrow> n | None \<Rightarrow> du_username u), ou_email = du_email u,
      ou_avatar_url = map_option (\<lambda>av. ''https://cdn.discordapp.com/avatars/'' @ du_id u @ ''/'' @ av @ ''.png'') (du_avatar u)\<rparr>"

definition github_to_user :: "github_user \<Rightarrow> oauth_user" where
  "github_to_user u =
     \<lparr>ou_id = show_nat (hu_id u), ou_username = hu_login u,
      ou_display_name = (case hu_name u of Some n \<Rightarrow> n | None \<Rightarrow> hu_login u), ou_email = hu_email u,
      ou_avatar_url = hu_avatar_url u\<rparr>"

text \<open>The request is sent with the bearer token; the body is then decoded for the provider.  Each argument is the
  outcome of the request and the decoding.\<close>

definition get_user_info ::
  "(string \<Rightarrow> string \<Rightarrow> oauth_error + 'body) \<Rightarrow> ('body \<Rightarrow> oauth_error + google_user) \<Rightarrow> ('body \<Rightarrow> oauth_error + discord_user)
   \<Rightarrow> ('body \<Rightarrow> oauth_error + github_user) \<Rightarrow> oauth_config \<Rightarrow> oauth_token \<Rightarrow> oauth_error + oauth_user" where
  "get_user_info get dec_google dec_discord dec_github cfg token =
     (case get (oc_user_info_url cfg) (''Bearer '' @ ot_access_token token) of
        Inl e \<Rightarrow> Inl e
      | Inr body \<Rightarrow>
          (case oc_provider cfg of
             Google \<Rightarrow> map_sum id google_to_user (dec_google body)
           | Discord \<Rightarrow> map_sum id discord_to_user (dec_discord body)
           | GitHub \<Rightarrow> map_sum id github_to_user (dec_github body)
           | _ \<Rightarrow> Inl UnsupportedProvider))"


section \<open>State store\<close>

record oauth_state_store =
  os_states :: "(string, nat) hash_map"
  os_ttl :: nat
  os_max_entries :: nat

definition state_store_new :: "nat \<Rightarrow> oauth_state_store" where
  "state_store_new ttl = \<lparr>os_states = [], os_ttl = ttl, os_max_entries = 10000\<rparr>"

definition state_cleanup :: "nat \<Rightarrow> oauth_state_store \<Rightarrow> oauth_state_store" where
  "state_cleanup now s = s\<lparr>os_states := hm_retain (\<lambda>_ created. now - created < os_ttl s) (os_states s)\<rparr>"

definition generate_state :: "string \<Rightarrow> nat \<Rightarrow> oauth_state_store \<Rightarrow> string \<times> oauth_state_store" where
  "generate_state st now s =
     (let s1 = (if length (os_states s) \<ge> os_max_entries s then state_cleanup now s else s)
      in (st, s1\<lparr>os_states := hm_insert st now (os_states s1)\<rparr>))"

definition validate_state :: "nat \<Rightarrow> string \<Rightarrow> oauth_state_store \<Rightarrow> bool \<times> oauth_state_store" where
  "validate_state now st s =
     (case hm_get (os_states s) st of
        Some created \<Rightarrow> (now - created < os_ttl s, s\<lparr>os_states := hm_remove st (os_states s)\<rparr>)
      | None \<Rightarrow> (False, s))"


section \<open>Auth profiles\<close>

datatype profile_type =
    ApiKeyProfile
  | TokenProfile "int option"
  | OAuthProfile string "string option" "int option"

record auth_profile =
  apf_id :: string
  apf_provider :: string
  apf_type :: profile_type
  apf_credentials :: string
  apf_cooldown_until :: "int option"
  apf_disabled_until :: "int option"
  apf_error_count :: nat
  apf_last_used :: "int option"
  apf_last_good :: "int option"

definition profile_available :: "int \<Rightarrow> auth_profile \<Rightarrow> bool" where
  "profile_available now p =
     (if (case apf_cooldown_until p of Some cd \<Rightarrow> now < cd | None \<Rightarrow> False) then False
      else if (case apf_disabled_until p of Some d \<Rightarrow> now < d | None \<Rightarrow> False) then False
      else True)"

record auth_profile_store =
  aps_profiles :: "(string, auth_profile) hash_map"
  aps_order :: "(string, string list) hash_map"
  aps_disk :: "((string, auth_profile) hash_map \<times> (string, string list) hash_map) option"

definition profile_store_new :: auth_profile_store where
  "profile_store_new = \<lparr>aps_profiles = [], aps_order = [], aps_disk = None\<rparr>"

text \<open>\<open>io\<close> says whether the write succeeds; the operations below ignore a failure.\<close>

definition profile_save :: "bool \<Rightarrow> auth_profile_store \<Rightarrow> auth_profile_store" where
  "profile_save io s = (if io then s\<lparr>aps_disk := Some (aps_profiles s, aps_order s)\<rparr> else s)"

definition profile_load :: "string option \<Rightarrow> auth_profile_store \<Rightarrow> string + auth_profile_store" where
  "profile_load bad s =
     (case aps_disk s of
        None \<Rightarrow> Inr profile_store_new
      | Some (ps, ord) \<Rightarrow>
          (case bad of Some e \<Rightarrow> Inl e | None \<Rightarrow> Inr \<lparr>aps_profiles = ps, aps_order = ord, aps_disk = Some (ps, ord)\<rparr>))"

definition profile_order :: "string \<Rightarrow> auth_profile_store \<Rightarrow> string list" where
  "profile_order provider s = (case hm_get (aps_order s) provider of Some ids \<Rightarrow> ids | None \<Rightarrow> [])"

definition ordered_profile :: "int \<Rightarrow> string list \<Rightarrow> auth_profile_store \<Rightarrow> auth_profile option" where
  "ordered_profile now ids s =
     find (profile_available now) (List.map_filter (hm_get (aps_profiles s)) ids)"

definition resolve_profile :: "int \<Rightarrow> string \<Rightarrow> auth_profile_store \<Rightarrow> auth_profile option" where
  "resolve_profile now provider s =
     (case ordered_profile now (profile_order provider s) s of
        Some p \<Rightarrow> Some p
      | None \<Rightarrow>
          max_by_key (\<lambda>p. case apf_last_good p of Some t \<Rightarrow> t | None \<Rightarrow> 0)
            (filter (\<lambda>p. apf_provider p = provider \<and> profile_available now p) (map snd (aps_profiles s))))"

definition error_cooldown :: "nat \<Rightarrow> int" where
  "error_cooldown errors = min (30 * 2 ^ min (errors - 1) 6) 3600"

definition report_error :: "bool \<Rightarrow> int \<Rightarrow> string \<Rightarrow> auth_profile_store \<Rightarrow> auth_profile_store" where
  "report_error io now pid s =
     (case hm_get (aps_profiles s) pid of
        None \<Rightarrow> s
      | Some _ \<Rightarrow>
          profile_save io (s\<lparr>aps_profiles := hm_modify pid (\<lambda>p. p\<lparr>apf_error_count := apf_error_count p + 1,
              apf_cooldown_until := Some (now + error_cooldown (apf_error_count p + 1))\<rparr>) (aps_profiles s)\<rparr>))"

definition report_success :: "bool \<Rightarrow> int \<Rightarrow> string \<Rightarrow> auth_profile_store \<Rightarrow> auth_profile_store" where
  "report_success io now pid s =
     (case hm_get (aps_profiles s) pid of
        None \<Rightarrow> s
      | Some _ \<Rightarrow>
          profile_save io (s\<lparr>aps_profiles := hm_modify pid (\<lambda>p. p\<lparr>apf_error_count := 0, apf_cooldown_until := None,
              apf_disabled_until := None, apf_last_used := Some now, apf_last_good := Some now\<rparr>) (aps_profiles s)\<rparr>))"

definition add_profile :: "bool \<Rightarrow> auth_profile \<Rightarrow> auth_profile_store \<Rightarrow> auth_profile_store" where
  "add_profile io p s = profile_save io (s\<lparr>aps_profiles := hm_insert (apf_id p) p (aps_profiles s)\<rparr>)"

definition remove_profile :: "bool \<Rightarrow> string \<Rightarrow> auth_profile_store \<Rightarrow> auth_profile_store" where
  "remove_profile io pid s = profile_save io (s\<lparr>aps_profiles := hm_remove pid (aps_profiles s)\<rparr>)"

definition list_profiles :: "auth_profile_store \<Rightarrow> auth_profile list" where
  "list_profiles s = map snd (aps_profiles s)"


section \<open>Properties\<close>

text \<open>The names of the providers are read back.\<close>

lemma oauth_parse_as_str: "oauth_parse (oauth_as_str p) = Some p"
  by (cases p) (simp_all add: oauth_parse_def to_lowercase_def lower_char_def)

text \<open>An OAuth state is accepted once and in time.  A generated state is accepted exactly within its lifetime, whatever
  else is generated in between, and a second use of it is refused.\<close>

theorem oauth_state_single_use:
  assumes "hm_wf (os_states s)" and "st2 \<noteq> st"
  shows "let s1 = snd (generate_state st t s); s2 = snd (generate_state st2 t2 s1); (ok, s3) = validate_state now st s2 in
    (t \<le> t2 \<and> t2 \<le> now \<longrightarrow> ok = (now - t < os_ttl s)) \<and> (\<forall>later. fst (validate_state later st s3) = False)"
proof -
  have "hm_wf (os_states (snd (generate_state st t s)))" "hm_get (os_states (snd (generate_state st t s))) st = Some t"
    "os_ttl (snd (generate_state st t s)) = os_ttl s"
    using assms(1) by (auto simp: generate_state_def state_cleanup_def Let_def)
  then show ?thesis
    using assms(2) hm_get_retain [of "os_states (snd (generate_state st t s))"]
    by (auto simp: generate_state_def [of st2] state_cleanup_def validate_state_def Let_def hm_get_retain split: option.splits)
qed

theorem oauth_state_single_use_witness:
  "let s1 = snd (generate_state ''a'' 5 (state_store_new 100)); s2 = snd (generate_state ''b'' 6 s1); (ok, s3) = validate_state 50 ''a'' s2 in
    ok \<and> fst (validate_state 51 ''a'' s3) = False"
  using oauth_state_single_use [of "state_store_new 100" "''b''" "''a''" 5 6 50]
  by (simp add: state_store_new_def split_beta Let_def)

text \<open>The authorisation URL carries the scopes with raw spaces: they are joined without encoding.\<close>

theorem auth_url_has_space: "CHR '' '' \<in> set (get_auth_url enc (oauth_google cid secret redirect) st)"
  by (simp add: get_auth_url_def oauth_google_def)

text \<open>The cooldown never reaches the documented hour: the exponent is cut off first.\<close>

lemma error_cooldown_max: "error_cooldown n \<le> 1920"
proof -
  have "(2::int) ^ min (n - 1) 6 \<le> 2 ^ 6"
    by (intro power_increasing) simp_all
  then show ?thesis by (simp add: error_cooldown_def)
qed

lemma error_cooldown_pos: "30 \<le> error_cooldown n"
proof -
  have "(1::int) \<le> 2 ^ min (n - 1) 6"
    by (rule one_le_power) simp
  then show ?thesis by (simp add: error_cooldown_def)
qed

lemma map_filter_set: "x \<in> set (List.map_filter f xs) \<longleftrightarrow> (\<exists>y \<in> set xs. f y = Some x)"
  by (induction xs) (auto simp: List.map_filter_simps split: option.splits)

lemma ordered_profile_None:
  "ordered_profile now ids s = None \<longleftrightarrow>
     (\<forall>i \<in> set ids. \<forall>p. hm_get (aps_profiles s) i = Some p \<longrightarrow> \<not> profile_available now p)"
  by (auto simp: ordered_profile_def find_None_iff map_filter_set)

text \<open>Resolving a profile finds an available one whenever there is one: the first available one of the configured
  order, otherwise the available profile of the provider that worked last; a profile in cooldown
  or disabled is never answered.\<close>

theorem resolve_profile_correct:
  "(case resolve_profile now provider s of
      Some p \<Rightarrow> profile_available now p
        \<and> (ordered_profile now (profile_order provider s) s = Some p
           \<or> apf_provider p = provider \<and> p \<in> set (list_profiles s)
             \<and> (\<forall>q \<in> set (list_profiles s). apf_provider q = provider \<and> profile_available now q \<longrightarrow>
                  (case apf_last_good q of Some t \<Rightarrow> t | None \<Rightarrow> 0) \<le> (case apf_last_good p of Some t \<Rightarrow> t | None \<Rightarrow> 0)))
    | None \<Rightarrow> (\<forall>i \<in> set (profile_order provider s). \<forall>p. hm_get (aps_profiles s) i = Some p \<longrightarrow> \<not> profile_available now p)
        \<and> (\<forall>p \<in> set (list_profiles s). apf_provider p = provider \<longrightarrow> \<not> profile_available now p))"
proof (cases "ordered_profile now (profile_order provider s) s")
  case (Some p)
  then have "profile_available now p"
    using find_Some_mem by (fastforce simp: ordered_profile_def)
  then show ?thesis
    using Some by (simp add: resolve_profile_def)
next
  case None
  let ?ps = "filter (\<lambda>p. apf_provider p = provider \<and> profile_available now p) (list_profiles s)"
  let ?k = "\<lambda>p. case apf_last_good p of Some t \<Rightarrow> t | None \<Rightarrow> (0 :: int)"
  have res: "resolve_profile now provider s = max_by_key ?k ?ps"
    using None by (simp add: resolve_profile_def list_profiles_def)
  show ?thesis
  proof (cases "max_by_key ?k ?ps")
    case (Some p)
    from max_by_key_Some [OF this] Some res show ?thesis by auto
  qed (use res None ordered_profile_None in \<open>auto simp: filter_empty_conv\<close>)
qed

definition sample_profile :: auth_profile where
  "sample_profile = \<lparr>apf_id = ''p1'', apf_provider = ''openai'', apf_type = ApiKeyProfile, apf_credentials = ''k'',
     apf_cooldown_until = None, apf_disabled_until = None, apf_error_count = 0, apf_last_used = None, apf_last_good = None\<rparr>"

theorem resolve_profile_correct_witness:
  "case resolve_profile 10 ''openai'' (add_profile True sample_profile profile_store_new) of
     Some p \<Rightarrow> profile_available 10 p
   | None \<Rightarrow> \<forall>p \<in> set (list_profiles (add_profile True sample_profile profile_store_new)).
       apf_provider p = ''openai'' \<longrightarrow> \<not> profile_available 10 p"
  using resolve_profile_correct [where now = 10 and provider = "''openai''" and s = "add_profile True sample_profile profile_store_new"]
  by (auto split: option.splits)

text \<open>A profile that just failed is not used for at least thirty seconds and at most thirty-two minutes; a success makes
  it available at once.\<close>

theorem failed_profile_cools_down:
  assumes "hm_get (aps_profiles s) pid = Some p"
  shows "(\<exists>q. hm_get (aps_profiles (report_error io now pid s)) pid = Some q
      \<and> (now \<le> t \<and> t < now + 30 \<longrightarrow> \<not> profile_available t q)
      \<and> (now + 1920 \<le> t \<and> apf_disabled_until p = None \<longrightarrow> profile_available t q))
    \<and> (\<exists>q. hm_get (aps_profiles (report_success io now pid s)) pid = Some q \<and> profile_available t q)"
  using assms error_cooldown_pos [of "Suc (apf_error_count p)"] error_cooldown_max [of "Suc (apf_error_count p)"]
  by (auto simp: report_error_def report_success_def profile_save_def profile_available_def)

theorem failed_profile_cools_down_witness:
  "\<exists>q. hm_get (aps_profiles (report_error True 100 ''p1'' (add_profile True sample_profile profile_store_new))) ''p1'' = Some q
     \<and> \<not> profile_available 110 q"
  using failed_profile_cools_down [of "add_profile True sample_profile profile_store_new" "''p1''" sample_profile True 100 110]
  by (simp add: add_profile_def profile_save_def sample_profile_def)

end
