(* ===== verification/Tool_Mutation.thy ===== *)
theory Tool_Mutation
  imports Prelude
begin

text \<open>
  \<^verbatim>\<open>agent-core/src/tool_mutation.rs\<close> (which tool calls change state, and their fingerprints),
  \<^verbatim>\<open>agent-core/src/error_classify.rs\<close> (which errors are retried) and
  \<^verbatim>\<open>agent-core/src/usage.rs\<close> (token accounting).
\<close>

section \<open>JSON values\<close>

text \<open>\<^verbatim>\<open>serde_json::Value\<close>; a number is carried as the text \<^verbatim>\<open>to_string\<close> prints, an object as its
  entries with distinct keys.\<close>

datatype json =
    JNull
  | JBool bool
  | JNumber string
  | JString string
  | JArray "json list"
  | JObject "(string \<times> json) list"

fun json_get :: "json \<Rightarrow> string \<Rightarrow> json option" where
  "json_get (JObject kvs) k = map_of kvs k"
| "json_get _ k = None"

fun json_as_str :: "json \<Rightarrow> string option" where
  "json_as_str (JString s) = Some s"
| "json_as_str _ = None"


section \<open>Mutating tool calls\<close>

definition MUTATING_TOOLS :: "string list" where
  "MUTATING_TOOLS = [''write'', ''edit'', ''apply_patch'', ''exec'', ''bash'', ''process'', ''message'',
     ''sessions_send'', ''cron'', ''gateway'', ''canvas'', ''nodes'', ''session_status'']"

definition PROCESS_MUTATING_ACTIONS :: "string list" where
  "PROCESS_MUTATING_ACTIONS = [''write'', ''send_keys'', ''submit'', ''paste'', ''kill'']"

definition MESSAGE_MUTATING_ACTIONS :: "string list" where
  "MESSAGE_MUTATING_ACTIONS = [''send'', ''reply'', ''thread_reply'', ''edit'', ''delete'', ''react'', ''pin'', ''unpin'']"

definition READ_ONLY_ACTIONS :: "string list" where
  "READ_ONLY_ACTIONS = [''list'', ''get'', ''read'', ''status'', ''search'', ''query'']"

definition TARGET_KEYS :: "string list" where
  "TARGET_KEYS = [''path'', ''filePath'', ''oldPath'', ''newPath'', ''to'', ''target'', ''messageId'',
     ''sessionKey'', ''jobId'', ''id'', ''model'']"

definition action_of :: "json \<Rightarrow> string option" where
  "action_of args = Option.bind (json_get args ''action'') json_as_str"

definition is_mutating_tool_call :: "string \<Rightarrow> json \<Rightarrow> bool" where
  "is_mutating_tool_call name args =
     (let lower = to_lowercase name;
          action = (case action_of args of Some a \<Rightarrow> a | None \<Rightarrow> [])
      in if lower \<notin> set MUTATING_TOOLS \<and> \<not> ends_with lower ''_actions'' \<and> \<not> contains lower ''send''
         then False
         else if lower = ''process'' then action \<in> set PROCESS_MUTATING_ACTIONS
         else if lower = ''message'' then
           action \<in> set MESSAGE_MUTATING_ACTIONS \<or> json_get args ''content'' \<noteq> None
           \<or> json_get args ''message'' \<noteq> None
         else if lower = ''session_status'' then json_get args ''model'' \<noteq> None
         else if lower \<in> {''cron'', ''gateway'', ''canvas'', ''nodes''} then action \<notin> set READ_ONLY_ACTIONS
         else True)"

fun normalize_value :: "json \<Rightarrow> string option" where
  "normalize_value (JString s) = Some (to_lowercase (trim s))"
| "normalize_value (JNumber n) = Some n"
| "normalize_value (JBool b) = Some (if b then ''true'' else ''false'')"
| "normalize_value _ = None"

definition target_parts :: "json \<Rightarrow> string list" where
  "target_parts args =
     List.map_filter (\<lambda>key. map_option (\<lambda>v. key @ ''='' @ v)
       (Option.bind (json_get args key) normalize_value)) TARGET_KEYS"

definition meta_parts :: "string option \<Rightarrow> string list" where
  "meta_parts meta =
     (case meta of
        None \<Rightarrow> []
      | Some m \<Rightarrow> let n = to_lowercase (trim m) in if n = [] then [] else [''meta='' @ n])"

definition build_tool_action_fingerprint :: "string \<Rightarrow> json \<Rightarrow> string option \<Rightarrow> string option" where
  "build_tool_action_fingerprint name args meta =
     (if \<not> is_mutating_tool_call name args then None
      else
        let targets = target_parts args
        in Some (join_with ''|''
             ([''tool='' @ to_lowercase name]
              @ (case action_of args of Some a \<Rightarrow> [''action='' @ trim (to_lowercase a)] | None \<Rightarrow> [])
              @ targets
              @ (if targets = [] then meta_parts meta else []))))"

record tool_action_ref =
  ta_tool_name :: string
  ta_meta :: "string option"
  ta_fingerprint :: "string option"

definition is_same_mutation_action :: "tool_action_ref \<Rightarrow> tool_action_ref \<Rightarrow> bool" where
  "is_same_mutation_action a b =
     (case (ta_fingerprint a, ta_fingerprint b) of
        (Some fa, Some fb) \<Rightarrow> fa = fb
      | (None, None) \<Rightarrow>
          ta_tool_name a = ta_tool_name b
          \<and> (case ta_meta a of Some m \<Rightarrow> m | None \<Rightarrow> []) = (case ta_meta b of Some m \<Rightarrow> m | None \<Rightarrow> [])
      | _ \<Rightarrow> False)"

type_synonym mutation_tracker = "string set"

definition mt_record :: "string \<Rightarrow> json \<Rightarrow> mutation_tracker \<Rightarrow> string option \<times> mutation_tracker" where
  "mt_record name args seen =
     (case build_tool_action_fingerprint name args None of
        None \<Rightarrow> (None, seen)
      | Some fp \<Rightarrow> (Some fp, insert fp seen))"

definition mt_has_seen :: "mutation_tracker \<Rightarrow> string \<Rightarrow> bool" where
  "mt_has_seen seen fp = (fp \<in> seen)"


section \<open>Error classes\<close>

datatype error_class =
  RateLimit | AuthFailure | ContextOverflowClass | NetworkError | ProviderError | ToolError | Unknown

definition contains_any :: "string \<Rightarrow> string list \<Rightarrow> bool" where
  "contains_any s ps = list_ex (contains s) ps"

definition classify_error :: "string \<Rightarrow> error_class" where
  "classify_error err =
     (let lower = to_lowercase err in
      if contains_any lower [''rate limit'', ''rate_limit'', ''429'', ''too many requests'',
           ''quota exceeded'', ''throttlingexception'', ''throttling''] then RateLimit
      else if contains_any lower [''401'', ''403'', ''unauthorized'', ''forbidden'', ''invalid api key'',
           ''invalid_api_key'', ''authentication''] then AuthFailure
      else if contains_any lower [''context length exceeded'', ''maximum context'', ''too many tokens'',
           ''content_too_large'', ''request too large'', ''context_length''] then ContextOverflowClass
      else if contains_any lower [''timeout'', ''timed out'', ''connection reset'', ''connection refused'',
           ''dns'', ''network'', ''eof''] then NetworkError
      else if contains_any lower [''500'', ''502'', ''503'', ''504'', ''internal server error'',
           ''service unavailable'', ''bad gateway'', ''overloaded''] then ProviderError
      else if contains_any lower [''tool error'', ''tool execution'', ''tool '' @ [CHR 0x27]] then ToolError
      else Unknown)"

definition should_retry :: "error_class \<Rightarrow> bool" where
  "should_retry c = (c \<in> {RateLimit, NetworkError, ProviderError, Unknown})"

definition should_fallback :: "error_class \<Rightarrow> bool" where
  "should_fallback c = (c \<in> {ProviderError, AuthFailure})"

definition is_fatal :: "error_class \<Rightarrow> bool" where
  "is_fatal c = (c = ToolError)"


section \<open>Usage\<close>

text \<open>The cost, an \<^verbatim>\<open>f64\<close>, is a rational number: rounding of its sums is not modelled.\<close>

record usage_summary =
  input_tokens :: int
  output_tokens :: int
  cache_read_tokens :: int
  cache_write_tokens :: int
  total_calls :: nat
  total_cost_usd :: rat

definition default_usage :: usage_summary where
  "default_usage = \<lparr>input_tokens = 0, output_tokens = 0, cache_read_tokens = 0, cache_write_tokens = 0,
     total_calls = 0, total_cost_usd = 0\<rparr>"

definition usage_record :: "int \<Rightarrow> int \<Rightarrow> usage_summary \<Rightarrow> usage_summary" where
  "usage_record prompt completion u =
     u\<lparr>input_tokens := i64_sat_add (input_tokens u) prompt,
       output_tokens := i64_sat_add (output_tokens u) completion,
       total_calls := sat_add u32_max (total_calls u) 1\<rparr>"

definition usage_record_with_cache :: "int \<Rightarrow> int \<Rightarrow> int \<Rightarrow> int \<Rightarrow> usage_summary \<Rightarrow> usage_summary" where
  "usage_record_with_cache inp outp cache_read cache_write u =
     u\<lparr>input_tokens := i64_sat_add (input_tokens u) inp,
       output_tokens := i64_sat_add (output_tokens u) outp,
       cache_read_tokens := i64_sat_add (cache_read_tokens u) cache_read,
       cache_write_tokens := i64_sat_add (cache_write_tokens u) cache_write,
       total_calls := sat_add u32_max (total_calls u) 1\<rparr>"

definition usage_add_cost :: "rat \<Rightarrow> usage_summary \<Rightarrow> usage_summary" where
  "usage_add_cost c u = u\<lparr>total_cost_usd := total_cost_usd u + c\<rparr>"

definition usage_reset :: "usage_summary \<Rightarrow> usage_summary" where
  "usage_reset u = default_usage"

definition usage_total_tokens_sat :: "usage_summary \<Rightarrow> int" where
  "usage_total_tokens_sat u = i64_sat_add (input_tokens u) (output_tokens u)"


section \<open>Facts\<close>

lemma lower_char_idem: "lower_char (lower_char c) = lower_char c"
proof (cases "65 \<le> byte c \<and> byte c \<le> 90")
  case True
  then have "byte (char_of (byte c + 32) :: char) = byte c + 32"
    by (simp add: of_char_of)
  with True show ?thesis by (simp add: lower_char_def)
next
  case False
  then have "lower_char c = c" by (auto simp: lower_char_def)
  then show ?thesis by simp
qed

lemma to_lowercase_idem [simp]: "to_lowercase (to_lowercase s) = to_lowercase s"
  by (simp add: to_lowercase_def lower_char_idem)

lemma usage_fold_exact:
  assumes "0 \<le> p0" "list_all (\<lambda>(p, c). 0 \<le> p \<and> 0 \<le> c) us"
    and "p0 + sum_list (map fst us) \<le> i64_max"
    and "input_tokens u = p0"
  shows "input_tokens (fold (\<lambda>(p, c). usage_record p c) us u) = p0 + sum_list (map fst us)"
  using assms
proof (induction us arbitrary: u p0)
  case (Cons x us)
  obtain p c where x: "x = (p, c)" by (cases x)
  have nn: "0 \<le> sum_list (map fst us)"
    using Cons.prems(2) by (intro sum_list_nonneg) (auto simp: list_all_iff)
  have "i64_sat_add p0 p = p0 + p"
    using Cons.prems x nn by (intro i64_sat_add_exact) auto
  then show ?case
    using Cons.IH [of "p0 + p" "usage_record p c u"] Cons.prems x
    by (simp add: usage_record_def add.assoc)
qed simp



section \<open>Properties\<close>

text \<open>Mutation identity is an equivalence relation and does not depend on letter case.  Two
  references to a mutating call with equal fingerprints, or without fingerprint but with the same
  name and meta, are the same action; the fingerprint of a call is the same however the tool name
  is capitalised, and it exists exactly for mutating calls.\<close>

theorem mutation_identity:
  "equivp is_same_mutation_action
   \<and> build_tool_action_fingerprint (to_lowercase name) args meta = build_tool_action_fingerprint name args meta
   \<and> (build_tool_action_fingerprint name args meta = None \<longleftrightarrow> \<not> is_mutating_tool_call name args)"
proof -
  have "equivp is_same_mutation_action"
    by (rule equivpI) (auto simp: reflp_def symp_def transp_def is_same_mutation_action_def
        split: option.splits)
  moreover have "is_mutating_tool_call (to_lowercase name) args = is_mutating_tool_call name args"
    by (simp only: is_mutating_tool_call_def to_lowercase_idem)
  then have "build_tool_action_fingerprint (to_lowercase name) args meta = build_tool_action_fingerprint name args meta"
    by (simp only: build_tool_action_fingerprint_def to_lowercase_idem)
  ultimately show ?thesis
    by (simp add: build_tool_action_fingerprint_def Let_def)
qed

text \<open>Fingerprints are ambiguous.  The parts are joined with a bar that is not escaped in the
  values, so two different writes, one to the path \<open>a|to=b\<close> and one to path \<open>a\<close> with target \<open>b\<close>,
  get the same fingerprint and count as the same mutation.\<close>

theorem fingerprint_collision:
  "build_tool_action_fingerprint ''write'' (JObject [(''path'', JString ''a|to=b'')]) None =
   build_tool_action_fingerprint ''write'' (JObject [(''path'', JString ''a''), (''to'', JString ''b'')]) None
   \<and> build_tool_action_fingerprint ''write'' (JObject [(''path'', JString ''a|to=b'')]) None \<noteq> None"
proof -
  have t: "trim ''a|to=b'' = ''a|to=b''" "trim ''a'' = ''a''" "trim ''b'' = ''b''"
    by (simp_all add: trim_def trim_end_def trim_start.simps trim_start_rev.simps ws1_def ws2_def)
  have l: "to_lowercase ''a|to=b'' = ''a|to=b''" "to_lowercase ''a'' = ''a''" "to_lowercase ''b'' = ''b''"
    "to_lowercase ''write'' = ''write''"
    by (simp_all add: to_lowercase_def lower_char_def)
  have "target_parts (JObject [(''path'', JString ''a|to=b'')]) = [''path=a|to=b'']"
    "target_parts (JObject [(''path'', JString ''a''), (''to'', JString ''b'')]) = [''path=a'', ''to=b'']"
    by (simp_all add: target_parts_def TARGET_KEYS_def map_filter_simps t l)
  then show ?thesis
    by (simp add: build_tool_action_fingerprint_def is_mutating_tool_call_def MUTATING_TOOLS_def
        action_of_def l)
qed

text \<open>Token accounting saturates instead of overflowing.  Whatever is recorded, every counter
  stays within its machine type, and as long as the true sum fits, the input counter is exactly the
  sum of the recorded prompt tokens.\<close>

theorem usage_saturates:
  assumes "list_all (\<lambda>(p, c). 0 \<le> p \<and> 0 \<le> c) us"
  shows "0 \<le> input_tokens (fold (\<lambda>(p, c). usage_record p c) us default_usage)
    \<and> input_tokens (fold (\<lambda>(p, c). usage_record p c) us default_usage) \<le> i64_max
    \<and> total_calls (fold (\<lambda>(p, c). usage_record p c) us default_usage) = min (length us) u32_max
    \<and> (sum_list (map fst us) \<le> i64_max \<longrightarrow>
        input_tokens (fold (\<lambda>(p, c). usage_record p c) us default_usage) = sum_list (map fst us))"
proof -
  have inp: "0 \<le> input_tokens u \<Longrightarrow> input_tokens u \<le> i64_max \<Longrightarrow>
      0 \<le> input_tokens (fold (\<lambda>(p, c). usage_record p c) us u)
      \<and> input_tokens (fold (\<lambda>(p, c). usage_record p c) us u) \<le> i64_max" for u
    using assms
  proof (induction us arbitrary: u)
    case (Cons x us)
    obtain p c where x: "x = (p, c)" by (cases x)
    have "0 \<le> i64_sat_add (input_tokens u) p \<and> i64_sat_add (input_tokens u) p \<le> i64_max"
      using Cons.prems x i64_sat_add_mono [of p "input_tokens u"] i64_sat_add_range [of "input_tokens u" p]
      by auto
    then show ?case
      using Cons.IH [of "usage_record p c u"] Cons.prems(3) x by (simp add: usage_record_def)
  qed simp
  have calls: "total_calls (fold (\<lambda>(p, c). usage_record p c) us u) = min (total_calls u + length us) u32_max"
    if "total_calls u \<le> u32_max" for u
    using that by (induction us arbitrary: u) (auto simp: usage_record_def sat_add_def)
  show ?thesis
    using inp [of default_usage] calls [of default_usage] usage_fold_exact [of 0 us default_usage] assms
    by (simp add: default_usage_def)
qed

theorem usage_saturates_witness:
  "input_tokens (fold (\<lambda>(p, c). usage_record p c) [(5, 1), (7, 2)] default_usage) = 12"
  using usage_saturates [of "[(5, 1), (7, 2)]"] by simp

end
