(* ===== verification/Reply_Queue.thy ===== *)
theory Reply_Queue
  imports Tool_Mutation
begin

text \<open>
  The \<^verbatim>\<open>auto-reply\<close> crate: inbound contexts, the per-session message queue, duplicate suppression on both sides, the
  special tokens and the normalisation of replies, and the reply dispatcher.  Clock readings are arguments and
  the SHA-256 digest is a parameter.
\<close>

section \<open>Contexts and payloads\<close>

datatype chat_type = Direct | Group | Channel | Thread

record msg_context =
  mc_body :: string
  mc_raw_body :: "string option"
  mc_from :: string
  mc_from_name :: "string option"
  mc_to :: string
  mc_provider :: string
  mc_surface :: "string option"
  mc_chat_type :: chat_type
  mc_session_key :: string
  mc_message_id :: "string option"
  mc_thread_id :: "string option"
  mc_was_mentioned :: bool
  mc_media_paths :: "string list"
  mc_timestamp_ms :: nat
  mc_raw :: json

record finalized_msg_context =
  fc_ctx :: msg_context
  body_for_agent :: string
  body_for_commands :: string
  conversation_label :: string
  command_authorized :: bool
  sender_label :: string

definition crlf :: string where "crlf = [CHR 0x0D, CHR 0x0A]"

definition finalize_inbound_context :: "msg_context \<Rightarrow> finalized_msg_context" where
  "finalize_inbound_context ctx =
     (let body = replace_all crlf [newline] (mc_body ctx);
          commands = (case mc_raw_body ctx of Some r \<Rightarrow> r | None \<Rightarrow> body);
          sender = (case mc_from_name ctx of Some n \<Rightarrow> n | None \<Rightarrow> mc_from ctx);
          label = (case mc_chat_type ctx of
                     Direct \<Rightarrow> ''DM with '' @ sender
                   | Thread \<Rightarrow> ''Thread '' @ (case mc_thread_id ctx of Some t \<Rightarrow> t | None \<Rightarrow> mc_to ctx) @ '' ('' @ sender @ '')''
                   | _ \<Rightarrow> ''Group '' @ mc_to ctx @ '' ('' @ sender @ '')'')
      in \<lparr>fc_ctx = ctx, body_for_agent = body, body_for_commands = commands, conversation_label = label,
          command_authorized = (mc_chat_type ctx = Direct), sender_label = sender\<rparr>)"

record reply_payload =
  rp_text :: "string option"
  rp_media_url :: "string option"
  rp_media_urls :: "string list option"
  rp_reply_to_id :: "string option"
  rp_reply_to_current :: bool
  rp_audio_as_voice :: bool
  rp_is_error :: bool
  rp_channel_data :: "json option"

record reply_envelope =
  env_session_key :: string
  env_channel :: string
  env_target :: string
  env_payload :: reply_payload
  env_thread_id :: "string option"
  env_reply_to_message_id :: "string option"

definition envelope_new :: "string \<Rightarrow> string \<Rightarrow> string \<Rightarrow> reply_payload \<Rightarrow> reply_envelope" where
  "envelope_new key channel target p =
     \<lparr>env_session_key = key, env_channel = channel, env_target = target, env_payload = p, env_thread_id = None,
      env_reply_to_message_id = (if rp_reply_to_current p then rp_reply_to_id p else None)\<rparr>"

definition with_thread :: "string option \<Rightarrow> reply_envelope \<Rightarrow> reply_envelope" where
  "with_thread t e = e\<lparr>env_thread_id := t\<rparr>"


section \<open>The message queue\<close>

datatype queue_mode = Interrupt | Steer | Followup | Collect | SteerBacklog

datatype queue_drop_policy = DropSummarize | DropOld | DropNew

datatype queue_action =
    RunNow finalized_msg_context
  | Queued
  | Interrupted finalized_msg_context
  | Collected "finalized_msg_context list"

record message_queue =
  mq_mode :: queue_mode
  mq_pending :: "finalized_msg_context list"
  mq_has_active_run :: bool
  mq_collect_window_ms :: nat
  mq_debounce_ms :: nat
  mq_cap :: nat
  mq_drop_policy :: queue_drop_policy
  mq_dropped_count :: nat
  mq_summary_lines :: "string list"
  mq_last_enqueued_at_ms :: nat

abbreviation usize_max :: nat where "usize_max \<equiv> 2 ^ 64 - 1"

definition summarize_queue_text :: "string \<Rightarrow> nat \<Rightarrow> string" where
  "summarize_queue_text s limit =
     (let compact = join_with '' '' (split_whitespace s) in
      if length (chars_of compact) \<le> limit then compact
      else concat (take (limit - 1) (chars_of compact)) @ [CHR 0xE2, CHR 0x80, CHR 0xA6])"

definition queue_new :: "queue_mode \<Rightarrow> message_queue" where
  "queue_new mode =
     \<lparr>mq_mode = mode, mq_pending = [], mq_has_active_run = False, mq_collect_window_ms = 2000, mq_debounce_ms = 0,
      mq_cap = usize_max, mq_drop_policy = DropSummarize, mq_dropped_count = 0, mq_summary_lines = [],
      mq_last_enqueued_at_ms = 0\<rparr>"

definition set_collect_window_ms :: "nat \<Rightarrow> message_queue \<Rightarrow> message_queue" where
  "set_collect_window_ms ms q = q\<lparr>mq_collect_window_ms := max ms 1\<rparr>"

definition set_debounce_ms :: "nat \<Rightarrow> message_queue \<Rightarrow> message_queue" where
  "set_debounce_ms ms q = q\<lparr>mq_debounce_ms := ms\<rparr>"

definition set_cap :: "nat \<Rightarrow> message_queue \<Rightarrow> message_queue" where
  "set_cap cap q = q\<lparr>mq_cap := max cap 1\<rparr>"

definition set_drop_policy :: "queue_drop_policy \<Rightarrow> message_queue \<Rightarrow> message_queue" where
  "set_drop_policy p q = q\<lparr>mq_drop_policy := p\<rparr>"

definition set_mode :: "queue_mode \<Rightarrow> message_queue \<Rightarrow> message_queue" where
  "set_mode m q = q\<lparr>mq_mode := m\<rparr>"

text \<open>Dropping the oldest message, with its line in the summary.\<close>

definition note_dropped :: "finalized_msg_context \<Rightarrow> message_queue \<Rightarrow> message_queue" where
  "note_dropped ctx q =
     (if mq_drop_policy q = DropSummarize then
        q\<lparr>mq_dropped_count := sat_add usize_max (mq_dropped_count q) 1,
          mq_summary_lines := last_n (min (mq_cap q) 256) (mq_summary_lines q @ [summarize_queue_text (body_for_agent ctx) 160])\<rparr>
      else q)"

fun drop_oldest :: "nat \<Rightarrow> message_queue \<Rightarrow> message_queue" where
  "drop_oldest 0 q = q"
| "drop_oldest (Suc n) q =
     (case mq_pending q of
        [] \<Rightarrow> drop_oldest n q
      | ctx # rest \<Rightarrow> drop_oldest n (note_dropped ctx (q\<lparr>mq_pending := rest\<rparr>)))"

definition push_pending :: "nat \<Rightarrow> finalized_msg_context \<Rightarrow> message_queue \<Rightarrow> bool \<times> message_queue" where
  "push_pending now ctx q =
     (let q1 = q\<lparr>mq_last_enqueued_at_ms := now\<rparr> in
      if mq_cap q1 \<noteq> usize_max \<and> length (mq_pending q1) \<ge> mq_cap q1 then
        (if mq_drop_policy q1 = DropNew then (False, q1)
         else
           (let drop_count = sat_add usize_max (length (mq_pending q1) - mq_cap q1) 1;
                q2 = drop_oldest drop_count q1
            in (True, q2\<lparr>mq_pending := mq_pending q2 @ [ctx]\<rparr>)))
      else (True, q1\<lparr>mq_pending := mq_pending q1 @ [ctx]\<rparr>))"

definition enqueue :: "nat \<Rightarrow> finalized_msg_context \<Rightarrow> message_queue \<Rightarrow> queue_action \<times> message_queue" where
  "enqueue now ctx q =
     (if \<not> mq_has_active_run q then (RunNow ctx, q\<lparr>mq_has_active_run := True\<rparr>)
      else (case mq_mode q of
              Interrupt \<Rightarrow> (Interrupted ctx, q\<lparr>mq_pending := []\<rparr>)
            | _ \<Rightarrow> (Queued, snd (push_pending now ctx q))))"

definition queue_drain :: "message_queue \<Rightarrow> finalized_msg_context list \<times> message_queue" where
  "queue_drain q = (mq_pending q, q\<lparr>mq_has_active_run := False, mq_pending := []\<rparr>)"

definition mark_run_complete :: "message_queue \<Rightarrow> message_queue" where
  "mark_run_complete q = q\<lparr>mq_has_active_run := False\<rparr>"

definition complete_and_take_next :: "message_queue \<Rightarrow> finalized_msg_context option \<times> message_queue" where
  "complete_and_take_next q =
     (case mq_pending q of
        ctx # rest \<Rightarrow> (Some ctx, q\<lparr>mq_pending := rest, mq_has_active_run := True\<rparr>)
      | [] \<Rightarrow> (None, q\<lparr>mq_has_active_run := False\<rparr>))"

definition take_collect_batch :: "message_queue \<Rightarrow> finalized_msg_context list option \<times> message_queue" where
  "take_collect_batch q =
     (if mq_pending q = [] then (None, q\<lparr>mq_has_active_run := False\<rparr>)
      else (Some (mq_pending q), q\<lparr>mq_has_active_run := True, mq_pending := []\<rparr>))"

definition take_summary_prompt :: "string \<Rightarrow> message_queue \<Rightarrow> string option \<times> message_queue" where
  "take_summary_prompt noun q =
     (if mq_drop_policy q \<noteq> DropSummarize \<or> mq_dropped_count q = 0 then (None, q)
      else
        (let plural = (if mq_dropped_count q = 1 then [] else ''s'');
             head = ''[Queue overflow] Dropped '' @ show_nat (mq_dropped_count q) @ '' '' @ noun @ plural @ '' due to queue cap.'';
             lines = (if mq_summary_lines q = [] then [head]
                      else head # ''Summary:'' # map (\<lambda>l. ''- '' @ l) (mq_summary_lines q))
         in (Some (join_with [newline] lines),
             q\<lparr>mq_summary_lines := [], mq_dropped_count := 0\<rparr>)))"


section \<open>Duplicates\<close>

record inbound_debounce =
  ib_seen :: "(string, nat) hash_map"
  ib_ttl_ms :: nat

definition debounce_new :: "nat \<Rightarrow> inbound_debounce" where
  "debounce_new ttl = \<lparr>ib_seen = [], ib_ttl_ms = ttl\<rparr>"

definition debounce_key :: "(string \<Rightarrow> string) \<Rightarrow> string \<Rightarrow> string \<Rightarrow> string" where
  "debounce_key sha body from = sha (from @ ''|'' @ body)"

definition cleanup_stale :: "nat \<Rightarrow> inbound_debounce \<Rightarrow> inbound_debounce" where
  "cleanup_stale now d = d\<lparr>ib_seen := hm_retain (\<lambda>_ ts. now - ts < ib_ttl_ms d) (ib_seen d)\<rparr>"

definition should_skip :: "(string \<Rightarrow> string) \<Rightarrow> string \<Rightarrow> string \<Rightarrow> nat \<Rightarrow> inbound_debounce \<Rightarrow> bool \<times> inbound_debounce" where
  "should_skip sha body from now d =
     (let d1 = cleanup_stale now d; key = debounce_key sha body from in
      if hm_contains_key (ib_seen d1) key then (True, d1)
      else (False, d1\<lparr>ib_seen := hm_insert key now (ib_seen d1)\<rparr>))"

definition payload_key :: "reply_payload \<Rightarrow> string" where
  "payload_key p =
     (let or_empty = (\<lambda>x. case x of Some s \<Rightarrow> s | None \<Rightarrow> [])
      in or_empty (rp_text p) @ ''|'' @ or_empty (rp_media_url p) @ ''|'' @ or_empty (rp_reply_to_id p))"

record block_reply_pipeline =
  bp_buffer :: "reply_payload list"
  bp_seen_keys :: "string set"
  bp_timeout_ms :: nat
  bp_aborted :: bool
  bp_did_stream :: bool

definition block_pipeline_new :: "nat \<Rightarrow> block_reply_pipeline" where
  "block_pipeline_new timeout =
     \<lparr>bp_buffer = [], bp_seen_keys = {}, bp_timeout_ms = timeout, bp_aborted = False, bp_did_stream = False\<rparr>"

definition block_enqueue :: "reply_payload \<Rightarrow> block_reply_pipeline \<Rightarrow> block_reply_pipeline" where
  "block_enqueue p b =
     (if bp_aborted b then b
      else if payload_key p \<in> bp_seen_keys b then b
      else b\<lparr>bp_seen_keys := insert (payload_key p) (bp_seen_keys b), bp_buffer := bp_buffer b @ [p]\<rparr>)"

definition block_flush :: "bool \<Rightarrow> block_reply_pipeline \<Rightarrow> reply_payload list \<times> block_reply_pipeline" where
  "block_flush force b =
     (if bp_aborted b then ([], b)
      else if force \<or> bp_buffer b \<noteq> [] then (bp_buffer b, b\<lparr>bp_did_stream := True, bp_buffer := []\<rparr>)
      else ([], b))"

definition block_stop :: "block_reply_pipeline \<Rightarrow> block_reply_pipeline" where
  "block_stop b = b\<lparr>bp_aborted := True\<rparr>"


section \<open>Tokens and normalisation\<close>

definition SILENT_REPLY_TOKEN :: string where "SILENT_REPLY_TOKEN = ''[[SILENT]]''"
definition HEARTBEAT_TOKEN :: string where "HEARTBEAT_TOKEN = ''[[HEARTBEAT]]''"

definition is_silent :: "string \<Rightarrow> bool" where
  "is_silent s = (trim s = SILENT_REPLY_TOKEN)"

definition is_heartbeat :: "string \<Rightarrow> bool" where
  "is_heartbeat s = (trim s = HEARTBEAT_TOKEN)"

definition strip_heartbeat :: "string \<Rightarrow> string option" where
  "strip_heartbeat s =
     (let trimmed = trim (replace_all HEARTBEAT_TOKEN [] s) in if trimmed = [] then None else Some trimmed)"

record normalize_options =
  strip_silent_opt :: bool
  strip_heartbeat_opt :: bool
  skip_empty_opt :: bool

definition default_outbound :: normalize_options where
  "default_outbound = \<lparr>strip_silent_opt = True, strip_heartbeat_opt = True, skip_empty_opt = True\<rparr>"

definition has_media :: "reply_payload \<Rightarrow> bool" where
  "has_media p =
     (rp_media_url p \<noteq> None \<or> (case rp_media_urls p of Some us \<Rightarrow> us \<noteq> [] | None \<Rightarrow> False) \<or> rp_channel_data p \<noteq> None)"

definition normalize_reply_payload :: "reply_payload \<Rightarrow> normalize_options \<Rightarrow> reply_payload option" where
  "normalize_reply_payload p opts =
     (if (case rp_text p of Some t \<Rightarrow> strip_silent_opt opts \<and> is_silent t | None \<Rightarrow> False) then None
      else
        (let txt1 = (case rp_text p of Some t \<Rightarrow> if strip_heartbeat_opt opts then strip_heartbeat t else Some t | None \<Rightarrow> None)
         in if skip_empty_opt opts \<and> (case txt1 of None \<Rightarrow> True | Some t \<Rightarrow> t = []) \<and> \<not> has_media p then None
            else Some (p\<lparr>rp_text := txt1\<rparr>)))"


section \<open>Reply dispatcher\<close>

text \<open>Three bounded channels and a counter that starts at one for the reservation.  A send counts itself for the
  time of the \<^verbatim>\<open>try_send\<close>, which fails on a full channel or a dropped receiver.\<close>

record reply_dispatcher =
  rd_tool :: "reply_payload list"
  rd_block :: "reply_payload list"
  rd_final :: "reply_payload list"
  rd_buffer :: nat
  rd_open :: bool
  rd_pending :: nat

definition dispatcher_new :: "nat \<Rightarrow> reply_dispatcher" where
  "dispatcher_new buffer = \<lparr>rd_tool = [], rd_block = [], rd_final = [], rd_buffer = buffer, rd_open = True, rd_pending = 1\<rparr>"

definition can_send :: "reply_payload list \<Rightarrow> reply_dispatcher \<Rightarrow> bool" where
  "can_send ch d = (rd_open d \<and> length ch < rd_buffer d)"

definition send_tool_result :: "reply_payload \<Rightarrow> reply_dispatcher \<Rightarrow> bool \<times> reply_dispatcher" where
  "send_tool_result p d = (if can_send (rd_tool d) d then (True, d\<lparr>rd_tool := rd_tool d @ [p]\<rparr>) else (False, d))"

definition send_block_reply :: "reply_payload \<Rightarrow> reply_dispatcher \<Rightarrow> bool \<times> reply_dispatcher" where
  "send_block_reply p d = (if can_send (rd_block d) d then (True, d\<lparr>rd_block := rd_block d @ [p]\<rparr>) else (False, d))"

definition send_final_reply :: "reply_payload \<Rightarrow> reply_dispatcher \<Rightarrow> bool \<times> reply_dispatcher" where
  "send_final_reply p d = (if can_send (rd_final d) d then (True, d\<lparr>rd_final := rd_final d @ [p]\<rparr>) else (False, d))"

definition mark_complete :: "reply_dispatcher \<Rightarrow> reply_dispatcher" where
  "mark_complete d = d\<lparr>rd_pending := usize_sub (rd_pending d) 1\<rparr>"

definition is_idle :: "reply_dispatcher \<Rightarrow> bool" where
  "is_idle d = (rd_pending d = 0)"


section \<open>Queue lemmas\<close>

lemma note_dropped_simps [simp]:
  "mq_pending (note_dropped ctx q) = mq_pending q" "mq_cap (note_dropped ctx q) = mq_cap q"
  "mq_mode (note_dropped ctx q) = mq_mode q" "mq_drop_policy (note_dropped ctx q) = mq_drop_policy q"
  "mq_has_active_run (note_dropped ctx q) = mq_has_active_run q"
  by (simp_all add: note_dropped_def)

lemma drop_oldest_simps [simp]:
  "mq_pending (drop_oldest n q) = drop n (mq_pending q)" "mq_cap (drop_oldest n q) = mq_cap q"
  "mq_mode (drop_oldest n q) = mq_mode q" "mq_drop_policy (drop_oldest n q) = mq_drop_policy q"
  "mq_has_active_run (drop_oldest n q) = mq_has_active_run q"
  by (induction n arbitrary: q) (auto split: list.split)

lemma drop_oldest_count:
  "mq_drop_policy q = DropSummarize \<Longrightarrow> n \<le> length (mq_pending q) \<Longrightarrow> mq_dropped_count q + n \<le> usize_max \<Longrightarrow>
   mq_dropped_count (drop_oldest n q) = mq_dropped_count q + n"
proof (induction n arbitrary: q)
  case (Suc n)
  then obtain ctx rest where "mq_pending q = ctx # rest" by (cases "mq_pending q") auto
  then show ?case
    using Suc by (simp add: note_dropped_def sat_add_def)
qed simp

lemma push_pending_frame [simp]:
  "mq_mode (snd (push_pending now ctx q)) = mq_mode q" "mq_cap (snd (push_pending now ctx q)) = mq_cap q"
  "mq_has_active_run (snd (push_pending now ctx q)) = mq_has_active_run q"
  by (simp_all add: push_pending_def Let_def)

lemma push_pending_uncapped:
  "mq_cap q = usize_max \<Longrightarrow> mq_pending (snd (push_pending now ctx q)) = mq_pending q @ [ctx]"
  by (simp add: push_pending_def Let_def)


section \<open>Properties\<close>

text \<open>The capacity of the queue.  With a capacity set, a queued message joins the newest ones: the oldest give way
  until the capacity holds, and under the summarising policy each message that gave way is counted;
  under the policy that drops new messages it is the arriving one that is refused.\<close>

theorem push_pending_capped:
  assumes "1 \<le> mq_cap q" and "mq_cap q < usize_max" and "length (mq_pending q) < usize_max"
  shows "(if mq_drop_policy q = DropNew
     then mq_pending (snd (push_pending now ctx q)) = (if length (mq_pending q) < mq_cap q then mq_pending q @ [ctx] else mq_pending q)
     else mq_pending (snd (push_pending now ctx q)) = last_n (mq_cap q) (mq_pending q @ [ctx])
       \<and> (mq_drop_policy q = DropSummarize \<and> mq_dropped_count q + length (mq_pending q) < usize_max \<longrightarrow>
           mq_dropped_count (snd (push_pending now ctx q)) + length (mq_pending (snd (push_pending now ctx q)))
             = mq_dropped_count q + length (mq_pending q) + 1))"
proof (cases "mq_cap q \<le> length (mq_pending q)")
  case True
  let ?n = "length (mq_pending q) - mq_cap q + 1"
  have n: "sat_add usize_max (length (mq_pending q) - mq_cap q) 1 = ?n"
    using assms True by (simp add: sat_add_def)
  have "drop ?n (mq_pending q) @ [ctx] = last_n (mq_cap q) (mq_pending q @ [ctx])"
    using True assms(1) by (simp add: last_n_def Suc_diff_le)
  moreover have "mq_dropped_count (drop_oldest ?n (q\<lparr>mq_last_enqueued_at_ms := now\<rparr>)) = mq_dropped_count q + ?n"
    if "mq_drop_policy q = DropSummarize" "mq_dropped_count q + length (mq_pending q) < usize_max"
    using drop_oldest_count [of "q\<lparr>mq_last_enqueued_at_ms := now\<rparr>" ?n] that True assms(1) by simp
  ultimately show ?thesis
    using True assms n by (auto simp: push_pending_def Let_def simp del: drop_oldest.simps)
qed (use assms in \<open>auto simp: push_pending_def last_n_def\<close>)

definition sample_ctx :: "string \<Rightarrow> finalized_msg_context" where
  "sample_ctx b = finalize_inbound_context \<lparr>mc_body = b, mc_raw_body = None, mc_from = ''u'', mc_from_name = None, mc_to = ''chat'',
     mc_provider = ''telegram'', mc_surface = None, mc_chat_type = Direct, mc_session_key = ''s'', mc_message_id = None,
     mc_thread_id = None, mc_was_mentioned = False, mc_media_paths = [], mc_timestamp_ms = 0, mc_raw = JNull\<rparr>"

definition full_queue :: message_queue where
  "full_queue = (set_cap 2 (queue_new Followup))\<lparr>mq_has_active_run := True, mq_pending := [sample_ctx ''a'', sample_ctx ''b'']\<rparr>"

theorem push_pending_capped_witness:
  "mq_pending (snd (push_pending 5 (sample_ctx ''c'') full_queue)) = [sample_ctx ''b'', sample_ctx ''c'']"
  using push_pending_capped [of full_queue 5 "sample_ctx ''c''"]
  by (simp add: full_queue_def queue_new_def set_cap_def last_n_def)

text \<open>The duplicate filter.\<close>

lemma should_skip_wf: "hm_wf (ib_seen d) \<Longrightarrow> hm_wf (ib_seen (snd (should_skip sha body sender now d)))"
  by (auto simp: should_skip_def cleanup_stale_def Let_def)

lemma should_skip_keeps:
  assumes "hm_wf (ib_seen d)" and "hm_get (ib_seen d) key = Some t" and "now - t < ib_ttl_ms d"
  shows "hm_get (ib_seen (snd (should_skip sha body sender now d))) key = Some t"
    and "ib_ttl_ms (snd (should_skip sha body sender now d)) = ib_ttl_ms d"
  using assms by (auto simp: should_skip_def cleanup_stale_def Let_def)

fun feed :: "(string \<Rightarrow> string) \<Rightarrow> (string \<times> string \<times> nat) list \<Rightarrow> inbound_debounce \<Rightarrow> inbound_debounce" where
  "feed sha [] d = d"
| "feed sha ((body, sender, now) # ms) d = feed sha ms (snd (should_skip sha body sender now d))"

lemma feed_keeps:
  assumes "hm_wf (ib_seen d)" and "hm_get (ib_seen d) key = Some t"
    and "list_all (\<lambda>(_, _, now). now - t < ib_ttl_ms d) ms"
  shows "hm_wf (ib_seen (feed sha ms d)) \<and> hm_get (ib_seen (feed sha ms d)) key = Some t \<and> ib_ttl_ms (feed sha ms d) = ib_ttl_ms d"
  using assms
proof (induction ms arbitrary: d)
  case (Cons m ms)
  obtain body sender now where "m = (body, sender, now)" by (cases m)
  then show ?case
    using Cons should_skip_keeps [OF Cons.prems(1,2), of now sha body sender] should_skip_wf [OF Cons.prems(1)] by simp
qed simp

text \<open>A duplicate is recognised for the whole window: once a message is let through, the same text from the same
  sender is skipped until the window has passed, whatever other messages arrive in between, and let
  through again at its end.\<close>

theorem debounce_window:
  assumes "hm_wf (ib_seen d)" and "fst (should_skip sha body sender t d) = False"
    and "list_all (\<lambda>(_, _, now). now - t < ib_ttl_ms d) ms"
  shows "fst (should_skip sha body sender t' (feed sha ms (snd (should_skip sha body sender t d)))) = (t' - t < ib_ttl_ms d)"
proof -
  let ?d = "snd (should_skip sha body sender t d)" and ?key = "debounce_key sha body sender"
  have "hm_get (ib_seen ?d) ?key = Some t" "ib_ttl_ms ?d = ib_ttl_ms d"
    using assms(2) by (auto simp: should_skip_def cleanup_stale_def Let_def split: if_splits)
  then show ?thesis
    using feed_keeps [OF should_skip_wf [OF assms(1)], of sha body sender t ?key t ms sha] assms(3)
    by (auto simp: should_skip_def [of sha body sender t'] cleanup_stale_def Let_def)
qed

theorem debounce_window_witness:
  "fst (should_skip id ''hi'' ''ann'' 1500 (feed id [(''yo'', ''bob'', 1200)] (snd (should_skip id ''hi'' ''ann'' 1000 (debounce_new 5000)))))"
  using debounce_window [of "debounce_new 5000" id "''hi''" "''ann''" 1000 "[(''yo'', ''bob'', 1200)]" 1500]
  by (simp add: debounce_new_def should_skip_def cleanup_stale_def hm_retain_def)

text \<open>The block pipeline.\<close>

datatype block_op = BEnqueue reply_payload | BFlush bool | BStop

fun block_run :: "block_op list \<Rightarrow> block_reply_pipeline \<Rightarrow> reply_payload list \<times> block_reply_pipeline" where
  "block_run [] b = ([], b)"
| "block_run (BEnqueue p # ops) b = block_run ops (block_enqueue p b)"
| "block_run (BFlush force # ops) b =
     (let (out, b1) = block_flush force b; (rest, b2) = block_run ops b1 in (out @ rest, b2))"
| "block_run (BStop # ops) b = block_run ops (block_stop b)"

lemma enqueue_inv:
  assumes "distinct (map payload_key (done @ bp_buffer b))" and "set (map payload_key (done @ bp_buffer b)) \<subseteq> bp_seen_keys b"
  shows "distinct (map payload_key (done @ bp_buffer (block_enqueue p b)))"
    and "set (map payload_key (done @ bp_buffer (block_enqueue p b))) \<subseteq> bp_seen_keys (block_enqueue p b)"
  using assms by (auto simp: block_enqueue_def)

lemma block_run_aborted: "bp_aborted b \<Longrightarrow> fst (block_run ops b) = []"
  by (induction ops b rule: block_run.induct)
    (auto simp: block_enqueue_def block_flush_def block_stop_def Let_def split: prod.split)

lemma block_run_inv:
  assumes "distinct (map payload_key (done @ bp_buffer b))" and "set (map payload_key (done @ bp_buffer b)) \<subseteq> bp_seen_keys b"
  shows "distinct (map payload_key (done @ fst (block_run ops b) @ bp_buffer (snd (block_run ops b))))"
  using assms
proof (induction ops arbitrary: b "done")
  case (Cons op ops)
  show ?case
  proof (cases op)
    case (BEnqueue p)
    then show ?thesis
      using Cons.IH [OF enqueue_inv [OF Cons.prems, of p]] by simp
  next
    case (BFlush force)
    obtain out b1 where f: "block_flush force b = (out, b1)" by fastforce
    then have b1: "out @ bp_buffer b1 = bp_buffer b" "bp_seen_keys b1 = bp_seen_keys b"
      by (auto simp: block_flush_def split: if_splits)
    have "fst (block_run (op # ops) b) = out @ fst (block_run ops b1)" "snd (block_run (op # ops) b) = snd (block_run ops b1)"
      using BFlush f by (simp_all add: Let_def split: prod.split)
    moreover have "(done @ out) @ bp_buffer b1 = done @ bp_buffer b"
      using b1(1) by simp
    then have "distinct (map payload_key ((done @ out) @ fst (block_run ops b1) @ bp_buffer (snd (block_run ops b1))))"
      using Cons.prems b1(2) Cons.IH [of "done @ out" b1] by metis
    ultimately show ?thesis by (simp only: append_assoc)
  next
    case BStop
    then show ?thesis
      using Cons.IH [of "done" "block_stop b"] Cons.prems by (simp add: block_stop_def)
  qed
qed simp

text \<open>No reply block is delivered twice: over any sequence of blocks, flushes and a stop, the delivered
  payloads and those still buffered have pairwise different keys, and nothing is delivered after a stop.\<close>

theorem block_pipeline_no_duplicates:
  "distinct (map payload_key (fst (block_run ops (block_pipeline_new timeout)) @ bp_buffer (snd (block_run ops (block_pipeline_new timeout)))))
   \<and> fst (block_run ops (block_stop b)) = []"
  using block_run_inv [of "[]" "block_pipeline_new timeout" ops] block_run_aborted [of "block_stop b" ops]
  by (simp add: block_pipeline_new_def block_stop_def)

text \<open>The key ignores the list of media and the channel data, so different payloads count as duplicates.\<close>

theorem media_lists_collide:
  "payload_key (p\<lparr>rp_media_urls := Some [''a'']\<rparr>) = payload_key (p\<lparr>rp_media_urls := Some [''b'']\<rparr>)"
  by (simp add: payload_key_def)

text \<open>What a normalised reply looks like: a payload is dropped exactly when its text is the silent token or nothing is
  left of its text and it has no media; otherwise only its text is changed, to the stripped one.\<close>

theorem normalize_reply_spec:
  "normalize_reply_payload p default_outbound =
     (if (\<exists>t. rp_text p = Some t \<and> is_silent t) then None
      else let t = Option.bind (rp_text p) strip_heartbeat in
           if t = None \<and> \<not> has_media p then None else Some (p\<lparr>rp_text := t\<rparr>))"
proof -
  have "strip_heartbeat t \<noteq> Some []" for t
    by (simp add: strip_heartbeat_def Let_def)
  then show ?thesis
    by (auto simp: normalize_reply_payload_def default_outbound_def Let_def split: option.splits)
qed

text \<open>Stripping can uncover a token: the removal is one pass, and the silent token is only looked for before it.\<close>

theorem heartbeat_uncovered:
  "strip_heartbeat ''[[HEART[[HEARTBEAT]]BEAT]]'' = Some HEARTBEAT_TOKEN"
  by code_simp

theorem silent_uncovered:
  "is_silent ''[[HEARTBEAT]][[SILENT]]'' = False \<and> strip_heartbeat ''[[HEARTBEAT]][[SILENT]]'' = Some SILENT_REPLY_TOKEN"
  by code_simp

text \<open>Completing a dispatcher twice wraps its counter around, so that it never becomes idle again.\<close>

theorem double_complete_not_idle: "\<not> is_idle (mark_complete (mark_complete (dispatcher_new n)))"
  by (simp add: is_idle_def mark_complete_def dispatcher_new_def usize_sub_def)

end
