(* ===== verification/Session_Routing.thy ===== *)
theory Session_Routing
  imports Reply_Queue
begin

text \<open>
  Where an inbound message goes: session keys and session ids (\<^verbatim>\<open>gateway-core/session_key.rs\<close>), the two routers that
  choose the agent for a message (\<^verbatim>\<open>resolve_agent_for_message\<close> of \<^verbatim>\<open>pipeline.rs\<close> over the bindings of
  \<^verbatim>\<open>config/settings.rs\<close>, and \<^verbatim>\<open>binding.rs\<close>), and the access policy of a channel (\<^verbatim>\<open>channel_access.rs\<close>).
\<close>

section \<open>Session keys\<close>

text \<open>\<^verbatim>\<open>str::splitn(n, char)\<close>: at most \<open>n\<close> pieces, the last one unsplit.\<close>

fun splitn :: "nat \<Rightarrow> char \<Rightarrow> string \<Rightarrow> string list" where
  "splitn 0 c s = []"
| "splitn (Suc 0) c s = [s]"
| "splitn (Suc (Suc n)) c s =
     (if c \<in> set s then takeWhile (\<lambda>x. x \<noteq> c) s # splitn (Suc n) c (tl (dropWhile (\<lambda>x. x \<noteq> c) s)) else [s])"

fun show_chat_type :: "chat_type \<Rightarrow> string" where
  "show_chat_type Direct = ''direct''"
| "show_chat_type Group = ''group''"
| "show_chat_type Channel = ''channel''"
| "show_chat_type Thread = ''thread''"

record session_key =
  sk_channel :: string
  sk_chat_type :: chat_type
  sk_chat_id :: string
  sk_user_id :: "string option"

definition session_key_new :: "string \<Rightarrow> chat_type \<Rightarrow> string \<Rightarrow> string option \<Rightarrow> session_key" where
  "session_key_new ch ty cid uid = \<lparr>sk_channel = ch, sk_chat_type = ty, sk_chat_id = cid, sk_user_id = uid\<rparr>"

definition parse_chat_type :: "string \<Rightarrow> chat_type option" where
  "parse_chat_type s =
     (if s = ''direct'' then Some Direct else if s = ''group'' then Some Group
      else if s = ''channel'' then Some Channel else if s = ''thread'' then Some Thread else None)"

definition session_key_parse :: "string \<Rightarrow> session_key option" where
  "session_key_parse raw =
     (let parts = splitn 4 (CHR '':'') raw in
      if length parts < 3 then None
      else (case parse_chat_type (parts ! 1) of
              None \<Rightarrow> None
            | Some ty \<Rightarrow> Some \<lparr>sk_channel = parts ! 0, sk_chat_type = ty, sk_chat_id = parts ! 2,
                               sk_user_id = (if 3 < length parts then Some (parts ! 3) else None)\<rparr>))"

definition is_dm :: "session_key \<Rightarrow> bool" where "is_dm k = (sk_chat_type k = Direct)"
definition is_group :: "session_key \<Rightarrow> bool" where "is_group k = (sk_chat_type k = Group)"

definition show_session_key :: "session_key \<Rightarrow> string" where
  "show_session_key k =
     sk_channel k @ '':'' @ show_chat_type (sk_chat_type k) @ '':'' @ sk_chat_id k @
     (case sk_user_id k of Some u \<Rightarrow> '':'' @ u | None \<Rightarrow> [])"


section \<open>Session ids\<close>

datatype dm_scope = Main | PerPeer | PerChannelPeer | PerAccountChannelPeer

type_synonym identity_links = "(string, string list) hash_map"

definition resolve_identity :: "identity_links \<Rightarrow> string \<Rightarrow> string \<Rightarrow> string option" where
  "resolve_identity links channel peer =
     map_option fst (find (\<lambda>(_, entries). (channel @ '':'' @ peer) \<in> set entries) links)"

definition build_session_id ::
  "string \<Rightarrow> string \<Rightarrow> bool \<Rightarrow> dm_scope \<Rightarrow> identity_links option \<Rightarrow> string option \<Rightarrow> string" where
  "build_session_id channel chat_id grp scope links account =
     (if grp then channel @ ''_'' @ chat_id
      else
        (let peer = (case Option.bind links (\<lambda>l. resolve_identity l channel chat_id) of Some p \<Rightarrow> p | None \<Rightarrow> chat_id)
         in case scope of
              Main \<Rightarrow> ''main''
            | PerPeer \<Rightarrow> peer
            | PerChannelPeer \<Rightarrow> channel @ ''_'' @ peer
            | PerAccountChannelPeer \<Rightarrow> channel @ ''_'' @ (case account of Some a \<Rightarrow> a | None \<Rightarrow> ''default'') @ ''_'' @ peer))"


section \<open>Agent bindings\<close>

datatype agent_binding =
    BPeer string string string
  | BGuildRoles string string "string list" string
  | BGuild string string string
  | BTeam string string string
  | BAccount string string string
  | BChannel string string
  | BDefault string

fun binding_agent_id :: "agent_binding \<Rightarrow> string" where
  "binding_agent_id (BPeer _ _ a) = a"
| "binding_agent_id (BGuildRoles _ _ _ a) = a"
| "binding_agent_id (BGuild _ _ a) = a"
| "binding_agent_id (BTeam _ _ a) = a"
| "binding_agent_id (BAccount _ _ a) = a"
| "binding_agent_id (BChannel _ a) = a"
| "binding_agent_id (BDefault a) = a"

fun binding_priority :: "agent_binding \<Rightarrow> nat" where
  "binding_priority (BPeer _ _ _) = 1"
| "binding_priority (BGuildRoles _ _ _ _) = 2"
| "binding_priority (BGuild _ _ _) = 3"
| "binding_priority (BTeam _ _ _) = 4"
| "binding_priority (BAccount _ _ _) = 5"
| "binding_priority (BChannel _ _) = 6"
| "binding_priority (BDefault _) = 7"

record message_context =
  mx_channel :: string
  mx_peer_id :: string
  mx_guild_id :: "string option"
  mx_team_id :: "string option"
  mx_account_id :: "string option"
  mx_role_ids :: "string list"

fun binding_matches :: "message_context \<Rightarrow> agent_binding \<Rightarrow> bool" where
  "binding_matches cx (BPeer ch peer _) = (ch = mx_channel cx \<and> peer = mx_peer_id cx)"
| "binding_matches cx (BGuildRoles ch g roles _) =
     (ch = mx_channel cx \<and> mx_guild_id cx = Some g \<and> roles \<noteq> [] \<and> list_all (\<lambda>r. r \<in> set (mx_role_ids cx)) roles)"
| "binding_matches cx (BGuild ch g _) = (ch = mx_channel cx \<and> mx_guild_id cx = Some g)"
| "binding_matches cx (BTeam ch t _) = (ch = mx_channel cx \<and> mx_team_id cx = Some t)"
| "binding_matches cx (BAccount ch a _) = (ch = mx_channel cx \<and> mx_account_id cx = Some a)"
| "binding_matches cx (BChannel ch _) = (ch = mx_channel cx)"
| "binding_matches cx (BDefault _) = True"

definition better_binding ::
  "message_context \<Rightarrow> (nat \<times> agent_binding) option \<Rightarrow> agent_binding \<Rightarrow> (nat \<times> agent_binding) option" where
  "better_binding cx best b =
     (if binding_matches cx b \<and> (case best of Some (p, _) \<Rightarrow> binding_priority b < p | None \<Rightarrow> True)
      then Some (binding_priority b, b) else best)"

definition resolve_agent_for_message :: "agent_binding list \<Rightarrow> message_context \<Rightarrow> string option" where
  "resolve_agent_for_message bindings cx =
     map_option (\<lambda>(_, b). binding_agent_id b) (foldl (better_binding cx) None bindings)"

text \<open>The second router, over session keys: \<^verbatim>\<open>sort_by\<close> is stable and the order is by descending priority.\<close>

record binding =
  bd_system_prompt :: "string option"
  bd_tools :: "string list option"
  bd_model_override :: "string option"

datatype binding_matcher = MChannel string | MUser string | MGroup string string | MDefault

record binding_rule =
  br_priority :: int
  br_matcher :: binding_matcher
  br_binding :: binding

definition router_new :: "binding_rule list \<Rightarrow> binding_rule list" where
  "router_new rules = sort_key (\<lambda>r. - br_priority r) rules"

fun matcher_matches :: "binding_matcher \<Rightarrow> session_key \<Rightarrow> bool" where
  "matcher_matches (MChannel ch) k = (sk_channel k = ch)"
| "matcher_matches (MUser u) k = (sk_user_id k = Some u)"
| "matcher_matches (MGroup ch g) k = (sk_channel k = ch \<and> sk_chat_id k = g)"
| "matcher_matches MDefault k = True"

definition router_resolve :: "binding_rule list \<Rightarrow> session_key \<Rightarrow> binding option" where
  "router_resolve rules k = map_option br_binding (find (\<lambda>r. matcher_matches (br_matcher r) k) rules)"


section \<open>Channel access\<close>

record channel_policy =
  cp_allowlist :: "string set option"
  cp_blocklist :: "string set option"
  cp_require_mention :: bool
  cp_model_override :: "string option"

definition default_channel_policy :: channel_policy where
  "default_channel_policy = \<lparr>cp_allowlist = None, cp_blocklist = None, cp_require_mention = False, cp_model_override = None\<rparr>"

definition sender_allowed :: "channel_policy \<Rightarrow> string \<Rightarrow> bool" where
  "sender_allowed p sender =
     (if (case cp_blocklist p of Some b \<Rightarrow> sender \<in> b | None \<Rightarrow> False) then False
      else (case cp_allowlist p of Some a \<Rightarrow> sender \<in> a | None \<Rightarrow> True))"

record channel_access_manager =
  ca_policies :: "(string, channel_policy) hash_map"
  ca_default :: channel_policy

definition access_manager_new :: channel_access_manager where
  "access_manager_new = \<lparr>ca_policies = [], ca_default = default_channel_policy\<rparr>"

definition set_policy :: "string \<Rightarrow> channel_policy \<Rightarrow> channel_access_manager \<Rightarrow> channel_access_manager" where
  "set_policy ch p m = m\<lparr>ca_policies := hm_insert ch p (ca_policies m)\<rparr>"

definition set_default_policy :: "channel_policy \<Rightarrow> channel_access_manager \<Rightarrow> channel_access_manager" where
  "set_default_policy p m = m\<lparr>ca_default := p\<rparr>"

definition check_access :: "channel_access_manager \<Rightarrow> string \<Rightarrow> string \<Rightarrow> bool" where
  "check_access m ch sender =
     sender_allowed (case hm_get (ca_policies m) ch of Some p \<Rightarrow> p | None \<Rightarrow> ca_default m) sender"

definition get_model_override :: "channel_access_manager \<Rightarrow> string \<Rightarrow> string option" where
  "get_model_override m ch = Option.bind (hm_get (ca_policies m) ch) cp_model_override"

definition requires_mention :: "channel_access_manager \<Rightarrow> string \<Rightarrow> bool" where
  "requires_mention m ch =
     (case hm_get (ca_policies m) ch of Some p \<Rightarrow> cp_require_mention p | None \<Rightarrow> cp_require_mention (ca_default m))"


section \<open>Lemmas\<close>

lemma take_tl_drop:
  "c \<in> set s \<Longrightarrow> takeWhile (\<lambda>x. x \<noteq> c) s @ c # tl (dropWhile (\<lambda>x. x \<noteq> c) s) = s"
  by (induction s) auto

lemma splitn_not_Nil: "0 < n \<Longrightarrow> splitn n c s \<noteq> []"
  by (cases "(n, c, s)" rule: splitn.cases) auto

lemma join_splitn: "0 < n \<Longrightarrow> join_with [c] (splitn n c s) = s"
proof (induction n c s rule: splitn.induct)
  case (3 n c s)
  show ?case
  proof (cases "c \<in> set s")
    case True
    obtain p ps where p: "splitn (Suc n) c (tl (dropWhile (\<lambda>x. x \<noteq> c) s)) = p # ps"
      using splitn_not_Nil [of "Suc n"] by (metis list.exhaust zero_less_Suc)
    then show ?thesis using 3 True take_tl_drop [OF True] by simp
  qed simp
qed auto

lemma takeWhile_upto: "c \<notin> set p \<Longrightarrow> takeWhile (\<lambda>x. x \<noteq> c) (p @ c # s) = p"
  by (induction p) auto

lemma dropWhile_upto: "c \<notin> set p \<Longrightarrow> dropWhile (\<lambda>x. x \<noteq> c) (p @ c # s) = c # s"
  by (induction p) auto

lemma separated_inject:
  "c \<notin> set p \<Longrightarrow> c \<notin> set q \<Longrightarrow> p @ c # s = q @ c # t \<longleftrightarrow> p = q \<and> s = t"
  using takeWhile_upto [of c p s] takeWhile_upto [of c q t] by auto

lemma splitn_field: "c \<notin> set p \<Longrightarrow> splitn (Suc (Suc n)) c (p @ c # s) = p # splitn (Suc n) c s"
  by (simp add: takeWhile_upto dropWhile_upto)

lemma length_splitn: "length (splitn n c s) \<le> n"
  by (induction n c s rule: splitn.induct) auto

lemma parse_show_chat_type: "parse_chat_type s = Some ty \<longleftrightarrow> s = show_chat_type ty"
  by (cases ty) (auto simp: parse_chat_type_def)

lemma colon_show_chat_type: "CHR '':'' \<notin> set (show_chat_type ty)"
  by (cases ty) auto

lemma better_binding_first_min:
  "foldl (better_binding cx) best bs =
     (case (best, first_min (binding_matches cx) binding_priority bs) of
        (b, None) \<Rightarrow> b
      | (None, Some x) \<Rightarrow> Some (binding_priority x, x)
      | (Some (p, b), Some x) \<Rightarrow> if binding_priority x < p then Some (binding_priority x, x) else Some (p, b))"
  by (induction bs arbitrary: best) (auto simp: better_binding_def split: option.splits)


section \<open>Properties\<close>



text \<open>C24: the agent of a message.  Scanning the bindings and keeping the strictly better one is the same as sorting
  them by tier, stably, and taking the first that matches; so the agent comes from a matching binding
  of the best tier, and there is none exactly when nothing matches.\<close>

theorem resolve_agent_is_first_by_tier:
  "resolve_agent_for_message bindings cx =
     map_option binding_agent_id (find (binding_matches cx) (sort_key binding_priority bindings))"
  unfolding find_sort_key
  by (simp add: resolve_agent_for_message_def better_binding_first_min option.map_comp comp_def split: option.split)

text \<open>The same for the router over session keys: among the matching rules the one with the highest priority decides.\<close>

theorem router_resolve_best:
  "router_resolve (router_new rules) k = Some b \<Longrightarrow>
     \<exists>r \<in> set rules. matcher_matches (br_matcher r) k \<and> br_binding r = b
       \<and> (\<forall>r' \<in> set rules. matcher_matches (br_matcher r') k \<longrightarrow> br_priority r' \<le> br_priority r)"
  unfolding router_resolve_def router_new_def find_sort_key
  by (auto dest!: first_min_Some)

definition sample_rules :: "binding_rule list" where
  "sample_rules =
     [\<lparr>br_priority = 0, br_matcher = MDefault, br_binding = \<lparr>bd_system_prompt = Some ''d'', bd_tools = None, bd_model_override = None\<rparr>\<rparr>,
      \<lparr>br_priority = 5, br_matcher = MUser ''u1'', br_binding = \<lparr>bd_system_prompt = Some ''u'', bd_tools = None, bd_model_override = None\<rparr>\<rparr>]"

theorem router_resolve_best_witness:
  "\<exists>r \<in> set sample_rules. br_binding r = \<lparr>bd_system_prompt = Some ''u'', bd_tools = None, bd_model_override = None\<rparr>
     \<and> (\<forall>r' \<in> set sample_rules. br_priority r' \<le> br_priority r)"
  using router_resolve_best [of sample_rules "session_key_new ''slack'' Direct ''c'' (Some ''u1'')"
      "\<lparr>bd_system_prompt = Some ''u'', bd_tools = None, bd_model_override = None\<rparr>"]
  by (simp add: sample_rules_def router_new_def router_resolve_def session_key_new_def)

text \<open>Identities.  A resolved identity lists the peer, and a peer listed nowhere keeps its own id.\<close>

lemma resolve_identity_Some:
  "resolve_identity links ch p = Some c \<Longrightarrow> \<exists>es. (c, es) \<in> set links \<and> (ch @ '':'' @ p) \<in> set es"
  by (auto simp: resolve_identity_def dest: find_Some_mem)

lemma resolve_identity_None:
  "resolve_identity links ch p = None \<longleftrightarrow> (\<forall>(c, es) \<in> set links. (ch @ '':'' @ p) \<notin> set es)"
  by (auto simp: resolve_identity_def find_None_iff)

text \<open>Sessions of different chats stay apart.  With channel names free of underscores, two group chats share a session
  exactly when they are the same chat of the same channel, and so do two direct chats under the
  per-channel scope when no identity links are configured.\<close>

theorem session_ids_separate:
  assumes "CHR ''_'' \<notin> set ch1" and "CHR ''_'' \<notin> set ch2"
  shows "(build_session_id ch1 c1 True s1 l1 a1 = build_session_id ch2 c2 True s2 l2 a2 \<longleftrightarrow> ch1 = ch2 \<and> c1 = c2)
    \<and> (build_session_id ch1 c1 False PerChannelPeer None a1 = build_session_id ch2 c2 False PerChannelPeer None a2
         \<longleftrightarrow> ch1 = ch2 \<and> c1 = c2)"
proof -
  have "ch1 @ CHR ''_'' # c1 = ch2 @ CHR ''_'' # c2 \<longleftrightarrow> ch1 = ch2 \<and> c1 = c2"
    using assms by (rule separated_inject)
  then show ?thesis by (simp add: build_session_id_def)
qed

theorem session_ids_separate_witness:
  "build_session_id ''slack'' ''G1'' True Main None None \<noteq> build_session_id ''irc'' ''G1'' True Main None None"
  using session_ids_separate [where ?ch1.0 = "''slack''" and ?ch2.0 = "''irc''" and ?c1.0 = "''G1''" and ?c2.0 = "''G1''"] by simp

text \<open>A direct chat under the per-peer scope shares its session with the group chat its peer id spells.\<close>

lemma peer_session_collides:
  "build_session_id ''telegram'' ''slack_G1'' False PerPeer None None = build_session_id ''slack'' ''G1'' True s l a"
  by (simp add: build_session_id_def)

text \<open>Channel access is deny-first: a sender gets in exactly when no blocklist of the channel's policy names it
  and its allowlist, if there is one, does; and setting the policy of one channel leaves the others alone.\<close>

theorem check_access_exact:
  "check_access (set_policy ch p m) c sender =
     (if c = ch
      then (\<forall>b. cp_blocklist p = Some b \<longrightarrow> sender \<notin> b) \<and> (\<forall>a. cp_allowlist p = Some a \<longrightarrow> sender \<in> a)
      else check_access m c sender)"
  by (auto simp: check_access_def set_policy_def sender_allowed_def split: option.splits)

end
