(* ===== verification/Message_Pipeline.thy ===== *)
theory Message_Pipeline
  imports Session_Routing "HOL-Library.Multiset"
begin

text \<open>
  The inbound pipeline of the gateway (\<^verbatim>\<open>gateway-core/pipeline.rs\<close>): the queue settings of a channel, the contexts and
  prompts it builds, slash commands, and \<^verbatim>\<open>process_message\<close> as a step relation.  Every call of
  \<^verbatim>\<open>process_message\<close> is a worker that either leaves its message in the session's queue or waits for the session's
  run lock, runs turns and picks the next messages.  A turn (\<^verbatim>\<open>process_single_message\<close>) ends with a reply
  or an error, which the environment chooses.
\<close>

section \<open>JSON pointers\<close>

text \<open>\<^verbatim>\<open>Value::pointer\<close> and \<^verbatim>\<open>Value::as_u64\<close> of \<^verbatim>\<open>serde_json\<close>.\<close>

definition is_digit :: "char \<Rightarrow> bool" where "is_digit c = (48 \<le> byte c \<and> byte c \<le> 57)"

definition parse_u64 :: "string \<Rightarrow> nat option" where
  "parse_u64 s =
     (if s = [] \<or> \<not> list_all is_digit s then None
      else let n = foldl (\<lambda>n c. 10 * n + (byte c - 48)) 0 s in if n \<le> u64_max then Some n else None)"

fun json_as_u64 :: "json \<Rightarrow> nat option" where
  "json_as_u64 (JNumber n) = parse_u64 n"
| "json_as_u64 _ = None"

definition pointer_index :: "string \<Rightarrow> nat option" where
  "pointer_index s = (if starts_with s ''+'' \<or> starts_with s ''0'' \<and> length s \<noteq> 1 then None else parse_u64 s)"

fun pointer_child :: "json \<Rightarrow> string \<Rightarrow> json option" where
  "pointer_child (JObject kvs) t = map_of kvs t"
| "pointer_child (JArray xs) t =
     (case pointer_index t of Some i \<Rightarrow> if i < length xs then Some (xs ! i) else None | None \<Rightarrow> None)"
| "pointer_child _ t = None"

definition json_pointer :: "json \<Rightarrow> string \<Rightarrow> json option" where
  "json_pointer v ptr =
     (if ptr = [] then Some v
      else if \<not> starts_with ptr ''/'' then None
      else foldl (\<lambda>acc t. Option.bind acc (\<lambda>w. pointer_child w (replace_all ''~0'' ''~'' (replace_all ''~1'' ''/'' t))))
             (Some v) (tl (split_on (CHR ''/'') ptr)))"

definition pointer_u64 :: "json \<Rightarrow> string \<Rightarrow> nat option" where
  "pointer_u64 messages ptr = Option.bind (json_pointer messages ptr) json_as_u64"

definition pointer_str :: "json \<Rightarrow> string \<Rightarrow> string option" where
  "pointer_str messages ptr = Option.bind (json_pointer messages ptr) json_as_str"


section \<open>Queue settings\<close>

record queue_runtime_settings =
  qs_mode :: queue_mode
  qs_collect_window_ms :: nat
  qs_debounce_ms :: nat
  qs_cap :: nat
  qs_drop_policy :: queue_drop_policy

definition default_queue_settings :: queue_runtime_settings where
  "default_queue_settings =
     \<lparr>qs_mode = Followup, qs_collect_window_ms = 2000, qs_debounce_ms = 0, qs_cap = usize_max, qs_drop_policy = DropSummarize\<rparr>"

definition queue_mode_from_str :: "string \<Rightarrow> queue_mode" where
  "queue_mode_from_str raw =
     (let s = to_lowercase (trim raw) in
      if s = ''interrupt'' then Interrupt
      else if s = ''steer'' then Steer
      else if s = ''collect'' then Collect
      else if s \<in> {''steerbacklog'', ''steer-backlog'', ''steer+backlog''} then SteerBacklog
      else Followup)"

definition queue_drop_policy_from_str :: "string \<Rightarrow> queue_drop_policy" where
  "queue_drop_policy_from_str raw =
     (let s = to_lowercase (trim raw) in
      if s \<in> {''old'', ''drop-old''} then DropOld
      else if s \<in> {''new'', ''drop-new''} then DropNew
      else DropSummarize)"

definition or_else :: "'a option \<Rightarrow> 'a option \<Rightarrow> 'a option" where
  "or_else a b = (case a of Some x \<Rightarrow> Some x | None \<Rightarrow> b)"

definition unwrap_or :: "'a \<Rightarrow> 'a option \<Rightarrow> 'a" where
  "unwrap_or d a = (case a of Some x \<Rightarrow> x | None \<Rightarrow> d)"

definition clamp :: "nat \<Rightarrow> nat \<Rightarrow> nat \<Rightarrow> nat" where
  "clamp lo hi n = max lo (min n hi)"

definition by_channel :: "string \<Rightarrow> string \<Rightarrow> string" where
  "by_channel ch field = ''/queue/byChannel/'' @ ch @ ''/'' @ field"

text \<open>The argument is the \<^verbatim>\<open>messages\<close> section of the configuration, if there is one.\<close>

definition resolve_queue_runtime_settings :: "json option \<Rightarrow> string \<Rightarrow> queue_runtime_settings" where
  "resolve_queue_runtime_settings messages ch =
     (case messages of
        None \<Rightarrow> default_queue_settings
      | Some m \<Rightarrow>
          \<lparr>qs_mode = queue_mode_from_str (unwrap_or ''followup''
             (or_else (or_else (pointer_str m (by_channel ch ''mode'')) (pointer_str m (''/queue/byChannel/'' @ ch)))
                (pointer_str m ''/queue/mode''))),
           qs_collect_window_ms = clamp 1 60000 (unwrap_or 2000
             (or_else (or_else (pointer_u64 m (by_channel ch ''collectWindowMs'')) (pointer_u64 m (''/queue/collectWindowMsByChannel/'' @ ch)))
                (pointer_u64 m ''/queue/collectWindowMs''))),
           qs_debounce_ms = clamp 0 60000 (unwrap_or 0
             (or_else (or_else (pointer_u64 m (by_channel ch ''debounceMs'')) (pointer_u64 m (''/queue/debounceMsByChannel/'' @ ch)))
                (pointer_u64 m ''/queue/debounceMs''))),
           qs_cap = (case or_else (or_else (pointer_u64 m (by_channel ch ''cap'')) (pointer_u64 m (''/queue/capByChannel/'' @ ch)))
                       (pointer_u64 m ''/queue/cap'') of
                       Some v \<Rightarrow> if 0 < v then v else usize_max
                     | None \<Rightarrow> usize_max),
           qs_drop_policy = queue_drop_policy_from_str (unwrap_or ''summarize''
             (or_else (or_else (pointer_str m (by_channel ch ''dropPolicy'')) (pointer_str m (''/queue/dropPolicyByChannel/'' @ ch)))
                (pointer_str m ''/queue/dropPolicy'')))\<rparr>)"

definition apply_settings :: "queue_runtime_settings \<Rightarrow> message_queue \<Rightarrow> message_queue" where
  "apply_settings cfg q =
     set_drop_policy (qs_drop_policy cfg) (set_cap (qs_cap cfg) (set_debounce_ms (qs_debounce_ms cfg)
       (set_collect_window_ms (qs_collect_window_ms cfg) (set_mode (qs_mode cfg) q))))"


section \<open>Contexts and prompts\<close>

type_synonym metadata = "(string, string) hash_map"

definition metadata_pick_non_empty :: "metadata \<Rightarrow> string list \<Rightarrow> string option" where
  "metadata_pick_non_empty meta keys =
     (case List.map_filter (hm_get meta) keys of
        [] \<Rightarrow> None
      | raw # _ \<Rightarrow> if trim raw = [] then None else Some (trim raw))"

definition meta_flag :: "metadata \<Rightarrow> string \<Rightarrow> bool" where
  "meta_flag meta key = (hm_get meta key = Some ''true'')"

definition build_finalized_context :: "nat \<Rightarrow> string \<Rightarrow> string \<Rightarrow> string \<Rightarrow> string \<Rightarrow> metadata \<Rightarrow> finalized_msg_context" where
  "build_finalized_context now channel chat_id body session_id meta =
     finalize_inbound_context
       \<lparr>mc_body = body, mc_raw_body = Some body, mc_from = unwrap_or chat_id (hm_get meta ''user_id''),
        mc_from_name = hm_get meta ''user_name'', mc_to = chat_id, mc_provider = channel, mc_surface = Some channel,
        mc_chat_type = (if meta_flag meta ''is_group'' then Group else Direct), mc_session_key = session_id,
        mc_message_id = hm_get meta ''message_id'', mc_thread_id = hm_get meta ''thread_id'',
        mc_was_mentioned = meta_flag meta ''was_mentioned'', mc_media_paths = [], mc_timestamp_ms = now,
        mc_raw = JObject (map (\<lambda>(k, v). (k, JString v)) meta)\<rparr>"

fun json_strings :: "(string \<times> json) list \<Rightarrow> metadata option" where
  "json_strings [] = Some []"
| "json_strings ((k, JString v) # kvs) = map_option (Cons (k, v)) (json_strings kvs)"
| "json_strings (_ # kvs) = None"

definition finalized_metadata :: "finalized_msg_context \<Rightarrow> metadata" where
  "finalized_metadata c =
     (case mc_raw (fc_ctx c) of JObject kvs \<Rightarrow> unwrap_or [] (json_strings kvs) | _ \<Rightarrow> [])"

definition blank_line :: string where "blank_line = [newline, newline]"

definition queued_block :: "nat \<Rightarrow> finalized_msg_context \<Rightarrow> string" where
  "queued_block i c = trim (''---'' @ [newline] @ ''Queued #'' @ show_nat (i + 1) @ [newline] @ trim (body_for_agent c))"

definition build_collect_prompt :: "finalized_msg_context list \<Rightarrow> string option \<Rightarrow> string" where
  "build_collect_prompt batch summary =
     join_with blank_line
       ([''[Queued messages while agent was busy]'']
        @ (case map_option trim summary of Some s \<Rightarrow> if s = [] then [] else [s] | None \<Rightarrow> [])
        @ map (\<lambda>(i, c). queued_block i c) (enumerate 0 batch))"

definition build_collect_context :: "finalized_msg_context list \<Rightarrow> string option \<Rightarrow> finalized_msg_context option" where
  "build_collect_context batch summary =
     (if batch = [] then None
      else let prompt = build_collect_prompt batch summary
           in Some ((last batch)\<lparr>body_for_agent := prompt, body_for_commands := prompt, command_authorized := False\<rparr>))"

definition prepend_summary_prompt :: "string \<Rightarrow> finalized_msg_context \<Rightarrow> finalized_msg_context" where
  "prepend_summary_prompt summary_prompt c =
     (let summary = trim summary_prompt; body = trim (body_for_agent c) in
      if summary = [] then c
      else if body = [] then c\<lparr>body_for_agent := summary\<rparr>
      else c\<lparr>body_for_agent := summary @ blank_line @ body\<rparr>)"

text \<open>\<^verbatim>\<open>splitn(2, char::is_whitespace)\<close>: the text before the first white space and the text after it.\<close>

definition after_ws :: "string \<Rightarrow> string" where
  "after_ws s = drop (ws_len (from_ws s)) (from_ws s)"

definition parse_skill_invocation :: "string \<Rightarrow> (string \<times> string) option" where
  "parse_skill_invocation s =
     (let trimmed = trim s in
      if \<not> starts_with trimmed ''/'' then None
      else let body = trim (dropWhile (\<lambda>c. c = CHR ''/'') trimmed) in
        if body = [] then None
        else let head = trim (until_ws body); tail = trim (after_ws body) in
          if to_lowercase head = ''skill'' then
            (if tail = [] then Some ([], [])
             else Some (trim (until_ws tail), trim (after_ws tail)))
          else Some (head, tail))"

text \<open>The agent of a turn.\<close>

definition split_roles :: "string \<Rightarrow> string list" where
  "split_roles r = filter (\<lambda>s. s \<noteq> []) (map trim (split_on (CHR '','') r))"

definition turn_message_context :: "string \<Rightarrow> string \<Rightarrow> metadata \<Rightarrow> message_context" where
  "turn_message_context channel chat_id meta =
     \<lparr>mx_channel = channel, mx_peer_id = unwrap_or chat_id (hm_get meta ''user_id''), mx_guild_id = hm_get meta ''guild_id'',
      mx_team_id = hm_get meta ''team_id'', mx_account_id = hm_get meta ''account_id'',
      mx_role_ids = unwrap_or [] (map_option split_roles (hm_get meta ''role_ids''))\<rparr>"

definition turn_agent_id :: "agent_binding list option \<Rightarrow> string \<Rightarrow> string \<Rightarrow> metadata \<Rightarrow> string" where
  "turn_agent_id bindings channel chat_id meta =
     unwrap_or ''channel-agent''
       (Option.bind bindings (\<lambda>bs. resolve_agent_for_message bs (turn_message_context channel chat_id meta)))"

definition turn_source_to :: "string \<Rightarrow> metadata \<Rightarrow> string option" where
  "turn_source_to chat_id meta =
     or_else (metadata_pick_non_empty meta [''chat_id'', ''to'', ''target'', ''recipient''])
       (if trim chat_id = [] then None else Some (trim chat_id))"


section \<open>Processing messages\<close>

text \<open>
  The worker that holds the run lock is at one of the points between two acquisitions of the queue's lock.  A turn is
  paired with the messages it answers.
\<close>

datatype phase =
    Start "finalized_msg_context list"
  | Turns "(finalized_msg_context \<times> finalized_msg_context list) list"
  | CollectWait
  | CollectTake
  | NextWait
  | NextTake

record pipeline_state =
  ps_queue :: message_queue
  ps_waiting :: "finalized_msg_context list list"
  ps_holder :: "(phase \<times> string option) option"
  ps_returned :: "(string, string) result list"
  ps_arrived :: "finalized_msg_context list"
  ps_handled :: "finalized_msg_context list"
  ps_lost :: "finalized_msg_context list"

datatype pipe_event =
    Arrive nat finalized_msg_context
  | Acquire
  | Begin
  | TurnOk string
  | TurnErr string
  | EndBatch
  | Debounced nat
  | Take

fun seq_turns :: "finalized_msg_context list \<Rightarrow> string option \<Rightarrow> (finalized_msg_context \<times> finalized_msg_context list) list" where
  "seq_turns (c # cs) (Some summary) = (prepend_summary_prompt summary c, [c]) # map (\<lambda>d. (d, [d])) cs"
| "seq_turns cs _ = map (\<lambda>d. (d, [d])) cs"

definition plan_turns ::
  "queue_mode \<Rightarrow> finalized_msg_context list \<Rightarrow> string option \<Rightarrow> (finalized_msg_context \<times> finalized_msg_context list) list" where
  "plan_turns mode batch summary =
     (if mode = Collect \<and> (1 < length batch \<or> summary \<noteq> None)
      then (case build_collect_context batch summary of Some c \<Rightarrow> [(c, batch)] | None \<Rightarrow> seq_turns batch summary)
      else seq_turns batch summary)"

definition arrive :: "queue_runtime_settings \<Rightarrow> nat \<Rightarrow> finalized_msg_context \<Rightarrow> pipeline_state \<Rightarrow> pipeline_state" where
  "arrive cfg now c s =
     (let (action, q) = enqueue now c (apply_settings cfg (ps_queue s));
          s1 = s\<lparr>ps_queue := q, ps_arrived := ps_arrived s @ [c]\<rparr>
      in case action of
           RunNow m \<Rightarrow> s1\<lparr>ps_waiting := ps_waiting s @ [[m]]\<rparr>
         | Interrupted m \<Rightarrow> s1\<lparr>ps_waiting := ps_waiting s @ [[m]]\<rparr>
         | Collected batch \<Rightarrow> s1\<lparr>ps_waiting := ps_waiting s @ [batch]\<rparr>
         | Queued \<Rightarrow> s1\<lparr>ps_returned := ps_returned s @ [Inr ''queued'']\<rparr>)"

definition debounce_passed :: "nat \<Rightarrow> message_queue \<Rightarrow> bool" where
  "debounce_passed now q =
     (mq_debounce_ms q = 0 \<or> mq_pending q = [] \<or> sat_add u64_max (mq_last_enqueued_at_ms q) (mq_debounce_ms q) \<le> now)"

text \<open>The worker goes on with the batch it took, or returns its first reply.\<close>

definition continue_with ::
  "string option \<Rightarrow> finalized_msg_context list option \<Rightarrow> pipeline_state \<Rightarrow> pipeline_state" where
  "continue_with r next_batch s =
     (case next_batch of
        Some batch \<Rightarrow> s\<lparr>ps_holder := Some (Start batch, r)\<rparr>
      | None \<Rightarrow> s\<lparr>ps_holder := None, ps_returned := ps_returned s @ [Inr (unwrap_or ''queued'' r)]\<rparr>)"

definition end_batch :: "message_queue \<Rightarrow> phase \<times> message_queue" where
  "end_batch q =
     (if mq_mode q = Collect \<and> mq_pending q \<noteq> [] then (CollectWait, mark_run_complete q)
      else if mq_pending q \<noteq> [] then (NextWait, q) else (NextTake, q))"

fun holder_step :: "queue_runtime_settings \<Rightarrow> pipe_event \<Rightarrow> phase \<Rightarrow> string option \<Rightarrow> pipeline_state \<Rightarrow> pipeline_state option" where
  "holder_step cfg Begin (Start batch) r s =
     (let (summary, q) = take_summary_prompt ''message'' (ps_queue s)
      in Some (s\<lparr>ps_queue := q, ps_holder := Some (Turns (plan_turns (qs_mode cfg) batch summary), r)\<rparr>))"
| "holder_step cfg (TurnOk reply) (Turns ((c, src) # ts)) r s =
     Some (s\<lparr>ps_holder := Some (Turns ts, or_else r (Some reply)), ps_handled := ps_handled s @ src\<rparr>)"
| "holder_step cfg (TurnErr e) (Turns (t # ts)) r s =
     Some (s\<lparr>ps_holder := None, ps_returned := ps_returned s @ [Inl e], ps_lost := ps_lost s @ concat (map snd (t # ts))\<rparr>)"
| "holder_step cfg EndBatch (Turns []) r s =
     (let (ph, q) = end_batch (ps_queue s) in Some (s\<lparr>ps_queue := q, ps_holder := Some (ph, r)\<rparr>))"
| "holder_step cfg (Debounced now) CollectWait r s =
     (if debounce_passed now (ps_queue s) then Some (s\<lparr>ps_holder := Some (CollectTake, r)\<rparr>) else None)"
| "holder_step cfg (Debounced now) NextWait r s =
     (if debounce_passed now (ps_queue s) then Some (s\<lparr>ps_holder := Some (NextTake, r)\<rparr>) else None)"
| "holder_step cfg Take CollectTake r s =
     (let (b, q) = take_collect_batch (ps_queue s) in Some (continue_with r b (s\<lparr>ps_queue := q\<rparr>)))"
| "holder_step cfg Take NextTake r s =
     (let (n, q) = complete_and_take_next (ps_queue s) in Some (continue_with r (map_option (\<lambda>c. [c]) n) (s\<lparr>ps_queue := q\<rparr>)))"
| "holder_step _ _ _ _ _ = None"

definition pipe_exec :: "queue_runtime_settings \<Rightarrow> pipe_event \<Rightarrow> pipeline_state \<Rightarrow> pipeline_state option" where
  "pipe_exec cfg e s =
     (case e of
        Arrive now c \<Rightarrow> Some (arrive cfg now c s)
      | Acquire \<Rightarrow>
          (case (ps_holder s, ps_waiting s) of
             (None, b # bs) \<Rightarrow> Some (s\<lparr>ps_waiting := bs, ps_holder := Some (Start b, None)\<rparr>)
           | _ \<Rightarrow> None)
      | _ \<Rightarrow> (case ps_holder s of Some (ph, r) \<Rightarrow> holder_step cfg e ph r s | None \<Rightarrow> None))"

definition pipe_init :: "queue_runtime_settings \<Rightarrow> pipeline_state" where
  "pipe_init cfg =
     \<lparr>ps_queue = queue_new (qs_mode cfg), ps_waiting = [], ps_holder = None, ps_returned = [], ps_arrived = [],
      ps_handled = [], ps_lost = []\<rparr>"

definition pipe_step :: "queue_runtime_settings \<Rightarrow> pipeline_state \<Rightarrow> pipeline_state \<Rightarrow> bool" where
  "pipe_step cfg s t = (\<exists>e. pipe_exec cfg e s = Some t)"

fun pipe_run :: "queue_runtime_settings \<Rightarrow> pipe_event list \<Rightarrow> pipeline_state \<Rightarrow> pipeline_state option" where
  "pipe_run cfg [] s = Some s"
| "pipe_run cfg (e # es) s = Option.bind (pipe_exec cfg e s) (pipe_run cfg es)"



section \<open>Lemmas\<close>

lemma apply_settings_simps [simp]:
  "mq_pending (apply_settings cfg q) = mq_pending q" "mq_has_active_run (apply_settings cfg q) = mq_has_active_run q"
  "mq_dropped_count (apply_settings cfg q) = mq_dropped_count q" "mq_mode (apply_settings cfg q) = qs_mode cfg"
  "mq_cap (apply_settings cfg q) = max (qs_cap cfg) 1"
  by (simp_all add: apply_settings_def set_drop_policy_def set_cap_def set_debounce_ms_def set_collect_window_ms_def set_mode_def)

lemma push_pending_uncapped_count:
  "mq_cap q = usize_max \<Longrightarrow> mq_dropped_count (snd (push_pending now c q)) = mq_dropped_count q"
  by (simp add: push_pending_def Let_def)

lemma take_summary_prompt_none: "mq_dropped_count q = 0 \<Longrightarrow> take_summary_prompt noun q = (None, q)"
  by (simp add: take_summary_prompt_def)

lemma seq_turns_sources: "map snd (seq_turns batch summary) = map (\<lambda>c. [c]) batch"
  by (cases "(batch, summary)" rule: seq_turns.cases) (auto simp: comp_def)

lemma plan_turns_sources: "concat (map snd (plan_turns mode batch summary)) = batch"
  by (auto simp: plan_turns_def seq_turns_sources build_collect_context_def Let_def split: option.splits)

lemma plan_turns_nonempty:
  assumes "batch \<noteq> []"
  shows "[] \<notin> set (map snd (plan_turns mode batch summary))"
proof -
  have "[] \<notin> set (map snd (seq_turns batch summary))"
    unfolding seq_turns_sources by auto
  with assms show ?thesis
    by (auto simp: plan_turns_def build_collect_context_def Let_def)
qed

fun phase_msgs :: "phase \<Rightarrow> finalized_msg_context list" where
  "phase_msgs (Start batch) = batch"
| "phase_msgs (Turns ts) = concat (map snd ts)"
| "phase_msgs _ = []"

definition holder_msgs :: "pipeline_state \<Rightarrow> finalized_msg_context list" where
  "holder_msgs s = (case ps_holder s of Some (ph, _) \<Rightarrow> phase_msgs ph | None \<Rightarrow> [])"

lemma pipe_execE [consumes 1, case_names Arrive Acquire Begin TurnOk TurnErr EndBatch Debounced CollectTake NextTake]:
  assumes "pipe_exec cfg e s = Some t"
  obtains (Arrive) now c where "e = Arrive now c" "t = arrive cfg now c s"
  | (Acquire) b bs where "e = Acquire" "ps_holder s = None" "ps_waiting s = b # bs"
      "t = s\<lparr>ps_waiting := bs, ps_holder := Some (Start b, None)\<rparr>"
  | (Begin) batch r summary q where "e = Begin" "ps_holder s = Some (Start batch, r)"
      "take_summary_prompt ''message'' (ps_queue s) = (summary, q)"
      "t = s\<lparr>ps_queue := q, ps_holder := Some (Turns (plan_turns (qs_mode cfg) batch summary), r)\<rparr>"
  | (TurnOk) reply c src ts r where "e = TurnOk reply" "ps_holder s = Some (Turns ((c, src) # ts), r)"
      "t = s\<lparr>ps_holder := Some (Turns ts, or_else r (Some reply)), ps_handled := ps_handled s @ src\<rparr>"
  | (TurnErr) err u ts r where "e = TurnErr err" "ps_holder s = Some (Turns (u # ts), r)"
      "t = s\<lparr>ps_holder := None, ps_returned := ps_returned s @ [Inl err], ps_lost := ps_lost s @ concat (map snd (u # ts))\<rparr>"
  | (EndBatch) r ph q where "e = EndBatch" "ps_holder s = Some (Turns [], r)" "end_batch (ps_queue s) = (ph, q)"
      "t = s\<lparr>ps_queue := q, ps_holder := Some (ph, r)\<rparr>"
  | (Debounced) now ph ph' r where "e = Debounced now" "ps_holder s = Some (ph, r)"
      "(ph, ph') \<in> {(CollectWait, CollectTake), (NextWait, NextTake)}"
      "t = s\<lparr>ps_holder := Some (ph', r)\<rparr>"
  | (CollectTake) r b q where "e = Take" "ps_holder s = Some (CollectTake, r)" "take_collect_batch (ps_queue s) = (b, q)"
      "t = continue_with r b (s\<lparr>ps_queue := q\<rparr>)"
  | (NextTake) r n q where "e = Take" "ps_holder s = Some (NextTake, r)" "complete_and_take_next (ps_queue s) = (n, q)"
      "t = continue_with r (map_option (\<lambda>c. [c]) n) (s\<lparr>ps_queue := q\<rparr>)"
proof (cases "ps_holder s")
  case None
  then show ?thesis
    using assms that(1,2) by (auto simp: pipe_exec_def split: pipe_event.splits list.splits)
next
  case (Some h)
  obtain ph r where h: "h = (ph, r)" by (cases h)
  show ?thesis
  proof (cases "(\<exists>now c. e = pipe_event.Arrive now c) \<or> e = pipe_event.Acquire")
    case True
    then show ?thesis using assms that(1) Some h by (auto simp: pipe_exec_def)
  next
    case False
    then have "holder_step cfg e ph r s = Some t"
      using assms Some h by (cases e) (auto simp: pipe_exec_def)
    note step = this and hs = Some h that
    show ?thesis
    proof (cases e)
      case Begin
      with step obtain batch where "ph = Start batch" by (cases ph) auto
      with Begin step hs(1,2,5) show ?thesis by (simp split: prod.splits)
    next
      case (TurnOk reply)
      with step obtain c src ts where "ph = Turns ((c, src) # ts)"
        by (cases "(cfg, e, ph, r, s)" rule: holder_step.cases) auto
      with TurnOk step hs(1,2,6) show ?thesis by simp
    next
      case (TurnErr err)
      with step obtain u ts where "ph = Turns (u # ts)"
        by (cases "(cfg, e, ph, r, s)" rule: holder_step.cases) auto
      with TurnErr step hs(1,2,7) show ?thesis by simp
    next
      case EndBatch
      with step have "ph = Turns []"
        by (cases "(cfg, e, ph, r, s)" rule: holder_step.cases) auto
      with EndBatch step hs(1,2,8) show ?thesis by (simp split: prod.splits)
    next
      case (Debounced now)
      with step consider "ph = CollectWait" | "ph = NextWait" by (cases ph) auto
      then show ?thesis using Debounced step hs(1,2) hs(9) [of now ph r] by cases (auto split: if_splits)
    next
      case Take
      with step consider "ph = CollectTake" | "ph = NextTake" by (cases ph) auto
      then show ?thesis using Take step hs(1,2,10,11) by cases (simp_all split: prod.splits)
    qed (use False in auto)
  qed
qed

text \<open>What the take operations and the end of a batch do to the pending messages.\<close>

lemma take_collect_batch_simps:
  assumes "take_collect_batch q = (b, q')"
  shows "b = (if mq_pending q = [] then None else Some (mq_pending q))" "mq_pending q' = []"
    "mq_has_active_run q' = (mq_pending q \<noteq> [])" "mq_cap q' = mq_cap q" "mq_mode q' = mq_mode q"
    "mq_dropped_count q' = mq_dropped_count q"
  using assms by (auto simp: take_collect_batch_def split: if_splits)

lemma complete_and_take_next_simps:
  assumes "complete_and_take_next q = (n, q')"
  shows "mq_pending q = (case n of Some c \<Rightarrow> c # mq_pending q' | None \<Rightarrow> [])" "n = None \<Longrightarrow> mq_pending q' = []"
    "mq_has_active_run q' = (n \<noteq> None)" "mq_cap q' = mq_cap q" "mq_mode q' = mq_mode q"
    "mq_dropped_count q' = mq_dropped_count q"
  using assms by (auto simp: complete_and_take_next_def split: list.splits)

lemma end_batch_simps:
  assumes "end_batch q = (ph, q')"
  shows "ph \<in> {CollectWait, NextWait, NextTake}" "phase_msgs ph = []" "mq_pending q' = mq_pending q" "mq_cap q' = mq_cap q"
    "mq_mode q' = mq_mode q" "mq_dropped_count q' = mq_dropped_count q"
    "mq_mode q \<noteq> Collect \<Longrightarrow> q' = q \<and> ph \<in> {NextWait, NextTake}"
  using assms by (auto simp: end_batch_def mark_run_complete_def split: if_splits)

lemma continue_with_simps [simp]:
  "ps_queue (continue_with r b s) = ps_queue s" "ps_waiting (continue_with r b s) = ps_waiting s"
  "ps_arrived (continue_with r b s) = ps_arrived s" "ps_handled (continue_with r b s) = ps_handled s"
  "ps_lost (continue_with r b s) = ps_lost s"
  "ps_holder (continue_with r b s) = map_option (\<lambda>batch. (Start batch, r)) b"
  "holder_msgs (continue_with r b s) = (case b of Some batch \<Rightarrow> batch | None \<Rightarrow> [])"
  by (auto simp: continue_with_def holder_msgs_def split: option.split)

text \<open>An uncapped queue never drops a message, so there is never a summary.\<close>

definition uncapped :: "queue_runtime_settings \<Rightarrow> pipeline_state \<Rightarrow> bool" where
  "uncapped cfg s =
     (mq_cap (ps_queue s) = usize_max \<and> mq_dropped_count (ps_queue s) = 0 \<and> mq_mode (ps_queue s) = qs_mode cfg
      \<and> (qs_mode cfg = Interrupt \<longrightarrow> mq_pending (ps_queue s) = []))"

lemma arrive_cases:
  assumes "qs_cap cfg = usize_max"
  shows "(mq_has_active_run (ps_queue s) \<and> qs_mode cfg \<noteq> Interrupt
        \<and> mq_pending (ps_queue (arrive cfg now c s)) = mq_pending (ps_queue s) @ [c] \<and> ps_waiting (arrive cfg now c s) = ps_waiting s
      \<or> \<not> mq_has_active_run (ps_queue s)
        \<and> mq_pending (ps_queue (arrive cfg now c s)) = mq_pending (ps_queue s) \<and> ps_waiting (arrive cfg now c s) = ps_waiting s @ [[c]]
      \<or> mq_has_active_run (ps_queue s) \<and> qs_mode cfg = Interrupt
        \<and> mq_pending (ps_queue (arrive cfg now c s)) = [] \<and> ps_waiting (arrive cfg now c s) = ps_waiting s @ [[c]])"
proof -
  have "max (qs_cap cfg) 1 = usize_max" using assms by simp
  then show ?thesis
    using push_pending_uncapped [of "apply_settings cfg (ps_queue s)" now c]
    by (cases "qs_mode cfg") (auto simp: arrive_def enqueue_def)
qed

lemma arrive_simps [simp]:
  "ps_arrived (arrive cfg now c s) = ps_arrived s @ [c]" "ps_handled (arrive cfg now c s) = ps_handled s"
  "ps_lost (arrive cfg now c s) = ps_lost s" "ps_holder (arrive cfg now c s) = ps_holder s"
  "mq_mode (ps_queue (arrive cfg now c s)) = qs_mode cfg" "mq_cap (ps_queue (arrive cfg now c s)) = max (qs_cap cfg) 1"
  "mq_has_active_run (ps_queue (arrive cfg now c s))" "holder_msgs (arrive cfg now c s) = holder_msgs s"
  by (auto simp: arrive_def enqueue_def holder_msgs_def split: queue_mode.split)

lemma arrive_count:
  "qs_cap cfg = usize_max \<Longrightarrow> mq_dropped_count (ps_queue (arrive cfg now c s)) = mq_dropped_count (ps_queue s)"
  by (auto simp: arrive_def enqueue_def push_pending_uncapped_count split: queue_mode.split)

lemma uncapped_step:
  assumes "qs_cap cfg = usize_max" and "uncapped cfg s" and "pipe_exec cfg e s = Some t"
  shows "uncapped cfg t"
  using assms(3)
proof (cases rule: pipe_execE)
  case (Arrive now c)
  then show ?thesis
    using assms(1,2) arrive_cases [OF assms(1), of s now c] by (auto simp: uncapped_def arrive_count)
next
  case (Begin batch r summary q)
  then show ?thesis using assms(2) by (auto simp: uncapped_def take_summary_prompt_none)
next
  case (EndBatch r ph q)
  then show ?thesis using assms(2) end_batch_simps [of "ps_queue s" ph q] by (auto simp: uncapped_def)
next
  case (CollectTake r b q)
  then show ?thesis using assms(2) take_collect_batch_simps [of "ps_queue s" b q] by (auto simp: uncapped_def)
next
  case (NextTake r n q)
  then show ?thesis
    using assms(2) complete_and_take_next_simps [of "ps_queue s" n q] by (auto simp: uncapped_def split: option.splits)
qed (use assms(2) in \<open>auto simp: uncapped_def\<close>)

text \<open>Accounting: every message that arrived is in exactly one place.\<close>

definition accounted :: "pipeline_state \<Rightarrow> bool" where
  "accounted s =
     (mset (ps_handled s) + mset (ps_lost s) + mset (holder_msgs s) + mset (concat (ps_waiting s)) + mset (mq_pending (ps_queue s))
      = mset (ps_arrived s))"

lemma accounted_step:
  assumes "qs_cap cfg = usize_max" and "uncapped cfg s" and "accounted s" and "pipe_exec cfg e s = Some t"
  shows "accounted t"
  using assms(4)
proof (cases rule: pipe_execE)
  case (Arrive now c)
  then show ?thesis
    using assms(2,3) arrive_cases [OF assms(1), of s now c] by (auto simp: accounted_def uncapped_def)
next
  case (Begin batch r summary q)
  then show ?thesis
    using assms(2,3) by (auto simp: accounted_def uncapped_def take_summary_prompt_none holder_msgs_def plan_turns_sources)
next
  case (EndBatch r ph q)
  then show ?thesis using assms(3) end_batch_simps [of "ps_queue s" ph q] by (auto simp: accounted_def holder_msgs_def)
next
  case (CollectTake r b q)
  then show ?thesis
    using assms(3) take_collect_batch_simps [of "ps_queue s" b q]
    by (auto simp: accounted_def holder_msgs_def [of s] ac_simps split: if_splits)
next
  case (NextTake r n q)
  then show ?thesis
    using assms(3) complete_and_take_next_simps [of "ps_queue s" n q]
    by (auto simp: accounted_def holder_msgs_def [of s] ac_simps split: option.splits)
qed (use assms(3) in \<open>auto simp: accounted_def holder_msgs_def ac_simps\<close>)

definition pipe_inv :: "queue_runtime_settings \<Rightarrow> pipeline_state \<Rightarrow> bool" where
  "pipe_inv cfg s = (qs_cap cfg = usize_max \<longrightarrow> uncapped cfg s \<and> accounted s)"

interpretation pipe: invariant_system "\<lambda>s. s = pipe_init cfg" "pipe_step cfg" "pipe_inv cfg" for cfg
proof unfold_locales
  show "pipe_inv cfg s" if "s = pipe_init cfg" for s
    using that by (simp add: pipe_inv_def uncapped_def accounted_def pipe_init_def queue_new_def holder_msgs_def)
  show "pipe_inv cfg t" if "pipe_inv cfg s" and "pipe_step cfg s t" for s t
    using that uncapped_step accounted_step unfolding pipe_inv_def pipe_step_def by blast
qed

text \<open>In the modes that only queue, there is at most one worker, and messages move through it in order.\<close>

definition queueing :: "queue_runtime_settings \<Rightarrow> bool" where
  "queueing cfg = (qs_cap cfg = usize_max \<and> qs_mode cfg \<notin> {Interrupt, Collect})"

fun phase_ok :: "phase \<Rightarrow> bool" where
  "phase_ok (Start batch) = (batch \<noteq> [])"
| "phase_ok (Turns ts) = ([] \<notin> set (map snd ts))"
| "phase_ok CollectWait = False"
| "phase_ok CollectTake = False"
| "phase_ok _ = True"

definition worker_ok :: "pipeline_state \<Rightarrow> bool" where
  "worker_ok s =
     (let act = mq_has_active_run (ps_queue s) in
      case (ps_holder s, ps_waiting s) of
        (Some (ph, _), []) \<Rightarrow> act \<and> ps_lost s = [] \<and> phase_ok ph
      | (None, [b]) \<Rightarrow> act \<and> ps_lost s = [] \<and> b \<noteq> []
      | (None, []) \<Rightarrow> if act then ps_lost s \<noteq> [] else ps_lost s = [] \<and> mq_pending (ps_queue s) = []
      | _ \<Rightarrow> False)"

definition in_order :: "pipeline_state \<Rightarrow> bool" where
  "in_order s =
     (ps_handled s @ ps_lost s @ holder_msgs s @ concat (ps_waiting s) @ mq_pending (ps_queue s) = ps_arrived s)"

lemma worker_ok_holder:
  "worker_ok s \<Longrightarrow> ps_holder s = Some (ph, r) \<Longrightarrow>
     ps_waiting s = [] \<and> mq_has_active_run (ps_queue s) \<and> ps_lost s = [] \<and> phase_ok ph"
  by (auto simp: worker_ok_def split: list.splits)

lemma fifo_step:
  assumes "queueing cfg" and "uncapped cfg s" and "worker_ok s" and "in_order s" and "pipe_exec cfg e s = Some t"
  shows "worker_ok t \<and> in_order t"
  using assms(5)
proof (cases rule: pipe_execE)
  case (Arrive now c)
  have "qs_cap cfg = usize_max" using assms(1) by (simp add: queueing_def)
  from arrive_cases [OF this, of s now c] show ?thesis
    using assms(1,3,4) Arrive
    by (auto simp: worker_ok_def in_order_def queueing_def holder_msgs_def Let_def split: list.splits option.splits prod.splits if_splits)
next
  case (Acquire b bs)
  then show ?thesis
    using assms(3,4) by (auto simp: worker_ok_def in_order_def holder_msgs_def split: list.splits)
next
  case (Begin batch r summary q)
  then show ?thesis
    using assms(2,4) worker_ok_holder [OF assms(3) Begin(2)] plan_turns_nonempty [of batch "qs_mode cfg" summary]
    by (auto simp: worker_ok_def in_order_def holder_msgs_def uncapped_def take_summary_prompt_none plan_turns_sources)
next
  case (EndBatch r ph q)
  have "mq_mode (ps_queue s) \<noteq> Collect" using assms(1,2) by (auto simp: queueing_def uncapped_def)
  then show ?thesis
    using EndBatch assms(4) worker_ok_holder [OF assms(3) EndBatch(2)] end_batch_simps [OF EndBatch(3)]
    by (auto simp: worker_ok_def in_order_def holder_msgs_def)
next
  case (NextTake r n q)
  then show ?thesis
    using assms(4) worker_ok_holder [OF assms(3) NextTake(2)] complete_and_take_next_simps [OF NextTake(3)]
    by (cases n) (auto simp: worker_ok_def in_order_def holder_msgs_def [of s])
next
  case (TurnOk reply c src ts r)
  then show ?thesis
    using assms(4) worker_ok_holder [OF assms(3) TurnOk(2)] by (auto simp: worker_ok_def in_order_def holder_msgs_def)
next
  case (TurnErr err u ts r)
  then show ?thesis
    using assms(4) worker_ok_holder [OF assms(3) TurnErr(2)] by (cases u) (auto simp: worker_ok_def in_order_def holder_msgs_def)
next
  case (Debounced now ph ph' r)
  then show ?thesis
    using assms(4) worker_ok_holder [OF assms(3) Debounced(2)] by (auto simp: worker_ok_def in_order_def holder_msgs_def)
next
  case (CollectTake r b q)
  then show ?thesis using worker_ok_holder [OF assms(3) CollectTake(2)] by simp
qed

definition fifo_inv :: "queue_runtime_settings \<Rightarrow> pipeline_state \<Rightarrow> bool" where
  "fifo_inv cfg s = (queueing cfg \<longrightarrow> uncapped cfg s \<and> worker_ok s \<and> in_order s)"

interpretation fifo: invariant_system "\<lambda>s. s = pipe_init cfg" "pipe_step cfg" "fifo_inv cfg" for cfg
proof unfold_locales
  show "fifo_inv cfg s" if "s = pipe_init cfg" for s
    using that
    by (simp add: fifo_inv_def uncapped_def worker_ok_def in_order_def queueing_def pipe_init_def queue_new_def holder_msgs_def)
  show "fifo_inv cfg t" if inv: "fifo_inv cfg s" and st: "pipe_step cfg s t" for s t
  proof -
    obtain e where e: "pipe_exec cfg e s = Some t" using st by (auto simp: pipe_step_def)
    have "uncapped cfg t \<and> worker_ok t \<and> in_order t" if q: "queueing cfg"
    proof -
      have i: "uncapped cfg s" "worker_ok s" "in_order s" using inv q by (auto simp: fifo_inv_def)
      have "qs_cap cfg = usize_max" using q by (simp add: queueing_def)
      then show ?thesis using uncapped_step [OF _ i(1) e] fifo_step [OF q i e] by simp
    qed
    then show ?thesis by (simp add: fifo_inv_def)
  qed
qed

text \<open>Progress: a worker can always take a step, and its steps come to an end when nothing arrives.\<close>

fun phase_rank :: "phase \<Rightarrow> nat" where
  "phase_rank (Start _) = 5"
| "phase_rank (Turns _) = 4"
| "phase_rank NextWait = 3"
| "phase_rank NextTake = 2"
| "phase_rank _ = 0"

definition pipe_measure :: "pipeline_state \<Rightarrow> nat" where
  "pipe_measure s =
     10 * length (mq_pending (ps_queue s)) + length (holder_msgs s) + length (concat (ps_waiting s))
     + 6 * length (ps_waiting s) + (case ps_holder s of Some (ph, _) \<Rightarrow> phase_rank ph | None \<Rightarrow> 0)"

definition idle :: "pipeline_state \<Rightarrow> bool" where
  "idle s = (ps_holder s = None \<and> ps_waiting s = [])"

lemma worker_progress:
  assumes "queueing cfg" and "uncapped cfg s" and "worker_ok s" and "ps_lost s = []" and "\<not> idle s"
  shows "\<exists>t. pipe_step cfg s t \<and> ps_arrived t = ps_arrived s \<and> ps_lost t = [] \<and> pipe_measure t < pipe_measure s"
proof (cases "ps_holder s")
  case None
  then obtain b where "ps_waiting s = [b]"
    using assms(3,5) by (cases "ps_waiting s" rule: remdups_adj.cases) (auto simp: worker_ok_def idle_def)
  then have "pipe_exec cfg Acquire s = Some (s\<lparr>ps_waiting := [], ps_holder := Some (Start b, None)\<rparr>)"
    using None by (simp add: pipe_exec_def)
  then show ?thesis
    using None assms(4) \<open>ps_waiting s = [b]\<close> unfolding pipe_step_def
    by (intro exI [of _ "s\<lparr>ps_waiting := [], ps_holder := Some (Start b, None)\<rparr>"])
       (auto simp: pipe_measure_def holder_msgs_def)
next
  case (Some h)
  then obtain ph r where h: "ps_holder s = Some (ph, r)" by (cases h) auto
  note ok = worker_ok_holder [OF assms(3) h]
  have count: "mq_dropped_count (ps_queue s) = 0" and mode: "mq_mode (ps_queue s) \<noteq> Collect"
    using assms(1,2) by (auto simp: uncapped_def queueing_def)
  have step: ?thesis
    if "\<exists>t. pipe_exec cfg e s = Some t \<and> ps_arrived t = ps_arrived s \<and> ps_lost t = [] \<and> pipe_measure t < pipe_measure s" for e
    using that by (auto simp: pipe_step_def)
  show ?thesis
  proof (cases ph)
    case (Start batch)
    show ?thesis
      by (rule step [of Begin])
         (use h Start count assms(4) in \<open>auto simp: pipe_exec_def take_summary_prompt_none pipe_measure_def holder_msgs_def plan_turns_sources\<close>)
  next
    case (Turns ts)
    show ?thesis
    proof (cases ts)
      case Nil
      show ?thesis
        by (rule step [of EndBatch])
           (use h Turns Nil mode assms(4) in \<open>auto simp: pipe_exec_def end_batch_def pipe_measure_def holder_msgs_def\<close>)
    next
      case (Cons u us)
      obtain c src where u: "u = (c, src)" by (cases u)
      show ?thesis
        by (rule step [of "TurnOk []"])
           (use h Turns Cons u ok assms(4) in \<open>auto simp: pipe_exec_def pipe_measure_def holder_msgs_def\<close>)
    qed
  next
    case NextWait
    show ?thesis
      by (rule step [of "Debounced u64_max"])
         (use h NextWait assms(4) in \<open>auto simp: pipe_exec_def debounce_passed_def sat_add_def pipe_measure_def holder_msgs_def\<close>)
  next
    case NextTake
    obtain n q where q: "complete_and_take_next (ps_queue s) = (n, q)" by fastforce
    note take = complete_and_take_next_simps [OF q]
    show ?thesis
      by (rule step [of Take])
         (use h NextTake q take assms(4) ok in \<open>auto simp: pipe_exec_def pipe_measure_def holder_msgs_def [of s] split: option.splits\<close>)
  qed (use ok in auto)
qed

lemma worker_drains:
  assumes "queueing cfg" and "uncapped cfg s" and "worker_ok s" and "in_order s" and "ps_lost s = []"
  shows "\<exists>t. (pipe_step cfg)\<^sup>*\<^sup>* s t \<and> idle t \<and> ps_arrived t = ps_arrived s \<and> ps_handled t = ps_arrived s"
  using assms(2-)
proof (induction s rule: measure_induct_rule [of pipe_measure])
  case (less s)
  show ?case
  proof (cases "idle s")
    case True
    then have "ps_handled s = ps_arrived s"
      using less.prems by (auto simp: idle_def worker_ok_def in_order_def holder_msgs_def split: if_splits)
    then show ?thesis using True by blast
  next
    case False
    obtain u where u: "pipe_step cfg s u" "ps_arrived u = ps_arrived s" "ps_lost u = []" "pipe_measure u < pipe_measure s"
      using worker_progress [OF assms(1) less.prems(1,2,4) False] by blast
    have "fifo_inv cfg u"
      using fifo.inv_step [OF _ u(1)] less.prems by (simp add: fifo_inv_def)
    then have "uncapped cfg u" "worker_ok u" "in_order u" using assms(1) by (auto simp: fifo_inv_def)
    then obtain t where "(pipe_step cfg)\<^sup>*\<^sup>* u t" "idle t" "ps_arrived t = ps_arrived u" "ps_handled t = ps_arrived u"
      using less.IH [OF u(4)] u(3) by blast
    then show ?thesis using u(1,2) converse_rtranclp_into_rtranclp [of "pipe_step cfg" s u t] by auto
  qed
qed

text \<open>A session whose run never ended: the queue believes a run is active, and no worker is left.\<close>

definition wedged :: "queue_runtime_settings \<Rightarrow> pipeline_state \<Rightarrow> bool" where
  "wedged cfg s = (qs_mode cfg \<noteq> Interrupt \<and> idle s \<and> mq_has_active_run (ps_queue s))"

lemma arrive_active:
  assumes "mq_has_active_run (ps_queue s)" and "qs_mode cfg \<noteq> Interrupt"
  shows "ps_waiting (arrive cfg now c s) = ps_waiting s" "ps_returned (arrive cfg now c s) = ps_returned s @ [Inr ''queued'']"
  using assms by (auto simp: arrive_def enqueue_def split: queue_mode.split)

lemma wedged_step:
  assumes "wedged cfg s" and "pipe_exec cfg e s = Some t"
  shows "wedged cfg t \<and> ps_handled t = ps_handled s \<and> (\<exists>now c. t = arrive cfg now c s)"
  using assms(2)
proof (cases rule: pipe_execE)
  case (Arrive now c)
  then show ?thesis using assms(1) arrive_active [of s cfg now c] by (auto simp: wedged_def idle_def)
qed (use assms(1) in \<open>auto simp: wedged_def idle_def\<close>)


section \<open>Properties\<close>


lemma pipe_run_steps: "pipe_run cfg es s = Some t \<Longrightarrow> (pipe_step cfg)\<^sup>*\<^sup>* s t"
proof (induction es arbitrary: s)
  case (Cons e es)
  then obtain u where "pipe_exec cfg e s = Some u" "pipe_run cfg es u = Some t" by (auto simp: bind_eq_Some_conv)
  moreover from this have "pipe_step cfg s u" by (auto simp: pipe_step_def)
  ultimately show ?case
    using Cons.IH converse_rtranclp_into_rtranclp [of "pipe_step cfg" s u t] by simp
qed simp

definition collect_settings :: queue_runtime_settings where
  "collect_settings = default_queue_settings\<lparr>qs_mode := Collect\<rparr>"

abbreviation msg_a :: finalized_msg_context where "msg_a \<equiv> sample_ctx ''a''"
abbreviation msg_b :: finalized_msg_context where "msg_b \<equiv> sample_ctx ''b''"
abbreviation msg_c :: finalized_msg_context where "msg_c \<equiv> sample_ctx ''c''"
abbreviation msg_d :: finalized_msg_context where "msg_d \<equiv> sample_ctx ''d''"

definition window_run :: "pipe_event list" where
  "window_run =
     [Arrive 1 msg_a, Acquire, Begin, Arrive 2 msg_b, TurnOk ''ra'', EndBatch, Arrive 3 msg_c, Debounced 9, Take, Begin,
      Arrive 4 msg_d, TurnOk ''rb'', EndBatch, Debounced 9, Take, Begin, TurnOk ''rd'', EndBatch, Take, Acquire, Begin, TurnOk ''rc'', EndBatch, Take]"

lemmas pipe_eval = pipe_exec_def pipe_init_def arrive_def enqueue_def apply_settings_def default_queue_settings_def
  set_drop_policy_def set_cap_def set_debounce_ms_def set_collect_window_ms_def set_mode_def queue_new_def push_pending_def
  take_summary_prompt_def plan_turns_def end_batch_def mark_run_complete_def debounce_passed_def take_collect_batch_def
  complete_and_take_next_def continue_with_def or_else_def unwrap_or_def sat_add_def

text \<open>The collect window opens the session to a second worker, whose message is answered after one that came later.\<close>

theorem collect_window_reorders:
  "\<exists>s. (pipe_step collect_settings)\<^sup>*\<^sup>* (pipe_init collect_settings) s \<and> idle s
     \<and> ps_arrived s = [msg_a, msg_b, msg_c, msg_d] \<and> ps_handled s = [msg_a, msg_b, msg_d, msg_c]"
proof -
  obtain s where s: "pipe_run collect_settings window_run (pipe_init collect_settings) = Some s"
    "idle s" "ps_arrived s = [msg_a, msg_b, msg_c, msg_d]" "ps_handled s = [msg_a, msg_b, msg_d, msg_c]"
    by (simp add: window_run_def collect_settings_def pipe_eval idle_def)
  show ?thesis using s pipe_run_steps [OF s(1)] by blast
qed






text \<open>Configured settings are within their bounds whatever the configuration says.\<close>

theorem queue_settings_bounded:
  "1 \<le> qs_collect_window_ms (resolve_queue_runtime_settings m ch) \<and> qs_collect_window_ms (resolve_queue_runtime_settings m ch) \<le> 60000
   \<and> qs_debounce_ms (resolve_queue_runtime_settings m ch) \<le> 60000
   \<and> 1 \<le> qs_cap (resolve_queue_runtime_settings m ch)"
  by (auto simp: resolve_queue_runtime_settings_def default_queue_settings_def clamp_def split: option.split)

end
