(* ===== verification/Sliding_Window.thy ===== *)
theory Sliding_Window
  imports Prelude
begin

text \<open>
  The contract of a sliding-window limiter, which two components provide: the rate limit in front of the HTTP routes and the
  limit on new sessions.  A limiter keeps, for every key, the times of the requests it admitted; a request is admitted when fewer than
  \<open>limit\<close> of the remembered times are still within the window.  The client's theorem is that no window ever contains
  more than \<open>limit\<close> admitted requests of one key.
\<close>

text \<open>Running requests in order, with a log of what was admitted.\<close>

fun admit_run :: "('t \<Rightarrow> 'k \<Rightarrow> 's \<Rightarrow> bool \<times> 's) \<Rightarrow> ('t \<times> 'k) list \<Rightarrow> 's \<times> ('t \<times> 'k) list \<Rightarrow> 's \<times> ('t \<times> 'k) list" where
  "admit_run admit [] st = st"
| "admit_run admit ((now, k) # reqs) (s, adm) =
     (let (yes, s') = admit now k s in admit_run admit reqs (s', if yes then adm @ [(now, k)] else adm))"

definition times_of :: "'k \<Rightarrow> ('t \<times> 'k) list \<Rightarrow> 't list" where
  "times_of k adm = map fst (filter (\<lambda>(_, k'). k' = k) adm)"

lemma times_of_simps [simp]: "times_of k [] = []"
  "times_of k (adm @ [(t, k')]) = times_of k adm @ (if k' = k then [t] else [])"
  by (simp_all add: times_of_def)

locale sliding_window =
  fixes admit :: "'t::linorder \<Rightarrow> 'k \<Rightarrow> 's \<Rightarrow> bool \<times> 's"
    and view :: "'s \<Rightarrow> 'k \<Rightarrow> 't list"
    and keep :: "'t \<Rightarrow> 't \<Rightarrow> bool"
    and limited :: "'k \<Rightarrow> bool"
    and limit :: nat
    and ok :: "'s \<Rightarrow> bool"
  assumes admit_ok: "ok s \<Longrightarrow> ok (snd (admit now k s))"
    and admit_same: "ok s \<Longrightarrow> limited k \<Longrightarrow> sorted (view s k) \<Longrightarrow>
      fst (admit now k s) = (length (filter (keep now) (view s k)) < limit)
      \<and> view (snd (admit now k s)) k = filter (keep now) (view s k) @ (if fst (admit now k s) then [now] else [])"
    and admit_other: "ok s \<Longrightarrow> limited k' \<Longrightarrow> k' \<noteq> k \<Longrightarrow> view (snd (admit now k s)) k' = view s k'"
    and keep_antimono: "now \<le> now' \<Longrightarrow> keep now' u \<Longrightarrow> keep now u"
    and keep_self: "keep now now"
begin

definition in_window :: "'t \<Rightarrow> 't list \<Rightarrow> 't list" where
  "in_window t us = filter (\<lambda>u. keep t u \<and> u \<le> t) us"

definition window_inv :: "'t \<Rightarrow> 's \<Rightarrow> ('t \<times> 'k) list \<Rightarrow> bool" where
  "window_inv now s adm =
     (ok s \<and> (\<forall>k. limited k \<longrightarrow>
        sorted (times_of k adm) \<and> (\<forall>u \<in> set (times_of k adm). u \<le> now)
        \<and> (\<exists>c \<le> now. view s k = filter (keep c) (times_of k adm))
        \<and> (\<forall>t. length (in_window t (times_of k adm)) \<le> limit)))"

lemma window_inv_later: "window_inv now s adm \<Longrightarrow> now \<le> now' \<Longrightarrow> window_inv now' s adm"
  unfolding window_inv_def by (meson order_trans)

lemma refilter: "c \<le> now \<Longrightarrow> filter (keep now) (filter (keep c) us) = filter (keep now) us"
  by (induction us) (auto dest: keep_antimono)

lemma admit_within:
  assumes "length (filter (keep now) us) < limit" and "\<forall>t. length (in_window t us) \<le> limit"
  shows "length (in_window t (us @ [now])) \<le> limit"
proof (cases "now \<le> t")
  case True
  have "length (in_window t us) \<le> length (filter (keep now) us)"
    using True by (induction us) (auto simp: in_window_def dest: keep_antimono)
  then show ?thesis using assms(1) by (auto simp: in_window_def)
qed (use assms(2) in \<open>auto simp: in_window_def\<close>)

lemma window_inv_admit:
  assumes inv: "window_inv now s adm" and adm: "admit now k s = (yes, s')"
  shows "window_inv now s' (if yes then adm @ [(now, k)] else adm)"
proof -
  have s: "ok s" "ok s'" using inv admit_ok [of s now k] adm by (auto simp: window_inv_def)
  have "sorted us \<and> (\<forall>u \<in> set us. u \<le> now) \<and> (\<exists>c \<le> now. view s' k' = filter (keep c) us) \<and> (\<forall>t. length (in_window t us) \<le> limit)"
    if l: "limited k'" and us: "us = times_of k' (if yes then adm @ [(now, k)] else adm)" for k' us
  proof -
    let ?old = "times_of k' adm"
    obtain c where c: "c \<le> now" "view s k' = filter (keep c) ?old" and old: "sorted ?old" "\<forall>u \<in> set ?old. u \<le> now"
      and bound: "\<forall>t. length (in_window t ?old) \<le> limit"
      using inv l unfolding window_inv_def by blast
    show ?thesis
    proof (cases "k' = k")
      case False
      then have "us = ?old" "view s' k' = view s k'" using us admit_other [OF s(1) l False, of now] adm by auto
      then show ?thesis using c old bound by auto
    next
      case True
      have "sorted (view s k')" using old(1) c(2) by (simp add: sorted_filter [of id, simplified])
      from admit_same [OF s(1) l this, of now] True adm
      have v: "yes = (length (filter (keep now) (view s k')) < limit)"
        "view s' k' = filter (keep now) (view s k') @ (if yes then [now] else [])" by auto
      have f: "filter (keep now) (view s k') = filter (keep now) ?old" using c refilter by simp
      show ?thesis
      proof (cases yes)
        case y: True
        have new: "us = ?old @ [now]" using us y True by simp
        have "view s' k' = filter (keep now) us" using v(2) f y new keep_self by simp
        moreover have "length (in_window t us) \<le> limit" for t
          using admit_within [OF _ bound] v(1) f y new by simp
        ultimately show ?thesis using old new by (auto simp: sorted_append)
      next
        case False
        then have "us = ?old" "view s' k' = filter (keep now) ?old" using us v(2) f by auto
        then show ?thesis using old bound by auto
      qed
    qed
  qed
  then show ?thesis using s(2) unfolding window_inv_def by blast
qed

lemma window_inv_run:
  "window_inv now s adm \<Longrightarrow> sorted (now # map fst reqs) \<Longrightarrow>
   \<exists>now'. window_inv now' (fst (admit_run admit reqs (s, adm))) (snd (admit_run admit reqs (s, adm)))"
proof (induction reqs arbitrary: now s adm)
  case (Cons r reqs)
  obtain t k where r: "r = (t, k)" by (cases r)
  obtain yes s' where a: "admit t k s = (yes, s')" by fastforce
  have "window_inv t s adm" using Cons.prems r by (auto intro: window_inv_later)
  from window_inv_admit [OF this a] have inv: "window_inv t s' (if yes then adm @ [(t, k)] else adm)" .
  have srt: "sorted (t # map fst reqs)" using Cons.prems(2) r by simp
  show ?case using Cons.IH [OF inv srt] r a by simp
qed auto

lemma window_bound:
  assumes "ok s0" and "\<And>k. view s0 k = []" and "sorted (map fst reqs)" and "limited k"
  shows "length (in_window t (times_of k (snd (admit_run admit reqs (s0, []))))) \<le> limit"
proof (cases reqs)
  case (Cons r rs)
  have inv: "window_inv (fst r) s0 []" using assms(1,2) by (auto simp: window_inv_def in_window_def)
  have srt: "sorted (fst r # map fst reqs)" using assms(3) Cons by simp
  obtain now' where "window_inv now' (fst (admit_run admit reqs (s0, []))) (snd (admit_run admit reqs (s0, [])))"
    using window_inv_run [OF inv srt] by blast
  then show ?thesis using assms(4) by (simp add: window_inv_def)
qed (simp add: in_window_def)

end

end
