(* ===== verification/Gateway_Auth.thy ===== *)
theory Gateway_Auth
  imports Sliding_Window "HOL-Library.Word"
begin

text \<open>
  Admission to the gateway: the sliding-window rate limiter in front of all routes (\<^verbatim>\<open>gateway-core/http/rate_limit.rs\<close>), tokens,
  password and login limiter (\<^verbatim>\<open>http/auth.rs\<close>), the authorisation middleware (\<^verbatim>\<open>http/middleware.rs\<close>) and the
  request counters (\<^verbatim>\<open>http/metrics.rs\<close>).  Instants and durations are integers in nanoseconds; random
  tokens are arguments.
\<close>

unbundle bit_operations_syntax

section \<open>Addresses\<close>

datatype ip_addr = V4 nat nat nat nat | V6 "nat list"

fun is_loopback :: "ip_addr \<Rightarrow> bool" where
  "is_loopback (V4 a _ _ _) = (a = 127)"
| "is_loopback (V6 segs) = (segs = [0, 0, 0, 0, 0, 0, 0, 1])"


section \<open>Constant-time comparison\<close>

definition byte_word :: "char \<Rightarrow> 8 word" where
  "byte_word c = word_of_nat (byte c)"

definition constant_time_eq :: "string \<Rightarrow> string \<Rightarrow> bool" where
  "constant_time_eq a b =
     (if length a \<noteq> length b then False
      else foldl (\<lambda>diff (x, y). diff OR (byte_word x XOR byte_word y)) 0 (zip a b) = 0)"

definition verify_hmac :: "(string \<Rightarrow> string \<Rightarrow> string) \<Rightarrow> string \<Rightarrow> string \<Rightarrow> string \<Rightarrow> bool" where
  "verify_hmac compute_hmac secret message signature = constant_time_eq (compute_hmac secret message) signature"


section \<open>The sliding window\<close>

type_synonym windows = "(ip_addr, int list) hash_map"

definition window_of :: "windows \<Rightarrow> ip_addr \<Rightarrow> int list" where
  "window_of ws ip = (case hm_get ws ip of Some v \<Rightarrow> v | None \<Rightarrow> [])"

definition prune_windows :: "windows \<Rightarrow> windows" where
  "prune_windows ws = (if 10000 < length ws then hm_retain (\<lambda>_ v. v \<noteq> []) ws else ws)"

definition rate_limit_call :: "nat \<Rightarrow> nat \<Rightarrow> int \<Rightarrow> ip_addr option \<Rightarrow> windows \<Rightarrow> bool \<times> windows" where
  "rate_limit_call mx window_secs now ip ws =
     (case ip of
        None \<Rightarrow> (True, ws)
      | Some a \<Rightarrow>
          if is_loopback a then (True, ws)
          else
            (let entries = filter (\<lambda>t. now - from_secs window_secs < t) (window_of ws a) in
             if mx \<le> length entries then (False, hm_insert a entries ws)
             else (True, prune_windows (hm_insert a (entries @ [now]) ws))))"


section \<open>Tokens, password and login limiter\<close>

record rate_limit_config =
  rl_max_attempts :: "int option"
  rl_window_ms :: "int option"
  rl_lockout_ms :: "int option"
  rl_exempt_loopback :: "bool option"

record gateway_auth =
  ga_mode :: "string option"
  ga_token :: "string option"
  ga_password :: "string option"
  ga_allow_tailscale :: "bool option"
  ga_rate_limit :: "rate_limit_config option"

record token_info =
  ti_created_at :: int
  ti_ttl :: int
  ti_scopes :: "string list"

record rate_limit_state =
  rs_attempts :: nat
  rs_first_attempt :: int
  rs_locked_until :: "int option"

record rate_limiter =
  lim_config :: "rate_limit_config option"
  lim_attempts :: "(ip_addr, rate_limit_state) hash_map"

record auth_state =
  as_config :: "gateway_auth option"
  as_limiter :: rate_limiter
  as_tokens :: "(string, token_info) hash_map"
  as_devices :: "(string, string) hash_map"

definition opt_or :: "'a option \<Rightarrow> 'a \<Rightarrow> 'a" where
  "opt_or x d = (case x of Some v \<Rightarrow> v | None \<Rightarrow> d)"

text \<open>\<^verbatim>\<open>i32 as usize\<close> and \<^verbatim>\<open>i64 as u64\<close> reinterpret negative values.\<close>

definition max_attempts :: "rate_limit_config \<Rightarrow> nat" where
  "max_attempts c = as_u64 (opt_or (rl_max_attempts c) 10)"

definition window_ms :: "rate_limit_config \<Rightarrow> int" where
  "window_ms c = from_millis (as_u64 (opt_or (rl_window_ms c) 60000))"

definition lockout_ms :: "rate_limit_config \<Rightarrow> int" where
  "lockout_ms c = from_millis (as_u64 (opt_or (rl_lockout_ms c) 300000))"

definition limiter_is_allowed :: "int \<Rightarrow> ip_addr \<Rightarrow> rate_limiter \<Rightarrow> bool" where
  "limiter_is_allowed now ip l =
     (case lim_config l of
        None \<Rightarrow> True
      | Some c \<Rightarrow>
          if opt_or (rl_exempt_loopback c) True \<and> is_loopback ip then True
          else (case hm_get (lim_attempts l) ip of
                  None \<Rightarrow> True
                | Some st \<Rightarrow>
                    if (case rs_locked_until st of Some u \<Rightarrow> now < u | None \<Rightarrow> False) then False
                    else if rs_first_attempt st + window_ms c < now then True
                    else rs_attempts st < max_attempts c))"

definition bump_attempt :: "rate_limit_config \<Rightarrow> int \<Rightarrow> rate_limit_state \<Rightarrow> rate_limit_state" where
  "bump_attempt c now st =
     (let st1 = (if rs_first_attempt st + window_ms c < now
                 then \<lparr>rs_attempts = 0, rs_first_attempt = now, rs_locked_until = None\<rparr> else st);
          st2 = st1\<lparr>rs_attempts := rs_attempts st1 + 1\<rparr>
      in if max_attempts c \<le> rs_attempts st2 then st2\<lparr>rs_locked_until := Some (now + lockout_ms c)\<rparr> else st2)"

definition record_attempt :: "int \<Rightarrow> ip_addr \<Rightarrow> rate_limiter \<Rightarrow> rate_limiter" where
  "record_attempt now ip l =
     (case lim_config l of
        None \<Rightarrow> l
      | Some c \<Rightarrow>
          (let st = opt_or (hm_get (lim_attempts l) ip) \<lparr>rs_attempts = 0, rs_first_attempt = now, rs_locked_until = None\<rparr>
           in l\<lparr>lim_attempts := hm_insert ip (bump_attempt c now st) (lim_attempts l)\<rparr>))"

definition token_expired :: "int \<Rightarrow> token_info \<Rightarrow> bool" where
  "token_expired now t = (ti_ttl t < now - ti_created_at t)"

definition auth_new :: "int \<Rightarrow> gateway_auth option \<Rightarrow> auth_state" where
  "auth_new now auth =
     \<lparr>as_config = auth,
      as_limiter = \<lparr>lim_config = Option.bind auth ga_rate_limit, lim_attempts = []\<rparr>,
      as_tokens = (case Option.bind auth ga_token of
                     Some t \<Rightarrow> [(t, \<lparr>ti_created_at = now, ti_ttl = from_secs (365 * 24 * 3600), ti_scopes = [''*'']\<rparr>)]
                   | None \<Rightarrow> []),
      as_devices = []\<rparr>"

definition has_auth_config :: "auth_state \<Rightarrow> bool" where
  "has_auth_config s = (as_config s \<noteq> None)"

definition should_allow_connection :: "int \<Rightarrow> ip_addr \<Rightarrow> auth_state \<Rightarrow> bool" where
  "should_allow_connection now ip s = limiter_is_allowed now ip (as_limiter s)"

definition authenticate_token :: "int \<Rightarrow> string \<Rightarrow> auth_state \<Rightarrow> string list option" where
  "authenticate_token now token s =
     (case hm_get (as_tokens s) token of
        Some t \<Rightarrow> if token_expired now t then None else Some (ti_scopes t)
      | None \<Rightarrow> None)"

definition validate_password :: "string \<Rightarrow> auth_state \<Rightarrow> bool" where
  "validate_password password s =
     (case Option.bind (as_config s) ga_password of
        Some expected \<Rightarrow> constant_time_eq password expected
      | None \<Rightarrow> False)"

definition register_token_with_ttl :: "int \<Rightarrow> string \<Rightarrow> string list \<Rightarrow> int \<Rightarrow> auth_state \<Rightarrow> auth_state" where
  "register_token_with_ttl now token scopes ttl s =
     s\<lparr>as_tokens := hm_insert token \<lparr>ti_created_at = now, ti_ttl = ttl, ti_scopes = scopes\<rparr> (as_tokens s)\<rparr>"

definition register_token :: "int \<Rightarrow> string \<Rightarrow> string list \<Rightarrow> auth_state \<Rightarrow> auth_state" where
  "register_token now token scopes s = register_token_with_ttl now token scopes (from_secs 86400) s"

definition cleanup_expired_tokens :: "int \<Rightarrow> auth_state \<Rightarrow> auth_state" where
  "cleanup_expired_tokens now s = s\<lparr>as_tokens := hm_retain (\<lambda>_ t. \<not> token_expired now t) (as_tokens s)\<rparr>"

definition create_device_session :: "string \<Rightarrow> string \<Rightarrow> auth_state \<Rightarrow> string \<times> auth_state" where
  "create_device_session fresh device s = (fresh, s\<lparr>as_devices := hm_insert fresh device (as_devices s)\<rparr>)"

definition validate_device_session :: "string \<Rightarrow> auth_state \<Rightarrow> string option" where
  "validate_device_session token s = hm_get (as_devices s) token"

record auth_result =
  ar_authenticated :: bool
  ar_scopes :: "string list"
  ar_device_id :: "string option"

definition authenticate :: "int \<Rightarrow> string option \<Rightarrow> string option \<Rightarrow> auth_state \<Rightarrow> (string, auth_result) result" where
  "authenticate now token password s =
     (case Option.bind token (\<lambda>t. authenticate_token now t s) of
        Some scopes \<Rightarrow> Inr \<lparr>ar_authenticated = True, ar_scopes = scopes, ar_device_id = None\<rparr>
      | None \<Rightarrow>
          if (case password of Some p \<Rightarrow> validate_password p s | None \<Rightarrow> False)
          then Inr \<lparr>ar_authenticated = True, ar_scopes = [''full''], ar_device_id = None\<rparr>
          else Inl ''Invalid credentials'')"


section \<open>The middleware\<close>

definition auth_middleware :: "int \<Rightarrow> string \<Rightarrow> string option \<Rightarrow> auth_state \<Rightarrow> bool" where
  "auth_middleware now path auth_header s =
     (if path = ''/health'' \<or> path = ''/'' then True
      else if \<not> has_auth_config s then True
      else (case auth_header of
              Some h \<Rightarrow>
                (case strip_prefix ''Bearer '' h of Some t \<Rightarrow> authenticate_token now t s \<noteq> None | None \<Rightarrow> False)
                \<or> validate_password h s
            | None \<Rightarrow> False))"

record app_metrics =
  am_request_count :: nat
  am_error_count :: nat
  am_latency_sum_us :: nat

definition record_request :: "nat \<Rightarrow> nat \<Rightarrow> app_metrics \<Rightarrow> app_metrics" where
  "record_request status elapsed m =
     \<lparr>am_request_count = u64_add (am_request_count m) 1,
      am_error_count = (if 500 \<le> status then u64_add (am_error_count m) 1 else am_error_count m),
      am_latency_sum_us = u64_add (am_latency_sum_us m) elapsed\<rparr>"


section \<open>Comparison lemmas\<close>

lemma byte_word_inject: "byte_word x = byte_word y \<longleftrightarrow> x = y"
proof -
  have "unat (byte_word c) = byte c" for c
    by (simp add: byte_word_def unat_of_nat)
  then show ?thesis by (metis of_char_eq_iff)
qed

lemma xor_word_zero: "x XOR y = 0 \<longleftrightarrow> x = (y :: 8 word)"
  by (metis xor.assoc xor.left_neutral xor.right_neutral xor_self_eq)

lemma fold_diff_zero:
  "foldl (\<lambda>diff (x, y). diff OR (byte_word x XOR byte_word y)) d (zip a b) = 0
   \<longleftrightarrow> d = 0 \<and> (\<forall>(x, y) \<in> set (zip a b). x = y)"
proof (induction "zip a b" arbitrary: a b d)
  case (Cons p ps)
  obtain x a' y b' where ab: "a = x # a'" "b = y # b'"
    using Cons.hyps(2) by (cases a; cases b) auto
  show ?case
    using Cons.hyps(1) [of a' b' "d OR (byte_word x XOR byte_word y)"] Cons.hyps(2) ab byte_word_inject [of x y]
    by (auto simp: or_eq_0_iff xor_word_zero)
qed (auto dest: sym)

lemma constant_time_eq_iff: "constant_time_eq a b \<longleftrightarrow> a = b"
proof -
  have "(\<forall>(x, y) \<in> set (zip a b). x = y) \<longleftrightarrow> a = b" if "length a = length b"
    using that by (induction a b rule: list_induct2) auto
  then show ?thesis by (auto simp: constant_time_eq_def fold_diff_zero)
qed



section \<open>Lemmas on the sliding window\<close>

lemma window_of_insert [simp]: "window_of (hm_insert a v ws) b = (if b = a then v else window_of ws b)"
  by (simp add: window_of_def)

lemma window_of_prune [simp]: "hm_wf ws \<Longrightarrow> window_of (prune_windows ws) a = window_of ws a"
  by (auto simp: window_of_def prune_windows_def split: option.split)

lemma prune_wf [simp]: "hm_wf ws \<Longrightarrow> hm_wf (prune_windows ws)"
  by (simp add: prune_windows_def)

fun limited_address :: "ip_addr option \<Rightarrow> bool" where
  "limited_address None = False"
| "limited_address (Some a) = (\<not> is_loopback a)"

definition address_window :: "windows \<Rightarrow> ip_addr option \<Rightarrow> int list" where
  "address_window ws ip = (case ip of Some a \<Rightarrow> window_of ws a | None \<Rightarrow> [])"

text \<open>The layer is a sliding-window limiter for every address but loopback.\<close>

interpretation http_limit: sliding_window "rate_limit_call mx (Suc w)" address_window "\<lambda>now t. now - from_secs (Suc w) < t"
  limited_address mx hm_wf for mx w
proof unfold_locales
  fix ws :: windows and now :: int and ip ip' :: "ip_addr option"
  assume wf: "hm_wf ws"
  show "hm_wf (snd (rate_limit_call mx (Suc w) now ip ws))"
    using wf by (auto simp: rate_limit_call_def Let_def split: option.split)
  show "fst (rate_limit_call mx (Suc w) now ip ws)
        = (length (filter (\<lambda>t. now - from_secs (Suc w) < t) (address_window ws ip)) < mx)
      \<and> address_window (snd (rate_limit_call mx (Suc w) now ip ws)) ip
        = filter (\<lambda>t. now - from_secs (Suc w) < t) (address_window ws ip)
          @ (if fst (rate_limit_call mx (Suc w) now ip ws) then [now] else [])"
    if "limited_address ip"
    using that wf by (cases ip) (auto simp: rate_limit_call_def address_window_def Let_def)
  show "address_window (snd (rate_limit_call mx (Suc w) now ip ws)) ip' = address_window ws ip'"
    if "limited_address ip'" "ip' \<noteq> ip"
    using that wf by (cases ip'; cases ip) (auto simp: rate_limit_call_def address_window_def Let_def)
qed (auto simp: from_secs_def)


section \<open>Properties\<close>

text \<open>The constant-time comparison of credentials decides equality, so that a presented signature is accepted exactly when it is the
  computed one.\<close>

theorem constant_time_eq_correct:
  "constant_time_eq a b = (a = b) \<and> verify_hmac hmac secret message signature = (signature = hmac secret message)"
  by (auto simp: constant_time_eq_iff verify_hmac_def)



definition all_seen :: "windows \<Rightarrow> bool" where
  "all_seen ws = (hm_wf ws \<and> (\<forall>a v. hm_get ws a = Some v \<longrightarrow> v \<noteq> []))"

lemma prune_seen: "all_seen ws \<Longrightarrow> hm_get (prune_windows ws) a = hm_get ws a"
  by (auto simp: all_seen_def prune_windows_def split: option.split)

lemma rate_call_keeps:
  assumes "0 < mx" and "all_seen ws"
  shows "all_seen (snd (rate_limit_call mx w now ip ws))
    \<and> (\<forall>a. hm_contains_key ws a \<or> ip = Some a \<and> \<not> is_loopback a \<longrightarrow> hm_contains_key (snd (rate_limit_call mx w now ip ws)) a)"
proof (cases "ip = None \<or> is_loopback (the ip)")
  case False
  then obtain a where a: "ip = Some a" "\<not> is_loopback a" by auto
  have seen: "all_seen (hm_insert a es ws)" if "es \<noteq> []" for es
    using that assms(2) by (auto simp: all_seen_def)
  have pruned: "all_seen (prune_windows (hm_insert a (es @ [now]) ws))" for es
    using seen [of "es @ [now]"] prune_seen [OF seen [of "es @ [now]"]] by (auto simp: all_seen_def)
  have "all_seen (hm_insert a es ws)" if "mx \<le> length es" for es
    using that assms(1) seen [of es] by (cases es) auto
  then show ?thesis
    using a pruned prune_seen [OF seen] by (auto simp: rate_limit_call_def Let_def)
qed (use assms in \<open>auto simp: rate_limit_call_def split: option.splits\<close>)

text \<open>The limiter never forgets an address.  Pruning drops only addresses whose list of times is empty, and a list is
  emptied only by a request from the same address, which then adds to it; so once an address was
  seen it keeps its entry, and the table grows with the number of addresses.\<close>

theorem rate_limit_never_forgets:
  assumes "0 < mx" and "all_seen ws" and "hm_contains_key ws a \<or> a \<in> set (List.map_filter snd reqs) \<and> \<not> is_loopback a"
  shows "hm_contains_key (fold (\<lambda>(now, ip) ws. snd (rate_limit_call mx w now ip ws)) reqs ws) a"
  using assms(2,3)
proof (induction reqs arbitrary: ws)
  case (Cons r reqs)
  obtain t ip where r: "r = (t, ip)" by (cases r)
  have "all_seen (snd (rate_limit_call mx w t ip ws))"
    "hm_contains_key (snd (rate_limit_call mx w t ip ws)) a \<or> a \<in> set (List.map_filter snd reqs) \<and> \<not> is_loopback a"
    using rate_call_keeps [OF assms(1) Cons.prems(1), of w t ip] Cons.prems(2) r
    by (auto simp: List.map_filter_simps split: option.splits)
  then show ?case using Cons.IH r by (simp del: not_None_eq)
qed (simp add: List.map_filter_simps)

theorem rate_limit_never_forgets_witness:
  "hm_contains_key (fold (\<lambda>(now, ip) ws. snd (rate_limit_call 2 60 now ip ws)) [(1, Some (V4 10 0 0 1)), (1000000000000000, None)] []) (V4 10 0 0 1)"
  by (rule rate_limit_never_forgets) (simp_all add: all_seen_def List.map_filter_simps)

text \<open>The operations of the authentication state; nothing in the gateway records a failed attempt.\<close>

inductive auth_step :: "auth_state \<Rightarrow> auth_state \<Rightarrow> bool" where
  "auth_step s (register_token_with_ttl now token scopes ttl s)"
| "auth_step s (register_token now token scopes s)"
| "auth_step s (cleanup_expired_tokens now s)"
| "auth_step s (snd (create_device_session fresh device s))"

definition auth_inv :: "auth_state \<Rightarrow> bool" where
  "auth_inv s = (lim_attempts (as_limiter s) = [] \<and> hm_wf (as_tokens s))"

interpretation auth: invariant_system "\<lambda>s. \<exists>now cfg. s = auth_new now cfg" auth_step auth_inv
proof unfold_locales
  show "auth_inv s" if "\<exists>now cfg. s = auth_new now cfg" for s
    using that by (auto simp: auth_inv_def auth_new_def hm_wf_def split: option.split)
  show "auth_inv t" if "auth_inv s" and "auth_step s t" for s t
    using that(2,1)
    by cases (auto simp: auth_inv_def register_token_def register_token_with_ttl_def cleanup_expired_tokens_def create_device_session_def)
qed

text \<open>The login limiter never limits.  Whatever its configuration, no operation of the gateway records an
  attempt, so that every connection of every address is let through in every reachable state.\<close>

theorem login_limiter_never_limits:
  assumes "auth_step\<^sup>*\<^sup>* (auth_new t0 cfg) s"
  shows "should_allow_connection now ip s"
proof -
  have "auth_inv s" using auth.reachable_inv assms by blast
  then show ?thesis by (simp add: auth_inv_def should_allow_connection_def limiter_is_allowed_def split: option.split)
qed

theorem login_limiter_never_limits_witness:
  "should_allow_connection 1 (V4 10 0 0 1) (auth_new 0 None)"
  by (rule login_limiter_never_limits [of 0 None]) simp

text \<open>What the limiter would do: once an address has had the configured number of attempts recorded within its window, it is
  locked out until the lockout time has passed since the last of them.\<close>

theorem recorded_attempts_lock_out:
  assumes "lim_config l = Some c" and "hm_get (lim_attempts l) ip = Some st" and "now \<le> rs_first_attempt st + window_ms c"
    and "max_attempts c \<le> rs_attempts st + 1" and "\<not> (opt_or (rl_exempt_loopback c) True \<and> is_loopback ip)"
    and "now \<le> later" and "later < now + lockout_ms c"
  shows "\<not> limiter_is_allowed later ip (record_attempt now ip l)"
  using assms by (auto simp: limiter_is_allowed_def record_attempt_def bump_attempt_def opt_or_def Let_def)

definition sample_limiter :: rate_limiter where
  "sample_limiter = \<lparr>lim_config = Some \<lparr>rl_max_attempts = Some 2, rl_window_ms = None, rl_lockout_ms = None, rl_exempt_loopback = None\<rparr>,
     lim_attempts = [(V4 10 0 0 1, \<lparr>rs_attempts = 1, rs_first_attempt = 0, rs_locked_until = None\<rparr>)]\<rparr>"

theorem recorded_attempts_lock_out_witness:
  "\<not> limiter_is_allowed 7 (V4 10 0 0 1) (record_attempt 5 (V4 10 0 0 1) sample_limiter)"
  using recorded_attempts_lock_out [of sample_limiter
      "\<lparr>rl_max_attempts = Some 2, rl_window_ms = None, rl_lockout_ms = None, rl_exempt_loopback = None\<rparr>" "V4 10 0 0 1"
      "\<lparr>rs_attempts = 1, rs_first_attempt = 0, rs_locked_until = None\<rparr>" 5 7]
  by (simp add: sample_limiter_def window_ms_def lockout_ms_def max_attempts_def opt_or_def as_u64_def from_millis_def)



text \<open>A token is accepted from its registration until its time to live has passed, and the periodic clean-up changes nothing of that.\<close>

theorem token_lifetime:
  assumes "hm_wf (as_tokens s)" and "created \<le> now"
  shows "authenticate_token now t (register_token_with_ttl created t scopes ttl s) = (if now - created \<le> ttl then Some scopes else None)
    \<and> authenticate_token now t' (cleanup_expired_tokens c s) =
        (case hm_get (as_tokens s) t' of
           Some info \<Rightarrow> if token_expired c info then None else authenticate_token now t' s
         | None \<Rightarrow> None)"
  using assms by (auto simp: authenticate_token_def register_token_with_ttl_def cleanup_expired_tokens_def token_expired_def split: option.split)

end
