(* ===== verification/Channel_Core.thy ===== *)
theory Channel_Core
  imports Tool_Mutation
begin

text \<open>
  The shared parts of the \<^verbatim>\<open>channel-core\<close> crate: who may talk to the bot (\<^verbatim>\<open>policy.rs\<close>, \<^verbatim>\<open>group_gate.rs\<close>), the coalescing of streamed
  text (\<^verbatim>\<open>streaming.rs\<close>, \<^verbatim>\<open>draft_stream.rs\<close>), the bounded queue and the pattern router (\<^verbatim>\<open>router.rs\<close>), the health
  monitor (\<^verbatim>\<open>health.rs\<close>), and the send limiter, the reconnect watcher and the registry of \<^verbatim>\<open>manager.rs\<close>.  Channels
  themselves are network clients: their status and the outcome of a connection attempt are arguments, as is the
  \<^verbatim>\<open>regex\<close> crate.  The limiter's \<^verbatim>\<open>f64\<close> arithmetic is taken to be exact.
\<close>

section \<open>Policies\<close>

datatype group_activation = Mention | Always

definition normalize_activation :: "string option \<Rightarrow> group_activation option" where
  "normalize_activation raw =
     (case raw of
        None \<Rightarrow> None
      | Some r \<Rightarrow> let s = to_lowercase (trim r) in
                  if s = ''mention'' then Some Mention else if s = ''always'' then Some Always else None)"

fun should_process :: "bool \<Rightarrow> group_activation \<Rightarrow> bool \<Rightarrow> bool" where
  "should_process grp activation mentioned =
     (if \<not> grp then True else (case activation of Always \<Rightarrow> True | Mention \<Rightarrow> mentioned))"

definition is_mentioned :: "('re \<Rightarrow> string \<Rightarrow> bool) \<Rightarrow> string \<Rightarrow> 're list \<Rightarrow> bool" where
  "is_mentioned is_match body patterns = list_ex (\<lambda>re. is_match re body) patterns"

datatype dm_policy = DmOpen | DmPairing | DmAllowlist | DmDisabled

definition resolve_allowlist_match :: "string \<Rightarrow> string option \<Rightarrow> string list \<Rightarrow> bool" where
  "resolve_allowlist_match sender_id sender_name allowlist =
     (if allowlist = [] then True
      else if list_ex (\<lambda>a. a = ''*'') allowlist then True
      else list_ex (\<lambda>entry. entry = sender_id
             \<or> (case sender_name of Some n \<Rightarrow> to_lowercase n = to_lowercase entry | None \<Rightarrow> False)) allowlist)"


section \<open>Streaming\<close>

record stream_coalescer =
  co_min_chars :: nat
  co_idle_ms :: nat
  co_buffer :: string
  co_last_flush :: nat

definition coalescer_new :: "nat \<Rightarrow> nat \<Rightarrow> nat \<Rightarrow> stream_coalescer" where
  "coalescer_new now min_chars idle_ms =
     \<lparr>co_min_chars = min_chars, co_idle_ms = idle_ms, co_buffer = [], co_last_flush = now\<rparr>"

definition coalescer_flush :: "nat \<Rightarrow> stream_coalescer \<Rightarrow> string option \<times> stream_coalescer" where
  "coalescer_flush now c =
     (if co_buffer c = [] then (None, c) else (Some (co_buffer c), c\<lparr>co_buffer := [], co_last_flush := now\<rparr>))"

definition coalescer_push :: "nat \<Rightarrow> string \<Rightarrow> stream_coalescer \<Rightarrow> string option \<times> stream_coalescer" where
  "coalescer_push now chunk c =
     (let c1 = c\<lparr>co_buffer := co_buffer c @ chunk\<rparr> in
      if co_min_chars c1 \<le> length (co_buffer c1) \<or> co_idle_ms c1 \<le> now - co_last_flush c1
      then coalescer_flush now c1 else (None, c1))"

text \<open>The draft loop: one tick of its task, with a receiver that is open or gone.\<close>

record draft_stream =
  ds_buffer :: string
  ds_stopped :: bool
  ds_finished :: bool
  ds_sent :: "string list"

definition draft_start :: draft_stream where
  "draft_start = \<lparr>ds_buffer = [], ds_stopped = False, ds_finished = False, ds_sent = []\<rparr>"

definition draft_update :: "string \<Rightarrow> draft_stream \<Rightarrow> draft_stream" where
  "draft_update s d = d\<lparr>ds_buffer := ds_buffer d @ s\<rparr>"

definition draft_stop :: "draft_stream \<Rightarrow> draft_stream" where
  "draft_stop d = d\<lparr>ds_stopped := True\<rparr>"

definition draft_tick :: "bool \<Rightarrow> draft_stream \<Rightarrow> draft_stream" where
  "draft_tick receiver_open d =
     (if ds_finished d then d
      else
        (let out = (if ds_buffer d \<noteq> [] \<and> receiver_open then [ds_buffer d] else [])
         in d\<lparr>ds_buffer := [], ds_sent := ds_sent d @ out, ds_finished := ds_stopped d\<rparr>))"


section \<open>Queue and router\<close>

datatype queue_error = QueueFull | QueueEmpty

record 'm bounded_queue =
  bq_queue :: "'m list"
  bq_max_size :: nat

definition bq_enqueue :: "'m \<Rightarrow> 'm bounded_queue \<Rightarrow> (queue_error, unit) result \<times> 'm bounded_queue" where
  "bq_enqueue m q =
     (if bq_max_size q \<le> length (bq_queue q) then (Inl QueueFull, q)
      else (Inr (), q\<lparr>bq_queue := bq_queue q @ [m]\<rparr>))"

definition bq_dequeue :: "'m bounded_queue \<Rightarrow> 'm option \<times> 'm bounded_queue" where
  "bq_dequeue q = (case bq_queue q of [] \<Rightarrow> (None, q) | m # ms \<Rightarrow> (Some m, q\<lparr>bq_queue := ms\<rparr>))"

definition bq_peek :: "'m bounded_queue \<Rightarrow> 'm option" where
  "bq_peek q = (case bq_queue q of [] \<Rightarrow> None | m # _ \<Rightarrow> Some m)"

record message_router =
  mr_routes :: "(string, string list) hash_map"
  mr_default :: "string option"

definition router_empty :: message_router where "router_empty = \<lparr>mr_routes = [], mr_default = None\<rparr>"

definition add_route :: "string \<Rightarrow> string list \<Rightarrow> message_router \<Rightarrow> message_router" where
  "add_route pattern ids r = r\<lparr>mr_routes := hm_insert pattern ids (mr_routes r)\<rparr>"

definition remove_route :: "string \<Rightarrow> message_router \<Rightarrow> string list option \<times> message_router" where
  "remove_route pattern r = (hm_get (mr_routes r) pattern, r\<lparr>mr_routes := hm_remove pattern (mr_routes r)\<rparr>)"

definition set_default_channel :: "string \<Rightarrow> message_router \<Rightarrow> message_router" where
  "set_default_channel ch r = r\<lparr>mr_default := Some ch\<rparr>"

text \<open>\<open>regex p\<close> is \<^const>\<open>None\<close> for an invalid pattern.\<close>

definition matches_pattern :: "(string \<Rightarrow> (string \<Rightarrow> bool) option) \<Rightarrow> string option \<Rightarrow> string \<Rightarrow> bool" where
  "matches_pattern regex body pattern =
     (case body of
        None \<Rightarrow> False
      | Some t \<Rightarrow>
          (case Option.bind (strip_prefix ''regex:'' pattern) regex of
             Some m \<Rightarrow> m t
           | None \<Rightarrow>
               (case strip_prefix ''contains:'' pattern of
                  Some k \<Rightarrow> contains t k
                | None \<Rightarrow>
                    (case strip_prefix ''starts:'' pattern of
                       Some k \<Rightarrow> starts_with t k
                     | None \<Rightarrow> (case strip_prefix ''ends:'' pattern of Some k \<Rightarrow> ends_with t k | None \<Rightarrow> t = pattern)))))"

definition route :: "(string \<Rightarrow> (string \<Rightarrow> bool) option) \<Rightarrow> string option \<Rightarrow> message_router \<Rightarrow> string list" where
  "route regex body r =
     (case find (\<lambda>(p, _). matches_pattern regex body p) (mr_routes r) of
        Some (_, ids) \<Rightarrow> ids
      | None \<Rightarrow> (case mr_default r of Some c \<Rightarrow> [c] | None \<Rightarrow> []))"


section \<open>Health monitor\<close>

datatype channel_status = Disconnected | Connecting | Reconnecting nat nat | Connected | ChError

record channel_health =
  ch_last_check :: int
  ch_failures :: nat
  ch_cooldown_until :: "int option"

definition health_new :: "int \<Rightarrow> channel_health" where
  "health_new now = \<lparr>ch_last_check = now, ch_failures = 0, ch_cooldown_until = None\<rparr>"

text \<open>One channel in a round of checks; the flag says that a reconnection is attempted.\<close>

definition health_check :: "nat \<Rightarrow> int \<Rightarrow> int \<Rightarrow> channel_status \<Rightarrow> channel_health \<Rightarrow> bool \<times> channel_health" where
  "health_check max_failures cooldown now status h =
     (if (case ch_cooldown_until h of Some u \<Rightarrow> now < u | None \<Rightarrow> False) then (False, h)
      else
        (let h1 = h\<lparr>ch_cooldown_until := None, ch_last_check := now\<rparr> in
         case status of
           Connected \<Rightarrow> (False, h1\<lparr>ch_failures := 0\<rparr>)
         | Connecting \<Rightarrow> (False, h1)
         | Reconnecting _ _ \<Rightarrow> (False, h1)
         | _ \<Rightarrow>
             (let h2 = h1\<lparr>ch_failures := ch_failures h1 + 1\<rparr> in
              if max_failures \<le> ch_failures h2 then (True, h2\<lparr>ch_cooldown_until := Some (now + cooldown)\<rparr>) else (False, h2))))"

definition check_all ::
  "nat \<Rightarrow> int \<Rightarrow> int \<Rightarrow> (string \<times> channel_status) list \<Rightarrow> (string, channel_health) hash_map
   \<Rightarrow> string list \<times> (string, channel_health) hash_map" where
  "check_all max_failures cooldown now chans st =
     foldl (\<lambda>(rec, st) (name, status).
              let h = (case hm_get st name of Some h \<Rightarrow> h | None \<Rightarrow> health_new now);
                  (r, h') = health_check max_failures cooldown now status h
              in (if r then rec @ [name] else rec, hm_insert name h' st))
           ([], st) chans"


section \<open>Channel manager\<close>

record token_bucket =
  tb_capacity :: rat
  tb_tokens :: rat
  tb_refill :: rat
  tb_last :: rat

definition bucket_new :: "rat \<Rightarrow> rat \<Rightarrow> rat \<Rightarrow> token_bucket" where
  "bucket_new now capacity refill = \<lparr>tb_capacity = capacity, tb_tokens = capacity, tb_refill = refill, tb_last = now\<rparr>"

definition bucket_refill :: "rat \<Rightarrow> token_bucket \<Rightarrow> token_bucket" where
  "bucket_refill now b =
     (let elapsed = now - tb_last b in
      if elapsed \<le> 0 then b
      else b\<lparr>tb_tokens := min (tb_tokens b + elapsed * tb_refill b) (tb_capacity b), tb_last := now\<rparr>)"

definition default_send_bucket :: "rat \<Rightarrow> string \<Rightarrow> token_bucket" where
  "default_send_bucket now name =
     (let n = (if name = ''telegram'' then 30 else if name = ''discord'' then 10 else if name = ''slack'' then 5
               else if name = ''whatsapp'' then 20 else 15)
      in bucket_new now n n)"

text \<open>One round of the waiting loop: a slot, or the milliseconds to sleep before the next round.\<close>

definition send_slot :: "rat \<Rightarrow> token_bucket \<Rightarrow> nat option \<times> token_bucket" where
  "send_slot now b =
     (let b1 = bucket_refill now b in
      if 1 \<le> tb_tokens b1 then (None, b1\<lparr>tb_tokens := tb_tokens b1 - 1\<rparr>)
      else
        (let secs = max (1 - tb_tokens b1) 0 / max (tb_refill b1) (1 / 10)
         in (Some (max 1 (min (nat \<lceil>secs * 1000\<rceil>) 1000)), b1)))"

definition backoff_secs :: "nat \<Rightarrow> nat" where
  "backoff_secs attempt = min (2 ^ min (attempt - 1) 8) 300"

record reconnect_watcher =
  rw_retry :: "(string, nat \<times> int) hash_map"
  rw_status :: "(string, channel_status) hash_map"

text \<open>One channel in a round of the watcher; the flag says that a connection is attempted, with outcome \<open>connects\<close>.\<close>

definition watch_channel ::
  "int \<Rightarrow> nat \<Rightarrow> string \<Rightarrow> channel_status \<Rightarrow> bool \<Rightarrow> reconnect_watcher \<Rightarrow> bool \<times> reconnect_watcher" where
  "watch_channel now unix_ms name status connects w =
     (if status \<notin> {ChError, Disconnected}
      then (False, \<lparr>rw_retry = hm_remove name (rw_retry w), rw_status = hm_remove name (rw_status w)\<rparr>)
      else
        (let (attempt0, next_try_at) = (case hm_get (rw_retry w) name of Some r \<Rightarrow> r | None \<Rightarrow> (0, now)) in
         if now < next_try_at then (False, w)
         else
           (let attempt = sat_add u32_max attempt0 1;
                backoff = backoff_secs attempt;
                next_at_ms = sat_add u64_max unix_ms (sat_mul u64_max backoff 1000);
                status1 = hm_insert name (Reconnecting attempt next_at_ms) (rw_status w)
            in if connects
               then (True, \<lparr>rw_retry = hm_remove name (rw_retry w), rw_status = hm_remove name status1\<rparr>)
               else (True, \<lparr>rw_retry = hm_insert name (attempt, now + from_secs backoff) (rw_retry w), rw_status = status1\<rparr>))))"

definition normalize_channel_name :: "string \<Rightarrow> string" where
  "normalize_channel_name raw = replace_all ''-'' ''_'' (to_lowercase (trim raw))"

text \<open>The registry keeps the descriptions and the instances of the channels in two tables.\<close>

datatype channel_error =
    ConnectionError string | AuthenticationError string | MessageError string | NotFound string
  | RateLimitError string | ConfigError string | UnsupportedOperation string

record channel_info =
  ci_name :: string
  ci_type :: string
  ci_status :: channel_status
  ci_registered_at :: int

record 'c channel_registry =
  reg_channels :: "(string, channel_info) hash_map"
  reg_instances :: "(string, 'c) hash_map"

definition registry_new :: "'c channel_registry" where
  "registry_new = \<lparr>reg_channels = [], reg_instances = []\<rparr>"

definition not_found :: "string \<Rightarrow> channel_error" where
  "not_found name = NotFound (''Channel '' @ quoted name @ '' not found'')"

definition reg_register ::
  "int \<Rightarrow> string \<Rightarrow> string \<Rightarrow> 'c \<Rightarrow> 'c channel_registry \<Rightarrow> (channel_error, unit) result \<times> 'c channel_registry" where
  "reg_register now name ty c r =
     (if hm_contains_key (reg_channels r) name
      then (Inl (ConfigError (''Channel '' @ quoted name @ '' already registered'')), r)
      else (Inr (), r\<lparr>reg_channels := hm_insert name \<lparr>ci_name = name, ci_type = ty, ci_status = Disconnected, ci_registered_at = now\<rparr> (reg_channels r),
                      reg_instances := hm_insert name c (reg_instances r)\<rparr>))"

definition reg_unregister :: "string \<Rightarrow> 'c channel_registry \<Rightarrow> (channel_error, unit) result \<times> 'c channel_registry" where
  "reg_unregister name r =
     (if \<not> hm_contains_key (reg_channels r) name then (Inl (not_found name), r)
      else (Inr (), r\<lparr>reg_channels := hm_remove name (reg_channels r), reg_instances := hm_remove name (reg_instances r)\<rparr>))"

definition reg_get_by_type :: "string \<Rightarrow> 'c channel_registry \<Rightarrow> (string \<times> 'c) list" where
  "reg_get_by_type ty r =
     List.map_filter (\<lambda>(name, info). map_option (Pair name) (hm_get (reg_instances r) name))
       (filter (\<lambda>(_, info). ci_type info = ty) (reg_channels r))"

definition set_status :: "channel_status \<Rightarrow> channel_info \<Rightarrow> channel_info" where
  "set_status st i = i\<lparr>ci_status := st\<rparr>"

text \<open>\<open>op\<close> is the outcome of \<^verbatim>\<open>connect\<close> or \<^verbatim>\<open>disconnect\<close> on the instance.\<close>

definition reg_switch ::
  "channel_status \<Rightarrow> ('c \<Rightarrow> (channel_error, 'c) result) \<Rightarrow> string \<Rightarrow> 'c channel_registry \<Rightarrow> (channel_error, unit) result \<times> 'c channel_registry" where
  "reg_switch st op name r =
     (case hm_get (reg_instances r) name of
        None \<Rightarrow> (Inl (not_found name), r)
      | Some c \<Rightarrow>
          (case op c of
             Inl e \<Rightarrow> (Inl e, r)
           | Inr c' \<Rightarrow> (Inr (), r\<lparr>reg_instances := hm_insert name c' (reg_instances r),
                                  reg_channels := hm_modify name (set_status st) (reg_channels r)\<rparr>)))"

definition reg_connect :: "('c \<Rightarrow> (channel_error, 'c) result) \<Rightarrow> string \<Rightarrow> 'c channel_registry \<Rightarrow> (channel_error, unit) result \<times> 'c channel_registry" where
  "reg_connect connect name r = reg_switch Connected connect name r"

definition reg_disconnect :: "('c \<Rightarrow> (channel_error, 'c) result) \<Rightarrow> string \<Rightarrow> 'c channel_registry \<Rightarrow> (channel_error, unit) result \<times> 'c channel_registry" where
  "reg_disconnect disconnect name r = reg_switch Disconnected disconnect name r"

definition reg_send :: "('c \<Rightarrow> 'm \<Rightarrow> (channel_error, string) result) \<Rightarrow> string \<Rightarrow> 'm \<Rightarrow> 'c channel_registry \<Rightarrow> (channel_error, string) result" where
  "reg_send send name m r =
     (case hm_get (reg_instances r) name of None \<Rightarrow> Inl (not_found name) | Some c \<Rightarrow> send c m)"

definition reg_broadcast :: "('c \<Rightarrow> 'm \<Rightarrow> (channel_error, string) result) \<Rightarrow> 'm \<Rightarrow> 'c channel_registry \<Rightarrow> (string \<times> (channel_error, string) result) list" where
  "reg_broadcast send m r = map (\<lambda>(name, c). (name, send c m)) (reg_instances r)"

definition reg_status :: "'c channel_registry \<Rightarrow> (string \<times> channel_status) list" where
  "reg_status r = map (\<lambda>(name, info). (name, ci_status info)) (reg_channels r)"


section \<open>Streaming properties\<close>

datatype stream_op = SPush nat string | SFlush nat

fun coalescer_op :: "stream_op \<Rightarrow> stream_coalescer \<Rightarrow> string option \<times> stream_coalescer" where
  "coalescer_op (SPush now chunk) c = coalescer_push now chunk c"
| "coalescer_op (SFlush now) c = coalescer_flush now c"

fun coalescer_run :: "stream_op list \<Rightarrow> stream_coalescer \<Rightarrow> string list \<times> stream_coalescer" where
  "coalescer_run [] c = ([], c)"
| "coalescer_run (op # ops) c =
     (let (out, c1) = coalescer_op op c; (outs, c2) = coalescer_run ops c1
      in ((case out of Some s \<Rightarrow> s # outs | None \<Rightarrow> outs), c2))"

fun pushed :: "stream_op \<Rightarrow> string" where
  "pushed (SPush _ chunk) = chunk"
| "pushed (SFlush _) = []"

lemma coalescer_op_conserves:
  "coalescer_op op c = (out, c1) \<Longrightarrow>
     (case out of Some s \<Rightarrow> s | None \<Rightarrow> []) @ co_buffer c1 = co_buffer c @ pushed op \<and> out \<noteq> Some []
     \<and> co_min_chars c1 = co_min_chars c"
  by (cases op) (auto simp: coalescer_push_def coalescer_flush_def Let_def split: if_splits)

lemma coalescer_run_conserves:
  "concat (fst (coalescer_run ops c)) @ co_buffer (snd (coalescer_run ops c)) = co_buffer c @ concat (map pushed ops)
   \<and> [] \<notin> set (fst (coalescer_run ops c))"
proof (induction ops arbitrary: c)
  case (Cons op ops)
  obtain out c1 where op: "coalescer_op op c = (out, c1)" by fastforce
  then show ?case
    using Cons.IH [of c1] coalescer_op_conserves [OF op] by (cases out) (auto split: prod.splits)
qed simp

text \<open>C33: coalescing loses and reorders nothing: what was emitted, followed by what is still buffered, is the concatenation of the
  chunks, no empty text is emitted, and after a push that emitted nothing less than the minimum is buffered.\<close>

theorem coalescer_conserves:
  "concat (fst (coalescer_run ops (coalescer_new now0 min_chars idle))) @ co_buffer (snd (coalescer_run ops (coalescer_new now0 min_chars idle)))
     = concat (map pushed ops)
   \<and> [] \<notin> set (fst (coalescer_run ops (coalescer_new now0 min_chars idle)))
   \<and> (fst (coalescer_push now chunk c) = None \<longrightarrow>
       co_buffer (snd (coalescer_push now chunk c)) = [] \<or> length (co_buffer (snd (coalescer_push now chunk c))) < co_min_chars c)"
  using coalescer_run_conserves [of ops "coalescer_new now0 min_chars idle"]
  by (auto simp: coalescer_new_def coalescer_push_def coalescer_flush_def Let_def split: if_splits)

theorem coalescer_conserves_witness:
  "fst (coalescer_push 0 ''hello'' (coalescer_new 0 10 60000)) = None
   \<and> length (co_buffer (snd (coalescer_push 0 ''hello'' (coalescer_new 0 10 60000)))) < 10"
  using coalescer_conserves [where now = 0 and chunk = "''hello''" and c = "coalescer_new 0 10 60000"]
  by (auto simp: coalescer_push_def coalescer_new_def Let_def)

datatype draft_op = DUpdate string | DStop | DTick

fun draft_op_step :: "draft_op \<Rightarrow> draft_stream \<Rightarrow> draft_stream" where
  "draft_op_step (DUpdate s) d = draft_update s d"
| "draft_op_step DStop d = draft_stop d"
| "draft_op_step DTick d = draft_tick True d"

fun updated :: "draft_op \<Rightarrow> string" where
  "updated (DUpdate s) = s"
| "updated _ = []"

lemma draft_fold_conserves:
  "concat (ds_sent (fold draft_op_step ops d)) @ ds_buffer (fold draft_op_step ops d)
   = concat (ds_sent d) @ ds_buffer d @ concat (map updated ops)"
proof (induction ops arbitrary: d)
  case (Cons op ops)
  then show ?case by (cases op) (auto simp: draft_update_def draft_stop_def draft_tick_def Let_def)
qed simp

text \<open>The draft loop delivers, in order, everything written before the tick that follows its stop, as long as somebody receives.\<close>

theorem draft_stream_delivers:
  "\<not> ds_finished (fold draft_op_step ops draft_start) \<Longrightarrow>
   concat (ds_sent (draft_tick True (draft_stop (fold draft_op_step ops draft_start)))) = concat (map updated ops)
   \<and> ds_finished (draft_tick True (draft_stop (fold draft_op_step ops draft_start)))"
  using draft_fold_conserves [of ops draft_start] by (auto simp: draft_tick_def draft_stop_def draft_start_def Let_def)

theorem draft_stream_delivers_witness:
  "concat (ds_sent (draft_tick True (draft_stop (fold draft_op_step [DUpdate ''a'', DTick, DUpdate ''b''] draft_start)))) = ''ab''"
  using draft_stream_delivers [of "[DUpdate ''a'', DTick, DUpdate ''b'']"]
  by (simp add: draft_start_def draft_update_def draft_tick_def)


section \<open>Routing properties\<close>

text \<open>Routing.  A message goes to the channels of a pattern that matches it, and to the default only when none does; where exactly one
  pattern matches, its channels are the answer whatever the order in which the table is searched.\<close>

theorem route_correct:
  assumes "hm_wf (mr_routes r)" and "hm_get (mr_routes r) p = Some ids"
    and "\<forall>q. hm_contains_key (mr_routes r) q \<and> matches_pattern regex body q \<longleftrightarrow> q = p"
  shows "route regex body r = ids"
proof (cases "find (\<lambda>(p, _). matches_pattern regex body p) (mr_routes r)")
  case None
  then have "(p, ids) \<notin> set (mr_routes r)" using assms(3) by (auto simp: find_None_iff)
  then show ?thesis using assms(2) map_of_SomeD by fast
next
  case (Some e)
  obtain q ids' where e: "e = (q, ids')" by (cases e)
  then have m: "(q, ids') \<in> set (mr_routes r)" "matches_pattern regex body q" using find_Some_mem [OF Some] by auto
  then have get: "hm_get (mr_routes r) q = Some ids'" using assms(1) by (simp add: hm_wf_def)
  then have "q = p" using assms(3) m(2) by blast
  then show ?thesis using Some e get assms(2) by (simp add: route_def)
qed

theorem route_correct_witness:
  "route (\<lambda>_. None) (Some ''/help me'') (add_route ''starts:/help'' [''support''] (add_route ''ends:?'' [''qa''] router_empty)) = [''support'']"
proof (rule route_correct [where p = "''starts:/help''"])
  show "\<forall>q. hm_contains_key (mr_routes (add_route ''starts:/help'' [''support''] (add_route ''ends:?'' [''qa''] router_empty))) q
          \<and> matches_pattern (\<lambda>_. None) (Some ''/help me'') q \<longleftrightarrow> q = ''starts:/help''"
    by (auto simp: add_route_def router_empty_def matches_pattern_def strip_prefix_def starts_with_def ends_with_def suffix_to_prefix)
qed (simp_all add: add_route_def router_empty_def hm_wf_def)


section \<open>Limits and retries\<close>

text \<open>The number of sends that got a slot among attempts at the given times.\<close>

fun granted :: "rat list \<Rightarrow> token_bucket \<Rightarrow> nat" where
  "granted [] b = 0"
| "granted (t # ts) b = (let (w, b1) = send_slot t b in (if w = None then 1 else 0) + granted ts b1)"

definition bucket_ok :: "token_bucket \<Rightarrow> bool" where
  "bucket_ok b = (0 \<le> tb_tokens b \<and> tb_tokens b \<le> tb_capacity b \<and> 0 \<le> tb_refill b)"

lemma send_slot_budget:
  assumes "bucket_ok b" and "send_slot t b = (w, b1)" and "tb_last b \<le> t"
  shows "bucket_ok b1 \<and> tb_last b1 = t \<and> tb_refill b1 = tb_refill b \<and> tb_capacity b1 = tb_capacity b
    \<and> (if w = None then 1 else 0) + tb_tokens b1 \<le> tb_tokens b + tb_refill b * (t - tb_last b)"
proof -
  have "0 \<le> tb_refill b * (t - tb_last b)" using assms(1,3) by (simp add: bucket_ok_def)
  then show ?thesis
    using assms by (auto simp: send_slot_def bucket_refill_def bucket_ok_def Let_def mult.commute min_def split: if_splits)
qed

lemma granted_budget:
  "bucket_ok b \<Longrightarrow> sorted (tb_last b # ts) \<Longrightarrow> of_nat (granted ts b) \<le> tb_tokens b + tb_refill b * (last (tb_last b # ts) - tb_last b)"
proof (induction ts arbitrary: b)
  case (Cons t ts)
  obtain w b1 where s: "send_slot t b = (w, b1)" by fastforce
  have b1: "bucket_ok b1 \<and> tb_last b1 = t \<and> tb_refill b1 = tb_refill b
      \<and> (if w = None then 1 else 0) + tb_tokens b1 \<le> tb_tokens b + tb_refill b * (t - tb_last b)"
    using send_slot_budget [OF Cons.prems(1) s] Cons.prems(2) by simp
  then have "of_nat (granted ts b1) \<le> tb_tokens b1 + tb_refill b * (last (t # ts) - t)"
    using Cons.IH [of b1] Cons.prems(2) by simp
  then have "of_nat (granted (t # ts) b) \<le> tb_tokens b + tb_refill b * (t - tb_last b) + tb_refill b * (last (t # ts) - t)"
    using b1 s by (cases w) auto
  also have "\<dots> = tb_tokens b + tb_refill b * (last (tb_last b # t # ts) - tb_last b)"
    by (simp add: algebra_simps)
  finally show ?case .
qed (simp add: bucket_ok_def)

text \<open>The send rate.  From any state of its bucket, a channel gets at most the bucket's capacity plus the refill rate times the elapsed
  time of slots, whenever and however often senders ask; for Telegram that is thirty and thirty a second.\<close>

theorem send_rate_bounded:
  assumes "bucket_ok b" and "sorted (tb_last b # ts)"
  shows "of_nat (granted ts b) \<le> tb_capacity b + tb_refill b * (last (tb_last b # ts) - tb_last b)"
  using granted_budget [OF assms] assms(1) by (simp add: bucket_ok_def)

theorem send_rate_bounded_witness:
  "of_nat (granted [1, 1, 2] (default_send_bucket 0 ''slack'')) \<le> (5 + 5 * 2 :: rat)"
  using send_rate_bounded [of "default_send_bucket 0 ''slack''" "[1, 1, 2]"]
  by (simp add: default_send_bucket_def bucket_new_def bucket_ok_def)

text \<open>Attempts to reconnect one failing channel whose connections fail, at the rounds with the given times.\<close>

fun watch_run :: "string \<Rightarrow> (int \<times> nat) list \<Rightarrow> reconnect_watcher \<Rightarrow> int list" where
  "watch_run name [] w = []"
| "watch_run name ((now, unix) # rounds) w =
     (let (tried, w1) = watch_channel now unix name ChError False w
      in (if tried then [now] else []) @ watch_run name rounds w1)"

fun spaced :: "nat \<Rightarrow> int list \<Rightarrow> bool" where
  "spaced k (t # u # ts) = (t + from_secs (2 ^ min k 8) \<le> u \<and> spaced (Suc k) (u # ts))"
| "spaced k _ = True"

lemma backoff_exact: "backoff_secs (Suc k) = 2 ^ min k 8"
proof -
  have "(2::nat) ^ min k 8 \<le> 2 ^ 8" by (rule power_increasing) auto
  then show ?thesis by (simp add: backoff_secs_def)
qed

lemma watch_retry:
  assumes "hm_get (rw_retry w) name = Some (k, next)" and "k < u32_max"
  shows "watch_channel now unix name ChError False w =
    (if now < next then (False, w)
     else (True, \<lparr>rw_retry = hm_insert name (Suc k, now + from_secs (2 ^ min k 8)) (rw_retry w),
                  rw_status = hm_insert name (Reconnecting (Suc k) (sat_add u64_max unix (sat_mul u64_max (2 ^ min k 8) 1000))) (rw_status w)\<rparr>))"
  using assms by (simp add: watch_channel_def sat_add_def backoff_exact Let_def)

lemma watch_run_spaced:
  assumes "hm_get (rw_retry w) name = Some (k, next)" and "k + length rounds < u32_max"
  shows "spaced k (watch_run name rounds w) \<and> (watch_run name rounds w \<noteq> [] \<longrightarrow> next \<le> hd (watch_run name rounds w))"
  using assms
proof (induction rounds arbitrary: w k "next")
  case (Cons r rounds)
  obtain now unix where r: "r = (now, unix)" by (cases r)
  note step = watch_retry [OF Cons.prems(1), of now unix]
  show ?case
  proof (cases "now < next")
    case True
    then show ?thesis using Cons.IH [OF Cons.prems(1)] Cons.prems(2) step r by simp
  next
    case False
    let ?w = "\<lparr>rw_retry = hm_insert name (Suc k, now + from_secs (2 ^ min k 8)) (rw_retry w),
      rw_status = hm_insert name (Reconnecting (Suc k) (sat_add u64_max unix (sat_mul u64_max (2 ^ min k 8) 1000))) (rw_status w)\<rparr>"
    have eq: "watch_run name (r # rounds) w = now # watch_run name rounds ?w"
      using False step Cons.prems(2) r by simp
    have ih: "spaced (Suc k) (watch_run name rounds ?w)
        \<and> (watch_run name rounds ?w \<noteq> [] \<longrightarrow> now + from_secs (2 ^ min k 8) \<le> hd (watch_run name rounds ?w))"
      by (rule Cons.IH) (use Cons.prems(2) in simp_all)
    have "spaced k (now # watch_run name rounds ?w)"
      using ih by (cases "watch_run name rounds ?w") auto
    then show ?thesis using eq False by simp
  qed
qed simp

text \<open>Reconnection backs off.  While a channel keeps failing, the pauses between the attempts to reconnect it are at least 1, 2, 4, ..., 256
  seconds, and 256 seconds from the ninth on.\<close>

theorem reconnect_backs_off:
  assumes "hm_get (rw_retry w) name = None" and "length rounds < u32_max"
  shows "spaced 0 (watch_run name rounds w)"
proof (cases rounds)
  case (Cons r rs)
  obtain now unix where r: "r = (now, unix)" by (cases r)
  let ?w = "\<lparr>rw_retry = hm_insert name (1, now + from_secs 1) (rw_retry w),
    rw_status = hm_insert name (Reconnecting 1 (sat_add u64_max unix (sat_mul u64_max 1 1000))) (rw_status w)\<rparr>"
  have eq: "watch_run name rounds w = now # watch_run name rs ?w"
    using Cons r assms(1) by (simp add: watch_channel_def sat_add_def backoff_secs_def Let_def)
  have "spaced 1 (watch_run name rs ?w) \<and> (watch_run name rs ?w \<noteq> [] \<longrightarrow> now + from_secs 1 \<le> hd (watch_run name rs ?w))"
    by (rule watch_run_spaced) (use Cons assms(2) in simp_all)
  then show ?thesis unfolding eq by (cases "watch_run name rs ?w") auto
qed simp

theorem reconnect_backs_off_witness:
  "spaced 0 (watch_run ''slack'' [(0, 0), (30000000000, 30000)] \<lparr>rw_retry = [], rw_status = []\<rparr>)"
  by (rule reconnect_backs_off) simp_all

lemma backoff_max: "backoff_secs a \<le> 256"
  using power_increasing [of "min (a - 1) 8" 8 "2::nat"] by (simp add: backoff_secs_def)

text \<open>The health monitor over rounds of checks of one channel: the times of its reconnections.\<close>

fun health_run :: "nat \<Rightarrow> int \<Rightarrow> (int \<times> channel_status) list \<Rightarrow> channel_health \<Rightarrow> int list" where
  "health_run mf cd [] h = []"
| "health_run mf cd ((now, st) # rounds) h =
     (let (r, h1) = health_check mf cd now st h in (if r then [now] else []) @ health_run mf cd rounds h1)"

lemma health_check_cases:
  assumes "health_check mf cd now st h = (r, h1)"
  shows "(r \<longrightarrow> ch_cooldown_until h1 = Some (now + cd) \<and> (case ch_cooldown_until h of Some u \<Rightarrow> u \<le> now | None \<Rightarrow> True))
    \<and> (\<not> r \<longrightarrow> h1 = h \<or> ch_cooldown_until h1 = None \<and> (case ch_cooldown_until h of Some u \<Rightarrow> u \<le> now | None \<Rightarrow> True))"
  using assms by (cases st) (auto simp: health_check_def Let_def split: if_splits option.splits)

lemma health_run_spaced:
  "sorted (map fst rounds) \<Longrightarrow>
     successively (\<lambda>a b. a + cd \<le> b) (health_run mf cd rounds h)
     \<and> (\<forall>t \<in> set (health_run mf cd rounds h). t \<in> fst ` set rounds \<and> (case ch_cooldown_until h of Some u \<Rightarrow> u \<le> t | None \<Rightarrow> True))"
proof (induction rounds arbitrary: h)
  case (Cons x rounds)
  obtain now st where x: "x = (now, st)" by (cases x)
  obtain r h1 where c: "health_check mf cd now st h = (r, h1)" by fastforce
  note cs = health_check_cases [OF c]
  have ih: "successively (\<lambda>a b. a + cd \<le> b) (health_run mf cd rounds h1)"
    "\<And>t. t \<in> set (health_run mf cd rounds h1) \<Longrightarrow>
       t \<in> fst ` set rounds \<and> (case ch_cooldown_until h1 of Some u \<Rightarrow> u \<le> t | None \<Rightarrow> True)"
    using Cons by auto
  have later: "now \<le> t" if "t \<in> fst ` set rounds" for t using Cons.prems x that by auto
  show ?case
  proof (cases r)
    case True
    then have "\<forall>t \<in> set (health_run mf cd rounds h1). now + cd \<le> t" using ih(2) cs by fastforce
    then show ?thesis
      using True x c cs ih later by (cases "health_run mf cd rounds h1") (fastforce split: option.splits)+
  next
    case False
    then show ?thesis using x c cs ih later by (fastforce split: option.splits)
  qed
qed simp

text \<open>The health monitor reconnects a channel at most once per cooldown.\<close>

theorem health_reconnects_spaced:
  assumes "sorted (map fst rounds)"
  shows "successively (\<lambda>a b. a + cd \<le> b) (health_run mf cd rounds (health_new now))"
  using health_run_spaced [OF assms] by blast

theorem health_reconnects_spaced_witness:
  "successively (\<lambda>a b. a + 60 \<le> b) (health_run 3 60 [(30, ChError), (60, ChError), (90, ChError), (120, ChError), (150, ChError)] (health_new 0))"
  by (rule health_reconnects_spaced) simp


section \<open>The registry\<close>

definition reg_abs :: "'c channel_registry \<Rightarrow> string \<Rightarrow> (channel_info \<times> 'c) option" where
  "reg_abs r name =
     (case (hm_get (reg_channels r) name, hm_get (reg_instances r) name) of (Some i, Some c) \<Rightarrow> Some (i, c) | _ \<Rightarrow> None)"

definition reg_ok :: "'c channel_registry \<Rightarrow> bool" where
  "reg_ok r = (\<forall>name. hm_contains_key (reg_channels r) name \<longleftrightarrow> hm_contains_key (reg_instances r) name)"

datatype 'c reg_op =
    RRegister int string string 'c
  | RUnregister string
  | RConnect string "'c \<Rightarrow> (channel_error, 'c) result"
  | RDisconnect string "'c \<Rightarrow> (channel_error, 'c) result"

fun reg_exec :: "'c reg_op \<Rightarrow> 'c channel_registry \<Rightarrow> (channel_error, unit) result \<times> 'c channel_registry" where
  "reg_exec (RRegister now name ty c) r = reg_register now name ty c r"
| "reg_exec (RUnregister name) r = reg_unregister name r"
| "reg_exec (RConnect name f) r = reg_connect f name r"
| "reg_exec (RDisconnect name f) r = reg_disconnect f name r"

text \<open>What the operations promise, over one table.\<close>

fun reg_spec :: "'c reg_op \<Rightarrow> (string \<rightharpoonup> channel_info \<times> 'c) \<Rightarrow> (channel_error, string \<rightharpoonup> channel_info \<times> 'c) result" where
  "reg_spec (RRegister now name ty c) m =
     (if m name = None then Inr (m(name \<mapsto> (\<lparr>ci_name = name, ci_type = ty, ci_status = Disconnected, ci_registered_at = now\<rparr>, c)))
      else Inl (ConfigError (''Channel '' @ quoted name @ '' already registered'')))"
| "reg_spec (RUnregister name) m = (if m name = None then Inl (not_found name) else Inr (m(name := None)))"
| "reg_spec (RConnect name f) m =
     (case m name of
        None \<Rightarrow> Inl (not_found name)
      | Some (i, c) \<Rightarrow> (case f c of Inl e \<Rightarrow> Inl e | Inr c' \<Rightarrow> Inr (m(name \<mapsto> (i\<lparr>ci_status := Connected\<rparr>, c')))))"
| "reg_spec (RDisconnect name f) m =
     (case m name of
        None \<Rightarrow> Inl (not_found name)
      | Some (i, c) \<Rightarrow> (case f c of Inl e \<Rightarrow> Inl e | Inr c' \<Rightarrow> Inr (m(name \<mapsto> (i\<lparr>ci_status := Disconnected\<rparr>, c')))))"

lemma reg_abs_None:
  assumes "reg_ok r"
  shows "reg_abs r name = None \<longleftrightarrow> hm_get (reg_channels r) name = None"
proof -
  have "hm_contains_key (reg_channels r) name \<longleftrightarrow> hm_contains_key (reg_instances r) name"
    using assms unfolding reg_ok_def by (rule spec)
  then show ?thesis by (auto simp: reg_abs_def split: option.splits)
qed

lemma reg_switch_refines:
  assumes "reg_ok r"
  shows "reg_ok (snd (reg_switch st f name r))
    \<and> (case (case reg_abs r name of
               None \<Rightarrow> Inl (not_found name)
             | Some (i, c) \<Rightarrow> (case f c of Inl e \<Rightarrow> Inl e | Inr c' \<Rightarrow> Inr ((reg_abs r)(name \<mapsto> (i\<lparr>ci_status := st\<rparr>, c'))))) of
         Inl e \<Rightarrow> reg_switch st f name r = (Inl e, r)
       | Inr m \<Rightarrow> fst (reg_switch st f name r) = Inr () \<and> reg_abs (snd (reg_switch st f name r)) = m)"
proof (cases "hm_get (reg_instances r) name")
  case None
  then show ?thesis using assms by (auto simp: reg_switch_def reg_abs_def split: option.splits)
next
  case (Some c)
  then obtain i where i: "hm_get (reg_channels r) name = Some i" using assms by (auto simp: reg_ok_def)
  show ?thesis
    using assms Some i
    by (auto simp: reg_switch_def reg_abs_def reg_ok_def set_status_def fun_eq_iff split: sum.splits option.splits)
qed

text \<open>The registry behaves as one table of channels although it keeps two: every operation keeps them in step, returns the
  error of the specification without touching anything, and otherwise has its effect.\<close>

theorem registry_refines_map:
  assumes "reg_ok r"
  shows "reg_ok (snd (reg_exec op r))
    \<and> (case reg_spec op (reg_abs r) of
         Inl e \<Rightarrow> reg_exec op r = (Inl e, r)
       | Inr m \<Rightarrow> fst (reg_exec op r) = Inr () \<and> reg_abs (snd (reg_exec op r)) = m)"
proof (cases op)
  case (RRegister now name ty c)
  then show ?thesis
    using assms reg_abs_None [OF assms, of name] by (auto simp: reg_register_def reg_ok_def reg_abs_def fun_eq_iff)
next
  case (RUnregister name)
  then show ?thesis
    using assms reg_abs_None [OF assms, of name] by (auto simp: reg_unregister_def reg_ok_def reg_abs_def fun_eq_iff)
next
  case (RConnect name f)
  show ?thesis unfolding RConnect reg_exec.simps reg_spec.simps reg_connect_def by (rule reg_switch_refines [OF assms])
next
  case (RDisconnect name f)
  show ?thesis unfolding RDisconnect reg_exec.simps reg_spec.simps reg_disconnect_def by (rule reg_switch_refines [OF assms])
qed

theorem registry_refines_map_witness:
  "reg_ok (snd (reg_exec (RRegister 1 ''tg'' ''telegram'' ()) registry_new))"
  using registry_refines_map [of "registry_new" "RRegister 1 ''tg'' ''telegram'' ()"] by (simp add: reg_ok_def registry_new_def)

end
