(* ===== verification/Workspace_Triggers.thy ===== *)
theory Workspace_Triggers
  imports Prelude
begin

text \<open>
  What makes the gateway act on its own after or between turns: the heartbeat (\<^verbatim>\<open>workspace-core/heartbeat.rs\<close> and
  \<^verbatim>\<open>gateway-core/heartbeat_runner.rs\<close>), the memory flush (\<^verbatim>\<open>memory_flush.rs\<close>), the evolution step
  (\<^verbatim>\<open>evolution.rs\<close>) and auto-capture (\<^verbatim>\<open>memory-core/auto_capture.rs\<close>), with the per-session counters of
  \<^verbatim>\<open>gateway-core/http.rs\<close> that drive the last three.  The agent turns, the delivery and the parsing of clock times by
  \<^verbatim>\<open>chrono\<close> are parameters.
\<close>

section \<open>Heartbeat replies\<close>

definition HEARTBEAT_OK_TOKEN :: string where "HEARTBEAT_OK_TOKEN = ''HEARTBEAT_OK''"

record active_hours =
  ah_start :: string
  ah_end :: string
  ah_timezone :: "string option"

record heartbeat_config =
  hb_interval_secs :: nat
  hb_target :: string
  hb_prompt :: "string option"
  hb_ack_max_chars :: nat
  hb_active_hours :: "active_hours option"

definition default_heartbeat :: heartbeat_config where
  "default_heartbeat =
     \<lparr>hb_interval_secs = 1800, hb_target = ''last'', hb_prompt = None, hb_ack_max_chars = 300, hb_active_hours = None\<rparr>"

text \<open>A line of \<^verbatim>\<open>HEARTBEAT.md\<close> that is a task.\<close>

definition is_task_line :: "string \<Rightarrow> bool" where
  "is_task_line line =
     (let t = trim line in
      if t = [] \<or> starts_with t ''#'' \<or> starts_with t ''//'' \<or> starts_with t ''<!--'' then False
      else if starts_with t ''- '' \<or> starts_with t ''* '' \<or> starts_with t ''+ '' then trim (drop 2 t) \<noteq> []
      else t \<notin> {''-'', ''*'', ''+''})"

definition heartbeat_has_tasks :: "string \<Rightarrow> bool" where
  "heartbeat_has_tasks raw = list_ex is_task_line (lines_of raw)"

definition unwrap_wrapper :: "string \<Rightarrow> string \<Rightarrow> string \<Rightarrow> string" where
  "unwrap_wrapper pre suf s =
     trim (case Option.bind (strip_prefix pre s) (strip_suffix suf) of Some r \<Rightarrow> r | None \<Rightarrow> s)"

definition unwrap_and_check :: "string \<Rightarrow> bool" where
  "unwrap_and_check s =
     (unwrap_wrapper ''_'' ''_'' (unwrap_wrapper ''<b>'' ''</b>'' (unwrap_wrapper ''__'' ''__'' (unwrap_wrapper ''**'' ''**'' (trim s))))
      = HEARTBEAT_OK_TOKEN)"

text \<open>Stripping the token from the start; \<^const>\<open>None\<close> is the panic of a slice off a character boundary.\<close>

fun strip_start :: "nat list \<Rightarrow> string \<Rightarrow> (string \<times> bool) option option" where
  "strip_start [] s = Some None"
| "strip_start (n # ns) s =
     (if n \<le> length s then
        (case slice_to s n of
           None \<Rightarrow> None
         | Some candidate \<Rightarrow>
             if unwrap_and_check candidate then map_option (\<lambda>rest. Some (trim rest, True)) (slice_from s n)
             else strip_start ns s)
      else strip_start ns s)"

definition strip_heartbeat_token :: "string \<Rightarrow> (string \<times> bool) option" where
  "strip_heartbeat_token body =
     (let trimmed = trim body; n = length HEARTBEAT_OK_TOKEN in
      if unwrap_and_check trimmed then Some ([], True)
      else (case strip_start [n, n + 4] trimmed of
              None \<Rightarrow> None
            | Some (Some r) \<Rightarrow> Some r
            | Some None \<Rightarrow>
                (case strip_suffix HEARTBEAT_OK_TOKEN trimmed of
                   Some rest \<Rightarrow> Some (trim rest, True)
                 | None \<Rightarrow>
                     if ends_with trimmed (''**'' @ HEARTBEAT_OK_TOKEN @ ''**'')
                     then map_option (\<lambda>rest. (trim rest, True)) (slice_to trimmed (length trimmed - (n + 4)))
                     else Some (trimmed, False))))"

definition should_drop_heartbeat_reply :: "string \<Rightarrow> nat \<Rightarrow> bool option" where
  "should_drop_heartbeat_reply body ack_max =
     map_option (\<lambda>(remaining, had). had \<and> length remaining \<le> ack_max) (strip_heartbeat_token body)"


section \<open>Heartbeat ticks\<close>

definition EXEC_EVENT_PROMPT :: string where
  "EXEC_EVENT_PROMPT = ''An async command you ran earlier has completed. The result is shown in the system messages above. Please relay the command output to the user in a helpful way. If the command succeeded, share the relevant output. If it failed, explain what went wrong.''"

definition DEFAULT_HEARTBEAT_PROMPT :: string where
  "DEFAULT_HEARTBEAT_PROMPT = ''Read HEARTBEAT.md if it exists (workspace context). Follow it strictly. Do not infer or repeat old tasks from prior chats. If nothing needs attention, reply HEARTBEAT_OK.''"

definition effective_prompt :: "heartbeat_config \<Rightarrow> string" where
  "effective_prompt c = (case hb_prompt c of Some p \<Rightarrow> p | None \<Rightarrow> DEFAULT_HEARTBEAT_PROMPT)"

datatype heartbeat_reason_kind = RkInterval | RkManual | RkRetry | RkExecEvent | RkWake | RkCron | RkHook | RkOther

definition resolve_heartbeat_reason_kind :: "string option \<Rightarrow> heartbeat_reason_kind" where
  "resolve_heartbeat_reason_kind reason =
     (let t = to_lowercase (case reason of Some r \<Rightarrow> trim r | None \<Rightarrow> []) in
      if t = ''retry'' then RkRetry
      else if t = ''interval'' then RkInterval
      else if t = ''manual'' then RkManual
      else if t = ''exec-event'' then RkExecEvent
      else if t = ''wake'' then RkWake
      else if starts_with t ''cron:'' then RkCron
      else if starts_with t ''hook:'' then RkHook
      else RkOther)"

definition is_exec_completion_event :: "string \<Rightarrow> bool" where
  "is_exec_completion_event evt = contains (to_lowercase evt) ''exec finished''"

definition is_word_char :: "char \<Rightarrow> bool" where
  "is_word_char c =
     (48 \<le> byte c \<and> byte c \<le> 57 \<or> 65 \<le> byte c \<and> byte c \<le> 90 \<or> 97 \<le> byte c \<and> byte c \<le> 122 \<or> c = CHR ''_'')"

definition is_heartbeat_ack_event :: "string \<Rightarrow> bool" where
  "is_heartbeat_ack_event evt =
     (case strip_prefix ''heartbeat_ok'' (to_lowercase (trim evt)) of
        None \<Rightarrow> False
      | Some [] \<Rightarrow> True
      | Some (c # _) \<Rightarrow> \<not> is_word_char c)"

definition is_heartbeat_noise_event :: "string \<Rightarrow> bool" where
  "is_heartbeat_noise_event evt =
     (let lower = to_lowercase (trim evt) in
      lower \<noteq> [] \<and> (is_heartbeat_ack_event lower \<or> contains lower ''heartbeat poll'' \<or> contains lower ''heartbeat wake''))"

definition is_cron_system_event :: "string \<Rightarrow> bool" where
  "is_cron_system_event evt = (trim evt \<noteq> [] \<and> \<not> is_heartbeat_noise_event evt \<and> \<not> is_exec_completion_event evt)"

definition build_cron_event_prompt :: "string list \<Rightarrow> string" where
  "build_cron_event_prompt events =
     (let body = trim (join_with [newline] (filter (\<lambda>v. v \<noteq> []) (map trim events))) in
      if body = [] then ''A scheduled cron event was triggered, but no event content was found. Reply HEARTBEAT_OK.''
      else ''A scheduled reminder has been triggered. The reminder content is:'' @ [newline, newline] @ body @ [newline, newline]
           @ ''Please relay this reminder to the user in a helpful and friendly way.'')"

record heartbeat_runner =
  hr_config :: heartbeat_config
  hr_last_run_ms :: nat

definition should_tick :: "nat \<Rightarrow> heartbeat_runner \<Rightarrow> bool" where
  "should_tick now r =
     (hb_interval_secs (hr_config r) \<noteq> 0
      \<and> u64_mul (hb_interval_secs (hr_config r)) 1000 \<le> now - hr_last_run_ms r)"

definition is_within_active_hours :: "(string \<Rightarrow> nat option) \<Rightarrow> nat \<Rightarrow> heartbeat_config \<Rightarrow> bool" where
  "is_within_active_hours parse_time time_of_day c =
     (case hb_active_hours c of
        None \<Rightarrow> True
      | Some h \<Rightarrow>
          (case (parse_time (ah_start h), parse_time (ah_end h)) of
             (Some start, Some stop) \<Rightarrow>
               if start \<le> stop then start \<le> time_of_day \<and> time_of_day \<le> stop
               else start \<le> time_of_day \<or> time_of_day \<le> stop
           | _ \<Rightarrow> True))"

definition should_bypass_empty_file :: "string option \<Rightarrow> bool" where
  "should_bypass_empty_file reason =
     (case map_option trim reason of
        None \<Rightarrow> False
      | Some r \<Rightarrow> r \<noteq> [] \<and> resolve_heartbeat_reason_kind (Some r) \<in> {RkWake, RkExecEvent, RkCron, RkHook})"

definition heartbeat_prompt :: "string option \<Rightarrow> string list \<Rightarrow> heartbeat_config \<Rightarrow> string" where
  "heartbeat_prompt reason system_events c =
     (let clean = filter (\<lambda>v. v \<noteq> []) (map trim system_events);
          has_exec = list_ex is_exec_completion_event clean;
          cron = filter (\<lambda>e. resolve_heartbeat_reason_kind reason = RkCron \<and> is_cron_system_event e) clean;
          base = (if has_exec then EXEC_EVENT_PROMPT
                  else if cron \<noteq> [] then build_cron_event_prompt cron
                  else effective_prompt c)
      in if clean \<noteq> [] \<and> \<not> has_exec \<and> cron = []
         then base @ [newline, newline] @ ''System events queued for this wake:'' @ [newline]
              @ concat (map (\<lambda>e. ''- '' @ e @ [newline]) clean)
         else base)"

text \<open>The environment of a tick: the file, the agent turn and the delivery.\<close>

record heartbeat_env =
  he_file :: "(string, string option) result"
  he_turn :: "string \<Rightarrow> (string, string) result"
  he_deliver :: "string \<Rightarrow> string \<Rightarrow> (string, unit) result"

datatype tick_effect = TurnRun string | Delivered string string

definition run_tick ::
  "nat \<Rightarrow> heartbeat_env \<Rightarrow> string \<Rightarrow> heartbeat_runner \<Rightarrow> ((string, unit) result \<times> heartbeat_runner \<times> tick_effect list) option" where
  "run_tick now env prompt r =
     (case he_turn env prompt of
        Inl e \<Rightarrow> Some (Inl e, r, [TurnRun prompt])
      | Inr reply \<Rightarrow>
          (case should_drop_heartbeat_reply reply (hb_ack_max_chars (hr_config r)) of
             None \<Rightarrow> None
           | Some True \<Rightarrow> Some (Inr (), r\<lparr>hr_last_run_ms := now\<rparr>, [TurnRun prompt])
           | Some False \<Rightarrow>
               Some (he_deliver env (hb_target (hr_config r)) reply, r\<lparr>hr_last_run_ms := now\<rparr>,
                     [TurnRun prompt, Delivered (hb_target (hr_config r)) reply])))"

definition tick_with_options ::
  "(string \<Rightarrow> nat option) \<Rightarrow> nat \<Rightarrow> nat \<Rightarrow> bool \<Rightarrow> string option \<Rightarrow> string list \<Rightarrow> heartbeat_env \<Rightarrow> heartbeat_runner
   \<Rightarrow> ((string, unit) result \<times> heartbeat_runner \<times> tick_effect list) option" where
  "tick_with_options parse_time now time_of_day force reason events env r =
     (if \<not> force \<and> \<not> should_tick now r then Some (Inr (), r, [])
      else if \<not> is_within_active_hours parse_time time_of_day (hr_config r) then Some (Inr (), r\<lparr>hr_last_run_ms := now\<rparr>, [])
      else if should_bypass_empty_file reason then run_tick now env (heartbeat_prompt reason events (hr_config r)) r
      else (case he_file env of
              Inl e \<Rightarrow> Some (Inl e, r, [])
            | Inr (Some raw) \<Rightarrow>
                if \<not> heartbeat_has_tasks raw then Some (Inr (), r\<lparr>hr_last_run_ms := now\<rparr>, [])
                else run_tick now env (heartbeat_prompt reason events (hr_config r)) r
            | Inr None \<Rightarrow> run_tick now env (heartbeat_prompt reason events (hr_config r)) r))"


section \<open>Memory flush, evolution and capture\<close>

record memory_flush_config =
  mf_enabled :: bool
  mf_soft_threshold_tokens :: nat
  mf_reserve_tokens_floor :: nat
  mf_prompt :: "string option"

definition default_memory_flush :: memory_flush_config where
  "default_memory_flush = \<lparr>mf_enabled = True, mf_soft_threshold_tokens = 4000, mf_reserve_tokens_floor = 2000, mf_prompt = None\<rparr>"

definition should_run_memory_flush :: "nat \<Rightarrow> nat \<Rightarrow> memory_flush_config \<Rightarrow> nat \<Rightarrow> nat \<Rightarrow> bool" where
  "should_run_memory_flush total_tokens context_window c last_flush current =
     (mf_enabled c \<and> context_window - mf_reserve_tokens_floor c - mf_soft_threshold_tokens c \<le> total_tokens
      \<and> last_flush \<noteq> current)"

record evolution_config =
  ev_enabled :: bool
  ev_trigger :: nat
  ev_min_tokens :: nat
  ev_prompt :: "string option"

record evolution_state =
  es_message_count :: nat
  es_last_evolved :: nat
  es_last_date :: "string option"
  es_evolutions :: nat

definition evolution_tick :: "nat \<Rightarrow> evolution_config \<Rightarrow> evolution_state \<Rightarrow> evolution_state" where
  "evolution_tick tokens c s =
     (if ev_min_tokens c \<le> tokens then s\<lparr>es_message_count := u64_add (es_message_count s) 1\<rparr> else s)"

definition should_run_evolution :: "evolution_state \<Rightarrow> evolution_config \<Rightarrow> bool" where
  "should_run_evolution s c =
     (ev_enabled c \<and> 0 < es_message_count s \<and> ev_trigger c \<le> usize_sub (es_message_count s) (es_last_evolved s))"

text \<open>One call of \<^verbatim>\<open>try_evolution\<close>: \<open>outcome\<close> is whether the agent turn succeeded; the flag says that it ran.\<close>

definition try_evolution :: "nat \<Rightarrow> string \<Rightarrow> bool \<Rightarrow> evolution_config \<Rightarrow> evolution_state \<Rightarrow> bool \<times> evolution_state" where
  "try_evolution tokens today outcome c s =
     (let s1 = evolution_tick tokens c s in
      if \<not> should_run_evolution s1 c then (False, s1)
      else (True, if outcome
                  then s1\<lparr>es_last_evolved := es_message_count s1, es_last_date := Some today, es_evolutions := u64_add (es_evolutions s1) 1\<rparr>
                  else s1))"

record auto_capture_config =
  ac_enabled :: bool
  ac_min_message_count :: nat
  ac_capture_facts :: bool
  ac_capture_preferences :: bool
  ac_capture_decisions :: bool
  ac_max_captures :: nat

definition default_auto_capture :: auto_capture_config where
  "default_auto_capture =
     \<lparr>ac_enabled = True, ac_min_message_count = 3, ac_capture_facts = True, ac_capture_preferences = True,
      ac_capture_decisions = True, ac_max_captures = 5\<rparr>"

datatype capture_category = Fact | Preference | Decision | Instruction

record captured_memory =
  cm_content :: string
  cm_category :: capture_category
  cm_confidence :: rat

fun category_enabled :: "auto_capture_config \<Rightarrow> capture_category \<Rightarrow> bool" where
  "category_enabled c Fact = ac_capture_facts c"
| "category_enabled c Preference = ac_capture_preferences c"
| "category_enabled c Decision = ac_capture_decisions c"
| "category_enabled c Instruction = True"

definition filter_by_config :: "captured_memory list \<Rightarrow> auto_capture_config \<Rightarrow> captured_memory list" where
  "filter_by_config items c = take (ac_max_captures c) (filter (\<lambda>m. category_enabled c (cm_category m)) items)"

definition should_capture :: "nat \<Rightarrow> auto_capture_config \<Rightarrow> bool" where
  "should_capture n c = (ac_enabled c \<and> ac_min_message_count c \<le> n)"

text \<open>The counters of the sessions.\<close>

record session_counters =
  sc_flush :: "(string, nat) hash_map"
  sc_usage :: "(string, nat) hash_map"
  sc_turns :: "(string, nat) hash_map"
  sc_capture :: "(string, nat) hash_map"

definition counters_new :: session_counters where
  "counters_new = \<lparr>sc_flush = [], sc_usage = [], sc_turns = [], sc_capture = []\<rparr>"

definition counter_get :: "nat \<Rightarrow> (string, nat) hash_map \<Rightarrow> string \<Rightarrow> nat" where
  "counter_get d m k = (case hm_get m k of Some n \<Rightarrow> n | None \<Rightarrow> d)"

definition last_flush_compaction_count :: "string \<Rightarrow> session_counters \<Rightarrow> nat" where
  "last_flush_compaction_count sid s = counter_get u64_max (sc_flush s) sid"

definition set_last_flush_compaction_count :: "string \<Rightarrow> nat \<Rightarrow> session_counters \<Rightarrow> session_counters" where
  "set_last_flush_compaction_count sid n s = s\<lparr>sc_flush := hm_insert sid n (sc_flush s)\<rparr>"

definition add_session_usage_tokens :: "string \<Rightarrow> nat \<Rightarrow> session_counters \<Rightarrow> nat \<times> session_counters" where
  "add_session_usage_tokens sid tokens s =
     (let n = sat_add u64_max (counter_get 0 (sc_usage s) sid) tokens in (n, s\<lparr>sc_usage := hm_insert sid n (sc_usage s)\<rparr>))"

definition bump_session_turn_count :: "string \<Rightarrow> session_counters \<Rightarrow> nat \<times> session_counters" where
  "bump_session_turn_count sid s =
     (let n = sat_add u64_max (counter_get 0 (sc_turns s) sid) 1 in (n, s\<lparr>sc_turns := hm_insert sid n (sc_turns s)\<rparr>))"

definition bump_auto_capture_count :: "string \<Rightarrow> session_counters \<Rightarrow> nat \<times> session_counters" where
  "bump_auto_capture_count sid s =
     (let n = sat_add u64_max (counter_get 0 (sc_capture s) sid) 1 in (n, s\<lparr>sc_capture := hm_insert sid n (sc_capture s)\<rparr>))"

definition clear_session_counters :: "string \<Rightarrow> session_counters \<Rightarrow> session_counters" where
  "clear_session_counters sid s =
     \<lparr>sc_flush = hm_remove sid (sc_flush s), sc_usage = hm_remove sid (sc_usage s),
      sc_turns = hm_remove sid (sc_turns s), sc_capture = hm_remove sid (sc_capture s)\<rparr>"

text \<open>The memory flush after a turn: \<open>flush_ok\<close> is whether its agent turn succeeds.\<close>

definition turn_flush :: "memory_flush_config \<Rightarrow> bool \<Rightarrow> string \<Rightarrow> nat \<Rightarrow> session_counters \<Rightarrow> bool \<times> session_counters" where
  "turn_flush c flush_ok sid tokens s =
     (let (total_tokens, s1) = add_session_usage_tokens sid tokens s;
          (compaction_count, s2) = bump_session_turn_count sid s1
      in if should_run_memory_flush total_tokens 128000 c (last_flush_compaction_count sid s2) compaction_count
         then (True, if flush_ok then set_last_flush_compaction_count sid compaction_count s2 else s2)
         else (False, s2))"

definition turn_capture :: "auto_capture_config \<Rightarrow> string \<Rightarrow> string \<Rightarrow> session_counters \<Rightarrow> bool \<times> session_counters" where
  "turn_capture c sid reply s =
     (let (n, s1) = bump_auto_capture_count sid s
      in (should_capture n c \<and> n \<le> ac_max_captures c \<and> trim reply \<noteq> [], s1))"


section \<open>Heartbeat properties\<close>

lemma single_bytes_boundary: "list_all (\<lambda>c. \<not> continuation c) s \<Longrightarrow> n \<le> length s \<Longrightarrow> is_char_boundary s n"
  by (auto simp: is_char_boundary_def list_all_length)

lemma single_bytes_trim: "list_all (\<lambda>c. \<not> continuation c) s \<Longrightarrow> list_all (\<lambda>c. \<not> continuation c) (trim s)"
  using set_mono_sublist [OF trim_sublist [of s]] by (auto simp: list_all_iff)

lemma strip_start_total: "list_all (\<lambda>c. \<not> continuation c) s \<Longrightarrow> strip_start ns s \<noteq> None"
  by (induction ns) (auto simp: single_bytes_boundary)

definition ni :: string where "ni = [CHR 0xE4, CHR 0xBD, CHR 0xA0]"

text \<open>The reply of a heartbeat turn is searched for the token at two byte offsets.  A reply without multi-byte characters is
  always handled, and a reply of six Chinese characters makes the tick panic.\<close>

theorem heartbeat_reply_panics:
  "(list_all (\<lambda>c. \<not> continuation c) reply \<longrightarrow> should_drop_heartbeat_reply reply n \<noteq> None)
   \<and> should_drop_heartbeat_reply (ni @ ni @ ni @ ni @ ni @ ni) m = None"
proof
  show "list_all (\<lambda>c. \<not> continuation c) reply \<longrightarrow> should_drop_heartbeat_reply reply n \<noteq> None"
  proof
    assume "list_all (\<lambda>c. \<not> continuation c) reply"
    then have s: "list_all (\<lambda>c. \<not> continuation c) (trim reply)" by (rule single_bytes_trim)
    then have "strip_start ns (trim reply) \<noteq> None" for ns by (rule strip_start_total)
    then show "should_drop_heartbeat_reply reply n \<noteq> None"
      using single_bytes_boundary [OF s]
      by (auto simp: should_drop_heartbeat_reply_def strip_heartbeat_token_def Let_def split: option.splits)
  qed
  have "strip_heartbeat_token (ni @ ni @ ni @ ni @ ni @ ni) = None" by code_simp
  then show "should_drop_heartbeat_reply (ni @ ni @ ni @ ni @ ni @ ni) m = None"
    by (simp add: should_drop_heartbeat_reply_def)
qed

theorem heartbeat_reply_panics_witness: "should_drop_heartbeat_reply ''All is quiet.'' 300 \<noteq> None"
  using heartbeat_reply_panics [THEN conjunct1, of "''All is quiet.''" 300] by (simp add: continuation_def)

text \<open>Unforced ticks at increasing times, each with its own surroundings; the times of the turns that succeeded.  A panic ends the run.\<close>

fun heartbeat_run :: "(string \<Rightarrow> nat option) \<Rightarrow> (nat \<times> nat \<times> heartbeat_env) list \<Rightarrow> heartbeat_runner \<Rightarrow> nat list" where
  "heartbeat_run pt [] r = []"
| "heartbeat_run pt ((now, tod, env) # ticks) r =
     (case tick_with_options pt now tod False None [] env r of
        None \<Rightarrow> []
      | Some (res, r', effs) \<Rightarrow>
          (if effs \<noteq> [] \<and> (\<exists>reply. he_turn env (effective_prompt (hr_config r)) = Inr reply) then [now] else [])
          @ heartbeat_run pt ticks r')"

lemma run_tick_cases:
  assumes "run_tick now env prompt r = Some (res, r', effs)"
  shows "hr_config r' = hr_config r"
    "he_turn env prompt = Inl e \<Longrightarrow> r' = r" "he_turn env prompt = Inr reply \<Longrightarrow> r' = r\<lparr>hr_last_run_ms := now\<rparr>"
  using assms by (auto simp: run_tick_def split: sum.splits option.splits bool.splits)

lemma plain_tick_cases:
  assumes "tick_with_options pt now tod False None [] env r = Some (res, r', effs)"
  shows "hr_config r' = hr_config r \<and> (r' = r \<or> hr_last_run_ms r' = now)
    \<and> (effs \<noteq> [] \<longrightarrow> should_tick now r \<and> (\<forall>reply. he_turn env (effective_prompt (hr_config r)) = Inr reply \<longrightarrow> hr_last_run_ms r' = now))"
proof -
  have prompt: "heartbeat_prompt None [] c = effective_prompt c" for c
    by (simp add: heartbeat_prompt_def Let_def)
  have bypass: "should_bypass_empty_file None = False"
    by (simp add: should_bypass_empty_file_def)
  show ?thesis
  proof (cases "run_tick now env (effective_prompt (hr_config r)) r = Some (res, r', effs)")
    case True
    note rc = run_tick_cases [OF True]
    have "r' = r \<or> hr_last_run_ms r' = now"
      using rc(2,3) by (cases "he_turn env (effective_prompt (hr_config r))") auto
    then show ?thesis
      using assms rc(1,3) by (auto simp: tick_with_options_def split: if_splits)
  next
    case False
    then show ?thesis
      using assms by (auto simp: tick_with_options_def prompt bypass split: if_splits sum.splits option.splits)
  qed
qed

lemma heartbeat_run_spaced:
  assumes "hb_interval_secs (hr_config r) * 1000 < 2 ^ 64" and "sorted (hr_last_run_ms r # map fst ticks)"
  shows "successively (\<lambda>a b. a + hb_interval_secs (hr_config r) * 1000 \<le> b) (heartbeat_run pt ticks r)
    \<and> (\<forall>t \<in> set (heartbeat_run pt ticks r). hr_last_run_ms r + hb_interval_secs (hr_config r) * 1000 \<le> t)"
  using assms
proof (induction ticks arbitrary: r)
  case (Cons x ticks)
  obtain now tod env where x: "x = (now, tod, env)" by (cases x)
  let ?iv = "hb_interval_secs (hr_config r) * 1000"
  show ?case
  proof (cases "tick_with_options pt now tod False None [] env r")
    case (Some out)
    obtain res r' effs where out: "out = (res, r', effs)" by (cases out)
    note pc = plain_tick_cases [OF Some [unfolded out]]
    have srt: "sorted (hr_last_run_ms r' # map fst ticks)"
      using pc Cons.prems(2) x by auto
    have ih: "successively (\<lambda>a b. a + ?iv \<le> b) (heartbeat_run pt ticks r')"
      "\<forall>t \<in> set (heartbeat_run pt ticks r'). hr_last_run_ms r' + ?iv \<le> t"
      using Cons.IH [of r'] Cons.prems(1) srt pc by auto
    have le: "hr_last_run_ms r \<le> hr_last_run_ms r'" using pc Cons.prems(2) x by auto
    then have later: "\<forall>t \<in> set (heartbeat_run pt ticks r'). hr_last_run_ms r + ?iv \<le> t"
      using ih(2) by (meson add_le_mono1 order_trans)
    show ?thesis
    proof (cases "effs \<noteq> [] \<and> (\<exists>reply. he_turn env (effective_prompt (hr_config r)) = Inr reply)")
      case True
      then have now: "hr_last_run_ms r' = now" "should_tick now r" using pc by auto
      then have "hr_last_run_ms r + ?iv \<le> now"
        using Cons.prems x by (auto simp: should_tick_def u64_mul_exact)
      moreover have "successively (\<lambda>a b. a + ?iv \<le> b) (now # heartbeat_run pt ticks r')"
        using ih now by (cases "heartbeat_run pt ticks r'") auto
      ultimately show ?thesis using True Some out x later by simp
    next
      case False
      then have "heartbeat_run pt (x # ticks) r = heartbeat_run pt ticks r'" using Some out x by auto
      then show ?thesis using later ih by simp
    qed
  qed (use x in simp)
qed simp

text \<open>Heartbeats keep their distance: between two successful turns of unforced ticks lies at least the configured interval.\<close>

theorem heartbeats_spaced:
  assumes "hb_interval_secs (hr_config r) * 1000 < 2 ^ 64" and "sorted (hr_last_run_ms r # map fst ticks)"
  shows "successively (\<lambda>a b. a + hb_interval_secs (hr_config r) * 1000 \<le> b) (heartbeat_run pt ticks r)"
  using heartbeat_run_spaced [OF assms] by blast

theorem heartbeats_spaced_witness:
  "successively (\<lambda>a b. a + 1800 * 1000 \<le> b)
     (heartbeat_run (\<lambda>_. None)
        [(1800000, 0, \<lparr>he_file = Inr None, he_turn = (\<lambda>_. Inr ''HEARTBEAT_OK''), he_deliver = (\<lambda>_ _. Inr ())\<rparr>)]
        \<lparr>hr_config = default_heartbeat, hr_last_run_ms = 0\<rparr>)"
  using heartbeats_spaced [of "\<lparr>hr_config = default_heartbeat, hr_last_run_ms = 0\<rparr>"
      "[(1800000, 0, \<lparr>he_file = Inr None, he_turn = (\<lambda>_. Inr ''HEARTBEAT_OK''), he_deliver = (\<lambda>_ _. Inr ())\<rparr>)]" "\<lambda>_. None"]
  by (simp add: default_heartbeat_def)


section \<open>Properties of the counters\<close>

definition flush_inv :: "string \<Rightarrow> session_counters \<Rightarrow> bool" where
  "flush_inv sid s =
     (last_flush_compaction_count sid s = u64_max \<or> last_flush_compaction_count sid s \<le> counter_get 0 (sc_turns s) sid)"

text \<open>When memories are flushed.  The round that a flush belongs to is the number of the turn, so that once the tokens of a session
  add up to the threshold a flush runs after every further turn, also right after a successful one.\<close>

theorem flush_after_every_turn:
  assumes "flush_inv sid s" and "counter_get 0 (sc_turns s) sid + 1 < u64_max"
  shows "fst (turn_flush c flush_ok sid tokens s) =
      (mf_enabled c \<and> 128000 - mf_reserve_tokens_floor c - mf_soft_threshold_tokens c
         \<le> sat_add u64_max (counter_get 0 (sc_usage s) sid) tokens)
    \<and> flush_inv sid (snd (turn_flush c flush_ok sid tokens s))"
proof -
  have "last_flush_compaction_count sid s \<noteq> counter_get 0 (sc_turns s) sid + 1"
    using assms by (auto simp: flush_inv_def)
  then show ?thesis
    using assms
    by (auto simp: turn_flush_def add_session_usage_tokens_def bump_session_turn_count_def set_last_flush_compaction_count_def
        should_run_memory_flush_def flush_inv_def last_flush_compaction_count_def counter_get_def sat_add_def Let_def split: if_splits)
qed

theorem flush_after_every_turn_witness:
  "fst (turn_flush default_memory_flush True ''s'' 10 (snd (turn_flush default_memory_flush True ''s'' 122000 counters_new)))"
proof -
  let ?s = "snd (turn_flush default_memory_flush True ''s'' 122000 counters_new)"
  have inv: "flush_inv ''s'' ?s"
    using flush_after_every_turn [of "''s''" counters_new default_memory_flush True 122000]
    by (simp add: flush_inv_def last_flush_compaction_count_def counter_get_def counters_new_def)
  have "counter_get 0 (sc_turns ?s) ''s'' = 1" "counter_get 0 (sc_usage ?s) ''s'' = 122000"
    by (simp_all add: turn_flush_def add_session_usage_tokens_def bump_session_turn_count_def set_last_flush_compaction_count_def
        counter_get_def counters_new_def sat_add_def)
  then show ?thesis
    using flush_after_every_turn [OF inv, of default_memory_flush True 10] by (simp add: default_memory_flush_def sat_add_def)
qed

fun capture_run :: "auto_capture_config \<Rightarrow> string \<Rightarrow> string list \<Rightarrow> session_counters \<Rightarrow> nat" where
  "capture_run c sid [] s = 0"
| "capture_run c sid (r # rs) s = (let (yes, s1) = turn_capture c sid r s in (if yes then 1 else 0) + capture_run c sid rs s1)"

lemma capture_run_bound:
  assumes "counter_get 0 (sc_capture s) sid + length replies < u64_max"
  shows "capture_run c sid replies s
    \<le> Suc (ac_max_captures c) - max (ac_min_message_count c) (Suc (counter_get 0 (sc_capture s) sid))"
  using assms
proof (induction replies arbitrary: s)
  case (Cons r rs)
  let ?k = "counter_get 0 (sc_capture s) sid"
  let ?s1 = "snd (turn_capture c sid r s)"
  have k: "counter_get 0 (sc_capture ?s1) sid = Suc ?k" "fst (turn_capture c sid r s) \<longrightarrow> ac_min_message_count c \<le> Suc ?k \<and> Suc ?k \<le> ac_max_captures c"
    using Cons.prems by (auto simp: turn_capture_def bump_auto_capture_count_def counter_get_def sat_add_def should_capture_def Let_def)
  have "capture_run c sid rs ?s1 \<le> Suc (ac_max_captures c) - max (ac_min_message_count c) (Suc (Suc ?k))"
    using Cons.IH [of ?s1] Cons.prems k(1) by simp
  moreover have "capture_run c sid (r # rs) s = (if fst (turn_capture c sid r s) then 1 else 0) + capture_run c sid rs ?s1"
    by (simp split: prod.split)
  ultimately show ?case using k(2) by (auto simp: max_def split: if_splits)
qed simp

text \<open>How much a session can capture.  The limit is compared with the number of the turn and not with the number of captures, so a
  session captures at most one reply for every turn from the minimum to the limit: three with the defaults of three and
  five, and none after its fifth turn.\<close>

theorem captures_bounded:
  assumes "length replies < u64_max"
  shows "capture_run c sid replies (clear_session_counters sid s) \<le> Suc (ac_max_captures c) - max (ac_min_message_count c) 1"
  using capture_run_bound [of "clear_session_counters sid s" sid replies c] assms
  by (simp add: counter_get_def clear_session_counters_def)

theorem captures_bounded_witness:
  "capture_run default_auto_capture ''s''
     [''a'', ''b'', ''c'', ''d'', ''e'', ''f'', ''g''] (clear_session_counters ''s'' counters_new) \<le> 3"
  using captures_bounded [of "[''a'', ''b'', ''c'', ''d'', ''e'', ''f'', ''g'']"
      default_auto_capture "''s''" counters_new] by (simp add: default_auto_capture_def)

fun evolution_run :: "evolution_config \<Rightarrow> (nat \<times> string \<times> bool) list \<Rightarrow> evolution_state \<Rightarrow> evolution_state" where
  "evolution_run c [] s = s"
| "evolution_run c ((tokens, today, ok) # turns) s = evolution_run c turns (snd (try_evolution tokens today ok c s))"

definition evolution_ok :: "evolution_config \<Rightarrow> evolution_state \<Rightarrow> bool" where
  "evolution_ok c s =
     (es_evolutions s * ev_trigger c \<le> es_last_evolved s \<and> es_last_evolved s \<le> es_message_count s \<and> es_evolutions s \<le> es_last_evolved s)"

lemma try_evolution_ok:
  assumes "evolution_ok c s" and "es_message_count s + 1 < 2 ^ 64" and "0 < ev_trigger c"
  shows "evolution_ok c (snd (try_evolution tokens today ok c s))
    \<and> es_message_count (snd (try_evolution tokens today ok c s)) \<le> es_message_count s + 1"
proof -
  let ?s1 = "evolution_tick tokens c s"
  have s1: "es_message_count ?s1 = es_message_count s + (if ev_min_tokens c \<le> tokens then 1 else 0)"
    "es_last_evolved ?s1 = es_last_evolved s" "es_evolutions ?s1 = es_evolutions s"
    using assms(2) by (auto simp: evolution_tick_def u64_add_exact)
  show ?thesis
  proof (cases "should_run_evolution ?s1 c")
    case True
    then have gap: "es_last_evolved s + ev_trigger c \<le> es_message_count ?s1"
      using s1 assms(1) by (auto simp: should_run_evolution_def usize_sub_def evolution_ok_def split: if_splits)
    moreover have "es_evolutions s + 1 < 2 ^ 64"
      using assms(1,2) by (auto simp: evolution_ok_def)
    ultimately show ?thesis
      using True s1 assms(1,3) by (auto simp: try_evolution_def evolution_ok_def u64_add_exact Let_def)
  next
    case False
    then show ?thesis using s1 assms(1) by (auto simp: try_evolution_def evolution_ok_def Let_def)
  qed
qed

lemma evolution_run_ok:
  assumes "0 < ev_trigger c"
  shows "evolution_ok c s \<Longrightarrow> es_message_count s + length turns < 2 ^ 64 \<Longrightarrow> evolution_ok c (evolution_run c turns s)"
proof (induction turns arbitrary: s)
  case (Cons x turns)
  obtain tokens today ok where x: "x = (tokens, today, ok)" by (cases x)
  show ?case
    using Cons try_evolution_ok [OF Cons.prems(1) _ assms, of tokens today ok] x by simp
qed simp

text \<open>Evolution is rationed: however the turns go, there is at most one completed evolution for every configured number of counted
  messages.\<close>

theorem evolution_rationed:
  assumes "0 < ev_trigger c" and "length turns < 2 ^ 64"
    and "s = evolution_run c turns \<lparr>es_message_count = 0, es_last_evolved = 0, es_last_date = None, es_evolutions = 0\<rparr>"
  shows "es_evolutions s * ev_trigger c \<le> es_message_count s"
  using evolution_run_ok [OF assms(1), of "\<lparr>es_message_count = 0, es_last_evolved = 0, es_last_date = None, es_evolutions = 0\<rparr>" turns] assms(2,3)
  by (simp add: evolution_ok_def)

theorem evolution_rationed_witness:
  "es_evolutions (evolution_run \<lparr>ev_enabled = True, ev_trigger = 2, ev_min_tokens = 0, ev_prompt = None\<rparr> [(5, ''d'', True), (5, ''d'', True), (5, ''d'', True)]
     \<lparr>es_message_count = 0, es_last_evolved = 0, es_last_date = None, es_evolutions = 0\<rparr>) * 2 \<le> 3"
  using evolution_rationed [of "\<lparr>ev_enabled = True, ev_trigger = 2, ev_min_tokens = 0, ev_prompt = None\<rparr>" "[(5, ''d'', True), (5, ''d'', True), (5, ''d'', True)]"]
  by (simp add: try_evolution_def evolution_tick_def should_run_evolution_def usize_sub_def u64_add_def Let_def)

end
