(* ===== verification/Str_Util.thy ===== *)
theory Str_Util
  imports Prelude
begin

text \<open>
  \<^verbatim>\<open>agent-core/src/str_util.rs\<close>, \<^verbatim>\<open>tools-core/src/truncation.rs\<close> and the agent's own
  \<^verbatim>\<open>truncate_tool_result\<close>: cutting byte strings at character and line boundaries.  A result of
  type option is \<^const>\<open>None\<close> where the Rust code panics on a slice inside a character.
\<close>

section \<open>floor_char_boundary\<close>

fun floor_loop :: "string \<Rightarrow> nat \<Rightarrow> nat" where
  "floor_loop s 0 = 0"
| "floor_loop s (Suc i) = (if \<not> is_char_boundary s (Suc i) then floor_loop s i else Suc i)"

definition floor_char_boundary :: "string \<Rightarrow> nat \<Rightarrow> nat" where
  "floor_char_boundary s index =
     (if length s \<le> index then length s else floor_loop s index)"

lemma floor_loop_spec:
  "is_char_boundary s (floor_loop s i) \<and> floor_loop s i \<le> i
   \<and> (\<forall>j. floor_loop s i < j \<and> j \<le> i \<longrightarrow> \<not> is_char_boundary s j)"
  by (induction i) (auto simp: le_Suc_eq)

lemma floor_char_boundary_boundary [simp, intro]: "is_char_boundary s (floor_char_boundary s i)"
  using floor_loop_spec by (simp add: floor_char_boundary_def)

lemma floor_char_boundary_le: "floor_char_boundary s i \<le> i"
  using floor_loop_spec [of s i] by (simp add: floor_char_boundary_def)

lemma floor_char_boundary_le_length: "floor_char_boundary s i \<le> length s"
  by (rule is_char_boundary_le) simp

lemma floor_char_boundary_greatest:
  assumes "is_char_boundary s j" and "j \<le> i"
  shows "j \<le> floor_char_boundary s i"
proof (cases "length s \<le> i")
  case True
  then show ?thesis
    using assms(1) is_char_boundary_le by (simp add: floor_char_boundary_def)
next
  case False
  then show ?thesis
    using floor_loop_spec [of s i] assms by (simp add: floor_char_boundary_def) (meson not_le)
qed


section \<open>Cut positions\<close>

text \<open>
  The contract every caller of a slice \<^verbatim>\<open>&s[..cut]\<close> relies on: the cut is a character boundary
  and lies within a bound.  Slices at such a cut never panic.
\<close>

locale safe_cut =
  fixes cut :: "string \<Rightarrow> nat"
    and bound :: "string \<Rightarrow> nat"
  assumes cut_boundary: "is_char_boundary s (cut s)"
    and cut_bound: "cut s \<le> bound s"
begin

lemma slice_defined: "slice_to s (cut s) = Some (take (cut s) s)"
  by (simp add: cut_boundary)

lemma rest_defined: "slice_from s (cut s) = Some (drop (cut s) s)"
  by (simp add: cut_boundary)

lemma kept_length: "length (take (cut s) s) \<le> bound s"
  using cut_bound by (simp add: min.coboundedI2)

lemma kept_line_cut: "slice_to s (line_cut s (cut s)) = Some (take (line_cut s (cut s)) s)"
  by (simp add: cut_boundary line_cut_boundary)

end

interpretation fcb: safe_cut "\<lambda>s. floor_char_boundary s i" "\<lambda>s. i" for i
  by unfold_locales (simp_all add: floor_char_boundary_le)

interpretation fcb_line: safe_cut "\<lambda>s. line_cut s (floor_char_boundary s i)" "\<lambda>s. i" for i
proof
  fix s
  show "is_char_boundary s (line_cut s (floor_char_boundary s i))"
    by (simp add: line_cut_boundary)
  show "line_cut s (floor_char_boundary s i) \<le> i"
    using line_cut_le floor_char_boundary_le order.trans by blast
qed


text \<open>The idiom shared by the context guard and the agent: the text before the last newline of
  \<^verbatim>\<open>s[..floor_char_boundary(s, k)]\<close>, or that whole text.\<close>

definition line_prefix :: "string \<Rightarrow> nat \<Rightarrow> string option" where
  "line_prefix s k =
     (let safe = floor_char_boundary s k
      in case slice_to s safe of
           None \<Rightarrow> None
         | Some h \<Rightarrow> slice_to s (case rfind_char newline h of Some i \<Rightarrow> i | None \<Rightarrow> safe))"

lemma line_prefix_defined: "line_prefix s k = Some (take (line_cut s (floor_char_boundary s k)) s)"
proof -
  have "line_prefix s k = slice_to s (line_cut s (floor_char_boundary s k))"
    using fcb.slice_defined [where i = k and s = s] by (simp add: line_prefix_def line_cut_def Let_def)
  then show ?thesis
    using fcb_line.slice_defined [where i = k and s = s] by simp
qed

lemma line_prefix_length: "line_prefix s k = Some t \<Longrightarrow> length t \<le> k \<and> prefix t s"
  using fcb_line.kept_length [where i = k and s = s] by (auto simp: line_prefix_defined take_is_prefix)


section \<open>The agent's tool-result truncation\<close>

definition truncation_suffix :: string where
  "truncation_suffix =
     [newline, newline] @ ''[Content truncated '' @ em_dash
     @ '' original was too large for the model'' @ [CHR 0x27] @ ''s context window. ''
     @ ''If you need more, request specific sections or use offset/limit parameters.]''"

text \<open>\<^verbatim>\<open>Agent::truncate_tool_result\<close>; the newline cut is used only in the last fifth.\<close>

definition late_line_cut :: "string \<Rightarrow> nat \<Rightarrow> nat" where
  "late_line_cut h keep =
     (case rfind_char newline h of
        Some i \<Rightarrow> if i > keep * 4 div 5 then i else keep
      | None \<Rightarrow> keep)"

definition agent_truncate_tool_result :: "string \<Rightarrow> nat \<Rightarrow> string option" where
  "agent_truncate_tool_result s max_chars =
     (if length s \<le> max_chars then Some s
      else
        let keep0 = max (max_chars - length truncation_suffix) 2000;
            keep = floor_char_boundary s keep0
        in case slice_to s keep of
             None \<Rightarrow> None
           | Some h \<Rightarrow>
               map_option (\<lambda>kept. kept @ truncation_suffix) (slice_to s (late_line_cut h keep)))"

lemma late_line_cut_cases:
  "late_line_cut (take k s) k = k \<or> late_line_cut (take k s) k = line_cut s k"
  by (auto simp: late_line_cut_def line_cut_def split: option.splits)

interpretation late: safe_cut
  "\<lambda>s. late_line_cut (take (floor_char_boundary s i) s) (floor_char_boundary s i)" "\<lambda>s. i" for i
proof
  fix s
  let ?k = "floor_char_boundary s i"
  show "is_char_boundary s (late_line_cut (take ?k s) ?k)"
    using late_line_cut_cases [of ?k s] line_cut_boundary [of s ?k] by (elim disjE) simp_all
  show "late_line_cut (take ?k s) ?k \<le> i"
    using late_line_cut_cases [of ?k s] line_cut_le [of s ?k] floor_char_boundary_le [of s i]
    by (elim disjE) simp_all
qed

lemma agent_truncate_cut:
  assumes "max_chars < length s"
  shows "\<exists>cut \<le> max (max_chars - length truncation_suffix) 2000.
    agent_truncate_tool_result s max_chars = Some (take cut s @ truncation_suffix)"
proof -
  let ?lim = "max (max_chars - length truncation_suffix) 2000"
  let ?k = "floor_char_boundary s ?lim"
  have "agent_truncate_tool_result s max_chars =
      Some (take (late_line_cut (take ?k s) ?k) s @ truncation_suffix)"
    using assms late.slice_defined [where i = ?lim and s = s] by (simp add: agent_truncate_tool_result_def Let_def)
  then show ?thesis
    using late.cut_bound [where i = ?lim and s = s] by blast
qed

lemma agent_truncate_total: "\<exists>t. agent_truncate_tool_result s n = Some t"
  using agent_truncate_cut [of n s] by (cases "length s \<le> n") (auto simp: agent_truncate_tool_result_def)


section \<open>tools-core truncation\<close>

record truncation_config =
  tr_max_chars :: nat
  tr_max_lines :: nat
  truncation_message :: string

definition default_truncation_config :: truncation_config where
  "default_truncation_config =
     \<lparr>tr_max_chars = 50000, tr_max_lines = 500, truncation_message = ''[truncated]''\<rparr>"

definition smart_truncate :: "string \<Rightarrow> nat \<Rightarrow> string option" where
  "smart_truncate result max_chars =
     (if length result \<le> max_chars then Some result
      else case slice_to result max_chars of
             None \<Rightarrow> None
           | Some slice \<Rightarrow>
               let cut = (case rfind_char newline slice of Some i \<Rightarrow> i | None \<Rightarrow> max_chars)
               in map_option
                    (\<lambda>kept. kept @ [newline, newline] @ ''[truncated, showing first ''
                       @ show_nat cut @ '' of '' @ show_nat (length result) @ '' chars]'')
                    (slice_to result cut))"

definition tools_truncate_tool_result :: "string \<Rightarrow> truncation_config \<Rightarrow> string option" where
  "tools_truncate_tool_result result cfg =
     (if length result \<le> tr_max_chars cfg \<and> length (lines_of result) \<le> tr_max_lines cfg
      then Some result
      else smart_truncate result (min (tr_max_chars cfg) (tr_max_lines cfg * 200)))"

lemma smart_truncate_defined:
  assumes "max_chars < length result" and "is_char_boundary result max_chars"
  shows "smart_truncate result max_chars =
    Some (take (line_cut result max_chars) result @ [newline, newline]
      @ ''[truncated, showing first '' @ show_nat (line_cut result max_chars) @ '' of ''
      @ show_nat (length result) @ '' chars]'')"
proof -
  let ?cut = "case rfind_char newline (take max_chars result) of Some i \<Rightarrow> i | None \<Rightarrow> max_chars"
  have cut: "?cut = line_cut result max_chars"
    by (simp add: line_cut_def)
  have "slice_to result (line_cut result max_chars) = Some (take (line_cut result max_chars) result)"
    using assms(2) by (simp add: line_cut_boundary)
  with cut show ?thesis
    using assms by (simp add: smart_truncate_def Let_def)
qed

lemma smart_truncate_panics:
  "max_chars < length result \<Longrightarrow> \<not> is_char_boundary result max_chars \<Longrightarrow>
     smart_truncate result max_chars = None"
  by (simp add: smart_truncate_def slice_to_def)


section \<open>Properties\<close>

text \<open>Truncating a tool result in the agent never panics and is bounded.  For every byte string
  and limit the result is defined; a text within the limit is unchanged; a longer one becomes a prefix of it
  followed by the notice, of at most the limit or the 2000 byte minimum plus the notice.\<close>

theorem agent_truncation_safe:
  "\<exists>t. agent_truncate_tool_result s n = Some t
     \<and> (if length s \<le> n then t = s
        else \<exists>p. t = p @ truncation_suffix \<and> prefix p s
               \<and> length t \<le> max n (2000 + length truncation_suffix))"
proof (cases "length s \<le> n")
  case True
  then show ?thesis by (simp add: agent_truncate_tool_result_def)
next
  case False
  then obtain c where c: "c \<le> max (n - length truncation_suffix) 2000"
      "agent_truncate_tool_result s n = Some (take c s @ truncation_suffix)"
    using agent_truncate_cut [of n s] by auto
  moreover have "length (take c s @ truncation_suffix) \<le> max n (2000 + length truncation_suffix)"
    using c(1) by auto
  ultimately show ?thesis
    using False take_is_prefix by auto
qed

text \<open>The tools crate's truncation panics exactly when the byte limit falls inside a character:
  it slices at the limit itself instead of at a character boundary.\<close>

theorem smart_truncate_panics_iff:
  "smart_truncate s n = None \<longleftrightarrow> n < length s \<and> \<not> is_char_boundary s n"
  using smart_truncate_defined [of n s] smart_truncate_panics [of n s]
  by (cases "n < length s"; cases "is_char_boundary s n") (auto simp: smart_truncate_def)

end
