(* ===== verification/Memory_Search.thy ===== *)
theory Memory_Search
  imports Str_Util "HOL-Library.Multiset"
begin

text \<open>
  Parts of the \<^verbatim>\<open>memory-core\<close> crate: diversity reranking (\<^verbatim>\<open>mmr.rs\<close>), the embedding cache
  (\<^verbatim>\<open>embedding_cache.rs\<close>), and the merging, citing and snipping of search results (\<^verbatim>\<open>search.rs\<close>).  Floating-point
  arithmetic is taken to be exact and free of NaN; the hash of a text is a parameter.
\<close>

section \<open>Reranking\<close>

record mmr_config =
  mmr_lambda :: real
  mmr_top_k :: nat
  mmr_final_k :: nat

definition dot :: "real list \<Rightarrow> real list \<Rightarrow> real" where
  "dot a b = sum_list (map (\<lambda>(x, y). x * y) (zip a b))"

definition cosine_similarity :: "real list \<Rightarrow> real list \<Rightarrow> real" where
  "cosine_similarity a b =
     (if length a \<noteq> length b \<or> a = [] then 0
      else let denom = sqrt (dot a a) * sqrt (dot b b) in if denom = 0 then 0 else dot a b / denom)"

text \<open>The similarity to the nearest selected candidate, zero when none is selected.\<close>

definition max_sim :: "(real \<times> real list) list \<Rightarrow> nat list \<Rightarrow> nat \<Rightarrow> real" where
  "max_sim cands selected ci =
     (case map (\<lambda>si. cosine_similarity (snd (cands ! ci)) (snd (cands ! si))) selected of
        [] \<Rightarrow> 0
      | s # ss \<Rightarrow> foldl max s ss)"

definition mmr_score :: "mmr_config \<Rightarrow> (real \<times> real list) list \<Rightarrow> nat list \<Rightarrow> nat \<Rightarrow> real" where
  "mmr_score c cands selected ci =
     mmr_lambda c * fst (cands ! ci) - (1 - mmr_lambda c) * max_sim cands selected ci"

text \<open>The position of the first best element: the scan keeps the strictly better one.\<close>

fun best_scan :: "('a \<Rightarrow> real) \<Rightarrow> 'a list \<Rightarrow> nat \<Rightarrow> nat \<Rightarrow> real \<Rightarrow> nat" where
  "best_scan f [] i best_idx best_score = best_idx"
| "best_scan f (x # xs) i best_idx best_score =
     (if best_score < f x then best_scan f xs (Suc i) i (f x) else best_scan f xs (Suc i) best_idx best_score)"

fun best_idx :: "('a \<Rightarrow> real) \<Rightarrow> 'a list \<Rightarrow> nat" where
  "best_idx f [] = 0"
| "best_idx f (x # xs) = best_scan f xs 1 0 (f x)"

text \<open>\<^verbatim>\<open>Vec::swap_remove\<close>.\<close>

definition swap_remove :: "nat \<Rightarrow> 'a list \<Rightarrow> 'a list" where
  "swap_remove i xs = butlast (xs[i := last xs])"

fun mmr_loop :: "nat \<Rightarrow> mmr_config \<Rightarrow> (real \<times> real list) list \<Rightarrow> nat list \<Rightarrow> nat list \<Rightarrow> nat list" where
  "mmr_loop 0 c cands selected remaining = selected"
| "mmr_loop (Suc k) c cands selected remaining =
     (if remaining = [] then selected
      else let i = best_idx (mmr_score c cands selected) remaining
           in mmr_loop k c cands (selected @ [remaining ! i]) (swap_remove i remaining))"

definition mmr_rerank :: "(real \<times> real list) list \<Rightarrow> mmr_config \<Rightarrow> nat list" where
  "mmr_rerank cands c =
     (let n = min (length cands) (mmr_top_k c) in
      if n = 0 then [] else mmr_loop (mmr_final_k c) c cands [] [0..<n])"


section \<open>The embedding cache\<close>

record cache_entry =
  ce_embedding :: "real list"
  ce_last_access :: nat

record embedding_cache =
  ec_cache :: "(nat, cache_entry) hash_map"
  ec_max_entries :: nat
  ec_hits :: nat
  ec_misses :: nat
  ec_counter :: nat

definition cache_new :: "nat \<Rightarrow> embedding_cache" where
  "cache_new mx = \<lparr>ec_cache = [], ec_max_entries = mx, ec_hits = 0, ec_misses = 0, ec_counter = 0\<rparr>"

definition touch_entry :: "nat \<Rightarrow> cache_entry \<Rightarrow> cache_entry" where
  "touch_entry n e = e\<lparr>ce_last_access := n\<rparr>"

definition cache_get :: "(string \<Rightarrow> nat) \<Rightarrow> string \<Rightarrow> embedding_cache \<Rightarrow> real list option \<times> embedding_cache" where
  "cache_get hash_text s c =
     (case hm_get (ec_cache c) (hash_text s) of
        Some e \<Rightarrow>
          (Some (ce_embedding e),
           c\<lparr>ec_hits := ec_hits c + 1, ec_counter := ec_counter c + 1,
             ec_cache := hm_modify (hash_text s) (touch_entry (ec_counter c + 1)) (ec_cache c)\<rparr>)
      | None \<Rightarrow> (None, c\<lparr>ec_misses := ec_misses c + 1\<rparr>))"

definition oldest_key :: "(nat, cache_entry) hash_map \<Rightarrow> nat option" where
  "oldest_key m = map_option fst (first_min (\<lambda>_. True) (\<lambda>(_, e). ce_last_access e) m)"

definition evict_lru :: "embedding_cache \<Rightarrow> embedding_cache" where
  "evict_lru c = (case oldest_key (ec_cache c) of Some k \<Rightarrow> c\<lparr>ec_cache := hm_remove k (ec_cache c)\<rparr> | None \<Rightarrow> c)"

definition cache_insert :: "(string \<Rightarrow> nat) \<Rightarrow> string \<Rightarrow> real list \<Rightarrow> embedding_cache \<Rightarrow> embedding_cache" where
  "cache_insert hash_text s v c =
     (let c1 = (if ec_max_entries c \<le> length (ec_cache c) then evict_lru c else c);
          n = ec_counter c1 + 1
      in c1\<lparr>ec_counter := n, ec_cache := hm_insert (hash_text s) \<lparr>ce_embedding = v, ce_last_access = n\<rparr> (ec_cache c1)\<rparr>)"


section \<open>Search results\<close>

record search_result =
  sr_id :: string
  sr_path :: string
  sr_start_line :: nat
  sr_end_line :: nat
  sr_score :: real
  sr_snippet :: string
  sr_source :: string
  sr_updated_at_ms :: nat

definition truncate_snippet :: "string \<Rightarrow> nat \<Rightarrow> string option" where
  "truncate_snippet content max_chars =
     (if length content \<le> max_chars then Some content
      else map_option (\<lambda>s. s @ ''...'') (slice_to content (floor_loop content max_chars)))"

datatype citation_mode = CiteAuto | CiteOn | CiteOff

definition decorate_citations :: "search_result list \<Rightarrow> citation_mode \<Rightarrow> bool \<Rightarrow> search_result list" where
  "decorate_citations results mode grp =
     (if (case mode of CiteOn \<Rightarrow> True | CiteOff \<Rightarrow> False | CiteAuto \<Rightarrow> \<not> grp)
      then map (\<lambda>r.
             let citation = (if sr_start_line r = sr_end_line r
                             then sr_path r @ ''#L'' @ show_nat (sr_start_line r)
                             else sr_path r @ ''#L'' @ show_nat (sr_start_line r) @ ''-L'' @ show_nat (sr_end_line r))
             in r\<lparr>sr_snippet := trim (sr_snippet r) @ [newline, newline] @ ''Source: '' @ citation\<rparr>) results
      else results)"

text \<open>Merging the scores of the two searches by id: \<^verbatim>\<open>*merged.entry(id).or_default() += ...\<close>.\<close>

definition add_score :: "string \<Rightarrow> real \<Rightarrow> (string, real) hash_map \<Rightarrow> (string, real) hash_map" where
  "add_score i x m = hm_insert i ((case hm_get m i of Some y \<Rightarrow> y | None \<Rightarrow> 0) + x) m"

definition head_score :: "(string \<times> real) list \<Rightarrow> real" where
  "head_score xs = max (case xs of [] \<Rightarrow> 1 | (_, s) # _ \<Rightarrow> s) (1 / 1000)"

definition merge_scores :: "real \<Rightarrow> real \<Rightarrow> real \<Rightarrow> (string \<times> real) list \<Rightarrow> (string \<times> real) list \<Rightarrow> (string, real) hash_map" where
  "merge_scores vw tw fts_max vector_scores fts_ids =
     fold (\<lambda>(i, s). add_score i (s / fts_max * tw)) fts_ids
       (fold (\<lambda>(i, s). add_score i (s / head_score vector_scores * vw)) vector_scores [])"

definition rank_scores :: "real \<Rightarrow> nat \<Rightarrow> (string, real) hash_map \<Rightarrow> (string \<times> real) list" where
  "rank_scores threshold limit merged = take limit (sort_key (\<lambda>(_, s). - s) (filter (\<lambda>(_, s). threshold \<le> s) merged))"


section \<open>Lemmas\<close>

lemma dot_self_nonneg: "0 \<le> dot a a"
proof -
  have "0 \<le> sum_list (map (\<lambda>(x, y). x * y) (zip xs xs))" for xs :: "real list"
    by (induction xs) auto
  then show ?thesis by (simp add: dot_def)
qed

lemma dot_Cons [simp]: "dot (x # a) (y # b) = x * y + dot a b" "dot [] b = 0"
  by (simp_all add: dot_def)

lemma dot_cauchy_schwarz: "length a = length b \<Longrightarrow> (dot a b)\<^sup>2 \<le> dot a a * dot b b"
proof (induction a b rule: list_induct2)
  case (Cons x a y b)
  let ?A = "dot a a" and ?B = "dot b b" and ?D = "dot a b"
  have AB: "0 \<le> ?A" "0 \<le> ?B" by (simp_all add: dot_self_nonneg)
  have "\<bar>?D\<bar> \<le> sqrt ?A * sqrt ?B"
    using real_sqrt_le_mono [OF Cons.IH] by (simp add: real_sqrt_mult)
  then have "\<bar>x\<bar> * \<bar>y\<bar> * \<bar>?D\<bar> \<le> \<bar>x\<bar> * \<bar>y\<bar> * (sqrt ?A * sqrt ?B)"
    by (intro mult_left_mono) simp_all
  moreover have "x * y * ?D \<le> \<bar>x\<bar> * \<bar>y\<bar> * \<bar>?D\<bar>"
    using abs_ge_self [of "x * y * ?D"] by (simp add: abs_mult)
  ultimately have "2 * (x * y * ?D) \<le> 2 * (\<bar>x\<bar> * \<bar>y\<bar> * (sqrt ?A * sqrt ?B))" by simp
  also have "\<dots> \<le> x\<^sup>2 * ?B + y\<^sup>2 * ?A"
  proof -
    have "0 \<le> (\<bar>x\<bar> * sqrt ?B - \<bar>y\<bar> * sqrt ?A)\<^sup>2" by simp
    also have "\<dots> = x\<^sup>2 * ?B + y\<^sup>2 * ?A - 2 * (\<bar>x\<bar> * \<bar>y\<bar> * (sqrt ?A * sqrt ?B))"
      using AB by (simp add: power2_diff power_mult_distrib algebra_simps)
    finally show ?thesis by simp
  qed
  finally have "2 * (x * y * ?D) \<le> x\<^sup>2 * ?B + y\<^sup>2 * ?A" .
  moreover have "(x * y + ?D)\<^sup>2 = x\<^sup>2 * y\<^sup>2 + 2 * (x * y * ?D) + ?D\<^sup>2"
    by (simp add: power2_sum power_mult_distrib)
  moreover have "(x * x + ?A) * (y * y + ?B) = x\<^sup>2 * y\<^sup>2 + (x\<^sup>2 * ?B + y\<^sup>2 * ?A) + ?A * ?B"
    by (simp add: power2_eq_square algebra_simps)
  ultimately show ?case using Cons.IH by simp
qed simp

lemma ratio_bounded: "0 < d \<Longrightarrow> \<bar>x\<bar> \<le> d \<Longrightarrow> \<bar>x / d\<bar> \<le> (1::real)"
  by (simp add: abs_divide)

lemma cosine_bounded: "\<bar>cosine_similarity a b\<bar> \<le> 1"
proof (cases "length a \<noteq> length b \<or> a = [] \<or> sqrt (dot a a) * sqrt (dot b b) = 0")
  case False
  let ?d = "sqrt (dot a a) * sqrt (dot b b)"
  have "0 \<le> ?d" by (simp add: dot_self_nonneg)
  then have d: "0 < ?d" using False by linarith
  have "\<bar>dot a b\<bar> \<le> ?d"
    using real_sqrt_le_mono [OF dot_cauchy_schwarz [of a b]] False by (simp add: real_sqrt_mult)
  then have "\<bar>dot a b / ?d\<bar> \<le> 1" by (rule ratio_bounded [OF d])
  then show ?thesis using False by (simp add: cosine_similarity_def Let_def del: abs_divide)
qed (auto simp: cosine_similarity_def Let_def)


lemma best_scan_spec:
  assumes "bi < i"
  shows "best_scan f xs i bi bs = bi \<and> (\<forall>x \<in> set xs. f x \<le> bs)
    \<or> (\<exists>j < length xs. best_scan f xs i bi bs = i + j \<and> bs < f (xs ! j) \<and> (\<forall>x \<in> set xs. f x \<le> f (xs ! j)))"
  using assms
proof (induction xs arbitrary: i bi bs)
  case (Cons x xs)
  show ?case
  proof (cases "bs < f x")
    case True
    from Cons.IH [of i "Suc i" "f x", OF lessI] show ?thesis
    proof (elim disjE exE conjE)
      assume "best_scan f xs (Suc i) i (f x) = i" "\<forall>y \<in> set xs. f y \<le> f x"
      then show ?thesis using True by (intro disjI2 exI [of _ 0]) auto
    next
      fix j assume "j < length xs" "best_scan f xs (Suc i) i (f x) = Suc i + j" "f x < f (xs ! j)" "\<forall>y \<in> set xs. f y \<le> f (xs ! j)"
      then show ?thesis using True by (intro disjI2 exI [of _ "Suc j"]) auto
    qed
  next
    case False
    from Cons.IH [of bi "Suc i" bs, OF less_SucI [OF Cons.prems]] show ?thesis
    proof (elim disjE exE conjE)
      assume "best_scan f xs (Suc i) bi bs = bi" "\<forall>y \<in> set xs. f y \<le> bs"
      then show ?thesis using False by auto
    next
      fix j assume "j < length xs" "best_scan f xs (Suc i) bi bs = Suc i + j" "bs < f (xs ! j)" "\<forall>y \<in> set xs. f y \<le> f (xs ! j)"
      then show ?thesis using False by (intro disjI2 exI [of _ "Suc j"]) auto
    qed
  qed
qed simp

lemma best_idx_spec:
  assumes "xs \<noteq> []"
  shows "best_idx f xs < length xs \<and> (\<forall>x \<in> set xs. f x \<le> f (xs ! best_idx f xs))"
proof (cases xs)
  case (Cons x ys)
  from best_scan_spec [of 0 1 f ys "f x", OF zero_less_one] show ?thesis
    unfolding Cons best_idx.simps by (elim disjE exE conjE) auto
qed (use assms in simp)

lemma mset_swap_remove:
  assumes "i < length xs"
  shows "mset xs = add_mset (xs ! i) (mset (swap_remove i xs))"
proof (cases "i = length xs - 1")
  case True
  then have "swap_remove i xs = butlast xs \<and> xs ! i = last xs"
    using assms by (cases xs rule: rev_cases) (auto simp: swap_remove_def)
  moreover have "mset xs = add_mset (last xs) (mset (butlast xs))"
    using assms by (cases xs rule: rev_cases) auto
  ultimately show ?thesis by simp
next
  case False
  obtain ys z where xs: "xs = ys @ [z]" using assms by (cases xs rule: rev_cases) auto
  then have i: "i < length ys" using False assms by auto
  then have "swap_remove i xs = ys[i := z]" by (simp add: swap_remove_def xs list_update_append1)
  then show ?thesis using i xs by (simp add: mset_update nth_append)
qed


lemma mmr_loop_spec:
  assumes "mset (selected @ remaining) = mset [0..<n]" and "length selected + k = fk"
  shows "distinct (mmr_loop k c cands selected remaining) \<and> set (mmr_loop k c cands selected remaining) \<subseteq> {0..<n}
    \<and> length (mmr_loop k c cands selected remaining) = min fk n \<and> prefix selected (mmr_loop k c cands selected remaining)"
  using assms
proof (induction k arbitrary: selected remaining)
  case 0
  have "distinct (selected @ remaining)" using 0(1) by (metis distinct_upt mset_eq_imp_distinct_iff)
  moreover have "set (selected @ remaining) = {0..<n}" using 0(1) by (metis atLeastLessThan_upt mset_eq_setD)
  moreover have "length (selected @ remaining) = n" using 0(1) by (metis diff_zero length_upt mset_eq_length)
  ultimately show ?case using 0(2) by auto
next
  case (Suc k)
  have d: "distinct (selected @ remaining)" using Suc.prems(1) by (metis distinct_upt mset_eq_imp_distinct_iff)
  have s: "set (selected @ remaining) = {0..<n}" using Suc.prems(1) by (metis atLeastLessThan_upt mset_eq_setD)
  have l: "length (selected @ remaining) = n" using Suc.prems(1) by (metis diff_zero length_upt mset_eq_length)
  show ?case
  proof (cases "remaining = []")
    case True
    then show ?thesis using d s l Suc.prems(2) by auto
  next
    case False
    let ?i = "best_idx (mmr_score c cands selected) remaining"
    have "?i < length remaining" using best_idx_spec [OF False] by blast
    then have "mset ((selected @ [remaining ! ?i]) @ swap_remove ?i remaining) = mset [0..<n]"
      using Suc.prems(1) mset_swap_remove [of ?i remaining] by simp
    from Suc.IH [OF this] Suc.prems(2) False show ?thesis
      by (auto simp: Let_def dest: append_prefixD)
  qed
qed


section \<open>Properties\<close>

text \<open>Reranking returns as many of the best-placed candidates as it can and is asked for, each once, and the first of them is one of
  greatest relevance when relevance counts at all.\<close>

theorem mmr_rerank_selects:
  assumes "cands' = take (mmr_top_k c) cands"
  shows "distinct (mmr_rerank cands c) \<and> set (mmr_rerank cands c) \<subseteq> {0..<length cands'}
    \<and> length (mmr_rerank cands c) = min (mmr_final_k c) (length cands')
    \<and> (0 < mmr_lambda c \<and> mmr_rerank cands c \<noteq> [] \<longrightarrow>
        (\<forall>j < length cands'. fst (cands ! j) \<le> fst (cands ! hd (mmr_rerank cands c))))"
proof (cases "min (length cands) (mmr_top_k c) = 0")
  case True
  then show ?thesis using assms by (auto simp: mmr_rerank_def)
next
  case False
  define n where "n = min (length cands) (mmr_top_k c)"
  have n: "n \<noteq> 0" using False unfolding n_def .
  have r: "mmr_rerank cands c = mmr_loop (mmr_final_k c) c cands [] [0..<n]"
    unfolding mmr_rerank_def Let_def n_def [symmetric] using n by (rule if_not_P)
  have len: "length cands' = n" using assms by (simp add: n_def min.commute)
  have spec: "distinct (mmr_rerank cands c) \<and> set (mmr_rerank cands c) \<subseteq> {0..<n} \<and> length (mmr_rerank cands c) = min (mmr_final_k c) n"
    using mmr_loop_spec [of "[]" "[0..<n]" n "mmr_final_k c" "mmr_final_k c" c cands] r by simp
  have "fst (cands ! j) \<le> fst (cands ! hd (mmr_rerank cands c))"
    if pos: "0 < mmr_lambda c" and ne: "mmr_rerank cands c \<noteq> []" and j: "j < n" for j
  proof -
    obtain k where k: "mmr_final_k c = Suc k" using ne r by (cases "mmr_final_k c") auto
    let ?i = "best_idx (mmr_score c cands []) [0..<n]"
    have nn: "[0..<n] \<noteq> []" using n by simp
    have i: "?i < n" "\<forall>x \<in> set [0..<n]. mmr_score c cands [] x \<le> mmr_score c cands [] ([0..<n] ! ?i)"
      using best_idx_spec [OF nn, of "mmr_score c cands []"] by auto
    have sel: "mset ([[0..<n] ! ?i] @ swap_remove ?i [0..<n]) = mset [0..<n]"
      using mset_swap_remove [of ?i "[0..<n]"] i(1) by simp
    have "mmr_rerank cands c = mmr_loop k c cands [[0..<n] ! ?i] (swap_remove ?i [0..<n])"
      unfolding r k using n by (simp add: Let_def)
    then have "prefix [[0..<n] ! ?i] (mmr_rerank cands c)"
      using mmr_loop_spec [OF sel, of k "Suc k" c cands] by simp
    then have "hd (mmr_rerank cands c) = [0..<n] ! ?i" by (auto simp: prefix_def)
    moreover have "mmr_score c cands [] j \<le> mmr_score c cands [] ([0..<n] ! ?i)" using i(2) j by simp
    ultimately show ?thesis using pos by (simp add: mmr_score_def max_sim_def)
  qed
  then show ?thesis using spec len by simp
qed

theorem mmr_rerank_selects_witness:
  "length (mmr_rerank [(9, [1, 0]), (5, [0, 1])] \<lparr>mmr_lambda = 1 / 2, mmr_top_k = 10, mmr_final_k = 1\<rparr>) = 1"
  using mmr_rerank_selects [OF refl, where c = "\<lparr>mmr_lambda = 1 / 2, mmr_top_k = 10, mmr_final_k = 1\<rparr>" and cands = "[(9, [1, 0]), (5, [0, 1])]"]
  by simp

text \<open>Similarities are normalised: the cosine of any two embeddings lies between minus one and one, and is zero for embeddings of
  different dimension.\<close>

theorem cosine_similarity_normalised:
  "- 1 \<le> cosine_similarity a b \<and> cosine_similarity a b \<le> 1 \<and> (length a \<noteq> length b \<longrightarrow> cosine_similarity a b = 0)"
proof -
  have "- 1 \<le> cosine_similarity a b \<and> cosine_similarity a b \<le> 1" using cosine_bounded [of a b] by linarith
  then show ?thesis by (auto simp: cosine_similarity_def)
qed

theorem cosine_similarity_normalised_witness: "cosine_similarity [1] [1, 2] = 0"
  using cosine_similarity_normalised [of "[1]" "[1, 2]"] by simp

text \<open>The cache: distinct keys, access numbers that are distinct and not from the future, and a bounded size.\<close>

definition cache_ok :: "embedding_cache \<Rightarrow> bool" where
  "cache_ok c =
     (hm_wf (ec_cache c) \<and> (\<forall>k e. hm_get (ec_cache c) k = Some e \<longrightarrow> ce_last_access e \<le> ec_counter c)
      \<and> (\<forall>k k' e e'. hm_get (ec_cache c) k = Some e \<and> hm_get (ec_cache c) k' = Some e' \<and> ce_last_access e = ce_last_access e' \<longrightarrow> k = k')
      \<and> length (ec_cache c) \<le> max (ec_max_entries c) 1)"

lemma oldest_key_None: "oldest_key m = None \<longleftrightarrow> m = []"
proof -
  have "first_min (\<lambda>_. True) f m = None \<longleftrightarrow> m = []" for f :: "nat \<times> cache_entry \<Rightarrow> nat"
    by (cases m) (auto split: option.split)
  then show ?thesis by (simp add: oldest_key_def)
qed

lemma oldest_key_Some:
  assumes "hm_wf m" and "oldest_key m = Some k"
  shows "\<exists>e. hm_get m k = Some e \<and> (\<forall>k' e'. hm_get m k' = Some e' \<longrightarrow> ce_last_access e \<le> ce_last_access e')"
proof -
  obtain e where e: "first_min (\<lambda>_. True) (\<lambda>(_, e). ce_last_access e) m = Some (k, e)"
    using assms(2) by (auto simp: oldest_key_def)
  from first_min_Some [OF this] assms(1) show ?thesis
    by (intro exI [of _ e]) (auto simp: hm_wf_def dest!: map_of_SomeD)
qed

text \<open>The steps of an insertion: eviction removes the least recently used entry, and the new entry gets a fresh number.\<close>

lemma evict_ok:
  assumes "cache_ok c" and "ec_cache c \<noteq> []"
  shows "\<exists>k e. hm_get (ec_cache c) k = Some e \<and> ec_cache (evict_lru c) = hm_remove k (ec_cache c)
    \<and> ec_counter (evict_lru c) = ec_counter c \<and> ec_max_entries (evict_lru c) = ec_max_entries c
    \<and> (\<forall>k' e'. hm_get (ec_cache c) k' = Some e' \<longrightarrow> ce_last_access e \<le> ce_last_access e')
    \<and> length (ec_cache (evict_lru c)) = length (ec_cache c) - 1"
proof -
  obtain k where k: "oldest_key (ec_cache c) = Some k" using assms(2) oldest_key_None by blast
  have wf: "hm_wf (ec_cache c)" using assms(1) by (simp add: cache_ok_def)
  obtain e where e: "hm_get (ec_cache c) k = Some e" "\<forall>k' e'. hm_get (ec_cache c) k' = Some e' \<longrightarrow> ce_last_access e \<le> ce_last_access e'"
    using oldest_key_Some [OF wf k] by blast
  have "length (hm_remove k (ec_cache c)) = length (ec_cache c) - 1"
    using length_delete [OF wf, of k] e(1) by simp
  then show ?thesis using k e by (intro exI [of _ k] exI [of _ e]) (simp add: evict_lru_def)
qed

definition fresh_insert :: "nat \<Rightarrow> real list \<Rightarrow> embedding_cache \<Rightarrow> embedding_cache" where
  "fresh_insert k v c =
     c\<lparr>ec_counter := ec_counter c + 1, ec_cache := hm_insert k \<lparr>ce_embedding = v, ce_last_access = ec_counter c + 1\<rparr> (ec_cache c)\<rparr>"

lemma cache_insert_alt:
  "cache_insert h s v c = fresh_insert (h s) v (if ec_max_entries c \<le> length (ec_cache c) then evict_lru c else c)"
  by (simp add: cache_insert_def fresh_insert_def Let_def)

lemma cache_ok_remove:
  assumes "cache_ok c" and "ec_cache d = hm_remove k (ec_cache c)" and "ec_counter d = ec_counter c" and "ec_max_entries d = ec_max_entries c"
    and "length (ec_cache d) \<le> length (ec_cache c)"
  shows "cache_ok d"
  using assms unfolding cache_ok_def by (auto split: if_splits)

lemma cache_ok_bump:
  assumes ok: "cache_ok c" and d: "hm_wf (ec_cache d)" "ec_counter d = Suc (ec_counter c)" "length (ec_cache d) \<le> max (ec_max_entries d) 1"
    and get: "\<And>j. hm_get (ec_cache d) j = (if j = k then Some e else hm_get (ec_cache c) j)" and e: "ce_last_access e = Suc (ec_counter c)"
  shows "cache_ok d"
proof -
  have old: "ce_last_access e' \<le> ec_counter c" if "hm_get (ec_cache c) j = Some e'" for j e'
    using ok that by (auto simp: cache_ok_def)
  have "ce_last_access e' \<le> ec_counter d" if "hm_get (ec_cache d) j = Some e'" for j e'
    using that get [of j] old [of j e'] e d(2) by (auto split: if_splits)
  moreover have "j = j'"
    if "hm_get (ec_cache d) j = Some a" "hm_get (ec_cache d) j' = Some b" "ce_last_access a = ce_last_access b" for j j' a b
  proof (cases "j = k \<or> j' = k")
    case True
    then show ?thesis using that get [of j] get [of j'] old [of j a] old [of j' b] e by (auto split: if_splits)
  next
    case False
    then show ?thesis using that get [of j] get [of j'] ok unfolding cache_ok_def by auto
  qed
  ultimately show ?thesis using d unfolding cache_ok_def by blast
qed

lemma cache_ok_fresh:
  assumes "cache_ok c" and "length (ec_cache c) < max (ec_max_entries c) 1"
  shows "cache_ok (fresh_insert k v c)"
proof -
  have "hm_wf (ec_cache c)" using assms(1) by (simp add: cache_ok_def)
  then show ?thesis
    using assms(2)
    by (intro cache_ok_bump [OF assms(1), where k = k and e = "\<lparr>ce_embedding = v, ce_last_access = Suc (ec_counter c)\<rparr>"])
       (simp_all add: fresh_insert_def length_update)
qed

lemma cache_insert_ok: "cache_ok c \<Longrightarrow> cache_ok (cache_insert h s v c)"
proof (cases "ec_max_entries c \<le> length (ec_cache c)")
  case full: True
  assume ok: "cache_ok c"
  show ?thesis
  proof (cases "ec_cache c = []")
    case True
    then have "evict_lru c = c" by (simp add: evict_lru_def oldest_key_None [THEN iffD2])
    then show ?thesis using ok full True cache_ok_fresh [OF ok] by (simp add: cache_insert_alt)
  next
    case False
    obtain k where k: "ec_cache (evict_lru c) = hm_remove k (ec_cache c)" "ec_counter (evict_lru c) = ec_counter c"
      "ec_max_entries (evict_lru c) = ec_max_entries c" "length (ec_cache (evict_lru c)) = length (ec_cache c) - 1"
      using evict_ok [OF ok False] by blast
    have "cache_ok (evict_lru c)" by (rule cache_ok_remove [OF ok k(1-3)]) (simp add: k(4))
    moreover have "length (ec_cache c) \<le> max (ec_max_entries c) 1" using ok by (simp add: cache_ok_def)
    then have "length (ec_cache (evict_lru c)) < max (ec_max_entries (evict_lru c)) 1"
      using False k(3,4) by (cases "ec_cache c") simp_all
    ultimately show ?thesis using full cache_ok_fresh by (simp add: cache_insert_alt)
  qed
next
  case False
  assume "cache_ok c"
  then show ?thesis using False cache_ok_fresh [of c] by (simp add: cache_insert_alt)
qed

lemma cache_get_ok: "cache_ok c \<Longrightarrow> cache_ok (snd (cache_get h s c))"
proof (cases "hm_get (ec_cache c) (h s)")
  case (Some e)
  assume ok: "cache_ok c"
  then have "hm_wf (ec_cache c)" "length (ec_cache c) \<le> max (ec_max_entries c) 1" by (simp_all add: cache_ok_def)
  note facts = this Some
  show ?thesis
    by (rule cache_ok_bump [OF ok, where k = "h s" and e = "touch_entry (Suc (ec_counter c)) e"])
       (use facts in \<open>simp_all add: cache_get_def touch_entry_def hm_modify_def length_update\<close>)
qed (simp add: cache_get_def cache_ok_def)

datatype cache_op = CGet string | CInsert string "real list"

fun cache_exec :: "(string \<Rightarrow> nat) \<Rightarrow> cache_op \<Rightarrow> embedding_cache \<Rightarrow> embedding_cache" where
  "cache_exec h (CGet s) c = snd (cache_get h s c)"
| "cache_exec h (CInsert s v) c = cache_insert h s v c"

interpretation cache: invariant_system "\<lambda>c. \<exists>mx. c = cache_new mx" "\<lambda>c d. \<exists>op. d = cache_exec h op c" cache_ok for h
proof unfold_locales
  show "cache_ok c" if "\<exists>mx. c = cache_new mx" for c
    using that by (auto simp: cache_ok_def cache_new_def)
  show "cache_ok d" if ok: "cache_ok c" and st: "\<exists>op. d = cache_exec h op c" for c d
  proof -
    obtain op where "d = cache_exec h op c" using st by blast
    then show ?thesis using ok cache_insert_ok cache_get_ok by (cases op) auto
  qed
qed

text \<open>The cache is a bounded least-recently-used cache.  In every reachable state it holds at most its capacity; what was just inserted
  is found; and any entry that an insertion drops was last used before every entry that it keeps.\<close>

theorem cache_is_lru:
  assumes "(\<lambda>c d. \<exists>op. d = cache_exec h op c)\<^sup>*\<^sup>* (cache_new mx) c"
  shows "length (ec_cache c) \<le> max (ec_max_entries c) 1 \<and> fst (cache_get h s (cache_insert h s v c)) = Some v
    \<and> (\<forall>k e k' e'. hm_get (ec_cache c) k = Some e \<and> \<not> hm_contains_key (ec_cache (cache_insert h s v c)) k
         \<and> hm_get (ec_cache c) k' = Some e' \<and> hm_contains_key (ec_cache (cache_insert h s v c)) k'
         \<longrightarrow> ce_last_access e < ce_last_access e')"
proof (intro conjI allI impI)
  have ok: "cache_ok c" using cache.reachable_inv [OF _ assms] by blast
  then show "length (ec_cache c) \<le> max (ec_max_entries c) 1" by (simp add: cache_ok_def)
  show "fst (cache_get h s (cache_insert h s v c)) = Some v"
    by (simp add: cache_insert_alt fresh_insert_def cache_get_def)
  fix k e k' e'
  assume a: "hm_get (ec_cache c) k = Some e \<and> \<not> hm_contains_key (ec_cache (cache_insert h s v c)) k
      \<and> hm_get (ec_cache c) k' = Some e' \<and> hm_contains_key (ec_cache (cache_insert h s v c)) k'"
  then have full: "ec_max_entries c \<le> length (ec_cache c)"
    by (auto simp: cache_insert_alt fresh_insert_def split: if_splits)
  have "ec_cache c \<noteq> []" using a by auto
  then obtain z ez where z: "hm_get (ec_cache c) z = Some ez" "ec_cache (evict_lru c) = hm_remove z (ec_cache c)"
    "\<forall>k' e'. hm_get (ec_cache c) k' = Some e' \<longrightarrow> ce_last_access ez \<le> ce_last_access e'"
    using evict_ok [OF ok] by blast
  then have "k = z" "k \<noteq> k'" using a full by (auto simp: cache_insert_alt fresh_insert_def split: if_splits)
  then have "ce_last_access e \<le> ce_last_access e'" "ce_last_access e \<noteq> ce_last_access e'"
    using a z ok unfolding cache_ok_def by auto
  then show "ce_last_access e < ce_last_access e'" by simp
qed

theorem cache_is_lru_witness:
  "fst (cache_get length ''ab'' (cache_insert length ''ab'' [1] (cache_new 2))) = Some [1]"
  using cache_is_lru [of length 2 "cache_new 2" "''ab''" "[1]"] by simp

text \<open>Inserting a text that is already cached into a full cache drops another entry although no room is needed.\<close>

lemma reinsert_evicts:
  "length (ec_cache (cache_insert length ''bb'' [2] (cache_insert length ''bb'' [1] (cache_insert length ''a'' [0] (cache_new 2))))) = 1"
  by (simp add: cache_insert_def evict_lru_def oldest_key_def cache_new_def)

text \<open>Snippets are cut at a character boundary, never panic, and are at most the limit and the ellipsis long.\<close>

theorem snippet_bounded:
  "\<exists>s. truncate_snippet content mx = Some s \<and> length s \<le> mx + 3 \<and> (length content \<le> mx \<longrightarrow> s = content)
     \<and> (mx < length content \<longrightarrow> (\<exists>p. s = p @ ''...'' \<and> prefix p content))"
  using floor_loop_spec [of content mx]
  by (auto simp: truncate_snippet_def take_is_prefix)

theorem snippet_bounded_witness: "truncate_snippet ''abc'' 5 = Some ''abc''"
  using snippet_bounded [of "''abc''" 5] by simp

end
