(* ===== verification/Memory_Index.thy ===== *)
theory Memory_Index
  imports Memory_Search
begin

text \<open>
  Indexing and searching of \<^verbatim>\<open>memory-core\<close> (\<^verbatim>\<open>manager.rs\<close>, \<^verbatim>\<open>search.rs\<close>, \<^verbatim>\<open>store.rs\<close>): texts are split into
  overlapping chunks, embedded in batches and stored; a search merges the vector search and the full-text search of the store.
  The table \<open>chunks\<close> is an association list keyed by the row id.  The embedding service and SQLite's full-text index are
  parameters; SQLite itself is taken not to fail.
\<close>

section \<open>The store\<close>

record memory_chunk =
  mc_id :: string
  mc_path :: string
  mc_start_line :: nat
  mc_end_line :: nat
  mc_content :: string
  mc_source :: string
  mc_embedding :: "real list option"
  mc_updated_at_ms :: nat

type_synonym memory_store = "(string, memory_chunk) hash_map"

definition upsert :: "memory_chunk \<Rightarrow> memory_store \<Rightarrow> memory_store" where
  "upsert c st = hm_insert (mc_id c) c st"

definition delete_by_path :: "string \<Rightarrow> memory_store \<Rightarrow> nat \<times> memory_store" where
  "delete_by_path path st =
     (length (filter (\<lambda>(_, c). mc_path c = path) st), hm_retain (\<lambda>_ c. mc_path c \<noteq> path) st)"

definition all_with_embeddings :: "memory_store \<Rightarrow> (string \<times> real list) list" where
  "all_with_embeddings st = concat (map (\<lambda>(i, c). case mc_embedding c of Some e \<Rightarrow> [(i, e)] | None \<Rightarrow> []) st)"

definition get_by_ids :: "string list \<Rightarrow> memory_store \<Rightarrow> memory_chunk list" where
  "get_by_ids ids st = (if ids = [] then [] else map snd (filter (\<lambda>(i, _). i \<in> set ids) st))"


section \<open>Splitting a text\<close>

function ceil_char_boundary_safe :: "string \<Rightarrow> nat \<Rightarrow> nat" where
  "ceil_char_boundary_safe s idx =
     (if length s \<le> idx then length s
      else if \<not> is_char_boundary s idx then ceil_char_boundary_safe s (Suc idx) else idx)"
  by pat_completeness auto
termination by (relation "measure (\<lambda>(s, i). length s - i)") auto

declare ceil_char_boundary_safe.simps [simp del]

text \<open>\<^verbatim>\<open>&s[a..b]\<close> and \<^verbatim>\<open>str::find\<close>.\<close>

definition slice :: "string \<Rightarrow> nat \<Rightarrow> nat \<Rightarrow> string option" where
  "slice s a b = (if a \<le> b \<and> is_char_boundary s a \<and> is_char_boundary s b then Some (take (b - a) (drop a s)) else None)"

fun find_str :: "string \<Rightarrow> string \<Rightarrow> nat option" where
  "find_str p [] = (if p = [] then Some 0 else None)"
| "find_str p (c # s) = (if starts_with (c # s) p then Some 0 else map_option Suc (find_str p s))"

record chunk_config =
  cc_chunk_chars :: nat
  cc_overlap_chars :: nat

definition default_chunks :: chunk_config where
  "default_chunks = \<lparr>cc_chunk_chars = 1600, cc_overlap_chars = 320\<rparr>"

definition safe_overlap :: "chunk_config \<Rightarrow> nat" where
  "safe_overlap cfg = min (cc_overlap_chars cfg) (cc_chunk_chars cfg - 1)"

text \<open>Where the chunk that starts at \<open>start\<close> ends; \<open>None\<close> is the panic of the slice that looks for a paragraph break.\<close>

definition chunk_end :: "chunk_config \<Rightarrow> string \<Rightarrow> nat \<Rightarrow> nat option" where
  "chunk_end cfg s start =
     (let fin = ceil_char_boundary_safe s (min (start + cc_chunk_chars cfg) (length s));
          snap_zone_start = start + cc_chunk_chars cfg * 4 div 5
      in if fin < length s \<and> snap_zone_start < fin
         then map_option (\<lambda>zone. min (length s)
                (case find_str [newline, newline] zone of Some rel \<Rightarrow> snap_zone_start + rel + 2 | None \<Rightarrow> fin))
                (slice s snap_zone_start fin)
         else Some (min (length s) fin))"

definition make_chunk :: "nat \<Rightarrow> string \<Rightarrow> string \<Rightarrow> string \<Rightarrow> nat \<Rightarrow> nat \<Rightarrow> nat \<Rightarrow> memory_chunk option" where
  "make_chunk now path source s idx start actual_end =
     (case (slice s start actual_end, slice_to s start) of
        (Some chunk_text, Some before) \<Rightarrow>
          let start_line = length (lines_of before) + 1 in
          Some \<lparr>mc_id = path @ '':'' @ show_nat idx @ '':'' @ show_nat actual_end, mc_path = path, mc_start_line = start_line,
                mc_end_line = start_line + (length (lines_of chunk_text) - 1), mc_content = chunk_text, mc_source = source,
                mc_embedding = None, mc_updated_at_ms = now\<rparr>
      | _ \<Rightarrow> None)"

definition next_start :: "chunk_config \<Rightarrow> nat \<Rightarrow> nat \<Rightarrow> nat" where
  "next_start cfg start actual_end =
     (let nxt = actual_end - safe_overlap cfg in if nxt \<le> start then actual_end else nxt)"

text \<open>The loop: \<open>None\<close> when it does not end, an error value when it panics.\<close>

partial_function (option) chunk_loop ::
  "chunk_config \<Rightarrow> nat \<Rightarrow> string \<Rightarrow> string \<Rightarrow> string \<Rightarrow> nat \<Rightarrow> nat \<Rightarrow> memory_chunk list \<Rightarrow> (unit, memory_chunk list) result option" where
  "chunk_loop cfg now path source s start idx chunks =
     (if start < length s then
        case Option.bind (chunk_end cfg s start) (\<lambda>e. map_option (\<lambda>c. (e, c)) (make_chunk now path source s idx start e)) of
          None \<Rightarrow> Some (Inl ())
        | Some (actual_end, c) \<Rightarrow>
            if length s \<le> actual_end then Some (Inr (chunks @ [c]))
            else chunk_loop cfg now path source s (next_start cfg start actual_end) (Suc idx) (chunks @ [c])
      else Some (Inr chunks))"

declare chunk_loop.simps [code]

definition chunk_by_chars ::
  "chunk_config \<Rightarrow> nat \<Rightarrow> string \<Rightarrow> string \<Rightarrow> string \<Rightarrow> (unit, memory_chunk list) result option" where
  "chunk_by_chars cfg now s path source = (if s = [] then Some (Inr []) else chunk_loop cfg now path source s 0 0 [])"


section \<open>Embedding and indexing\<close>

datatype 'e memory_error = ReadFailed | ChunkPanic | ProviderFailed 'e | WrongCount nat nat

type_synonym 'e embedder = "string list \<Rightarrow> ('e, real list list) result"

function batches :: "nat \<Rightarrow> 'a list \<Rightarrow> 'a list list" where
  "batches n xs = (if n = 0 \<or> xs = [] then [] else take n xs # batches n (drop n xs))"
  by pat_completeness auto
termination by (relation "measure (\<lambda>(n, xs). length xs)") auto

declare batches.simps [simp del]

fun embed_batches :: "'e embedder \<Rightarrow> string list list \<Rightarrow> ('e memory_error, real list list) result" where
  "embed_batches embf [] = Inr []"
| "embed_batches embf (b # bs) =
     (case embf b of
        Inl e \<Rightarrow> Inl (ProviderFailed e)
      | Inr embs \<Rightarrow>
          if length embs \<noteq> length b then Inl (WrongCount (length embs) (length b))
          else case embed_batches embf bs of Inl e \<Rightarrow> Inl e | Inr rest \<Rightarrow> Inr (embs @ rest))"

definition set_embeddings :: "memory_chunk list \<Rightarrow> real list list \<Rightarrow> memory_chunk list" where
  "set_embeddings cs embs =
     map (\<lambda>(c, e). c\<lparr>mc_embedding := Some e\<rparr>) (zip cs embs) @ drop (length embs) cs"

definition embed_chunks :: "'e embedder \<Rightarrow> memory_chunk list \<Rightarrow> ('e memory_error, memory_chunk list) result" where
  "embed_chunks embf cs =
     (if cs = [] then Inr cs
      else case embed_batches embf (batches 64 (map mc_content cs)) of
             Inl e \<Rightarrow> Inl e
           | Inr embs \<Rightarrow> Inr (set_embeddings cs embs))"

definition maybe_embed :: "'e embedder option \<Rightarrow> memory_chunk list \<Rightarrow> ('e memory_error, memory_chunk list) result" where
  "maybe_embed provider cs = (case provider of Some embf \<Rightarrow> embed_chunks embf cs | None \<Rightarrow> Inr cs)"

text \<open>Splitting, embedding and storing, which \<^verbatim>\<open>index_file\<close> and \<^verbatim>\<open>add_memory_text\<close> share.\<close>

definition index_text ::
  "chunk_config \<Rightarrow> 'e embedder option \<Rightarrow> nat \<Rightarrow> string \<Rightarrow> string \<Rightarrow> string \<Rightarrow> memory_store
     \<Rightarrow> (('e memory_error, memory_chunk list) result \<times> memory_store) option" where
  "index_text cfg provider now content path source st =
     map_option (\<lambda>r. case r of
         Inl _ \<Rightarrow> (Inl ChunkPanic, st)
       | Inr cs \<Rightarrow> (case maybe_embed provider cs of Inl e \<Rightarrow> (Inl e, st) | Inr cs' \<Rightarrow> (Inr cs', fold upsert cs' st)))
       (chunk_by_chars cfg now content path source)"

definition index_file ::
  "chunk_config \<Rightarrow> 'e embedder option \<Rightarrow> nat \<Rightarrow> string \<Rightarrow> string option \<Rightarrow> memory_store
     \<Rightarrow> (('e memory_error, nat) result \<times> memory_store) option" where
  "index_file cfg provider now path content st =
     (case content of
        None \<Rightarrow> Some (Inl ReadFailed, st)
      | Some s \<Rightarrow> map_option (\<lambda>(r, st'). (map_sum (\<lambda>e. e) length r, st'))
          (index_text cfg provider now s path ''file'' (snd (delete_by_path path st))))"

definition add_memory_text ::
  "chunk_config \<Rightarrow> 'e embedder option \<Rightarrow> nat \<Rightarrow> string \<Rightarrow> string \<Rightarrow> memory_store
     \<Rightarrow> (('e memory_error, string list) result \<times> memory_store) option" where
  "add_memory_text cfg provider now content source st =
     map_option (\<lambda>(r, st'). (map_sum (\<lambda>e. e) (map mc_id) r, st'))
       (index_text cfg provider now content (''memory:'' @ source) source st)"

definition add_memory ::
  "'e embedder option \<Rightarrow> nat \<Rightarrow> string \<Rightarrow> string \<Rightarrow> string \<Rightarrow> memory_store \<Rightarrow> ('e, string) result \<times> memory_store" where
  "add_memory provider now uuid content source st =
     (let store_with = (\<lambda>emb. (Inr uuid, upsert \<lparr>mc_id = uuid, mc_path = [], mc_start_line = 0, mc_end_line = 0, mc_content = content,
            mc_source = source, mc_embedding = emb, mc_updated_at_ms = now\<rparr> st))
      in case provider of
           None \<Rightarrow> store_with None
         | Some embf \<Rightarrow>
             (case embf [content] of
                Inl e \<Rightarrow> (Inl e, st)
              | Inr embs \<Rightarrow> store_with (if embs = [] then None else Some (last embs))))"


section \<open>Searching\<close>

record temporal_decay_config =
  td_enabled :: bool
  td_half_life_days :: real

record hybrid_config =
  hc_vector_weight :: real
  hc_text_weight :: real
  hc_limit :: nat
  hc_threshold :: real
  hc_candidate_multiplier :: nat
  hc_citation_mode :: citation_mode
  hc_temporal_decay :: temporal_decay_config

definition default_hybrid :: hybrid_config where
  "default_hybrid = \<lparr>hc_vector_weight = 7 / 10, hc_text_weight = 3 / 10, hc_limit = 6, hc_threshold = 35 / 100,
     hc_candidate_multiplier = 4, hc_citation_mode = CiteAuto, hc_temporal_decay = \<lparr>td_enabled = False, td_half_life_days = 30\<rparr>\<rparr>"

definition cosine_f64 :: "real list \<Rightarrow> real list \<Rightarrow> real" where
  "cosine_f64 a b =
     (if length a \<noteq> length b \<or> a = [] then 0
      else let denom = sqrt (dot a a) * sqrt (dot b b) in if denom < 1 / 10 ^ 10 then 0 else dot a b / denom)"

definition desc_by :: "('a \<Rightarrow> real) \<Rightarrow> 'a list \<Rightarrow> 'a list" where
  "desc_by f xs = sort_key (\<lambda>x. - f x) xs"

definition vector_scores :: "real list \<Rightarrow> nat \<Rightarrow> memory_store \<Rightarrow> (string \<times> real) list" where
  "vector_scores q fetch_limit st = take fetch_limit (desc_by snd (map (\<lambda>(i, e). (i, cosine_f64 q e)) (all_with_embeddings st)))"

definition to_result :: "(string \<times> real) list \<Rightarrow> memory_chunk \<Rightarrow> search_result option" where
  "to_result ranked c =
     map_option (\<lambda>snip. \<lparr>sr_id = mc_id c, sr_path = mc_path c, sr_start_line = mc_start_line c, sr_end_line = mc_end_line c,
        sr_score = (case map_of ranked (mc_id c) of Some x \<Rightarrow> x | None \<Rightarrow> 0), sr_snippet = snip, sr_source = mc_source c,
        sr_updated_at_ms = mc_updated_at_ms c\<rparr>) (truncate_snippet (mc_content c) 500)"

definition merged_scores ::
  "hybrid_config \<Rightarrow> real list \<Rightarrow> search_result list \<Rightarrow> (string \<times> real) list \<Rightarrow> memory_store \<Rightarrow> (string, real) hash_map" where
  "merged_scores cfg q fts_results fts_ids st =
     merge_scores (hc_vector_weight cfg) (hc_text_weight cfg) (max (case fts_results of [] \<Rightarrow> 1 | r # _ \<Rightarrow> sr_score r) (1 / 1000))
       (vector_scores q (hc_limit cfg * hc_candidate_multiplier cfg) st) fts_ids"

text \<open>Ordinary results are values; \<open>None\<close> would be a panic of the snippet, which never happens.\<close>

definition fetch_results :: "(string \<times> real) list \<Rightarrow> memory_store \<Rightarrow> search_result list option" where
  "fetch_results ranked st =
     map_option (desc_by sr_score) (those (map (to_result ranked) (get_by_ids (map fst ranked) st)))"

definition hybrid_search ::
  "(memory_store \<Rightarrow> string \<Rightarrow> nat \<Rightarrow> search_result list) \<Rightarrow> (memory_store \<Rightarrow> string \<Rightarrow> nat \<Rightarrow> (string \<times> real) list)
     \<Rightarrow> 'e embedder \<Rightarrow> hybrid_config \<Rightarrow> string \<Rightarrow> memory_store \<Rightarrow> ('e, search_result list) result option" where
  "hybrid_search fts_search fts_search_ids embf cfg query st =
     (case embf [query] of
        Inl e \<Rightarrow> Some (Inl e)
      | Inr [] \<Rightarrow> Some (Inr [])
      | Inr (q # _) \<Rightarrow>
          let fetch_limit = hc_limit cfg * hc_candidate_multiplier cfg;
              merged = merged_scores cfg q (fts_search st query fetch_limit) (fts_search_ids st query fetch_limit) st
          in map_option Inr (fetch_results (rank_scores (hc_threshold cfg) (hc_limit cfg) merged) st))"

definition memory_search ::
  "(memory_store \<Rightarrow> string \<Rightarrow> nat \<Rightarrow> search_result list) \<Rightarrow> (memory_store \<Rightarrow> string \<Rightarrow> nat \<Rightarrow> (string \<times> real) list)
     \<Rightarrow> 'e embedder option \<Rightarrow> hybrid_config \<Rightarrow> string \<Rightarrow> memory_store \<Rightarrow> ('e, search_result list) result option" where
  "memory_search fts_search fts_search_ids provider cfg query st =
     (case provider of
        Some embf \<Rightarrow> hybrid_search fts_search fts_search_ids embf cfg query st
      | None \<Rightarrow> Some (Inr (fts_search st query (hc_limit cfg))))"

definition apply_temporal_decay :: "search_result list \<Rightarrow> temporal_decay_config \<Rightarrow> nat \<Rightarrow> search_result list" where
  "apply_temporal_decay results cfg now_ms =
     (if \<not> td_enabled cfg then results
      else let half_life_ms = td_half_life_days cfg * 86400000
           in desc_by sr_score (map (\<lambda>r.
                let age_ms = real (now_ms - sr_updated_at_ms r);
                    decay = (1 / 2) powr (age_ms / half_life_ms)
                in r\<lparr>sr_score := sr_score r * (1 / 2 + 1 / 2 * decay)\<rparr>) results))"


section \<open>Splitting: what the chunks are\<close>

lemma ceil_spec:
  "is_char_boundary s (ceil_char_boundary_safe s i) \<and> min i (length s) \<le> ceil_char_boundary_safe s i
   \<and> ceil_char_boundary_safe s i \<le> length s"
proof (induction s i rule: ceil_char_boundary_safe.induct)
  case (1 s i)
  then show ?case by (subst (1 2 3) ceil_char_boundary_safe.simps) auto
qed

lemma ceil_boundary: "is_char_boundary s i \<Longrightarrow> ceil_char_boundary_safe s i = i"
  by (subst ceil_char_boundary_safe.simps) (auto dest: is_char_boundary_le)

lemma find_str_bound: "find_str p z = Some r \<Longrightarrow> r + length p \<le> length z"
proof (induction z arbitrary: r)
  case (Cons c z)
  then show ?case
    by (cases "find_str p z") (auto simp: starts_with_def dest: prefix_length_le split: if_splits)
qed (auto split: if_splits)

definition ascii :: "string \<Rightarrow> bool" where
  "ascii s = list_all (\<lambda>c. \<not> continuation c) s"

lemma ascii_boundary: "ascii s \<Longrightarrow> i \<le> length s \<Longrightarrow> is_char_boundary s i"
  by (auto simp: ascii_def is_char_boundary_def list_all_length)

lemma chunk_end_ascii:
  assumes "ascii s" and "0 < cc_chunk_chars cfg" and "start < length s"
  shows "\<exists>e. chunk_end cfg s start = Some e \<and> start < e \<and> e \<le> start + cc_chunk_chars cfg \<and> e \<le> length s"
proof -
  let ?fin = "min (start + cc_chunk_chars cfg) (length s)" and ?snap = "start + cc_chunk_chars cfg * 4 div 5"
  have fin: "ceil_char_boundary_safe s ?fin = ?fin" by (rule ceil_boundary) (simp add: ascii_boundary [OF assms(1)])
  show ?thesis
  proof (cases "?fin < length s \<and> ?snap < ?fin")
    case True
    then have sl: "slice s ?snap ?fin = Some (take (?fin - ?snap) (drop ?snap s))"
      by (simp add: slice_def ascii_boundary [OF assms(1)])
    have "rel + 2 \<le> ?fin - ?snap" if "find_str [newline, newline] (take (?fin - ?snap) (drop ?snap s)) = Some rel" for rel
      using find_str_bound [OF that] True by simp
    then show ?thesis
      using True sl assms(2) unfolding chunk_end_def fin Let_def by (fastforce split: option.split)
  next
    case False
    then show ?thesis using assms(2,3) by (auto simp: chunk_end_def fin Let_def)
  qed
qed

lemma next_start_progress: "start < e \<Longrightarrow> start < next_start cfg start e \<and> next_start cfg start e \<le> e"
  by (auto simp: next_start_def Let_def)

text \<open>The pieces cover the text without a gap: each begins at or before the end of the one before it, and the last ends
  with the text.\<close>

fun covers :: "string \<Rightarrow> nat \<Rightarrow> string list \<Rightarrow> bool" where
  "covers s e [] = (e = length s)"
| "covers s e (p # ps) = (\<exists>b \<le> e. take (length p) (drop b s) = p \<and> b + length p \<le> length s \<and> covers s (b + length p) ps)"

lemma make_chunk_ascii:
  assumes "ascii s" and "start < e" and "e \<le> length s"
  shows "\<exists>c. make_chunk now path source s idx start e = Some c \<and> mc_content c = take (e - start) (drop start s)
    \<and> mc_path c = path \<and> mc_source c = source"
  using assms by (simp add: make_chunk_def slice_def slice_to_def ascii_boundary Let_def)

lemma chunk_loop_ascii:
  assumes "ascii s" and "0 < cc_chunk_chars cfg"
  shows "start < length s \<Longrightarrow> start \<le> b \<Longrightarrow>
    \<exists>cs. chunk_loop cfg now path source s start idx acc = Some (Inr (acc @ cs)) \<and> covers s b (map mc_content cs)
      \<and> list_all (\<lambda>c. mc_content c \<noteq> [] \<and> length (mc_content c) \<le> cc_chunk_chars cfg \<and> mc_path c = path \<and> mc_source c = source) cs"
proof (induction "length s - start" arbitrary: start b idx acc rule: less_induct)
  case less
  obtain e where e: "chunk_end cfg s start = Some e" "start < e" "e \<le> start + cc_chunk_chars cfg" "e \<le> length s"
    using chunk_end_ascii [OF assms less.prems(1)] by blast
  obtain c where c: "make_chunk now path source s idx start e = Some c" "mc_content c = take (e - start) (drop start s)"
      "mc_path c = path" "mc_source c = source"
    using make_chunk_ascii [OF assms(1) e(2,4)] by blast
  have len: "length (mc_content c) = e - start" using c(2) e(4) by simp
  have step: "chunk_loop cfg now path source s start idx acc =
     (if length s \<le> e then Some (Inr (acc @ [c]))
      else chunk_loop cfg now path source s (next_start cfg start e) (Suc idx) (acc @ [c]))"
    using less.prems(1) e(1) c(1) by (subst chunk_loop.simps) simp
  show ?case
  proof (cases "length s \<le> e")
    case True
    then show ?thesis
      using step e less.prems len c by (auto intro!: exI [of _ "[c]"] exI [of _ start])
  next
    case False
    let ?n = "next_start cfg start e"
    have n: "start < ?n" "?n \<le> e" using next_start_progress [OF e(2)] by auto
    then have "length s - ?n < length s - start" "?n < length s" using False by linarith+
    from less.hyps [OF this n(2), of "Suc idx" "acc @ [c]"]
    obtain cs where cs: "chunk_loop cfg now path source s ?n (Suc idx) (acc @ [c]) = Some (Inr ((acc @ [c]) @ cs))"
        "covers s e (map mc_content cs)"
        "list_all (\<lambda>c. mc_content c \<noteq> [] \<and> length (mc_content c) \<le> cc_chunk_chars cfg \<and> mc_path c = path \<and> mc_source c = source) cs"
      by blast
    show ?thesis
      using step False cs e less.prems len c by (auto intro!: exI [of _ "c # cs"] exI [of _ start])
  qed
qed

subsection \<open>Chunk ids\<close>

definition chunk_id :: "string \<Rightarrow> nat \<Rightarrow> nat \<Rightarrow> string" where
  "chunk_id path idx e = path @ '':'' @ show_nat idx @ '':'' @ show_nat e"

lemma chunk_id_inject: "chunk_id p i e = chunk_id p' i' e' \<longleftrightarrow> p = p' \<and> i = i' \<and> e = e'"
proof
  assume "chunk_id p i e = chunk_id p' i' e'"
  then have eq: "(p @ CHR '':'' # show_nat i) @ CHR '':'' # show_nat e = (p' @ CHR '':'' # show_nat i') @ CHR '':'' # show_nat e'"
    by (simp add: chunk_id_def)
  then have "p @ CHR '':'' # show_nat i = p' @ CHR '':'' # show_nat i' \<and> show_nat e = show_nat e'"
    by (rule last_separator_unique [OF show_nat_no_colon show_nat_no_colon])
  moreover then have "p = p' \<and> show_nat i = show_nat i'"
    by (intro last_separator_unique [OF show_nat_no_colon show_nat_no_colon]) simp
  ultimately show "p = p' \<and> i = i' \<and> e = e'" by (auto dest: show_nat_inject)
qed simp

lemma make_chunk_id: "make_chunk now path source s idx start e = Some c \<Longrightarrow> mc_id c = chunk_id path idx e \<and> mc_path c = path"
  by (auto simp: make_chunk_def chunk_id_def Let_def split: option.splits)

definition indexed :: "string \<Rightarrow> nat \<Rightarrow> memory_chunk list \<Rightarrow> (unit, memory_chunk list) result \<Rightarrow> bool" where
  "indexed path idx acc y =
     (\<forall>r. y = Inr r \<longrightarrow> (\<exists>cs es. r = acc @ cs \<and> length es = length cs
        \<and> map mc_id cs = map2 (chunk_id path) [idx..<idx + length cs] es \<and> list_all (\<lambda>c. mc_path c = path) cs))"

lemma indexed_last: "mc_id c = chunk_id path idx e \<Longrightarrow> mc_path c = path \<Longrightarrow> indexed path idx acc (Inr (acc @ [c]))"
  unfolding indexed_def by (auto intro!: exI [of _ "[c]"] exI [of _ "[e]"])

lemma indexed_step:
  assumes "mc_id c = chunk_id path idx e" and "mc_path c = path" and "indexed path (Suc idx) (acc @ [c]) y"
  shows "indexed path idx acc y"
  unfolding indexed_def
proof (intro allI impI)
  fix r assume "y = Inr r"
  then obtain cs es where "r = (acc @ [c]) @ cs" "length es = length cs"
      "map mc_id cs = map2 (chunk_id path) [Suc idx..<Suc idx + length cs] es" "list_all (\<lambda>c. mc_path c = path) cs"
    using assms(3) unfolding indexed_def by blast
  then show "\<exists>cs es. r = acc @ cs \<and> length es = length cs
        \<and> map mc_id cs = map2 (chunk_id path) [idx..<idx + length cs] es \<and> list_all (\<lambda>c. mc_path c = path) cs"
    using assms(1,2) by (intro exI [of _ "c # cs"] exI [of _ "e # es"]) (simp add: upt_conv_Cons del: upt_Suc)
qed

lemma chunk_loop_indexed: "chunk_loop cfg now path source s start idx acc = Some y \<Longrightarrow> indexed path idx acc y"
proof (erule chunk_loop.raw_induct [where P = "\<lambda>cfg now path source s start idx acc y. indexed path idx acc y", rotated])
  fix f :: "chunk_config \<Rightarrow> nat \<Rightarrow> string \<Rightarrow> string \<Rightarrow> string \<Rightarrow> nat \<Rightarrow> nat \<Rightarrow> memory_chunk list \<Rightarrow> (unit, memory_chunk list) result option"
  fix cfg now path source s start idx acc y
  assume IH: "\<And>cfg now path source s start idx acc y. f cfg now path source s start idx acc = Some y \<Longrightarrow> indexed path idx acc y"
    and eq: "(if start < length s then
        case Option.bind (chunk_end cfg s start) (\<lambda>e. map_option (\<lambda>c. (e, c)) (make_chunk now path source s idx start e)) of
          None \<Rightarrow> Some (Inl ())
        | Some (actual_end, c) \<Rightarrow>
            if length s \<le> actual_end then Some (Inr (acc @ [c]))
            else f cfg now path source s (next_start cfg start actual_end) (Suc idx) (acc @ [c])
      else Some (Inr acc)) = Some y"
  show "indexed path idx acc y"
  proof (cases "start < length s")
    case True
    show ?thesis
    proof (cases "Option.bind (chunk_end cfg s start) (\<lambda>e. map_option (\<lambda>c. (e, c)) (make_chunk now path source s idx start e))")
      case None
      then show ?thesis using eq True by (auto simp: indexed_def)
    next
      case (Some ec)
      then obtain e c where ec: "ec = (e, c)" "make_chunk now path source s idx start e = Some c" by (auto split: bind_splits)
      note mk = make_chunk_id [OF ec(2), THEN conjunct1] make_chunk_id [OF ec(2), THEN conjunct2]
      show ?thesis
      proof (cases "length s \<le> e")
        case True
        then have "y = Inr (acc @ [c])" using eq \<open>start < length s\<close> Some ec(1) by simp
        then show ?thesis using indexed_last [OF mk] by simp
      next
        case False
        then have "f cfg now path source s (next_start cfg start e) (Suc idx) (acc @ [c]) = Some y"
          using eq \<open>start < length s\<close> Some ec(1) by simp
        from indexed_step [OF mk IH [OF this]] show ?thesis .
      qed
    qed
  next
    case False
    then have "y = Inr acc" using eq by simp
    then show ?thesis by (simp add: indexed_def)
  qed
qed

lemma chunk_by_chars_ids:
  assumes "chunk_by_chars cfg now s path source = Some (Inr cs)"
  shows "distinct (map mc_id cs) \<and> list_all (\<lambda>c. mc_path c = path) cs"
proof (cases "s = []")
  case False
  then obtain es where es: "length es = length cs" "map mc_id cs = map2 (chunk_id path) [0..<0 + length cs] es"
      "list_all (\<lambda>c. mc_path c = path) cs"
    using chunk_loop_indexed [of cfg now path source s 0 0 "[]" "Inr cs"] assms by (auto simp: chunk_by_chars_def indexed_def)
  have "distinct (map mc_id cs)"
    unfolding es(2) by (auto simp: distinct_conv_nth chunk_id_inject es(1))
  then show ?thesis using es(3) by simp
qed (use assms in \<open>simp add: chunk_by_chars_def\<close>)


text \<open>A text that fits into one piece is one piece.\<close>

definition single_chunk :: "nat \<Rightarrow> string \<Rightarrow> string \<Rightarrow> string \<Rightarrow> memory_chunk" where
  "single_chunk now path source s =
     \<lparr>mc_id = chunk_id path 0 (length s), mc_path = path, mc_start_line = 1, mc_end_line = 1 + (length (lines_of s) - 1), mc_content = s,
      mc_source = source, mc_embedding = None, mc_updated_at_ms = now\<rparr>"

lemma chunk_single:
  assumes "s \<noteq> []" and "length s \<le> cc_chunk_chars cfg"
  shows "chunk_by_chars cfg now s path source = Some (Inr [single_chunk now path source s])"
proof -
  have "chunk_end cfg s 0 = Some (length s)"
    using assms by (simp add: chunk_end_def Let_def ceil_boundary min_def)
  moreover have "make_chunk now path source s 0 0 (length s) = Some (single_chunk now path source s)"
    by (simp add: make_chunk_def slice_def single_chunk_def chunk_id_def Let_def lines_of_def)
  ultimately show ?thesis using assms(1) by (simp add: chunk_by_chars_def chunk_loop.simps)
qed

section \<open>Indexing\<close>

lemma fold_upsert_get:
  "distinct (map mc_id cs) \<Longrightarrow>
   hm_get (fold upsert cs st) i = (case find (\<lambda>c. mc_id c = i) cs of Some c \<Rightarrow> Some c | None \<Rightarrow> hm_get st i)"
proof (induction cs arbitrary: st)
  case (Cons c cs)
  have "find (\<lambda>d. mc_id d = mc_id c) cs = None" using Cons.prems by (simp add: find_None_iff) (metis image_eqI)
  then show ?case using Cons by (auto simp: upsert_def split: option.split)
qed simp

lemma set_embeddings_ids: "map mc_id (set_embeddings cs embs) = map mc_id cs" "map mc_content (set_embeddings cs embs) = map mc_content cs"
  by (induction cs arbitrary: embs; case_tac embs; simp add: set_embeddings_def)+

lemma maybe_embed_keeps: "maybe_embed p cs = Inr cs' \<Longrightarrow> map mc_id cs' = map mc_id cs \<and> map mc_content cs' = map mc_content cs"
  by (auto simp: maybe_embed_def embed_chunks_def set_embeddings_ids split: option.splits sum.splits if_splits)

lemma index_text_ok:
  assumes "index_text cfg provider now s path source st = Some (Inr cs, st')"
  shows "\<exists>cs0. chunk_by_chars cfg now s path source = Some (Inr cs0) \<and> map mc_content cs = map mc_content cs0
    \<and> distinct (map mc_id cs) \<and> st' = fold upsert cs st"
proof -
  obtain cs0 where cs0: "chunk_by_chars cfg now s path source = Some (Inr cs0)" "maybe_embed provider cs0 = Inr cs" "st' = fold upsert cs st"
    using assms
    by (cases "chunk_by_chars cfg now s path source"; cases "the (chunk_by_chars cfg now s path source)";
        cases "maybe_embed provider (projr (the (chunk_by_chars cfg now s path source)))") (auto simp: index_text_def)
  then show ?thesis using maybe_embed_keeps [OF cs0(2)] chunk_by_chars_ids [OF cs0(1)] by auto
qed

lemma index_text_failed: "index_text cfg provider now s path source st = Some (Inl e, st') \<Longrightarrow> st' = st"
  by (cases "chunk_by_chars cfg now s path source"; cases "the (chunk_by_chars cfg now s path source)";
      cases "maybe_embed provider (projr (the (chunk_by_chars cfg now s path source)))") (auto simp: index_text_def)

definition sample_chunk :: memory_chunk where
  "sample_chunk = \<lparr>mc_id = ''f:0:9'', mc_path = ''f'', mc_start_line = 1, mc_end_line = 1, mc_content = ''old words'', mc_source = ''file'',
     mc_embedding = None, mc_updated_at_ms = 0\<rparr>"

text \<open>Re-indexing a file replaces it.  When it succeeds, the rows of the file are those of its new pieces, which are stored under
  their ids, its old rows are gone, and every other row whose id is not one of the new ones is untouched.\<close>

theorem index_file_replaces:
  assumes "index_file cfg provider now path (Some s) st = Some (Inr n, st')" and "hm_wf st"
  shows "\<exists>cs cs0. chunk_by_chars cfg now s path ''file'' = Some (Inr cs0) \<and> map mc_content cs = map mc_content cs0 \<and> length cs = n
    \<and> distinct (map mc_id cs)
    \<and> (\<forall>i. hm_get st' i = (case find (\<lambda>c. mc_id c = i) cs of
          Some c \<Rightarrow> Some c
        | None \<Rightarrow> (case hm_get st i of Some c \<Rightarrow> if mc_path c = path then None else Some c | None \<Rightarrow> None)))"
proof -
  let ?st = "snd (delete_by_path path st)"
  obtain r where r: "index_text cfg provider now s path ''file'' ?st = Some (r, st')" "map_sum (\<lambda>e. e) length r = Inr n"
    using assms(1) by (auto simp: index_file_def)
  then obtain cs where cs: "index_text cfg provider now s path ''file'' ?st = Some (Inr cs, st')" "length cs = n"
    by (cases r) auto
  have "hm_get ?st i = (case hm_get st i of Some c \<Rightarrow> if mc_path c = path then None else Some c | None \<Rightarrow> None)" for i
    using assms(2) by (simp add: delete_by_path_def split: option.split)
  moreover obtain cs0 where cs0: "chunk_by_chars cfg now s path ''file'' = Some (Inr cs0)" "map mc_content cs = map mc_content cs0"
      "distinct (map mc_id cs)" "st' = fold upsert cs ?st"
    using index_text_ok [OF cs(1)] by blast
  ultimately have "hm_get st' i = (case find (\<lambda>c. mc_id c = i) cs of Some c \<Rightarrow> Some c
      | None \<Rightarrow> (case hm_get st i of Some c \<Rightarrow> if mc_path c = path then None else Some c | None \<Rightarrow> None))" for i
    using fold_upsert_get [OF cs0(3), of ?st i] by (simp split: option.split)
  then show ?thesis using cs0(1-3) cs(2) by blast
qed

theorem index_file_replaces_witness:
  "index_file default_chunks None 1 ''f'' (Some ''new'') [(''f:0:9'', sample_chunk)]
     = Some (Inr 1 :: (unit memory_error, nat) result, [(chunk_id ''f'' 0 3, single_chunk 1 ''f'' ''file'' ''new'')])
   \<and> (\<exists>cs :: memory_chunk list. map mc_content cs = [''new''] \<and> distinct (map mc_id cs))"
proof -
  have run: "index_file default_chunks None 1 ''f'' (Some ''new'') [(''f:0:9'', sample_chunk)]
      = Some (Inr 1 :: (unit memory_error, nat) result, [(chunk_id ''f'' 0 3, single_chunk 1 ''f'' ''file'' ''new'')])"
    by (simp add: index_file_def index_text_def chunk_single default_chunks_def maybe_embed_def upsert_def delete_by_path_def
        hm_retain_def sample_chunk_def single_chunk_def numeral_3_eq_3)
  have wf: "hm_wf [(''f:0:9'', sample_chunk)]" by (simp add: hm_wf_def)
  have "chunk_by_chars default_chunks 1 ''new'' ''f'' ''file'' = Some (Inr [single_chunk 1 ''f'' ''file'' ''new''])"
    by (rule chunk_single) (simp_all add: default_chunks_def)
  moreover obtain cs cs0 :: "memory_chunk list" where "chunk_by_chars default_chunks 1 ''new'' ''f'' ''file'' = Some (Inr cs0)"
      "map mc_content cs = map mc_content cs0" "distinct (map mc_id cs)"
    using index_file_replaces [OF run wf] by (elim exE conjE) (rule that)
  ultimately have "map mc_content cs = map mc_content [single_chunk 1 ''f'' ''file'' ''new''] \<and> distinct (map mc_id cs)" by auto
  then have "\<exists>cs :: memory_chunk list. map mc_content cs = map mc_content [single_chunk 1 ''f'' ''file'' ''new''] \<and> distinct (map mc_id cs)" by blast
  then show ?thesis using run by (simp add: single_chunk_def)
qed

text \<open>A failed re-indexing loses the file.  The old rows are deleted before the new pieces are embedded, so any error after the file was
  read leaves none of its rows in the store.\<close>

theorem failed_reindex_loses_file:
  assumes "index_file cfg provider now path (Some s) st = Some (Inl e, st')" and "hm_wf st"
  shows "hm_get st' i = (case hm_get st i of Some c \<Rightarrow> if mc_path c = path then None else Some c | None \<Rightarrow> None)"
proof -
  obtain r where r: "index_text cfg provider now s path ''file'' (snd (delete_by_path path st)) = Some (r, st')" "map_sum (\<lambda>e. e) length r = Inl e"
    using assms(1) by (auto simp: index_file_def)
  have "st' = snd (delete_by_path path st)"
    using r by (cases r) (auto dest: index_text_failed)
  then show ?thesis using assms(2) by (simp add: delete_by_path_def split: option.split)
qed

theorem failed_reindex_loses_file_witness:
  "\<exists>st'. index_file default_chunks (Some (\<lambda>_. Inl ''down'')) 1 ''f'' (Some ''new'') [(''f:0:9'', sample_chunk)] = Some (Inl (ProviderFailed ''down''), st')
     \<and> hm_get st' ''f:0:9'' = None"
proof -
  have run: "index_file default_chunks (Some (\<lambda>_. Inl ''down'')) 1 ''f'' (Some ''new'') [(''f:0:9'', sample_chunk)] = Some (Inl (ProviderFailed ''down''), [])"
    by (simp add: index_file_def index_text_def chunk_single default_chunks_def maybe_embed_def embed_chunks_def batches.simps
        delete_by_path_def hm_retain_def sample_chunk_def)
  then show ?thesis using failed_reindex_loses_file [OF run, of "''f:0:9''"] by (auto simp: hm_wf_def sample_chunk_def)
qed

text \<open>Texts remembered from one source overwrite each other.  A text that fits into one piece is stored under an id made of the source and
  the length of the text, so of two such texts of equal length only the later is kept.\<close>

theorem memory_text_overwrites:
  assumes "length a = length b" and "a \<noteq> []" and "length b \<le> cc_chunk_chars cfg"
  shows "\<exists>i st1 st2 c. add_memory_text cfg None now a source [] = Some (Inr [i], st1)
    \<and> add_memory_text cfg None now' b source st1 = Some (Inr [i], st2) \<and> st2 = [(i, c)] \<and> mc_content c = b"
proof -
  let ?p = "''memory:'' @ source" and ?i = "chunk_id (''memory:'' @ source) 0 (length b)"
  have "add_memory_text cfg None now a source [] = Some (Inr [?i], [(?i, single_chunk now ?p source a)])"
    using assms by (simp add: add_memory_text_def index_text_def chunk_single maybe_embed_def upsert_def single_chunk_def)
  moreover have "b \<noteq> []" using assms(1,2) by auto
  then have "add_memory_text cfg None now' b source [(?i, single_chunk now ?p source a)] = Some (Inr [?i], [(?i, single_chunk now' ?p source b)])"
    using assms by (simp add: add_memory_text_def index_text_def chunk_single maybe_embed_def upsert_def single_chunk_def)
  moreover have "mc_content (single_chunk now' ?p source b) = b" by (simp add: single_chunk_def)
  ultimately show ?thesis by blast
qed

theorem memory_text_overwrites_witness:
  "\<exists>i st1 st2 c. add_memory_text default_chunks None 1 ''likes tea'' ''s1'' [] = Some (Inr [i], st1)
    \<and> add_memory_text default_chunks None 2 ''has a dog''  ''s1'' st1 = Some (Inr [i], st2) \<and> st2 = [(i, c)] \<and> mc_content c = ''has a dog''"
  by (rule memory_text_overwrites) (simp_all add: default_chunks_def)



text \<open>With the default sizes the search for a paragraph break slices the text at byte 1280 whatever is there: a text that goes on after
  the first 1600 bytes and has the middle of a character at byte 1280 makes the indexing panic.\<close>

theorem default_chunking_panics:
  assumes "ceil_char_boundary_safe s 1600 < length s" and "\<not> is_char_boundary s 1280"
  shows "chunk_by_chars default_chunks now s path source = Some (Inl ())"
proof -
  have "min 1600 (length s) \<le> ceil_char_boundary_safe s 1600" using ceil_spec by blast
  then have len: "1600 < length s" "1280 < ceil_char_boundary_safe s 1600" using assms(1) by auto
  then have "chunk_end default_chunks s 0 = None"
    using assms by (simp add: chunk_end_def default_chunks_def slice_def Let_def min_def)
  then show ?thesis using len by (auto simp: chunk_by_chars_def chunk_loop.simps)
qed

definition three_byte :: string where "three_byte = [CHR 0xE4, CHR 0xB8, CHR 0xAD]"

lemma length_three_byte [simp]: "length three_byte = 3" by (simp add: three_byte_def)

lemma three_byte_text:
  "length (concat (replicate n three_byte)) = 3 * n"
  "i < 3 * n \<Longrightarrow> concat (replicate n three_byte) ! i = three_byte ! (i mod 3)"
proof (induction n arbitrary: i)
  case (Suc n)
  { case 1 then show ?case using Suc by simp }
  { case 2
    then show ?case
    proof (cases "i < 3")
      case False
      then have "i - 3 < 3 * n" "(i - 3) mod 3 = i mod 3" using 2 by (auto simp: mod_if)
      then show ?thesis using Suc(2) [of "i - 3"] False by (simp add: nth_append)
    qed (simp add: nth_append) }
qed simp_all

theorem default_chunking_panics_witness:
  "chunk_by_chars default_chunks 0 (concat (replicate 600 three_byte)) ''notes.md'' ''file'' = Some (Inl ())"
proof (rule default_chunking_panics)
  let ?s = "concat (replicate 600 three_byte)"
  have b: "is_char_boundary ?s i \<longleftrightarrow> i mod 3 = 0" if "i < 1800" for i
  proof -
    have "i mod 3 = 0 \<or> i mod 3 = 1 \<or> i mod 3 = 2" by presburger
    then show ?thesis using that three_byte_text [of 600] three_byte_text(2) [of i 600]
      by (auto simp: is_char_boundary_def three_byte_def continuation_def)
  qed
  show "ceil_char_boundary_safe ?s 1600 < length ?s"
    using three_byte_text(1) [of 600] by (simp add: b ceil_char_boundary_safe.simps)
  show "\<not> is_char_boundary ?s 1280" by (simp add: b)
qed


section \<open>Searching\<close>

lemma truncate_snippet_total: "\<exists>t. truncate_snippet content mx = Some t"
  using floor_loop_spec [of content mx] by (auto simp: truncate_snippet_def)

definition result_of :: "(string \<times> real) list \<Rightarrow> memory_chunk \<Rightarrow> search_result" where
  "result_of ranked c = the (to_result ranked c)"

lemma to_result_total: "to_result ranked c = Some (result_of ranked c)"
  using truncate_snippet_total [of "mc_content c" 500] by (auto simp: result_of_def to_result_def)

lemma result_of_simps [simp]:
  "sr_id (result_of ranked c) = mc_id c" "sr_path (result_of ranked c) = mc_path c"
  "sr_score (result_of ranked c) = (case map_of ranked (mc_id c) of Some x \<Rightarrow> x | None \<Rightarrow> 0)"
  using truncate_snippet_total [of "mc_content c" 500] by (auto simp: result_of_def to_result_def)

lemma those_Some: "those (map (\<lambda>x. Some (f x)) xs) = Some (map f xs)"
  by (induction xs) auto

lemma fetch_results_eq: "fetch_results ranked st = Some (desc_by sr_score (map (result_of ranked) (get_by_ids (map fst ranked) st)))"
proof -
  have "to_result ranked = (\<lambda>c. Some (result_of ranked c))" by (rule ext) (rule to_result_total)
  then show ?thesis by (simp add: fetch_results_def those_Some)
qed

lemma desc_by_facts:
  "set (desc_by f xs) = set xs" "length (desc_by f xs) = length xs" "sorted_wrt (\<lambda>x y. f y \<le> f x) (desc_by f xs)"
  "distinct (map g (desc_by f xs)) = distinct (map g xs)"
proof -
  show "set (desc_by f xs) = set xs" "length (desc_by f xs) = length xs" by (simp_all add: desc_by_def)
  have "sorted (map (\<lambda>x. - f x) (desc_by f xs))" by (simp add: desc_by_def)
  then show "sorted_wrt (\<lambda>x y. f y \<le> f x) (desc_by f xs)" by (simp add: sorted_map)
  have "mset (map g (desc_by f xs)) = mset (map g xs)" by (simp add: desc_by_def)
  then show "distinct (map g (desc_by f xs)) = distinct (map g xs)" by (metis distinct_count_atmost_1 set_mset_mset)
qed

lemma rank_scores_eq: "rank_scores thr limit m = take limit (desc_by snd (filter (\<lambda>(_, x). thr \<le> x) m))"
  by (simp add: rank_scores_def desc_by_def case_prod_unfold)

lemma sorted_take_best:
  assumes "sorted_wrt (\<lambda>x y. f y \<le> f x) xs" and "x \<in> set xs" and "x \<notin> set (take n xs)"
  shows "n < length xs \<and> (\<forall>y \<in> set (take n xs). f x \<le> (f y :: real))"
proof -
  have "x \<in> set (drop n xs)" using assms(2,3) by (metis append_take_drop_id Un_iff set_append)
  moreover have "sorted_wrt (\<lambda>x y. f y \<le> f x) (take n xs @ drop n xs)" using assms(1) by simp
  then have "\<forall>y \<in> set (take n xs). \<forall>z \<in> set (drop n xs). f z \<le> f y" unfolding sorted_wrt_append by blast
  moreover have "drop n xs \<noteq> []" using calculation(1) by auto
  ultimately show ?thesis by auto
qed

lemma rank_scores_facts:
  assumes "hm_wf m"
  shows "distinct (map fst (rank_scores thr limit m))" and "length (rank_scores thr limit m) \<le> limit"
    and "map_of (rank_scores thr limit m) i = Some x \<Longrightarrow> hm_get m i = Some x \<and> thr \<le> x"
    and "hm_get m i = Some x \<Longrightarrow> thr \<le> x \<Longrightarrow> map_of (rank_scores thr limit m) i = Some x
      \<or> length (rank_scores thr limit m) = limit \<and> (\<forall>(j, y) \<in> set (rank_scores thr limit m). x \<le> y)"
proof -
  let ?f = "filter (\<lambda>(_, x). thr \<le> x) m" and ?r = "rank_scores thr limit m"
  have "distinct (map fst ?f)" using assms by (simp add: hm_wf_def distinct_map_filter)
  then have d: "distinct (map fst (desc_by snd ?f))" by (simp add: desc_by_facts)
  then show r: "distinct (map fst ?r)" by (simp add: rank_scores_eq flip: take_map)
  show "length ?r \<le> limit" by (simp add: rank_scores_eq)
  have mem: "map_of ?r i = Some x \<longleftrightarrow> (i, x) \<in> set ?r" for i x using r by simp
  have memm: "hm_get m i = Some x \<longleftrightarrow> (i, x) \<in> set m" for i x using assms by (simp add: hm_wf_def)
  show "hm_get m i = Some x \<and> thr \<le> x" if "map_of ?r i = Some x"
    using that memm mem set_take_subset [of limit "desc_by snd ?f"] by (auto simp: rank_scores_eq desc_by_facts)
  show "map_of ?r i = Some x \<or> length ?r = limit \<and> (\<forall>(j, y) \<in> set ?r. x \<le> y)" if "hm_get m i = Some x" "thr \<le> x"
  proof (cases "(i, x) \<in> set ?r")
    case False
    have "(i, x) \<in> set (desc_by snd ?f)" using that memm by (simp add: desc_by_facts)
    then show ?thesis
      using sorted_take_best [OF desc_by_facts(3) [of snd ?f] _ False [unfolded rank_scores_eq]] by (auto simp: rank_scores_eq)
  qed (simp add: mem)
qed

lemma fold_add_score:
  "hm_wf m \<Longrightarrow> hm_wf (fold (\<lambda>(i, x). add_score i (g x)) xs m)"
  "fst ` set (fold (\<lambda>(i, x). add_score i (g x)) xs m) = fst ` set xs \<union> fst ` set m"
proof (induction xs arbitrary: m)
  case (Cons a xs)
  have keys: "fst ` set (add_score i y m') = insert i (fst ` set m')" for i y and m' :: "(string, real) hash_map"
    by (simp add: add_score_def dom_update)
  { case 1 show ?case using Cons(1) [of "add_score (fst a) (g (snd a)) m"] 1 by (simp add: add_score_def split_beta) }
  { case 2 show ?case using Cons(2) [of "add_score (fst a) (g (snd a)) m"] by (auto simp: keys split_beta) }
qed simp_all

lemma merged_scores_wf: "hm_wf (merged_scores cfg q r ids st)"
  unfolding merged_scores_def merge_scores_def by (intro fold_add_score(1)) simp

lemma merged_scores_keys: "fst ` set (merged_scores cfg q r ids st) \<subseteq> fst ` set ids \<union> fst ` set st"
proof -
  have "fst ` set (all_with_embeddings st) \<subseteq> fst ` set st" by (force simp: all_with_embeddings_def split: option.splits)
  moreover have "fst ` set (vector_scores q n st) \<subseteq> fst ` set (all_with_embeddings st)" for n
    using set_take_subset [of n "desc_by snd (map (\<lambda>(i, e). (i, cosine_f64 q e)) (all_with_embeddings st))"]
    by (force simp: vector_scores_def desc_by_facts)
  ultimately have "fst ` set (vector_scores q n st) \<subseteq> fst ` set st" for n by (rule order_trans [rotated])
  then show ?thesis unfolding merged_scores_def merge_scores_def by (simp add: fold_add_score(2) sup.coboundedI2)
qed

definition store_keyed :: "memory_store \<Rightarrow> bool" where
  "store_keyed st = (hm_wf st \<and> list_all (\<lambda>(i, c). mc_id c = i) st)"

lemma upsert_keyed: "store_keyed st \<Longrightarrow> store_keyed (upsert c st)"
proof -
  assume st: "store_keyed st"
  then have "hm_get (upsert c st) i = Some d \<Longrightarrow> mc_id d = i" for i d
    by (auto simp: upsert_def store_keyed_def list_all_iff dest: map_of_SomeD split: if_splits)
  moreover have wf: "hm_wf (upsert c st)" using st by (simp add: upsert_def store_keyed_def)
  ultimately show ?thesis by (auto simp: store_keyed_def list_all_iff hm_wf_def)
qed

lemma get_by_ids_facts:
  assumes "store_keyed st" and "distinct ids" and "set ids \<subseteq> fst ` set st"
  shows "map mc_id (get_by_ids ids st) = filter (\<lambda>i. i \<in> set ids) (map fst st)" and "distinct (map mc_id (get_by_ids ids st))"
    and "length (get_by_ids ids st) = length ids" and "c \<in> set (get_by_ids ids st) \<Longrightarrow> hm_get st (mc_id c) = Some c"
proof -
  have "map mc_id (map snd (filter (\<lambda>(i, _). i \<in> A) xs)) = filter (\<lambda>i. i \<in> A) (map fst xs)"
    if "list_all (\<lambda>(i, c). mc_id c = i) xs" for A and xs :: memory_store
    using that by (induction xs) auto
  then show m: "map mc_id (get_by_ids ids st) = filter (\<lambda>i. i \<in> set ids) (map fst st)"
    using assms(1) by (auto simp: get_by_ids_def store_keyed_def)
  show d: "distinct (map mc_id (get_by_ids ids st))"
    unfolding m using assms(1) by (simp add: store_keyed_def hm_wf_def)
  have "set (map mc_id (get_by_ids ids st)) = set ids" unfolding m using assms(3) by auto
  then show "length (get_by_ids ids st) = length ids" using distinct_card [OF d] distinct_card [OF assms(2)] by simp
  show "hm_get st (mc_id c) = Some c" if "c \<in> set (get_by_ids ids st)"
    using that assms(1) by (auto simp: get_by_ids_def store_keyed_def list_all_iff hm_wf_def split: if_splits)
qed

text \<open>Hybrid search returns the best.  When the query can be embedded, the search gives at most \<open>limit\<close> different stored chunks in
  descending order of the merged score, each at or above the threshold; and a stored chunk at or above the
  threshold is left out only when the limit is reached by chunks that score at least as well.  The full-text index
  is assumed to return ids of stored chunks, which its join with the table gives.\<close>

theorem hybrid_search_best:
  assumes "store_keyed st" and "embf [query] = Inr (q # qs)"
    and "fst ` set (fts_search_ids st query (hc_limit cfg * hc_candidate_multiplier cfg)) \<subseteq> fst ` set st"
    and "merged = merged_scores cfg q (fts_search st query (hc_limit cfg * hc_candidate_multiplier cfg))
           (fts_search_ids st query (hc_limit cfg * hc_candidate_multiplier cfg)) st"
  shows "\<exists>rs. hybrid_search fts_search fts_search_ids embf cfg query st = Some (Inr rs)
    \<and> length rs \<le> hc_limit cfg \<and> distinct (map sr_id rs) \<and> sorted_wrt (\<lambda>x y. sr_score y \<le> sr_score x) rs
    \<and> (\<forall>r \<in> set rs. hm_get merged (sr_id r) = Some (sr_score r) \<and> hc_threshold cfg \<le> sr_score r
         \<and> (\<exists>c. hm_get st (sr_id r) = Some c \<and> sr_path r = mc_path c))
    \<and> (\<forall>i x. hm_get merged i = Some x \<and> hc_threshold cfg \<le> x \<longrightarrow>
         i \<in> sr_id ` set rs \<or> length rs = hc_limit cfg \<and> (\<forall>r \<in> set rs. x \<le> sr_score r))"
proof -
  let ?ranked = "rank_scores (hc_threshold cfg) (hc_limit cfg) merged"
  let ?cs = "get_by_ids (map fst ?ranked) st" and ?rs = "desc_by sr_score (map (result_of ?ranked) (get_by_ids (map fst ?ranked) st))"
  have wf: "hm_wf merged" unfolding assms(4) by (rule merged_scores_wf)
  note rk = rank_scores_facts [OF wf, where thr = "hc_threshold cfg" and limit = "hc_limit cfg"]
  have "set (map fst ?ranked) \<subseteq> fst ` set merged"
  proof
    fix i assume "i \<in> set (map fst ?ranked)"
    then obtain x where "map_of ?ranked i = Some x" by (metis map_of_eq_None_iff not_None_eq set_map)
    then show "i \<in> fst ` set merged" using rk(3) by (metis fst_conv imageI map_of_SomeD)
  qed
  also have "\<dots> \<subseteq> fst ` set st" using merged_scores_keys assms(3) unfolding assms(4) by blast
  finally have sub: "set (map fst ?ranked) \<subseteq> fst ` set st" .
  note get = get_by_ids_facts [OF assms(1) rk(1) sub]
  have ids: "mc_id ` set ?cs = fst ` set ?ranked"
    using arg_cong [OF get(1), of set] sub by auto
  have score: "map_of ?ranked (mc_id c) = Some (sr_score (result_of ?ranked c))" if "c \<in> set ?cs" for c
  proof -
    have "mc_id c \<in> fst ` set ?ranked" using that ids by blast
    then obtain x where "map_of ?ranked (mc_id c) = Some x" by (metis map_of_eq_None_iff not_None_eq)
    then show ?thesis by simp
  qed
  have run: "hybrid_search fts_search fts_search_ids embf cfg query st = Some (Inr ?rs)"
    by (simp add: hybrid_search_def assms(2) Let_def fetch_results_eq flip: assms(4))
  have len: "length ?rs = length ?ranked" by (simp add: desc_by_facts get(3))
  have "hm_get merged (sr_id r) = Some (sr_score r) \<and> hc_threshold cfg \<le> sr_score r
      \<and> (\<exists>c. hm_get st (sr_id r) = Some c \<and> sr_path r = mc_path c)" if "r \<in> set ?rs" for r
    using that score rk(3) get(4) by (fastforce simp: desc_by_facts)
  moreover have "i \<in> sr_id ` set ?rs \<or> length ?rs = hc_limit cfg \<and> (\<forall>r \<in> set ?rs. x \<le> sr_score r)"
    if ix: "hm_get merged i = Some x \<and> hc_threshold cfg \<le> x" for i x
  proof -
    consider "map_of ?ranked i = Some x" | "length ?ranked = hc_limit cfg" "\<forall>(j, y) \<in> set ?ranked. x \<le> y"
      using rk(4) [of i x] ix by blast
    then show ?thesis
    proof cases
      case 1
      then have "i \<in> mc_id ` set ?cs" unfolding ids by (metis fst_conv imageI map_of_SomeD)
      then show ?thesis by (force simp: desc_by_facts)
    next
      case 2
      have "x \<le> sr_score (result_of ?ranked c)" if "c \<in> set ?cs" for c
        using 2(2) map_of_SomeD [OF score [OF that]] by blast
      then show ?thesis using 2(1) len by (simp add: desc_by_facts)
    qed
  qed
  moreover have "distinct (map sr_id ?rs)" using get(2) by (simp add: desc_by_facts comp_def)
  moreover have "length ?rs \<le> hc_limit cfg" using len rk(2) by simp
  ultimately show ?thesis using run desc_by_facts(3) by blast
qed

definition tea_chunk :: memory_chunk where
  "tea_chunk = \<lparr>mc_id = ''m1'', mc_path = ''f'', mc_start_line = 1, mc_end_line = 1, mc_content = ''tea'', mc_source = ''file'',
     mc_embedding = Some [1], mc_updated_at_ms = 0\<rparr>"

theorem hybrid_search_best_witness:
  "\<exists>rs. hybrid_search (\<lambda>_ _ _. []) (\<lambda>_ _ _. []) (\<lambda>_. Inr [[1]] :: (unit, real list list) result) default_hybrid ''tea'' [(''m1'', tea_chunk)] = Some (Inr rs)
    \<and> map sr_id rs = [''m1'']"
proof -
  let ?fs = "\<lambda>_ _ _. []" and ?e = "\<lambda>_. Inr [[1]] :: (unit, real list list) result" and ?st = "[(''m1'', tea_chunk)]"
  let ?m = "merged_scores default_hybrid [1] [] [] ?st"
  have keyed: "store_keyed ?st" by (simp add: store_keyed_def hm_wf_def tea_chunk_def)
  obtain rs where rs: "hybrid_search ?fs ?fs ?e default_hybrid ''tea'' ?st = Some (Inr rs)" "distinct (map sr_id rs)"
      and stored: "\<forall>r \<in> set rs. hm_get ?m (sr_id r) = Some (sr_score r) \<and> hc_threshold default_hybrid \<le> sr_score r
         \<and> (\<exists>c. hm_get ?st (sr_id r) = Some c \<and> sr_path r = mc_path c)"
      and complete: "\<forall>i x. hm_get ?m i = Some x \<and> hc_threshold default_hybrid \<le> x \<longrightarrow>
         i \<in> sr_id ` set rs \<or> length rs = hc_limit default_hybrid \<and> (\<forall>r \<in> set rs. x \<le> sr_score r)"
    using hybrid_search_best [where st = ?st and embf = ?e and query = "''tea''" and q = "[1]" and qs = "[]" and fts_search_ids = ?fs
        and cfg = default_hybrid and fts_search = ?fs and merged = ?m, OF keyed refl _ refl]
    by (elim meta_impE exE conjE) (simp, rule that)
  have "hm_get ?m ''m1'' = Some (7 / 10)"
    by (simp add: merged_scores_def merge_scores_def vector_scores_def all_with_embeddings_def tea_chunk_def desc_by_def cosine_f64_def
        head_score_def add_score_def default_hybrid_def dot_def)
  moreover have "hc_threshold default_hybrid \<le> 7 / 10" "hc_limit default_hybrid = 6" by (simp_all add: default_hybrid_def)
  ultimately have found: "''m1'' \<in> sr_id ` set rs \<or> length rs = 6" using complete [THEN spec, THEN spec, of "''m1''" "7 / 10"] by auto
  have "sr_id r = ''m1''" if "r \<in> set rs" for r
  proof -
    have "\<exists>c. hm_get ?st (sr_id r) = Some c" using stored that by blast
    then show ?thesis by (simp split: if_splits)
  qed
  then have only: "sr_id ` set rs \<subseteq> {''m1''}" by blast
  then have short: "length rs \<le> 1" using distinct_card [OF rs(2)] card_mono [OF _ only] by simp
  have "map sr_id rs = [''m1'']"
  proof (cases rs)
    case (Cons r rs')
    then show ?thesis using short only by simp
  qed (use found in simp)
  then show ?thesis using rs(1) by (intro exI [of _ rs] conjI)
qed

text \<open>A result exactly one half-life old keeps three quarters of its score.\<close>

theorem half_life_keeps_three_quarters:
  assumes "td_enabled cfg" and "0 < td_half_life_days cfg" and "real (now_ms - sr_updated_at_ms r) = td_half_life_days cfg * 86400000"
  shows "map sr_score (apply_temporal_decay [r] cfg now_ms) = [sr_score r * 3 / 4]"
  using assms by (simp add: apply_temporal_decay_def desc_by_def Let_def)

end
