(* ===== verification/Plugins.thy ===== *)
theory Plugins
  imports Tool_Mutation "HOL-Library.Multiset"
begin

text \<open>
  The \<^verbatim>\<open>plugin-core\<close> crate: manifests and version checks (\<^verbatim>\<open>manifest.rs\<close>), the plugin registry, the manager and the hook
  pipeline (\<^verbatim>\<open>registry.rs\<close>), the registrations of plugins (\<^verbatim>\<open>registrations.rs\<close>) and the merging of hook results
  (\<^verbatim>\<open>hook_strategy.rs\<close>).  Plugins are code of others: what a callback answers is an argument of the operation that calls it, and
  the hooks are a parameter of the pipeline.  A registration checks the dependencies before it takes the write
  lock, so it is two steps.
\<close>

section \<open>Manifests\<close>

record hook_definition =
  hd_name :: string
  hd_description :: "string option"
  hd_input_type :: "string option"
  hd_output_type :: "string option"
  hd_required :: bool

record platform_requirements =
  pr_os :: "string list option"
  pr_arch :: "string list option"
  pr_memory_min_mb :: "nat option"
  pr_disk_min_mb :: "nat option"

record plugin_manifest =
  pm_id :: string
  pm_name :: string
  pm_version :: string
  pm_entry_point :: string
  pm_dependencies :: "(string, string) hash_map"
  pm_optional_dependencies :: "(string, string) hash_map"
  pm_tags :: "string list"
  pm_capabilities :: "string list"
  pm_hooks :: "hook_definition list"
  pm_platform :: "platform_requirements option"
  pm_builtin :: bool
  pm_kind :: "string option"
  pm_config_schema :: "json option"

definition validate_manifest :: "plugin_manifest \<Rightarrow> (string, unit) result" where
  "validate_manifest m =
     (if pm_id m = [] then Inl ''Plugin ID cannot be empty''
      else if pm_name m = [] then Inl ''Plugin name cannot be empty''
      else if pm_version m = [] then Inl ''Plugin version cannot be empty''
      else if pm_entry_point m = [] then Inl ''Plugin entry point cannot be empty''
      else Inr ())"

definition version_part :: "string \<Rightarrow> nat" where
  "version_part s = (case parse_u32 s of Some n \<Rightarrow> n | None \<Rightarrow> 0)"

fun match_parts :: "string list \<Rightarrow> string list \<Rightarrow> bool" where
  "match_parts (r # rs) (a # as) = (if version_part a < version_part r then False else match_parts rs as)"
| "match_parts _ _ = True"

definition match_version :: "string \<Rightarrow> string \<Rightarrow> bool" where
  "match_version required actual = match_parts (split_on CHR ''.'' required) (split_on CHR ''.'' actual)"

definition check_version_compatibility :: "plugin_manifest \<Rightarrow> string \<Rightarrow> bool" where
  "check_version_compatibility m required = match_version required (pm_version m)"


section \<open>The registry\<close>

datatype plugin_error =
    LoadError string
  | InitError string
  | ExecutionError string
  | ConfigError string
  | PluginNotFound string
  | DependencyError string
  | VersionMismatch string

record plugin_config =
  pc_enabled :: bool
  pc_priority :: int
  pc_timeout_ms :: nat
  pc_retry_on_error :: bool
  pc_max_retries :: nat
  pc_settings :: "(string, json) hash_map"

definition default_plugin_config :: plugin_config where
  "default_plugin_config = \<lparr>pc_enabled = True, pc_priority = 0, pc_timeout_ms = 30000, pc_retry_on_error = True, pc_max_retries = 3,
     pc_settings = []\<rparr>"

record plugin_wrapper =
  pw_manifest :: plugin_manifest
  pw_config :: plugin_config

record plugin_registry =
  pg_plugins :: "(string, plugin_wrapper) hash_map"
  pg_dependencies :: "(string, string list) hash_map"
  pg_allow :: "string list option"
  pg_deny :: "string list"

definition registry_new :: plugin_registry where
  "registry_new = \<lparr>pg_plugins = [], pg_dependencies = [], pg_allow = None, pg_deny = []\<rparr>"

definition set_access_control :: "string list option \<Rightarrow> string list \<Rightarrow> plugin_registry \<Rightarrow> plugin_registry" where
  "set_access_control allow deny r = r\<lparr>pg_allow := allow, pg_deny := deny\<rparr>"

definition check_dependencies :: "plugin_manifest \<Rightarrow> plugin_registry \<Rightarrow> (plugin_error, unit) result" where
  "check_dependencies m r =
     (case find (\<lambda>d. \<not> hm_contains_key (pg_plugins r) d) (map fst (pm_dependencies m)) of
        Some d \<Rightarrow> Inl (DependencyError (''Missing dependency '' @ quoted d @ '' for plugin '' @ quoted (pm_id m)))
      | None \<Rightarrow> Inr ())"

definition register_check :: "plugin_manifest \<Rightarrow> plugin_registry \<Rightarrow> (plugin_error, unit) result" where
  "register_check m r =
     (if pm_id m \<in> set (pg_deny r) then Inl (LoadError (''Plugin '' @ quoted (pm_id m) @ '' is denied''))
      else case pg_allow r of
        Some l \<Rightarrow> if pm_id m \<notin> set l then Inl (LoadError (''Plugin '' @ quoted (pm_id m) @ '' not in allow list''))
                  else check_dependencies m r
      | None \<Rightarrow> check_dependencies m r)"

definition register_insert :: "plugin_manifest \<Rightarrow> plugin_config \<Rightarrow> plugin_registry \<Rightarrow> (plugin_error, string) result \<times> plugin_registry" where
  "register_insert m cfg r =
     (if hm_contains_key (pg_plugins r) (pm_id m)
      then (Inl (LoadError (''Plugin '' @ quoted (pm_id m) @ '' already registered'')), r)
      else (Inr (pm_id m), r\<lparr>pg_plugins := hm_insert (pm_id m) \<lparr>pw_manifest = m, pw_config = cfg\<rparr> (pg_plugins r)\<rparr>))"

definition register :: "plugin_manifest \<Rightarrow> plugin_config \<Rightarrow> plugin_registry \<Rightarrow> (plugin_error, string) result \<times> plugin_registry" where
  "register m cfg r =
     (case register_check m r of Inl e \<Rightarrow> (Inl e, r) | Inr _ \<Rightarrow> register_insert m cfg r)"

definition plugin_not_found :: "string \<Rightarrow> plugin_error" where
  "plugin_not_found i = PluginNotFound (''Plugin '' @ quoted i @ '' not found'')"

text \<open>The argument \<open>answer\<close> is what the plugin's callback returns.\<close>

definition unregister :: "(string, unit) result \<Rightarrow> string \<Rightarrow> plugin_registry \<Rightarrow> (plugin_error, unit) result \<times> plugin_registry" where
  "unregister answer i r =
     (if hm_contains_key (pg_plugins r) i
      then (map_sum ExecutionError (\<lambda>u. u) answer, r\<lparr>pg_plugins := hm_remove i (pg_plugins r)\<rparr>)
      else (Inl (plugin_not_found i), r))"

definition call_plugin :: "(string \<Rightarrow> plugin_error) \<Rightarrow> (string, unit) result \<Rightarrow> string \<Rightarrow> plugin_registry \<Rightarrow> (plugin_error, unit) result" where
  "call_plugin err answer i r =
     (if hm_contains_key (pg_plugins r) i then map_sum err (\<lambda>u. u) answer else Inl (plugin_not_found i))"

definition initialize :: "(string, unit) result \<Rightarrow> string \<Rightarrow> plugin_registry \<Rightarrow> (plugin_error, unit) result" where
  "initialize = call_plugin InitError"

definition start_plugin :: "(string, unit) result \<Rightarrow> string \<Rightarrow> plugin_registry \<Rightarrow> (plugin_error, unit) result" where
  "start_plugin = call_plugin ExecutionError"

definition stop_plugin :: "(string, unit) result \<Rightarrow> string \<Rightarrow> plugin_registry \<Rightarrow> (plugin_error, unit) result" where
  "stop_plugin = call_plugin ExecutionError"

definition update_config ::
  "(string, unit) result \<Rightarrow> string \<Rightarrow> plugin_config \<Rightarrow> plugin_registry \<Rightarrow> (plugin_error, unit) result \<times> plugin_registry" where
  "update_config answer i cfg r =
     (if hm_contains_key (pg_plugins r) i
      then (case answer of
              Inl e \<Rightarrow> (Inl (ConfigError e), r)
            | Inr _ \<Rightarrow> (Inr (), r\<lparr>pg_plugins := hm_modify i (\<lambda>w. w\<lparr>pw_config := cfg\<rparr>) (pg_plugins r)\<rparr>))
      else (Inl (plugin_not_found i), r))"

definition get_manifest :: "string \<Rightarrow> plugin_registry \<Rightarrow> plugin_manifest option" where
  "get_manifest i r = map_option pw_manifest (hm_get (pg_plugins r) i)"

definition list_by_tag :: "string \<Rightarrow> plugin_registry \<Rightarrow> string list" where
  "list_by_tag tag r = map (\<lambda>w. pm_id (pw_manifest w)) (filter (\<lambda>w. tag \<in> set (pm_tags (pw_manifest w))) (map snd (pg_plugins r)))"

definition list_by_capability :: "string \<Rightarrow> plugin_registry \<Rightarrow> string list" where
  "list_by_capability cap r =
     map (\<lambda>w. pm_id (pw_manifest w)) (filter (\<lambda>w. cap \<in> set (pm_capabilities (pw_manifest w))) (map snd (pg_plugins r)))"

definition add_dependency :: "string \<Rightarrow> string \<Rightarrow> plugin_registry \<Rightarrow> plugin_registry" where
  "add_dependency i d r =
     r\<lparr>pg_dependencies := hm_insert i ((case hm_get (pg_dependencies r) i of Some ds \<Rightarrow> ds | None \<Rightarrow> []) @ [d]) (pg_dependencies r)\<rparr>"

definition get_dependencies :: "string \<Rightarrow> plugin_registry \<Rightarrow> string list" where
  "get_dependencies i r = (case hm_get (pg_dependencies r) i of Some ds \<Rightarrow> ds | None \<Rightarrow> [])"

text \<open>The manager registers, initialises and starts, and gives up at the first error.\<close>

definition load_and_start ::
  "(string, unit) result \<Rightarrow> (string, unit) result \<Rightarrow> plugin_manifest \<Rightarrow> plugin_registry \<Rightarrow> (plugin_error, string) result \<times> plugin_registry" where
  "load_and_start init_answer start_answer m r =
     (case register m default_plugin_config r of
        (Inl e, r1) \<Rightarrow> (Inl e, r1)
      | (Inr i, r1) \<Rightarrow>
          (case initialize init_answer i r1 of
             Inl e \<Rightarrow> (Inl e, r1)
           | Inr _ \<Rightarrow> (case start_plugin start_answer i r1 of Inl e \<Rightarrow> (Inl e, r1) | Inr _ \<Rightarrow> (Inr i, r1))))"


section \<open>Hooks\<close>

definition run_order :: "(string, plugin_wrapper) hash_map \<Rightarrow> plugin_wrapper list" where
  "run_order ps = sort_key (\<lambda>w. - pc_priority (pw_config w)) (filter (\<lambda>w. pc_enabled (pw_config w)) (map snd ps))"

definition apply_hook :: "(plugin_wrapper \<Rightarrow> string \<Rightarrow> (string, string option) result) \<Rightarrow> plugin_wrapper \<Rightarrow> string \<Rightarrow> string" where
  "apply_hook hook w v = (case hook w v of Inr (Some t) \<Rightarrow> t | Inr None \<Rightarrow> v | Inl _ \<Rightarrow> v)"

definition run_transform ::
  "(plugin_wrapper \<Rightarrow> string \<Rightarrow> (string, string option) result) \<Rightarrow> string \<Rightarrow> (string, plugin_wrapper) hash_map \<Rightarrow> string" where
  "run_transform hook initial ps = fold (apply_hook hook) (run_order ps) initial"

text \<open>A notification reaches every enabled plugin; errors are only logged.\<close>

definition run_notify :: "(string, plugin_wrapper) hash_map \<Rightarrow> string list" where
  "run_notify ps = map (\<lambda>w. pm_id (pw_manifest w)) (filter (\<lambda>w. pc_enabled (pw_config w)) (map snd ps))"

fun json_merge :: "json \<Rightarrow> json \<Rightarrow> json" where
  "json_merge (JObject a) (JObject b) = JObject (fold (\<lambda>(k, v). AList.update k v) b a)"
| "json_merge _ overlay = overlay"


section \<open>Registrations\<close>

record registration =
  rg_plugin_id :: string
  rg_name :: string

record plugin_registrations =
  rs_tools :: "registration list"
  rs_commands :: "registration list"
  rs_services :: "registration list"
  rs_http_routes :: "registration list"

definition tools_for_plugin :: "string \<Rightarrow> plugin_registrations \<Rightarrow> string list" where
  "tools_for_plugin i rs = map rg_name (filter (\<lambda>t. rg_plugin_id t = i) (rs_tools rs))"

definition remove_plugin :: "string \<Rightarrow> plugin_registrations \<Rightarrow> plugin_registrations" where
  "remove_plugin i rs =
     rs\<lparr>rs_tools := filter (\<lambda>t. rg_plugin_id t \<noteq> i) (rs_tools rs), rs_commands := filter (\<lambda>t. rg_plugin_id t \<noteq> i) (rs_commands rs),
        rs_services := filter (\<lambda>t. rg_plugin_id t \<noteq> i) (rs_services rs),
        rs_http_routes := filter (\<lambda>t. rg_plugin_id t \<noteq> i) (rs_http_routes rs)\<rparr>"


section \<open>Properties\<close>

text \<open>What a registration does.  It succeeds exactly when the plugin is not denied, is allowed, has all its dependencies
  registered and is not registered yet; then the plugin is found under its id and nothing else changed, and
  otherwise the registry is as before.\<close>

theorem register_exact:
  "(fst (register m cfg r) = Inr (pm_id m) \<longleftrightarrow>
      pm_id m \<notin> set (pg_deny r) \<and> (case pg_allow r of Some l \<Rightarrow> pm_id m \<in> set l | None \<Rightarrow> True)
      \<and> list_all (\<lambda>(d, _). hm_contains_key (pg_plugins r) d) (pm_dependencies m) \<and> \<not> hm_contains_key (pg_plugins r) (pm_id m))
   \<and> snd (register m cfg r) =
      (if isl (fst (register m cfg r)) then r
       else r\<lparr>pg_plugins := hm_insert (pm_id m) \<lparr>pw_manifest = m, pw_config = cfg\<rparr> (pg_plugins r)\<rparr>)"
proof -
  have deps: "check_dependencies m r = Inr () \<longleftrightarrow> list_all (\<lambda>(d, _). hm_contains_key (pg_plugins r) d) (pm_dependencies m)"
  proof -
    have "check_dependencies m r = Inr () \<longleftrightarrow> find (\<lambda>d. \<not> hm_contains_key (pg_plugins r) d) (map fst (pm_dependencies m)) = None"
      by (simp add: check_dependencies_def split: option.split)
    then show ?thesis by (auto simp: find_None_iff list_all_iff)
  qed
  have "check_dependencies m r = Inr () \<or> (\<exists>e. check_dependencies m r = Inl e)"
    by (cases "check_dependencies m r") auto
  then show ?thesis
    using deps by (auto simp: register_def register_check_def register_insert_def split: option.splits if_splits)
qed

text \<open>C39: the order of hooks does not depend on the hash map.  As long as no two enabled plugins have the same priority, a transforming hook
  gives the same value for every order in which the map lists its plugins: the hooks run by descending
  priority.\<close>

theorem transform_independent_of_map_order:
  assumes "mset (map snd ps) = mset (map snd ps')"
    and "distinct (map (\<lambda>w. pc_priority (pw_config w)) (filter (\<lambda>w. pc_enabled (pw_config w)) (map snd ps)))"
  shows "run_transform hook v ps = run_transform hook v ps'
    \<and> sorted_wrt (\<lambda>x y. pc_priority (pw_config y) < pc_priority (pw_config x)) (run_order ps)"
proof -
  let ?on = "\<lambda>qs. filter (\<lambda>w. pc_enabled (pw_config w)) (map snd qs)" and ?k = "\<lambda>w. - pc_priority (pw_config w)"
  have eq: "mset (?on ps) = mset (?on ps')" using assms(1) by (simp only: mset_filter)
  have d: "distinct (map ?k (?on ps))" using assms(2) by (auto simp: distinct_map inj_on_def)
  have inj: "inj_on ?k (set (?on ps))" using d by (simp add: distinct_map)
  have "sort_key ?k (?on ps') = sort_key ?k (?on ps)"
    by (rule sort_key_eq_sort_key [OF eq inj, symmetric])
  moreover have "sorted_wrt (\<lambda>x y. pc_priority (pw_config y) < pc_priority (pw_config x)) (sort_key ?k (?on ps))"
  proof -
    have "sorted (map ?k (sort_key ?k (?on ps)))" by simp
    moreover have "distinct (map ?k (sort_key ?k (?on ps)))" using d by (simp add: distinct_map)
    ultimately have "sorted_wrt (<) (map ?k (sort_key ?k (?on ps)))" by (simp only: strict_sorted_iff)
    then show ?thesis by (simp add: sorted_wrt_map)
  qed
  ultimately show ?thesis by (simp add: run_transform_def run_order_def)
qed

definition sample_plugin :: "string \<Rightarrow> string list \<Rightarrow> plugin_manifest" where
  "sample_plugin i deps =
     \<lparr>pm_id = i, pm_name = i, pm_version = ''1.0.0'', pm_entry_point = ''main'', pm_dependencies = map (\<lambda>d. (d, ''*'')) deps,
      pm_optional_dependencies = [], pm_tags = [], pm_capabilities = [], pm_hooks = [], pm_platform = None, pm_builtin = False,
      pm_kind = None, pm_config_schema = None\<rparr>"

definition sample_wrapper :: "string \<Rightarrow> int \<Rightarrow> plugin_wrapper" where
  "sample_wrapper i p = \<lparr>pw_manifest = sample_plugin i [], pw_config = default_plugin_config\<lparr>pc_priority := p\<rparr>\<rparr>"

theorem transform_independent_of_map_order_witness:
  "run_transform (\<lambda>w v. Inr (Some (v @ pm_id (pw_manifest w)))) ''x'' [(''a'', sample_wrapper ''a'' 1), (''b'', sample_wrapper ''b'' 2)] =
   run_transform (\<lambda>w v. Inr (Some (v @ pm_id (pw_manifest w)))) ''x'' [(''b'', sample_wrapper ''b'' 2), (''a'', sample_wrapper ''a'' 1)]"
  by (rule transform_independent_of_map_order [THEN conjunct1]) (simp_all add: sample_wrapper_def default_plugin_config_def)

text \<open>With equal priorities the map's order decides.\<close>

lemma equal_priorities_follow_map:
  "run_transform (\<lambda>w v. Inr (Some (v @ pm_id (pw_manifest w)))) [] [(''a'', sample_wrapper ''a'' 0), (''b'', sample_wrapper ''b'' 0)] = ''ab''
   \<and> run_transform (\<lambda>w v. Inr (Some (v @ pm_id (pw_manifest w)))) [] [(''b'', sample_wrapper ''b'' 0), (''a'', sample_wrapper ''a'' 0)] = ''ba''"
  by (simp add: run_transform_def run_order_def apply_hook_def sample_wrapper_def sample_plugin_def default_plugin_config_def)

text \<open>The operations on the registry, with the registration in its two steps; \<open>pr_pending\<close> are the plugins that passed the checks.\<close>

record registry_system =
  pr_registry :: plugin_registry
  pr_pending :: "(plugin_manifest \<times> plugin_config) list"

inductive registry_step :: "registry_system \<Rightarrow> registry_system \<Rightarrow> bool" where
  access: "registry_step s (s\<lparr>pr_registry := set_access_control allow deny (pr_registry s)\<rparr>)"
| check: "register_check m (pr_registry s) = Inr () \<Longrightarrow> registry_step s (s\<lparr>pr_pending := (m, cfg) # pr_pending s\<rparr>)"
| insert: "(m, cfg) \<in> set (pr_pending s) \<Longrightarrow>
    registry_step s (s\<lparr>pr_registry := snd (register_insert m cfg (pr_registry s)), pr_pending := remove1 (m, cfg) (pr_pending s)\<rparr>)"
| unregister: "registry_step s (s\<lparr>pr_registry := snd (unregister answer i (pr_registry s))\<rparr>)"
| update: "registry_step s (s\<lparr>pr_registry := snd (update_config answer i cfg (pr_registry s))\<rparr>)"
| add_dep: "registry_step s (s\<lparr>pr_registry := add_dependency i d (pr_registry s)\<rparr>)"

definition registry_ok :: "registry_system \<Rightarrow> bool" where
  "registry_ok s =
     (hm_wf (pg_plugins (pr_registry s))
      \<and> (\<forall>i w. hm_get (pg_plugins (pr_registry s)) i = Some w \<longrightarrow> pm_id (pw_manifest w) = i))"

interpretation plugin_reg: invariant_system "\<lambda>s. s = \<lparr>pr_registry = registry_new, pr_pending = []\<rparr>" registry_step registry_ok
proof unfold_locales
  show "registry_ok s" if "s = \<lparr>pr_registry = registry_new, pr_pending = []\<rparr>" for s
    using that by (simp add: registry_ok_def registry_new_def)
  show "registry_ok t" if ok: "registry_ok s" and st: "registry_step s t" for s t
    using st
  proof cases
    case (update answer i cfg)
    then show ?thesis using ok by (auto simp: registry_ok_def update_config_def split: sum.split if_splits)
  qed (use ok in \<open>auto simp: registry_ok_def set_access_control_def register_insert_def unregister_def add_dependency_def split: if_splits\<close>)
qed

text \<open>The registry stays well formed however its operations interleave: every plugin is found under the id of its manifest, so that
  listing by tag gives exactly the registered plugins with the tag.\<close>

theorem plugin_ids_match:
  assumes "registry_step\<^sup>*\<^sup>* \<lparr>pr_registry = registry_new, pr_pending = []\<rparr> s"
  shows "(get_manifest i (pr_registry s) = Some m \<longrightarrow> pm_id m = i)
    \<and> (i \<in> set (list_by_tag tag (pr_registry s)) \<longleftrightarrow> (\<exists>m. get_manifest i (pr_registry s) = Some m \<and> tag \<in> set (pm_tags m)))"
proof -
  have ok: "registry_ok s" using plugin_reg.reachable_inv assms by blast
  let ?ps = "pg_plugins (pr_registry s)"
  have wf: "hm_wf ?ps" and key: "\<And>i w. hm_get ?ps i = Some w \<Longrightarrow> pm_id (pw_manifest w) = i"
    using ok by (auto simp: registry_ok_def)
  have get: "(j, w) \<in> set ?ps \<longleftrightarrow> hm_get ?ps j = Some w" for j w using wf by (simp add: hm_wf_def)
  have "i \<in> set (list_by_tag tag (pr_registry s)) \<longleftrightarrow>
      (\<exists>j w. hm_get ?ps j = Some w \<and> tag \<in> set (pm_tags (pw_manifest w)) \<and> pm_id (pw_manifest w) = i)"
  proof -
    have "w \<in> set (map snd ?ps) \<longleftrightarrow> (\<exists>j. hm_get ?ps j = Some w)" for w using get by force
    moreover have "i \<in> set (list_by_tag tag (pr_registry s)) \<longleftrightarrow>
        (\<exists>w \<in> set (map snd ?ps). tag \<in> set (pm_tags (pw_manifest w)) \<and> pm_id (pw_manifest w) = i)"
      unfolding list_by_tag_def set_map [of "\<lambda>w. pm_id (pw_manifest w)"] set_filter by blast
    ultimately show ?thesis by blast
  qed
  also have "\<dots> \<longleftrightarrow> (\<exists>w. hm_get ?ps i = Some w \<and> tag \<in> set (pm_tags (pw_manifest w)))"
  proof (intro iffI; elim exE conjE)
    fix j w assume "hm_get ?ps j = Some w" "tag \<in> set (pm_tags (pw_manifest w))" "pm_id (pw_manifest w) = i"
    then show "\<exists>w. hm_get ?ps i = Some w \<and> tag \<in> set (pm_tags (pw_manifest w))" using key [of j w] by blast
  next
    fix w assume "hm_get ?ps i = Some w" "tag \<in> set (pm_tags (pw_manifest w))"
    then show "\<exists>j w. hm_get ?ps j = Some w \<and> tag \<in> set (pm_tags (pw_manifest w)) \<and> pm_id (pw_manifest w) = i"
      using key [of i w] by blast
  qed
  finally have "i \<in> set (list_by_tag tag (pr_registry s)) \<longleftrightarrow> (\<exists>w. hm_get ?ps i = Some w \<and> tag \<in> set (pm_tags (pw_manifest w)))" .
  then show ?thesis using key by (auto simp: get_manifest_def)
qed

theorem plugin_ids_match_witness:
  "list_by_tag ''t'' (pr_registry \<lparr>pr_registry = registry_new, pr_pending = []\<rparr>) = []"
proof -
  have "i \<notin> set (list_by_tag ''t'' registry_new)" for i
    using plugin_ids_match [of "\<lparr>pr_registry = registry_new, pr_pending = []\<rparr>" i undefined "''t''"]
    by (simp add: get_manifest_def registry_new_def)
  then show ?thesis by (metis list.set_intros(1) neq_Nil_conv registry_system.select_convs(1))
qed

text \<open>A load that failed cannot be repeated.  When a plugin was registered but could not be initialised or started, it stays registered, and
  loading it again is refused as a duplicate although it never ran.\<close>

theorem failed_load_blocks_reload:
  assumes "\<not> isl (fst (register m default_plugin_config r))" and "init_answer = Inl e \<or> start_answer = Inl e"
  shows "isl (fst (load_and_start init_answer start_answer m r))
    \<and> fst (load_and_start (Inr ()) (Inr ()) m (snd (load_and_start init_answer start_answer m r)))
        = Inl (LoadError (''Plugin '' @ quoted (pm_id m) @ '' already registered''))"
proof -
  have check: "register_check m r = Inr ()" and new: "\<not> hm_contains_key (pg_plugins r) (pm_id m)"
    using assms(1) by (auto simp: register_def register_insert_def split: sum.splits if_splits)
  let ?r = "r\<lparr>pg_plugins := hm_insert (pm_id m) \<lparr>pw_manifest = m, pw_config = default_plugin_config\<rparr> (pg_plugins r)\<rparr>"
  have reg: "register m default_plugin_config r = (Inr (pm_id m), ?r)"
    using check new by (simp add: register_def register_insert_def)
  have first: "isl (fst (load_and_start init_answer start_answer m r)) \<and> snd (load_and_start init_answer start_answer m r) = ?r"
    using assms(2) by (auto simp: load_and_start_def reg initialize_def start_plugin_def call_plugin_def split: sum.split)
  have "check_dependencies m r = Inr ()" using check by (auto simp: register_check_def split: option.splits if_splits)
  then have "check_dependencies m ?r = Inr ()"
    by (auto simp: check_dependencies_def find_None_iff split: option.splits)
  then have "register_check m ?r = Inr ()" using check by (auto simp: register_check_def split: option.splits if_splits)
  then have "register m default_plugin_config ?r = (Inl (LoadError (''Plugin '' @ quoted (pm_id m) @ '' already registered'')), ?r)"
    by (simp add: register_def register_insert_def)
  then show ?thesis using first by (simp add: load_and_start_def)
qed

theorem failed_load_blocks_reload_witness:
  "fst (load_and_start (Inr ()) (Inr ()) (sample_plugin ''p'' []) (snd (load_and_start (Inl ''no key'') (Inr ()) (sample_plugin ''p'' []) registry_new)))
     = Inl (LoadError (''Plugin '' @ quoted ''p'' @ '' already registered''))"
proof -
  have "\<not> isl (fst (register (sample_plugin ''p'' []) default_plugin_config registry_new))"
    by (simp add: register_def register_check_def check_dependencies_def register_insert_def registry_new_def sample_plugin_def)
  from failed_load_blocks_reload [OF this, of "Inl ''no key''" "''no key''" "Inr ()"] show ?thesis by (simp add: sample_plugin_def)
qed

text \<open>Checking the dependencies is not protected: a dependency that is unregistered between the check and the insertion, or at any time
  later, leaves the plugin without it.\<close>

lemma dependency_lost_in_between:
  "\<exists>s. registry_step\<^sup>*\<^sup>* \<lparr>pr_registry = snd (register (sample_plugin ''d'' []) default_plugin_config registry_new), pr_pending = []\<rparr> s
     \<and> get_manifest ''p'' (pr_registry s) = Some (sample_plugin ''p'' [''d'']) \<and> get_manifest ''d'' (pr_registry s) = None"
proof -
  let ?r0 = "snd (register (sample_plugin ''d'' []) default_plugin_config registry_new)"
  let ?p = "(sample_plugin ''p'' [''d''], default_plugin_config)"
  let ?r1 = "snd (unregister (Inr ()) ''d'' ?r0)"
  note defs = register_def register_check_def check_dependencies_def register_insert_def registry_new_def sample_plugin_def unregister_def
  have "registry_step \<lparr>pr_registry = ?r0, pr_pending = []\<rparr> \<lparr>pr_registry = ?r0, pr_pending = [?p]\<rparr>"
    using registry_step.check [of "fst ?p" "\<lparr>pr_registry = ?r0, pr_pending = []\<rparr>" "snd ?p"] by (simp add: defs)
  moreover have "registry_step \<lparr>pr_registry = ?r0, pr_pending = [?p]\<rparr> \<lparr>pr_registry = ?r1, pr_pending = [?p]\<rparr>"
    using registry_step.unregister [of "\<lparr>pr_registry = ?r0, pr_pending = [?p]\<rparr>" "Inr ()" "''d''"] by simp
  moreover have "registry_step \<lparr>pr_registry = ?r1, pr_pending = [?p]\<rparr> \<lparr>pr_registry = snd (register_insert (fst ?p) (snd ?p) ?r1), pr_pending = []\<rparr>"
    using registry_step.insert [of "fst ?p" "snd ?p" "\<lparr>pr_registry = ?r1, pr_pending = [?p]\<rparr>"] by simp
  ultimately have "registry_step\<^sup>*\<^sup>* \<lparr>pr_registry = ?r0, pr_pending = []\<rparr> \<lparr>pr_registry = snd (register_insert (fst ?p) (snd ?p) ?r1), pr_pending = []\<rparr>"
    by (meson rtranclp.rtrancl_into_rtrancl rtranclp.rtrancl_refl)
  then show ?thesis by (intro exI conjI) (assumption, simp_all add: defs get_manifest_def)
qed

text \<open>A failed unload is reported as an error although the plugin is gone.\<close>

lemma failed_unload_removes: "hm_contains_key (pg_plugins r) i \<Longrightarrow> unregister (Inl e) i r = (Inl (ExecutionError e), r') \<Longrightarrow>
    \<not> hm_contains_key (pg_plugins r') i"
  by (auto simp: unregister_def)

text \<open>The version check compares part by part, so a newer major version with a smaller minor one is refused.\<close>

lemma newer_version_refused: "\<not> match_version ''1.5.0'' ''2.0.0''"
  by (simp add: match_version_def version_part_def parse_u32_def parse_unsigned_def strip_prefix_def starts_with_def digit_char_def digits_value_def)

end
