(* ===== verification/System_Events.thy ===== *)
theory System_Events
  imports Message_Pipeline
begin

text \<open>
  The gateway's in-memory tables of \<^verbatim>\<open>gateway-core/src/http.rs\<close>: system events per session, pending heartbeat wakes per target, and the
  presence of devices.  Each table is behind a mutex, so its operations are atomic; the clock is an argument.
\<close>

section \<open>System events\<close>

definition MAIN_SYSTEM_SESSION_KEY :: string where "MAIN_SYSTEM_SESSION_KEY = ''main''"
definition MAX_SYSTEM_EVENTS :: nat where "MAX_SYSTEM_EVENTS = 20"
definition DEFAULT_WAKE_REASON :: string where "DEFAULT_WAKE_REASON = ''requested''"

record system_event =
  ev_text :: string
  ev_ts :: int
  ev_context_key :: "string option"

record event_queue =
  eq_queue :: "system_event list"
  eq_last_text :: "string option"
  eq_last_context_key :: "string option"

type_synonym event_queues = "(string, event_queue) hash_map"

definition empty_event_queue :: event_queue where
  "empty_event_queue = \<lparr>eq_queue = [], eq_last_text = None, eq_last_context_key = None\<rparr>"

definition trimmed :: "string option \<Rightarrow> string" where
  "trimmed raw = (case raw of Some s \<Rightarrow> trim s | None \<Rightarrow> [])"

definition normalize_system_session_key :: "string option \<Rightarrow> string" where
  "normalize_system_session_key raw = (if trimmed raw = [] then MAIN_SYSTEM_SESSION_KEY else trimmed raw)"

definition normalize_wake_target :: "string option \<Rightarrow> string option" where
  "normalize_wake_target raw = (if trimmed raw = [] then None else Some (trimmed raw))"

definition normalize_context_key :: "string option \<Rightarrow> string option" where
  "normalize_context_key raw = map_option to_lowercase (normalize_wake_target raw)"

definition normalize_wake_reason :: "string option \<Rightarrow> string" where
  "normalize_wake_reason raw = (if trimmed raw = [] then DEFAULT_WAKE_REASON else trimmed raw)"

definition is_system_event_context_changed :: "string \<Rightarrow> string option \<Rightarrow> event_queues \<Rightarrow> bool" where
  "is_system_event_context_changed session ctx qs =
     (normalize_context_key ctx \<noteq> Option.bind (hm_get qs (normalize_system_session_key (Some session))) eq_last_context_key)"

definition enqueue_system_event_entry :: "int \<Rightarrow> string \<Rightarrow> string \<Rightarrow> string option \<Rightarrow> event_queues \<Rightarrow> event_queues" where
  "enqueue_system_event_entry now session body ctx qs =
     (let key = normalize_system_session_key (Some session);
          cleaned = trim body;
          q = (case hm_get qs key of Some q \<Rightarrow> q | None \<Rightarrow> empty_event_queue)\<lparr>eq_last_context_key := normalize_context_key ctx\<rparr>
      in if cleaned = [] then qs
         else if eq_last_text q = Some cleaned then hm_insert key q qs
         else hm_insert key
                (q\<lparr>eq_last_text := Some cleaned,
                   eq_queue := last_n MAX_SYSTEM_EVENTS
                     (eq_queue q @ [\<lparr>ev_text = cleaned, ev_ts = now, ev_context_key = normalize_context_key ctx\<rparr>])\<rparr>) qs)"

definition drain_system_event_entries :: "string \<Rightarrow> event_queues \<Rightarrow> system_event list \<times> event_queues" where
  "drain_system_event_entries session qs =
     (let key = normalize_system_session_key (Some session) in
      case hm_get qs key of Some q \<Rightarrow> (eq_queue q, hm_remove key qs) | None \<Rightarrow> ([], qs))"


section \<open>Heartbeat wakes\<close>

record pending_wake =
  wk_reason :: string
  wk_priority :: int
  wk_requested_at :: int
  wk_agent_id :: "string option"
  wk_session_key :: "string option"

definition resolve_wake_reason_kind :: "string \<Rightarrow> string" where
  "resolve_wake_reason_kind reason =
     (let l = to_lowercase (trim reason) in
      if l \<in> {''retry'', ''interval'', ''manual'', ''exec-event'', ''wake''} then l
      else if starts_with l ''cron:'' then ''cron''
      else if starts_with l ''hook:'' then ''hook''
      else ''other'')"

definition is_action_wake_reason :: "string \<Rightarrow> bool" where
  "is_action_wake_reason reason = (resolve_wake_reason_kind reason \<in> {''manual'', ''exec-event'', ''hook''})"

definition resolve_wake_reason_priority :: "string \<Rightarrow> int" where
  "resolve_wake_reason_priority reason =
     (if resolve_wake_reason_kind reason = ''retry'' then 0
      else if resolve_wake_reason_kind reason = ''interval'' then 1
      else if is_action_wake_reason reason then 3 else 2)"

definition wake_target_key :: "string option \<Rightarrow> string option \<Rightarrow> string" where
  "wake_target_key agent session =
     (case agent of Some a \<Rightarrow> a | None \<Rightarrow> []) @ ''::'' @ (case session of Some s \<Rightarrow> s | None \<Rightarrow> [])"

definition make_wake :: "int \<Rightarrow> string option \<Rightarrow> string option \<Rightarrow> string option \<Rightarrow> pending_wake" where
  "make_wake now reason agent session =
     \<lparr>wk_reason = normalize_wake_reason reason, wk_priority = resolve_wake_reason_priority (normalize_wake_reason reason),
      wk_requested_at = now, wk_agent_id = normalize_wake_target agent, wk_session_key = normalize_wake_target session\<rparr>"

definition wake_key :: "pending_wake \<Rightarrow> string" where
  "wake_key w = wake_target_key (wk_agent_id w) (wk_session_key w)"

definition replaces :: "pending_wake \<Rightarrow> pending_wake \<Rightarrow> bool" where
  "replaces nxt previous =
     (wk_priority previous < wk_priority nxt
      \<or> wk_priority nxt = wk_priority previous \<and> wk_requested_at previous \<le> wk_requested_at nxt)"

definition queue_wake :: "pending_wake \<Rightarrow> (string, pending_wake) hash_map \<Rightarrow> (string, pending_wake) hash_map" where
  "queue_wake nxt wakes =
     (case hm_get wakes (wake_key nxt) of
        Some previous \<Rightarrow> if replaces nxt previous then hm_insert (wake_key nxt) nxt wakes else wakes
      | None \<Rightarrow> hm_insert (wake_key nxt) nxt wakes)"

definition queue_pending_heartbeat_wake ::
  "int \<Rightarrow> string option \<Rightarrow> string option \<Rightarrow> string option \<Rightarrow> (string, pending_wake) hash_map \<Rightarrow> (string, pending_wake) hash_map" where
  "queue_pending_heartbeat_wake now reason agent session = queue_wake (make_wake now reason agent session)"

definition take_pending_heartbeat_wakes :: "(string, pending_wake) hash_map \<Rightarrow> pending_wake list \<times> (string, pending_wake) hash_map" where
  "take_pending_heartbeat_wakes wakes =
     (sort_key (\<lambda>w. - wk_priority w) (sort_key wk_requested_at (map snd wakes)), [])"


section \<open>Presence\<close>

definition SYSTEM_PRESENCE_SELF_KEY :: string where "SYSTEM_PRESENCE_SELF_KEY = ''gateway:self''"
definition SYSTEM_PRESENCE_TTL_MS :: int where "SYSTEM_PRESENCE_TTL_MS = 5 * 60 * 1000"
definition SYSTEM_PRESENCE_MAX_ENTRIES :: nat where "SYSTEM_PRESENCE_MAX_ENTRIES = 200"

record presence =
  sp_host :: "string option"
  sp_ip :: "string option"
  sp_version :: "string option"
  sp_platform :: "string option"
  sp_device_family :: "string option"
  sp_model_identifier :: "string option"
  sp_last_input_seconds :: "int option"
  sp_mode :: "string option"
  sp_reason :: "string option"
  sp_device_id :: "string option"
  sp_roles :: "string list option"
  sp_scopes :: "string list option"
  sp_instance_id :: "string option"
  sp_text :: string
  sp_ts :: int

type_synonym presences = "(string, presence) hash_map"

definition default_presence :: presence where
  "default_presence =
     \<lparr>sp_host = None, sp_ip = None, sp_version = None, sp_platform = None, sp_device_family = None, sp_model_identifier = None,
      sp_last_input_seconds = None, sp_mode = None, sp_reason = None, sp_device_id = None, sp_roles = None, sp_scopes = None,
      sp_instance_id = None, sp_text = [], sp_ts = 0\<rparr>"

definition read_presence_string :: "json \<Rightarrow> string \<Rightarrow> string option" where
  "read_presence_string p key = normalize_wake_target (Option.bind (json_get p key) json_as_str)"

fun json_as_i64 :: "json \<Rightarrow> int option" where
  "json_as_i64 (JNumber n) =
     (case strip_prefix ''-'' n of
        Some t \<Rightarrow> Option.bind (parse_u64 t) (\<lambda>k. if k \<le> 2 ^ 63 then Some (- int k) else None)
      | None \<Rightarrow> Option.bind (parse_u64 n) (\<lambda>k. if k < 2 ^ 63 then Some (int k) else None))"
| "json_as_i64 _ = None"

definition read_presence_i64 :: "json \<Rightarrow> string \<Rightarrow> int option" where
  "read_presence_i64 p key =
     or_else (Option.bind (json_get p key) json_as_i64) (map_option as_i64 (Option.bind (json_get p key) json_as_u64))"

fun json_as_array :: "json \<Rightarrow> json list option" where
  "json_as_array (JArray xs) = Some xs"
| "json_as_array _ = None"

definition read_presence_string_list :: "json \<Rightarrow> string \<Rightarrow> string list option" where
  "read_presence_string_list p key =
     (let values = (case Option.bind (json_get p key) json_as_array of
            Some xs \<Rightarrow> filter (\<lambda>s. s \<noteq> []) (map trim (List.map_filter json_as_str xs))
          | None \<Rightarrow> [])
      in if values = [] then None else Some values)"

fun merge_unseen :: "string set \<Rightarrow> string list \<Rightarrow> string list" where
  "merge_unseen seen [] = []"
| "merge_unseen seen (x # xs) =
     (if to_lowercase x \<in> seen then merge_unseen seen xs else x # merge_unseen (insert (to_lowercase x) seen) xs)"

definition list_or_empty :: "'a list option \<Rightarrow> 'a list" where
  "list_or_empty xs = (case xs of Some l \<Rightarrow> l | None \<Rightarrow> [])"

definition merge_presence_string_list :: "string list option \<Rightarrow> string list option \<Rightarrow> string list option" where
  "merge_presence_string_list old new =
     (let merged = merge_unseen {} (list_or_empty old @ list_or_empty new) in if merged = [] then None else Some merged)"

definition ensure_self_presence :: "presence \<Rightarrow> presences \<Rightarrow> presences" where
  "ensure_self_presence self es =
     (if hm_contains_key es SYSTEM_PRESENCE_SELF_KEY then es else hm_insert SYSTEM_PRESENCE_SELF_KEY self es)"

definition touch_self_presence :: "int \<Rightarrow> presence \<Rightarrow> presences \<Rightarrow> presences" where
  "touch_self_presence now self es =
     (if hm_contains_key es SYSTEM_PRESENCE_SELF_KEY then hm_modify SYSTEM_PRESENCE_SELF_KEY (\<lambda>e. e\<lparr>sp_ts := now\<rparr>) es
      else hm_insert SYSTEM_PRESENCE_SELF_KEY self es)"

definition expire_presence :: "int \<Rightarrow> presences \<Rightarrow> presences" where
  "expire_presence now es =
     hm_retain (\<lambda>key e. key = SYSTEM_PRESENCE_SELF_KEY \<or> now - sp_ts e \<le> SYSTEM_PRESENCE_TTL_MS) es"

definition evicted_keys :: "presences \<Rightarrow> string list" where
  "evicted_keys es =
     (let keyed = sort_key snd (filter (\<lambda>(k, _). k \<noteq> SYSTEM_PRESENCE_SELF_KEY) (map (\<lambda>(k, e). (k, sp_ts e)) es))
      in map fst (take (length es - SYSTEM_PRESENCE_MAX_ENTRIES) keyed))"

definition prune_system_presence :: "int \<Rightarrow> presences \<Rightarrow> presences" where
  "prune_system_presence now es =
     (let kept = expire_presence now es
      in if length kept \<le> SYSTEM_PRESENCE_MAX_ENTRIES then kept else fold hm_remove (evicted_keys kept) kept)"

definition list_system_presence :: "int \<Rightarrow> presence \<Rightarrow> presences \<Rightarrow> presence list \<times> presences" where
  "list_system_presence now self es =
     (let es' = touch_self_presence now self (prune_system_presence now (ensure_self_presence self es))
      in (sort_key (\<lambda>e. - sp_ts e) (map snd es'), es'))"

record presence_update =
  pu_key :: string
  pu_next :: presence
  pu_changed_keys :: "string list"

definition presence_key :: "json \<Rightarrow> string \<Rightarrow> string" where
  "presence_key p body =
     (case or_else (or_else (or_else (normalize_context_key (read_presence_string p ''deviceId''))
              (normalize_context_key (read_presence_string p ''instanceId'')))
              (normalize_context_key (read_presence_string p ''host''))) (normalize_context_key (read_presence_string p ''ip'')) of
        Some k \<Rightarrow> k
      | None \<Rightarrow> to_lowercase (concat (take 64 (chars_of body))))"

definition next_presence :: "int \<Rightarrow> json \<Rightarrow> string \<Rightarrow> presence \<Rightarrow> presence" where
  "next_presence now p body old =
     \<lparr>sp_host = or_else (read_presence_string p ''host'') (sp_host old), sp_ip = or_else (read_presence_string p ''ip'') (sp_ip old),
      sp_version = or_else (read_presence_string p ''version'') (sp_version old),
      sp_platform = or_else (read_presence_string p ''platform'') (sp_platform old),
      sp_device_family = or_else (read_presence_string p ''deviceFamily'') (sp_device_family old),
      sp_model_identifier = or_else (read_presence_string p ''modelIdentifier'') (sp_model_identifier old),
      sp_last_input_seconds = or_else (read_presence_i64 p ''lastInputSeconds'') (sp_last_input_seconds old),
      sp_mode = or_else (read_presence_string p ''mode'') (sp_mode old), sp_reason = or_else (read_presence_string p ''reason'') (sp_reason old),
      sp_device_id = or_else (read_presence_string p ''deviceId'') (sp_device_id old),
      sp_roles = merge_presence_string_list (sp_roles old) (read_presence_string_list p ''roles''),
      sp_scopes = merge_presence_string_list (sp_scopes old) (read_presence_string_list p ''scopes''),
      sp_instance_id = or_else (read_presence_string p ''instanceId'') (sp_instance_id old), sp_text = body, sp_ts = now\<rparr>"

definition changed_keys :: "presence \<Rightarrow> presence \<Rightarrow> string list" where
  "changed_keys old new =
     (if sp_host old \<noteq> sp_host new then [''host''] else []) @ (if sp_ip old \<noteq> sp_ip new then [''ip''] else [])
     @ (if sp_version old \<noteq> sp_version new then [''version''] else []) @ (if sp_mode old \<noteq> sp_mode new then [''mode''] else [])
     @ (if sp_reason old \<noteq> sp_reason new then [''reason''] else [])"

definition update_system_presence :: "int \<Rightarrow> presence \<Rightarrow> json \<Rightarrow> presences \<Rightarrow> (string, presence_update) result \<times> presences" where
  "update_system_presence now self p es =
     (case read_presence_string p ''text'' of
        None \<Rightarrow> (Inl ''text required'', es)
      | Some body \<Rightarrow>
          let key = presence_key p body;
              es1 = ensure_self_presence self es;
              old = (case hm_get es1 key of Some e \<Rightarrow> e | None \<Rightarrow> default_presence);
              new = next_presence now p body old
          in (Inr \<lparr>pu_key = key, pu_next = new, pu_changed_keys = changed_keys old new\<rparr>,
              prune_system_presence now (hm_insert key new es1)))"


section \<open>Properties\<close>

subsection \<open>Events\<close>

definition event_queue_ok :: "event_queue \<Rightarrow> bool" where
  "event_queue_ok q =
     (length (eq_queue q) \<le> MAX_SYSTEM_EVENTS \<and> distinct_adj (map ev_text (eq_queue q)) \<and> list_all (\<lambda>e. ev_text e \<noteq> []) (eq_queue q)
      \<and> (eq_queue q = [] \<or> eq_last_text q = Some (ev_text (last (eq_queue q)))))"

lemma distinct_adj_last_n: "distinct_adj xs \<Longrightarrow> distinct_adj (last_n n xs)"
  by (metis append_take_drop_id distinct_adj_appendD2 last_n_def)

lemma last_last_n: "0 < n \<Longrightarrow> last_n n (xs @ [x]) \<noteq> [] \<and> last (last_n n (xs @ [x])) = x"
  by (simp add: last_n_def)

lemma event_queue_ok_push:
  assumes ok: "event_queue_ok q" and new: "cleaned \<noteq> []" "eq_last_text q \<noteq> Some cleaned"
  shows "event_queue_ok (q\<lparr>eq_last_context_key := c, eq_last_text := Some cleaned,
    eq_queue := last_n MAX_SYSTEM_EVENTS (eq_queue q @ [\<lparr>ev_text = cleaned, ev_ts = now, ev_context_key = ctx\<rparr>])\<rparr>)"
proof -
  let ?q = "eq_queue q @ [\<lparr>ev_text = cleaned, ev_ts = now, ev_context_key = ctx\<rparr>]"
  have "distinct_adj (map ev_text ?q)"
    using ok new by (auto simp: event_queue_ok_def distinct_adj_append_iff last_map)
  then have "distinct_adj (map ev_text (last_n MAX_SYSTEM_EVENTS ?q))" by (simp add: distinct_adj_last_n map_last_n)
  moreover have "list_all (\<lambda>e. ev_text e \<noteq> []) (last_n MAX_SYSTEM_EVENTS ?q)"
    using ok new set_last_n [of MAX_SYSTEM_EVENTS ?q] by (auto simp: event_queue_ok_def list_all_iff)
  moreover have "last_n MAX_SYSTEM_EVENTS ?q \<noteq> [] \<and> last (last_n MAX_SYSTEM_EVENTS ?q) = \<lparr>ev_text = cleaned, ev_ts = now, ev_context_key = ctx\<rparr>"
    by (rule last_last_n) (simp add: MAX_SYSTEM_EVENTS_def)
  ultimately show ?thesis by (simp add: event_queue_ok_def length_last_n)
qed

definition events_ok :: "event_queues \<Rightarrow> bool" where
  "events_ok qs = (\<forall>k q. hm_get qs k = Some q \<longrightarrow> event_queue_ok q)"

inductive event_step :: "event_queues \<Rightarrow> event_queues \<Rightarrow> bool" where
  enqueue: "event_step qs (enqueue_system_event_entry now session body ctx qs)"
| drain: "event_step qs (snd (drain_system_event_entries session qs))"

interpretation events: invariant_system "\<lambda>qs. qs = []" event_step events_ok
proof unfold_locales
  show "events_ok qs" if "qs = []" for qs using that by (simp add: events_ok_def)
  show "events_ok t" if ok: "events_ok qs" and st: "event_step qs t" for qs t
    using st
  proof cases
    case (enqueue now session body ctx)
    let ?k = "normalize_system_session_key (Some session)"
    let ?q = "case hm_get qs ?k of Some q \<Rightarrow> q | None \<Rightarrow> empty_event_queue"
    have q: "event_queue_ok ?q"
      using ok by (auto simp: events_ok_def event_queue_ok_def empty_event_queue_def split: option.split)
    have "event_queue_ok (?q\<lparr>eq_last_context_key := c\<rparr>)" for c using q by (simp add: event_queue_ok_def)
    moreover have "events_ok (hm_insert ?k q' qs)" if "event_queue_ok q'" for q' using ok that by (simp add: events_ok_def)
    ultimately show ?thesis
      using enqueue ok event_queue_ok_push [OF q] by (auto simp: enqueue_system_event_entry_def Let_def)
  next
    case (drain session)
    then show ?thesis using ok by (auto simp: events_ok_def drain_system_event_entries_def Let_def split: option.splits if_splits)
  qed
qed

text \<open>The system events of a session: however events are added and drained, a session's queue holds at most twenty of them, none is empty, no
  event directly repeats the one before it, draining hands over exactly the queue, and a second drain gives nothing.\<close>

theorem system_events_sound:
  assumes "event_step\<^sup>*\<^sup>* [] qs"
  shows "length (fst (drain_system_event_entries session qs)) \<le> 20
    \<and> distinct_adj (map ev_text (fst (drain_system_event_entries session qs)))
    \<and> list_all (\<lambda>e. ev_text e \<noteq> []) (fst (drain_system_event_entries session qs))
    \<and> fst (drain_system_event_entries session (snd (drain_system_event_entries session qs))) = []"
proof -
  have ok: "events_ok qs" using events.reachable_inv assms by blast
  show ?thesis
  proof (cases "hm_get qs (normalize_system_session_key (Some session))")
    case (Some q)
    then have "event_queue_ok q" using ok by (simp add: events_ok_def)
    then show ?thesis using Some by (simp add: drain_system_event_entries_def event_queue_ok_def MAX_SYSTEM_EVENTS_def)
  qed (simp add: drain_system_event_entries_def)
qed

theorem system_events_sound_witness:
  "length (fst (drain_system_event_entries ''s'' (enqueue_system_event_entry 2 ''s'' ''up'' None (enqueue_system_event_entry 1 ''s'' ''up'' None [])))) \<le> 20"
proof -
  have "event_step\<^sup>*\<^sup>* [] (enqueue_system_event_entry 2 ''s'' ''up'' None (enqueue_system_event_entry 1 ''s'' ''up'' None []))"
    by (meson event_step.enqueue rtranclp.rtrancl_into_rtrancl rtranclp.rtrancl_refl)
  from system_events_sound [OF this] show ?thesis by blast
qed

subsection \<open>Wakes\<close>

text \<open>Sorting is stable: a list in some order, sorted by a key, is in that order wherever the keys agree.\<close>

lemma insort_key_keeps_order:
  assumes "sorted_wrt (\<lambda>x y. f x < f y \<or> f x = f y \<and> R x y) ys" and "\<forall>y \<in> set ys. R x y"
  shows "sorted_wrt (\<lambda>x y. f x < f y \<or> f x = (f y :: 'b::linorder) \<and> R x y) (insort_key f x ys)"
  using assms by (induction ys) (auto simp: set_insort_key)

lemma sort_key_keeps_order:
  "sorted_wrt R xs \<Longrightarrow> sorted_wrt (\<lambda>x y. f x < f y \<or> f x = (f y :: 'b::linorder) \<and> R x y) (sort_key f xs)"
  by (induction xs) (auto intro!: insort_key_keeps_order)

lemma queue_wake_get:
  "hm_get (queue_wake v m) k =
     (if k = wake_key v then Some (case hm_get m k of Some w \<Rightarrow> if replaces v w then v else w | None \<Rightarrow> v) else hm_get m k)"
  by (auto simp: queue_wake_def split: option.split)

definition outranks :: "pending_wake \<Rightarrow> pending_wake \<Rightarrow> bool" where
  "outranks w v = (wk_priority v < wk_priority w \<or> wk_priority v = wk_priority w \<and> wk_requested_at v \<le> wk_requested_at w)"

definition best_wake :: "string \<Rightarrow> pending_wake list \<Rightarrow> pending_wake option \<Rightarrow> bool" where
  "best_wake k ws r =
     (case r of None \<Rightarrow> k \<notin> wake_key ` set ws
      | Some w \<Rightarrow> w \<in> set ws \<and> wake_key w = k \<and> (\<forall>v \<in> set ws. wake_key v = k \<longrightarrow> outranks w v))"

lemma best_wake_snoc:
  assumes "best_wake k ws (hm_get m k)"
  shows "best_wake k (ws @ [v]) (hm_get (queue_wake v m) k)"
proof (cases "hm_get m k")
  case None
  then show ?thesis using assms by (auto simp: best_wake_def queue_wake_get outranks_def image_iff)
next
  case (Some w)
  then show ?thesis using assms by (auto simp: best_wake_def queue_wake_get outranks_def replaces_def; fastforce)
qed

lemma fold_queue_wake: "best_wake k ws (hm_get (fold queue_wake ws []) k)"
  by (induction ws rule: rev_induct) (simp add: best_wake_def, simp add: best_wake_snoc)

text \<open>Wakes are coalesced.  After any requests there is at most one wake per target, namely a latest one among those of the highest
  priority asked for that target; no target that asked is forgotten; and they are taken by descending priority
  and then in the order of their requests, leaving none.\<close>

theorem wakes_coalesced:
  "(hm_get (fold queue_wake ws []) k = None \<longleftrightarrow> k \<notin> wake_key ` set ws)
   \<and> (\<forall>w. hm_get (fold queue_wake ws []) k = Some w \<longrightarrow>
        w \<in> set ws \<and> wake_key w = k \<and> (\<forall>v \<in> set ws. wake_key v = k \<longrightarrow> outranks w v))
   \<and> sorted_wrt (\<lambda>v w. wk_priority w < wk_priority v \<or> wk_priority w = wk_priority v \<and> wk_requested_at v \<le> wk_requested_at w)
        (fst (take_pending_heartbeat_wakes m))
   \<and> mset (fst (take_pending_heartbeat_wakes m)) = mset (map snd m) \<and> snd (take_pending_heartbeat_wakes m) = []"
proof -
  have "sorted_wrt (\<lambda>v w. wk_requested_at v \<le> wk_requested_at w) (sort_key wk_requested_at (map snd m))"
    using sorted_sort_key [of wk_requested_at "map snd m"] by (simp add: sorted_map)
  from sort_key_keeps_order [OF this, of "\<lambda>w. - wk_priority w"]
  have "sorted_wrt (\<lambda>v w. wk_priority w < wk_priority v \<or> wk_priority w = wk_priority v \<and> wk_requested_at v \<le> wk_requested_at w)
      (sort_key (\<lambda>w. - wk_priority w) (sort_key wk_requested_at (map snd m)))"
    by (rule sorted_wrt_mono_rel [rotated]) auto
  then show ?thesis
    using fold_queue_wake [of k ws] by (auto simp: best_wake_def take_pending_heartbeat_wakes_def split: option.splits)
qed

definition sample_wake :: "string \<Rightarrow> int \<Rightarrow> pending_wake" where
  "sample_wake reason now = make_wake now (Some reason) None (Some ''s'')"

theorem wakes_coalesced_witness:
  "hm_get (fold queue_wake [sample_wake ''manual'' 1, sample_wake ''interval'' 2] []) ''::s'' = Some (sample_wake ''manual'' 1)"
proof -
  have k: "wake_key (sample_wake ''manual'' 1) = ''::s''" "wake_key (sample_wake ''interval'' 2) = ''::s''"
    and p: "wk_priority (sample_wake ''manual'' 1) = 3" "wk_priority (sample_wake ''interval'' 2) = 1"
    by code_simp+
  obtain w where w: "hm_get (fold queue_wake [sample_wake ''manual'' 1, sample_wake ''interval'' 2] []) ''::s'' = Some w"
      "w \<in> {sample_wake ''manual'' 1, sample_wake ''interval'' 2}" "outranks w (sample_wake ''manual'' 1)"
    using wakes_coalesced [of "[sample_wake ''manual'' 1, sample_wake ''interval'' 2]" "''::s''" "[]"] k
    by (cases "hm_get (fold queue_wake [sample_wake ''manual'' 1, sample_wake ''interval'' 2] []) ''::s''") auto
  then show ?thesis using p by (auto simp: outranks_def)
qed

text \<open>Targets whose ids contain colons share a key: the wake of one replaces that of the other.\<close>

lemma wake_targets_collide: "wake_target_key (Some ''a:'') (Some ''b'') = wake_target_key (Some ''a'') (Some '':b'')"
  by (simp add: wake_target_key_def)


subsection \<open>Presence\<close>

lemma fold_remove_get: "hm_get (fold hm_remove ks m) j = (if j \<in> set ks then None else hm_get m j)"
  by (induction ks arbitrary: m) auto

lemma fold_remove_wf: "hm_wf m \<Longrightarrow> hm_wf (fold hm_remove ks m)"
  by (induction ks arbitrary: m) auto

lemma fold_remove_length:
  "hm_wf m \<Longrightarrow> distinct ks \<Longrightarrow> \<forall>k \<in> set ks. hm_contains_key m k \<Longrightarrow> length (fold hm_remove ks m) = length m - length ks"
proof (induction ks arbitrary: m)
  case (Cons a ks)
  then have "\<forall>k \<in> set ks. hm_contains_key (hm_remove a m) k" "hm_contains_key m a" by auto
  then show ?case using Cons length_delete [of m a] by simp
qed simp

lemma expire_get:
  "hm_wf es \<Longrightarrow> hm_get (expire_presence now es) k =
     (case hm_get es k of Some e \<Rightarrow> if k = SYSTEM_PRESENCE_SELF_KEY \<or> now - sp_ts e \<le> SYSTEM_PRESENCE_TTL_MS then Some e else None | None \<Rightarrow> None)"
  by (simp add: expire_presence_def)

lemma evicted_keys_facts:
  assumes wf: "hm_wf es"
  shows "distinct (evicted_keys es)" and "set (evicted_keys es) \<subseteq> fst ` set es - {SYSTEM_PRESENCE_SELF_KEY}"
    and "hm_contains_key es SYSTEM_PRESENCE_SELF_KEY \<Longrightarrow> length (evicted_keys es) = length es - SYSTEM_PRESENCE_MAX_ENTRIES"
    and "k \<in> set (evicted_keys es) \<Longrightarrow> hm_get es k = Some e \<Longrightarrow> k' \<notin> set (evicted_keys es) \<Longrightarrow> k' \<noteq> SYSTEM_PRESENCE_SELF_KEY \<Longrightarrow>
      hm_get es k' = Some e' \<Longrightarrow> sp_ts e \<le> sp_ts e'"
proof -
  let ?others = "filter (\<lambda>(k, _). k \<noteq> SYSTEM_PRESENCE_SELF_KEY) (map (\<lambda>(k, e). (k, sp_ts e)) es)"
  let ?keyed = "sort_key snd ?others" and ?n = "length es - SYSTEM_PRESENCE_MAX_ENTRIES"
  have ev: "evicted_keys es = map fst (take ?n ?keyed)" by (simp add: evicted_keys_def)
  have "map fst (map (\<lambda>(k, e). (k, sp_ts e)) es) = map fst es" by (simp add: comp_def case_prod_unfold)
  then have "distinct (map fst ?others)" using wf by (intro distinct_map_filter) (simp add: hm_wf_def comp_def case_prod_unfold)
  moreover have "mset (map fst ?keyed) = mset (map fst ?others)" by simp
  ultimately have d: "distinct (map fst ?keyed)" using mset_eq_imp_distinct_iff by blast
  then show "distinct (evicted_keys es)" unfolding ev by (metis distinct_take take_map)
  have in_keyed: "(j, t) \<in> set ?keyed \<longleftrightarrow> j \<noteq> SYSTEM_PRESENCE_SELF_KEY \<and> (\<exists>x. hm_get es j = Some x \<and> t = sp_ts x)" for j t
    using wf by (auto simp: hm_wf_def)
  show "set (evicted_keys es) \<subseteq> fst ` set es - {SYSTEM_PRESENCE_SELF_KEY}"
  proof
    fix k assume "k \<in> set (evicted_keys es)"
    then obtain t where "(k, t) \<in> set (take ?n ?keyed)" unfolding ev by auto
    then have "(k, t) \<in> set ?keyed" by (rule in_set_takeD)
    then obtain x where "k \<noteq> SYSTEM_PRESENCE_SELF_KEY" "hm_get es k = Some x" unfolding in_keyed by blast
    then show "k \<in> fst ` set es - {SYSTEM_PRESENCE_SELF_KEY}" by (auto dest!: map_of_SomeD intro: rev_image_eqI)
  qed
  show "length (evicted_keys es) = ?n" if self: "hm_contains_key es SYSTEM_PRESENCE_SELF_KEY"
  proof -
    have "length ?others = length (filter (\<lambda>k. SYSTEM_PRESENCE_SELF_KEY \<noteq> k) (map fst es))"
      by (induction es) auto
    also have "filter (\<lambda>k. SYSTEM_PRESENCE_SELF_KEY \<noteq> k) (map fst es) = remove1 SYSTEM_PRESENCE_SELF_KEY (map fst es)"
      using wf by (simp add: hm_wf_def distinct_remove1_removeAll removeAll_filter_not_eq)
    also have "length \<dots> = length es - 1"
      using self by (subst length_remove1) (auto dest: map_of_SomeD intro: rev_image_eqI)
    finally have "length ?keyed = length es - 1" by simp
    then show ?thesis unfolding ev by (simp add: SYSTEM_PRESENCE_MAX_ENTRIES_def min_def)
  qed
  show "sp_ts e \<le> sp_ts e'" if k: "k \<in> set (evicted_keys es)" "hm_get es k = Some e"
    and k': "k' \<notin> set (evicted_keys es)" "k' \<noteq> SYSTEM_PRESENCE_SELF_KEY" "hm_get es k' = Some e'"
  proof -
    obtain t where t: "(k, t) \<in> set (take ?n ?keyed)" using k(1) unfolding ev by auto
    then have te: "t = sp_ts e" using in_keyed [of k t] in_set_takeD [OF t] k(2) by simp
    have in': "(k', sp_ts e') \<in> set ?keyed" using in_keyed [of k' "sp_ts e'"] k'(2,3) by simp
    have "(k', sp_ts e') \<notin> set (take ?n ?keyed)"
    proof
      assume "(k', sp_ts e') \<in> set (take ?n ?keyed)"
      then have "fst (k', sp_ts e') \<in> fst ` set (take ?n ?keyed)" by (rule imageI)
      then show False using k'(1) unfolding ev by simp
    qed
    then have dr: "(k', sp_ts e') \<in> set (drop ?n ?keyed)" using in_take_or_drop [OF in'] by blast
    have "sorted (map snd (take ?n ?keyed @ drop ?n ?keyed))" by simp
    then have "\<forall>x \<in> set (map snd (take ?n ?keyed)). \<forall>y \<in> set (map snd (drop ?n ?keyed)). x \<le> y"
      unfolding map_append sorted_append by blast
    moreover have "snd (k, t) \<in> set (map snd (take ?n ?keyed))" "snd (k', sp_ts e') \<in> set (map snd (drop ?n ?keyed))"
      unfolding set_map by (rule imageI [OF t], rule imageI [OF dr])
    ultimately have "snd (k, t) \<le> snd (k', sp_ts e')" by blast
    then show ?thesis using te by simp
  qed
qed

lemma prune_facts:
  assumes wf: "hm_wf es" and self: "hm_contains_key es SYSTEM_PRESENCE_SELF_KEY"
  shows "hm_wf (prune_system_presence now es)" and "hm_contains_key (prune_system_presence now es) SYSTEM_PRESENCE_SELF_KEY"
    and "length (prune_system_presence now es) \<le> SYSTEM_PRESENCE_MAX_ENTRIES"
    and "hm_get es k = Some e \<Longrightarrow> hm_get (prune_system_presence now es) k = None \<Longrightarrow> k \<noteq> SYSTEM_PRESENCE_SELF_KEY \<and>
      (SYSTEM_PRESENCE_TTL_MS < now - sp_ts e \<or>
       (\<forall>k' e'. hm_get (prune_system_presence now es) k' = Some e' \<and> k' \<noteq> SYSTEM_PRESENCE_SELF_KEY \<longrightarrow> sp_ts e \<le> sp_ts e'))"
proof -
  let ?kept = "expire_presence now es"
  have wf': "hm_wf ?kept" using wf by (simp add: expire_presence_def)
  have self': "hm_contains_key ?kept SYSTEM_PRESENCE_SELF_KEY" using self wf by (auto simp: expire_get)
  note ev = evicted_keys_facts [OF wf']
  have sub: "\<forall>k \<in> set (evicted_keys ?kept). hm_contains_key ?kept k" using ev(2) by (auto simp: map_of_eq_None_iff)
  show "hm_wf (prune_system_presence now es)" using wf' by (simp add: prune_system_presence_def Let_def fold_remove_wf)
  show "hm_contains_key (prune_system_presence now es) SYSTEM_PRESENCE_SELF_KEY"
    using self' ev(2) by (auto simp: prune_system_presence_def Let_def fold_remove_get)
  have "length (fold hm_remove (evicted_keys ?kept) ?kept) \<le> SYSTEM_PRESENCE_MAX_ENTRIES"
    using fold_remove_length [OF wf' ev(1) sub] ev(3) [OF self'] by simp
  then show "length (prune_system_presence now es) \<le> SYSTEM_PRESENCE_MAX_ENTRIES" by (simp add: prune_system_presence_def Let_def)
  assume e: "hm_get es k = Some e" and gone: "hm_get (prune_system_presence now es) k = None"
  have ks: "k \<noteq> SYSTEM_PRESENCE_SELF_KEY" using gone \<open>hm_contains_key (prune_system_presence now es) SYSTEM_PRESENCE_SELF_KEY\<close> by auto
  show "k \<noteq> SYSTEM_PRESENCE_SELF_KEY \<and> (SYSTEM_PRESENCE_TTL_MS < now - sp_ts e \<or>
       (\<forall>k' e'. hm_get (prune_system_presence now es) k' = Some e' \<and> k' \<noteq> SYSTEM_PRESENCE_SELF_KEY \<longrightarrow> sp_ts e \<le> sp_ts e'))"
  proof (cases "SYSTEM_PRESENCE_TTL_MS < now - sp_ts e")
    case False
    then have kept: "hm_get ?kept k = Some e" using e wf by (simp add: expire_get)
    then have "k \<in> set (evicted_keys ?kept)" and pr: "prune_system_presence now es = fold hm_remove (evicted_keys ?kept) ?kept"
      using gone by (auto simp: prune_system_presence_def Let_def fold_remove_get split: if_splits)
    then have "sp_ts e \<le> sp_ts e'" if "hm_get (prune_system_presence now es) k' = Some e'" "k' \<noteq> SYSTEM_PRESENCE_SELF_KEY" for k' e'
      using ev(4) [OF _ kept] that by (auto simp: fold_remove_get split: if_splits)
    then show ?thesis using ks by blast
  qed (use ks in simp)
qed

definition presence_ok :: "presences \<Rightarrow> bool" where
  "presence_ok es = (hm_wf es \<and> hm_contains_key es SYSTEM_PRESENCE_SELF_KEY \<and> length es \<le> SYSTEM_PRESENCE_MAX_ENTRIES)"

inductive presence_step :: "presences \<Rightarrow> presences \<Rightarrow> bool" where
  update: "presence_step es (snd (update_system_presence now self p es))"
| list: "presence_step es (snd (list_system_presence now self es))"

lemma ensure_id: "hm_contains_key es SYSTEM_PRESENCE_SELF_KEY \<Longrightarrow> ensure_self_presence self es = es"
  by (simp add: ensure_self_presence_def)

interpretation presence: invariant_system "\<lambda>es. \<exists>self. es = [(SYSTEM_PRESENCE_SELF_KEY, self)]" presence_step presence_ok
proof unfold_locales
  show "presence_ok es" if "\<exists>self. es = [(SYSTEM_PRESENCE_SELF_KEY, self)]" for es
    using that by (auto simp: presence_ok_def hm_wf_def SYSTEM_PRESENCE_MAX_ENTRIES_def)
  show "presence_ok t" if ok: "presence_ok es" and st: "presence_step es t" for es t
    using st
  proof cases
    case (update now self p)
    have "presence_ok (prune_system_presence now (hm_insert k e es))" for k e
    proof -
      have "hm_wf (hm_insert k e es)" "hm_contains_key (hm_insert k e es) SYSTEM_PRESENCE_SELF_KEY" using ok by (auto simp: presence_ok_def)
      from prune_facts(1-3) [OF this, of now] show ?thesis unfolding presence_ok_def by blast
    qed
    then show ?thesis using update ok ensure_id by (auto simp: update_system_presence_def presence_ok_def Let_def split: option.split)
  next
    case (list now self)
    have p: "presence_ok (prune_system_presence now es)" using ok prune_facts(1-3) [of es now] unfolding presence_ok_def by blast
    then have "presence_ok (touch_self_presence now self (prune_system_presence now es))"
      by (auto simp: presence_ok_def touch_self_presence_def hm_modify_def length_update)
    then show ?thesis using list ok ensure_id by (simp add: list_system_presence_def presence_ok_def Let_def)
  qed
qed



text \<open>The gateway's own entry is not protected from clients: a client that names itself like it writes to it.\<close>

lemma presence_self_spoofed:
  "map_option sp_host (hm_get (snd (update_system_presence 7 default_presence
     (JObject [(''text'', JString ''hi''), (''deviceId'', JString ''gateway:self''), (''host'', JString ''evil'')])
     [(SYSTEM_PRESENCE_SELF_KEY, default_presence)])) SYSTEM_PRESENCE_SELF_KEY) = Some (Some ''evil'')"
  by code_simp

end
