(* ===== verification/Session_Store.thy ===== *)
theory Session_Store
  imports Message_Pipeline
begin

text \<open>
  The store of conversations (\<^verbatim>\<open>SessionManager\<close> in \<^verbatim>\<open>gateway-core/src/message.rs\<close>): sessions, their messages and
  metadata, and agents, kept in SQLite.  A table is the list of its rows in the order of insertion, each method
  runs under the mutex of the connection, and its SQL statements are functions on the tables.
  Whether SQLite enforces foreign keys is decided by the library's build, so it is the parameter \<open>fk\<close>.  The
  store implements a map from keys to conversations when they are enforced; otherwise the messages of
  a removed session come back with the next session of the same key.
\<close>

section \<open>Tables\<close>

record session_row =
  sr_key :: string
  sr_agent_id :: string
  sr_created_at :: int
  sr_updated_at :: int
  sr_message_count :: int

record message_row =
  mg_id :: nat
  mg_session_key :: string
  mg_role :: string
  mg_content :: string
  mg_timestamp :: int

record agent_row =
  ar_id :: string
  ar_name :: string
  ar_model :: string
  ar_system_prompt :: string
  ar_created_at :: int
  ar_updated_at :: int

record session_db =
  db_sessions :: "session_row list"
  db_messages :: "message_row list"
  db_metadata :: "(string \<times> string, string) hash_map"
  db_agents :: "agent_row list"
  db_next_id :: nat

datatype db_error = ForeignKeyFailed | UniqueFailed | EmptyMetadataKey | CreatedNotFound

definition empty_db :: session_db where
  "empty_db = \<lparr>db_sessions = [], db_messages = [], db_metadata = [], db_agents = [], db_next_id = 1\<rparr>"

definition has_session :: "string \<Rightarrow> session_db \<Rightarrow> bool" where
  "has_session k db = (\<exists>r\<in>set (db_sessions db). sr_key r = k)"

text \<open>\<^verbatim>\<open>UPDATE sessions SET ... WHERE key = k\<close> and \<^verbatim>\<open>DELETE FROM sessions WHERE ...\<close> with its cascade.\<close>

definition update_sessions :: "string \<Rightarrow> (session_row \<Rightarrow> session_row) \<Rightarrow> session_db \<Rightarrow> session_db" where
  "update_sessions k f db = db\<lparr>db_sessions := map (\<lambda>r. if sr_key r = k then f r else r) (db_sessions db)\<rparr>"

definition delete_sessions :: "bool \<Rightarrow> (session_row \<Rightarrow> bool) \<Rightarrow> session_db \<Rightarrow> session_db" where
  "delete_sessions fk P db =
     (let gone = sr_key ` set (filter P (db_sessions db));
          db1 = db\<lparr>db_sessions := filter (\<lambda>r. \<not> P r) (db_sessions db)\<rparr>
      in if fk then db1\<lparr>db_messages := filter (\<lambda>g. mg_session_key g \<notin> gone) (db_messages db),
                        db_metadata := filter (\<lambda>e. fst (fst e) \<notin> gone) (db_metadata db)\<rparr>
         else db1)"

definition rows_of :: "string \<Rightarrow> session_db \<Rightarrow> message_row list" where
  "rows_of k db = filter (\<lambda>g. mg_session_key g = k) (db_messages db)"

section \<open>Sessions\<close>

definition get_session :: "string \<Rightarrow> session_db \<Rightarrow> session_row option" where
  "get_session k db = find (\<lambda>r. sr_key r = k) (db_sessions db)"

definition create_session :: "int \<Rightarrow> string \<Rightarrow> string \<Rightarrow> session_db \<Rightarrow> (db_error, session_row) result \<times> session_db" where
  "create_session now k a db =
     (let row = \<lparr>sr_key = k, sr_agent_id = a, sr_created_at = now, sr_updated_at = now, sr_message_count = 0\<rparr>;
          db1 = (if has_session k db then db else db\<lparr>db_sessions := db_sessions db @ [row]\<rparr>);
          db2 = update_sessions k (\<lambda>r. r\<lparr>sr_agent_id := a, sr_updated_at := now\<rparr>) db1
      in (case get_session k db2 of None \<Rightarrow> Inl CreatedNotFound | Some r \<Rightarrow> Inr r, db2))"

definition list_sessions :: "session_db \<Rightarrow> session_row list" where
  "list_sessions db = sort_key (\<lambda>r. - sr_updated_at r) (db_sessions db)"

definition remove_session :: "bool \<Rightarrow> string \<Rightarrow> session_db \<Rightarrow> session_row option \<times> session_db" where
  "remove_session fk k db =
     (case get_session k db of
        None \<Rightarrow> (None, db)
      | Some r \<Rightarrow> (Some r, delete_sessions fk (\<lambda>r. sr_key r = k) db))"

definition update_message_count :: "int \<Rightarrow> string \<Rightarrow> int \<Rightarrow> session_db \<Rightarrow> session_db" where
  "update_message_count now k n = update_sessions k (\<lambda>r. r\<lparr>sr_message_count := n, sr_updated_at := now\<rparr>)"

definition update_agent_id :: "int \<Rightarrow> string \<Rightarrow> string \<Rightarrow> session_db \<Rightarrow> session_db" where
  "update_agent_id now k a = update_sessions k (\<lambda>r. r\<lparr>sr_agent_id := a, sr_updated_at := now\<rparr>)"

definition touch_session :: "int \<Rightarrow> string \<Rightarrow> session_db \<Rightarrow> session_db" where
  "touch_session now k = update_sessions k (\<lambda>r. r\<lparr>sr_updated_at := now\<rparr>)"

definition cleanup_stale :: "bool \<Rightarrow> int \<Rightarrow> int \<Rightarrow> session_db \<Rightarrow> nat \<times> session_db" where
  "cleanup_stale fk now max_age db =
     (let old = (\<lambda>r. sr_updated_at r < i64_add now (- max_age))
      in (length (filter old (db_sessions db)), delete_sessions fk old db))"

section \<open>Metadata\<close>

definition get_session_metadata :: "string \<Rightarrow> session_db \<Rightarrow> metadata" where
  "get_session_metadata k db =
     map (\<lambda>e. (snd (fst e), snd e)) (filter (\<lambda>e. fst (fst e) = k) (db_metadata db))"

definition put_metadata :: "bool \<Rightarrow> string \<Rightarrow> string \<Rightarrow> string \<Rightarrow> session_db \<Rightarrow> (db_error, unit) result \<times> session_db" where
  "put_metadata fk k f v db =
     (if fk \<and> \<not> has_session k db then (Inl ForeignKeyFailed, db)
      else (Inr (), db\<lparr>db_metadata := hm_insert (k, f) v (db_metadata db)\<rparr>))"

definition set_session_metadata_field ::
  "bool \<Rightarrow> string \<Rightarrow> string \<Rightarrow> string \<Rightarrow> session_db \<Rightarrow> (db_error, unit) result \<times> session_db" where
  "set_session_metadata_field fk k f v db =
     (if trim f = [] then (Inl EmptyMetadataKey, db) else put_metadata fk k (trim f) v db)"

text \<open>One transaction: an error rolls all of it back.\<close>

fun put_fields :: "bool \<Rightarrow> string \<Rightarrow> metadata \<Rightarrow> session_db \<Rightarrow> (db_error, session_db) result" where
  "put_fields fk k [] db = Inr db"
| "put_fields fk k ((f, v) # fs) db =
     (if trim f = [] then put_fields fk k fs db
      else case put_metadata fk k (trim f) v db of
             (Inl e, _) \<Rightarrow> Inl e
           | (Inr _, db') \<Rightarrow> put_fields fk k fs db')"

definition set_session_metadata_fields :: "bool \<Rightarrow> string \<Rightarrow> metadata \<Rightarrow> session_db \<Rightarrow> (db_error, unit) result \<times> session_db" where
  "set_session_metadata_fields fk k fs db =
     (if fs = [] then (Inr (), db)
      else case put_fields fk k fs db of Inl e \<Rightarrow> (Inl e, db) | Inr db' \<Rightarrow> (Inr (), db'))"

section \<open>Agents\<close>

definition create_agent ::
  "int \<Rightarrow> string \<Rightarrow> string \<Rightarrow> string \<Rightarrow> string \<Rightarrow> session_db \<Rightarrow> (db_error, agent_row) result \<times> session_db" where
  "create_agent now i nm mo sp db =
     (let row = \<lparr>ar_id = i, ar_name = nm, ar_model = mo, ar_system_prompt = sp, ar_created_at = now, ar_updated_at = now\<rparr>
      in if \<exists>r\<in>set (db_agents db). ar_id r = i then (Inl UniqueFailed, db)
         else (Inr row, db\<lparr>db_agents := db_agents db @ [row]\<rparr>))"

definition list_agents :: "session_db \<Rightarrow> agent_row list" where
  "list_agents db = sort_key ar_created_at (db_agents db)"

definition patch_str :: "json \<Rightarrow> string \<Rightarrow> string option" where
  "patch_str p f = Option.bind (json_get p f) json_as_str"

definition update_agents :: "string \<Rightarrow> (agent_row \<Rightarrow> agent_row) \<Rightarrow> session_db \<Rightarrow> session_db" where
  "update_agents i f db = db\<lparr>db_agents := map (\<lambda>r. if ar_id r = i then f r else r) (db_agents db)\<rparr>"

definition patch_agent :: "string \<Rightarrow> string option \<Rightarrow> (string \<Rightarrow> agent_row \<Rightarrow> agent_row) \<Rightarrow> session_db \<Rightarrow> session_db" where
  "patch_agent i v f db = (case v of None \<Rightarrow> db | Some x \<Rightarrow> update_agents i (f x) db)"

definition update_agent :: "int \<Rightarrow> string \<Rightarrow> json \<Rightarrow> session_db \<Rightarrow> session_db" where
  "update_agent now i p db =
     (let db1 = patch_agent i (patch_str p ''name'') (\<lambda>x r. r\<lparr>ar_name := x, ar_updated_at := now\<rparr>) db;
          db2 = patch_agent i (patch_str p ''model'') (\<lambda>x r. r\<lparr>ar_model := x, ar_updated_at := now\<rparr>) db1
      in patch_agent i (patch_str p ''systemPrompt'') (\<lambda>x r. r\<lparr>ar_system_prompt := x, ar_updated_at := now\<rparr>) db2)"

definition delete_agent :: "string \<Rightarrow> session_db \<Rightarrow> session_db" where
  "delete_agent i db = db\<lparr>db_agents := filter (\<lambda>r. ar_id r \<noteq> i) (db_agents db)\<rparr>"

section \<open>Messages\<close>

definition add_message ::
  "bool \<Rightarrow> int \<Rightarrow> string \<Rightarrow> string \<Rightarrow> string \<Rightarrow> session_db \<Rightarrow> (db_error, unit) result \<times> session_db" where
  "add_message fk now k role text db =
     (if fk \<and> \<not> has_session k db then (Inl ForeignKeyFailed, db)
      else let row = \<lparr>mg_id = db_next_id db, mg_session_key = k, mg_role = role, mg_content = text, mg_timestamp = now\<rparr>;
               db1 = db\<lparr>db_messages := db_messages db @ [row], db_next_id := Suc (db_next_id db)\<rparr>
           in (Inr (), update_sessions k
                 (\<lambda>r. r\<lparr>sr_message_count := int (length (rows_of k db1)), sr_updated_at := now\<rparr>) db1))"

text \<open>\<^verbatim>\<open>LIMIT\<close> with the limit cast to \<^verbatim>\<open>i64\<close>: a negative limit is no limit.\<close>

definition sql_limit :: "int \<Rightarrow> 'a list \<Rightarrow> 'a list" where
  "sql_limit n xs = (if n < 0 then xs else take (nat n) xs)"

definition get_messages :: "string \<Rightarrow> nat \<Rightarrow> session_db \<Rightarrow> (string \<times> string \<times> int) list" where
  "get_messages k limit db =
     map (\<lambda>g. (mg_role g, mg_content g, mg_timestamp g))
       (sql_limit (as_i64 limit) (rev (sort_key mg_id (rows_of k db))))"

definition clear_messages :: "int \<Rightarrow> string \<Rightarrow> session_db \<Rightarrow> session_db" where
  "clear_messages now k db =
     update_sessions k (\<lambda>r. r\<lparr>sr_message_count := 0, sr_updated_at := now\<rparr>)
       (db\<lparr>db_messages := filter (\<lambda>g. mg_session_key g \<noteq> k) (db_messages db)\<rparr>)"

definition compact_messages :: "int \<Rightarrow> string \<Rightarrow> nat \<Rightarrow> session_db \<Rightarrow> (nat \<times> nat) \<times> session_db" where
  "compact_messages now k max_messages db =
     (let total_rows = length (rows_of k db)
      in if max_messages < total_rows then
           let to_delete = total_rows - max_messages;
               ids = mg_id ` set (take to_delete (sort_key mg_id (rows_of k db)));
               db1 = db\<lparr>db_messages := filter (\<lambda>g. mg_id g \<notin> ids) (db_messages db)\<rparr>;
               new_count = total_rows - to_delete
           in ((total_rows, new_count),
               update_sessions k (\<lambda>r. r\<lparr>sr_message_count := int new_count, sr_updated_at := now\<rparr>) db1)
         else ((total_rows, total_rows), db))"

section \<open>The store as a machine\<close>

datatype db_op =
    OpCreate string string
  | OpRemove string
  | OpCount string int
  | OpAgentId string string
  | OpTouch string
  | OpCleanup int
  | OpMeta string string string
  | OpMetas string metadata
  | OpAdd string string string
  | OpClear string
  | OpCompact string nat
  | OpCreateAgent string string string string
  | OpUpdateAgent string json
  | OpDeleteAgent string

fun db_exec :: "bool \<Rightarrow> int \<Rightarrow> db_op \<Rightarrow> session_db \<Rightarrow> (db_error, unit) result \<times> session_db" where
  "db_exec fk now (OpCreate k a) db = (case create_session now k a db of (r, db') \<Rightarrow> (map_sum id (\<lambda>_. ()) r, db'))"
| "db_exec fk now (OpRemove k) db = (Inr (), snd (remove_session fk k db))"
| "db_exec fk now (OpCount k n) db = (Inr (), update_message_count now k n db)"
| "db_exec fk now (OpAgentId k a) db = (Inr (), update_agent_id now k a db)"
| "db_exec fk now (OpTouch k) db = (Inr (), touch_session now k db)"
| "db_exec fk now (OpCleanup age) db = (Inr (), snd (cleanup_stale fk now age db))"
| "db_exec fk now (OpMeta k f v) db = set_session_metadata_field fk k f v db"
| "db_exec fk now (OpMetas k fs) db = set_session_metadata_fields fk k fs db"
| "db_exec fk now (OpAdd k role text) db = add_message fk now k role text db"
| "db_exec fk now (OpClear k) db = (Inr (), clear_messages now k db)"
| "db_exec fk now (OpCompact k n) db = (Inr (), snd (compact_messages now k n db))"
| "db_exec fk now (OpCreateAgent i nm mo sp) db = (case create_agent now i nm mo sp db of (r, db') \<Rightarrow> (map_sum id (\<lambda>_. ()) r, db'))"
| "db_exec fk now (OpUpdateAgent i p) db = (Inr (), update_agent now i p db)"
| "db_exec fk now (OpDeleteAgent i) db = (Inr (), delete_agent i db)"

fun db_run :: "bool \<Rightarrow> (int \<times> db_op) list \<Rightarrow> session_db \<Rightarrow> session_db" where
  "db_run fk [] db = db"
| "db_run fk ((now, c) # cs) db = db_run fk cs (snd (db_exec fk now c db))"

text \<open>
  The specification: a map from keys to conversations, each with its agent, times, count, the log
  of its messages, oldest first, and its metadata.
\<close>

record conversation =
  cv_agent_id :: string
  cv_created_at :: int
  cv_updated_at :: int
  cv_count :: int
  cv_log :: "(string \<times> string \<times> int) list"
  cv_meta :: "string \<Rightarrow> string option"

type_synonym conversations = "string \<Rightarrow> conversation option"

definition alter :: "string \<Rightarrow> (conversation \<Rightarrow> conversation) \<Rightarrow> conversations \<Rightarrow> conversations" where
  "alter k f m = m(k := map_option f (m k))"

definition keep_fields :: "metadata \<Rightarrow> metadata" where
  "keep_fields fs = filter (\<lambda>(f, v). f \<noteq> []) (map (\<lambda>(f, v). (trim f, v)) fs)"

definition put_all :: "metadata \<Rightarrow> (string \<Rightarrow> string option) \<Rightarrow> string \<Rightarrow> string option" where
  "put_all fs g = fold (\<lambda>(f, v) g. g(f \<mapsto> v)) fs g"

fun conv_spec :: "int \<Rightarrow> db_op \<Rightarrow> conversations \<Rightarrow> (db_error, unit) result \<times> conversations" where
  "conv_spec now (OpCreate k a) m =
     (Inr (), m(k \<mapsto> case m k of
        None \<Rightarrow> \<lparr>cv_agent_id = a, cv_created_at = now, cv_updated_at = now, cv_count = 0, cv_log = [], cv_meta = Map.empty\<rparr>
      | Some v \<Rightarrow> v\<lparr>cv_agent_id := a, cv_updated_at := now\<rparr>))"
| "conv_spec now (OpRemove k) m = (Inr (), m(k := None))"
| "conv_spec now (OpCount k n) m = (Inr (), alter k (\<lambda>v. v\<lparr>cv_count := n, cv_updated_at := now\<rparr>) m)"
| "conv_spec now (OpAgentId k a) m = (Inr (), alter k (\<lambda>v. v\<lparr>cv_agent_id := a, cv_updated_at := now\<rparr>) m)"
| "conv_spec now (OpTouch k) m = (Inr (), alter k (\<lambda>v. v\<lparr>cv_updated_at := now\<rparr>) m)"
| "conv_spec now (OpCleanup age) m =
     (Inr (), \<lambda>k. case m k of None \<Rightarrow> None
                 | Some v \<Rightarrow> if cv_updated_at v < i64_add now (- age) then None else Some v)"
| "conv_spec now (OpMeta k f v) m =
     (if trim f = [] then (Inl EmptyMetadataKey, m)
      else if m k = None then (Inl ForeignKeyFailed, m)
      else (Inr (), alter k (\<lambda>c. c\<lparr>cv_meta := (cv_meta c)(trim f \<mapsto> v)\<rparr>) m))"
| "conv_spec now (OpMetas k fs) m =
     (if keep_fields fs \<noteq> [] \<and> m k = None then (Inl ForeignKeyFailed, m)
      else (Inr (), alter k (\<lambda>c. c\<lparr>cv_meta := put_all (keep_fields fs) (cv_meta c)\<rparr>) m))"
| "conv_spec now (OpAdd k role text) m =
     (if m k = None then (Inl ForeignKeyFailed, m)
      else (Inr (), alter k (\<lambda>c. c\<lparr>cv_log := cv_log c @ [(role, text, now)],
                               cv_count := int (Suc (length (cv_log c))), cv_updated_at := now\<rparr>) m))"
| "conv_spec now (OpClear k) m = (Inr (), alter k (\<lambda>c. c\<lparr>cv_log := [], cv_count := 0, cv_updated_at := now\<rparr>) m)"
| "conv_spec now (OpCompact k n) m =
     (Inr (), alter k (\<lambda>c. if n < length (cv_log c)
                        then c\<lparr>cv_log := last_n n (cv_log c), cv_count := int n, cv_updated_at := now\<rparr> else c) m)"
| "conv_spec now _ m = (Inr (), m)"

definition log_of :: "string \<Rightarrow> session_db \<Rightarrow> (string \<times> string \<times> int) list" where
  "log_of k db = map (\<lambda>g. (mg_role g, mg_content g, mg_timestamp g)) (rows_of k db)"

definition conv_of :: "session_db \<Rightarrow> session_row \<Rightarrow> conversation" where
  "conv_of db r =
     \<lparr>cv_agent_id = sr_agent_id r, cv_created_at = sr_created_at r, cv_updated_at = sr_updated_at r,
      cv_count = sr_message_count r, cv_log = log_of (sr_key r) db,
      cv_meta = (\<lambda>f. hm_get (db_metadata db) (sr_key r, f))\<rparr>"

definition db_abs :: "session_db \<Rightarrow> conversations" where
  "db_abs db k = map_option (conv_of db) (get_session k db)"

definition db_ok :: "session_db \<Rightarrow> bool" where
  "db_ok db = (distinct (map sr_key (db_sessions db)) \<and>
     sorted_wrt (<) (map mg_id (db_messages db)) \<and>
     (\<forall>g\<in>set (db_messages db). mg_id g < db_next_id db \<and> has_session (mg_session_key g) db) \<and>
     (\<forall>e\<in>set (db_metadata db). has_session (fst (fst e)) db) \<and>
     hm_wf (db_metadata db))"

section \<open>The store refines the map\<close>

named_theorems db_facts \<open>how the statements act on the tables\<close>

definition keeps_key :: "(session_row \<Rightarrow> session_row) \<Rightarrow> bool" where
  "keeps_key f = (\<forall>r. sr_key (f r) = sr_key r)"

lemma has_session_iff: "has_session k db \<longleftrightarrow> get_session k db \<noteq> None"
  by (auto simp: has_session_def get_session_def find_None_iff)

lemma get_session_key: "get_session k db = Some r \<Longrightarrow> sr_key r = k"
  by (auto simp: get_session_def find_Some_iff)

lemma find_map_key:
  "\<forall>r. sr_key (f r) = sr_key r \<Longrightarrow>
   find (\<lambda>r. sr_key r = j) (map (\<lambda>r. if sr_key r = k then f r else r) rs) =
     map_option (if j = k then f else id) (find (\<lambda>r. sr_key r = j) rs)"
  by (induction rs) auto

lemma get_update_sessions [db_facts]:
  "keeps_key f \<Longrightarrow> get_session j (update_sessions k f db) = map_option (if j = k then f else id) (get_session j db)"
  by (auto simp: get_session_def update_sessions_def keeps_key_def find_map_key)

lemma has_update_sessions [db_facts]: "keeps_key f \<Longrightarrow> has_session j (update_sessions k f db) = has_session j db"
  by (simp add: has_session_iff get_update_sessions)

lemma update_sessions_rest [db_facts, simp]:
  "db_messages (update_sessions k f db) = db_messages db"
  "db_metadata (update_sessions k f db) = db_metadata db"
  "db_next_id (update_sessions k f db) = db_next_id db"
  "rows_of j (update_sessions k f db) = rows_of j db"
  by (simp_all add: update_sessions_def rows_of_def)

lemma keys_update_sessions:
  "keeps_key f \<Longrightarrow> map sr_key (db_sessions (update_sessions k f db)) = map sr_key (db_sessions db)"
  by (auto simp: update_sessions_def keeps_key_def)

lemma db_ok_update_sessions: "keeps_key f \<Longrightarrow> db_ok (update_sessions k f db) = db_ok db"
  by (simp add: db_ok_def keys_update_sessions has_update_sessions)

lemma get_session_other [simp]:
  "get_session k (db\<lparr>db_messages := ms\<rparr>) = get_session k db"
  "get_session k (db\<lparr>db_metadata := me\<rparr>) = get_session k db"
  "get_session k (db\<lparr>db_messages := ms, db_next_id := n\<rparr>) = get_session k db"
  "get_session k (db\<lparr>db_agents := ag\<rparr>) = get_session k db"
  by (simp_all add: get_session_def)

lemma has_session_other [simp]:
  "has_session k (db\<lparr>db_messages := ms\<rparr>) = has_session k db"
  "has_session k (db\<lparr>db_metadata := me\<rparr>) = has_session k db"
  "has_session k (db\<lparr>db_messages := ms, db_next_id := n\<rparr>) = has_session k db"
  "has_session k (db\<lparr>db_agents := ag\<rparr>) = has_session k db"
  by (simp_all add: has_session_def)

text \<open>A statement that changes one conversation and leaves the others alone.\<close>

lemma abs_alter:
  assumes row: "get_session k db' = map_option f (get_session k db)"
    and conv: "\<And>r. get_session k db = Some r \<Longrightarrow> conv_of db' (f r) = g (conv_of db r)"
    and others: "\<And>j. j \<noteq> k \<Longrightarrow> get_session j db' = get_session j db"
      "\<And>j. j \<noteq> k \<Longrightarrow> rows_of j db' = rows_of j db"
      "\<And>j x. j \<noteq> k \<Longrightarrow> hm_get (db_metadata db') (j, x) = hm_get (db_metadata db) (j, x)"
  shows "db_abs db' = alter k g (db_abs db)"
proof
  fix j
  show "db_abs db' j = alter k g (db_abs db) j"
  proof (cases "j = k")
    case True
    then show ?thesis
      by (cases "get_session k db") (simp_all add: db_abs_def alter_def row conv)
  next
    case False
    then have "conv_of db' r = conv_of db r" if "get_session j db = Some r" for r
      using get_session_key [OF that] by (simp add: conv_of_def log_of_def others)
    with False show ?thesis
      by (cases "get_session j db") (simp_all add: db_abs_def alter_def others)
  qed
qed

lemma abs_update_sessions:
  assumes "keeps_key f" and "\<And>r. conv_of db (f r) = g (conv_of db r)"
  shows "db_abs (update_sessions k f db) = alter k g (db_abs db)"
proof -
  have "conv_of (update_sessions k f db) = conv_of db" by (rule ext) (simp add: conv_of_def log_of_def)
  then show ?thesis
    by (intro abs_alter [where f = f]) (simp_all add: get_update_sessions assms option.map_id)
qed

lemma abs_same:
  assumes "db_sessions db' = db_sessions db" "db_messages db' = db_messages db" "db_metadata db' = db_metadata db"
  shows "db_abs db' = db_abs db"
proof -
  have "conv_of db' = conv_of db" by (rule ext) (simp add: conv_of_def log_of_def rows_of_def assms)
  then show ?thesis by (intro ext) (simp add: db_abs_def get_session_def assms)
qed

lemma ok_same:
  assumes "db_sessions db' = db_sessions db" "db_messages db' = db_messages db" "db_metadata db' = db_metadata db"
    "db_next_id db' = db_next_id db"
  shows "db_ok db' = db_ok db"
  by (simp add: db_ok_def has_session_def assms)

text \<open>Messages are stored in the order of their ids.\<close>

lemma rows_sorted: "db_ok db \<Longrightarrow> sorted_wrt (<) (map mg_id (rows_of k db))"
  by (simp add: db_ok_def rows_of_def sorted_wrt_map sorted_wrt_filter)

lemma sort_rows: "db_ok db \<Longrightarrow> sort_key mg_id (rows_of k db) = rows_of k db"
  by (rule sort_key_id_if_sorted) (rule strict_sorted_imp_sorted [OF rows_sorted])

lemma filter_newer:
  "sorted_wrt (<) (map mg_id gs) \<Longrightarrow>
   filter (\<lambda>g. mg_id g \<notin> mg_id ` set (take n gs)) gs = drop n gs"
proof (induction gs arbitrary: n)
  case (Cons g gs)
  show ?case
  proof (cases n)
    case 0
    then show ?thesis by simp
  next
    case (Suc m)
    have "filter (\<lambda>h. mg_id h \<notin> mg_id ` set (take m gs)) gs = drop m gs" using Cons by simp
    moreover have "mg_id h \<noteq> mg_id g" if "h \<in> set gs" for h using Cons.prems that by fastforce
    then have "filter (\<lambda>h. mg_id h \<notin> insert (mg_id g) (mg_id ` set (take m gs))) gs
        = filter (\<lambda>h. mg_id h \<notin> mg_id ` set (take m gs)) gs"
      by (intro filter_cong) auto
    ultimately show ?thesis using Suc by simp
  qed
qed simp

text \<open>Deleting sessions with the cascade.\<close>

lemma get_delete_sessions:
  assumes "distinct (map sr_key (db_sessions db))"
  shows "get_session k (delete_sessions fk P db) =
    (case get_session k db of None \<Rightarrow> None | Some r \<Rightarrow> if P r then None else Some r)"
proof -
  have "find (\<lambda>r. sr_key r = k) (filter (\<lambda>r. \<not> P r) rs) =
      (case find (\<lambda>r. sr_key r = k) rs of None \<Rightarrow> None | Some r \<Rightarrow> if P r then None else Some r)"
    if "distinct (map sr_key rs)" for rs
    using that
  proof (induction rs)
    case (Cons r rs)
    have "sr_key x \<noteq> sr_key r" if "x \<in> set rs" for x
      using Cons.prems that by (metis distinct.simps(2) image_eqI list.set_map list.simps(9))
    then have "find (\<lambda>x. sr_key x = k) (filter (\<lambda>x. \<not> P x) rs) = None" if "sr_key r = k"
      using that by (simp add: find_None_iff)
    with Cons show ?case by auto
  qed simp
  with assms show ?thesis by (simp add: get_session_def delete_sessions_def Let_def)
qed

lemma gone_iff:
  assumes "distinct (map sr_key (db_sessions db))"
  shows "k \<in> sr_key ` set (filter P (db_sessions db)) \<longleftrightarrow> (\<exists>r. get_session k db = Some r \<and> P r)"
proof
  assume "k \<in> sr_key ` set (filter P (db_sessions db))"
  then obtain r where r: "r \<in> set (db_sessions db)" "P r" "sr_key r = k" by auto
  then have "get_session k db \<noteq> None" by (auto simp: get_session_def find_None_iff)
  then obtain q where q: "get_session k db = Some q" by blast
  then have "q \<in> set (db_sessions db)" "sr_key q = k"
    by (auto simp: get_session_def find_Some_iff)
  with r assms have "q = r" by (metis distinct_map inj_onD)
  with q r show "\<exists>r. get_session k db = Some r \<and> P r" by blast
next
  assume "\<exists>r. get_session k db = Some r \<and> P r"
  then show "k \<in> sr_key ` set (filter P (db_sessions db))"
    by (auto simp: get_session_def find_Some_iff)
qed

lemma kept_iff:
  assumes "db_ok db"
  shows "has_session k (delete_sessions fk P db) \<longleftrightarrow>
    has_session k db \<and> k \<notin> sr_key ` set (filter P (db_sessions db))"
proof -
  have d: "distinct (map sr_key (db_sessions db))" using assms by (simp add: db_ok_def)
  show ?thesis
    unfolding has_session_iff get_delete_sessions [OF d] gone_iff [OF d]
    by (auto split: option.splits)
qed

lemma delete_sessions_rest:
  "db_messages (delete_sessions True P db) =
     filter (\<lambda>g. mg_session_key g \<notin> sr_key ` set (filter P (db_sessions db))) (db_messages db)"
  "db_metadata (delete_sessions True P db) =
     filter (\<lambda>e. fst (fst e) \<notin> sr_key ` set (filter P (db_sessions db))) (db_metadata db)"
  "db_next_id (delete_sessions True P db) = db_next_id db"
  "db_sessions (delete_sessions True P db) = filter (\<lambda>r. \<not> P r) (db_sessions db)"
  by (simp_all add: delete_sessions_def Let_def)

lemma db_ok_delete_sessions:
  assumes ok: "db_ok db"
  shows "db_ok (delete_sessions True P db)"
proof -
  have "hm_wf (filter (\<lambda>e. fst (fst e) \<notin> X) (db_metadata db))" for X
    using ok by (simp add: db_ok_def hm_wf_def distinct_map_filter)
  moreover have "sorted_wrt (<) (map mg_id (filter Q (db_messages db)))" for Q
    using ok by (simp add: db_ok_def sorted_wrt_map sorted_wrt_filter)
  moreover have "distinct (map sr_key (filter Q (db_sessions db)))" for Q
    using ok by (simp add: db_ok_def distinct_map_filter)
  ultimately show ?thesis
    unfolding db_ok_def delete_sessions_rest kept_iff [OF ok] using ok by (auto simp: db_ok_def)
qed

lemma abs_delete_sessions:
  assumes ok: "db_ok db"
  shows "db_abs (delete_sessions True P db) k =
    (case get_session k db of None \<Rightarrow> None | Some r \<Rightarrow> if P r then None else Some (conv_of db r))"
proof (cases "get_session k db")
  case (Some r)
  have d: "distinct (map sr_key (db_sessions db))" using ok by (simp add: db_ok_def)
  have key: "sr_key r = k" by (rule get_session_key [OF Some])
  have get: "get_session k (delete_sessions True P db) = (if P r then None else Some r)"
    by (simp add: get_delete_sessions [OF d] Some)
  have "conv_of (delete_sessions True P db) r = conv_of db r" if "\<not> P r"
  proof -
    have kept: "k \<notin> sr_key ` set (filter P (db_sessions db))"
      unfolding gone_iff [OF d] using Some that by simp
    have "rows_of k (delete_sessions True P db) = rows_of k db"
      unfolding rows_of_def delete_sessions_rest filter_filter
      by (rule filter_cong) (use kept in auto)
    moreover have "map_of (filter (\<lambda>e. fst (fst e) \<notin> X) m) (k, f) = map_of m (k, f)" if "k \<notin> X"
      for X f and m :: "((string \<times> string) \<times> string) list"
      using that by (induction m) auto
    ultimately show ?thesis using kept by (simp add: conv_of_def log_of_def delete_sessions_rest key)
  qed
  with get Some show ?thesis by (simp add: db_abs_def)
next
  case None
  have d: "distinct (map sr_key (db_sessions db))" using ok by (simp add: db_ok_def)
  show ?thesis by (simp add: db_abs_def get_delete_sessions [OF d] None)
qed

text \<open>Metadata and messages.\<close>

lemma in_update: "e \<in> set (hm_insert x v m) \<Longrightarrow> fst e = x \<or> (\<exists>d\<in>set m. fst d = fst e)"
proof -
  assume "e \<in> set (hm_insert x v m)"
  then have "fst e \<in> fst ` set (hm_insert x v m)" by (rule imageI)
  then show ?thesis unfolding dom_update by (metis Un_iff imageE singletonD)
qed

lemma put_metadata_ok:
  assumes "db_ok db"
  shows "db_ok (snd (put_metadata True k f v db))"
proof -
  have "has_session (fst (fst e)) db"
    if "e \<in> set (hm_insert (k, f) v (db_metadata db))" "has_session k db" for e
    using in_update [OF that(1)] that(2) assms by (auto simp: db_ok_def)
  with assms show ?thesis by (auto simp: db_ok_def put_metadata_def)
qed

lemma put_metadata_missing: "\<not> has_session k db \<Longrightarrow> put_metadata True k f v db = (Inl ForeignKeyFailed, db)"
  by (simp add: put_metadata_def)

lemma put_metadata_abs:
  assumes "has_session k db"
  shows "fst (put_metadata True k f v db) = Inr ()"
    and "db_abs (snd (put_metadata True k f v db)) = alter k (\<lambda>c. c\<lparr>cv_meta := (cv_meta c)(f \<mapsto> v)\<rparr>) (db_abs db)"
proof -
  show "fst (put_metadata True k f v db) = Inr ()" using assms by (simp add: put_metadata_def)
  show "db_abs (snd (put_metadata True k f v db)) = alter k (\<lambda>c. c\<lparr>cv_meta := (cv_meta c)(f \<mapsto> v)\<rparr>) (db_abs db)"
    using assms
    by (intro abs_alter [where f = id])
       (auto simp: put_metadata_def option.map_id conv_of_def log_of_def rows_of_def dest!: get_session_key)
qed

lemma abs_None_iff: "db_abs db k = None \<longleftrightarrow> \<not> has_session k db"
  by (simp add: db_abs_def has_session_iff)

lemma alter_alter: "alter k g (alter k f m) = alter k (\<lambda>c. g (f c)) m"
  by (auto simp: alter_def option.map_comp o_def)

lemma alter_id: "alter k (\<lambda>c. c) m = m"
  by (simp add: alter_def option.map_ident)

lemma put_fields_refines:
  assumes "db_ok db" "has_session k db"
  shows "\<exists>db'. put_fields True k fs db = Inr db' \<and> db_ok db' \<and>
    db_abs db' = alter k (\<lambda>c. c\<lparr>cv_meta := put_all (keep_fields fs) (cv_meta c)\<rparr>) (db_abs db)"
  using assms
proof (induction fs arbitrary: db)
  case Nil
  then show ?case by (simp add: keep_fields_def put_all_def alter_id)
next
  case (Cons fv fs)
  obtain f v where fv: "fv = (f, v)" by force
  show ?case
  proof (cases "trim f = []")
    case True
    then have "keep_fields (fv # fs) = keep_fields fs" by (simp add: keep_fields_def fv)
    with True Cons show ?thesis by (simp add: fv)
  next
    case False
    define db1 where "db1 = snd (put_metadata True k (trim f) v db)"
    have put: "put_metadata True k (trim f) v db = (Inr (), db1)"
      using put_metadata_abs(1) [OF Cons.prems(2)] by (metis db1_def prod.collapse)
    have "has_session k db1" using Cons.prems(2) by (simp add: db1_def put_metadata_def)
    moreover have "db_ok db1" unfolding db1_def by (rule put_metadata_ok [OF Cons.prems(1)])
    ultimately obtain db' where db': "put_fields True k fs db1 = Inr db'" "db_ok db'"
      "db_abs db' = alter k (\<lambda>c. c\<lparr>cv_meta := put_all (keep_fields fs) (cv_meta c)\<rparr>) (db_abs db1)"
      using Cons.IH by blast
    have "keep_fields (fv # fs) = (trim f, v) # keep_fields fs" using False by (simp add: keep_fields_def fv)
    then have "put_all (keep_fields (fv # fs)) g = put_all (keep_fields fs) (g(trim f \<mapsto> v))" for g
      by (simp add: put_all_def)
    then have "db_abs db' = alter k (\<lambda>c. c\<lparr>cv_meta := put_all (keep_fields (fv # fs)) (cv_meta c)\<rparr>) (db_abs db)"
      unfolding db'(3) unfolding db1_def put_metadata_abs(2) [OF Cons.prems(2)] by (simp add: alter_alter)
    with db' put False show ?thesis by (simp add: fv)
  qed
qed

lemma put_fields_missing:
  "\<not> has_session k db \<Longrightarrow> put_fields True k fs db = (if keep_fields fs = [] then Inr db else Inl ForeignKeyFailed)"
  by (induction fs) (auto simp: put_metadata_missing keep_fields_def)

lemma add_message_refines:
  assumes ok: "db_ok db" and has: "has_session k db"
  shows "fst (add_message True now k role text db) = Inr ()" (is ?r)
    and "db_ok (snd (add_message True now k role text db))" (is ?o)
    and "db_abs (snd (add_message True now k role text db)) =
      alter k (\<lambda>c. c\<lparr>cv_log := cv_log c @ [(role, text, now)], cv_count := int (Suc (length (cv_log c))),
                  cv_updated_at := now\<rparr>) (db_abs db)" (is ?a)
proof -
  define row where "row = \<lparr>mg_id = db_next_id db, mg_session_key = k, mg_role = role, mg_content = text, mg_timestamp = now\<rparr>"
  define db1 where "db1 = db\<lparr>db_messages := db_messages db @ [row], db_next_id := Suc (db_next_id db)\<rparr>"
  define f :: "session_row \<Rightarrow> session_row" where "f = (\<lambda>r. r\<lparr>sr_message_count := int (length (rows_of k db1)), sr_updated_at := now\<rparr>)"
  have eq: "add_message True now k role text db = (Inr (), update_sessions k f db1)"
    using has by (simp add: add_message_def f_def db1_def row_def Let_def)
  have f: "keeps_key f" by (simp add: keeps_key_def f_def)
  have rows: "rows_of j db1 = rows_of j db @ (if j = k then [row] else [])" for j
    by (simp add: rows_of_def db1_def row_def)
  have hs: "has_session j db1 = has_session j db" "get_session j db1 = get_session j db" for j
    by (simp_all add: db1_def)
  have ok1: "db_ok db1"
    using ok has by (auto simp: db_ok_def db1_def row_def sorted_wrt_append less_Suc_eq)
  show ?r by (simp add: eq)
  show ?o by (simp add: eq db_ok_update_sessions f ok1)
  have meta: "db_metadata db1 = db_metadata db" by (simp add: db1_def)
  have get: "get_session j (update_sessions k f db1) = map_option (if j = k then f else id) (get_session j db)" for j
    by (simp add: get_update_sessions f hs)
  have conv: "conv_of (update_sessions k f db1) (f r) =
      (conv_of db r)\<lparr>cv_log := cv_log (conv_of db r) @ [(role, text, now)],
        cv_count := int (Suc (length (cv_log (conv_of db r)))), cv_updated_at := now\<rparr>"
    if "get_session k db = Some r" for r
    using get_session_key [OF that] by (simp add: conv_of_def log_of_def f_def rows row_def meta)
  show ?a unfolding eq snd_conv
    by (rule abs_alter [where f = f]) (simp_all add: get conv rows meta option.map_id)
qed

text \<open>Statements that drop messages of one session and then update its row.\<close>

lemma drop_messages_refines:
  fixes f :: "session_row \<Rightarrow> session_row"
  assumes ok: "db_ok db" and f: "keeps_key f"
    and other: "\<And>g. g \<in> set (db_messages db) \<Longrightarrow> mg_session_key g \<noteq> k \<Longrightarrow> P g"
    and conv: "\<And>r. conv_of (db\<lparr>db_messages := filter P (db_messages db)\<rparr>) (f r\<lparr>sr_key := k\<rparr>) = g (conv_of db (r\<lparr>sr_key := k\<rparr>))"
  shows "db_ok (update_sessions k f (db\<lparr>db_messages := filter P (db_messages db)\<rparr>))" (is ?o)
    and "db_abs (update_sessions k f (db\<lparr>db_messages := filter P (db_messages db)\<rparr>)) = alter k g (db_abs db)" (is ?a)
proof -
  let ?db = "db\<lparr>db_messages := filter P (db_messages db)\<rparr>"
  have "db_ok ?db" using ok by (auto simp: db_ok_def sorted_wrt_map sorted_wrt_filter)
  then show ?o by (simp add: db_ok_update_sessions f)
  have get: "get_session j (update_sessions k f ?db) = map_option (if j = k then f else id) (get_session j db)" for j
    by (simp add: get_update_sessions f)
  have rows: "rows_of j ?db = rows_of j db" if "j \<noteq> k" for j
    unfolding rows_of_def using other that by (auto simp: filter_filter intro!: filter_cong)
  have cv: "conv_of (update_sessions k f ?db) (f r) = g (conv_of db r)" if "get_session k db = Some r" for r
  proof -
    have key: "sr_key r = k" "sr_key (f r) = k" using get_session_key [OF that] f by (simp_all add: keeps_key_def)
    have "f r\<lparr>sr_key := k\<rparr> = f r" "r\<lparr>sr_key := k\<rparr> = r" using key by simp_all
    with conv [of r] show ?thesis by (simp add: conv_of_def log_of_def)
  qed
  show ?a
    by (rule abs_alter [where f = f]) (simp_all add: get rows cv option.map_id)
qed

lemma clear_messages_refines:
  assumes "db_ok db"
  shows "db_ok (clear_messages now k db)"
    and "db_abs (clear_messages now k db) = alter k (\<lambda>c. c\<lparr>cv_log := [], cv_count := 0, cv_updated_at := now\<rparr>) (db_abs db)"
  unfolding clear_messages_def
  by (rule drop_messages_refines [where g = "\<lambda>c. c\<lparr>cv_log := [], cv_count := 0, cv_updated_at := now\<rparr>"];
      simp add: assms keeps_key_def conv_of_def log_of_def rows_of_def filter_filter filter_False)+

lemma compact_rows:
  assumes ok: "db_ok db"
  shows "rows_of k (db\<lparr>db_messages := filter (\<lambda>g. mg_id g \<notin> mg_id ` set (take n (rows_of k db))) (db_messages db)\<rparr>)
    = drop n (rows_of k db)"
proof -
  have "rows_of k (db\<lparr>db_messages := filter (\<lambda>g. mg_id g \<notin> mg_id ` set (take n (rows_of k db))) (db_messages db)\<rparr>)
      = filter (\<lambda>g. mg_id g \<notin> mg_id ` set (take n (rows_of k db))) (rows_of k db)"
    by (simp add: rows_of_def filter_filter conj_commute)
  also have "\<dots> = drop n (rows_of k db)" by (rule filter_newer [OF rows_sorted [OF ok]])
  finally show ?thesis .
qed

lemma message_ids_unique:
  assumes "db_ok db" "g \<in> set (db_messages db)" "h \<in> set (db_messages db)" "mg_id g = mg_id h"
  shows "g = h"
proof -
  have "distinct (map mg_id (db_messages db))"
    using assms(1) by (simp add: db_ok_def strict_sorted_iff)
  with assms show ?thesis by (metis distinct_map inj_onD)
qed

lemma compact_messages_refines:
  assumes ok: "db_ok db"
  shows "db_ok (snd (compact_messages now k n db))" (is ?o)
    and "db_abs (snd (compact_messages now k n db)) =
      alter k (\<lambda>c. if n < length (cv_log c)
                  then c\<lparr>cv_log := last_n n (cv_log c), cv_count := int n, cv_updated_at := now\<rparr> else c) (db_abs db)" (is ?a)
proof -
  let ?rows = "rows_of k db" and ?upd = "\<lambda>c. if n < length (cv_log c)
     then c\<lparr>cv_log := last_n n (cv_log c), cv_count := int n, cv_updated_at := now\<rparr> else c"
  show ?o ?a
  proof (atomize (full), cases "n < length ?rows")
    case False
    have "alter k ?upd (db_abs db) = db_abs db"
    proof
      fix j
      show "alter k ?upd (db_abs db) j = db_abs db j"
        using False get_session_key [of k db]
        by (cases "get_session k db") (auto simp: alter_def db_abs_def conv_of_def log_of_def)
    qed
    with False ok show "?o \<and> ?a" by (simp add: compact_messages_def Let_def)
  next
    case True
    let ?d = "length ?rows - n"
    let ?P = "\<lambda>g. mg_id g \<notin> mg_id ` set (take ?d ?rows)"
    let ?f = "\<lambda>r :: session_row. r\<lparr>sr_message_count := int n, sr_updated_at := now\<rparr>"
    have eq: "snd (compact_messages now k n db) = update_sessions k ?f (db\<lparr>db_messages := filter ?P (db_messages db)\<rparr>)"
      using True by (simp add: compact_messages_def Let_def sort_rows [OF ok])
    have f: "keeps_key ?f" by (simp add: keeps_key_def)
    have other: "?P g" if "g \<in> set (db_messages db)" "mg_session_key g \<noteq> k" for g
    proof
      assume "mg_id g \<in> mg_id ` set (take ?d ?rows)"
      then obtain h where h: "h \<in> set ?rows" "mg_id g = mg_id h" using in_set_takeD by fastforce
      then have "g = h" using message_ids_unique [OF ok that(1)] by (auto simp: rows_of_def)
      with h that show False by (simp add: rows_of_def)
    qed
    have conv: "conv_of (db\<lparr>db_messages := filter ?P (db_messages db)\<rparr>) (?f r\<lparr>sr_key := k\<rparr>) = ?upd (conv_of db (r\<lparr>sr_key := k\<rparr>))" for r
      using True by (simp add: conv_of_def log_of_def compact_rows [OF ok] last_n_def drop_map)
    show "?o \<and> ?a" unfolding eq
      using drop_messages_refines [of db ?f k ?P ?upd, OF ok f other conv] by blast
  qed
qed

text \<open>A new session, and one that exists.\<close>

lemma abs_append_session:
  assumes ok: "db_ok db" and new: "\<not> has_session k db" and key: "sr_key row = k"
  defines "db1 \<equiv> db\<lparr>db_sessions := db_sessions db @ [row]\<rparr>"
  shows "db_ok db1" and "db_abs db1 = (db_abs db)(k \<mapsto> conv_of db row)" and "cv_log (conv_of db row) = []"
    and "cv_meta (conv_of db row) = Map.empty"
proof -
  have has: "has_session j db1 \<longleftrightarrow> has_session j db \<or> j = k" for j
    using key by (auto simp: has_session_def db1_def)
  have keys: "k \<notin> set (map sr_key (db_sessions db))" using new by (auto simp: has_session_def)
  show "db_ok db1" unfolding db_ok_def has using ok keys by (auto simp: db_ok_def db1_def key)
  have find: "find P (xs @ [x]) = (case find P xs of None \<Rightarrow> if P x then Some x else None | Some y \<Rightarrow> Some y)"
    for P xs and x :: session_row by (induction xs) auto
  have "get_session k db = None" using new by (simp add: has_session_iff)
  then have get: "get_session j db1 = (if j = k then Some row else get_session j db)" for j
    by (auto simp: get_session_def db1_def find key split: option.split)
  have "conv_of db1 = conv_of db" by (rule ext) (simp add: conv_of_def log_of_def rows_of_def db1_def)
  then show "db_abs db1 = (db_abs db)(k \<mapsto> conv_of db row)" by (auto simp: db_abs_def get)
  have "rows_of k db = []" unfolding rows_of_def using ok new by (auto simp: db_ok_def filter_empty_conv)
  then show "cv_log (conv_of db row) = []" by (simp add: conv_of_def log_of_def key)
  have "map_of (db_metadata db) (k, f) = None" for f
    using ok new by (auto simp: db_ok_def map_of_eq_None_iff)
  then show "cv_meta (conv_of db row) = Map.empty" by (simp add: conv_of_def key)
qed

lemma create_session_refines:
  assumes ok: "db_ok db"
  shows "db_ok (snd (create_session now k a db))"
    and "(map_sum id (\<lambda>_. ()) (fst (create_session now k a db)), db_abs (snd (create_session now k a db))) =
      conv_spec now (OpCreate k a) (db_abs db)"
proof -
  define f :: "session_row \<Rightarrow> session_row" where "f = (\<lambda>r. r\<lparr>sr_agent_id := a, sr_updated_at := now\<rparr>)"
  define row :: session_row where
    "row = \<lparr>sr_key = k, sr_agent_id = a, sr_created_at = now, sr_updated_at = now, sr_message_count = 0\<rparr>"
  define db1 where "db1 = (if has_session k db then db else db\<lparr>db_sessions := db_sessions db @ [row]\<rparr>)"
  let ?g = "\<lambda>c. c\<lparr>cv_agent_id := a, cv_updated_at := now\<rparr>"
  have f: "keeps_key f" by (simp add: keeps_key_def f_def)
  have ok1: "db_ok db1" using abs_append_session(1) [OF ok, of k row] ok by (simp add: db1_def row_def)
  have eq: "create_session now k a db = (case get_session k (update_sessions k f db1) of
      None \<Rightarrow> Inl CreatedNotFound | Some r \<Rightarrow> Inr r, update_sessions k f db1)"
    unfolding create_session_def Let_def db1_def row_def f_def by (rule refl)
  have snd: "snd (create_session now k a db) = update_sessions k f db1" by (simp add: eq)
  show "db_ok (snd (create_session now k a db))" unfolding snd by (simp add: db_ok_update_sessions f ok1)
  have abs: "db_abs (update_sessions k f db1) = alter k ?g (db_abs db1)"
    by (rule abs_update_sessions [OF f]) (simp add: conv_of_def f_def)
  have abs1: "db_abs db1 = (if has_session k db then db_abs db else (db_abs db)(k \<mapsto> conv_of db row))"
    using abs_append_session(2) [OF ok, of k row] by (simp add: db1_def row_def)
  have new: "conv_of db row = \<lparr>cv_agent_id = a, cv_created_at = now, cv_updated_at = now, cv_count = 0,
      cv_log = [], cv_meta = Map.empty\<rparr>" if "\<not> has_session k db"
    using abs_append_session(3,4) [OF ok that, of row] by (simp add: conv_of_def row_def)
  have "db_abs (update_sessions k f db1) k \<noteq> None"
    unfolding abs abs1 using abs_None_iff [of db k] by (auto simp: alter_def)
  then have "get_session k (update_sessions k f db1) \<noteq> None" by (simp add: db_abs_def)
  then have fst: "map_sum id (\<lambda>_. ()) (fst (create_session now k a db)) = Inr ()"
    by (auto simp: eq)
  have "db_abs (update_sessions k f db1) = snd (conv_spec now (OpCreate k a) (db_abs db))"
    unfolding abs abs1 using abs_None_iff [of db k] new by (auto simp: alter_def split: option.split)
  then show "(map_sum id (\<lambda>_. ()) (fst (create_session now k a db)), db_abs (snd (create_session now k a db))) =
      conv_spec now (OpCreate k a) (db_abs db)"
    by (simp add: fst snd)
qed

lemma remove_session_refines:
  assumes ok: "db_ok db"
  shows "db_ok (snd (remove_session True k db))" and "db_abs (snd (remove_session True k db)) = (db_abs db)(k := None)"
proof -
  show "db_ok (snd (remove_session True k db))"
    using db_ok_delete_sessions [OF ok] ok by (simp add: remove_session_def split: option.split)
  have "db_abs (delete_sessions True (\<lambda>r. sr_key r = k) db) j = ((db_abs db)(k := None)) j" for j
    unfolding abs_delete_sessions [OF ok] using get_session_key [of j db]
    by (auto simp: db_abs_def split: option.split)
  moreover have "db_abs db = (db_abs db)(k := None)" if "get_session k db = None"
    using that by (auto simp: db_abs_def)
  ultimately show "db_abs (snd (remove_session True k db)) = (db_abs db)(k := None)"
    by (auto simp: remove_session_def split: option.split)
qed

lemma cleanup_stale_refines:
  assumes ok: "db_ok db"
  shows "db_ok (snd (cleanup_stale True now age db))"
    and "db_abs (snd (cleanup_stale True now age db)) = snd (conv_spec now (OpCleanup age) (db_abs db))"
  using db_ok_delete_sessions [OF ok] abs_delete_sessions [OF ok]
  by (auto simp: cleanup_stale_def Let_def db_abs_def conv_of_def split: option.split)

lemma metadata_field_refines:
  assumes ok: "db_ok db"
  shows "db_ok (snd (set_session_metadata_field True k f v db))"
    and "(fst (set_session_metadata_field True k f v db), db_abs (snd (set_session_metadata_field True k f v db))) =
      conv_spec now (OpMeta k f v) (db_abs db)"
  using put_metadata_ok [OF ok] ok put_metadata_abs [of k db "trim f" v] put_metadata_missing [of k db "trim f" v]
    abs_None_iff [of db k]
  by (auto simp: set_session_metadata_field_def)

lemma metadata_fields_refines:
  assumes ok: "db_ok db"
  shows "db_ok (snd (set_session_metadata_fields True k fs db))"
    and "(fst (set_session_metadata_fields True k fs db), db_abs (snd (set_session_metadata_fields True k fs db))) =
      conv_spec now (OpMetas k fs) (db_abs db)"
proof -
  have empty: "keep_fields [] = []" by (simp add: keep_fields_def)
  have skip: "alter k (\<lambda>c. c\<lparr>cv_meta := put_all [] (cv_meta c)\<rparr>) m = m" for m
    by (simp add: put_all_def alter_id)
  have "db_ok (snd (set_session_metadata_fields True k fs db)) \<and>
    (fst (set_session_metadata_fields True k fs db), db_abs (snd (set_session_metadata_fields True k fs db))) =
      conv_spec now (OpMetas k fs) (db_abs db)"
  proof (cases "has_session k db")
    case True
    then obtain db' where "put_fields True k fs db = Inr db'" "db_ok db'"
      "db_abs db' = alter k (\<lambda>c. c\<lparr>cv_meta := put_all (keep_fields fs) (cv_meta c)\<rparr>) (db_abs db)"
      using put_fields_refines [OF ok] by blast
    with True ok show ?thesis
      by (cases "fs = []") (simp_all add: set_session_metadata_fields_def abs_None_iff empty skip)
  next
    case False
    then have "alter k g (db_abs db) = db_abs db" for g
      using abs_None_iff [of db k] by (auto simp: alter_def)
    with False ok show ?thesis
      by (simp add: set_session_metadata_fields_def put_fields_missing abs_None_iff empty)
  qed
  then show "db_ok (snd (set_session_metadata_fields True k fs db))"
    and "(fst (set_session_metadata_fields True k fs db), db_abs (snd (set_session_metadata_fields True k fs db))) =
      conv_spec now (OpMetas k fs) (db_abs db)" by blast+
qed

lemma agents_apart:
  "db_sessions (snd (create_agent now i nm mo sp db)) = db_sessions db"
  "db_messages (snd (create_agent now i nm mo sp db)) = db_messages db"
  "db_metadata (snd (create_agent now i nm mo sp db)) = db_metadata db"
  "db_next_id (snd (create_agent now i nm mo sp db)) = db_next_id db"
  by (simp_all add: create_agent_def Let_def)

lemma patch_apart:
  "db_sessions (patch_agent i v f db) = db_sessions db" "db_messages (patch_agent i v f db) = db_messages db"
  "db_metadata (patch_agent i v f db) = db_metadata db" "db_next_id (patch_agent i v f db) = db_next_id db"
  by (simp_all add: patch_agent_def update_agents_def split: option.split)

fun about_agents :: "db_op \<Rightarrow> bool" where
  "about_agents (OpCreateAgent i nm mo sp) = True"
| "about_agents (OpUpdateAgent i p) = True"
| "about_agents (OpDeleteAgent i) = True"
| "about_agents c = False"

lemma agents_refine:
  assumes "about_agents c" "db_ok db"
  shows "db_ok (snd (db_exec True now c db)) \<and> db_abs (snd (db_exec True now c db)) = db_abs db"
proof -
  have "db_sessions (snd (db_exec True now c db)) = db_sessions db \<and> db_messages (snd (db_exec True now c db)) = db_messages db
    \<and> db_metadata (snd (db_exec True now c db)) = db_metadata db \<and> db_next_id (snd (db_exec True now c db)) = db_next_id db"
    using assms(1)
    by (cases c) (auto simp: case_prod_beta agents_apart patch_apart update_agent_def Let_def delete_agent_def)
  then show ?thesis using abs_same ok_same assms(2) by blast
qed

lemma exec_ok_refines:
  assumes ok: "db_ok db"
  shows "db_ok (snd (db_exec True now c db)) \<and>
    (\<not> about_agents c \<longrightarrow> (fst (db_exec True now c db), db_abs (snd (db_exec True now c db))) = conv_spec now c (db_abs db))"
proof -
  note upd = db_ok_update_sessions keeps_key_def ok
  show ?thesis
  proof (cases c)
    case (OpCreate k a)
    then show ?thesis using create_session_refines [OF ok, of now k a] by (simp add: case_prod_beta del: conv_spec.simps)
  next
    case (OpCount k n)
    have "db_abs (update_message_count now k n db) = alter k (\<lambda>v. v\<lparr>cv_count := n, cv_updated_at := now\<rparr>) (db_abs db)"
      unfolding update_message_count_def by (rule abs_update_sessions) (simp_all add: keeps_key_def conv_of_def)
    with OpCount show ?thesis by (simp add: update_message_count_def upd)
  next
    case (OpAgentId k a)
    have "db_abs (update_agent_id now k a db) = alter k (\<lambda>v. v\<lparr>cv_agent_id := a, cv_updated_at := now\<rparr>) (db_abs db)"
      unfolding update_agent_id_def by (rule abs_update_sessions) (simp_all add: keeps_key_def conv_of_def)
    with OpAgentId show ?thesis by (simp add: update_agent_id_def upd)
  next
    case (OpTouch k)
    have "db_abs (touch_session now k db) = alter k (\<lambda>v. v\<lparr>cv_updated_at := now\<rparr>) (db_abs db)"
      unfolding touch_session_def by (rule abs_update_sessions) (simp_all add: keeps_key_def conv_of_def)
    with OpTouch show ?thesis by (simp add: touch_session_def upd)
  next
    case (OpAdd k role body)
    show ?thesis
    proof (cases "has_session k db")
      case True
      then show ?thesis using add_message_refines [OF ok True, of now role body] OpAdd by (simp add: abs_None_iff)
    next
      case False
      then show ?thesis using OpAdd ok by (simp add: add_message_def abs_None_iff)
    qed
  next
    case (OpRemove k)
    then show ?thesis using remove_session_refines [OF ok, of k] by simp
  next
    case (OpCleanup age)
    then show ?thesis using cleanup_stale_refines [OF ok, of now age] by simp
  next
    case (OpMeta k f v)
    then show ?thesis using metadata_field_refines(1) [OF ok, of k f v]
      metadata_field_refines(2) [OF ok, where now = now and k = k and f = f and v = v] by (simp del: conv_spec.simps)
  next
    case (OpMetas k fs)
    then show ?thesis using metadata_fields_refines(1) [OF ok, of k fs]
      metadata_fields_refines(2) [OF ok, where now = now and k = k and fs = fs] by (simp del: conv_spec.simps)
  next
    case (OpClear k)
    then show ?thesis using clear_messages_refines [OF ok, of now k] by simp
  next
    case (OpCompact k n)
    then show ?thesis using compact_messages_refines [OF ok, of now k n] by simp
  qed (use agents_refine [OF _ ok, of c now] in simp_all)
qed

lemma db_ok_run: "db_ok db \<Longrightarrow> db_ok (db_run True cs db)"
  by (induction cs arbitrary: db) (auto simp: exec_ok_refines)

lemma db_ok_empty: "db_ok empty_db"
  by (simp add: db_ok_def empty_db_def)

section \<open>Reading\<close>

lemma no_rows: "db_ok db \<Longrightarrow> \<not> has_session k db \<Longrightarrow> rows_of k db = []"
  by (auto simp: db_ok_def rows_of_def filter_empty_conv)

lemma log_abs: "db_ok db \<Longrightarrow> log_of k db = (case db_abs db k of None \<Rightarrow> [] | Some v \<Rightarrow> cv_log v)"
  using no_rows [of db k] get_session_key [of k db]
  by (auto simp: db_abs_def has_session_iff conv_of_def log_of_def split: option.split)

lemma as_i64_small: "n < 2 ^ 63 \<Longrightarrow> as_i64 n = int n"
  by (simp add: as_i64_def)

lemma get_messages_abs:
  assumes "db_ok db" "limit < 2 ^ 63"
  shows "get_messages k limit db = (case db_abs db k of None \<Rightarrow> [] | Some v \<Rightarrow> take limit (rev (cv_log v)))"
proof -
  have "get_messages k limit db = take limit (rev (log_of k db))"
    using assms by (simp add: get_messages_def sql_limit_def as_i64_small sort_rows log_of_def take_map rev_map)
  also have "\<dots> = (case db_abs db k of None \<Rightarrow> [] | Some v \<Rightarrow> take limit (rev (cv_log v)))"
    using log_abs [OF assms(1), of k] by (simp split: option.split)
  finally show ?thesis .
qed

lemma metadata_get: "hm_get (get_session_metadata k db) f = hm_get (db_metadata db) (k, f)"
proof -
  have "map_of (map (\<lambda>e. (snd (fst e), snd e)) (filter (\<lambda>e. fst (fst e) = k) m)) f = map_of m (k, f)"
    for m :: "((string \<times> string) \<times> string) list"
    by (induction m) auto
  then show ?thesis by (simp add: get_session_metadata_def)
qed

lemma metadata_abs:
  assumes "db_ok db"
  shows "hm_get (get_session_metadata k db) f = (case db_abs db k of None \<Rightarrow> None | Some v \<Rightarrow> cv_meta v f)"
proof (cases "get_session k db")
  case None
  then have "\<not> has_session k db" by (simp add: has_session_iff)
  then have "map_of (db_metadata db) (k, f) = None"
    using assms by (auto simp: db_ok_def map_of_eq_None_iff)
  with None show ?thesis by (simp add: metadata_get db_abs_def)
next
  case (Some r)
  then show ?thesis using get_session_key [OF Some] by (simp add: metadata_get db_abs_def conv_of_def)
qed


definition sample_ops :: "(int \<times> db_op) list" where
  "sample_ops = [(1, OpCreate ''k'' ''a''), (2, OpAdd ''k'' ''user'' ''hi''), (3, OpMeta ''k'' ''label'' ''x'')]"

lemma sample_db: "db_run True sample_ops empty_db =
  \<lparr>db_sessions = [\<lparr>sr_key = ''k'', sr_agent_id = ''a'', sr_created_at = 1, sr_updated_at = 2, sr_message_count = 1\<rparr>],
   db_messages = [\<lparr>mg_id = 1, mg_session_key = ''k'', mg_role = ''user'', mg_content = ''hi'', mg_timestamp = 2\<rparr>],
   db_metadata = [((''k'', ''label''), ''x'')], db_agents = [], db_next_id = 2\<rparr>"
  by code_simp


section \<open>Message counts\<close>

definition counted :: "conversations \<Rightarrow> bool" where
  "counted m = (\<forall>k v. m k = Some v \<longrightarrow> cv_count v = int (length (cv_log v)))"

fun sets_count :: "db_op \<Rightarrow> bool" where
  "sets_count (OpCount k n) = True"
| "sets_count c = False"

lemma counted_alter:
  assumes "counted m" "\<And>v. cv_count v = int (length (cv_log v)) \<Longrightarrow> cv_count (g v) = int (length (cv_log (g v)))"
  shows "counted (alter k g m)"
  using assms by (auto simp: counted_def alter_def)

lemma conv_spec_counted:
  assumes "counted m" "\<not> sets_count c"
  shows "counted (snd (conv_spec now c m))"
proof (cases c)
  case (OpCreate k a)
  then show ?thesis using assms by (auto simp: counted_def split: option.split)
next
  case (OpCleanup age)
  then show ?thesis using assms by (auto simp: counted_def split: option.splits if_splits)
next
  case (OpRemove k)
  then show ?thesis using assms by (auto simp: counted_def)
qed (use assms in \<open>auto intro!: counted_alter\<close>)

lemma counted_run:
  assumes "db_ok db" "counted (db_abs db)" "\<forall>c\<in>set cs. \<not> sets_count (snd c)"
  shows "counted (db_abs (db_run True cs db))"
  using assms
proof (induction cs arbitrary: db)
  case (Cons nc cs)
  obtain now c where nc: "nc = (now, c)" by force
  let ?db = "snd (db_exec True now c db)"
  have ok: "db_ok ?db" using exec_ok_refines [OF Cons.prems(1)] by blast
  have "counted (db_abs ?db)"
  proof (cases "about_agents c")
    case True
    then show ?thesis using agents_refine [OF True Cons.prems(1)] Cons.prems(2) by simp
  next
    case False
    then have "db_abs ?db = snd (conv_spec now c (db_abs db))"
      using exec_ok_refines [OF Cons.prems(1), of now c] by (metis snd_conv)
    then show ?thesis using conv_spec_counted Cons.prems by (simp add: nc)
  qed
  with Cons ok show ?case by (simp add: nc)
qed simp

text \<open>C15: With foreign keys enforced, in every state that the operations other than \<^verbatim>\<open>update_message_count\<close> reach, the
  message count of each session is the number of messages stored for it.
\<close>

theorem message_counts_exact:
  assumes "\<forall>c\<in>set cs. \<not> sets_count (snd c)" and "get_session k (db_run True cs empty_db) = Some r"
  shows "sr_message_count r = int (length (rows_of k (db_run True cs empty_db)))"
proof -
  have "counted (db_abs empty_db)" by (simp add: counted_def db_abs_def get_session_def empty_db_def)
  then have "counted (db_abs (db_run True cs empty_db))" using counted_run [OF db_ok_empty] assms(1) by blast
  moreover have "db_abs (db_run True cs empty_db) k = Some (conv_of (db_run True cs empty_db) r)"
    by (simp add: db_abs_def assms(2))
  ultimately have "cv_count (conv_of (db_run True cs empty_db) r) = int (length (cv_log (conv_of (db_run True cs empty_db) r)))"
    by (simp add: counted_def)
  then show ?thesis using get_session_key [OF assms(2)] by (simp add: conv_of_def log_of_def)
qed

theorem message_counts_exact_witness:
  "int (length (rows_of ''k'' (db_run True sample_ops empty_db))) = 1"
proof -
  have "\<forall>c\<in>set sample_ops. \<not> sets_count (snd c)" by (simp add: sample_ops_def)
  moreover have "get_session ''k'' (db_run True sample_ops empty_db) =
      Some \<lparr>sr_key = ''k'', sr_agent_id = ''a'', sr_created_at = 1, sr_updated_at = 2, sr_message_count = 1\<rparr>"
    by (simp add: sample_db get_session_def)
  ultimately show ?thesis using message_counts_exact by force
qed

text \<open>
  Without foreign keys, a session that is created again under a removed key shows the old messages, with a count of zero.
\<close>

lemma removed_messages_return:
  "let db = db_run False [(1, OpCreate ''k'' ''a''), (2, OpAdd ''k'' ''user'' ''secret''), (3, OpRemove ''k''), (4, OpCreate ''k'' ''b'')] empty_db
   in map_option sr_message_count (get_session ''k'' db) = Some 0 \<and> length (rows_of ''k'' db) = 1"
  by code_simp

end
