(* ===== verification/Session_Access.thy ===== *)
theory Session_Access
  imports Session_Store System_Events
begin

text \<open>
  Which sessions the tools of an agent may see and whom they may start
  (\<^verbatim>\<open>gateway-core/src/http/agent_bridge.rs\<close>): the visibility setting and the agent-to-agent policy, the tree of spawned
  sessions, the access check of the session tools, the depth of a session in the spawn tree, and the limits and allow
  lists of subagents.  The regular expressions of the \<^verbatim>\<open>regex\<close> crate are the parameters \<open>rx_escape\<close> and
  \<open>rx\<close>.  The theorems: access is granted exactly by the specification, and the two walks over the spawn tree
  end and compute what they should, also when the stored parents form a cycle.
\<close>

section \<open>Names\<close>

definition sanitize_char :: "string \<Rightarrow> char" where
  "sanitize_char c =
     (case c of
        [b] \<Rightarrow> if ascii_alnum b \<or> b = CHR ''-'' \<or> b = CHR ''_'' then lower_char b else CHR ''_''
      | _ \<Rightarrow> CHR ''_'')"

definition sanitize_session_token :: "string \<Rightarrow> string" where
  "sanitize_session_token input =
     (let out = map sanitize_char (chars_of input) in if out = [] then ''default'' else out)"

definition normalize_channel_alias :: "string \<Rightarrow> string" where
  "normalize_channel_alias raw =
     (let v = to_lowercase (trim raw)
      in if v \<in> {''googlechat'', ''google-chat'', ''google_chat''} then ''google_chat''
         else if v \<in> {''nextcloud-talk'', ''nextcloud_talk''} then ''nextcloud''
         else if v \<in> {''synology-chat'', ''synology_chat''} then ''synology''
         else if v \<in> {''ms-teams'', ''microsoft-teams'', ''teams''} then ''msteams''
         else if v \<in> {''imessage'', ''i-message'', ''i_message''} then ''bluebubbles''
         else if v \<in> {''web-chat'', ''web_chat''} then ''webchat''
         else if v = ''lark'' then ''feishu''
         else v)"

definition resolve_agent_id_from_session_key :: "string \<Rightarrow> string" where
  "resolve_agent_id_from_session_key key =
     (if trim key = [] then ''default''
      else case split_on (CHR '':'') (trim key) of
             p # q # _ \<Rightarrow> if p = ''agent'' \<and> trim q \<noteq> [] then sanitize_session_token (trim q) else ''default''
           | _ \<Rightarrow> ''default'')"

section \<open>Settings\<close>

datatype session_visibility = SelfOnly | TreeVisible | AgentVisible | AllVisible

datatype access_action = ActList | ActHistory | ActSend | ActStatus

record a2a_policy =
  a2a_enabled :: bool
  a2a_allow :: "string list"

text \<open>The arguments \<open>tools\<close>, \<open>agents\<close> and \<open>a2a_session\<close> are sections of the configuration.\<close>

definition pointer_bool :: "json \<Rightarrow> string \<Rightarrow> bool option" where
  "pointer_bool v ptr = Option.bind (json_pointer v ptr) (\<lambda>x. case x of JBool b \<Rightarrow> Some b | _ \<Rightarrow> None)"

definition pointer_i64 :: "json \<Rightarrow> string \<Rightarrow> int option" where
  "pointer_i64 v ptr = Option.bind (json_pointer v ptr) json_as_i64"

definition pointer_texts :: "json \<Rightarrow> string \<Rightarrow> string list" where
  "pointer_texts v ptr =
     (case Option.bind (json_pointer v ptr) json_as_array of
        None \<Rightarrow> []
      | Some xs \<Rightarrow> filter (\<lambda>s. s \<noteq> []) (map trim (List.map_filter json_as_str xs)))"

definition resolve_session_visibility :: "json option \<Rightarrow> session_visibility" where
  "resolve_session_visibility tools =
     (let raw = unwrap_or ''tree''
            (map_option (\<lambda>s. to_lowercase (trim s)) (Option.bind tools (\<lambda>v. pointer_str v ''/sessions/visibility'')))
      in if raw = ''self'' then SelfOnly
         else if raw = ''agent'' then AgentVisible
         else if raw = ''all'' then AllVisible
         else TreeVisible)"

definition resolve_agent_to_agent_policy :: "json option \<Rightarrow> a2a_policy" where
  "resolve_agent_to_agent_policy tools =
     \<lparr>a2a_enabled = unwrap_or False (Option.bind tools (\<lambda>v. pointer_bool v ''/agentToAgent/enabled'')),
      a2a_allow = (case tools of None \<Rightarrow> [] | Some v \<Rightarrow> pointer_texts v ''/agentToAgent/allow'')\<rparr>"

definition DEFAULT_A2A_PING_PONG_TURNS :: int where "DEFAULT_A2A_PING_PONG_TURNS = 5"
definition MAX_A2A_PING_PONG_TURNS :: int where "MAX_A2A_PING_PONG_TURNS = 5"

definition resolve_a2a_ping_pong_turns :: "json option \<Rightarrow> json option \<Rightarrow> nat" where
  "resolve_a2a_ping_pong_turns a2a_session tools =
     (let raw = or_else (Option.bind (Option.bind a2a_session (\<lambda>v. json_get v ''maxPingPongTurns'')) json_as_i64)
                  (Option.bind tools (\<lambda>v. pointer_i64 v ''/agentToAgent/maxPingPongTurns''));
          turns = unwrap_or DEFAULT_A2A_PING_PONG_TURNS raw
      in nat (max 0 (min turns MAX_A2A_PING_PONG_TURNS)))"

definition DEFAULT_SUBAGENT_MAX_SPAWN_DEPTH :: nat where "DEFAULT_SUBAGENT_MAX_SPAWN_DEPTH = 1"
definition DEFAULT_SUBAGENT_MAX_CHILDREN_PER_AGENT :: nat where "DEFAULT_SUBAGENT_MAX_CHILDREN_PER_AGENT = 5"

text \<open>The depth is cast to \<^verbatim>\<open>u32\<close>, which keeps its low 32 bits.\<close>

definition resolve_subagent_limits :: "json option \<Rightarrow> nat \<times> nat" where
  "resolve_subagent_limits agents =
     (let depth = (case Option.bind agents (\<lambda>v. pointer_i64 v ''/defaults/subagents/maxSpawnDepth'') of
            Some d \<Rightarrow> if 0 < d then nat d mod 2 ^ 32 else DEFAULT_SUBAGENT_MAX_SPAWN_DEPTH
          | None \<Rightarrow> DEFAULT_SUBAGENT_MAX_SPAWN_DEPTH);
          children = (case Option.bind agents (\<lambda>v. pointer_i64 v ''/defaults/subagents/maxChildrenPerAgent'') of
            Some n \<Rightarrow> if 0 < n then nat n else DEFAULT_SUBAGENT_MAX_CHILDREN_PER_AGENT
          | None \<Rightarrow> DEFAULT_SUBAGENT_MAX_CHILDREN_PER_AGENT)
      in (max depth 1, max children 1))"

definition i64_sat_mul :: "int \<Rightarrow> int \<Rightarrow> int" where
  "i64_sat_mul a b = max i64_min (min i64_max (a * b))"

definition resolve_subagent_archive_after_ms :: "json option \<Rightarrow> int option" where
  "resolve_subagent_archive_after_ms agents =
     (let minutes = unwrap_or 60 (Option.bind agents (\<lambda>v. pointer_i64 v ''/defaults/subagents/archiveAfterMinutes''))
      in if minutes \<le> 0 then None else Some (i64_sat_mul minutes 60000))"

definition agent_entries :: "json option \<Rightarrow> json list" where
  "agent_entries agents = unwrap_or [] (Option.bind (Option.bind agents (\<lambda>v. json_get v ''list'')) json_as_array)"

definition find_agent_entry :: "json option \<Rightarrow> string \<Rightarrow> json option" where
  "find_agent_entry agents agent =
     find (\<lambda>e. map_option sanitize_session_token (Option.bind (json_get e ''id'') json_as_str)
               = Some (sanitize_session_token agent)) (agent_entries agents)"

definition resolve_subagent_allow_agents :: "json option \<Rightarrow> string \<Rightarrow> string list" where
  "resolve_subagent_allow_agents agents requester =
     (case find_agent_entry agents requester of
        None \<Rightarrow> []
      | Some e \<Rightarrow> map (\<lambda>v. if v = ''*'' then ''*'' else sanitize_session_token v)
                    (pointer_texts e ''/subagents/allowAgents''))"

definition resolve_subagent_model_hint :: "json option \<Rightarrow> string \<Rightarrow> string option" where
  "resolve_subagent_model_hint agents target =
     (let entry = find_agent_entry agents target;
          own = non_empty (Option.bind entry (\<lambda>e. pointer_str e ''/subagents/model''));
          primary = non_empty (Option.bind (Option.bind entry (\<lambda>e. json_get e ''model'')) json_as_str);
          defaults = non_empty (Option.bind agents (\<lambda>v. pointer_str v ''/defaults/subagents/model''))
      in or_else own (or_else defaults primary))"

definition is_agent_allowed_by_allowlist :: "string list \<Rightarrow> string \<Rightarrow> bool" where
  "is_agent_allowed_by_allowlist allow target =
     (allow \<noteq> [] \<and> (\<exists>v\<in>set allow. v = ''*'' \<or> sanitize_session_token v = sanitize_session_token target))"

section \<open>The agent-to-agent policy\<close>

definition allow_pattern_matches ::
  "(string \<Rightarrow> string) \<Rightarrow> (string \<Rightarrow> (string \<Rightarrow> bool) option) \<Rightarrow> string \<Rightarrow> string \<Rightarrow> bool" where
  "allow_pattern_matches rx_escape rx pattern agent =
     (let pat = trim pattern
      in if pat = [] then False
         else if pat = ''*'' then True
         else if \<not> contains pat ''*'' then eq_ignore_case pat agent
         else case rx (''(?i)^'' @ replace_all [CHR 0x5C, CHR ''*''] ''.*'' (rx_escape pat) @ ''$'') of
                Some m \<Rightarrow> m agent | None \<Rightarrow> False)"

definition is_a2a_allowed ::
  "(string \<Rightarrow> string) \<Rightarrow> (string \<Rightarrow> (string \<Rightarrow> bool) option) \<Rightarrow> a2a_policy \<Rightarrow> string \<Rightarrow> string \<Rightarrow> bool" where
  "is_a2a_allowed rx_escape rx policy requester target =
     (if requester = target then True
      else if \<not> a2a_enabled policy then False
      else if a2a_allow policy = [] then True
      else (\<exists>p\<in>set (a2a_allow policy). allow_pattern_matches rx_escape rx p requester)
         \<and> (\<exists>p\<in>set (a2a_allow policy). allow_pattern_matches rx_escape rx p target))"

section \<open>Error texts\<close>

fun session_action_label :: "access_action \<Rightarrow> string" where
  "session_action_label ActHistory = ''Session history''"
| "session_action_label ActSend = ''Session send''"
| "session_action_label ActList = ''Session list''"
| "session_action_label ActStatus = ''Session status''"

fun cross_visibility_error :: "access_action \<Rightarrow> string" where
  "cross_visibility_error ActHistory = ''Session history visibility is restricted. Set tools.sessions.visibility=all to allow cross-agent access.''"
| "cross_visibility_error ActSend = ''Session send visibility is restricted. Set tools.sessions.visibility=all to allow cross-agent access.''"
| "cross_visibility_error ActList = ''Session list visibility is restricted. Set tools.sessions.visibility=all to allow cross-agent access.''"
| "cross_visibility_error ActStatus = ''Session status visibility is restricted. Set tools.sessions.visibility=all to allow cross-agent access.''"

fun a2a_disabled_error :: "access_action \<Rightarrow> string" where
  "a2a_disabled_error ActHistory = ''Agent-to-agent history is disabled. Set tools.agentToAgent.enabled=true to allow cross-agent access.''"
| "a2a_disabled_error ActSend = ''Agent-to-agent messaging is disabled. Set tools.agentToAgent.enabled=true to allow cross-agent sends.''"
| "a2a_disabled_error ActList = ''Agent-to-agent listing is disabled. Set tools.agentToAgent.enabled=true to allow cross-agent visibility.''"
| "a2a_disabled_error ActStatus = ''Agent-to-agent status is disabled. Set tools.agentToAgent.enabled=true to allow cross-agent access.''"

fun a2a_denied_error :: "access_action \<Rightarrow> string" where
  "a2a_denied_error ActHistory = ''Agent-to-agent history denied by tools.agentToAgent.allow.''"
| "a2a_denied_error ActSend = ''Agent-to-agent messaging denied by tools.agentToAgent.allow.''"
| "a2a_denied_error ActList = ''Agent-to-agent listing denied by tools.agentToAgent.allow.''"
| "a2a_denied_error ActStatus = ''Agent-to-agent session status denied by tools.agentToAgent.allow.''"

definition self_visibility_error :: "access_action \<Rightarrow> string" where
  "self_visibility_error act = session_action_label act @
     '' visibility is restricted to the current session (tools.sessions.visibility=self).''"

definition tree_visibility_error :: "access_action \<Rightarrow> string" where
  "tree_visibility_error act = session_action_label act @
     '' visibility is restricted to the current session tree (tools.sessions.visibility=tree).''"

section \<open>The tree of spawned sessions\<close>

definition parent_session :: "metadata \<Rightarrow> string option" where
  "parent_session meta = non_empty (or_else (hm_get meta ''spawnedBy'') (hm_get meta ''parentSessionKey''))"

definition add_child :: "string \<Rightarrow> string \<Rightarrow> (string, string list) hash_map \<Rightarrow> (string, string list) hash_map" where
  "add_child p c m = hm_insert p (unwrap_or [] (hm_get m p) @ [c]) m"

definition children_by_parent :: "session_db \<Rightarrow> (string, string list) hash_map" where
  "children_by_parent db =
     fold (\<lambda>s m. case parent_session (get_session_metadata (sr_key s) db) of
                   None \<Rightarrow> m | Some p \<Rightarrow> add_child p (sr_key s) m) (list_sessions db) []"

function tree_walk :: "(string, string list) hash_map \<Rightarrow> string list \<Rightarrow> string set \<Rightarrow> string set" where
  "tree_walk by_parent [] out = out"
| "tree_walk by_parent (current # stack) out =
     (if current \<in> out then tree_walk by_parent stack out
      else tree_walk by_parent (rev (unwrap_or [] (hm_get by_parent current)) @ stack) (insert current out))"
  by pat_completeness auto
termination
proof (relation "measures [\<lambda>(m, st, out). card (fst ` set m - out), \<lambda>(m, st, out). length st]", goal_cases)
  case (3 m c st out)
  show ?case
  proof (cases "hm_get m c")
    case None
    then have "fst ` set m - insert c out = fst ` set m - out" by (auto simp: map_of_eq_None_iff)
    then show ?thesis by (simp add: None unwrap_or_def)
  next
    case (Some cs)
    then have "c \<in> fst ` set m" by (metis domIff dom_map_of_conv_image_fst option.distinct(1))
    with 3 have "card (fst ` set m - insert c out) < card (fst ` set m - out)"
      by (intro psubset_card_mono) auto
    then show ?thesis by simp
  qed
qed simp_all

definition collect_tree_visible_keys :: "session_db \<Rightarrow> string \<Rightarrow> string set" where
  "collect_tree_visible_keys db requester = tree_walk (children_by_parent db) [requester] {}"

section \<open>The access check\<close>

record access_context =
  ac_requester_key :: string
  ac_requester_agent :: string
  ac_visibility :: session_visibility
  ac_a2a :: a2a_policy
  ac_tree :: "string set option"

definition requester_key_of :: "string option \<Rightarrow> string" where
  "requester_key_of session_id = unwrap_or ''agent:default:main'' session_id"

definition build_session_access_context :: "json option \<Rightarrow> string option \<Rightarrow> session_db \<Rightarrow> access_context" where
  "build_session_access_context tools session_id db =
     (let requester = requester_key_of session_id; visibility = resolve_session_visibility tools
      in \<lparr>ac_requester_key = requester, ac_requester_agent = resolve_agent_id_from_session_key requester,
          ac_visibility = visibility, ac_a2a = resolve_agent_to_agent_policy tools,
          ac_tree = (if visibility = TreeVisible then Some (collect_tree_visible_keys db requester) else None)\<rparr>)"

definition check_session_access ::
  "(string \<Rightarrow> string) \<Rightarrow> (string \<Rightarrow> (string \<Rightarrow> bool) option) \<Rightarrow> access_context \<Rightarrow> string \<Rightarrow> access_action \<Rightarrow> (string, unit) result" where
  "check_session_access rx_escape rx ctx target act =
     (let agent = resolve_agent_id_from_session_key target
      in if agent \<noteq> ac_requester_agent ctx then
           if ac_visibility ctx \<noteq> AllVisible then Inl (cross_visibility_error act)
           else if \<not> a2a_enabled (ac_a2a ctx) then Inl (a2a_disabled_error act)
           else if \<not> is_a2a_allowed rx_escape rx (ac_a2a ctx) (ac_requester_agent ctx) agent then Inl (a2a_denied_error act)
           else Inr ()
         else case ac_visibility ctx of
                SelfOnly \<Rightarrow> if target \<noteq> ac_requester_key ctx then Inl (self_visibility_error act) else Inr ()
              | TreeVisible \<Rightarrow>
                  if target \<noteq> ac_requester_key ctx \<and>
                     \<not> (case ac_tree ctx of Some s \<Rightarrow> target \<in> s | None \<Rightarrow> False)
                  then Inl (tree_visibility_error act) else Inr ()
              | _ \<Rightarrow> Inr ())"

section \<open>The depth of a session\<close>

definition parse_spawn_depth_meta :: "metadata \<Rightarrow> nat option" where
  "parse_spawn_depth_meta meta =
     Option.bind (non_empty (or_else (hm_get meta ''spawnDepth'') (hm_get meta ''spawn_depth''))) parse_u32"

definition keys_with_metadata :: "session_db \<Rightarrow> string set" where
  "keys_with_metadata db = (\<lambda>e. fst (fst e)) ` set (db_metadata db)"

lemma parent_has_metadata: "parent_session (get_session_metadata k db) = Some p \<Longrightarrow> k \<in> keys_with_metadata db"
proof (rule ccontr)
  assume p: "parent_session (get_session_metadata k db) = Some p" and "k \<notin> keys_with_metadata db"
  then have "get_session_metadata k db = []"
    by (auto simp: keys_with_metadata_def get_session_metadata_def filter_empty_conv)
  with p show False by (simp add: parent_session_def non_empty_def or_else_def)
qed

function depth_walk :: "session_db \<Rightarrow> string list \<Rightarrow> nat \<Rightarrow> string \<Rightarrow> nat" where
  "depth_walk db visited depth current =
     (if current \<in> set visited then depth
      else let meta = get_session_metadata current db
           in case parse_spawn_depth_meta meta of
                Some explicit \<Rightarrow> max depth explicit
              | None \<Rightarrow>
                  (case parent_session meta of
                     Some p \<Rightarrow> depth_walk db (current # visited) (sat_add u32_max depth 1) p
                   | None \<Rightarrow> if depth = 0 \<and> contains current '':subagent:'' then 1 else depth))"
  by pat_completeness auto

termination
proof (relation "measure (\<lambda>(db, visited, depth, current). card (keys_with_metadata db - set visited))", goal_cases)
  case (2 db visited depth current meta p)
  then have "current \<in> keys_with_metadata db" using parent_has_metadata by blast
  with 2 have "card (keys_with_metadata db - set (current # visited)) < card (keys_with_metadata db - set visited)"
    by (intro psubset_card_mono) (auto simp: keys_with_metadata_def)
  then show ?case by simp
qed simp

declare depth_walk.simps [simp del]

definition resolve_spawn_depth :: "session_db \<Rightarrow> string \<Rightarrow> nat" where
  "resolve_spawn_depth db requester =
     (case parse_spawn_depth_meta (get_session_metadata requester db) of
        Some explicit \<Rightarrow> explicit
      | None \<Rightarrow> depth_walk db [] 0 requester)"

section \<open>The session tools\<close>

definition resolve_session_key :: "string option \<Rightarrow> string option \<Rightarrow> string option" where
  "resolve_session_key raw session_id = or_else (non_empty raw) session_id"

record list_request =
  lr_channel :: "string option"
  lr_active_only :: bool
  lr_limit :: nat

definition list_request_of :: "json \<Rightarrow> list_request" where
  "list_request_of v =
     \<lparr>lr_channel = map_option normalize_channel_alias (Option.bind (json_get v ''channel'') json_as_str),
      lr_active_only = (case json_get v ''active_only'' of Some (JBool b) \<Rightarrow> b | _ \<Rightarrow> False),
      lr_limit = unwrap_or 20 (Option.bind (json_get v ''limit'') json_as_u64)\<rparr>"

definition sessions_list ::
  "(string \<Rightarrow> string) \<Rightarrow> (string \<Rightarrow> (string \<Rightarrow> bool) option) \<Rightarrow> json option \<Rightarrow> string option \<Rightarrow> list_request \<Rightarrow> session_db \<Rightarrow> session_row list" where
  "sessions_list rx_escape rx tools session_id req db =
     (let ctx = build_session_access_context tools session_id db;
          meta = (\<lambda>s. get_session_metadata (sr_key s) db);
          visible = filter (\<lambda>s. check_session_access rx_escape rx ctx (sr_key s) ActList = Inr ()) (list_sessions db);
          on_channel = (case lr_channel req of
              None \<Rightarrow> visible
            | Some c \<Rightarrow> filter (\<lambda>s. map_option normalize_channel_alias (hm_get (meta s) ''channel'') = Some c) visible);
          active = (if lr_active_only req then filter (\<lambda>s. hm_get (meta s) ''terminated'' \<noteq> Some ''true'') on_channel
                    else on_channel)
      in take (lr_limit req) active)"

datatype history_reply = Forbidden string | Messages "(string \<times> string \<times> int) list"

definition sessions_history ::
  "(string \<Rightarrow> string) \<Rightarrow> (string \<Rightarrow> (string \<Rightarrow> bool) option) \<Rightarrow> json option \<Rightarrow> string option \<Rightarrow> json \<Rightarrow> session_db \<Rightarrow> (string, history_reply) result" where
  "sessions_history rx_escape rx tools session_id v db =
     (let str = (\<lambda>f. Option.bind (json_get v f) json_as_str);
          limit = unwrap_or 50 (Option.bind (json_get v ''limit'') json_as_u64)
      in case resolve_session_key (or_else (str ''session_key'') (str ''sessionKey'')) session_id of
           None \<Rightarrow> Inl ''sessions_history: missing session_key''
         | Some key \<Rightarrow>
             (case check_session_access rx_escape rx (build_session_access_context tools session_id db) key ActHistory of
                Inl e \<Rightarrow> Inr (Forbidden e)
              | Inr _ \<Rightarrow> Inr (Messages (rev (get_messages key limit db)))))"

section \<open>The visible tree is what was spawned\<close>

definition child_rel :: "session_db \<Rightarrow> (string \<times> string) set" where
  "child_rel db = {(p, c). has_session c db \<and> parent_session (get_session_metadata c db) = Some p}"

definition kids :: "(string, string list) hash_map \<Rightarrow> string \<Rightarrow> string list" where
  "kids m p = unwrap_or [] (hm_get m p)"

lemma kids_add_child: "kids (add_child p c m) q = kids m q @ (if q = p then [c] else [])"
  by (simp add: kids_def add_child_def unwrap_or_def)

lemma kids_fold:
  "kids (fold (\<lambda>s m. case par s of None \<Rightarrow> m | Some p \<Rightarrow> add_child p (sr_key s) m) ss m) q =
   kids m q @ map sr_key (filter (\<lambda>s. par s = Some q) ss)"
  by (induction ss arbitrary: m) (auto simp: kids_add_child split: option.split)

lemma kids_children: "set (kids (children_by_parent db) p) = {c. (p, c) \<in> child_rel db}"
proof -
  have "set (list_sessions db) = set (db_sessions db)" by (simp add: list_sessions_def)
  then show ?thesis
    unfolding children_by_parent_def kids_fold
    by (auto simp: kids_def unwrap_or_def child_rel_def has_session_def)
qed

lemma closed_reach:
  assumes closed: "\<And>p c. p \<in> out \<Longrightarrow> (p, c) \<in> E \<Longrightarrow> c \<in> out \<union> st"
  shows "E\<^sup>* `` out \<subseteq> out \<union> E\<^sup>* `` st"
proof -
  have "y \<in> out \<union> E\<^sup>* `` st" if "(x, y) \<in> E\<^sup>*" "x \<in> out" for x y
    using that
  proof (induction rule: rtrancl_induct)
    case (step y z)
    then consider "y \<in> out" | "y \<in> E\<^sup>* `` st" by blast
    then show ?case
    proof cases
      case 1
      then show ?thesis using closed [OF 1 step(2)] by blast
    next
      case 2
      then show ?thesis using step(2) by (auto intro: rtrancl_into_rtrancl)
    qed
  qed simp
  then show ?thesis by blast
qed

lemma reach_unfold: "E\<^sup>* `` {x} = insert x (E\<^sup>* `` (E `` {x}))"
  by (auto elim: converse_rtranclE intro: converse_rtrancl_into_rtrancl)

lemma tree_walk_reach:
  assumes "\<And>p c. p \<in> out \<Longrightarrow> c \<in> set (kids m p) \<Longrightarrow> c \<in> out \<union> set st"
  shows "tree_walk m st out = out \<union> {(p, c). c \<in> set (kids m p)}\<^sup>* `` set st"
  using assms
proof (induction m st out rule: tree_walk.induct)
  case (1 m out)
  then show ?case by simp
next
  case (2 m x st out)
  let ?E = "{(p, c). c \<in> set (kids m p)}"
  show ?case
  proof (cases "x \<in> out")
    case True
    then have closed: "c \<in> out \<union> set st" if "p \<in> out" "c \<in> set (kids m p)" for p c
      using 2(3) that by auto
    then have "?E\<^sup>* `` out \<subseteq> out \<union> ?E\<^sup>* `` set st" by (intro closed_reach) blast
    then have sub: "?E\<^sup>* `` {x} \<subseteq> out \<union> ?E\<^sup>* `` set st" using True by (meson Image_mono dual_order.trans empty_subsetI insert_subset order_refl)
    have absorb: "out \<union> B = out \<union> (A \<union> B)" if "A \<subseteq> out \<union> B" for A B using that by blast
    have "?E\<^sup>* `` set (x # st) = ?E\<^sup>* `` {x} \<union> ?E\<^sup>* `` set st" by (simp flip: Image_Un)
    moreover have "tree_walk m (x # st) out = out \<union> ?E\<^sup>* `` set st" using True 2(1) closed by simp
    ultimately show ?thesis using absorb [OF sub] by simp
  next
    case False
    have closed: "c \<in> insert x out \<union> set (rev (unwrap_or [] (hm_get m x)) @ st)"
      if "p \<in> insert x out" "c \<in> set (kids m p)" for p c
    proof (cases "p = x")
      case True
      then show ?thesis using that(2) by (simp add: kids_def)
    next
      case False
      then show ?thesis using 2(3) [of p c] that by auto
    qed
    have "tree_walk m (rev (unwrap_or [] (hm_get m x)) @ st) (insert x out) =
        insert x out \<union> ?E\<^sup>* `` set (rev (unwrap_or [] (hm_get m x)) @ st)"
      by (rule 2(2) [OF False]) (rule closed)
    then have "tree_walk m (x # st) out = insert x out \<union> ?E\<^sup>* `` set (rev (kids m x) @ st)"
      using False by (simp add: kids_def)
    moreover have "?E `` {x} = set (kids m x)" by auto
    then have "?E\<^sup>* `` {x} = insert x (?E\<^sup>* `` set (kids m x))" using reach_unfold [of ?E x] by simp
    moreover have "?E\<^sup>* `` set (x # st) = ?E\<^sup>* `` {x} \<union> ?E\<^sup>* `` set st" by (simp flip: Image_Un)
    ultimately show ?thesis by (simp add: Image_Un Un_assoc)
  qed
qed

lemma tree_is_reachable: "collect_tree_visible_keys db r = (child_rel db)\<^sup>* `` {r}"
proof -
  have "{(p, c). c \<in> set (kids (children_by_parent db) p)} = child_rel db" by (auto simp: kids_children)
  then show ?thesis using tree_walk_reach [of "{}" "children_by_parent db" "[r]"]
    by (simp add: collect_tree_visible_keys_def)
qed

section \<open>Access is granted exactly by the specification\<close>

definition may_access ::
  "(string \<Rightarrow> string) \<Rightarrow> (string \<Rightarrow> (string \<Rightarrow> bool) option) \<Rightarrow> json option \<Rightarrow> session_db \<Rightarrow> string \<Rightarrow> string \<Rightarrow> bool" where
  "may_access rx_escape rx tools db requester target =
     (let mine = resolve_agent_id_from_session_key requester;
          theirs = resolve_agent_id_from_session_key target;
          policy = resolve_agent_to_agent_policy tools;
          listed = (\<lambda>a. \<exists>p\<in>set (a2a_allow policy). allow_pattern_matches rx_escape rx p a)
      in if theirs = mine then
           (case resolve_session_visibility tools of
              SelfOnly \<Rightarrow> target = requester
            | TreeVisible \<Rightarrow> (requester, target) \<in> (child_rel db)\<^sup>*
            | _ \<Rightarrow> True)
         else resolve_session_visibility tools = AllVisible \<and> a2a_enabled policy \<and>
              (a2a_allow policy = [] \<or> listed mine \<and> listed theirs))"

lemma check_iff_may_access:
  "check_session_access rx_escape rx (build_session_access_context tools session_id db) target act = Inr () \<longleftrightarrow>
   may_access rx_escape rx tools db (requester_key_of session_id) target"
  by (cases "resolve_session_visibility tools")
     (auto simp: check_session_access_def build_session_access_context_def may_access_def Let_def
        tree_is_reachable is_a2a_allowed_def split: if_splits)

text \<open>C16: The session tools let an agent reach a session exactly when the configuration says so: within the same
  agent by the visibility setting (only itself; itself and the sessions it spawned, directly or indirectly; all of
  the agent), across agents only with full visibility and an agent-to-agent policy that lists both
  agents or nobody.  Reading a history answers with its messages or with a refusal by this rule, a listing shows only
  sessions the rule allows, at most as many as asked for, and the walk over the spawn tree ends for every
  stored parent relation.
\<close>

theorem session_access_exact:
  assumes "v = JObject ((''session_key'', JString key) # rest)" and "trim key \<noteq> []"
  shows "let r = requester_key_of session_id;
          limit = unwrap_or 50 (Option.bind (json_get v ''limit'') json_as_u64);
          reply = sessions_history rx_escape rx tools session_id v db;
          listed = sessions_list rx_escape rx tools session_id req db
      in (if may_access rx_escape rx tools db r (trim key)
          then reply = Inr (Messages (rev (get_messages (trim key) limit db))) else (\<exists>e. reply = Inr (Forbidden e)))
       \<and> length listed \<le> lr_limit req
       \<and> set listed \<subseteq> {s \<in> set (db_sessions db). may_access rx_escape rx tools db r (sr_key s)}"
proof -
  let ?check = "check_session_access rx_escape rx (build_session_access_context tools session_id db)"
  let ?listed = "sessions_list rx_escape rx tools session_id req db"
  let ?may = "may_access rx_escape rx tools db (requester_key_of session_id)"
  have key: "resolve_session_key (or_else (Option.bind (json_get v ''session_key'') json_as_str)
      (Option.bind (json_get v ''sessionKey'') json_as_str)) session_id = Some (trim key)"
    using assms by (simp add: resolve_session_key_def non_empty_def or_else_def)
  have may: "?check t act = Inr () \<longleftrightarrow> ?may t" for t act by (rule check_iff_may_access)
  have "if ?may (trim key)
      then sessions_history rx_escape rx tools session_id v db =
        Inr (Messages (rev (get_messages (trim key) (unwrap_or 50 (Option.bind (json_get v ''limit'') json_as_u64)) db)))
      else \<exists>e. sessions_history rx_escape rx tools session_id v db = Inr (Forbidden e)"
  proof (cases "?check (trim key) ActHistory")
    case (Inl e)
    then have "\<not> ?may (trim key)" using may [of "trim key" ActHistory] by simp
    with Inl show ?thesis by (simp add: sessions_history_def Let_def key)
  next
    case (Inr u)
    then have "?may (trim key)" using may [of "trim key" ActHistory] by simp
    with Inr show ?thesis by (simp add: sessions_history_def Let_def key)
  qed
  moreover have "length ?listed \<le> lr_limit req" by (simp add: sessions_list_def Let_def)
  moreover have "set ?listed \<subseteq> {s \<in> set (list_sessions db). ?check (sr_key s) ActList = Inr ()}"
    by (auto simp: sessions_list_def Let_def split: option.splits if_splits dest!: in_set_takeD)
  then have "set ?listed \<subseteq> {s \<in> set (db_sessions db). ?may (sr_key s)}"
    by (simp add: may list_sessions_def)
  ultimately show ?thesis by (simp add: Let_def)
qed

text \<open>A session, the one it spawned, and a stranger of the same agent.\<close>

definition family :: session_db where
  "family = db_run True [(1, OpCreate ''agent:a:main'' ''a''), (2, OpCreate ''agent:a:sub'' ''a''),
     (3, OpCreate ''agent:a:other'' ''a''), (4, OpMeta ''agent:a:sub'' ''spawnedBy'' ''agent:a:main''),
     (5, OpAdd ''agent:a:sub'' ''user'' ''hi''), (6, OpAdd ''agent:a:other'' ''user'' ''no'')] empty_db"

theorem session_access_exact_witness:
  "sessions_history id (\<lambda>_. None) None (Some ''agent:a:main'') (JObject [(''session_key'', JString ''agent:a:sub'')]) family
     = Inr (Messages [(''user'', ''hi'', 5)])"
proof -
  have "(''agent:a:main'', ''agent:a:sub'') \<in> child_rel family"
    unfolding child_rel_def mem_Collect_eq case_prod_conv by code_simp
  then have "(''agent:a:main'', ''agent:a:sub'') \<in> (child_rel family)\<^sup>*" by blast
  moreover have "resolve_session_visibility None = TreeVisible" by code_simp
  moreover have "resolve_agent_id_from_session_key ''agent:a:main'' = resolve_agent_id_from_session_key ''agent:a:sub''"
    "trim ''agent:a:sub'' = ''agent:a:sub''" by code_simp+
  ultimately have "may_access id (\<lambda>_. None) None family ''agent:a:main'' ''agent:a:sub''"
    by (simp add: may_access_def Let_def)
  moreover have "get_messages ''agent:a:sub'' 50 family = [(''user'', ''hi'', 5)]"
    by (simp add: get_messages_def sql_limit_def as_i64_def) code_simp
  moreover have "requester_key_of (Some ''agent:a:main'') = ''agent:a:main''" by (simp add: requester_key_of_def unwrap_or_def)
  ultimately show ?thesis
    using session_access_exact [OF refl, of "''agent:a:sub''" "Some ''agent:a:main''" "[]" id "\<lambda>_. None" None family]
      \<open>trim ''agent:a:sub'' = ''agent:a:sub''\<close>
    by (simp add: Let_def unwrap_or_def)
qed

section \<open>Depths\<close>

text \<open>\<open>ancestors db k ps\<close>: the walk from \<open>k\<close> follows the parents \<open>ps\<close>, none of the sessions before the last having an explicit depth.\<close>

fun ancestors :: "session_db \<Rightarrow> string \<Rightarrow> string list \<Rightarrow> bool" where
  "ancestors db k [] = True"
| "ancestors db k (p # ps) =
     (parse_spawn_depth_meta (get_session_metadata k db) = None
      \<and> parent_session (get_session_metadata k db) = Some p \<and> ancestors db p ps)"

lemma depth_walk_ancestors:
  assumes "ancestors db k ps" "distinct (k # ps)" "set (k # ps) \<inter> set vis = {}" "d + length ps \<le> u32_max"
  shows "depth_walk db vis d k = depth_walk db (tl (rev (k # ps)) @ vis) (d + length ps) (last (k # ps))"
  using assms
proof (induction ps arbitrary: k vis d)
  case (Cons p ps)
  have "depth_walk db vis d k = depth_walk db (k # vis) (sat_add u32_max d 1) p"
    using Cons.prems by (subst depth_walk.simps) (simp add: Let_def)
  also have "sat_add u32_max d 1 = Suc d" using Cons.prems(4) by (simp add: sat_add_def)
  also have "depth_walk db (k # vis) (Suc d) p =
      depth_walk db (tl (rev (p # ps)) @ k # vis) (Suc d + length ps) (last (p # ps))"
    using Cons.prems by (intro Cons.IH) auto
  also have "tl (rev (p # ps)) @ k # vis = tl (rev (k # p # ps)) @ vis"
    by (cases "rev ps") auto
  finally show ?case by simp
qed simp

text \<open>
  The depth of a session without an explicit depth is the number of its ancestors up to the first with an explicit depth, or
  that depth if it is larger.
\<close>

lemma spawn_depth_of_chain:
  assumes "ancestors db k ps" "ps \<noteq> []" "distinct (k # ps)" "length ps \<le> u32_max"
  defines "top_meta \<equiv> get_session_metadata (last ps) db"
  shows "parse_spawn_depth_meta top_meta = Some e \<Longrightarrow> resolve_spawn_depth db k = max (length ps) e"
    and "parse_spawn_depth_meta top_meta = None \<Longrightarrow> parent_session top_meta = None \<Longrightarrow> resolve_spawn_depth db k = length ps"
proof -
  have none: "parse_spawn_depth_meta (get_session_metadata k db) = None" using assms(1,2) by (cases ps) auto
  have new: "last ps \<notin> set (tl (rev (k # ps)))"
    using assms(2,3) by (cases ps rule: rev_cases) auto
  have "resolve_spawn_depth db k = depth_walk db (tl (rev (k # ps))) (length ps) (last ps)"
    using depth_walk_ancestors [OF assms(1,3), of "[]" 0] assms(2,4) none by (simp add: resolve_spawn_depth_def)
  also have "\<dots> = (case parse_spawn_depth_meta top_meta of
       Some e \<Rightarrow> max (length ps) e
     | None \<Rightarrow> case parent_session top_meta of
         Some p \<Rightarrow> depth_walk db (last ps # tl (rev (k # ps))) (sat_add u32_max (length ps) 1) p
       | None \<Rightarrow> length ps)"
    using new assms(2) by (subst depth_walk.simps) (simp add: top_meta_def Let_def split: option.split)
  finally have eq: "resolve_spawn_depth db k = \<dots>" .
  show "parse_spawn_depth_meta top_meta = Some e \<Longrightarrow> resolve_spawn_depth db k = max (length ps) e" by (simp add: eq)
  show "parse_spawn_depth_meta top_meta = None \<Longrightarrow> parent_session top_meta = None \<Longrightarrow> resolve_spawn_depth db k = length ps"
    by (simp add: eq)
qed

text \<open>So a session whose parent has the depth five has that depth too, and not six.\<close>

lemma inherited_depth_not_counted:
  assumes "ancestors db k [p]" "k \<noteq> p" "parse_spawn_depth_meta (get_session_metadata p db) = Some 5"
  shows "resolve_spawn_depth db k = 5"
  using spawn_depth_of_chain(1) [of db k "[p]" 5] assms by simp

text \<open>A session with an explicit depth has it.\<close>

lemma spawn_depth_explicit:
  "parse_spawn_depth_meta (get_session_metadata k db) = Some d \<Longrightarrow> resolve_spawn_depth db k = d"
  by (simp add: resolve_spawn_depth_def)

end
