(* ===== verification/Announce_Queue.thy ===== *)
theory Announce_Queue
  imports Session_Access
begin

text \<open>
  The queue of completion announcements of subagents (\<^verbatim>\<open>gateway-core/src/http/agent_bridge.rs\<close>): what cannot be
  delivered at once is queued per requester session, with a cap and a drop policy, and a background task drains the
  queue while further announcements arrive.  Each section of the code that holds the lock is one step, sending is a step of its
  own whose outcome is an input.  The theorems: there is one drain task per queue, announcements
  leave the queue in order, and as long as the cap is never met every one that leaves was sent.  Three lemmas show
  how announcements are lost, or the drain task spins, when the cap is met.
\<close>

section \<open>Settings and items\<close>

datatype announce_mode = AnnSteer | AnnFollowup | AnnCollect | AnnSteerBacklog | AnnInterrupt

datatype announce_drop = AnnOld | AnnNew | AnnSummarize

record announce_settings =
  an_mode :: announce_mode
  an_debounce_ms :: int
  an_cap :: nat
  an_drop_policy :: announce_drop

definition DEFAULT_ANNOUNCE_QUEUE_DEBOUNCE_MS :: int where "DEFAULT_ANNOUNCE_QUEUE_DEBOUNCE_MS = 1000"
definition DEFAULT_ANNOUNCE_QUEUE_CAP :: nat where "DEFAULT_ANNOUNCE_QUEUE_CAP = 20"

definition default_announce_settings :: announce_settings where
  "default_announce_settings =
     \<lparr>an_mode = AnnCollect, an_debounce_ms = DEFAULT_ANNOUNCE_QUEUE_DEBOUNCE_MS, an_cap = DEFAULT_ANNOUNCE_QUEUE_CAP,
      an_drop_policy = AnnSummarize\<rparr>"

definition normalize_announce_queue_mode :: "string option \<Rightarrow> announce_mode" where
  "normalize_announce_queue_mode raw =
     (let v = to_lowercase (unwrap_or ''collect'' (non_empty raw))
      in if v = ''steer'' then AnnSteer
         else if v \<in> {''steerbacklog'', ''steer-backlog'', ''steer+backlog''} then AnnSteerBacklog
         else if v = ''interrupt'' then AnnInterrupt
         else if v \<in> {''followup'', ''follow-up'', ''queue''} then AnnFollowup
         else AnnCollect)"

definition normalize_announce_drop_policy :: "string option \<Rightarrow> announce_drop" where
  "normalize_announce_drop_policy raw =
     (let v = to_lowercase (unwrap_or ''summarize'' (non_empty raw))
      in if v = ''old'' then AnnOld else if v = ''new'' then AnnNew else AnnSummarize)"

text \<open>From the session's metadata, then the \<^verbatim>\<open>messages\<close> section of the configuration, then the defaults.\<close>

definition meta_or :: "metadata \<Rightarrow> string list \<Rightarrow> string option" where
  "meta_or meta keys = fold (\<lambda>k acc. or_else acc (hm_get meta k)) keys None"

definition resolve_announce_queue_settings :: "metadata \<Rightarrow> json option \<Rightarrow> string option \<Rightarrow> announce_settings" where
  "resolve_announce_queue_settings meta messages channel_hint =
     (let session_mode = non_empty (meta_or meta [''queueMode'', ''queue_mode'']);
          session_debounce = map_option (max 0) (Option.bind (meta_or meta [''queueDebounceMs'', ''queue_debounce_ms'']) (\<lambda>v. parse_i64 (trim v)));
          session_cap = map_option (max 1) (Option.bind (meta_or meta [''queueCap'', ''queue_cap'']) (\<lambda>v. parse_usize (trim v)));
          session_drop = non_empty (meta_or meta [''queueDrop'', ''queue_drop'', ''queueDropPolicy'']);
          channel = map_option normalize_channel_alias channel_hint;
          at_ptr = (\<lambda>ptr. Option.bind messages (\<lambda>m. json_pointer m ptr));
          cfg_mode = or_else (Option.bind channel (\<lambda>c. non_empty (Option.bind (at_ptr (''/queue/byChannel/'' @ c)) json_as_str)))
                       (non_empty (Option.bind (at_ptr ''/queue/mode'') json_as_str));
          cfg_debounce = or_else
             (Option.bind channel (\<lambda>c. map_option (max 0) (Option.bind (at_ptr (''/queue/debounceMsByChannel/'' @ c)) json_as_i64)))
             (Option.bind (at_ptr ''/queue/debounceMs'') json_as_i64);
          cfg_cap = map_option (\<lambda>v. nat (max v 1)) (Option.bind (at_ptr ''/queue/cap'') json_as_i64);
          cfg_drop = non_empty (Option.bind (or_else (at_ptr ''/queue/dropPolicy'') (at_ptr ''/queue/drop'')) json_as_str)
      in \<lparr>an_mode = normalize_announce_queue_mode (or_else session_mode (or_else cfg_mode (Some ''collect''))),
          an_debounce_ms = max 0 (unwrap_or DEFAULT_ANNOUNCE_QUEUE_DEBOUNCE_MS (or_else session_debounce cfg_debounce)),
          an_cap = max 1 (unwrap_or DEFAULT_ANNOUNCE_QUEUE_CAP (or_else session_cap cfg_cap)),
          an_drop_policy = normalize_announce_drop_policy (or_else session_drop (or_else cfg_drop (Some ''summarize'')))\<rparr>)"

record announce_target =
  at_channel :: string
  at_to :: string
  at_account_id :: "string option"
  at_thread_id :: "string option"

record announce_item =
  ai_run_id :: string
  ai_prompt :: string
  ai_summary_line :: "string option"
  ai_enqueued_at_ms :: int
  ai_session_key :: string
  ai_target :: "announce_target option"
  ai_origin_key :: "string option"

record announce_queue =
  aq_items :: "announce_item list"
  aq_draining :: bool
  aq_last_enqueued_at_ms :: int
  aq_mode :: announce_mode
  aq_debounce_ms :: int
  aq_cap :: nat
  aq_drop_policy :: announce_drop
  aq_dropped_count :: nat
  aq_summary_lines :: "string list"

definition announce_queue_new :: "announce_settings \<Rightarrow> announce_queue" where
  "announce_queue_new s =
     \<lparr>aq_items = [], aq_draining = False, aq_last_enqueued_at_ms = 0, aq_mode = an_mode s, aq_debounce_ms = an_debounce_ms s,
      aq_cap = an_cap s, aq_drop_policy = an_drop_policy s, aq_dropped_count = 0, aq_summary_lines = []\<rparr>"

section \<open>Texts\<close>

definition build_announce_origin_key :: "announce_target option \<Rightarrow> string option" where
  "build_announce_origin_key target =
     map_option (\<lambda>t. to_lowercase (trim (at_channel t)) @ ''|'' @ to_lowercase (trim (at_to t)) @ ''|'' @
        to_lowercase (trim (unwrap_or [] (at_account_id t))) @ ''|'' @ to_lowercase (trim (unwrap_or [] (at_thread_id t)))) target"

definition ellipsis :: string where "ellipsis = [CHR 0xE2, CHR 0x80, CHR 0xA6]"

definition elide_announce_text :: "string \<Rightarrow> nat \<Rightarrow> string" where
  "elide_announce_text t limit =
     (let cs = chars_of (trim t)
      in if length cs \<le> limit then trim t else concat (take (limit - 1) cs) @ ellipsis)"

definition build_announce_summary_line :: "string \<Rightarrow> string" where
  "build_announce_summary_line t = elide_announce_text (join_with '' '' (split_whitespace t)) 160"

definition build_announce_queue_summary_prompt :: "announce_queue \<Rightarrow> string option" where
  "build_announce_queue_summary_prompt q =
     (if aq_drop_policy q \<noteq> AnnSummarize \<or> aq_dropped_count q = 0 then None
      else let head = ''[Queue overflow] Dropped '' @ show_nat (aq_dropped_count q) @ '' announce'' @
                        (if aq_dropped_count q = 1 then [] else ''s'') @ '' due to cap.'';
               rest = (if aq_summary_lines q = [] then [] else ''Summary:'' # map (\<lambda>l. ''- '' @ l) (aq_summary_lines q))
           in Some (join_with [newline] (head # rest)))"

text \<open>\<open>rfc3339\<close> prints a time stamp in milliseconds, if it is in the range of \<^verbatim>\<open>chrono\<close>.\<close>

definition announce_header :: "(int \<Rightarrow> string option) \<Rightarrow> nat \<Rightarrow> announce_item \<Rightarrow> string" where
  "announce_header rfc3339 idx it =
     ''Queued #'' @ show_nat (idx + 1) @
     (if trim (ai_session_key it) = [] then [] else '' | source_session='' @ trim (ai_session_key it)) @
     (if 0 < ai_enqueued_at_ms it then
        (case rfc3339 (ai_enqueued_at_ms it) of
           Some ts \<Rightarrow> '' | enqueued_at='' @ ts
         | None \<Rightarrow> '' | enqueued_at_ms='' @ show_int (ai_enqueued_at_ms it))
      else [])"

definition announce_block :: "(int \<Rightarrow> string option) \<Rightarrow> nat \<times> announce_item \<Rightarrow> string" where
  "announce_block rfc3339 = (\<lambda>(idx, it). ''---'' @ [newline] @ announce_header rfc3339 idx it @ [newline] @ ai_prompt it)"

definition build_announce_collect_prompt :: "(int \<Rightarrow> string option) \<Rightarrow> announce_item list \<Rightarrow> string option \<Rightarrow> string option" where
  "build_announce_collect_prompt rfc3339 items summary =
     (if items = [] then None
      else Some (join_with [newline, newline]
        (''[Queued announce messages while agent was busy]'' #
         (case non_empty summary of Some t \<Rightarrow> [t] | None \<Rightarrow> []) @
         map (announce_block rfc3339) (enumerate 0 items))))"

text \<open>The loop with its early return.\<close>

fun cross_channel_from :: "string option \<Rightarrow> bool \<Rightarrow> announce_item list \<Rightarrow> bool" where
  "cross_channel_from seen unkeyed [] = (seen \<noteq> None \<and> unkeyed)"
| "cross_channel_from seen unkeyed (it # rest) =
     (case ai_origin_key it of
        None \<Rightarrow> cross_channel_from seen True rest
      | Some k \<Rightarrow>
          (case seen of
             Some e \<Rightarrow> if e \<noteq> k then True else cross_channel_from seen unkeyed rest
           | None \<Rightarrow> cross_channel_from (Some k) unkeyed rest))"

definition announce_items_cross_channel :: "announce_item list \<Rightarrow> bool" where
  "announce_items_cross_channel = cross_channel_from None False"

section \<open>Announcements that were delivered\<close>

definition ANNOUNCE_IDEMPOTENCY_TTL_MS :: int where "ANNOUNCE_IDEMPOTENCY_TTL_MS = 10 * 60000"
definition ANNOUNCE_EXPIRY_MS :: int where "ANNOUNCE_EXPIRY_MS = 5 * 60000"

definition sweep_announce_delivered :: "int \<Rightarrow> (string, int) hash_map \<Rightarrow> (string, int) hash_map" where
  "sweep_announce_delivered now m =
     hm_retain (\<lambda>_ t. 0 < t \<and> i64_sat_add now (- t) \<le> max ANNOUNCE_IDEMPOTENCY_TTL_MS ANNOUNCE_EXPIRY_MS) m"

definition was_announce_delivered :: "int \<Rightarrow> string \<Rightarrow> (string, int) hash_map \<Rightarrow> bool \<times> (string, int) hash_map" where
  "was_announce_delivered now i m =
     (if trim i = [] then (False, m)
      else let m1 = sweep_announce_delivered now m in (hm_contains_key m1 (trim i), m1))"

definition mark_announce_delivered :: "int \<Rightarrow> string \<Rightarrow> (string, int) hash_map \<Rightarrow> (string, int) hash_map" where
  "mark_announce_delivered now i m =
     (if trim i = [] then m else hm_insert (trim i) now (sweep_announce_delivered now m))"

section \<open>Queueing\<close>

definition overflow_summary :: "announce_item \<Rightarrow> string" where
  "overflow_summary it =
     build_announce_summary_line (case non_empty (ai_summary_line it) of Some l \<Rightarrow> l | None \<Rightarrow> trim (ai_prompt it))"

text \<open>Makes room: the dropped items and the queue without them.\<close>

definition drop_overflow :: "announce_queue \<Rightarrow> announce_item list \<times> announce_queue" where
  "drop_overflow q =
     (let n = length (aq_items q) - aq_cap q + 1;
          dropped = take n (aq_items q);
          q1 = q\<lparr>aq_items := drop n (aq_items q)\<rparr>;
          q2 = (if aq_drop_policy q = AnnSummarize
                then q1\<lparr>aq_dropped_count := sat_add u64_max (aq_dropped_count q) (length dropped),
                        aq_summary_lines := aq_summary_lines q @ map overflow_summary dropped\<rparr>
                else q1)
      in (dropped, q2\<lparr>aq_summary_lines := last_n (aq_cap q) (aq_summary_lines q2)\<rparr>))"

definition configure :: "int \<Rightarrow> announce_settings \<Rightarrow> announce_queue \<Rightarrow> announce_queue" where
  "configure now s q =
     q\<lparr>aq_mode := an_mode s, aq_debounce_ms := max 0 (an_debounce_ms s), aq_cap := max 1 (an_cap s),
       aq_drop_policy := an_drop_policy s, aq_last_enqueued_at_ms := now\<rparr>"

text \<open>The result: accepted, whether a drain task is started, the dropped items and the queue.\<close>

definition enqueue_announce ::
  "int \<Rightarrow> announce_item \<Rightarrow> announce_settings \<Rightarrow> announce_queue option \<Rightarrow> bool \<times> bool \<times> announce_item list \<times> announce_queue" where
  "enqueue_announce now it0 s queue =
     (let it = it0\<lparr>ai_origin_key := build_announce_origin_key (ai_target it0)\<rparr>;
          q0 = (case queue of Some q \<Rightarrow> q | None \<Rightarrow> announce_queue_new s);
          q1 = configure now s q0;
          full = aq_cap q1 \<le> length (aq_items q1);
          accept = (\<not> (full \<and> aq_drop_policy q1 = AnnNew));
          (dropped, q2) = (if full \<and> aq_drop_policy q1 \<noteq> AnnNew then drop_overflow q1 else ([], q1));
          q3 = (if accept then q2\<lparr>aq_items := aq_items q2 @ [it]\<rparr> else q2)
      in (accept, \<not> aq_draining q3, dropped, q3\<lparr>aq_draining := True\<rparr>))"

section \<open>Draining\<close>

datatype drain_work =
    Single announce_item string nat bool
  | CollectAll announce_item string nat bool
  | WorkIdle

text \<open>What the drain task does next with a queue; \<^const>\<open>None\<close> for the \<^verbatim>\<open>continue\<close> that goes back to the top of the loop.\<close>

definition decide_work :: "(int \<Rightarrow> string option) \<Rightarrow> announce_queue \<Rightarrow> drain_work option" where
  "decide_work rfc3339 q =
     (if aq_items q = [] \<and> aq_dropped_count q = 0 then Some WorkIdle
      else let summary = build_announce_queue_summary_prompt q;
               single = (case aq_items q of
                   it # _ \<Rightarrow> Single it (unwrap_or (ai_prompt it) summary) 1 (summary \<noteq> None)
                 | [] \<Rightarrow> WorkIdle)
           in if aq_mode q = AnnCollect \<and> \<not> announce_items_cross_channel (aq_items q) then
                (if aq_items q = [] then None
                 else let it = last (aq_items q)
                      in Some (CollectAll it (unwrap_or (ai_prompt it) (build_announce_collect_prompt rfc3339 (aq_items q) summary))
                           (length (aq_items q)) (summary \<noteq> None)))
              else Some single)"

text \<open>The places between the sections that hold the lock.\<close>

datatype drain_phase =
    NoTask
  | LoopTop
  | Removing
  | Deciding
  | Working drain_work
  | Settling announce_item string bool nat bool

text \<open>What became of an item that left the queue.\<close>

datatype announce_fate = Overflowed | SentIn string | NotSent | Discarded

text \<open>
  The queue of one requester session, its drain task, the delivered announcements, what was sent,
  and, as a record of the history, the items that were accepted and those that left the queue.
\<close>

record announce_state =
  as_queue :: "announce_queue option"
  as_phase :: drain_phase
  as_delivered :: "(string, int) hash_map"
  as_sent :: "(announce_target \<times> string) list"
  as_accepted :: "announce_item list"
  as_gone :: "(announce_item \<times> announce_fate) list"

definition announce_init :: announce_state where
  "announce_init = \<lparr>as_queue = None, as_phase = NoTask, as_delivered = [], as_sent = [], as_accepted = [], as_gone = []\<rparr>"

definition queue_items :: "announce_state \<Rightarrow> announce_item list" where
  "queue_items st = (case as_queue st of None \<Rightarrow> [] | Some q \<Rightarrow> aq_items q)"

definition arrive_announce :: "int \<Rightarrow> announce_item \<Rightarrow> announce_settings \<Rightarrow> announce_state \<Rightarrow> announce_state" where
  "arrive_announce now it s st =
     (case enqueue_announce now it s (as_queue st) of
        (accept, start, dropped, q) \<Rightarrow>
          st\<lparr>as_queue := Some q,
             as_phase := (if start then LoopTop else as_phase st),
             as_accepted := as_accepted st @ (if accept then [it\<lparr>ai_origin_key := build_announce_origin_key (ai_target it)\<rparr>] else []),
             as_gone := as_gone st @ map (\<lambda>i. (i, Overflowed)) dropped\<rparr>)"

definition remove_queue :: "announce_state \<Rightarrow> announce_state" where
  "remove_queue st =
     st\<lparr>as_queue := None, as_phase := NoTask, as_gone := as_gone st @ map (\<lambda>i. (i, Discarded)) (queue_items st)\<rparr>"

text \<open>Sending one announcement: skipped when it was delivered before, failed without a target.\<close>

definition send_work :: "int \<Rightarrow> bool \<Rightarrow> announce_item \<Rightarrow> string \<Rightarrow> nat \<Rightarrow> bool \<Rightarrow> announce_state \<Rightarrow> announce_state" where
  "send_work now sent_ok it p n clear st =
     (case was_announce_delivered now (ai_run_id it) (as_delivered st) of
        (True, m) \<Rightarrow> st\<lparr>as_delivered := m, as_phase := Settling it p True n clear\<rparr>
      | (False, m) \<Rightarrow>
          (case ai_target it of
             None \<Rightarrow> st\<lparr>as_delivered := m, as_phase := Settling it p False n clear\<rparr>
           | Some t \<Rightarrow>
               if sent_ok then
                 st\<lparr>as_delivered := mark_announce_delivered now (ai_run_id it) m, as_sent := as_sent st @ [(t, p)],
                    as_phase := Settling it p True n clear\<rparr>
               else st\<lparr>as_delivered := m, as_phase := Settling it p False n clear\<rparr>))"

definition consumed_fate :: "announce_state \<Rightarrow> announce_item \<Rightarrow> string \<Rightarrow> announce_fate" where
  "consumed_fate st it p =
     (case ai_target it of
        Some t \<Rightarrow> if (t, p) \<in> set (as_sent st) then SentIn p else NotSent
      | None \<Rightarrow> NotSent)"

definition settle :: "int \<Rightarrow> announce_item \<Rightarrow> string \<Rightarrow> bool \<Rightarrow> nat \<Rightarrow> bool \<Rightarrow> announce_state \<Rightarrow> announce_state" where
  "settle now it p ok n clear st =
     (case as_queue st of
        None \<Rightarrow> st\<lparr>as_phase := NoTask\<rparr>
      | Some q \<Rightarrow>
          let q1 = (if ok then
                      let q' = q\<lparr>aq_items := drop n (aq_items q)\<rparr>
                      in if clear then q'\<lparr>aq_dropped_count := 0, aq_summary_lines := []\<rparr> else q'
                    else q\<lparr>aq_last_enqueued_at_ms := now\<rparr>);
              gone = (if ok then map (\<lambda>i. (i, consumed_fate st it p)) (take n (aq_items q)) else []);
              over = (aq_items q1 = [] \<and> aq_dropped_count q1 = 0)
          in st\<lparr>as_queue := (if over then None else Some q1), as_phase := (if over then NoTask else LoopTop),
                as_gone := as_gone st @ gone\<rparr>)"

fun drain_step :: "(int \<Rightarrow> string option) \<Rightarrow> int \<Rightarrow> bool \<Rightarrow> drain_phase \<Rightarrow> announce_state \<Rightarrow> announce_state" where
  "drain_step rfc3339 now sent_ok NoTask st = st"
| "drain_step rfc3339 now sent_ok LoopTop st =
     (case as_queue st of
        None \<Rightarrow> st\<lparr>as_phase := NoTask\<rparr>
      | Some q \<Rightarrow> st\<lparr>as_phase := (if aq_items q = [] \<and> aq_dropped_count q = 0 then Removing else Deciding)\<rparr>)"
| "drain_step rfc3339 now sent_ok Removing st = remove_queue st"
| "drain_step rfc3339 now sent_ok Deciding st =
     (case as_queue st of
        None \<Rightarrow> st\<lparr>as_phase := NoTask\<rparr>
      | Some q \<Rightarrow> st\<lparr>as_phase := (case decide_work rfc3339 q of None \<Rightarrow> LoopTop | Some w \<Rightarrow> Working w)\<rparr>)"
| "drain_step rfc3339 now sent_ok (Working (Single it p n clear)) st = send_work now sent_ok it p n clear st"
| "drain_step rfc3339 now sent_ok (Working (CollectAll it p n clear)) st = send_work now sent_ok it p n clear st"
| "drain_step rfc3339 now sent_ok (Working WorkIdle) st = remove_queue st"
| "drain_step rfc3339 now sent_ok (Settling it p ok n clear) st = settle now it p ok n clear st"

datatype announce_event = Arrive int announce_item announce_settings | Drain int bool

fun announce_exec :: "(int \<Rightarrow> string option) \<Rightarrow> announce_event \<Rightarrow> announce_state \<Rightarrow> announce_state" where
  "announce_exec rfc3339 (Arrive now it s) st = arrive_announce now it s st"
| "announce_exec rfc3339 (Drain now sent_ok) st = drain_step rfc3339 now sent_ok (as_phase st) st"

fun announce_run :: "(int \<Rightarrow> string option) \<Rightarrow> announce_event list \<Rightarrow> announce_state \<Rightarrow> announce_state" where
  "announce_run rfc3339 [] st = st"
| "announce_run rfc3339 (e # es) st = announce_run rfc3339 es (announce_exec rfc3339 e st)"

section \<open>One drain task, in order, within the cap\<close>

definition queue_inv :: "announce_state \<Rightarrow> bool" where
  "queue_inv st =
     ((as_queue st = None \<longleftrightarrow> as_phase st = NoTask) \<and>
      (\<forall>q. as_queue st = Some q \<longrightarrow> aq_draining q) \<and>
      as_accepted st = map fst (as_gone st) @ queue_items st)"

lemma drop_overflow_split:
  "drop_overflow q = (d, q') \<Longrightarrow> d @ aq_items q' = aq_items q \<and> aq_draining q' = aq_draining q"
  by (auto simp: drop_overflow_def Let_def split: if_splits)

lemma configure_simps [simp]:
  "aq_items (configure now s q) = aq_items q" "aq_draining (configure now s q) = aq_draining q"
  "aq_cap (configure now s q) = max 1 (an_cap s)" "aq_drop_policy (configure now s q) = an_drop_policy s"
  "aq_dropped_count (configure now s q) = aq_dropped_count q"
  by (simp_all add: configure_def)

lemma announce_queue_new_simps [simp]:
  "aq_items (announce_queue_new s) = []" "aq_draining (announce_queue_new s) = False"
  "aq_dropped_count (announce_queue_new s) = 0"
  by (simp_all add: announce_queue_new_def)

text \<open>Queueing keeps the order: what was there is dropped from the front or stays, the new item is last.\<close>

lemma enqueue_announce_cases:
  assumes "enqueue_announce now it s queue = (accept, start, dropped, q)"
  shows "dropped @ aq_items q = (case queue of None \<Rightarrow> [] | Some q0 \<Rightarrow> aq_items q0) @
      (if accept then [it\<lparr>ai_origin_key := build_announce_origin_key (ai_target it)\<rparr>] else [])"
    and "aq_draining q" and "start = (case queue of None \<Rightarrow> True | Some q0 \<Rightarrow> \<not> aq_draining q0)"
proof -
  define q0 where "q0 = (case queue of Some q \<Rightarrow> q | None \<Rightarrow> announce_queue_new s)"
  define q1 where "q1 = configure now s q0"
  define full where "full = (aq_cap q1 \<le> length (aq_items q1))"
  obtain d q2 where dq: "(if full \<and> aq_drop_policy q1 \<noteq> AnnNew then drop_overflow q1 else ([], q1)) = (d, q2)" by force
  then have d: "d @ aq_items q2 = aq_items q0" "aq_draining q2 = aq_draining q0"
    using drop_overflow_split [of q1 d q2] by (auto simp: q1_def split: if_splits)
  have "enqueue_announce now it s queue = (\<not> (full \<and> aq_drop_policy q1 = AnnNew), \<not> aq_draining q2, d,
      (if \<not> (full \<and> aq_drop_policy q1 = AnnNew)
       then q2\<lparr>aq_items := aq_items q2 @ [it\<lparr>ai_origin_key := build_announce_origin_key (ai_target it)\<rparr>]\<rparr> else q2)\<lparr>aq_draining := True\<rparr>)"
    unfolding enqueue_announce_def Let_def q0_def [symmetric] q1_def [symmetric] full_def [symmetric] dq by simp
  then have res: "dropped = d" "start = (\<not> aq_draining q2)"
    "q = (if accept then q2\<lparr>aq_items := aq_items q2 @ [it\<lparr>ai_origin_key := build_announce_origin_key (ai_target it)\<rparr>]\<rparr> else q2)\<lparr>aq_draining := True\<rparr>"
    using assms by (simp_all del: de_Morgan_conj)
  show "dropped @ aq_items q = (case queue of None \<Rightarrow> [] | Some q0 \<Rightarrow> aq_items q0) @
      (if accept then [it\<lparr>ai_origin_key := build_announce_origin_key (ai_target it)\<rparr>] else [])"
    using d by (auto simp: res q0_def split: option.splits)
  show "aq_draining q" by (simp add: res)
  show "start = (case queue of None \<Rightarrow> True | Some q0 \<Rightarrow> \<not> aq_draining q0)"
    by (simp add: res d q0_def split: option.split)
qed

lemma arrive_queue_inv: "queue_inv st \<Longrightarrow> queue_inv (arrive_announce now it s st)"
proof -
  assume inv: "queue_inv st"
  obtain accept start dropped q where e: "enqueue_announce now it s (as_queue st) = (accept, start, dropped, q)"
    by (metis prod_cases4)
  note c = enqueue_announce_cases [OF e]
  have "map fst (as_gone st) @ (dropped @ aq_items q) =
      as_accepted st @ (if accept then [it\<lparr>ai_origin_key := build_announce_origin_key (ai_target it)\<rparr>] else [])"
    unfolding c(1) using inv by (auto simp: queue_inv_def queue_items_def split: option.split)
  moreover have "(if start then LoopTop else as_phase st) \<noteq> NoTask"
    using inv c(3) by (auto simp: queue_inv_def split: option.splits)
  ultimately show ?thesis
    using c(2) by (auto simp: arrive_announce_def e queue_inv_def queue_items_def o_def)
qed

lemma remove_queue_inv: "queue_inv st \<Longrightarrow> queue_inv (remove_queue st)"
  by (auto simp: queue_inv_def remove_queue_def queue_items_def o_def split: option.splits)

lemma send_work_same:
  "as_queue (send_work now b it p n c st) = as_queue st"
  "as_accepted (send_work now b it p n c st) = as_accepted st"
  "as_gone (send_work now b it p n c st) = as_gone st"
  "\<exists>ok. as_phase (send_work now b it p n c st) = Settling it p ok n c"
  by (auto simp: send_work_def split: prod.splits bool.splits option.splits)

lemma settle_queue_inv: "queue_inv st \<Longrightarrow> queue_inv (settle now it p ok n c st)"
  by (auto simp: queue_inv_def settle_def queue_items_def Let_def o_def split: option.splits if_splits)

lemma phase_change_inv:
  "queue_inv st \<Longrightarrow> as_phase st \<noteq> NoTask \<Longrightarrow> ph \<noteq> NoTask \<Longrightarrow> queue_inv (st\<lparr>as_phase := ph\<rparr>)"
  by (simp add: queue_inv_def queue_items_def)

lemma send_work_inv:
  assumes "queue_inv st" "as_phase st \<noteq> NoTask"
  shows "queue_inv (send_work now b it p n c st)"
proof -
  obtain ok where "as_phase (send_work now b it p n c st) = Settling it p ok n c" using send_work_same(4) by blast
  with assms show ?thesis by (simp add: queue_inv_def queue_items_def send_work_same)
qed

lemma active_queue: "queue_inv st \<Longrightarrow> as_phase st \<noteq> NoTask \<Longrightarrow> \<exists>q. as_queue st = Some q"
  by (cases "as_queue st") (auto simp: queue_inv_def)

lemma drain_queue_inv:
  assumes inv: "queue_inv st" and ph: "as_phase st = ph"
  shows "queue_inv (drain_step rfc3339 now b ph st)"
proof (cases ph)
  case NoTask
  with inv show ?thesis by simp
next
  case LoopTop
  obtain q where q: "as_queue st = Some q" using active_queue [OF inv] LoopTop ph by auto
  show ?thesis using phase_change_inv [OF inv] LoopTop ph by (simp add: q)
next
  case Removing
  with remove_queue_inv [OF inv] show ?thesis by simp
next
  case Deciding
  obtain q where q: "as_queue st = Some q" using active_queue [OF inv] Deciding ph by auto
  show ?thesis using phase_change_inv [OF inv] Deciding ph by (simp add: q split: option.split)
next
  case (Working w)
  then show ?thesis using send_work_inv [OF inv] remove_queue_inv [OF inv] ph by (cases w) simp_all
next
  case (Settling it p ok n c)
  with settle_queue_inv [OF inv] show ?thesis by simp
qed

lemma exec_queue_inv: "queue_inv st \<Longrightarrow> queue_inv (announce_exec rfc3339 e st)"
  by (cases e) (simp_all add: arrive_queue_inv drain_queue_inv)

lemma init_queue_inv: "queue_inv announce_init"
  by (simp add: queue_inv_def announce_init_def queue_items_def)

interpretation announce: invariant_system "\<lambda>st. st = announce_init" "\<lambda>st st'. \<exists>e. st' = announce_exec rfc3339 e st" queue_inv
  by unfold_locales (auto simp: init_queue_inv intro: exec_queue_inv)

lemma run_steps: "(\<lambda>st st'. \<exists>e. st' = announce_exec rfc3339 e st)\<^sup>*\<^sup>* st (announce_run rfc3339 es st)"
  by (induction es arbitrary: st) (auto intro: converse_rtranclp_into_rtranclp)

lemma run_queue_inv: "queue_inv (announce_run rfc3339 es announce_init)"
  using announce.reachable_inv [OF refl run_steps] .

fun cap_within :: "nat \<Rightarrow> announce_event \<Rightarrow> bool" where
  "cap_within c (Arrive now it s) = (an_cap s \<le> c)"
| "cap_within c (Drain now b) = True"

lemma length_drop_overflow:
  "drop_overflow q = (d, q') \<Longrightarrow> 1 \<le> aq_cap q \<Longrightarrow> aq_cap q \<le> length (aq_items q) \<Longrightarrow> Suc (length (aq_items q')) = aq_cap q"
  by (auto simp: drop_overflow_def Let_def split: if_splits)

lemma enqueue_length:
  assumes "enqueue_announce now it s queue = (accept, start, dropped, q)"
    and "length (case queue of None \<Rightarrow> [] | Some q0 \<Rightarrow> aq_items q0) \<le> c" "an_cap s \<le> c" "1 \<le> c"
  shows "length (aq_items q) \<le> c"
proof -
  define q1 where "q1 = configure now s (case queue of Some q \<Rightarrow> q | None \<Rightarrow> announce_queue_new s)"
  have l: "length (aq_items q1) \<le> c" "aq_cap q1 \<le> c" "1 \<le> aq_cap q1"
    using assms(2-4) by (auto simp: q1_def split: option.splits)
  obtain d q2 where dq: "(if aq_cap q1 \<le> length (aq_items q1) \<and> aq_drop_policy q1 \<noteq> AnnNew then drop_overflow q1 else ([], q1)) = (d, q2)"
    by force
  have items: "aq_items q = aq_items q2 @ (if aq_cap q1 \<le> length (aq_items q1) \<and> aq_drop_policy q1 = AnnNew then []
      else [it\<lparr>ai_origin_key := build_announce_origin_key (ai_target it)\<rparr>])"
    using assms(1) unfolding enqueue_announce_def Let_def q1_def [symmetric] dq by (auto split: if_splits)
  show ?thesis
    using l dq length_drop_overflow [of q1 d q2] unfolding items by (auto split: if_splits)
qed

lemma exec_length:
  assumes "length (queue_items st) \<le> c" "1 \<le> c" "cap_within c e"
  shows "length (queue_items (announce_exec rfc3339 e st)) \<le> c"
proof (cases e)
  case (Arrive now it s)
  obtain accept start dropped q where en: "enqueue_announce now it s (as_queue st) = (accept, start, dropped, q)"
    by (metis prod_cases4)
  then show ?thesis
    using enqueue_length [OF en, of c] assms Arrive by (simp add: arrive_announce_def queue_items_def)
next
  case (Drain now b)
  have settle: "length (queue_items (settle now it p ok n cl st)) \<le> c" for it p ok n cl
    using assms(1) by (auto simp: settle_def queue_items_def Let_def split: option.splits)
  have send: "queue_items (send_work now b it p n cl st) = queue_items st" for it p n cl
    by (simp add: queue_items_def send_work_same)
  have "length (queue_items (drain_step rfc3339 now b ph st)) \<le> c" for ph
  proof (cases ph)
    case (Working w)
    then show ?thesis using assms(1) by (cases w) (simp_all add: send_work_same remove_queue_def queue_items_def)
  qed (use assms(1) settle in \<open>auto simp: remove_queue_def queue_items_def split: option.splits\<close>)
  with Drain show ?thesis by simp
qed

lemma run_length:
  "length (queue_items st) \<le> c \<Longrightarrow> 1 \<le> c \<Longrightarrow> list_all (cap_within c) es \<Longrightarrow>
   length (queue_items (announce_run rfc3339 es st)) \<le> c"
  by (induction es arbitrary: st) (auto simp: exec_length)

section \<open>Nothing is lost while the cap is not met\<close>

definition run_key :: "announce_item \<Rightarrow> string" where
  "run_key it = trim (ai_run_id it)"

text \<open>An announcement arrives calmly when there is room for it and its run was not announced before.\<close>

fun calm_event :: "announce_state \<Rightarrow> announce_event \<Rightarrow> bool" where
  "calm_event st (Arrive now it s) =
     (length (queue_items st) < max 1 (an_cap s) \<and> run_key it \<noteq> [] \<and> run_key it \<notin> run_key ` set (as_accepted st))"
| "calm_event st (Drain now b) = True"

fun calm_run :: "(int \<Rightarrow> string option) \<Rightarrow> announce_event list \<Rightarrow> announce_state \<Rightarrow> bool" where
  "calm_run rfc3339 [] st = True"
| "calm_run rfc3339 (e # es) st = (calm_event st e \<and> calm_run rfc3339 es (announce_exec rfc3339 e st))"

text \<open>The text \<open>p\<close> shows the announcement, and was sent where it belongs.\<close>

definition displays :: "string \<Rightarrow> announce_item \<Rightarrow> bool" where
  "displays p it = (\<exists>u v. p = u @ ai_prompt it @ v)"

definition sent_to_origin :: "announce_state \<Rightarrow> string \<Rightarrow> announce_item \<Rightarrow> bool" where
  "sent_to_origin st p it = (\<exists>t. (t, p) \<in> set (as_sent st) \<and> build_announce_origin_key (Some t) = ai_origin_key it)"

definition same_origin :: "announce_item \<Rightarrow> announce_item \<Rightarrow> bool" where
  "same_origin a b = (ai_origin_key a = ai_origin_key b)"

text \<open>What a work item promises: a message that shows the first \<open>n\<close> items of the queue, all of one origin.\<close>

definition work_ok :: "announce_item list \<Rightarrow> announce_item \<Rightarrow> string \<Rightarrow> nat \<Rightarrow> bool" where
  "work_ok items it p n =
     (0 < n \<and> n \<le> length items \<and> it \<in> set (take n items) \<and> (\<forall>i\<in>set (take n items). displays p i \<and> same_origin it i))"

fun phase_ok :: "announce_state \<Rightarrow> drain_phase \<Rightarrow> bool" where
  "phase_ok st NoTask = True"
| "phase_ok st LoopTop = (queue_items st \<noteq> [])"
| "phase_ok st Deciding = (queue_items st \<noteq> [])"
| "phase_ok st Removing = False"
| "phase_ok st (Working (Single it p n c)) = work_ok (queue_items st) it p n"
| "phase_ok st (Working (CollectAll it p n c)) = work_ok (queue_items st) it p n"
| "phase_ok st (Working WorkIdle) = False"
| "phase_ok st (Settling it p ok n c) =
     (work_ok (queue_items st) it p n \<and> (ok \<longrightarrow> (\<exists>t. ai_target it = Some t \<and> (t, p) \<in> set (as_sent st))))"

definition settled :: "announce_state \<Rightarrow> string set" where
  "settled st = run_key ` fst ` set (as_gone st) \<union>
     (case as_phase st of Settling it p ok n c \<Rightarrow> if ok then {run_key it} else {} | _ \<Rightarrow> {})"

definition calm_inv :: "announce_state \<Rightarrow> bool" where
  "calm_inv st =
     (queue_inv st \<and> phase_ok st (as_phase st) \<and>
      (\<forall>q. as_queue st = Some q \<longrightarrow> aq_dropped_count q = 0) \<and>
      distinct (map run_key (as_accepted st)) \<and> (\<forall>i\<in>set (as_accepted st). run_key i \<noteq> []) \<and>
      (\<forall>i\<in>set (as_accepted st). ai_origin_key i = build_announce_origin_key (ai_target i)) \<and>
      fst ` set (as_delivered st) \<subseteq> settled st \<and>
      (\<forall>(i, f)\<in>set (as_gone st). \<exists>p. f = SentIn p \<and> displays p i \<and> sent_to_origin st p i))"

lemma mixed_is_cross: "cross_channel_from (Some e) True rest"
  by (induction rest) (auto split: option.split)

lemma single_origin:
  "\<not> cross_channel_from seen u items \<Longrightarrow>
   \<exists>k. (\<forall>i\<in>set items. ai_origin_key i = k) \<and> (seen \<noteq> None \<longrightarrow> k = seen) \<and> (u \<and> seen = None \<longrightarrow> k = None)"
proof (induction seen u items rule: cross_channel_from.induct)
  case (1 seen u)
  show ?case by (rule exI [of _ seen]) simp
next
  case (2 seen u it rest)
  show ?case
  proof (cases "ai_origin_key it")
    case None
    then have ih: "\<not> cross_channel_from seen True rest" using 2(4) by simp
    have "seen = None" using ih mixed_is_cross by (cases seen) auto
    then obtain k where "\<forall>i\<in>set rest. ai_origin_key i = k" "k = None" using 2(1) [OF None ih] by auto
    with None \<open>seen = None\<close> show ?thesis by (intro exI [of _ None]) simp
  next
    case (Some k)
    show ?thesis
    proof (cases seen)
      case None
      then have ih: "\<not> cross_channel_from (Some k) u rest" using 2(4) Some by simp
      then have "\<not> u" using mixed_is_cross by (cases u) auto
      moreover have "\<forall>i\<in>set rest. ai_origin_key i = Some k" using 2(2) [OF Some None ih] by auto
      ultimately show ?thesis using None Some by (intro exI [of _ "Some k"]) simp
    next
      case e: (Some e)
      then have ek: "e = k" and ih: "\<not> cross_channel_from seen u rest" using 2(4) Some by (auto split: if_splits)
      then have "\<forall>i\<in>set rest. ai_origin_key i = Some k" using 2(3) [OF Some e] e by auto
      then show ?thesis using e ek Some by (intro exI [of _ "Some k"]) simp
    qed
  qed
qed

text \<open>The messages show what they are made for.\<close>

lemma displays_refl: "displays (ai_prompt it) it"
  unfolding displays_def by (metis append.left_neutral append_Nil2)

lemma join_with_mem: "x \<in> set xs \<Longrightarrow> \<exists>u v. join_with sep xs = u @ x @ v"
proof (induction xs)
  case (Cons y ys)
  show ?case
  proof (cases ys)
    case Nil
    with Cons show ?thesis by (metis append_Nil append_Nil2 empty_iff empty_set join_with.simps(2) set_ConsD)
  next
    case (Cons z zs)
    have eq: "join_with sep (y # ys) = y @ sep @ join_with sep ys" by (simp add: Cons)
    show ?thesis
    proof (cases "x = y")
      case True
      then show ?thesis unfolding eq by (metis append_Nil)
    next
      case False
      then obtain u v where "join_with sep ys = u @ x @ v" using Cons.IH Cons.prems by auto
      then have "join_with sep (y # ys) = (y @ sep @ u) @ x @ v" by (simp add: eq)
      then show ?thesis by blast
    qed
  qed
qed simp

lemma collect_displays:
  assumes "build_announce_collect_prompt rfc3339 items summary = Some p" "it \<in> set items"
  shows "displays p it"
proof -
  obtain n where "n < length items" "items ! n = it" using assms(2) by (auto simp: in_set_conv_nth)
  then have "(n, it) \<in> set (enumerate 0 items)" by (auto simp: in_set_enumerate_eq)
  then have "announce_block rfc3339 (n, it) \<in> set (map (announce_block rfc3339) (enumerate 0 items))" by force
  moreover obtain hd_blocks where "p = join_with [newline, newline] (hd_blocks @ map (announce_block rfc3339) (enumerate 0 items))"
  proof
    show "p = join_with [newline, newline] ((''[Queued announce messages while agent was busy]'' #
        (case non_empty summary of Some t \<Rightarrow> [t] | None \<Rightarrow> [])) @ map (announce_block rfc3339) (enumerate 0 items))"
      using assms(1) by (simp add: build_announce_collect_prompt_def split: if_splits)
  qed
  ultimately obtain u v where "p = u @ announce_block rfc3339 (n, it) @ v"
    using join_with_mem [of "announce_block rfc3339 (n, it)"] by (metis Un_iff set_append)
  then have "p = (u @ ''---'' @ [newline] @ announce_header rfc3339 n it @ [newline]) @ ai_prompt it @ v"
    by (simp add: announce_block_def)
  then show ?thesis unfolding displays_def by blast
qed

fun work_fits :: "announce_item list \<Rightarrow> drain_work \<Rightarrow> bool" where
  "work_fits items (Single it p n c) = work_ok items it p n"
| "work_fits items (CollectAll it p n c) = work_ok items it p n"
| "work_fits items WorkIdle = False"

lemma phase_ok_Working: "phase_ok st (Working w) = work_fits (queue_items st) w"
  by (cases w) simp_all

lemma decide_work_fits:
  assumes "aq_items q \<noteq> []" "aq_dropped_count q = 0"
  shows "\<exists>w. decide_work rfc3339 q = Some w \<and> work_fits (aq_items q) w"
proof -
  have summary: "build_announce_queue_summary_prompt q = None" using assms(2) by (simp add: build_announce_queue_summary_prompt_def)
  show ?thesis
  proof (cases "aq_mode q = AnnCollect \<and> \<not> announce_items_cross_channel (aq_items q)")
    case True
    obtain p where p: "build_announce_collect_prompt rfc3339 (aq_items q) None = Some p"
      using assms(1) by (simp add: build_announce_collect_prompt_def)
    obtain k where "\<forall>i\<in>set (aq_items q). ai_origin_key i = k"
      using single_origin [of None False] True unfolding announce_items_cross_channel_def by blast
    then have "same_origin (last (aq_items q)) i" if "i \<in> set (aq_items q)" for i
      using that assms(1) by (simp add: same_origin_def)
    with collect_displays [OF p] assms(1) have "work_ok (aq_items q) (last (aq_items q)) p (length (aq_items q))"
      by (simp add: work_ok_def)
    with True assms(1) show ?thesis by (simp add: decide_work_def Let_def summary p unwrap_or_def)
  next
    case False
    obtain it rest where items: "aq_items q = it # rest" using assms(1) by (cases "aq_items q") auto
    have "work_ok (aq_items q) it (ai_prompt it) 1" by (simp add: work_ok_def items displays_refl same_origin_def)
    moreover have "decide_work rfc3339 q = Some (Single it (ai_prompt it) 1 False)"
      unfolding decide_work_def Let_def summary using False by (auto simp: items unwrap_or_def)
    ultimately show ?thesis by simp
  qed
qed

lemma work_ok_append: "work_ok items it p n \<Longrightarrow> work_ok (items @ xs) it p n"
  by (simp add: work_ok_def)

lemma phase_ok_append:
  assumes "phase_ok st ph" "queue_items st' = queue_items st @ xs" "as_sent st' = as_sent st"
  shows "phase_ok st' ph"
proof (cases ph)
  case (Working w)
  with assms show ?thesis by (cases w) (simp_all add: work_ok_append)
qed (use assms in \<open>auto simp: work_ok_append\<close>)

text \<open>A calm arrival appends the item and drops nothing.\<close>

lemma enqueue_calm:
  assumes "length (case queue of None \<Rightarrow> [] | Some q0 \<Rightarrow> aq_items q0) < max 1 (an_cap s)"
    and "enqueue_announce now it s queue = (accept, start, dropped, q)"
  shows "accept" "dropped = []"
    and "aq_dropped_count q = (case queue of None \<Rightarrow> 0 | Some q0 \<Rightarrow> aq_dropped_count q0)"
proof -
  define q1 where "q1 = configure now s (case queue of Some q \<Rightarrow> q | None \<Rightarrow> announce_queue_new s)"
  have room: "\<not> aq_cap q1 \<le> length (aq_items q1)" using assms(1) by (auto simp: q1_def split: option.splits)
  have eq: "enqueue_announce now it s queue = (True, \<not> aq_draining q1, [],
      q1\<lparr>aq_items := aq_items q1 @ [it\<lparr>ai_origin_key := build_announce_origin_key (ai_target it)\<rparr>], aq_draining := True\<rparr>)"
    unfolding enqueue_announce_def Let_def q1_def [symmetric] using room by simp
  show "accept" "dropped = []" using assms(2) unfolding eq by auto
  have "aq_dropped_count q = aq_dropped_count q1" using assms(2) unfolding eq by auto
  then show "aq_dropped_count q = (case queue of None \<Rightarrow> 0 | Some q0 \<Rightarrow> aq_dropped_count q0)"
    by (simp add: q1_def split: option.split)
qed

lemma sent_to_origin_mono:
  "sent_to_origin st p i \<Longrightarrow> set (as_sent st) \<subseteq> set (as_sent st') \<Longrightarrow> sent_to_origin st' p i"
  by (auto simp: sent_to_origin_def)

lemma arrive_calm_inv:
  assumes inv: "calm_inv st" and calm: "calm_event st (Arrive now it s)"
  shows "calm_inv (arrive_announce now it s st)"
proof -
  define it' where "it' = it\<lparr>ai_origin_key := build_announce_origin_key (ai_target it)\<rparr>"
  define st' where "st' = arrive_announce now it s st"
  obtain accept start dropped q where e: "enqueue_announce now it s (as_queue st) = (accept, start, dropped, q)"
    by (metis prod_cases4)
  have room: "length (case as_queue st of None \<Rightarrow> [] | Some q0 \<Rightarrow> aq_items q0) < max 1 (an_cap s)"
    using calm by (simp add: queue_items_def)
  note c = enqueue_announce_cases [OF e] enqueue_calm [OF room e]
  have items: "queue_items st' = queue_items st @ [it']"
    using c(1,4,5) by (simp add: st'_def arrive_announce_def e queue_items_def it'_def)
  have phase: "as_phase st' = (if as_queue st = None then LoopTop else as_phase st)"
    using c(3) inv by (auto simp: st'_def arrive_announce_def e calm_inv_def queue_inv_def split: option.splits)
  have fields: "as_accepted st' = as_accepted st @ [it']" "as_gone st' = as_gone st" "as_sent st' = as_sent st"
    "as_delivered st' = as_delivered st" "as_queue st' = Some q"
    using c(4,5) by (simp_all add: st'_def arrive_announce_def e it'_def)
  have key: "run_key it' = run_key it" by (simp add: run_key_def it'_def)
  have "queue_inv st'" unfolding st'_def using arrive_queue_inv inv by (simp add: calm_inv_def)
  moreover have "phase_ok st' (as_phase st')"
    using phase_ok_append [OF _ items fields(3), of "as_phase st"] inv by (auto simp: calm_inv_def phase items)
  moreover have "aq_dropped_count q = 0" using c(6) inv by (auto simp: calm_inv_def split: option.splits)
  moreover have "settled st' = settled st"
    using inv by (auto simp: settled_def fields phase calm_inv_def queue_inv_def)
  moreover have "run_key it' \<notin> set (map run_key (as_accepted st))" "run_key it' \<noteq> []" using calm key by auto
  moreover have "ai_origin_key it' = build_announce_origin_key (ai_target it')" by (simp add: it'_def)
  moreover have "sent_to_origin st' p i = sent_to_origin st p i" for p i by (simp add: sent_to_origin_def fields)
  ultimately have "calm_inv st'" using inv unfolding calm_inv_def fields by auto
  then show ?thesis by (simp add: st'_def)
qed

lemma sweep_keys: "fst ` set (sweep_announce_delivered now m) \<subseteq> fst ` set m"
  by (auto simp: sweep_announce_delivered_def hm_retain_def)

text \<open>An item in the queue was not delivered before.\<close>

lemma queued_not_settled:
  assumes "queue_inv st" "distinct (map run_key (as_accepted st))" "it \<in> set (queue_items st)"
  shows "run_key it \<notin> run_key ` fst ` set (as_gone st)"
proof -
  have "as_accepted st = map fst (as_gone st) @ queue_items st" using assms(1) by (simp add: queue_inv_def)
  with assms(2,3) show ?thesis by auto
qed

lemma send_calm_inv:
  assumes inv: "calm_inv st" and ph: "as_phase st = Working w" and work: "work_ok (queue_items st) it p n"
  shows "calm_inv (send_work now b it p n c st)"
proof -
  let ?st = "send_work now b it p n c st"
  have it: "it \<in> set (queue_items st)" using work by (auto simp: work_ok_def dest: in_set_takeD)
  have I: "queue_inv st" "distinct (map run_key (as_accepted st))" "\<forall>i\<in>set (as_accepted st). run_key i \<noteq> []"
    "fst ` set (as_delivered st) \<subseteq> run_key ` fst ` set (as_gone st)"
    using inv ph by (simp_all add: calm_inv_def settled_def)
  have key: "trim (ai_run_id it) = run_key it" by (simp add: run_key_def)
  have "it \<in> set (as_accepted st)" using I(1) it by (simp add: queue_inv_def)
  then have nonempty: "run_key it \<noteq> []" using I(3) by blast
  define m where "m = sweep_announce_delivered now (as_delivered st)"
  have keys: "fst ` set m \<subseteq> run_key ` fst ` set (as_gone st)" unfolding m_def using sweep_keys I(4) by blast
  have "run_key it \<notin> fst ` set m" using queued_not_settled [OF I(1,2) it] keys by blast
  then have "map_of m (run_key it) = None" by (simp add: map_of_eq_None_iff)
  then have was: "was_announce_delivered now (ai_run_id it) (as_delivered st) = (False, m)"
    using nonempty by (simp add: was_announce_delivered_def key m_def Let_def)
  have inv': "queue_inv ?st" by (rule send_work_inv [OF I(1)]) (simp add: ph)
  have same: "as_accepted ?st = as_accepted st" "as_gone ?st = as_gone st" "as_queue ?st = as_queue st"
    "queue_items ?st = queue_items st"
    by (simp_all add: send_work_same queue_items_def)
  have mark: "fst ` set (mark_announce_delivered now (ai_run_id it) m) \<subseteq> insert (run_key it) (run_key ` fst ` set (as_gone st))"
    unfolding mark_announce_delivered_def key if_not_P [OF nonempty] dom_update using sweep_keys [of now m] keys by blast
  have sent: "set (as_sent st) \<subseteq> set (as_sent ?st)" and phase: "phase_ok ?st (as_phase ?st)"
    using work same(4) by (auto simp: send_work_def was queue_items_def split: option.splits)
  have delivered: "fst ` set (as_delivered ?st) \<subseteq> settled ?st"
    using keys mark by (simp add: send_work_def was settled_def split: option.split) 
  show ?thesis unfolding calm_inv_def same
    using inv inv' phase delivered sent_to_origin_mono [OF _ sent] unfolding calm_inv_def by fast
qed

lemma settle_calm_inv:
  assumes inv: "calm_inv st" and ph: "as_phase st = Settling it p ok n c"
  shows "calm_inv (settle now it p ok n c st)"
proof -
  let ?st = "settle now it p ok n c st"
  have I: "queue_inv st" "work_ok (queue_items st) it p n"
    "ok \<Longrightarrow> \<exists>t. ai_target it = Some t \<and> (t, p) \<in> set (as_sent st)"
    using inv ph by (simp_all add: calm_inv_def)
  obtain q where q: "as_queue st = Some q" using active_queue [OF I(1)] ph by auto
  have dropped: "aq_dropped_count q = 0" using inv q by (simp add: calm_inv_def)
  have items: "queue_items st = aq_items q" by (simp add: queue_items_def q)
  have n: "0 < n" "n \<le> length (aq_items q)" using I(2) by (auto simp: work_ok_def items)
  have inv': "queue_inv ?st" by (rule settle_queue_inv [OF I(1)])
  have same: "as_accepted ?st = as_accepted st" "as_sent ?st = as_sent st" "as_delivered ?st = as_delivered st"
    by (simp_all add: settle_def q Let_def)
  have origin: "sent_to_origin ?st r i = sent_to_origin st r i" for r i by (simp add: sent_to_origin_def same)
  have gone: "as_gone ?st = as_gone st @ (if ok then map (\<lambda>i. (i, SentIn p)) (take n (aq_items q)) else [])"
    using I(3) by (auto simp: settle_def q Let_def consumed_fate_def)
  have queue: "\<forall>q'. as_queue ?st = Some q' \<longrightarrow> aq_dropped_count q' = 0" and phase: "phase_ok ?st (as_phase ?st)"
    using dropped n by (auto simp: settle_def q Let_def queue_items_def)
  have settled: "settled st \<subseteq> settled ?st"
  proof -
    have "it \<in> set (take n (aq_items q))" using I(2) by (simp add: work_ok_def items)
    then have "(it, SentIn p) \<in> set (as_gone ?st)" if ok unfolding gone using that by simp
    then have "run_key (fst (it, SentIn p)) \<in> run_key ` fst ` set (as_gone ?st)" if ok using that by blast
    moreover have "set (as_gone st) \<subseteq> set (as_gone ?st)" by (simp add: gone)
    then have "run_key ` fst ` set (as_gone st) \<subseteq> run_key ` fst ` set (as_gone ?st)" by (intro image_mono)
    moreover have "settled st = run_key ` fst ` set (as_gone st) \<union> (if ok then {run_key it} else {})"
      by (simp add: settled_def ph)
    ultimately have "settled st \<subseteq> run_key ` fst ` set (as_gone ?st)" by (cases ok) simp_all
    then show ?thesis unfolding settled_def [of ?st] by blast
  qed
  have new: "displays p i \<and> sent_to_origin st p i" if prem: "ok" "i \<in> set (take n (aq_items q))" for i
  proof -
    obtain t where t: "ai_target it = Some t" "(t, p) \<in> set (as_sent st)" using I(3) prem(1) by blast
    have "it \<in> set (take n (aq_items q))" using I(2) by (simp add: work_ok_def items)
    then have "it \<in> set (as_accepted st)" using I(1) items by (auto simp: queue_inv_def dest: in_set_takeD)
    then have "ai_origin_key it = build_announce_origin_key (Some t)" using inv t(1) by (simp add: calm_inv_def)
    moreover have "displays p i" "same_origin it i" using I(2) prem(2) by (simp_all add: work_ok_def items)
    ultimately show ?thesis using t(2) by (auto simp: sent_to_origin_def same_origin_def)
  qed
  have all_sent: "\<forall>(i, f)\<in>set (as_gone ?st). \<exists>r. f = SentIn r \<and> displays r i \<and> sent_to_origin ?st r i"
    using inv new unfolding gone origin calm_inv_def by auto
  show ?thesis unfolding calm_inv_def same(1,3)
    using inv inv' queue phase settled all_sent unfolding calm_inv_def by fast
qed

lemma phase_step_calm:
  assumes "calm_inv st" "as_phase st \<in> {LoopTop, Deciding}" "phase_ok st ph" "ph \<in> {LoopTop, Deciding} \<union> range Working"
  shows "calm_inv (st\<lparr>as_phase := ph\<rparr>)"
proof -
  have ph: "phase_ok (st\<lparr>as_phase := ph\<rparr>) ph" using phase_ok_append [OF assms(3), of "st\<lparr>as_phase := ph\<rparr>" "[]"]
    by (simp add: queue_items_def)
  have "settled (st\<lparr>as_phase := ph\<rparr>) = settled st" using assms(2,4) by (auto simp: settled_def)
  moreover have "queue_inv (st\<lparr>as_phase := ph\<rparr>)" using assms(1,2,4) by (intro phase_change_inv) (auto simp: calm_inv_def)
  ultimately show ?thesis using assms(1) ph by (simp add: calm_inv_def sent_to_origin_def)
qed

lemma drain_calm_inv:
  assumes inv: "calm_inv st" and ph: "as_phase st = ph"
  shows "calm_inv (drain_step rfc3339 now b ph st)"
proof (cases ph)
  case NoTask
  with inv show ?thesis by simp
next
  case LoopTop
  obtain q where q: "as_queue st = Some q" using active_queue [of st] inv LoopTop ph by (auto simp: calm_inv_def)
  have "aq_items q \<noteq> []" using inv ph LoopTop by (simp add: calm_inv_def queue_items_def q)
  then show ?thesis using phase_step_calm [OF inv, of Deciding] ph LoopTop by (simp add: q queue_items_def)
next
  case Removing
  with inv ph show ?thesis by (simp add: calm_inv_def)
next
  case Deciding
  obtain q where q: "as_queue st = Some q" using active_queue [of st] inv Deciding ph by (auto simp: calm_inv_def)
  have "aq_items q \<noteq> []" "aq_dropped_count q = 0" using inv ph Deciding by (simp_all add: calm_inv_def queue_items_def q)
  then obtain w where w: "decide_work rfc3339 q = Some w" "work_fits (aq_items q) w" using decide_work_fits by blast
  then have "phase_ok st (Working w)" by (simp add: phase_ok_Working queue_items_def q)
  then show ?thesis using phase_step_calm [OF inv, of "Working w"] ph Deciding by (simp add: q w)
next
  case (Working w)
  then have "work_fits (queue_items st) w" using inv ph by (simp add: calm_inv_def phase_ok_Working)
  then show ?thesis using send_calm_inv [OF inv, of w] ph Working by (cases w) auto
next
  case (Settling it p ok n c)
  with settle_calm_inv [OF inv, of it p ok n c now] ph show ?thesis by simp
qed

lemma calm_run_inv: "calm_inv st \<Longrightarrow> calm_run rfc3339 es st \<Longrightarrow> calm_inv (announce_run rfc3339 es st)"
proof (induction es arbitrary: st)
  case (Cons e es)
  have "calm_inv (announce_exec rfc3339 e st)"
    using Cons.prems by (cases e) (auto intro!: arrive_calm_inv drain_calm_inv simp del: calm_event.simps)
  then show ?case using Cons by simp
qed simp

lemma calm_init: "calm_inv announce_init"
  using init_queue_inv by (simp add: calm_inv_def announce_init_def settled_def)

section \<open>Properties\<close>

text \<open>C21: In every reachable state of the announcement queue a queue exists exactly while one drain task works on it, the
  announcements leave the queue in the order in which they were accepted, each with a recorded fate, and when no settings
  ask for a cap above \<open>c\<close> the queue never holds more than \<open>c\<close>.
\<close>

theorem announce_queue_sound:
  assumes "list_all (cap_within c) es" and "1 \<le> c"
  shows "let st = announce_run rfc3339 es announce_init in
    (as_queue st = None \<longleftrightarrow> as_phase st = NoTask) \<and>
    as_accepted st = map fst (as_gone st) @ queue_items st \<and> length (queue_items st) \<le> c"
proof -
  have "length (queue_items announce_init) \<le> c" by (simp add: queue_items_def announce_init_def)
  then show ?thesis
    using run_queue_inv [of rfc3339 es] run_length [OF _ assms(2,1)] by (simp add: Let_def queue_inv_def)
qed

text \<open>C20: As long as no announcement meets a full queue and no run is announced twice, nothing is lost: every announcement that was accepted
  is still queued or was sent, in a message that shows its whole text, to the channel it belongs to, whatever
  sends fail on the way and however the arrivals interleave with the drain task.
\<close>

theorem announcements_delivered:
  assumes "calm_run rfc3339 es announce_init" and "it \<in> set (as_accepted (announce_run rfc3339 es announce_init))"
  shows "let st = announce_run rfc3339 es announce_init in
    it \<in> set (queue_items st) \<or> (\<exists>p. displays p it \<and> sent_to_origin st p it)"
proof -
  let ?st = "announce_run rfc3339 es announce_init"
  have inv: "calm_inv ?st" using calm_run_inv [OF calm_init assms(1)] .
  have sent: "\<exists>p. displays p i \<and> sent_to_origin ?st p i" if "(i, f) \<in> set (as_gone ?st)" for i f
  proof -
    have "\<forall>(i, f)\<in>set (as_gone ?st). \<exists>p. f = SentIn p \<and> displays p i \<and> sent_to_origin ?st p i"
      using inv by (simp add: calm_inv_def)
    with that show ?thesis by fastforce
  qed
  have "as_accepted ?st = map fst (as_gone ?st) @ queue_items ?st" using inv by (simp add: calm_inv_def queue_inv_def)
  then consider f where "(it, f) \<in> set (as_gone ?st)" | "it \<in> set (queue_items ?st)" using assms(2) by auto
  then show ?thesis unfolding Let_def by cases (use sent in blast)+
qed

definition sample_target :: announce_target where
  "sample_target = \<lparr>at_channel = ''c'', at_to = ''u'', at_account_id = None, at_thread_id = None\<rparr>"

definition sample_item :: "string \<Rightarrow> announce_item" where
  "sample_item t = \<lparr>ai_run_id = t, ai_prompt = t @ ''!'', ai_summary_line = Some t, ai_enqueued_at_ms = 0, ai_session_key = [],
     ai_target = Some sample_target, ai_origin_key = None\<rparr>"

definition sample_settings :: "announce_mode \<Rightarrow> announce_drop \<Rightarrow> nat \<Rightarrow> announce_settings" where
  "sample_settings m d c = \<lparr>an_mode = m, an_debounce_ms = 0, an_cap = c, an_drop_policy = d\<rparr>"

definition drains :: "nat \<Rightarrow> announce_event list" where
  "drains n = replicate n (Drain 5 True)"

definition calm_events :: "announce_event list" where
  "calm_events = Arrive 1 (sample_item ''a'') (sample_settings AnnCollect AnnOld 2) # drains 2 @
     [Arrive 2 (sample_item ''b'') (sample_settings AnnCollect AnnOld 2)] @ drains 2"

theorem announce_queue_sound_witness:
  "length (queue_items (announce_run (\<lambda>_. None) calm_events announce_init)) \<le> 2"
proof -
  have "list_all (cap_within 2) calm_events" by code_simp
  from announce_queue_sound [OF this, of "\<lambda>_. None"] show ?thesis by (simp add: Let_def)
qed

definition sample_accepted :: announce_item where
  "sample_accepted = (sample_item ''a'')\<lparr>ai_origin_key := build_announce_origin_key (Some sample_target)\<rparr>"

theorem announcements_delivered_witness:
  "\<exists>p. displays p sample_accepted \<and> sent_to_origin (announce_run (\<lambda>_. None) calm_events announce_init) p sample_accepted"
proof -
  have "calm_run (\<lambda>_. None) calm_events announce_init" by code_simp
  moreover have "sample_accepted \<in> set (as_accepted (announce_run (\<lambda>_. None) calm_events announce_init))" by code_simp
  moreover have "sample_accepted \<notin> set (queue_items (announce_run (\<lambda>_. None) calm_events announce_init))" by code_simp
  ultimately show ?thesis
    using announcements_delivered [of "\<lambda>_. None" calm_events sample_accepted] unfolding Let_def by blast
qed

text \<open>
  When the cap is met, announcements are lost.  After an overflow the summary is sent in place of the first queued announcement, which is
  then removed unsent.
\<close>

definition keyed_item :: "string \<Rightarrow> announce_item" where
  "keyed_item t = (sample_item t)\<lparr>ai_origin_key := build_announce_origin_key (Some sample_target)\<rparr>"

definition overflowing :: "announce_mode \<Rightarrow> announce_event list" where
  "overflowing m = [Arrive 1 (sample_item ''a'') (sample_settings m AnnSummarize 1),
     Arrive 2 (sample_item ''b'') (sample_settings m AnnSummarize 1)]"

definition overflowed_queue :: "announce_mode \<Rightarrow> announce_queue" where
  "overflowed_queue m =
     \<lparr>aq_items = [keyed_item ''b''], aq_draining = True, aq_last_enqueued_at_ms = 2, aq_mode = m, aq_debounce_ms = 0, aq_cap = 1,
      aq_drop_policy = AnnSummarize, aq_dropped_count = 1, aq_summary_lines = [''a'']\<rparr>"

lemma sample_overflow_summary: "overflow_summary (keyed_item ''a'') = ''a''"
  by code_simp

lemma overflowed_state:
  "announce_run rfc3339 (overflowing m) announce_init =
   \<lparr>as_queue = Some (overflowed_queue m), as_phase = LoopTop, as_delivered = [], as_sent = [],
    as_accepted = [keyed_item ''a'', keyed_item ''b''], as_gone = [(keyed_item ''a'', Overflowed)]\<rparr>"
proof -
  have keyed: "(sample_item t)\<lparr>ai_origin_key := build_announce_origin_key (ai_target (sample_item t))\<rparr> = keyed_item t" for t
    by (simp add: keyed_item_def sample_item_def)
  show ?thesis
    by (simp add: overflowing_def arrive_announce_def enqueue_announce_def Let_def keyed sample_settings_def configure_def
        announce_queue_new_def announce_init_def drop_overflow_def sat_add_def last_n_def sample_overflow_summary overflowed_queue_def)
qed

lemma announce_run_append: "announce_run rfc3339 (xs @ ys) st = announce_run rfc3339 ys (announce_run rfc3339 xs st)"
  by (induction xs arbitrary: st) auto

lemma summary_replaces_announcement:
  "let st = announce_run (\<lambda>_. None) (overflowing AnnFollowup @ drains 4) announce_init in
   as_queue st = None \<and> length (as_sent st) = 1 \<and> list_all (\<lambda>(t, p). \<not> contains p ''b!'') (as_sent st)"
  unfolding announce_run_append overflowed_state by code_simp

text \<open>An overflow while a message is being sent removes the announcement that arrived in the meantime.\<close>

definition racing_events :: "announce_event list" where
  "racing_events =
     Arrive 1 (sample_item ''a'') (sample_settings AnnCollect AnnOld 1) # drains 2 @
     [Arrive 2 (sample_item ''b'') (sample_settings AnnCollect AnnOld 1)] @ drains 2"

lemma overflow_while_sending_loses:
  "let st = announce_run (\<lambda>_. None) racing_events announce_init in
   as_queue st = None \<and> length (as_accepted st) = 2 \<and> length (as_sent st) = 1 \<and> list_all (\<lambda>(t, p). \<not> contains p ''b!'') (as_sent st)"
  by code_simp

text \<open>
  When the policy changes from summarising after an overflow, the count of dropped announcements is never cleared, and the
  drain task goes round its loop forever without waiting.
\<close>

lemma spinning_state:
  "let st = announce_run (\<lambda>_. None) (overflowing AnnCollect @
       [Arrive 3 (sample_item ''c'') (sample_settings AnnCollect AnnOld 2)] @ drains 4) announce_init in
   as_phase st = LoopTop \<and> queue_items st = [] \<and> map_option aq_dropped_count (as_queue st) = Some 1
   \<and> map_option aq_mode (as_queue st) = Some AnnCollect"
  unfolding announce_run_append overflowed_state by code_simp

lemma drain_spins:
  assumes "as_phase st = LoopTop" "as_queue st = Some q" "aq_items q = []" "aq_dropped_count q \<noteq> 0" "aq_mode q = AnnCollect"
  shows "announce_run rfc3339 (concat (replicate n [Drain t1 b1, Drain t2 b2])) st = st"
proof (induction n)
  case (Suc n)
  have "decide_work rfc3339 q = None"
    using assms by (simp add: decide_work_def Let_def announce_items_cross_channel_def)
  then have "announce_exec rfc3339 (Drain t2 b2) (announce_exec rfc3339 (Drain t1 b1) st) = st\<lparr>as_phase := LoopTop\<rparr>"
    using assms by simp
  also have "st\<lparr>as_phase := LoopTop\<rparr> = st" using assms(1) by simp
  finally show ?case using Suc by simp
qed simp

end
