(* ===== verification/Delivery_Routes.thy ===== *)
theory Delivery_Routes
  imports Announce_Queue
begin

text \<open>
  Where the completion of a subagent is announced (\<^verbatim>\<open>gateway-core/src/http/agent_bridge.rs\<close>): the delivery target
  recorded for a session or read off its key, the bindings of sessions to conversations, and the choice between a
  bound conversation and the requester.  The bindings are stored as JSON in the session's metadata; serialising them is
  \<^verbatim>\<open>serde\<close>, the parameters \<open>show_bindings\<close> and \<open>read_bindings\<close>, and the regular expression for a thread suffix is the
  parameter \<open>thread_suffix\<close>.
\<close>

section \<open>Targets\<close>

fun session_metadata_pick :: "metadata \<Rightarrow> string list \<Rightarrow> string option" where
  "session_metadata_pick m [] = None"
| "session_metadata_pick m (k # ks) =
     (case non_empty (hm_get m k) of Some v \<Rightarrow> Some v | None \<Rightarrow> session_metadata_pick m ks)"

abbreviation channel_keys :: "string list" where
  "channel_keys \<equiv> [''delivery.channel'', ''lastChannel'', ''last_channel'', ''channel'']"
abbreviation to_keys :: "string list" where
  "to_keys \<equiv> [''delivery.to'', ''lastTo'', ''last_to'', ''to'', ''target'']"
abbreviation account_keys :: "string list" where
  "account_keys \<equiv> [''delivery.accountId'', ''lastAccountId'', ''last_account_id'', ''account_id'']"
abbreviation thread_keys :: "string list" where
  "thread_keys \<equiv> [''delivery.threadId'', ''lastThreadId'', ''last_thread_id'', ''thread_id'']"

definition target_from_meta :: "metadata \<Rightarrow> announce_target option" where
  "target_from_meta meta =
     (case (session_metadata_pick meta channel_keys, session_metadata_pick meta to_keys) of
        (Some c, Some t) \<Rightarrow> Some \<lparr>at_channel = c, at_to = t, at_account_id = session_metadata_pick meta account_keys,
                                 at_thread_id = session_metadata_pick meta thread_keys\<rparr>
      | _ \<Rightarrow> None)"

definition resolve_announce_target_from_key :: "(string \<Rightarrow> (string \<times> string) option) \<Rightarrow> string \<Rightarrow> announce_target option" where
  "resolve_announce_target_from_key thread_suffix key =
     (let parts0 = filter (\<lambda>p. p \<noteq> []) (split_on (CHR '':'') key);
          parts = (if 3 \<le> length parts0 \<and> hd parts0 = ''agent'' then drop 2 parts0 else parts0)
      in if length parts < 3 then None
         else let kind = to_lowercase (trim (parts ! 1)); rest0 = join_with '':'' (drop 2 parts)
              in if kind \<noteq> ''group'' \<and> kind \<noteq> ''channel'' then None
                 else if trim rest0 = [] then None
                 else let (rest, thread) = (case thread_suffix rest0 of Some (r, d) \<Rightarrow> (r, Some d) | None \<Rightarrow> (rest0, None));
                          channel = normalize_channel_alias (trim (parts ! 0))
                      in if trim rest = [] then None
                         else Some \<lparr>at_channel = channel,
                                    at_to = (if channel = ''discord'' \<or> channel = ''slack'' \<or> kind = ''channel''
                                             then ''channel:'' else ''group:'') @ trim rest,
                                    at_account_id = None, at_thread_id = thread\<rparr>)"

fun first_target :: "session_db \<Rightarrow> string list \<Rightarrow> announce_target option" where
  "first_target db [] = None"
| "first_target db (k # ks) =
     (case target_from_meta (get_session_metadata k db) of Some t \<Rightarrow> Some t | None \<Rightarrow> first_target db ks)"

definition resolve_announce_target ::
  "(string \<Rightarrow> (string \<times> string) option) \<Rightarrow> session_db \<Rightarrow> string \<Rightarrow> string \<Rightarrow> announce_target option" where
  "resolve_announce_target thread_suffix db key display =
     or_else (first_target db (key # (if display \<noteq> key then [display] else [])))
       (or_else (first_target db (filter (\<lambda>k. k = key \<or> k = display) (map sr_key (list_sessions db))))
          (or_else (resolve_announce_target_from_key thread_suffix key) (resolve_announce_target_from_key thread_suffix display)))"

definition hook_text :: "json \<Rightarrow> string option" where
  "hook_text v = (case json_as_str v of Some s \<Rightarrow> Some s | None \<Rightarrow> map_option show_int (json_as_i64 v))"

definition parse_delivery_target_from_hook :: "json \<Rightarrow> announce_target option" where
  "parse_delivery_target_from_hook v =
     (let root = (case json_get v ''origin'' of Some (JObject kvs) \<Rightarrow> JObject kvs | _ \<Rightarrow> v);
          field = (\<lambda>a b. or_else (json_get root a) (json_get root b));
          channel = map_option normalize_channel_alias (non_empty (Option.bind (json_get root ''channel'') json_as_str));
          target = non_empty (Option.bind (field ''to'' ''target'') json_as_str)
      in case (channel, target) of
           (Some c, Some t) \<Rightarrow>
             if c = ''webchat'' then None
             else Some \<lparr>at_channel = c, at_to = t,
                        at_account_id = non_empty (Option.bind (field ''accountId'' ''account_id'') json_as_str),
                        at_thread_id = non_empty (Option.bind (field ''threadId'' ''thread_id'') hook_text)\<rparr>
         | _ \<Rightarrow> None)"

section \<open>Bindings\<close>

record conversation_ref =
  cr_channel :: string
  cr_account_id :: string
  cr_conversation_id :: string
  cr_parent_conversation_id :: "string option"

record session_binding =
  sb_binding_id :: string
  sb_target_session_key :: string
  sb_target_kind :: string
  sb_conversation :: conversation_ref
  sb_status :: string
  sb_bound_at_ms :: int
  sb_expires_at_ms :: "int option"
  sb_metadata :: "json option"

definition normalize_account_id :: "string option \<Rightarrow> string" where
  "normalize_account_id raw = unwrap_or [] (map_option to_lowercase (non_empty raw))"

definition parse_conversation_id_from_target :: "string \<Rightarrow> string option" where
  "parse_conversation_id_from_target target =
     (let t = trim target
      in if t = [] then None
         else case strip_prefix ''channel:'' t of
                Some r \<Rightarrow> Some (trim r)
              | None \<Rightarrow> (case strip_prefix ''group:'' t of Some r \<Rightarrow> Some (trim r) | None \<Rightarrow> Some t))"

definition binding_record_to_announce_target :: "session_binding \<Rightarrow> announce_target option" where
  "binding_record_to_announce_target b =
     (let c = sb_conversation b; channel = normalize_channel_alias (cr_channel c); cid = trim (cr_conversation_id c)
      in if channel = [] \<or> cid = [] then None
         else Some \<lparr>at_channel = channel, at_to = ''channel:'' @ cid,
                    at_account_id = Some (normalize_account_id (Some (cr_account_id c))), at_thread_id = Some cid\<rparr>)"

definition target_to_requester_conversation :: "announce_target \<Rightarrow> conversation_ref option" where
  "target_to_requester_conversation t =
     (let channel = normalize_channel_alias (at_channel t); from_to = parse_conversation_id_from_target (at_to t)
      in if channel = [] then None
         else case or_else (non_empty (at_thread_id t)) from_to of
                None \<Rightarrow> None
              | Some cid \<Rightarrow> Some \<lparr>cr_channel = channel, cr_account_id = normalize_account_id (at_account_id t),
                                 cr_conversation_id = cid, cr_parent_conversation_id = from_to\<rparr>)"

text \<open>The binding that older sessions imply by their delivery fields.\<close>

definition legacy_binding :: "int \<Rightarrow> metadata \<Rightarrow> string \<Rightarrow> session_binding list" where
  "legacy_binding now meta key =
     (case (session_metadata_pick meta channel_keys, session_metadata_pick meta to_keys) of
        (Some c, Some t) \<Rightarrow>
          (case parse_conversation_id_from_target t of
             Some cid \<Rightarrow>
               if trim c = [] \<or> trim cid = [] then []
               else [\<lparr>sb_binding_id = ''legacy:'' @ key, sb_target_session_key = key, sb_target_kind = ''subagent'',
                      sb_conversation = \<lparr>cr_channel = normalize_channel_alias c,
                        cr_account_id = normalize_account_id (session_metadata_pick meta account_keys), cr_conversation_id = cid,
                        cr_parent_conversation_id = session_metadata_pick meta thread_keys\<rparr>,
                      sb_status = ''active'', sb_bound_at_ms = now, sb_expires_at_ms = None, sb_metadata = None\<rparr>]
           | None \<Rightarrow> [])
      | _ \<Rightarrow> [])"

definition binding_live :: "int \<Rightarrow> string \<Rightarrow> session_binding \<Rightarrow> bool" where
  "binding_live now key b =
     (trim (sb_target_session_key b) = trim key \<and> to_lowercase (trim (sb_status b)) = ''active''
      \<and> \<not> (case sb_expires_at_ms b of Some e \<Rightarrow> 0 < e \<and> e \<le> now | None \<Rightarrow> False)
      \<and> trim (cr_channel (sb_conversation b)) \<noteq> [] \<and> trim (cr_conversation_id (sb_conversation b)) \<noteq> [])"

definition parse_session_bindings_from_metadata ::
  "(string \<Rightarrow> session_binding list) \<Rightarrow> int \<Rightarrow> metadata \<Rightarrow> string \<Rightarrow> session_binding list" where
  "parse_session_bindings_from_metadata read_bindings now meta key =
     (let raw = trim (unwrap_or [] (or_else (hm_get meta ''deliveryBindings'') (hm_get meta ''subagentDeliveryBindings'')));
          stored = (if raw = [] then [] else read_bindings raw);
          out = (if stored = [] then legacy_binding now meta key else stored)
      in filter (binding_live now key) out)"

definition read_session_bindings :: "(string \<Rightarrow> session_binding list) \<Rightarrow> int \<Rightarrow> session_db \<Rightarrow> string \<Rightarrow> session_binding list" where
  "read_session_bindings read_bindings now db key =
     parse_session_bindings_from_metadata read_bindings now (get_session_metadata key db) key"

definition write_session_bindings ::
  "bool \<Rightarrow> (session_binding list \<Rightarrow> string) \<Rightarrow> string \<Rightarrow> session_binding list \<Rightarrow> session_db \<Rightarrow> session_db" where
  "write_session_bindings fk show_bindings key bs db =
     snd (set_session_metadata_field fk key ''subagentDeliveryBindings'' (show_bindings bs)
       (snd (set_session_metadata_field fk key ''deliveryBindings'' (show_bindings bs) db)))"

definition same_conversation :: "string \<Rightarrow> string \<Rightarrow> string \<Rightarrow> session_binding \<Rightarrow> bool" where
  "same_conversation channel account cid b =
     (normalize_channel_alias (cr_channel (sb_conversation b)) = channel
      \<and> normalize_account_id (Some (cr_account_id (sb_conversation b))) = account
      \<and> trim (cr_conversation_id (sb_conversation b)) = trim cid)"

text \<open>\<^verbatim>\<open>Iterator::position\<close>.\<close>

fun position_of :: "('a \<Rightarrow> bool) \<Rightarrow> 'a list \<Rightarrow> nat option" where
  "position_of P [] = None"
| "position_of P (x # xs) = (if P x then Some 0 else map_option Suc (position_of P xs))"

definition upsert_session_binding ::
  "bool \<Rightarrow> (string \<Rightarrow> session_binding list) \<Rightarrow> (session_binding list \<Rightarrow> string) \<Rightarrow> int \<Rightarrow> string \<Rightarrow>
   string \<Rightarrow> string \<Rightarrow> announce_target \<Rightarrow> session_db \<Rightarrow> session_binding option \<times> session_db" where
  "upsert_session_binding fk read_bindings show_bindings now new_id key kind t db =
     (let channel = normalize_channel_alias (at_channel t)
      in case parse_conversation_id_from_target (at_to t) of
           None \<Rightarrow> (None, db)
         | Some cid \<Rightarrow>
             if channel = [] \<or> trim cid = [] then (None, db)
             else let account = normalize_account_id (at_account_id t);
                      bs = read_session_bindings read_bindings now db key;
                      thread = non_empty (at_thread_id t)
                  in case position_of (same_conversation channel account cid) bs of
                       Some i \<Rightarrow>
                           let b = (bs ! i)\<lparr>sb_status := ''active'', sb_target_kind := kind, sb_target_session_key := key,
                                     sb_conversation := (sb_conversation (bs ! i))\<lparr>cr_parent_conversation_id := thread\<rparr>,
                                     sb_bound_at_ms := now\<rparr>
                           in (Some b, write_session_bindings fk show_bindings key (bs[i := b]) db)
                     | None \<Rightarrow>
                           let b = \<lparr>sb_binding_id = key @ '':'' @ new_id, sb_target_session_key = key, sb_target_kind = kind,
                                    sb_conversation = \<lparr>cr_channel = channel, cr_account_id = account, cr_conversation_id = cid,
                                      cr_parent_conversation_id = thread\<rparr>,
                                    sb_status = ''active'', sb_bound_at_ms = now, sb_expires_at_ms = None, sb_metadata = None\<rparr>
                           in (Some b, write_session_bindings fk show_bindings key (bs @ [b]) db))"

section \<open>Routes\<close>

record delivery_route =
  dr_binding :: "session_binding option"
  dr_mode :: string
  dr_reason :: string

definition fallback_route :: "string \<Rightarrow> delivery_route" where
  "fallback_route reason = \<lparr>dr_binding = None, dr_mode = ''fallback'', dr_reason = reason\<rparr>"

definition bound_route :: "session_binding \<Rightarrow> string \<Rightarrow> delivery_route" where
  "bound_route b reason = \<lparr>dr_binding = Some b, dr_mode = ''bound'', dr_reason = reason\<rparr>"

definition same_account :: "conversation_ref \<Rightarrow> session_binding \<Rightarrow> bool" where
  "same_account r b =
     (normalize_channel_alias (cr_channel (sb_conversation b)) = normalize_channel_alias (cr_channel r)
      \<and> normalize_account_id (Some (cr_account_id (sb_conversation b))) = normalize_account_id (Some (cr_account_id r)))"

definition resolve_route_from_bindings :: "session_binding list \<Rightarrow> conversation_ref option \<Rightarrow> bool \<Rightarrow> delivery_route" where
  "resolve_route_from_bindings active requester fail_closed =
     (if active = [] then fallback_route ''no-active-binding''
      else case requester of
        None \<Rightarrow>
          if length active = 1 then bound_route (hd active) ''single-active-binding''
          else fallback_route ''ambiguous-without-requester''
      | Some r \<Rightarrow>
          if normalize_channel_alias (cr_channel r) = [] \<or> trim (cr_conversation_id r) = [] then fallback_route ''invalid-requester''
          else let matching = filter (same_account r) active
               in if matching = [] then
                    if length active = 1 \<and> \<not> fail_closed then bound_route (hd active) ''single-active-binding-fallback''
                    else fallback_route ''no-requester-match''
                  else case find (\<lambda>b. trim (cr_conversation_id (sb_conversation b)) = trim (cr_conversation_id r)) matching of
                         Some b \<Rightarrow> bound_route b ''requester-match''
                       | None \<Rightarrow>
                           if length matching = 1 then bound_route (hd matching) ''single-active-binding-fallback''
                           else fallback_route ''no-requester-match'')"

definition resolve_bound_delivery_route ::
  "(string \<Rightarrow> session_binding list) \<Rightarrow> int \<Rightarrow> session_db \<Rightarrow> string \<Rightarrow> conversation_ref option \<Rightarrow> bool \<Rightarrow> delivery_route" where
  "resolve_bound_delivery_route read_bindings now db key requester fail_closed =
     (if trim key = [] then fallback_route ''missing-target-session''
      else resolve_route_from_bindings (read_session_bindings read_bindings now db (trim key)) requester fail_closed)"

text \<open>\<open>hook\<close> is the JSON the plugin hook answered, if there is one.\<close>

definition resolve_completion_target ::
  "(string \<Rightarrow> (string \<times> string) option) \<Rightarrow> (string \<Rightarrow> session_binding list) \<Rightarrow> int \<Rightarrow> session_db \<Rightarrow> json option \<Rightarrow>
   string \<Rightarrow> string \<Rightarrow> announce_target option \<times> string" where
  "resolve_completion_target thread_suffix read_bindings now db hook requester child =
     (let rt = resolve_announce_target thread_suffix db requester requester;
          route = resolve_bound_delivery_route read_bindings now db child (Option.bind rt target_to_requester_conversation) False;
          own = (if dr_mode route = ''bound'' then Option.bind (dr_binding route) binding_record_to_announce_target else None)
      in case Option.bind hook parse_delivery_target_from_hook of
           Some t \<Rightarrow> (Some t, ''hook'')
         | None \<Rightarrow> (case own of Some t \<Rightarrow> (Some t, ''bound'') | None \<Rightarrow> (rt, ''fallback'')))"

definition completion_direct_force_by_route :: "string \<Rightarrow> string \<Rightarrow> bool" where
  "completion_direct_force_by_route spawn_mode route_mode =
     (eq_ignore_case spawn_mode ''session'' \<and> (eq_ignore_case route_mode ''bound'' \<or> eq_ignore_case route_mode ''hook''))"

definition should_defer_completion_direct_delivery :: "nat \<Rightarrow> string \<Rightarrow> string \<Rightarrow> bool" where
  "should_defer_completion_direct_delivery active spawn_mode route_mode =
     (active \<noteq> 0 \<and> \<not> completion_direct_force_by_route spawn_mode route_mode)"

section \<open>Announcements stay with the requester's account\<close>

lemma single_hd: "length xs = Suc 0 \<Longrightarrow> hd xs = x \<Longrightarrow> xs = [x]"
  by (cases xs) auto

text \<open>C22: A completion announcement is bound to a conversation only if that conversation is an active binding of the child's session,
  and: with a requester whose account has bindings, only to one of the same channel and account, and to the
  requester's own conversation whenever that is bound; with a requester whose account has none, only to the sole binding there is, and
  never when the caller asked to fail closed; without a requester only to the sole binding.
\<close>

theorem bound_route_matches_requester:
  assumes "dr_binding (resolve_route_from_bindings active requester fail_closed) = Some b"
  shows "b \<in> set active \<and>
    (case requester of
       None \<Rightarrow> active = [b]
     | Some r \<Rightarrow>
         if \<exists>c\<in>set active. same_account r c then
           same_account r b \<and>
           ((\<exists>c\<in>set active. same_account r c \<and> trim (cr_conversation_id (sb_conversation c)) = trim (cr_conversation_id r)) \<longrightarrow>
             trim (cr_conversation_id (sb_conversation b)) = trim (cr_conversation_id r))
         else active = [b] \<and> \<not> fail_closed)"
proof (cases requester)
  case None
  then show ?thesis
    using assms by (auto simp: resolve_route_from_bindings_def fallback_route_def bound_route_def intro: single_hd split: if_splits)
next
  case (Some r)
  let ?matching = "filter (same_account r) active"
  let ?own = "\<lambda>b. trim (cr_conversation_id (sb_conversation b)) = trim (cr_conversation_id r)"
  have ne: "active \<noteq> []" using assms by (auto simp: resolve_route_from_bindings_def fallback_route_def)
  show ?thesis
  proof (cases "?matching = []")
    case True
    then have "active = [b] \<and> \<not> fail_closed"
      using assms ne by (auto simp: resolve_route_from_bindings_def Some fallback_route_def bound_route_def Let_def
          intro: single_hd split: if_splits)
    with True show ?thesis by (auto simp: Some filter_empty_conv)
  next
    case False
    have "b \<in> set ?matching \<and> ((\<exists>c\<in>set ?matching. ?own c) \<longrightarrow> ?own b)"
    proof (cases "find ?own ?matching")
      case None
      then have "\<not> (\<exists>c\<in>set ?matching. ?own c)" by (auto simp: find_None_iff)
      moreover have "?matching = [b]"
        using assms ne False None
        by (auto simp: resolve_route_from_bindings_def Some fallback_route_def bound_route_def Let_def
            intro: single_hd split: if_splits)
      ultimately show ?thesis by (metis list.set_intros(1))
    next
      case own: (Some c)
      then have "b = c"
        using assms ne False
        by (auto simp: resolve_route_from_bindings_def Some fallback_route_def bound_route_def Let_def split: if_splits)
      moreover obtain i where i: "i < length ?matching" "?own (?matching ! i)" "c = ?matching ! i"
        using own unfolding find_Some_iff by blast
      then have "c \<in> set ?matching" using nth_mem by blast
      ultimately show ?thesis using i(2,3) by blast
    qed
    moreover have "\<exists>c\<in>set active. same_account r c" using False by (auto simp: filter_empty_conv)
    ultimately show ?thesis by (auto simp: Some)
  qed
qed

definition sample_binding :: "string \<Rightarrow> string \<Rightarrow> session_binding" where
  "sample_binding acct cid =
     \<lparr>sb_binding_id = cid, sb_target_session_key = ''k'', sb_target_kind = ''subagent'',
      sb_conversation = \<lparr>cr_channel = ''slack'', cr_account_id = acct, cr_conversation_id = cid, cr_parent_conversation_id = None\<rparr>,
      sb_status = ''active'', sb_bound_at_ms = 1, sb_expires_at_ms = None, sb_metadata = None\<rparr>"

theorem bound_route_matches_requester_witness:
  "same_account \<lparr>cr_channel = ''Slack'', cr_account_id = ''A'', cr_conversation_id = ''2'', cr_parent_conversation_id = None\<rparr>
     (sample_binding ''a'' ''2'')"
proof -
  let ?r = "\<lparr>cr_channel = ''Slack'', cr_account_id = ''A'', cr_conversation_id = ''2'', cr_parent_conversation_id = None\<rparr>"
  let ?active = "[sample_binding ''a'' ''1'', sample_binding ''b'' ''2'', sample_binding ''a'' ''2'']"
  have "dr_binding (resolve_route_from_bindings ?active (Some ?r) True) = Some (sample_binding ''a'' ''2'')" by code_simp
  moreover have "same_account ?r (sample_binding ''a'' ''1'')" by code_simp
  ultimately show ?thesis using bound_route_matches_requester [of ?active "Some ?r" True "sample_binding ''a'' ''2''"] by simp
qed

text \<open>
  A thread: binding it records the channel as the conversation and the thread as its parent, the requester's reference has
  them the other way round, so the binding is never recognised as the requester's own conversation, and the target made from the
  binding names the channel as the thread.
\<close>

definition thread_target :: announce_target where
  "thread_target = \<lparr>at_channel = ''slack'', at_to = ''channel:C1'', at_account_id = Some ''a'', at_thread_id = Some ''T9''\<rparr>"

definition thread_db :: session_db where
  "thread_db = snd (create_session 1 ''k'' ''a'' empty_db)"

lemma thread_binding_never_matches:
  "map_option cr_conversation_id (target_to_requester_conversation thread_target) = Some ''T9''
   \<and> map_option (\<lambda>b. cr_conversation_id (sb_conversation b))
       (fst (upsert_session_binding True (\<lambda>_. []) (\<lambda>_. ''x'') 1 ''id'' ''k'' ''subagent'' thread_target thread_db)) = Some ''C1''
   \<and> Option.bind (fst (upsert_session_binding True (\<lambda>_. []) (\<lambda>_. ''x'') 1 ''id'' ''k'' ''subagent'' thread_target thread_db))
       (\<lambda>b. Option.bind (binding_record_to_announce_target b) at_thread_id) = Some ''C1''"
  by code_simp

end
