(* ===== verification/Subagent_Runs.thy ===== *)
theory Subagent_Runs
  imports Delivery_Routes
begin

text \<open>
  The runs of subagents that a session's tools start (\<^verbatim>\<open>gateway-core/src/http/agent_bridge.rs\<close>): the registry of runs with its
  restart, archiving and queries, the end of a run, killing it, the cleanup flow that announces a completion and
  retries, and \<^verbatim>\<open>sessions_spawn\<close> with its checks.  The registry is a map under one lock, persisted after each change; each
  section that holds the lock is an operation.  The model's reply, the sends, the hooks, fresh ids and the clock are
  arguments.
\<close>

section \<open>Runs\<close>

record run_entry =
  re_run_id :: string
  re_requester :: string
  re_child :: string
  re_label :: string
  re_task :: string
  re_model :: string
  re_started_at :: int
  re_ended_at :: "int option"
  re_status :: string
  re_error :: "string option"
  re_usage :: "usage_summary option"
  re_completion_reply :: "string option"
  re_spawn_mode :: string
  re_cleanup :: string
  re_thread_requested :: bool
  re_expects_completion :: bool
  re_suppress_reason :: "string option"
  re_retry_count :: nat
  re_last_retry_at :: "int option"
  re_cleanup_handled :: bool
  re_cleanup_completed_at :: "int option"
  re_ended_reason :: "string option"
  re_ended_hook_at :: "int option"
  re_timeout_seconds :: nat
  re_archive_at :: "int option"

type_synonym runs = "(string, run_entry) hash_map"

definition one_hour :: int where "one_hour = 60 * 60000"

definition default_archive :: "int \<Rightarrow> run_entry \<Rightarrow> run_entry" where
  "default_archive now e = (if re_archive_at e = None then e\<lparr>re_archive_at := Some (i64_sat_add now one_hour)\<rparr> else e)"

text \<open>Runs read back after a restart: those that were running are marked as interrupted.\<close>

definition restore_entry :: "int \<Rightarrow> run_entry \<Rightarrow> run_entry" where
  "restore_entry now e =
     (if re_ended_at e = None then
        default_archive now (e\<lparr>re_ended_at := Some now, re_status := ''interrupted'',
          re_error := Some ''gateway restarted before subagent run completed'', re_ended_reason := Some ''subagent-error'',
          re_cleanup_handled := False, re_cleanup_completed_at := None\<rparr>)
      else e)"

definition restore_runs :: "int \<Rightarrow> runs \<Rightarrow> runs \<Rightarrow> runs" where
  "restore_runs now stored runs = fold (\<lambda>(k, e) m. hm_insert k (restore_entry now e) m) stored runs"

definition archived :: "int \<Rightarrow> run_entry \<Rightarrow> bool" where
  "archived now e = (case re_archive_at e of Some t \<Rightarrow> 0 < t \<and> t \<le> now | None \<Rightarrow> False)"

definition sweep_archived_runs :: "int \<Rightarrow> runs \<Rightarrow> runs" where
  "sweep_archived_runs now = hm_retain (\<lambda>_ e. \<not> archived now e \<or> re_ended_at e = None)"

definition active_for :: "string \<Rightarrow> run_entry \<Rightarrow> bool" where
  "active_for requester e = (re_requester e = requester \<and> re_ended_at e = None)"

definition count_active_children :: "int \<Rightarrow> string \<Rightarrow> runs \<Rightarrow> nat" where
  "count_active_children now requester runs =
     length (filter (active_for requester) (map snd (sweep_archived_runs now runs)))"

definition list_runs_for_requester :: "int \<Rightarrow> string \<Rightarrow> runs \<Rightarrow> run_entry list" where
  "list_runs_for_requester now requester runs =
     sort_key (\<lambda>e. - re_started_at e) (filter (\<lambda>e. re_requester e = requester) (map snd (sweep_archived_runs now runs)))"

definition requester_for_child :: "run_entry list \<Rightarrow> string \<Rightarrow> string option" where
  "requester_for_child snapshot child =
     (if trim child = [] then None
      else non_empty (map_option re_requester
             (max_by_key re_started_at (filter (\<lambda>e. trim (re_child e) = trim child) snapshot))))"

definition child_run_active :: "run_entry list \<Rightarrow> string \<Rightarrow> bool" where
  "child_run_active snapshot child =
     (trim child \<noteq> [] \<and> (\<exists>e\<in>set snapshot. trim (re_child e) = trim child \<and> re_ended_at e = None))"

text \<open>Runs started below a session, directly or by the sessions of such runs.\<close>

fun take_unseen :: "run_entry list \<Rightarrow> string set \<Rightarrow> run_entry list \<times> string set" where
  "take_unseen [] seen = ([], seen)"
| "take_unseen (e # es) seen =
     (if re_run_id e \<in> seen then take_unseen es seen
      else case take_unseen es (insert (re_run_id e) seen) of (new, s) \<Rightarrow> (e # new, s))"

lemma take_unseen_seen: "take_unseen es seen = (new, s) \<Longrightarrow> s = seen \<union> re_run_id ` set es \<and> set new \<subseteq> set es
   \<and> (\<forall>x\<in>set new. re_run_id x \<notin> seen)"
proof (induction es arbitrary: seen new s)
  case (Cons e es)
  show ?case
  proof (cases "re_run_id e \<in> seen")
    case True
    then show ?thesis using Cons.IH [of seen new s] Cons.prems by auto
  next
    case False
    obtain n' s' where *: "take_unseen es (insert (re_run_id e) seen) = (n', s')" by force
    then show ?thesis using Cons.IH [OF *] Cons.prems False by auto
  qed
qed simp

function descend :: "run_entry list \<Rightarrow> string list \<Rightarrow> string set \<Rightarrow> run_entry list" where
  "descend snapshot [] seen = []"
| "descend snapshot (requester # stack) seen =
     (case take_unseen (filter (\<lambda>e. re_requester e = requester) snapshot) seen of
        (new, seen') \<Rightarrow> new @ descend snapshot (rev (map re_child new) @ stack) seen')"
  by pat_completeness auto
termination
proof (relation "measures [\<lambda>(sn, st, seen). card (re_run_id ` set sn - seen), \<lambda>(sn, st, seen). length st]", goal_cases)
  case (2 sn r st seen new seen')
  let ?es = "filter (\<lambda>e. re_requester e = r) sn"
  have s: "seen' = seen \<union> re_run_id ` set ?es" "set new \<subseteq> set ?es" "\<forall>x\<in>set new. re_run_id x \<notin> seen"
    using take_unseen_seen [of ?es seen new seen'] 2 by auto
  show ?case
  proof (cases new)
    case Nil
    have "card (re_run_id ` set sn - seen') \<le> card (re_run_id ` set sn - seen)"
      unfolding s(1) by (intro card_mono) auto
    with Nil show ?thesis by auto
  next
    case (Cons e es)
    then have e: "e \<in> set ?es" "re_run_id e \<notin> seen" using s by auto
    have "card (re_run_id ` set sn - seen') < card (re_run_id ` set sn - seen)"
      unfolding s(1) using e by (intro psubset_card_mono) auto
    then show ?thesis by auto
  qed
qed simp

declare descend.simps [simp del]

definition collect_descendant_runs :: "int \<Rightarrow> string \<Rightarrow> runs \<Rightarrow> run_entry list" where
  "collect_descendant_runs now top_key runs = descend (map snd (sweep_archived_runs now runs)) [top_key] {}"

definition count_active_descendant_runs :: "int \<Rightarrow> string \<Rightarrow> runs \<Rightarrow> nat" where
  "count_active_descendant_runs now top_key runs =
     length (filter (\<lambda>e. re_ended_at e = None) (collect_descendant_runs now top_key runs))"

section \<open>Finding a run by name\<close>

definition sole :: "run_entry list \<Rightarrow> string \<Rightarrow> (string, run_entry) result option" where
  "sole es ambiguous = (case es of [] \<Rightarrow> None | [e] \<Rightarrow> Some (Inr e) | _ \<Rightarrow> Some (Inl ambiguous))"

definition resolve_subagent_target :: "int \<Rightarrow> run_entry list \<Rightarrow> string \<Rightarrow> nat \<Rightarrow> (string, run_entry) result" where
  "resolve_subagent_target now runs target window =
     (let token = trim target;
          sorted_runs = sort_key (\<lambda>e. - re_started_at e) runs;
          cutoff = i64_sat_add now (- i64_sat_mul (as_i64 (max window 1)) 60000);
          numeric = filter (\<lambda>e. re_ended_at e = None) sorted_runs @
                    filter (\<lambda>e. case re_ended_at e of Some t \<Rightarrow> cutoff \<le> t | None \<Rightarrow> False) sorted_runs;
          lowered = to_lowercase token;
          lab = (\<lambda>e. to_lowercase (trim (re_label e)))
      in if token = [] then Inl ''missing subagent target''
         else if eq_ignore_case token ''last'' then
           (case sorted_runs of e # _ \<Rightarrow> Inr e | [] \<Rightarrow> Inl (''unknown subagent target: '' @ token))
         else case parse_usize token of
           Some idx \<Rightarrow>
             if idx = 0 \<or> length numeric < idx then Inl (''invalid subagent index: '' @ show_nat idx) else Inr (numeric ! (idx - 1))
         | None \<Rightarrow>
             if contains token '':'' then
               (case find (\<lambda>e. re_child e = token) sorted_runs of
                  Some e \<Rightarrow> Inr e | None \<Rightarrow> Inl (''unknown subagent session: '' @ token))
             else case sole (filter (\<lambda>e. lab e = lowered) runs) (''ambiguous subagent label: '' @ token) of
               Some r \<Rightarrow> r
             | None \<Rightarrow>
                 (case sole (filter (\<lambda>e. starts_with (lab e) lowered) runs) (''ambiguous subagent label prefix: '' @ token) of
                    Some r \<Rightarrow> r
                  | None \<Rightarrow>
                      (case sole (filter (\<lambda>e. starts_with (re_run_id e) token) runs) (''ambiguous subagent run id prefix: '' @ token) of
                         Some r \<Rightarrow> r
                       | None \<Rightarrow> Inl (''unknown subagent target: '' @ token))))"

section \<open>The end of a run\<close>

datatype run_outcome = RunDone string usage_summary | RunFailed string | RunTimeout

fun end_entry :: "int \<Rightarrow> run_outcome \<Rightarrow> run_entry \<Rightarrow> run_entry" where
  "end_entry now (RunDone reply u) e =
     e\<lparr>re_status := ''done'', re_ended_at := Some now, re_usage := Some u, re_completion_reply := non_empty (Some reply),
       re_cleanup_handled := False, re_cleanup_completed_at := None, re_ended_reason := Some ''subagent-complete''\<rparr>"
| "end_entry now (RunFailed err) e =
     e\<lparr>re_status := ''failed'', re_error := Some err, re_ended_at := Some now, re_cleanup_handled := False,
       re_cleanup_completed_at := None, re_ended_reason := Some ''subagent-error''\<rparr>"
| "end_entry now RunTimeout e =
     e\<lparr>re_status := ''timeout'', re_error := Some ''subagent timed out'', re_ended_at := Some now, re_cleanup_handled := False,
       re_cleanup_completed_at := None, re_ended_reason := Some ''subagent-error''\<rparr>"

definition end_run :: "int \<Rightarrow> run_outcome \<Rightarrow> string \<Rightarrow> runs \<Rightarrow> runs" where
  "end_run now oc i = hm_modify i (end_entry now oc)"

definition kill_entry :: "int \<Rightarrow> run_entry \<Rightarrow> run_entry" where
  "kill_entry now e =
     default_archive now (e\<lparr>re_status := ''killed'', re_ended_at := Some now, re_error := Some ''killed by subagents tool'',
       re_suppress_reason := Some ''killed'', re_cleanup_handled := True, re_cleanup_completed_at := Some now,
       re_ended_reason := Some ''subagent-killed''\<rparr>)"

definition ended_outcome :: "string \<Rightarrow> string" where
  "ended_outcome status =
     (if status = ''failed'' then ''error'' else if status = ''timeout'' then ''timeout''
      else if status = ''killed'' then ''killed'' else ''ok'')"

text \<open>The hook is called with the child session, the outcome and the reason; the second component is that call.\<close>

definition emit_subagent_ended_once :: "bool \<Rightarrow> int \<Rightarrow> string \<Rightarrow> runs \<Rightarrow> runs \<times> (string \<times> string \<times> string) list" where
  "emit_subagent_ended_once has_hooks now i runs =
     (case hm_get runs i of
        None \<Rightarrow> (runs, [])
      | Some e \<Rightarrow>
          if \<not> has_hooks \<or> eq_ignore_case (re_spawn_mode e) ''session'' \<or> re_ended_hook_at e \<noteq> None then (runs, [])
          else (hm_modify i (\<lambda>e. e\<lparr>re_ended_hook_at := Some now\<rparr>) runs,
                [(re_child e, ended_outcome (re_status e), unwrap_or ''subagent-complete'' (re_ended_reason e))]))"

definition kill_run_entry :: "bool \<Rightarrow> bool \<Rightarrow> int \<Rightarrow> run_entry \<Rightarrow> runs \<Rightarrow> session_db \<Rightarrow>
    (runs \<times> (string \<times> string \<times> string) list) \<times> session_db" where
  "kill_run_entry fk has_hooks now r runs db =
     (emit_subagent_ended_once has_hooks now (re_run_id r) (hm_modify (re_run_id r) (kill_entry now) runs),
      if eq_ignore_case (re_cleanup r) ''delete'' then snd (remove_session fk (re_child r) db) else db)"

section \<open>Texts\<close>

definition usage_tokens :: "usage_summary \<Rightarrow> int" where
  "usage_tokens u = i64_sat_add (i64_sat_add (i64_sat_add (input_tokens u) (output_tokens u)) (cache_read_tokens u)) (cache_write_tokens u)"

definition completion_header :: "string \<Rightarrow> string \<Rightarrow> string \<Rightarrow> string" where
  "completion_header nm spawn_mode status =
     (let persistent = eq_ignore_case spawn_mode ''session'';
          say = (\<lambda>long short. ''Subagent '' @ nm @ (if persistent then long else short))
      in if status = ''failed'' then say '' failed this task (session remains active).'' '' failed.''
         else if status = ''timeout'' then say '' timed out on this task (session remains active).'' '' timed out.''
         else if status = ''killed'' then ''Subagent '' @ nm @ '' was killed.''
         else say '' completed this task (session remains active).'' '' finished.'')"

text \<open>Division towards zero, of a positive number.\<close>

definition build_completion_announce_text ::
  "string \<Rightarrow> string \<Rightarrow> string \<Rightarrow> string option \<Rightarrow> string option \<Rightarrow> usage_summary option \<Rightarrow> int \<Rightarrow> string" where
  "build_completion_announce_text label spawn_mode status error reply u runtime =
     (let nm = (if trim label = [] then ''subagent'' else trim label);
          details = or_else (non_empty reply) (map_option (\<lambda>v. ''Error: '' @ v) (non_empty error))
      in join_with [newline]
           ([completion_header nm spawn_mode status] @
            (if 0 < runtime then [''Runtime: '' @ show_int (runtime div 1000) @ ''s.''] else []) @
            (case u of Some x \<Rightarrow> [''Usage: '' @ show_int (usage_tokens x) @ '' tokens, '' @ show_nat (total_calls x) @ '' calls.''] | None \<Rightarrow> []) @
            (case details of Some c \<Rightarrow> [[], c] | None \<Rightarrow> [])))"

section \<open>The cleanup flow\<close>

definition MIN_ANNOUNCE_RETRY_DELAY_MS :: int where "MIN_ANNOUNCE_RETRY_DELAY_MS = 1000"
definition MAX_ANNOUNCE_RETRY_DELAY_MS :: int where "MAX_ANNOUNCE_RETRY_DELAY_MS = 8000"
definition MAX_ANNOUNCE_RETRY_COUNT :: nat where "MAX_ANNOUNCE_RETRY_COUNT = 3"

definition announce_retry_delay_ms :: "nat \<Rightarrow> int" where
  "announce_retry_delay_ms n =
     max 1 (min (i64_sat_mul MIN_ANNOUNCE_RETRY_DELAY_MS (2 ^ (min n 10 - 1))) MAX_ANNOUNCE_RETRY_DELAY_MS)"

definition begin_subagent_cleanup :: "string \<Rightarrow> runs \<Rightarrow> bool \<times> runs" where
  "begin_subagent_cleanup i runs =
     (case hm_get runs i of
        None \<Rightarrow> (False, runs)
      | Some e \<Rightarrow>
          if re_cleanup_completed_at e \<noteq> None \<or> re_cleanup_handled e then (False, runs)
          else (True, hm_modify i (\<lambda>e. e\<lparr>re_cleanup_handled := True\<rparr>) runs))"

definition finalize_subagent_cleanup :: "bool \<Rightarrow> string \<Rightarrow> string \<Rightarrow> int \<Rightarrow> runs \<Rightarrow> session_db \<Rightarrow> runs \<times> session_db" where
  "finalize_subagent_cleanup fk i mode now runs db =
     (if eq_ignore_case mode ''delete'' then
        (hm_remove i runs, case hm_get runs i of Some e \<Rightarrow> snd (remove_session fk (re_child e) db) | None \<Rightarrow> db)
      else (hm_modify i (\<lambda>e. e\<lparr>re_cleanup_completed_at := Some now, re_cleanup_handled := True\<rparr>) runs, db))"

text \<open>
  What the world answers during one flow: the reply of the requester's model to the announcement when the requester is itself a subagent
  (\<^const>\<open>None\<close> without a provider), whether it was delivered before, whether direct delivery is deferred to siblings, whether a target is known,
  whether the send succeeds and whether the queue accepts it.
\<close>

record flow_world =
  fw_step :: "(string, string option) result option"
  fw_delivered :: bool
  fw_defer :: bool
  fw_has_target :: bool
  fw_send_ok :: bool
  fw_queue_accepts :: bool

definition REPLY_SKIP_TOKEN :: string where "REPLY_SKIP_TOKEN = ''REPLY_SKIP''"

definition is_reply_skip :: "string option \<Rightarrow> bool" where
  "is_reply_skip t = (trim (unwrap_or [] t) = REPLY_SKIP_TOKEN)"

definition is_subagent_session_key :: "string \<Rightarrow> bool" where
  "is_subagent_session_key k = contains k '':subagent:''"

text \<open>Whom to tell: the requester, or the one above it when the requester is a subagent that is gone.  The flag says that there is nobody.\<close>

definition resolve_flow_requester :: "int \<Rightarrow> runs \<Rightarrow> session_db \<Rightarrow> string \<Rightarrow> string \<times> bool" where
  "resolve_flow_requester now runs db requester =
     (let snapshot = map snd (sweep_archived_runs now runs)
      in if is_subagent_session_key requester \<and> \<not> child_run_active snapshot requester \<and> get_session requester db = None then
           (case requester_for_child snapshot requester of Some k \<Rightarrow> (k, False) | None \<Rightarrow> (requester, True))
         else (requester, False))"

definition announced_by_flow :: "flow_world \<Rightarrow> run_entry \<Rightarrow> string \<Rightarrow> bool \<Rightarrow> bool" where
  "announced_by_flow w e requester missing =
     (if re_suppress_reason e = Some ''killed'' \<or> missing then False
      else if is_subagent_session_key requester then
        (case fw_step w of
           Some (Inr r) \<Rightarrow> (case r of Some t \<Rightarrow> \<not> is_reply_skip (Some t) | None \<Rightarrow> True)
         | _ \<Rightarrow> False)
      else fw_delivered w \<or> \<not> fw_defer w \<and> fw_has_target w \<and> fw_send_ok w)"

definition queued_by_flow :: "flow_world \<Rightarrow> run_entry \<Rightarrow> string \<Rightarrow> bool \<Rightarrow> bool" where
  "queued_by_flow w e requester missing =
     (re_expects_completion e \<and> \<not> is_subagent_session_key requester
      \<and> \<not> (re_suppress_reason e = Some ''killed'' \<or> missing) \<and> fw_has_target w \<and> fw_queue_accepts w)"

datatype flow_end = NotBegun | Suppressed | RetryIn int | Finished

record flow_state =
  fl_runs :: runs
  fl_db :: session_db
  fl_hooks :: "(string \<times> string \<times> string) list"

definition finish_flow :: "bool \<Rightarrow> bool \<Rightarrow> int \<Rightarrow> string \<Rightarrow> string \<Rightarrow> runs \<Rightarrow> flow_state \<Rightarrow> flow_end \<times> flow_state" where
  "finish_flow fk has_hooks now i mode runs st =
     (case emit_subagent_ended_once has_hooks now i runs of
        (runs1, calls) \<Rightarrow>
          (case finalize_subagent_cleanup fk i mode now runs1 (fl_db st) of
             (runs2, db) \<Rightarrow> (Finished, \<lparr>fl_runs = runs2, fl_db = db, fl_hooks = fl_hooks st @ calls\<rparr>)))"

text \<open>The queries of a flow sweep the registry, which may remove the run itself.\<close>

definition swept_in_flow :: "int \<Rightarrow> run_entry \<Rightarrow> runs \<Rightarrow> runs" where
  "swept_in_flow now e runs =
     (if re_expects_completion e \<or> is_subagent_session_key (re_requester e) \<or> re_suppress_reason e \<noteq> Some ''killed''
      then sweep_archived_runs now runs else runs)"

definition run_subagent_cleanup_flow ::
  "bool \<Rightarrow> bool \<Rightarrow> flow_world \<Rightarrow> int \<Rightarrow> string \<Rightarrow> flow_state \<Rightarrow> flow_end \<times> flow_state" where
  "run_subagent_cleanup_flow fk has_hooks w now i st =
     (case begin_subagent_cleanup i (fl_runs st) of
        (False, _) \<Rightarrow> (NotBegun, st)
      | (True, runs) \<Rightarrow>
        (case hm_get runs i of
           None \<Rightarrow> (NotBegun, st\<lparr>fl_runs := runs\<rparr>)
         | Some e \<Rightarrow>
             if re_cleanup_completed_at e \<noteq> None then (NotBegun, st\<lparr>fl_runs := runs\<rparr>)
             else if re_suppress_reason e = Some ''steer-restart'' then (Suppressed, st\<lparr>fl_runs := runs\<rparr>)
             else
             let ago = i64_sat_add now (- unwrap_or now (re_ended_at e)); runs1 = swept_in_flow now e runs
             in if re_expects_completion e \<and> 0 < count_active_descendant_runs now (re_child e) runs then
                  if ANNOUNCE_EXPIRY_MS < ago then finish_flow fk has_hooks now i ''keep'' runs1 st
                  else (RetryIn MIN_ANNOUNCE_RETRY_DELAY_MS,
                        st\<lparr>fl_runs := hm_modify i (\<lambda>e. e\<lparr>re_cleanup_handled := False, re_last_retry_at := Some now\<rparr>) runs1\<rparr>)
                else
                  let (requester, missing) = resolve_flow_requester now runs (fl_db st) (re_requester e);
                      told = (announced_by_flow w e requester missing \<or> queued_by_flow w e requester missing);
                      n = sat_add u32_max (re_retry_count e) 1
                  in if told \<or> \<not> re_expects_completion e then finish_flow fk has_hooks now i (re_cleanup e) runs1 st
                     else if MAX_ANNOUNCE_RETRY_COUNT \<le> n \<or> ANNOUNCE_EXPIRY_MS < ago then
                       finish_flow fk has_hooks now i ''keep''
                         (hm_modify i (\<lambda>e. e\<lparr>re_retry_count := n, re_last_retry_at := Some now\<rparr>) runs1) st
                     else (RetryIn (announce_retry_delay_ms n),
                           st\<lparr>fl_runs := hm_modify i (\<lambda>e. e\<lparr>re_retry_count := n, re_last_retry_at := Some now,
                                                         re_cleanup_handled := False\<rparr>) runs1\<rparr>)))"

text \<open>After a restart and before each tool call the flows that are due are scheduled again, with the time left to wait.\<close>

definition pending_cleanup :: "int \<Rightarrow> run_entry \<Rightarrow> (string \<times> int) option" where
  "pending_cleanup now e =
     (if re_ended_at e = None \<or> re_cleanup_completed_at e \<noteq> None \<or> re_cleanup_handled e then None
      else let earliest = i64_sat_add (unwrap_or 0 (re_last_retry_at e)) (announce_retry_delay_ms (max (re_retry_count e) 1))
           in Some (re_run_id e, max 0 (i64_sat_add earliest (- now))))"

definition resume_pending_cleanup :: "int \<Rightarrow> runs \<Rightarrow> (string \<times> int) list" where
  "resume_pending_cleanup now runs = List.map_filter (pending_cleanup now) (map snd (sweep_archived_runs now runs))"

section \<open>Descendants\<close>

definition spawn_rel :: "run_entry list \<Rightarrow> (string \<times> string) set" where
  "spawn_rel sn = (\<lambda>e. (re_requester e, re_child e)) ` set sn"

definition handled_key :: "run_entry list \<Rightarrow> string set \<Rightarrow> string \<Rightarrow> bool" where
  "handled_key sn seen k = (\<forall>e\<in>set sn. re_requester e = k \<longrightarrow> re_run_id e \<in> seen)"

definition walk_inv :: "run_entry list \<Rightarrow> string set \<Rightarrow> string set \<Rightarrow> bool" where
  "walk_inv sn st seen = (\<forall>e\<in>set sn. re_run_id e \<in> seen \<longrightarrow> re_child e \<in> st \<or> handled_key sn seen (re_child e))"

lemma take_unseen_set:
  "distinct (map re_run_id es) \<Longrightarrow> take_unseen es seen = (new, s) \<Longrightarrow> set new = {e \<in> set es. re_run_id e \<notin> seen} \<and> distinct (map re_run_id new)"
proof (induction es arbitrary: seen new s)
  case (Cons e es)
  show ?case
  proof (cases "re_run_id e \<in> seen")
    case True
    then show ?thesis using Cons by auto
  next
    case False
    obtain n' s' where *: "take_unseen es (insert (re_run_id e) seen) = (n', s')" by force
    then have "set n' = {x \<in> set es. re_run_id x \<notin> insert (re_run_id e) seen} \<and> distinct (map re_run_id n')" using Cons by simp
    moreover have "re_run_id x \<noteq> re_run_id e" if "x \<in> set es" for x
      using Cons.prems(1) that by (metis distinct.simps(2) image_eqI list.set_map list.simps(9))
    ultimately show ?thesis using * False Cons.prems by auto
  qed
qed simp

lemma run_id_unique: "distinct (map re_run_id sn) \<Longrightarrow> x \<in> set sn \<Longrightarrow> e \<in> set sn \<Longrightarrow> re_run_id e = re_run_id x \<Longrightarrow> x = e"
  by (metis distinct_map inj_onD)

lemma walk_inv_step:
  assumes inv: "walk_inv sn (set (r # st)) seen" and d: "distinct (map re_run_id sn)"
    and t: "take_unseen (filter (\<lambda>e. re_requester e = r) sn) seen = (new, seen')"
  shows "walk_inv sn (set (rev (map re_child new) @ st)) seen'" and "handled_key sn seen' r"
proof -
  have df: "distinct (map re_run_id (filter (\<lambda>e. re_requester e = r) sn))" using d by (rule distinct_map_filter)
  have new: "set new = {e \<in> set sn. re_requester e = r \<and> re_run_id e \<notin> seen}" using take_unseen_set [OF df t] by auto
  have seen': "seen' = seen \<union> re_run_id ` {e \<in> set sn. re_requester e = r}" using take_unseen_seen [OF t] by auto
  show h: "handled_key sn seen' r" by (auto simp: handled_key_def seen')
  show "walk_inv sn (set (rev (map re_child new) @ st)) seen'"
    unfolding walk_inv_def
  proof (intro ballI impI)
    fix e assume e: "e \<in> set sn" "re_run_id e \<in> seen'"
    show "re_child e \<in> set (rev (map re_child new) @ st) \<or> handled_key sn seen' (re_child e)"
    proof (cases "re_run_id e \<in> seen")
      case True
      then consider "re_child e = r" | "re_child e \<in> set st" | "handled_key sn seen (re_child e)"
        using inv e(1) by (auto simp: walk_inv_def)
      then show ?thesis
      proof cases
        case 3
        then show ?thesis by (auto simp: handled_key_def seen')
      qed (use h in auto)
    next
      case False
      then obtain x where x: "x \<in> set sn" "re_requester x = r" "re_run_id e = re_run_id x" using e(2) seen' by auto
      then have "x = e" using run_id_unique [OF d x(1) e(1) x(3)] by simp
      then have "e \<in> set new" using x False e(1) by (simp add: new)
      then show ?thesis by simp
    qed
  qed
qed

lemma walk_complete:
  assumes "walk_inv sn st seen" "handled_key sn seen x" "(x, y) \<in> (spawn_rel sn)\<^sup>*" "e \<in> set sn" "re_requester e = y"
  shows "re_run_id e \<in> seen \<or> (\<exists>k\<in>st. (k, y) \<in> (spawn_rel sn)\<^sup>*)"
  using assms(3,2)
proof (induction rule: converse_rtrancl_induct)
  case base
  then show ?case using assms(4,5) by (auto simp: handled_key_def)
next
  case (step x z)
  obtain e1 where e1: "e1 \<in> set sn" "re_requester e1 = x" "re_child e1 = z" using step(1) by (auto simp: spawn_rel_def)
  then have "re_run_id e1 \<in> seen" using step.prems by (simp add: handled_key_def)
  then consider "z \<in> st" | "handled_key sn seen z" using assms(1) e1 by (auto simp: walk_inv_def)
  then show ?case using step by cases auto
qed

lemma descend_exact:
  assumes "distinct (map re_run_id sn)" "walk_inv sn (set st) seen"
  shows "set (descend sn st seen) = {e \<in> set sn. re_run_id e \<notin> seen \<and> (\<exists>k\<in>set st. (k, re_requester e) \<in> (spawn_rel sn)\<^sup>*)}"
    and "distinct (map re_run_id (descend sn st seen))"
proof -
  have "set (descend sn st seen) = {e \<in> set sn. re_run_id e \<notin> seen \<and> (\<exists>k\<in>set st. (k, re_requester e) \<in> (spawn_rel sn)\<^sup>*)}
    \<and> distinct (map re_run_id (descend sn st seen))"
    using assms
  proof (induction sn st seen rule: descend.induct)
    case (1 sn seen)
    then show ?case by (simp add: descend.simps(1))
  next
    case (2 sn r st seen)
    obtain new seen' where t: "take_unseen (filter (\<lambda>e. re_requester e = r) sn) seen = (new, seen')" by force
    let ?R = "(spawn_rel sn)\<^sup>*" and ?st = "rev (map re_child new) @ st"
    note step = walk_inv_step [OF 2(3,2) t]
    have ih: "set (descend sn ?st seen') = {e \<in> set sn. re_run_id e \<notin> seen' \<and> (\<exists>k\<in>set ?st. (k, re_requester e) \<in> ?R)}"
      "distinct (map re_run_id (descend sn ?st seen'))"
      using 2(1) [OF t [symmetric] 2(2) step(1)] by blast+
    have df: "distinct (map re_run_id (filter (\<lambda>e. re_requester e = r) sn))" using 2(2) by (rule distinct_map_filter)
    have new: "set new = {e \<in> set sn. re_requester e = r \<and> re_run_id e \<notin> seen}" "distinct (map re_run_id new)"
      using take_unseen_set [OF df t] by auto
    have seen': "seen' = seen \<union> re_run_id ` {e \<in> set sn. re_requester e = r}" using take_unseen_seen [OF t] by auto
    have eq: "descend sn (r # st) seen = new @ descend sn ?st seen'"
      unfolding descend.simps(2) [of sn r st seen] t by simp
    have reach: "\<exists>k\<in>set (r # st). (k, re_requester e) \<in> ?R" if pr: "k \<in> set ?st" "(k, re_requester e) \<in> ?R" for k e
    proof (cases "k \<in> set st")
      case False
      then obtain x where x: "x \<in> set new" "k = re_child x" using pr(1) by auto
      then have "(r, k) \<in> spawn_rel sn" using new(1) by (auto simp: spawn_rel_def)
      then show ?thesis using pr(2) by (auto intro: converse_rtrancl_into_rtrancl)
    qed (use pr in auto)
    have "e \<in> set (descend sn (r # st) seen) \<longleftrightarrow> e \<in> set sn \<and> re_run_id e \<notin> seen \<and> (\<exists>k\<in>set (r # st). (k, re_requester e) \<in> ?R)" for e
    proof
      assume "e \<in> set (descend sn (r # st) seen)"
      then consider "e \<in> set new" | "e \<in> set (descend sn ?st seen')" unfolding eq by auto
      then show "e \<in> set sn \<and> re_run_id e \<notin> seen \<and> (\<exists>k\<in>set (r # st). (k, re_requester e) \<in> ?R)"
      proof cases
        case 1
        then show ?thesis using new(1) by auto
      next
        case 2
        then obtain k where "e \<in> set sn" "re_run_id e \<notin> seen'" "k \<in> set ?st" "(k, re_requester e) \<in> ?R" using ih(1) by blast
        then show ?thesis using reach [of k e] seen' by blast
      qed
    next
      assume e: "e \<in> set sn \<and> re_run_id e \<notin> seen \<and> (\<exists>k\<in>set (r # st). (k, re_requester e) \<in> ?R)"
      show "e \<in> set (descend sn (r # st) seen)"
      proof (cases "re_run_id e \<in> seen'")
        case True
        then obtain x where x: "x \<in> set sn" "re_requester x = r" "re_run_id e = re_run_id x" using e seen' by auto
        have "e \<in> set sn" using e by blast
        then have "x = e" by (rule run_id_unique [OF 2(2) x(1) _ x(3)])
        moreover have "re_run_id e \<notin> seen" using e by blast
        ultimately have "e \<in> set new" unfolding new(1) using x(1,2) by simp
        then show ?thesis unfolding eq by simp
      next
        case False
        obtain k where k: "k \<in> set (r # st)" "(k, re_requester e) \<in> ?R" using e by blast
        have "\<exists>k\<in>set ?st. (k, re_requester e) \<in> ?R"
        proof (cases "k = r")
          case True
          then show ?thesis using walk_complete [OF step(1,2), of "re_requester e" e] k(2) e False by blast
        qed (use k in auto)
        then have "e \<in> set (descend sn ?st seen')" unfolding ih(1) using False e by blast
        then show ?thesis unfolding eq by simp
      qed
    qed
    moreover have "distinct (map re_run_id (new @ descend sn ?st seen'))"
    proof -
      have "re_run_id ` set new \<subseteq> seen'" using new(1) seen' by auto
      moreover have "re_run_id ` set (descend sn ?st seen') \<inter> seen' = {}" unfolding ih(1) by auto
      ultimately show ?thesis using new(2) ih(2) by auto
    qed
    ultimately show ?case unfolding eq by blast
  qed
  then show "set (descend sn st seen) = {e \<in> set sn. re_run_id e \<notin> seen \<and> (\<exists>k\<in>set st. (k, re_requester e) \<in> (spawn_rel sn)\<^sup>*)}"
    and "distinct (map re_run_id (descend sn st seen))" by blast+
qed

text \<open>C18: The runs below a session are found exactly: whatever cycles the registry has, the walk returns each registered run that
  has not been archived and whose requester is the session or is reached from it through runs and their child sessions,
  and returns it once; the count of active descendants is the number of those that have not ended.
\<close>

theorem descendants_exact:
  assumes "distinct (map (re_run_id \<circ> snd) runs)"
  shows "let live = map snd (sweep_archived_runs now runs); below = {e \<in> set live. (k, re_requester e) \<in> (spawn_rel live)\<^sup>*} in
    set (collect_descendant_runs now k runs) = below \<and> distinct (map re_run_id (collect_descendant_runs now k runs))
    \<and> count_active_descendant_runs now k runs = card {e \<in> below. re_ended_at e = None}"
proof -
  define live where "live = map snd (sweep_archived_runs now runs)"
  let ?ds = "collect_descendant_runs now k runs"
  have d: "distinct (map re_run_id live)"
    using distinct_map_filter [OF assms(1)] by (simp add: live_def sweep_archived_runs_def hm_retain_def)
  have inv: "walk_inv live (set [k]) {}" by (simp add: walk_inv_def)
  have s: "set ?ds = {e \<in> set live. (k, re_requester e) \<in> (spawn_rel live)\<^sup>*}" and di: "distinct (map re_run_id ?ds)"
    using descend_exact [OF d inv] unfolding collect_descendant_runs_def live_def by simp_all
  have "distinct (filter (\<lambda>e. re_ended_at e = None) ?ds)" using di by (simp add: distinct_map)
  then have "count_active_descendant_runs now k runs = card (set (filter (\<lambda>e. re_ended_at e = None) ?ds))"
    unfolding count_active_descendant_runs_def by (simp only: distinct_card)
  then show ?thesis using s di unfolding Let_def live_def [symmetric] set_filter by simp
qed

section \<open>Cleanup ends\<close>

definition cleanup_done :: "string \<Rightarrow> flow_state \<Rightarrow> bool" where
  "cleanup_done i st = (case hm_get (fl_runs st) i of None \<Rightarrow> True | Some e \<Rightarrow> re_cleanup_completed_at e \<noteq> None)"

text \<open>A run whose cleanup is due: its completion has not been settled, no flow is at work, and it started no runs of its own.\<close>

definition cleanup_due :: "string \<Rightarrow> nat \<Rightarrow> flow_state \<Rightarrow> bool" where
  "cleanup_due i n st =
     (\<exists>e. hm_get (fl_runs st) i = Some e \<and> re_cleanup_completed_at e = None \<and> \<not> re_cleanup_handled e
        \<and> re_suppress_reason e \<noteq> Some ''steer-restart'' \<and> re_retry_count e = n
        \<and> (\<forall>k x. hm_get (fl_runs st) k = Some x \<longrightarrow> re_requester x \<noteq> re_child e))"

fun cleanup_flows :: "bool \<Rightarrow> bool \<Rightarrow> string \<Rightarrow> (flow_world \<times> int) list \<Rightarrow> flow_state \<Rightarrow> flow_state" where
  "cleanup_flows fk has_hooks i [] st = st"
| "cleanup_flows fk has_hooks i ((w, now) # ws) st =
     cleanup_flows fk has_hooks i ws (snd (run_subagent_cleanup_flow fk has_hooks w now i st))"

lemma descend_leaf: "(\<And>x. x \<in> set sn \<Longrightarrow> re_requester x \<noteq> k) \<Longrightarrow> descend sn [k] {} = []"
proof -
  assume "\<And>x. x \<in> set sn \<Longrightarrow> re_requester x \<noteq> k"
  then have "filter (\<lambda>e. re_requester e = k) sn = []" by (auto simp: filter_empty_conv)
  then show ?thesis by (simp add: descend.simps)
qed

lemma leaf_no_descendants:
  assumes "hm_wf runs" "\<And>k x. hm_get runs k = Some x \<Longrightarrow> re_requester x \<noteq> c"
  shows "count_active_descendant_runs now c runs = 0"
proof -
  have "re_requester x \<noteq> c" if pr: "x \<in> set (map snd (sweep_archived_runs now runs))" for x
  proof -
    obtain k where "(k, x) \<in> set runs" using pr by (auto simp: sweep_archived_runs_def hm_retain_def)
    then have "hm_get runs k = Some x" using assms(1) by (simp add: hm_wf_def)
    then show ?thesis by (rule assms(2))
  qed
  then have "descend (map snd (sweep_archived_runs now runs)) [c] {} = []" by (rule descend_leaf)
  then show ?thesis by (simp add: count_active_descendant_runs_def collect_descendant_runs_def)
qed

lemma emit_keeps:
  "emit_subagent_ended_once hk now i runs = (runs', calls) \<Longrightarrow>
   length calls \<le> 1 \<and> (hm_wf runs \<longrightarrow> hm_wf runs')"
  by (auto simp: emit_subagent_ended_once_def split: option.splits if_splits)

lemma finish_flow_done:
  assumes "hm_wf runs"
  shows "cleanup_done i (snd (finish_flow fk hk now i mode runs st))"
    and "hm_wf (fl_runs (snd (finish_flow fk hk now i mode runs st)))"
    and "length (fl_hooks (snd (finish_flow fk hk now i mode runs st))) \<le> length (fl_hooks st) + 1"
    and "fst (finish_flow fk hk now i mode runs st) = Finished"
proof -
  obtain runs1 calls where e: "emit_subagent_ended_once hk now i runs = (runs1, calls)" by force
  note k = emit_keeps [OF e]
  show "cleanup_done i (snd (finish_flow fk hk now i mode runs st))"
    using k assms by (auto simp: finish_flow_def e finalize_subagent_cleanup_def cleanup_done_def split: option.split)
  show "hm_wf (fl_runs (snd (finish_flow fk hk now i mode runs st)))"
    using k assms by (auto simp: finish_flow_def e finalize_subagent_cleanup_def)
  show "length (fl_hooks (snd (finish_flow fk hk now i mode runs st))) \<le> length (fl_hooks st) + 1"
    using k by (auto simp: finish_flow_def e finalize_subagent_cleanup_def)
  show "fst (finish_flow fk hk now i mode runs st) = Finished"
    by (simp add: finish_flow_def e finalize_subagent_cleanup_def)
qed

lemma done_flow_skips:
  assumes "cleanup_done i st"
  shows "run_subagent_cleanup_flow fk hk w now i st = (NotBegun, st)"
  using assms by (auto simp: run_subagent_cleanup_flow_def begin_subagent_cleanup_def cleanup_done_def split: option.splits)

text \<open>One flow on a run that is due: it is settled, or due once more with one retry counted.\<close>

lemma due_flow:
  fixes fk hk w now
  assumes due: "cleanup_due i n st" and wf: "hm_wf (fl_runs st)"
  defines "st' \<equiv> snd (run_subagent_cleanup_flow fk hk w now i st)"
  shows "hm_wf (fl_runs st') \<and> length (fl_hooks st') \<le> length (fl_hooks st) + 1
    \<and> (cleanup_done i st' \<or> cleanup_due i (Suc n) st' \<and> Suc n < MAX_ANNOUNCE_RETRY_COUNT \<and> fl_hooks st' = fl_hooks st)"
proof -
  obtain e where e: "hm_get (fl_runs st) i = Some e" "re_cleanup_completed_at e = None" "\<not> re_cleanup_handled e"
    "re_suppress_reason e \<noteq> Some ''steer-restart''" "re_retry_count e = n"
    and leaf: "\<And>k x. hm_get (fl_runs st) k = Some x \<Longrightarrow> re_requester x \<noteq> re_child e"
    using due by (auto simp: cleanup_due_def)
  define runs where "runs = hm_modify i (\<lambda>e. e\<lparr>re_cleanup_handled := True\<rparr>) (fl_runs st)"
  define e' where "e' = e\<lparr>re_cleanup_handled := True\<rparr>"
  define m where "m = sat_add u32_max n 1"
  have bg: "begin_subagent_cleanup i (fl_runs st) = (True, runs)" using e by (simp add: begin_subagent_cleanup_def runs_def)
  have get: "hm_get runs i = Some e'" by (simp add: runs_def e e'_def)
  have wf': "hm_wf runs" using wf by (simp add: runs_def)
  have leaf': "re_requester x \<noteq> re_child e" if "hm_get runs k = Some x" for k x
    using that leaf [of i] leaf [of k] e by (auto simp: runs_def split: if_splits)
  have none: "count_active_descendant_runs now (re_child e') runs = 0"
    using leaf_no_descendants [OF wf'] leaf' by (simp add: e'_def)
  obtain req missing where rm: "resolve_flow_requester now runs (fl_db st) (re_requester e') = (req, missing)" by force
  define told where "told = (announced_by_flow w e' req missing \<or> queued_by_flow w e' req missing)"
  define ago where "ago = i64_sat_add now (- unwrap_or now (re_ended_at e'))"
  define runs1 where "runs1 = swept_in_flow now e' runs"
  have wf1: "hm_wf runs1" using wf' by (simp add: runs1_def swept_in_flow_def sweep_archived_runs_def)
  have get1: "hm_get runs1 k = Some x \<Longrightarrow> hm_get runs k = Some x" for k x
    using wf' by (auto simp: runs1_def swept_in_flow_def sweep_archived_runs_def split: if_splits option.splits)
  have flow: "run_subagent_cleanup_flow fk hk w now i st =
      (if told \<or> \<not> re_expects_completion e' then finish_flow fk hk now i (re_cleanup e') runs1 st
       else if MAX_ANNOUNCE_RETRY_COUNT \<le> m \<or> ANNOUNCE_EXPIRY_MS < ago then
         finish_flow fk hk now i ''keep'' (hm_modify i (\<lambda>e. e\<lparr>re_retry_count := m, re_last_retry_at := Some now\<rparr>) runs1) st
       else (RetryIn (announce_retry_delay_ms m),
             st\<lparr>fl_runs := hm_modify i (\<lambda>e. e\<lparr>re_retry_count := m, re_last_retry_at := Some now, re_cleanup_handled := False\<rparr>) runs1\<rparr>))"
  proof -
    have f: "re_cleanup_completed_at e' = None" "re_suppress_reason e' \<noteq> Some ''steer-restart''" "re_retry_count e' = n"
      using e by (simp_all add: e'_def)
    show ?thesis
      unfolding run_subagent_cleanup_flow_def bg prod.case bool.case get option.case Let_def rm f(3)
        told_def [symmetric] ago_def [symmetric] m_def [symmetric] runs1_def [symmetric]
      using f(1,2) none by simp
  qed
  show ?thesis
  proof (cases "told \<or> \<not> re_expects_completion e' \<or> MAX_ANNOUNCE_RETRY_COUNT \<le> m \<or> ANNOUNCE_EXPIRY_MS < ago")
    case True
    then obtain mode runs2 where f: "run_subagent_cleanup_flow fk hk w now i st = finish_flow fk hk now i mode runs2 st" "hm_wf runs2"
      using wf1 unfolding flow by (metis hm_wf_modify)
    then show ?thesis using finish_flow_done [OF f(2)] unfolding st'_def f(1) by blast
  next
    case False
    then have m: "m = Suc n" "Suc n < MAX_ANNOUNCE_RETRY_COUNT"
      by (auto simp: m_def sat_add_def MAX_ANNOUNCE_RETRY_COUNT_def min_def split: if_splits)
    have st': "st' = st\<lparr>fl_runs := hm_modify i (\<lambda>e. e\<lparr>re_retry_count := m, re_last_retry_at := Some now, re_cleanup_handled := False\<rparr>) runs1\<rparr>"
      using False unfolding st'_def flow by simp
    have keeps: "hm_wf (fl_runs st')" "fl_hooks st' = fl_hooks st" using wf1 by (simp_all add: st')
    show ?thesis
    proof (cases "hm_get runs1 i")
      case None
      then have "cleanup_done i st'" by (simp add: st' cleanup_done_def)
      then show ?thesis using keeps by simp
    next
      case (Some x)
      then have x: "x = e'" using get1 [OF Some] get by simp
      have leaf2: "re_requester y \<noteq> re_child e" if "hm_get (fl_runs st') k = Some y" for k y
        using that leaf' [OF get1, of i] leaf' [OF get1, of k] Some by (auto simp: st' split: if_splits)
      have "cleanup_due i (Suc n) st'"
        unfolding cleanup_due_def
        by (rule exI [of _ "e'\<lparr>re_retry_count := m, re_last_retry_at := Some now, re_cleanup_handled := False\<rparr>"])
           (use leaf2 e in \<open>simp add: st' Some x e'_def m(1)\<close>)
      then show ?thesis using m(2) keeps by simp
    qed
  qed
qed

lemma flows_done_stay: "cleanup_done i st \<Longrightarrow> cleanup_flows fk hk i ws st = st"
  by (induction ws) (auto simp: done_flow_skips)

lemma cleanup_flows_end:
  assumes "cleanup_due i n st" "hm_wf (fl_runs st)" "MAX_ANNOUNCE_RETRY_COUNT - n \<le> length ws" "ws \<noteq> []"
  shows "cleanup_done i (cleanup_flows fk hk i ws st) \<and>
    length (fl_hooks (cleanup_flows fk hk i ws st)) \<le> length (fl_hooks st) + 1"
  using assms
proof (induction ws arbitrary: n st)
  case (Cons wn ws)
  obtain w now where wn: "wn = (w, now)" by force
  let ?st = "snd (run_subagent_cleanup_flow fk hk w now i st)"
  note f = due_flow [OF Cons.prems(1,2), of fk hk w now]
  show ?case
  proof (cases "cleanup_done i ?st")
    case True
    then show ?thesis using f flows_done_stay [OF True] by (simp add: wn)
  next
    case False
    then have "cleanup_due i (Suc n) ?st" "Suc n < MAX_ANNOUNCE_RETRY_COUNT" "hm_wf (fl_runs ?st)" "fl_hooks ?st = fl_hooks st"
      using f by auto
    moreover from this have "ws \<noteq> []" "MAX_ANNOUNCE_RETRY_COUNT - Suc n \<le> length ws" using Cons.prems(3) by auto
    ultimately show ?thesis using Cons.IH [of "Suc n" ?st] by (simp add: wn)
  qed
qed simp


definition sample_run :: "string \<Rightarrow> string \<Rightarrow> string \<Rightarrow> run_entry" where
  "sample_run i requester child =
     \<lparr>re_run_id = i, re_requester = requester, re_child = child, re_label = ''job'', re_task = ''t'', re_model = ''m'', re_started_at = 1,
      re_ended_at = None, re_status = ''running'', re_error = None, re_usage = None, re_completion_reply = None,
      re_spawn_mode = ''run'', re_cleanup = ''keep'', re_thread_requested = False, re_expects_completion = True,
      re_suppress_reason = None, re_retry_count = 0, re_last_retry_at = None, re_cleanup_handled = False,
      re_cleanup_completed_at = None, re_ended_reason = None, re_ended_hook_at = None, re_timeout_seconds = 300, re_archive_at = None\<rparr>"

theorem descendants_exact_witness:
  "let runs = [(''a'', sample_run ''a'' ''main'' ''k1''), (''b'', sample_run ''b'' ''k1'' ''k2''), (''c'', sample_run ''c'' ''k2'' ''main''), (''d'', sample_run ''d'' ''x'' ''y'')]
   in sample_run ''c'' ''k2'' ''main'' \<in> set (collect_descendant_runs 5 ''main'' runs) \<and> distinct (map re_run_id (collect_descendant_runs 5 ''main'' runs))"
proof -
  define runs where "runs = [(''a'', sample_run ''a'' ''main'' ''k1''), (''b'', sample_run ''b'' ''k1'' ''k2''), (''c'', sample_run ''c'' ''k2'' ''main''), (''d'', sample_run ''d'' ''x'' ''y'')]"
  have d: "distinct (map (re_run_id \<circ> snd) runs)" by (simp add: runs_def sample_run_def)
  define live where "live = map snd (sweep_archived_runs 5 runs)"
  have live: "live = map snd runs"
    by (simp add: live_def runs_def sweep_archived_runs_def hm_retain_def archived_def sample_run_def)
  have "(''main'', ''k1'') \<in> spawn_rel live" "(''k1'', ''k2'') \<in> spawn_rel live"
    unfolding live by (simp_all add: runs_def spawn_rel_def sample_run_def)
  then have reach: "(''main'', ''k2'') \<in> (spawn_rel live)\<^sup>*" by (rule rtrancl_trans [OF r_into_rtrancl r_into_rtrancl])
  have mem: "sample_run ''c'' ''k2'' ''main'' \<in> set live" "re_requester (sample_run ''c'' ''k2'' ''main'') = ''k2''"
    unfolding live by (simp_all add: runs_def sample_run_def)
  have ex: "set (collect_descendant_runs 5 ''main'' runs) = {e \<in> set live. (''main'', re_requester e) \<in> (spawn_rel live)\<^sup>*}"
    "distinct (map re_run_id (collect_descendant_runs 5 ''main'' runs))"
    using descendants_exact [OF d, of 5 "''main''"] unfolding live_def Let_def by simp_all
  have "sample_run ''c'' ''k2'' ''main'' \<in> set (collect_descendant_runs 5 ''main'' runs)"
    using ex(1) mem reach by simp
  then show ?thesis using ex(2) unfolding runs_def Let_def by (rule conjI)
qed

definition silent_world :: flow_world where
  "silent_world = \<lparr>fw_step = None, fw_delivered = False, fw_defer = False, fw_has_target = False, fw_send_ok = False, fw_queue_accepts = False\<rparr>"

definition ended_state :: flow_state where
  "ended_state = \<lparr>fl_runs = end_run 2 (RunFailed ''x'') ''r'' [(''r'', sample_run ''r'' ''main'' ''kid'')], fl_db = empty_db, fl_hooks = []\<rparr>"


text \<open>
  The end of a run overwrites a kill that came first: the run's task, already past its last waiting point, is not stopped by
  the abort and marks the killed run as done with its cleanup open again.
\<close>

lemma end_overwrites_kill:
  "let e = end_entry 4 (RunDone ''ok'' default_usage) (kill_entry 3 (sample_run ''r'' ''main'' ''kid'')) in
   re_status e = ''done'' \<and> \<not> re_cleanup_handled e \<and> re_cleanup_completed_at e = None \<and> re_error e = Some ''killed by subagents tool''"
  by (simp add: sample_run_def kill_entry_def default_archive_def Let_def)

text \<open>A run that a restart interrupted is reported as ended well: the hook gets the outcome of a success and the announcement says that it finished.\<close>

lemma interrupted_reported_ok:
  assumes "re_ended_at e = None" "\<not> eq_ignore_case (re_spawn_mode e) ''session''"
  shows "ended_outcome (re_status (restore_entry now e)) = ''ok''"
    and "completion_header nm (re_spawn_mode e) (re_status (restore_entry now e)) = ''Subagent '' @ nm @ '' finished.''"
  using assms by (simp_all add: restore_entry_def default_archive_def ended_outcome_def completion_header_def Let_def)

section \<open>Starting a run\<close>

definition DEFAULT_RUN_TIMEOUT :: nat where "DEFAULT_RUN_TIMEOUT = 300"

record spawn_request =
  sq_agent :: string
  sq_task :: string
  sq_label :: string
  sq_model :: string
  sq_timeout :: nat
  sq_expects :: bool
  sq_thread :: bool
  sq_mode :: string
  sq_cleanup :: string

definition get_str :: "json \<Rightarrow> string \<Rightarrow> string option" where
  "get_str v f = Option.bind (json_get v f) json_as_str"

definition get_bool :: "json \<Rightarrow> string \<Rightarrow> bool option" where
  "get_bool v f = (case json_get v f of Some (JBool b) \<Rightarrow> Some b | _ \<Rightarrow> None)"

definition get_u64 :: "json \<Rightarrow> string \<Rightarrow> nat option" where
  "get_u64 v f = Option.bind (json_get v f) json_as_u64"

definition mode_name :: "string \<Rightarrow> string" where
  "mode_name m = (if eq_ignore_case m ''session'' then ''session'' else ''run'')"

definition cleanup_name :: "string \<Rightarrow> string" where
  "cleanup_name m = (if eq_ignore_case m ''delete'' then ''delete'' else ''keep'')"

definition parse_spawn_request :: "json option \<Rightarrow> string option \<Rightarrow> json \<Rightarrow> (string, spawn_request) result" where
  "parse_spawn_request agents provider_model v =
     (let agent = sanitize_session_token (unwrap_or ''default'' (non_empty (or_else (get_str v ''agent_id'') (get_str v ''agentId''))));
          task = trim (unwrap_or [] (or_else (get_str v ''task'') (get_str v ''prompt'')));
          thread = unwrap_or False (get_bool v ''thread'');
          model = unwrap_or ''default''
             (or_else (non_empty (get_str v ''model'')) (or_else (resolve_subagent_model_hint agents agent) provider_model));
          mode = (case non_empty (get_str v ''mode'') of
              Some m \<Rightarrow> mode_name m | None \<Rightarrow> if thread then ''session'' else ''run'');
          cleanup = (case non_empty (get_str v ''cleanup'') of Some c \<Rightarrow> cleanup_name c | None \<Rightarrow> ''keep'')
      in if task = [] then Inl ''sessions_spawn: missing task/prompt''
         else Inr \<lparr>sq_agent = agent, sq_task = task, sq_label = unwrap_or agent (non_empty (get_str v ''label'')), sq_model = model,
                   sq_timeout = unwrap_or DEFAULT_RUN_TIMEOUT (or_else (get_u64 v ''run_timeout_seconds'')
                      (or_else (get_u64 v ''runTimeoutSeconds'') (get_u64 v ''timeoutSeconds''))),
                   sq_expects = unwrap_or True (or_else (get_bool v ''expectsCompletionMessage'') (get_bool v ''expects_completion_message'')),
                   sq_thread = thread, sq_mode = mode, sq_cleanup = cleanup\<rparr>)"

text \<open>What the spawning hook answers: there is none, it fails, or it returns a text, parsed when it is JSON.\<close>

datatype spawn_hook = NoHooks | HookFailed string | HookAnswer "json option"

datatype spawn_reply =
    SpawnFailed string
  | SpawnError string
  | SpawnForbidden string
  | SpawnAccepted string string

definition hook_delivery_value :: "json \<Rightarrow> json option" where
  "hook_delivery_value v =
     or_else (json_get v ''deliveryTarget'') (or_else (json_get v ''boundDeliveryTarget'') (or_else (json_get v ''origin'')
       (or_else (json_get v ''requesterOrigin'')
          (if json_get v ''channel'' \<noteq> None \<or> json_get v ''to'' \<noteq> None then Some v else None))))"

definition patch_request :: "json \<Rightarrow> spawn_request \<Rightarrow> spawn_request" where
  "patch_request v r =
     r\<lparr>sq_label := unwrap_or (sq_label r) (non_empty (get_str v ''label'')),
       sq_task := unwrap_or (sq_task r) (non_empty (get_str v ''task'')),
       sq_model := unwrap_or (sq_model r) (non_empty (get_str v ''model'')),
       sq_thread := unwrap_or (sq_thread r) (get_bool v ''thread''),
       sq_mode := (case non_empty (get_str v ''mode'') of Some m \<Rightarrow> mode_name m | None \<Rightarrow> sq_mode r),
       sq_cleanup := (case non_empty (get_str v ''cleanup'') of Some c \<Rightarrow> cleanup_name c | None \<Rightarrow> sq_cleanup r)\<rparr>"

definition session_needs_thread :: string where
  "session_needs_thread = ''mode=\"session\" requires thread=true so the subagent can stay bound to a thread.''"

text \<open>The hook's answer applied to the request: the request, whether the thread is bound, and the delivery target.\<close>

definition apply_spawn_hook ::
  "spawn_hook \<Rightarrow> spawn_request \<Rightarrow> (spawn_reply, spawn_request \<times> bool \<times> announce_target option) result" where
  "apply_spawn_hook h r =
     (case h of
        NoHooks \<Rightarrow>
          if sq_thread r then Inl (SpawnError ''thread=true is unavailable because no channel plugin registered subagent_spawning hooks.'')
          else Inr (r, \<not> sq_thread r, None)
      | HookFailed e \<Rightarrow> Inl (SpawnFailed (''subagent_spawning hook failed: '' @ e))
      | HookAnswer None \<Rightarrow> Inr (r, \<not> sq_thread r, None)
      | HookAnswer (Some v) \<Rightarrow>
          if sq_thread r \<and> to_lowercase (trim (unwrap_or [] (get_str v ''status''))) = ''error'' then
            Inl (SpawnError (unwrap_or ''Failed to prepare thread binding for this subagent session.'' (non_empty (get_str v ''error''))))
          else Inr (patch_request v r,
                    (if sq_thread r then unwrap_or False (get_bool v ''threadBindingReady'') else True),
                    Option.bind (hook_delivery_value v) parse_delivery_target_from_hook))"

definition keep_sessions :: "spawn_request \<Rightarrow> spawn_request" where
  "keep_sessions r = (if sq_mode r = ''session'' then r\<lparr>sq_cleanup := ''keep''\<rparr> else r)"

definition allow_text :: "string list \<Rightarrow> string" where
  "allow_text allow =
     (let names = map sanitize_session_token (filter (\<lambda>v. v \<noteq> ''*'') allow) in if names = [] then ''none'' else join_with '', '' names)"

definition prepare_spawn ::
  "json option \<Rightarrow> spawn_hook \<Rightarrow> string \<Rightarrow> spawn_request \<Rightarrow> (spawn_reply, spawn_request \<times> bool \<times> announce_target option) result" where
  "prepare_spawn agents h requester r0 =
     (let mine = resolve_agent_id_from_session_key requester;
          allow = resolve_subagent_allow_agents agents mine
      in if sq_mode r0 = ''session'' \<and> \<not> sq_thread r0 then Inl (SpawnError session_needs_thread)
         else if sq_agent r0 \<noteq> mine \<and> \<not> is_agent_allowed_by_allowlist allow (sq_agent r0) then
           Inl (SpawnForbidden (''agentId is not allowed for sessions_spawn (allowed: '' @ allow_text allow @ '')''))
         else case apply_spawn_hook h (keep_sessions r0) of
           Inl e \<Rightarrow> Inl e
         | Inr (r, ready, target) \<Rightarrow>
             if sq_mode r = ''session'' \<and> \<not> sq_thread r then Inl (SpawnError session_needs_thread)
             else if sq_thread r \<and> \<not> ready then
               Inl (SpawnError ''Unable to create or bind a thread for this subagent session. Session mode is unavailable for this target.'')
             else if trim (sq_task r) = [] then Inl (SpawnFailed ''sessions_spawn: task was cleared by subagent_spawning hook'')
             else Inr (keep_sessions r, ready, target))"

text \<open>The checks that read the stores: the depth of the caller and its running children.\<close>

definition check_spawn_limits :: "json option \<Rightarrow> int \<Rightarrow> string \<Rightarrow> runs \<Rightarrow> session_db \<Rightarrow> (spawn_reply, nat) result" where
  "check_spawn_limits agents now requester runs db =
     (let (max_depth, max_children) = resolve_subagent_limits agents;
          depth = resolve_spawn_depth db requester;
          children = count_active_children now requester runs
      in if max_depth \<le> depth then
           Inl (SpawnForbidden (''sessions_spawn is not allowed at this depth (current depth: '' @ show_nat depth @ '', max: '' @ show_nat max_depth @ '')''))
         else if max_children \<le> children then
           Inl (SpawnForbidden (''sessions_spawn has reached max active children for this session ('' @ show_nat children @ ''/'' @ show_nat max_children @ '')''))
         else Inr (sat_add u32_max depth 1))"

definition set_fields :: "bool \<Rightarrow> string \<Rightarrow> metadata \<Rightarrow> session_db \<Rightarrow> session_db" where
  "set_fields fk key fs db = fold (\<lambda>(f, v) d. snd (set_session_metadata_field fk key f v d)) fs db"

definition spawn_fields :: "spawn_request \<Rightarrow> string option \<Rightarrow> nat \<Rightarrow> metadata" where
  "spawn_fields r parent depth =
     (case parent of Some p \<Rightarrow> [(''spawnedBy'', p), (''parentSessionKey'', p)] | None \<Rightarrow> []) @
     [(''targetKind'', ''subagent''), (''subagentLabel'', sq_label r), (''label'', sq_label r), (''subagentTask'', sq_task r),
      (''spawnDepth'', show_nat depth), (''spawnMode'', sq_mode r), (''cleanupPolicy'', sq_cleanup r),
      (''threadRequested'', if sq_thread r then ''true'' else ''false''), (''runTimeoutSeconds'', show_nat (sq_timeout r))] @
     (if sq_model r = [] then [] else [(''modelOverride'', sq_model r)])"

definition target_fields :: "announce_target \<Rightarrow> metadata" where
  "target_fields t =
     [(''delivery.channel'', at_channel t), (''delivery.to'', at_to t)] @
     (case non_empty (at_account_id t) of Some a \<Rightarrow> [(''delivery.accountId'', a)] | None \<Rightarrow> []) @
     (case non_empty (at_thread_id t) of Some a \<Rightarrow> [(''delivery.threadId'', a)] | None \<Rightarrow> [])"

definition new_run :: "json option \<Rightarrow> int \<Rightarrow> string \<Rightarrow> string \<Rightarrow> string \<Rightarrow> spawn_request \<Rightarrow> run_entry" where
  "new_run agents now run_id requester child r =
     \<lparr>re_run_id = run_id, re_requester = requester, re_child = child, re_label = sq_label r, re_task = sq_task r, re_model = sq_model r,
      re_started_at = now, re_ended_at = None, re_status = ''running'', re_error = None, re_usage = None,
      re_completion_reply = None, re_spawn_mode = sq_mode r, re_cleanup = sq_cleanup r, re_thread_requested = sq_thread r,
      re_expects_completion = sq_expects r, re_suppress_reason = None, re_retry_count = 0, re_last_retry_at = None,
      re_cleanup_handled = False, re_cleanup_completed_at = None, re_ended_reason = None, re_ended_hook_at = None,
      re_timeout_seconds = sq_timeout r,
      re_archive_at = (if eq_ignore_case (sq_mode r) ''session'' then None
                       else map_option (i64_sat_add now) (resolve_subagent_archive_after_ms agents))\<rparr>"

text \<open>The outside of a spawn: the configuration, the serialiser of bindings, fresh ids, the clock, and whether there is a provider.\<close>

record spawn_env =
  se_agents :: "json option"
  se_fk :: bool
  se_read_bindings :: "string \<Rightarrow> session_binding list"
  se_show_bindings :: "session_binding list \<Rightarrow> string"
  se_thread_suffix :: "string \<Rightarrow> (string \<times> string) option"
  se_now :: int
  se_child_id :: string
  se_run_id :: string
  se_binding_id :: string
  se_provider :: bool

definition spawn_child_key :: "spawn_env \<Rightarrow> spawn_request \<Rightarrow> string" where
  "spawn_child_key env r = ''agent:'' @ sq_agent r @ '':subagent:'' @ se_child_id env"

definition bind_thread :: "spawn_env \<Rightarrow> string \<Rightarrow> string \<Rightarrow> announce_target option \<Rightarrow> session_db \<Rightarrow> session_db" where
  "bind_thread env key requester hook_target db =
     (case or_else hook_target (resolve_announce_target (se_thread_suffix env) db requester requester) of
        None \<Rightarrow> db
      | Some t \<Rightarrow>
          snd (upsert_session_binding (se_fk env) (se_read_bindings env) (se_show_bindings env) (se_now env) (se_binding_id env)
                 key ''subagent'' t (set_fields (se_fk env) key (target_fields t) db)))"

text \<open>The writes of an accepted request: the session with its metadata and first message, and the run.\<close>

definition commit_spawn ::
  "spawn_env \<Rightarrow> string \<Rightarrow> string option \<Rightarrow> spawn_request \<Rightarrow> bool \<Rightarrow> announce_target option \<Rightarrow> nat \<Rightarrow> runs \<Rightarrow> session_db \<Rightarrow>
   spawn_reply \<times> runs \<times> session_db" where
  "commit_spawn env requester parent r ready hook_target depth runs db =
     (let key = spawn_child_key env r; fk = se_fk env; now = se_now env;
          db1 = snd (create_session now key (sq_agent r) db);
          db2 = set_fields fk key (spawn_fields r parent depth) db1;
          db3 = (if sq_thread r \<and> ready then bind_thread env key requester hook_target db2 else db2)
      in case add_message fk now key ''user'' (sq_task r) db3 of
           (Inl _, db4) \<Rightarrow> (SpawnFailed ''Failed to add message'', runs, db4)
         | (Inr _, db4) \<Rightarrow>
             if se_provider env then
               (SpawnAccepted (se_run_id env) key,
                hm_insert (se_run_id env) (new_run (se_agents env) now (se_run_id env) requester key r) (sweep_archived_runs now runs),
                set_fields fk key [(''subagentRunId'', se_run_id env)] db4)
             else (SpawnError ''subagent run requires llm provider'', sweep_archived_runs now runs, snd (remove_session fk key db4)))"

definition sessions_spawn ::
  "spawn_env \<Rightarrow> spawn_hook \<Rightarrow> string option \<Rightarrow> string option \<Rightarrow> json \<Rightarrow> runs \<Rightarrow> session_db \<Rightarrow> spawn_reply \<times> runs \<times> session_db" where
  "sessions_spawn env h provider_model session_id v runs db =
     (let requester = requester_key_of session_id;
          parent = or_else (get_str v ''parent_session_key'') session_id
      in case parse_spawn_request (se_agents env) provider_model v of
           Inl e \<Rightarrow> (SpawnFailed e, runs, db)
         | Inr r0 \<Rightarrow>
             (case prepare_spawn (se_agents env) h requester r0 of
                Inl reply \<Rightarrow> (reply, runs, db)
              | Inr (r, ready, hook_target) \<Rightarrow>
                  (case check_spawn_limits (se_agents env) (se_now env) requester runs db of
                     Inl reply \<Rightarrow> (reply, runs, db)
                   | Inr depth \<Rightarrow> commit_spawn env requester parent r ready hook_target depth (sweep_archived_runs (se_now env) runs) db)))"

section \<open>What a spawn writes\<close>

lemma field_other:
  "trim f \<noteq> g \<Longrightarrow> hm_get (db_metadata (snd (set_session_metadata_field fk k f v db))) (k', g) = hm_get (db_metadata db) (k', g)"
  by (simp add: set_session_metadata_field_def put_metadata_def)

lemma field_same:
  "has_session k db \<Longrightarrow> trim f = f \<Longrightarrow> f \<noteq> [] \<Longrightarrow>
   hm_get (db_metadata (snd (set_session_metadata_field fk k f v db))) (k, f) = Some v"
  by (simp add: set_session_metadata_field_def put_metadata_def)

lemma field_sessions: "db_sessions (snd (set_session_metadata_field fk k f v db)) = db_sessions db"
  by (simp add: set_session_metadata_field_def put_metadata_def)

lemma set_fields_append: "set_fields fk k (fs @ gs) db = set_fields fk k gs (set_fields fk k fs db)"
  by (simp add: set_fields_def)

lemma set_fields_Cons: "set_fields fk k ((f, v) # fs) db = set_fields fk k fs (snd (set_session_metadata_field fk k f v db))"
  by (simp add: set_fields_def)

lemma set_fields_sessions: "db_sessions (set_fields fk k fs db) = db_sessions db"
  by (induction fs arbitrary: db) (auto simp: set_fields_Cons field_sessions, simp add: set_fields_def)

lemma set_fields_other:
  "\<forall>e\<in>set fs. trim (fst e) \<noteq> g \<Longrightarrow> hm_get (db_metadata (set_fields fk k fs db)) (k', g) = hm_get (db_metadata db) (k', g)"
proof (induction fs arbitrary: db)
  case Nil
  then show ?case by (simp add: set_fields_def)
next
  case (Cons e fs)
  obtain f v where "e = (f, v)" by force
  then show ?case using Cons by (simp add: set_fields_Cons field_other)
qed

definition binding_fields :: "string list" where
  "binding_fields = [''delivery.channel'', ''delivery.to'', ''delivery.accountId'', ''delivery.threadId'', ''deliveryBindings'', ''subagentDeliveryBindings'']"

lemma binding_fields_trim: "f \<in> set binding_fields \<Longrightarrow> trim f = f"
  by (rule trim_visible) (auto simp: binding_fields_def visible_ascii_def)

lemma write_bindings_other:
  "g \<notin> set binding_fields \<Longrightarrow> hm_get (db_metadata (write_session_bindings fk sh k bs db)) (k', g) = hm_get (db_metadata db) (k', g)"
  "db_sessions (write_session_bindings fk sh k bs db) = db_sessions db"
  using binding_fields_trim [of "''subagentDeliveryBindings''"] binding_fields_trim [of "''deliveryBindings''"]
  by (auto simp: write_session_bindings_def field_other field_sessions binding_fields_def)

lemma upsert_other:
  "g \<notin> set binding_fields \<Longrightarrow>
   hm_get (db_metadata (snd (upsert_session_binding fk rb sh now i k kd t db))) (k', g) = hm_get (db_metadata db) (k', g)"
  "db_sessions (snd (upsert_session_binding fk rb sh now i k kd t db)) = db_sessions db"
  by (simp_all add: upsert_session_binding_def write_bindings_other Let_def split: option.split)

lemma bind_thread_other:
  "g \<notin> set binding_fields \<Longrightarrow> hm_get (db_metadata (bind_thread env k rq ht db)) (k', g) = hm_get (db_metadata db) (k', g)"
  "db_sessions (bind_thread env k rq ht db) = db_sessions db"
proof -
  have tf: "fst e \<in> set binding_fields" if "e \<in> set (target_fields t)" for e t
    using that by (auto simp: target_fields_def binding_fields_def split: option.splits)
  show "hm_get (db_metadata (bind_thread env k rq ht db)) (k', g) = hm_get (db_metadata db) (k', g)" if g: "g \<notin> set binding_fields"
  proof -
    have "hm_get (db_metadata (set_fields fk k (target_fields t) db)) (k', g) = hm_get (db_metadata db) (k', g)" for fk t
      by (rule set_fields_other) (use tf binding_fields_trim g in metis)
    then show ?thesis by (simp add: bind_thread_def upsert_other(1) [OF g] split: option.split)
  qed
  show "db_sessions (bind_thread env k rq ht db) = db_sessions db"
    by (simp add: bind_thread_def upsert_other(2) set_fields_sessions split: option.split)
qed

text \<open>The depth that a spawn writes is the one that is read back for the child.\<close>

lemma spawn_fields_depth:
  assumes "has_session k db"
  shows "hm_get (db_metadata (set_fields fk k (spawn_fields r parent d) db)) (k, ''spawnDepth'') = Some (show_nat d)"
proof -
  define pre where "pre = (case parent of Some p \<Rightarrow> [(''spawnedBy'', p), (''parentSessionKey'', p)] | None \<Rightarrow> []) @
     [(''targetKind'', ''subagent''), (''subagentLabel'', sq_label r), (''label'', sq_label r), (''subagentTask'', sq_task r)]"
  define post where "post = [(''spawnMode'', sq_mode r), (''cleanupPolicy'', sq_cleanup r),
      (''threadRequested'', if sq_thread r then ''true'' else ''false''), (''runTimeoutSeconds'', show_nat (sq_timeout r))] @
     (if sq_model r = [] then [] else [(''modelOverride'', sq_model r)])"
  have split: "spawn_fields r parent d = pre @ (''spawnDepth'', show_nat d) # post"
    by (simp add: spawn_fields_def pre_def post_def)
  have vis: "trim ''spawnDepth'' = ''spawnDepth''" by (rule trim_visible) (simp add: visible_ascii_def)
  have tp: "trim f \<noteq> ''spawnDepth''"
    if "f \<in> {''spawnMode'', ''cleanupPolicy'', ''threadRequested'', ''runTimeoutSeconds'', ''modelOverride''}" for f
    by (subst trim_visible) (use that in \<open>auto simp: visible_ascii_def\<close>)
  have other: "\<forall>e\<in>set post. trim (fst e) \<noteq> ''spawnDepth''"
    unfolding post_def using tp by (auto split: if_splits)
  have "has_session k (set_fields fk k pre db)" using assms by (simp add: has_session_def set_fields_sessions)
  then show ?thesis
    unfolding split set_fields_append set_fields_Cons set_fields_other [OF other] by (simp add: field_same vis)
qed

lemma created_has_session: "has_session k (snd (create_session now k a db))"
proof -
  have kk: "keeps_key (\<lambda>r. r\<lparr>sr_agent_id := a, sr_updated_at := now\<rparr>)" by (simp add: keeps_key_def)
  show ?thesis by (simp add: create_session_def Let_def has_update_sessions [OF kk]) (simp add: has_session_def)
qed

lemma add_message_metadata: "db_metadata (snd (add_message fk now k role txt' db)) = db_metadata db"
  by (simp add: add_message_def Let_def update_sessions_def)

lemma depth_read_back:
  assumes "hm_get (db_metadata db) (k, ''spawnDepth'') = Some (show_nat d)" "d < 2 ^ 32"
  shows "resolve_spawn_depth db k = d"
  using assms by (intro spawn_depth_explicit) (simp add: parse_spawn_depth_meta_def metadata_get non_empty_def trim_show_nat parse_show_u32 show_nat_not_Nil or_else_def)

lemma limits_u32: "fst (resolve_subagent_limits agents) < 2 ^ 32"
  by (simp add: resolve_subagent_limits_def Let_def DEFAULT_SUBAGENT_MAX_SPAWN_DEPTH_def split: option.split)

lemma commit_depth:
  assumes "commit_spawn env rq parent r ready ht d runs db = (SpawnAccepted i key, runs', db')" "d < 2 ^ 32"
  shows "key = spawn_child_key env r" and "i = se_run_id env" and "resolve_spawn_depth db' key = d"
    and "runs' = hm_insert i (new_run (se_agents env) (se_now env) i rq key r) (sweep_archived_runs (se_now env) runs)"
proof -
  define k fk where "k = spawn_child_key env r" and "fk = se_fk env"
  define db2 where "db2 = set_fields fk k (spawn_fields r parent d) (snd (create_session (se_now env) k (sq_agent r) db))"
  define db3 where "db3 = (if sq_thread r \<and> ready then bind_thread env k rq ht db2 else db2)"
  define db4 where "db4 = snd (add_message fk (se_now env) k ''user'' (sq_task r) db3)"
  have "commit_spawn env rq parent r ready ht d runs db =
    (case add_message fk (se_now env) k ''user'' (sq_task r) db3 of
           (Inl _, db4) \<Rightarrow> (SpawnFailed ''Failed to add message'', runs, db4)
         | (Inr _, db4) \<Rightarrow>
             if se_provider env then
               (SpawnAccepted (se_run_id env) k,
                hm_insert (se_run_id env) (new_run (se_agents env) (se_now env) (se_run_id env) rq k r) (sweep_archived_runs (se_now env) runs),
                set_fields fk k [(''subagentRunId'', se_run_id env)] db4)
             else (SpawnError ''subagent run requires llm provider'', sweep_archived_runs (se_now env) runs, snd (remove_session fk k db4)))"
    unfolding commit_spawn_def Let_def k_def fk_def db3_def db2_def by simp
  then have acc: "key = k" "i = se_run_id env" "db' = set_fields fk k [(''subagentRunId'', se_run_id env)] db4"
    "runs' = hm_insert i (new_run (se_agents env) (se_now env) i rq key r) (sweep_archived_runs (se_now env) runs)"
    using assms(1) by (auto simp: db4_def split: prod.splits sum.splits if_splits)
  show "key = spawn_child_key env r" "i = se_run_id env"
    and "runs' = hm_insert i (new_run (se_agents env) (se_now env) i rq key r) (sweep_archived_runs (se_now env) runs)"
    using acc by (simp_all add: k_def)
  have d2: "hm_get (db_metadata db2) (k, ''spawnDepth'') = Some (show_nat d)"
    unfolding db2_def by (rule spawn_fields_depth) (rule created_has_session)
  have "hm_get (db_metadata db4) (k, ''spawnDepth'') = Some (show_nat d)"
    using d2 by (simp add: db4_def add_message_metadata db3_def bind_thread_other(1) binding_fields_def)
  moreover have "trim ''subagentRunId'' \<noteq> ''spawnDepth''" by (subst trim_visible) (simp_all add: visible_ascii_def)
  ultimately have "hm_get (db_metadata db') (k, ''spawnDepth'') = Some (show_nat d)"
    unfolding acc(3) by (subst set_fields_other) auto
  then show "resolve_spawn_depth db' key = d" unfolding acc(1) using assms(2) by (rule depth_read_back)
qed

text \<open>An insertion adds at most one run to a count.\<close>

lemma count_update_le:
  "length (filter P (map snd (AList.update k v m))) \<le> length (filter P (map snd m)) + 1"
  by (induction m) auto

lemma sweep_twice: "sweep_archived_runs now (sweep_archived_runs now runs) = sweep_archived_runs now runs"
  by (simp add: sweep_archived_runs_def hm_retain_def)

lemma sweep_count_le:
  "length (filter P (map snd (sweep_archived_runs now runs))) \<le> length (filter P (map snd runs))"
  by (induction runs) (auto simp: sweep_archived_runs_def hm_retain_def)

lemma count_after_insert:
  "count_active_children now rq (hm_insert i e (sweep_archived_runs now runs)) \<le> count_active_children now rq runs + 1"
  unfolding count_active_children_def
  using sweep_count_le [of "active_for rq" now "hm_insert i e (sweep_archived_runs now runs)"]
    count_update_le [of "active_for rq" i e "sweep_archived_runs now runs"] by linarith

text \<open>The checks before anything is written.\<close>

lemma prepare_allows:
  assumes "prepare_spawn agents h rq r0 = Inr (r, ready, ht)"
  defines "mine \<equiv> resolve_agent_id_from_session_key rq"
  shows "sq_agent r = sq_agent r0"
    and "sq_agent r0 = mine \<or> is_agent_allowed_by_allowlist (resolve_subagent_allow_agents agents mine) (sq_agent r0)"
    and "sq_mode r = ''session'' \<longrightarrow> sq_thread r \<and> sq_cleanup r = ''keep''" and "sq_thread r \<longrightarrow> ready"
proof -
  have agent: "sq_agent r' = sq_agent q" if "apply_spawn_hook h q = Inr (r', x, y)" for q r' x y
    using that by (auto simp: apply_spawn_hook_def patch_request_def split: spawn_hook.splits option.splits if_splits)
  show "sq_agent r = sq_agent r0"
    using assms(1) agent [of "keep_sessions r0"]
    by (auto simp: prepare_spawn_def Let_def keep_sessions_def split: sum.splits if_splits)
  show "sq_agent r0 = mine \<or> is_agent_allowed_by_allowlist (resolve_subagent_allow_agents agents mine) (sq_agent r0)"
    and "sq_mode r = ''session'' \<longrightarrow> sq_thread r \<and> sq_cleanup r = ''keep''" and "sq_thread r \<longrightarrow> ready"
    using assms(1) by (auto simp: prepare_spawn_def Let_def keep_sessions_def mine_def split: sum.splits if_splits)
qed

lemma refusals_not_accepted:
  "prepare_spawn agents h rq r0 \<noteq> Inl (SpawnAccepted i k)" "check_spawn_limits agents now rq runs db \<noteq> Inl (SpawnAccepted i k)"
  by (auto simp: prepare_spawn_def apply_spawn_hook_def check_spawn_limits_def Let_def
      split: sum.splits if_splits spawn_hook.splits option.splits prod.splits)

text \<open>C17: An accepted spawn respects the configured limits: the agent is the caller's own or on its allow list, the caller is
  above the maximal depth and has fewer running children than allowed; afterwards the depth of the child, as it is
  read for its own spawns, is one more than the caller's and at most the maximum, the caller's running children are at
  most the maximum, and a session that stays is bound to a thread and is kept.
\<close>

theorem spawn_respects_limits:
  assumes "sessions_spawn env h pm sid v runs db = (SpawnAccepted i key, runs', db')"
    and "resolve_subagent_limits (se_agents env) = (max_depth, max_children)"
  defines "rq \<equiv> requester_key_of sid"
  shows "\<exists>r. key = spawn_child_key env r \<and> hm_get runs' i = Some (new_run (se_agents env) (se_now env) i rq key r)
    \<and> (sq_agent r = resolve_agent_id_from_session_key rq
        \<or> is_agent_allowed_by_allowlist
            (resolve_subagent_allow_agents (se_agents env) (resolve_agent_id_from_session_key rq)) (sq_agent r))
    \<and> (sq_mode r = ''session'' \<longrightarrow> sq_thread r \<and> sq_cleanup r = ''keep'')
    \<and> resolve_spawn_depth db' key = resolve_spawn_depth db rq + 1 \<and> resolve_spawn_depth db' key \<le> max_depth
    \<and> count_active_children (se_now env) rq runs < max_children \<and> count_active_children (se_now env) rq runs' \<le> max_children"
proof -
  obtain r0 where r0: "parse_spawn_request (se_agents env) pm v = Inr r0"
    using assms(1) by (auto simp: sessions_spawn_def Let_def split: sum.splits)
  obtain r ready ht where pr: "prepare_spawn (se_agents env) h rq r0 = Inr (r, ready, ht)"
    using assms(1) r0 refusals_not_accepted(1) [of _ h] by (auto simp: sessions_spawn_def Let_def rq_def split: sum.splits)
  obtain d where d: "check_spawn_limits (se_agents env) (se_now env) rq runs db = Inr d"
    using assms(1) r0 pr refusals_not_accepted(2) by (auto simp: sessions_spawn_def Let_def rq_def split: sum.splits)
  have lim: "resolve_spawn_depth db rq < max_depth" "count_active_children (se_now env) rq runs < max_children"
    "d = sat_add u32_max (resolve_spawn_depth db rq) 1"
    using d assms(2) by (auto simp: check_spawn_limits_def Let_def split: if_splits)
  have "max_depth < 2 ^ 32" using limits_u32 [of "se_agents env"] assms(2) by simp
  then have depth: "d = resolve_spawn_depth db rq + 1" "d < 2 ^ 32" using lim(1) unfolding lim(3) by (simp_all add: sat_add_def)
  have "commit_spawn env rq (or_else (get_str v ''parent_session_key'') sid) r ready ht d (sweep_archived_runs (se_now env) runs) db =
      (SpawnAccepted i key, runs', db')"
    using assms(1) r0 pr d by (simp add: sessions_spawn_def Let_def rq_def)
  note c = commit_depth [OF this depth(2)]
  have "count_active_children (se_now env) rq runs' \<le> count_active_children (se_now env) rq runs + 1"
    using count_after_insert [of "se_now env" rq i "new_run (se_agents env) (se_now env) i rq key r" runs] by (simp add: c(4) sweep_twice)
  then show ?thesis
    using c prepare_allows [OF pr] lim depth by (intro exI [of _ r]) auto
qed

definition sample_env :: spawn_env where
  "sample_env = \<lparr>se_agents = None, se_fk = True, se_read_bindings = (\<lambda>_. []), se_show_bindings = (\<lambda>_. ''[]''), se_thread_suffix = (\<lambda>_. None),
     se_now = 10, se_child_id = ''c1'', se_run_id = ''r1'', se_binding_id = ''b1'', se_provider = True\<rparr>"

definition sample_call :: json where
  "sample_call = JObject [(''agent_id'', JString ''main''), (''task'', JString ''look'')]"

definition sample_request :: spawn_request where
  "sample_request = \<lparr>sq_agent = ''main'', sq_task = ''look'', sq_label = ''main'', sq_model = ''default'', sq_timeout = 300, sq_expects = True,
     sq_thread = False, sq_mode = ''run'', sq_cleanup = ''keep''\<rparr>"

lemma sample_accepted:
  "parse_spawn_request None None sample_call = Inr sample_request"
  "prepare_spawn None NoHooks ''agent:main:main'' sample_request = Inr (sample_request, True, None)"
  "resolve_spawn_depth empty_db ''agent:main:main'' = 0" "resolve_subagent_limits None = (1, 5)"
  "case commit_spawn sample_env ''agent:main:main'' (Some ''agent:main:main'') sample_request True None 1 [] empty_db of
     (SpawnAccepted i k, _) \<Rightarrow> i = ''r1'' \<and> k = ''agent:main:subagent:c1'' | _ \<Rightarrow> False"
      apply code_simp
     apply code_simp
    apply code_simp
   apply code_simp
  apply code_simp
  done

theorem spawn_respects_limits_witness:
  "\<exists>i key runs' db'. sessions_spawn sample_env NoHooks None (Some ''agent:main:main'') sample_call [] empty_db = (SpawnAccepted i key, runs', db')
     \<and> resolve_spawn_depth db' key = 1"
proof -
  have env: "se_agents sample_env = None" "se_now sample_env = 10" by (simp_all add: sample_env_def)
  have rq: "requester_key_of (Some ''agent:main:main'') = ''agent:main:main''" by code_simp
  have sw: "sweep_archived_runs now [] = []" for now by (simp add: sweep_archived_runs_def hm_retain_def)
  have lim: "check_spawn_limits None 10 ''agent:main:main'' [] empty_db = Inr 1"
    by (simp add: check_spawn_limits_def Let_def sample_accepted(3,4) count_active_children_def sw sat_add_def)
  have par: "or_else (get_str sample_call ''parent_session_key'') (Some ''agent:main:main'') = Some ''agent:main:main''" by code_simp
  have "sessions_spawn sample_env NoHooks None (Some ''agent:main:main'') sample_call [] empty_db =
    commit_spawn sample_env ''agent:main:main'' (Some ''agent:main:main'') sample_request True None 1 [] empty_db"
    by (simp add: sessions_spawn_def Let_def env rq sample_accepted(1,2) lim par sw)
  then obtain i key runs' db' where *: "sessions_spawn sample_env NoHooks None (Some ''agent:main:main'') sample_call [] empty_db = (SpawnAccepted i key, runs', db')"
    using sample_accepted(5) by (auto split: prod.splits spawn_reply.splits)
  from spawn_respects_limits [OF this] have "resolve_spawn_depth db' key = resolve_spawn_depth empty_db ''agent:main:main'' + 1"
    unfolding env sample_accepted(4) rq by blast
  with * show ?thesis by (simp add: sample_accepted(3))
qed

text \<open>
  The limits are checked under a lock that several requests of one session may hold together.  Two that both pass the check
  before either has registered its run leave the session with more running children than the limit.
\<close>

lemma insert_fresh_count:
  assumes "hm_get runs i = None"
  shows "count_active_children now rq (hm_insert i (new_run agents now i rq key r) runs) = count_active_children now rq runs + 1"
proof -
  let ?e = "new_run agents now i rq key r"
  have e: "re_ended_at ?e = None" "re_requester ?e = rq" by (simp_all add: new_run_def)
  have "AList.update i ?e runs = runs @ [(i, ?e)]" using assms by (induction runs) (auto split: if_splits)
  then show ?thesis by (simp add: count_active_children_def sweep_archived_runs_def hm_retain_def active_for_def e)
qed

lemma concurrent_spawns_exceed_limit:
  assumes "hm_get runs i = None" "hm_get runs j = None" "i \<noteq> j"
    and "check_spawn_limits agents now rq runs db = Inr d" "count_active_children now rq runs + 1 = snd (resolve_subagent_limits agents)"
  shows "count_active_children now rq (hm_insert j (new_run agents now j rq kj rj) (hm_insert i (new_run agents now i rq ki ri) runs))
    = snd (resolve_subagent_limits agents) + 1"
  using assms insert_fresh_count [of runs i now rq agents ki ri]
    insert_fresh_count [of "hm_insert i (new_run agents now i rq ki ri) runs" j now rq agents kj rj] by simp

end
