(* ===== verification/Acp.thy ===== *)
theory Acp
  imports Sliding_Window Tool_Mutation
begin

text \<open>
  The \<^verbatim>\<open>acp\<close> crate: sessions of external clients (\<^verbatim>\<open>session.rs\<close>, \<^verbatim>\<open>server.rs\<close>), their tool permissions
  (\<^verbatim>\<open>permissions.rs\<close>), the translation of messages (\<^verbatim>\<open>translator.rs\<close>) and the limit on new sessions (\<^verbatim>\<open>lib.rs\<close>).
  Random ids and clock readings are arguments.
\<close>

section \<open>Messages\<close>

datatype acp_role = AcpUser | AcpAssistant | AcpSystem | AcpTool

record acp_message =
  am_role :: acp_role
  am_content :: string
  am_timestamp :: nat

record acp_tool_call =
  tc_id :: string
  tc_name :: string
  tc_arguments :: json

record acp_tool_result =
  tr_call_id :: string
  tr_output :: string
  tr_is_error :: bool

definition from_chat_completion :: "nat \<Rightarrow> string \<Rightarrow> string \<Rightarrow> acp_message" where
  "from_chat_completion now role content =
     \<lparr>am_role = (if role = ''assistant'' then AcpAssistant else if role = ''system'' then AcpSystem
                  else if role = ''tool'' then AcpTool else AcpUser),
      am_content = content, am_timestamp = now\<rparr>"

definition build_tool_call :: "string \<Rightarrow> string \<Rightarrow> json \<Rightarrow> acp_tool_call" where
  "build_tool_call fresh name args = \<lparr>tc_id = fresh, tc_name = name, tc_arguments = args\<rparr>"

definition build_tool_result :: "string \<Rightarrow> string \<Rightarrow> bool \<Rightarrow> acp_tool_result" where
  "build_tool_result call_id output is_error = \<lparr>tr_call_id = call_id, tr_output = output, tr_is_error = is_error\<rparr>"


section \<open>Sessions\<close>

record acp_session =
  as_session_id :: string
  as_session_key :: string
  as_cwd :: string
  as_created_at :: nat
  as_last_touched_at :: nat
  as_active_run_id :: "string option"
  as_messages :: "acp_message list"

record acp_session_store =
  st_sessions :: "(string, acp_session) hash_map"
  st_max_sessions :: nat

datatype acp_session_error = TooManySessions nat | AcpNotFound string

definition store_new :: "nat \<Rightarrow> acp_session_store" where
  "store_new mx = \<lparr>st_sessions = [], st_max_sessions = mx\<rparr>"

definition new_session :: "nat \<Rightarrow> string \<Rightarrow> string \<Rightarrow> acp_session" where
  "new_session now uuid cwd =
     \<lparr>as_session_id = uuid, as_session_key = ''acp:'' @ take 8 uuid, as_cwd = cwd, as_created_at = now,
      as_last_touched_at = now, as_active_run_id = None, as_messages = []\<rparr>"

definition store_create ::
  "nat \<Rightarrow> string \<Rightarrow> string \<Rightarrow> acp_session_store \<Rightarrow> (acp_session_error, acp_session) result \<times> acp_session_store" where
  "store_create now uuid cwd st =
     (if st_max_sessions st \<le> length (st_sessions st) then (Inl (TooManySessions (st_max_sessions st)), st)
      else (Inr (new_session now uuid cwd), st\<lparr>st_sessions := hm_insert uuid (new_session now uuid cwd) (st_sessions st)\<rparr>))"

definition store_get :: "string \<Rightarrow> acp_session_store \<Rightarrow> acp_session option" where
  "store_get i st = hm_get (st_sessions st) i"

definition store_touch :: "nat \<Rightarrow> string \<Rightarrow> acp_session_store \<Rightarrow> acp_session_store" where
  "store_touch now i st = st\<lparr>st_sessions := hm_modify i (\<lambda>s. s\<lparr>as_last_touched_at := now\<rparr>) (st_sessions st)\<rparr>"

definition cancel_active :: "string \<Rightarrow> acp_session_store \<Rightarrow> bool \<times> acp_session_store" where
  "cancel_active i st =
     (case hm_get (st_sessions st) i of
        Some s \<Rightarrow> if as_active_run_id s \<noteq> None
                  then (True, st\<lparr>st_sessions := hm_modify i (\<lambda>s. s\<lparr>as_active_run_id := None\<rparr>) (st_sessions st)\<rparr>)
                  else (False, st)
      | None \<Rightarrow> (False, st))"

definition store_remove :: "string \<Rightarrow> acp_session_store \<Rightarrow> bool \<times> acp_session_store" where
  "store_remove i st = (hm_contains_key (st_sessions st) i, st\<lparr>st_sessions := hm_remove i (st_sessions st)\<rparr>)"


section \<open>Permissions\<close>

record acp_permissions =
  ap_allowed :: "string set"
  ap_denied :: "string set"
  ap_require_approval :: bool

datatype permission_decision = PermAllowed | PermDenied | PermNeedsApproval

definition perms_new :: acp_permissions where
  "perms_new = \<lparr>ap_allowed = {}, ap_denied = {}, ap_require_approval = False\<rparr>"

definition perms_allow_all :: acp_permissions where
  "perms_allow_all = \<lparr>ap_allowed = {''*''}, ap_denied = {}, ap_require_approval = False\<rparr>"

definition perms_allow :: "string \<Rightarrow> acp_permissions \<Rightarrow> acp_permissions" where
  "perms_allow tool p = p\<lparr>ap_allowed := insert tool (ap_allowed p)\<rparr>"

definition perms_deny :: "string \<Rightarrow> acp_permissions \<Rightarrow> acp_permissions" where
  "perms_deny tool p = p\<lparr>ap_denied := insert tool (ap_denied p)\<rparr>"

definition set_require_approval :: "bool \<Rightarrow> acp_permissions \<Rightarrow> acp_permissions" where
  "set_require_approval b p = p\<lparr>ap_require_approval := b\<rparr>"

definition perms_check :: "acp_permissions \<Rightarrow> string \<Rightarrow> permission_decision" where
  "perms_check p tool =
     (if tool \<in> ap_denied p then PermDenied
      else if ''*'' \<in> ap_allowed p \<or> tool \<in> ap_allowed p
           then (if ap_require_approval p then PermNeedsApproval else PermAllowed)
      else PermDenied)"


section \<open>The session limiter\<close>

definition MAX_PROMPT_BYTES :: nat where "MAX_PROMPT_BYTES = 2 * 1024 * 1024"
definition SESSION_RATE_LIMIT_MAX :: nat where "SESSION_RATE_LIMIT_MAX = 120"
definition SESSION_RATE_LIMIT_WINDOW_MS :: nat where "SESSION_RATE_LIMIT_WINDOW_MS = 10000"

type_synonym buckets = "(string, nat list) hash_map"

definition bucket_key :: "string \<Rightarrow> string" where
  "bucket_key key = (if trim key = [] then ''global'' else key)"

definition bucket_of :: "buckets \<Rightarrow> string \<Rightarrow> nat list" where
  "bucket_of bs key = (case hm_get bs key of Some ts \<Rightarrow> ts | None \<Rightarrow> [])"

definition check_with_key :: "nat \<Rightarrow> nat \<Rightarrow> nat \<Rightarrow> string \<Rightarrow> buckets \<Rightarrow> bool \<times> buckets" where
  "check_with_key max_requests window_ms now key bs =
     (let k = bucket_key key;
          cutoff = now - window_ms;
          ts = dropWhile (\<lambda>t. t < cutoff) (bucket_of bs k)
      in if max_requests \<le> length ts mod 2 ^ 32 then (False, hm_insert k ts bs)
         else (True, hm_insert k (ts @ [now]) bs))"


section \<open>Properties\<close>

lemma length_hm_remove: "length (hm_remove k m) \<le> length m"
  by (simp add: AList.length_delete_le)

lemma length_hm_insert_le: "length (hm_insert k v m) \<le> Suc (length m)"
  by (induction m) auto

lemma length_hm_modify: "length (hm_modify k f m) = length m"
proof -
  have "map_of m k = Some v \<Longrightarrow> length (hm_insert k w m) = length m" for v w
    by (induction m) (auto split: if_splits)
  then show ?thesis by (simp add: hm_modify_def split: option.split)
qed

inductive store_step :: "acp_session_store \<Rightarrow> acp_session_store \<Rightarrow> bool" where
  create: "store_step st (snd (store_create now uuid cwd st))"
| touch: "store_step st (store_touch now i st)"
| cancel: "store_step st (snd (cancel_active i st))"
| remove: "store_step st (snd (store_remove i st))"

definition store_ok :: "acp_session_store \<Rightarrow> bool" where
  "store_ok st =
     (length (st_sessions st) \<le> st_max_sessions st
      \<and> (\<forall>i s. hm_get (st_sessions st) i = Some s \<longrightarrow> as_session_id s = i \<and> as_session_key s = ''acp:'' @ take 8 i))"

interpretation store: invariant_system "\<lambda>st. \<exists>mx. st = store_new mx" store_step store_ok
proof unfold_locales
  show "store_ok st" if "\<exists>mx. st = store_new mx" for st
    using that by (auto simp: store_ok_def store_new_def)
  show "store_ok t" if "store_ok st" and "store_step st t" for st t
    using that(2,1)
  proof cases
    case (create now uuid cwd)
    then show ?thesis
      using that(1) length_hm_insert_le [of uuid "new_session now uuid cwd" "st_sessions st"]
      by (auto simp: store_ok_def store_create_def new_session_def split: if_splits)
  next
    case (touch now i)
    then show ?thesis using that(1) by (auto simp: store_ok_def store_touch_def length_hm_modify split: if_splits)
  next
    case (cancel i)
    then show ?thesis using that(1) by (auto simp: store_ok_def cancel_active_def length_hm_modify split: option.splits if_splits)
  next
    case (remove i)
    then show ?thesis
      using that(1) length_hm_remove [of i "st_sessions st"] by (auto simp: store_ok_def store_remove_def split: if_splits)
  qed
qed

text \<open>The session store: in every reachable state it holds no more sessions than its limit, each under its own id and with the key
  derived from it, and a new session is refused exactly when the limit is reached.\<close>

theorem session_store_sound:
  assumes "store_step\<^sup>*\<^sup>* (store_new mx) st"
  shows "length (st_sessions st) \<le> st_max_sessions st
    \<and> (store_get i st = Some s \<longrightarrow> as_session_id s = i \<and> as_session_key s = ''acp:'' @ take 8 i)
    \<and> fst (store_create now uuid cwd st) =
        (if length (st_sessions st) = st_max_sessions st then Inl (TooManySessions (st_max_sessions st)) else Inr (new_session now uuid cwd))"
proof -
  have "store_ok st" using store.reachable_inv assms by blast
  then show ?thesis by (auto simp: store_ok_def store_get_def store_create_def)
qed

theorem session_store_sound_witness:
  "fst (store_create 1 ''0123456789'' ''/'' (store_new 0)) = Inl (TooManySessions 0)"
  using session_store_sound [of 0 "store_new 0" "[]" undefined 1 "''0123456789''" "''/''"] by (simp add: store_new_def)

text \<open>Permissions: a denied tool is denied whatever else is granted, a tool that nobody granted is denied, and approval is asked for
  exactly when it is required.\<close>

theorem permissions_exact:
  "(perms_check p tool = PermDenied \<longleftrightarrow> tool \<in> ap_denied p \<or> \<not> (''*'' \<in> ap_allowed p \<or> tool \<in> ap_allowed p))
   \<and> (perms_check p tool = PermNeedsApproval \<longleftrightarrow> perms_check p tool \<noteq> PermDenied \<and> ap_require_approval p)
   \<and> perms_check (perms_deny tool p) tool = PermDenied"
  by (auto simp: perms_check_def perms_deny_def)

text \<open>The limiter of session creations is a sliding-window limiter as well: its queues are sorted as long as the clock does not go back, so
  that dropping the old times from the front is filtering them.\<close>

lemma dropWhile_sorted: "sorted ts \<Longrightarrow> dropWhile (\<lambda>t. t < c) ts = filter (\<lambda>t. c \<le> t) (ts :: nat list)"
proof (induction ts)
  case (Cons t ts)
  show ?case
  proof (cases "t < c")
    case False
    then have "filter (\<lambda>t. c \<le> t) ts = ts" using Cons.prems by (auto intro!: filter_True)
    then show ?thesis using False by simp
  qed (use Cons in auto)
qed simp

lemma bucket_of_insert [simp]: "bucket_of (hm_insert k v bs) j = (if j = k then v else bucket_of bs j)"
  by (simp add: bucket_of_def)

text \<open>The code compares \<open>length as u32\<close> with the limit; a bucket never gets longer than the limit, which is itself a \<open>u32\<close>, so the
  conversion loses nothing.\<close>

definition buckets_small :: "nat \<Rightarrow> buckets \<Rightarrow> bool" where
  "buckets_small mx bs = (\<forall>k. length (bucket_of bs k) \<le> mx)"

lemma check_with_key_small:
  assumes "buckets_small mx bs" and "mx < 2 ^ 32"
  shows "check_with_key mx w now key bs =
    (let ts = dropWhile (\<lambda>t. t < now - w) (bucket_of bs (bucket_key key))
     in (length ts < mx, hm_insert (bucket_key key) (ts @ (if length ts < mx then [now] else [])) bs))"
proof -
  have "length (dropWhile (\<lambda>t. t < now - w) (bucket_of bs (bucket_key key))) < 2 ^ 32"
    using assms length_dropWhile_le [of "\<lambda>t. t < now - w" "bucket_of bs (bucket_key key)"]
    unfolding buckets_small_def by (meson le_trans le_less_trans)
  then show ?thesis by (simp add: check_with_key_def Let_def)
qed

lemma check_with_key_keeps_small:
  assumes "buckets_small mx bs" and "mx < 2 ^ 32"
  shows "buckets_small mx (snd (check_with_key mx w now key bs))"
proof -
  have "length (dropWhile P (bucket_of bs k)) \<le> mx" for P k
    using assms(1) length_dropWhile_le [of P "bucket_of bs k"] unfolding buckets_small_def by (meson le_trans)
  then show ?thesis using assms(1) by (auto simp: check_with_key_small [OF assms] Let_def buckets_small_def)
qed

definition u32_cap :: "nat \<Rightarrow> nat" where "u32_cap n = min n (2 ^ 32 - 1)"

lemma u32_cap_less: "u32_cap n < 2 ^ 32" by (simp add: u32_cap_def)

interpretation session_limit: sliding_window "check_with_key (u32_cap mx) w" bucket_of "\<lambda>now t. now - w \<le> t"
  "\<lambda>k. trim k \<noteq> [] \<and> k \<noteq> ''global''" "u32_cap mx" "buckets_small (u32_cap mx)" for mx w
proof unfold_locales
  fix bs now k k' assume ok: "buckets_small (u32_cap mx) bs"
  note run = check_with_key_small [OF ok u32_cap_less, of w now]
  show "buckets_small (u32_cap mx) (snd (check_with_key (u32_cap mx) w now k bs))"
    by (rule check_with_key_keeps_small [OF ok u32_cap_less])
  show "fst (check_with_key (u32_cap mx) w now k bs) = (length (filter (\<lambda>t. now - w \<le> t) (bucket_of bs k)) < u32_cap mx)
    \<and> bucket_of (snd (check_with_key (u32_cap mx) w now k bs)) k =
        filter (\<lambda>t. now - w \<le> t) (bucket_of bs k) @ (if fst (check_with_key (u32_cap mx) w now k bs) then [now] else [])"
    if "trim k \<noteq> [] \<and> k \<noteq> ''global''" and "sorted (bucket_of bs k)"
    using that by (simp add: run Let_def bucket_key_def dropWhile_sorted)
  show "bucket_of (snd (check_with_key (u32_cap mx) w now k bs)) k' = bucket_of bs k'"
    if "trim k' \<noteq> [] \<and> k' \<noteq> ''global''" and "k' \<noteq> k"
    using that by (auto simp: run Let_def bucket_key_def)
qed auto

text \<open>The limit on new sessions: whatever sequence of requests is made with a clock that does not go back, of the requests of one
  client key that were let through at most \<open>max_requests\<close> lie in any one window of \<open>window_ms\<close> milliseconds.\<close>

theorem session_rate_bound:
  assumes "mx < 2 ^ 32" and "sorted (map fst reqs)" and "trim k \<noteq> []" and "k \<noteq> ''global''"
  shows "length (filter (\<lambda>u. t - w \<le> u \<and> u \<le> t) (times_of k (snd (admit_run (check_with_key mx w) reqs ([], []))))) \<le> mx"
proof -
  have cap: "u32_cap mx = mx" using assms(1) by (simp add: u32_cap_def)
  have empty: "buckets_small (u32_cap mx) []" "\<And>j. bucket_of [] j = []" by (simp_all add: buckets_small_def bucket_of_def)
  have key: "trim k \<noteq> [] \<and> k \<noteq> ''global''" using assms(3,4) by simp
  from session_limit.window_bound [OF empty assms(2) key, of w t]
  show ?thesis unfolding session_limit.in_window_def cap .
qed

theorem session_rate_bound_witness:
  "snd (admit_run (check_with_key 2 10) [(0, ''a''), (1, ''a''), (2, ''a''), (12, ''a'')] ([], [])) = [(0, ''a''), (1, ''a''), (12, ''a'')]
   \<and> length (filter (\<lambda>u. 12 - 10 \<le> u \<and> u \<le> 12)
       (times_of ''a'' (snd (admit_run (check_with_key 2 10) [(0, ''a''), (1, ''a''), (2, ''a''), (12, ''a'')] ([], []))))) \<le> (2 :: nat)"
proof -
  have "trim ''a'' \<noteq> []" by code_simp
  then show ?thesis
    using session_rate_bound [of 2 "[(0, ''a''), (1, ''a''), (2, ''a''), (12, ''a'')]" "''a''" 12 10]
    by (auto simp: check_with_key_def bucket_key_def bucket_of_def Let_def)
qed

end
