(* ===== verification/Chat.thy ===== *)
theory Chat
  imports Prelude
begin

text \<open>
  \<^verbatim>\<open>llm-core/src/chat.rs\<close> and \<^verbatim>\<open>llm-core/src/tokenizer.rs\<close>: chat messages, requests and
  completions, and the token estimates the context budget is computed from.  The BPE tokenizer is
  a third-party crate (\<^verbatim>\<open>tiktoken_rs\<close>); it is the parameter \<open>bpe\<close>, which gives for a model name
  the function from a text to its number of tokens, or \<^const>\<open>None\<close> for an unknown model.
\<close>

section \<open>Messages\<close>

datatype message_role = System | User | Assistant | Tool

record tool_call_function =
  fn_name :: string
  fn_arguments :: string

record tool_call =
  tc_id :: string
  tc_type :: string
  tc_function :: tool_call_function

record chat_message =
  role :: message_role
  content :: string
  msg_name :: "string option"
  tool_calls :: "tool_call list option"
  tool_call_id :: "string option"

record usage =
  prompt_tokens :: int
  completion_tokens :: int
  usage_total_tokens :: int

record chat_choice =
  choice_index :: int
  message :: chat_message
  finish_reason :: "string option"

record chat_completion =
  completion_id :: string
  completion_model :: string
  choices :: "chat_choice list"
  completion_usage :: "usage option"

text \<open>A request; the tool schemas are passed through unread, so their type is a parameter.  Fields
  the agent always leaves empty (\<^verbatim>\<open>top_p\<close>, \<^verbatim>\<open>stop\<close>, \<^verbatim>\<open>tool_choice\<close>, \<^verbatim>\<open>stream\<close>, \<^verbatim>\<open>response_format\<close>) are
  left out; the temperature is a rational number.\<close>

record 'tool chat_request =
  req_model :: string
  req_messages :: "chat_message list"
  req_temperature :: "rat option"
  req_max_tokens :: "int option"
  req_tools :: "'tool list option"

text \<open>The message literals the agent builds: only role and content set.\<close>

definition plain_message :: "message_role \<Rightarrow> string \<Rightarrow> chat_message" where
  "plain_message r c =
     \<lparr>role = r, content = c, msg_name = None, tool_calls = None, tool_call_id = None\<rparr>"

lemma plain_message_simps [simp]:
  "role (plain_message r c) = r" "content (plain_message r c) = c"
  "msg_name (plain_message r c) = None" "tool_calls (plain_message r c) = None"
  "tool_call_id (plain_message r c) = None"
  by (simp_all add: plain_message_def)

text \<open>The ids of all tool calls of a list of messages
  (\<^verbatim>\<open>filter_map(tool_calls).flatten().map(id)\<close>).\<close>

definition call_ids_of :: "chat_message \<Rightarrow> string list" where
  "call_ids_of m = (case tool_calls m of None \<Rightarrow> [] | Some tcs \<Rightarrow> map tc_id tcs)"

definition call_ids :: "chat_message list \<Rightarrow> string list" where
  "call_ids ms = concat (map call_ids_of ms)"

lemma call_ids_simps [simp]:
  "call_ids [] = []"
  "call_ids (m # ms) = call_ids_of m @ call_ids ms"
  "call_ids (ms @ ns) = call_ids ms @ call_ids ns"
  by (simp_all add: call_ids_def)


section \<open>Token counts\<close>

type_synonym bpe_table = "string \<Rightarrow> (string \<Rightarrow> nat) option"

record token_count =
  tk_prompt :: nat
  tk_completion :: nat
  tk_total :: nat

definition token_count_new :: "nat \<Rightarrow> nat \<Rightarrow> token_count" where
  "token_count_new p c = \<lparr>tk_prompt = p, tk_completion = c, tk_total = p + c\<rparr>"

text \<open>\<^verbatim>\<open>text.len().div_ceil(4)\<close>.\<close>

definition estimate_fallback :: "string \<Rightarrow> nat" where
  "estimate_fallback txt = (length txt + 3) div 4"

definition encode_len :: "(string \<Rightarrow> nat) option \<Rightarrow> string \<Rightarrow> nat" where
  "encode_len b txt = (case b of Some enc \<Rightarrow> enc txt | None \<Rightarrow> estimate_fallback txt)"

definition tc_count :: "bpe_table \<Rightarrow> string \<Rightarrow> string \<Rightarrow> token_count" where
  "tc_count bpe txt model = token_count_new (encode_len (bpe model) txt) 0"

definition tc_estimate :: "bpe_table \<Rightarrow> string \<Rightarrow> string \<Rightarrow> token_count" where
  "tc_estimate bpe txt model = tc_count bpe txt model"

definition message_tokens :: "(string \<Rightarrow> nat) option \<Rightarrow> chat_message \<Rightarrow> nat" where
  "message_tokens b m =
     encode_len b (content m) + 4
     + (case msg_name m of Some n \<Rightarrow> encode_len b n | None \<Rightarrow> 0)"

definition estimate_messages :: "bpe_table \<Rightarrow> chat_message list \<Rightarrow> string \<Rightarrow> token_count" where
  "estimate_messages bpe ms model =
     token_count_new (sum_list (map (message_tokens (bpe model)) ms) + 3) 0"

definition max_tokens :: "string \<Rightarrow> nat option" where
  "max_tokens model =
     (let m = to_lowercase model in
      if contains m ''gpt-4o'' then Some 128000
      else if contains m ''gpt-4-turbo'' then Some 128000
      else if contains m ''gpt-4-32k'' then Some 32768
      else if contains m ''gpt-4'' then Some 8192
      else if contains m ''gpt-3.5-turbo-16k'' then Some 16385
      else if contains m ''gpt-3.5'' then Some 4096
      else if contains m ''claude-3'' \<or> contains m ''claude-4'' then Some 200000
      else if contains m ''gemini-pro'' then Some 32768
      else if contains m ''gemini-1.5'' then Some 1048576
      else None)"

definition remaining_tokens :: "string \<Rightarrow> token_count \<Rightarrow> nat option" where
  "remaining_tokens model used = map_option (\<lambda>mx. mx - tk_total used) (max_tokens model)"

lemma estimate_fallback_mono: "length a \<le> length b \<Longrightarrow> estimate_fallback a \<le> estimate_fallback b"
  by (simp add: estimate_fallback_def div_le_mono)

lemma tk_total_new [simp]: "tk_total (token_count_new p c) = p + c"
  by (simp add: token_count_new_def)

lemma estimate_messages_append:
  "tk_total (estimate_messages bpe (xs @ ys) model) + 3 =
     tk_total (estimate_messages bpe xs model) + tk_total (estimate_messages bpe ys model)"
  by (simp add: estimate_messages_def)

lemma estimate_messages_update:
  assumes "i < length ms"
    and "message_tokens (bpe model) m \<le> message_tokens (bpe model) (ms ! i)"
  shows "tk_total (estimate_messages bpe (ms[i := m]) model) \<le> tk_total (estimate_messages bpe ms model)"
proof -
  let ?f = "message_tokens (bpe model)"
  have "ms = take i ms @ ms ! i # drop (Suc i) ms"
    using assms(1) by (rule id_take_nth_drop)
  then have "sum_list (map ?f ms) = sum_list (map ?f (take i ms)) + ?f (ms ! i) + sum_list (map ?f (drop (Suc i) ms))"
    by (metis (no_types, lifting) add.assoc list.simps(9) map_append sum_list.Cons sum_list_append)
  moreover have "sum_list (map ?f (ms[i := m])) =
      sum_list (map ?f (take i ms)) + ?f m + sum_list (map ?f (drop (Suc i) ms))"
    using assms(1) by (simp add: upd_conv_take_nth_drop)
  ultimately show ?thesis
    using assms(2) by (simp add: estimate_messages_def)
qed

end
