(* ===== verification/Errors.thy ===== *)
theory Errors
  imports Prelude
begin

text \<open>
  The error types of \<^verbatim>\<open>agent-core/src/lib.rs\<close> and \<^verbatim>\<open>llm-core/src/error.rs\<close> with their \<^verbatim>\<open>Display\<close>
  texts, which matter because retry decisions are taken on the text (\<^verbatim>\<open>error_classify.rs\<close>).
\<close>

datatype agent_error =
    InitError string
  | ExecutionError string
  | ModelError string
  | AgentAuthError string
  | SubagentError string
  | NotFound string
  | AgentTimeout string
  | RateLimited string
  | ContextOverflow string

fun show_agent_error :: "agent_error \<Rightarrow> string" where
  "show_agent_error (InitError s) = ''Initialization error: '' @ s"
| "show_agent_error (ExecutionError s) = ''Execution error: '' @ s"
| "show_agent_error (ModelError s) = ''Model error: '' @ s"
| "show_agent_error (AgentAuthError s) = ''Authentication error: '' @ s"
| "show_agent_error (SubagentError s) = ''Subagent error: '' @ s"
| "show_agent_error (NotFound s) = ''Not found: '' @ s"
| "show_agent_error (AgentTimeout s) = ''Timeout: '' @ s"
| "show_agent_error (RateLimited s) = ''Rate limited: '' @ s"
| "show_agent_error (ContextOverflow s) = ''Context overflow: '' @ s"

datatype llm_error =
    ApiError string
  | LlmAuthError string
  | RateLimitError string
  | InvalidRequest string
  | ParseError string
  | LlmNetworkError string
  | LlmTimeout string
  | UnsupportedModel string

fun show_llm_error :: "llm_error \<Rightarrow> string" where
  "show_llm_error (ApiError s) = ''API error: '' @ s"
| "show_llm_error (LlmAuthError s) = ''Authentication error: '' @ s"
| "show_llm_error (RateLimitError s) = ''Rate limit error: '' @ s"
| "show_llm_error (InvalidRequest s) = ''Invalid request: '' @ s"
| "show_llm_error (ParseError s) = ''Parse error: '' @ s"
| "show_llm_error (LlmNetworkError s) = ''Network error: '' @ s"
| "show_llm_error (LlmTimeout s) = ''Timeout: '' @ s"
| "show_llm_error (UnsupportedModel s) = ''Unsupported model: '' @ s"

end
