(* ===== verification/Context_Guard.thy ===== *)
theory Context_Guard
  imports Chat Str_Util Errors
begin

text \<open>
  \<^verbatim>\<open>agent-core/src/context_guard.rs\<close> (the token budget and the truncation of tool results) and
  \<^verbatim>\<open>agent-core/src/compaction.rs\<close> (summarising the old part of a conversation).

  The ratios, which are \<^verbatim>\<open>f64\<close>, are rational numbers and the conversion \<^verbatim>\<open>as usize\<close> is the
  floor, negative values giving 0; for the default ratios 0.75 and 0.5 and windows below
  \<open>2 ^ 53\<close> this is exact.  The language model is the parameter \<open>chat\<close>, a function on the state of the outside
  world; the delays between retries are not modelled.
\<close>

section \<open>Context guard\<close>

definition HARD_MIN_TOKENS :: nat where "HARD_MIN_TOKENS = 16000"
definition GUARD_WARNING_THRESHOLD :: nat where "GUARD_WARNING_THRESHOLD = 32000"
definition MIN_TOOL_CHARS :: nat where "MIN_TOOL_CHARS = 200"

record context_guard_config =
  context_window :: nat
  input_budget_ratio :: rat
  tool_result_budget_ratio :: rat

definition default_guard_config :: context_guard_config where
  "default_guard_config =
     \<lparr>context_window = 128000, input_budget_ratio = 3 / 4, tool_result_budget_ratio = 1 / 2\<rparr>"

datatype guard_action = GuardOk | GuardWarning nat nat | TruncateNeeded nat nat

definition from_context_window :: "nat \<Rightarrow> context_guard_config" where
  "from_context_window w = default_guard_config\<lparr>context_window := w\<rparr>"

definition input_budget :: "context_guard_config \<Rightarrow> nat" where
  "input_budget cfg =
     max (nat \<lfloor>of_nat (context_window cfg) * input_budget_ratio cfg\<rfloor>) HARD_MIN_TOKENS"

definition tool_result_limit :: "context_guard_config \<Rightarrow> nat" where
  "tool_result_limit cfg = nat \<lfloor>of_nat (input_budget cfg) * tool_result_budget_ratio cfg\<rfloor>"

definition estimate_tokens :: "bpe_table \<Rightarrow> chat_message list \<Rightarrow> string \<Rightarrow> nat" where
  "estimate_tokens bpe ms model = tk_total (estimate_messages bpe ms model)"

definition check_budget ::
  "bpe_table \<Rightarrow> context_guard_config \<Rightarrow> chat_message list \<Rightarrow> string \<Rightarrow> guard_action" where
  "check_budget bpe cfg ms model =
     (let used = estimate_tokens bpe ms model; budget = input_budget cfg in
      if used > budget then TruncateNeeded used budget
      else if used > GUARD_WARNING_THRESHOLD \<and> used > budget * 3 div 4 then GuardWarning used budget
      else GuardOk)"

definition guard_notice :: "nat \<Rightarrow> nat \<Rightarrow> string" where
  "guard_notice tok limit =
     [newline, newline] @ ''[Truncated by context guard '' @ em_dash @ '' original ~'' @ show_nat tok
     @ '' tokens, limit '' @ show_nat limit @ '']''"

definition halved_notice :: string where
  "halved_notice = [newline, newline] @ ''[Truncated by context guard '' @ em_dash @ '' halved for budget]''"

text \<open>First pass, one message; \<^const>\<open>None\<close> would be a panic.\<close>

definition limit_message :: "bpe_table \<Rightarrow> string \<Rightarrow> nat \<Rightarrow> chat_message \<Rightarrow> chat_message option" where
  "limit_message bpe model limit m =
     (if role m = Tool then
        let tok = tk_total (tc_estimate bpe (content m) model) in
        if tok > limit \<and> length (content m) > limit * 4
        then map_option (\<lambda>h. m\<lparr>content := h @ guard_notice tok limit\<rparr>) (line_prefix (content m) (limit * 4))
        else Some m
      else Some m)"

text \<open>\<^verbatim>\<open>iter().enumerate().filter(Tool).max_by_key(len)\<close>: the last of the longest.\<close>

definition largest_tool :: "chat_message list \<Rightarrow> nat option" where
  "largest_tool ms =
     map_option fst
       (max_by_key (\<lambda>(i, m). length (content m)) (filter (\<lambda>(i, m). role m = Tool) (enumerate 0 ms)))"

text \<open>Second pass: at most five halvings.\<close>

fun halve_loop :: "nat \<Rightarrow> bpe_table \<Rightarrow> string \<Rightarrow> nat \<Rightarrow> chat_message list \<Rightarrow> chat_message list option" where
  "halve_loop 0 bpe model budget ms = Some ms"
| "halve_loop (Suc k) bpe model budget ms =
     (if estimate_tokens bpe ms model \<le> budget then Some ms
      else case largest_tool ms of
             None \<Rightarrow> Some ms
           | Some idx \<Rightarrow>
               (let c = content (ms ! idx) in
                if length c \<le> MIN_TOOL_CHARS then Some ms
                else case line_prefix c (length c div 2) of
                       None \<Rightarrow> None
                     | Some h \<Rightarrow>
                         halve_loop k bpe model budget (ms[idx := (ms ! idx)\<lparr>content := h @ halved_notice\<rparr>])))"

definition guard_truncate ::
  "bpe_table \<Rightarrow> context_guard_config \<Rightarrow> chat_message list \<Rightarrow> string \<Rightarrow> chat_message list option" where
  "guard_truncate bpe cfg ms model =
     (case those (map (limit_message bpe model (tool_result_limit cfg)) ms) of
        None \<Rightarrow> None
      | Some ms' \<Rightarrow> halve_loop 5 bpe model (input_budget cfg) ms')"


section \<open>Facts about the guard\<close>

text \<open>What truncation may change: the contents of tool results.\<close>

definition same_but_tool_content :: "chat_message list \<Rightarrow> chat_message list \<Rightarrow> bool" where
  "same_but_tool_content ms ns =
     (list_all2 (\<lambda>m n. \<exists>c. n = m\<lparr>content := c\<rparr> \<and> (role m \<noteq> Tool \<longrightarrow> n = m)) ms ns)"

lemma same_refl: "same_but_tool_content ms ms"
proof -
  have "\<exists>c. m = m\<lparr>content := c\<rparr>" for m :: chat_message
    by (rule exI [of _ "content m"]) simp
  then show ?thesis by (simp add: same_but_tool_content_def list_all2_same)
qed

lemma same_trans:
  assumes "same_but_tool_content ms ns" and "same_but_tool_content ns ks"
  shows "same_but_tool_content ms ks"
proof -
  have "list_all2 (\<lambda>m n. \<exists>c. n = m\<lparr>content := c\<rparr> \<and> (role m \<noteq> Tool \<longrightarrow> n = m)) ms ks"
    by (rule list_all2_trans [OF _ assms [unfolded same_but_tool_content_def]]) auto
  then show ?thesis by (simp add: same_but_tool_content_def)
qed

lemma same_update:
  assumes "i < length ms" and "role (ms ! i) = Tool"
  shows "same_but_tool_content ms (ms[i := (ms ! i)\<lparr>content := c\<rparr>])"
proof -
  have "\<exists>c. m = m\<lparr>content := c\<rparr>" for m :: chat_message
    by (rule exI [of _ "content m"]) simp
  then show ?thesis
    using assms by (auto simp: same_but_tool_content_def list_all2_conv_all_nth nth_list_update)
qed

lemma in_set_enumerate_0: "(i, m) \<in> set (enumerate 0 ms) \<longleftrightarrow> i < length ms \<and> ms ! i = m"
  by (auto simp: in_set_enumerate_eq)

lemma largest_tool_Some:
  assumes "largest_tool ms = Some i"
  shows "i < length ms" "role (ms ! i) = Tool"
    "\<And>m. m \<in> set ms \<Longrightarrow> role m = Tool \<Longrightarrow> length (content m) \<le> length (content (ms ! i))"
proof -
  obtain m where "max_by_key (\<lambda>(i, m). length (content m)) (filter (\<lambda>(i, m). role m = Tool) (enumerate 0 ms)) = Some (i, m)"
    using assms by (auto simp: largest_tool_def)
  from max_by_key_Some [OF this]
  have im: "(i, m) \<in> set (enumerate 0 ms)" "role m = Tool"
    and mx: "\<And>j n. (j, n) \<in> set (enumerate 0 ms) \<Longrightarrow> role n = Tool \<Longrightarrow> length (content n) \<le> length (content m)"
    by auto
  then show "i < length ms" "role (ms ! i) = Tool"
    by (auto simp: in_set_enumerate_0)
  show "length (content n) \<le> length (content (ms ! i))" if n: "n \<in> set ms" "role n = Tool" for n
  proof -
    obtain j where "j < length ms" "ms ! j = n"
      using n(1) by (auto simp: in_set_conv_nth)
    then have "length (content n) \<le> length (content m)"
      using mx [OF _ n(2)] by (auto simp: in_set_enumerate_0)
    then show ?thesis
      using im(1) by (auto simp: in_set_enumerate_0)
  qed
qed

lemma largest_tool_None: "largest_tool ms = None \<longleftrightarrow> (\<forall>m \<in> set ms. role m \<noteq> Tool)"
proof -
  have "filter (\<lambda>(i, m). role m = Tool) (enumerate 0 ms) = [] \<longleftrightarrow> (\<forall>m \<in> set ms. role m \<noteq> Tool)"
    by (auto simp: filter_empty_conv all_set_conv_all_nth nth_enumerate_eq)
  then show ?thesis by (simp add: largest_tool_def)
qed

lemma halved_notice_length: "length halved_notice = 52"
  by (simp add: halved_notice_def em_dash_def)

lemma limit_message_defined:
  "\<exists>c. limit_message bpe model limit m = Some (m\<lparr>content := c\<rparr>) \<and> (role m \<noteq> Tool \<longrightarrow> c = content m)
     \<and> (let tok = tk_total (tc_estimate bpe (content m) model) in
          if tok \<le> limit then c = content m
          else role m = Tool \<longrightarrow> length c \<le> limit * 4 + length (guard_notice tok limit))"
proof (cases "role m = Tool \<and> tk_total (tc_estimate bpe (content m) model) > limit \<and> length (content m) > limit * 4")
  case True
  obtain h where h: "line_prefix (content m) (limit * 4) = Some h"
    by (simp add: line_prefix_defined)
  then show ?thesis
    using True line_prefix_length [OF h] by (auto simp: limit_message_def Let_def)
next
  case False
  then have "limit_message bpe model limit m = Some m"
    by (auto simp: limit_message_def Let_def)
  then show ?thesis
    using False by (intro exI [of _ "content m"]) (auto simp: Let_def)
qed

lemma halve_step:
  assumes "largest_tool ms = Some i" and "MIN_TOOL_CHARS < length (content (ms ! i))"
  shows "\<exists>h. line_prefix (content (ms ! i)) (length (content (ms ! i)) div 2) = Some h
    \<and> length (h @ halved_notice) < length (content (ms ! i))"
proof -
  let ?c = "content (ms ! i)"
  obtain h where h: "line_prefix ?c (length ?c div 2) = Some h"
    by (simp add: line_prefix_defined)
  then have "length h \<le> length ?c div 2"
    using line_prefix_length by blast
  then show ?thesis
    using h assms(2) by (auto simp: halved_notice_length MIN_TOOL_CHARS_def)
qed

lemma halve_loop_spec:
  "\<exists>ns. halve_loop k bpe model budget ms = Some ns \<and> same_but_tool_content ms ns
     \<and> (\<forall>i < length ms. length (content (ns ! i)) \<le> length (content (ms ! i)))"
proof (induction k arbitrary: ms)
  case (Suc k)
  show ?case
  proof (cases "estimate_tokens bpe ms model \<le> budget \<or> largest_tool ms = None
      \<or> (\<exists>i. largest_tool ms = Some i \<and> length (content (ms ! i)) \<le> MIN_TOOL_CHARS)")
    case True
    then show ?thesis using same_refl by (auto simp: Let_def)
  next
    case False
    then obtain i where i: "largest_tool ms = Some i" "MIN_TOOL_CHARS < length (content (ms ! i))"
      and over: "\<not> estimate_tokens bpe ms model \<le> budget"
      by (auto simp: not_le)
    obtain h where h: "line_prefix (content (ms ! i)) (length (content (ms ! i)) div 2) = Some h"
        "length (h @ halved_notice) < length (content (ms ! i))"
      using halve_step [OF i] by blast
    let ?ms = "ms[i := (ms ! i)\<lparr>content := h @ halved_notice\<rparr>]"
    have unf: "halve_loop (Suc k) bpe model budget ms = halve_loop k bpe model budget ?ms"
      using i over h(1) by (simp add: Let_def)
    obtain ns where ns: "halve_loop k bpe model budget ?ms = Some ns" "same_but_tool_content ?ms ns"
        "\<forall>j < length ?ms. length (content (ns ! j)) \<le> length (content (?ms ! j))"
      using Suc.IH [of ?ms] by blast
    have "same_but_tool_content ms ns"
      using same_trans [OF same_update [OF largest_tool_Some(1,2) [OF i(1)]] ns(2)] .
    moreover have "length (content (ns ! j)) \<le> length (content (ms ! j))" if "j < length ms" for j
    proof -
      have "length (content (?ms ! j)) \<le> length (content (ms ! j))"
        using h(2) that by (cases "j = i") auto
      moreover have "length (content (ns ! j)) \<le> length (content (?ms ! j))"
        using ns(3) [rule_format, of j] that by simp
      ultimately show ?thesis by (rule order.trans [rotated])
    qed
    ultimately show ?thesis using unf ns(1) by auto
  qed
qed (use same_refl in simp)

lemma those_all_Some:
  assumes "\<And>x. x \<in> set xs \<Longrightarrow> f x = Some (g x)"
  shows "those (map f xs) = Some (map g xs)"
  using assms by (induction xs) auto

lemma limit_pass:
  "\<exists>ns. those (map (limit_message bpe model limit) ms) = Some ns \<and> same_but_tool_content ms ns
     \<and> (\<forall>i < length ms. role (ms ! i) = Tool \<longrightarrow>
          (let tok = tk_total (tc_estimate bpe (content (ms ! i)) model) in
           if tok \<le> limit then content (ns ! i) = content (ms ! i)
           else length (content (ns ! i)) \<le> limit * 4 + length (guard_notice tok limit)))"
proof -
  obtain c where c: "\<And>m. limit_message bpe model limit m = Some (m\<lparr>content := c m\<rparr>)"
      "\<And>m. role m \<noteq> Tool \<Longrightarrow> c m = content m"
      "\<And>m. let tok = tk_total (tc_estimate bpe (content m) model) in
          if tok \<le> limit then c m = content m
          else role m = Tool \<longrightarrow> length (c m) \<le> limit * 4 + length (guard_notice tok limit)"
    using limit_message_defined [of bpe model limit] by metis
  let ?g = "\<lambda>m. m\<lparr>content := c m\<rparr>"
  have "those (map (limit_message bpe model limit) ms) = Some (map ?g ms)"
    by (rule those_all_Some) (rule c(1))
  moreover have "same_but_tool_content ms (map ?g ms)"
    using c(2) by (auto simp: same_but_tool_content_def list_all2_conv_all_nth)
  ultimately show ?thesis
    using c(3) by (auto simp: Let_def split: if_splits)
qed

lemma guard_truncate_total:
  "\<exists>ns. guard_truncate bpe cfg ms model = Some ns \<and> length ns = length ms"
proof -
  obtain ks where ks: "those (map (limit_message bpe model (tool_result_limit cfg)) ms) = Some ks"
      "same_but_tool_content ms ks"
    using limit_pass by blast
  obtain ns where ns: "halve_loop 5 bpe model (input_budget cfg) ks = Some ns" "same_but_tool_content ks ns"
    using halve_loop_spec by blast
  show ?thesis
    using ks ns same_trans [OF ks(2) ns(2)]
    by (simp add: guard_truncate_def same_but_tool_content_def list_all2_lengthD)
qed


section \<open>Compaction\<close>

record retry_config =
  attempts :: nat
  min_delay_ms :: nat
  max_delay_ms :: nat
  jitter :: rat

definition default_retry_config :: retry_config where
  "default_retry_config = \<lparr>attempts = 3, min_delay_ms = 500, max_delay_ms = 5000, jitter = 1 / 5\<rparr>"

record compaction_config =
  reserve_tokens :: nat
  keep_recent_tokens :: nat
  retry :: retry_config

definition default_compaction_config :: compaction_config where
  "default_compaction_config =
     \<lparr>reserve_tokens = 16384, keep_recent_tokens = 20000, retry = default_retry_config\<rparr>"

record compaction_result =
  summary :: chat_message
  kept_messages :: "chat_message list"

definition COMPACTION_PROMPT :: string where
  "COMPACTION_PROMPT =
     ''Summarize this conversation concisely, preserving key facts, ''
     @ ''decisions, code context, and any important details the assistant needs to continue helping.''"

definition needs_compaction :: "bpe_table \<Rightarrow> chat_message list \<Rightarrow> string \<Rightarrow> compaction_config \<Rightarrow> bool" where
  "needs_compaction bpe ms model cfg =
     (case max_tokens model of
        None \<Rightarrow> False
      | Some mx \<Rightarrow> tk_total (estimate_messages bpe ms model) > mx - reserve_tokens cfg)"

type_synonym ('w, 'tool) llm = "'tool chat_request \<Rightarrow> 'w \<Rightarrow> (llm_error, chat_completion) result \<times> 'w"

fun summary_loop ::
  "('w, 'tool) llm \<Rightarrow> 'tool chat_request \<Rightarrow> nat \<Rightarrow> nat \<Rightarrow> string \<Rightarrow> 'w \<Rightarrow> (string, string) result \<times> 'w" where
  "summary_loop chat req cap 0 last_err w =
     (Inl (''Compaction failed after '' @ show_nat cap @ '' attempts: '' @ last_err), w)"
| "summary_loop chat req cap (Suc left) last_err w =
     (case chat req w of
        (Inr resp, w') \<Rightarrow>
          (Inr (case choices resp of [] \<Rightarrow> [] | c # _ \<Rightarrow> content (message c)), w')
      | (Inl e, w') \<Rightarrow> summary_loop chat req cap left (show_llm_error e) w')"

definition generate_summary ::
  "('w, 'tool) llm \<Rightarrow> 'tool chat_request \<Rightarrow> retry_config \<Rightarrow> 'w \<Rightarrow> (string, string) result \<times> 'w" where
  "generate_summary chat req rc w = summary_loop chat req (attempts rc) (attempts rc) [] w"

text \<open>The backward scan for the split index, over the reversed messages: how many messages fit
  before the first one that does not, or \<^const>\<open>None\<close> when all fit.\<close>

definition recent_cost :: "bpe_table \<Rightarrow> string \<Rightarrow> chat_message \<Rightarrow> nat" where
  "recent_cost bpe model m = tk_total (tc_estimate bpe (content m) model) + 4"

fun split_scan :: "(chat_message \<Rightarrow> nat) \<Rightarrow> nat \<Rightarrow> chat_message list \<Rightarrow> nat \<Rightarrow> nat \<Rightarrow> nat option" where
  "split_scan cost keep [] recent k = None"
| "split_scan cost keep (m # ms) recent k =
     (if recent + cost m > keep then Some k else split_scan cost keep ms (recent + cost m) (Suc k))"

definition split_index :: "bpe_table \<Rightarrow> string \<Rightarrow> chat_message list \<Rightarrow> nat \<Rightarrow> nat" where
  "split_index bpe model ms keep =
     (let split_idx = (case split_scan (recent_cost bpe model) keep (rev ms) 0 0 of
                         None \<Rightarrow> length ms | Some k \<Rightarrow> length ms - k)
      in if split_idx \<le> 1 then 1 else split_idx)"

definition summary_request :: "string \<Rightarrow> chat_message list \<Rightarrow> 'tool chat_request" where
  "summary_request model old =
     \<lparr>req_model = model, req_messages = old @ [plain_message User COMPACTION_PROMPT],
      req_temperature = Some 0, req_max_tokens = Some 2048, req_tools = None\<rparr>"

definition summary_message :: "string \<Rightarrow> chat_message" where
  "summary_message body = plain_message System (''[Conversation summary]'' @ [newline] @ body)"

text \<open>\<^const>\<open>None\<close> is the panic of \<^verbatim>\<open>messages[..split_idx]\<close> on an empty history.\<close>

definition compact_history ::
  "('w, 'tool) llm \<Rightarrow> bpe_table \<Rightarrow> string \<Rightarrow> chat_message list \<Rightarrow> compaction_config \<Rightarrow> 'w
    \<Rightarrow> ((string, compaction_result) result \<times> 'w) option" where
  "compact_history chat bpe model ms cfg w =
     (let system_prompt = find (\<lambda>m. role m = System) ms;
          split_idx = split_index bpe model ms (keep_recent_tokens cfg)
      in if split_idx > length ms then None
         else let old = take split_idx ms; kept = drop split_idx ms
              in Some (case generate_summary chat (summary_request model old) (retry cfg) w of
                   (Inl e, w') \<Rightarrow> (Inl e, w')
                 | (Inr body, w') \<Rightarrow>
                     (Inr (case system_prompt of
                        Some sys \<Rightarrow> \<lparr>summary = sys, kept_messages = summary_message body # kept\<rparr>
                      | None \<Rightarrow> \<lparr>summary = summary_message body, kept_messages = kept\<rparr>), w')))"


section \<open>Facts about compaction\<close>

lemma split_scan_Some:
  assumes "split_scan cost keep ms recent k = Some n"
  shows "k \<le> n \<and> n - k < length ms \<and> recent + sum_list (map cost (take (n - k) ms)) \<le> max keep recent
    \<and> keep < recent + sum_list (map cost (take (Suc (n - k)) ms))"
  using assms
proof (induction ms arbitrary: recent k)
  case (Cons m ms)
  show ?case
  proof (cases "recent + cost m > keep")
    case True
    with Cons.prems show ?thesis by simp
  next
    case False
    then have "split_scan cost keep ms (recent + cost m) (Suc k) = Some n"
      using Cons.prems by simp
    from Cons.IH [OF this] have ih: "Suc k \<le> n" "n - Suc k < length ms"
        "recent + cost m + sum_list (map cost (take (n - Suc k) ms)) \<le> max keep (recent + cost m)"
        "keep < recent + cost m + sum_list (map cost (take (Suc (n - Suc k)) ms))"
      by blast+
    obtain d where d: "n = Suc k + d" using ih(1) le_Suc_ex by blast
    have "recent + cost m + sum_list (map cost (take d ms)) \<le> keep"
      using ih(3) False d by (simp add: max_def split: if_splits)
    then have "recent + sum_list (map cost (take (Suc d) (m # ms))) \<le> max keep recent"
      by (intro max.coboundedI1) simp
    then show ?thesis using ih(2,4) d by (simp add: add.assoc)
  qed
qed simp

lemma split_scan_None:
  "split_scan cost keep ms recent k = None \<longleftrightarrow> ms = [] \<or> recent + sum_list (map cost ms) \<le> keep"
proof (induction ms arbitrary: recent k)
  case (Cons m ms)
  then show ?case by (cases "ms = []") (auto simp: add.assoc)
qed simp

lemma split_index_cases:
  assumes "ms \<noteq> []"
  shows "let k = split_index bpe model ms keep; cost = recent_cost bpe model in
    1 \<le> k \<and> k \<le> length ms \<and>
    (if sum_list (map cost ms) \<le> keep then k = length ms
     else sum_list (map cost (drop k ms)) \<le> keep \<and> keep < sum_list (map cost (drop (k - 1) ms)))"
proof (cases "split_scan (recent_cost bpe model) keep (rev ms) 0 0")
  case None
  then have "sum_list (map (recent_cost bpe model) ms) \<le> keep"
    using split_scan_None [of "recent_cost bpe model" keep "rev ms" 0 0] assms
    by (simp flip: rev_map)
  then show ?thesis
    using None assms by (auto simp: split_index_def Let_def Suc_le_eq dest: antisym)
next
  case (Some n)
  let ?c = "recent_cost bpe model"
  from split_scan_Some [OF Some] have n: "n < length ms" "sum_list (map ?c (take n (rev ms))) \<le> keep"
      "keep < sum_list (map ?c (take (Suc n) (rev ms)))"
    by simp_all
  have rv: "sum_list (map ?c (take j (rev ms))) = sum_list (map ?c (drop (length ms - j) ms))" for j
    by (simp add: take_rev flip: rev_map)
  have "\<not> sum_list (map ?c ms) \<le> keep"
    using split_scan_None [of ?c keep "rev ms" 0 0] Some assms by (simp flip: rev_map)
  moreover have "split_index bpe model ms keep = length ms - n"
    using Some n(1) by (auto simp: split_index_def Let_def)
  ultimately show ?thesis
    using n rv [of n] rv [of "Suc n"] by (simp add: Let_def)
qed

lemma compact_history_total:
  assumes "ms \<noteq> []"
  shows "\<exists>r w'. compact_history chat bpe model ms cfg w = Some (r, w')"
proof -
  have "split_index bpe model ms (keep_recent_tokens cfg) \<le> length ms"
    using split_index_cases [OF assms, of bpe model "keep_recent_tokens cfg"] by (simp add: Let_def)
  then show ?thesis
    by (simp add: compact_history_def Let_def)
qed


section \<open>Properties\<close>

text \<open>C35: the context guard is total and only shortens tool results.  Truncation never panics, keeps the number, order, roles,
  names and call ids of all messages and the contents of everything that is not a tool result; and a tool
  result whose estimate exceeds the per-tool limit ends with at most four bytes per
  token of the limit plus the notice, while one within the limit never grows.\<close>

theorem guard_truncate_safe:
  "\<exists>ns. guard_truncate bpe cfg ms model = Some ns \<and> same_but_tool_content ms ns
     \<and> (\<forall>i < length ms. role (ms ! i) = Tool \<longrightarrow>
          (let tok = tk_total (tc_estimate bpe (content (ms ! i)) model); limit = tool_result_limit cfg in
           length (content (ns ! i)) \<le>
             (if tok \<le> limit then length (content (ms ! i)) else limit * 4 + length (guard_notice tok limit))))"
proof -
  let ?limit = "tool_result_limit cfg"
  obtain ks where ks: "those (map (limit_message bpe model ?limit) ms) = Some ks" "same_but_tool_content ms ks"
      "\<forall>i < length ms. role (ms ! i) = Tool \<longrightarrow>
          (let tok = tk_total (tc_estimate bpe (content (ms ! i)) model) in
           if tok \<le> ?limit then content (ks ! i) = content (ms ! i)
           else length (content (ks ! i)) \<le> ?limit * 4 + length (guard_notice tok ?limit))"
    using limit_pass by blast
  obtain ns where ns: "halve_loop 5 bpe model (input_budget cfg) ks = Some ns" "same_but_tool_content ks ns"
      "\<forall>i < length ks. length (content (ns ! i)) \<le> length (content (ks ! i))"
    using halve_loop_spec by blast
  have "length ks = length ms"
    using ks(2) by (simp add: same_but_tool_content_def list_all2_lengthD)
  then show ?thesis
    using ks ns same_trans [OF ks(2) ns(2)]
    by (intro exI [of _ ns]) (auto simp: guard_truncate_def Let_def intro: order.trans)
qed

theorem guard_truncate_safe_witness:
  "\<exists>ns. guard_truncate (\<lambda>_. None) default_guard_config [(plain_message Tool ''done'')] ''m'' = Some ns
     \<and> length (content (ns ! 0)) \<le> 4"
proof -
  have limit: "tool_result_limit default_guard_config = 48000"
    by (simp add: tool_result_limit_def input_budget_def default_guard_config_def HARD_MIN_TOKENS_def)
  show ?thesis
    using guard_truncate_safe [of "\<lambda>_. None" default_guard_config "[plain_message Tool ''done'']" "''m''"]
    by (auto simp: Let_def limit tc_estimate_def tc_count_def encode_len_def estimate_fallback_def)
qed

text \<open>C36: what compaction keeps.  A successful compaction yields the system prompt (if any), the
  summary, and a proper suffix of the history.  When the history exceeds the recent-token budget
  that suffix fits the budget and is the longest that does; when the whole history fits the
  budget, the suffix is empty.\<close>

theorem compaction_keeps_longest_suffix:
  assumes "compact_history chat bpe model ms cfg w = Some (Inr r, w')"
  shows "\<exists>k body. 1 \<le> k \<and> k \<le> length ms
    \<and> summary r # kept_messages r =
        (case find (\<lambda>m. role m = System) ms of Some sys \<Rightarrow> [sys] | None \<Rightarrow> []) @ summary_message body # drop k ms
    \<and> (let cost = recent_cost bpe model; keep = keep_recent_tokens cfg in
       if sum_list (map cost ms) \<le> keep then k = length ms
       else sum_list (map cost (drop k ms)) \<le> keep \<and> keep < sum_list (map cost (drop (k - 1) ms)))"
proof -
  let ?k = "split_index bpe model ms (keep_recent_tokens cfg)"
  have le: "?k \<le> length ms"
    using assms by (auto simp: compact_history_def Let_def not_less split: if_splits)
  moreover have "1 \<le> ?k" by (simp add: split_index_def Let_def)
  ultimately have ne: "ms \<noteq> []" by auto
  obtain body where "generate_summary chat (summary_request model (take ?k ms)) (retry cfg) w = (Inr body, w')"
    and r: "r = (case find (\<lambda>m. role m = System) ms of
        Some sys \<Rightarrow> \<lparr>summary = sys, kept_messages = summary_message body # drop ?k ms\<rparr>
      | None \<Rightarrow> \<lparr>summary = summary_message body, kept_messages = drop ?k ms\<rparr>)"
    using assms le by (auto simp: compact_history_def Let_def split: prod.splits sum.splits)
  then show ?thesis
    using split_index_cases [OF ne, of bpe model "keep_recent_tokens cfg"]
    by (intro exI [of _ ?k] exI [of _ body]) (auto simp: Let_def split: option.splits)
qed

definition echo_llm :: "(nat, unit) llm" where
  "echo_llm req w =
     (Inr \<lparr>completion_id = [], completion_model = req_model req,
        choices = [\<lparr>choice_index = 0, message = plain_message Assistant ''ok'', finish_reason = None\<rparr>],
        completion_usage = None\<rparr>, Suc w)"

lemma max_tokens_gpt4: "max_tokens ''gpt-4'' = Some 8192"
  by code_simp

theorem compaction_keeps_longest_suffix_witness:
  "\<exists>r. compact_history echo_llm (\<lambda>_. None) ''gpt-4'' [plain_message User ''hi''] default_compaction_config 0 = Some (Inr r, 1)
     \<and> (\<exists>k body. summary r # kept_messages r = summary_message body # drop k [plain_message User ''hi''] \<and> k = 1)"
proof -
  obtain r where r: "compact_history echo_llm (\<lambda>_. None) ''gpt-4'' [plain_message User ''hi'']
      default_compaction_config 0 = Some (Inr r, 1)"
    by (simp add: compact_history_def split_index_def Let_def generate_summary_def echo_llm_def
        default_compaction_config_def default_retry_config_def numeral_3_eq_3)
  show ?thesis
    using compaction_keeps_longest_suffix [OF r] r by auto
qed

text \<open>Compaction can erase the user's request.  With the default configuration and a model of
  the 8192 token class, every history needs compaction, and compacting one that fits the
  recent-token budget leaves only system messages: the newest user message is gone.\<close>

theorem default_compaction_forgets_user:
  assumes "ms \<noteq> []" and "sum_list (map (recent_cost bpe ''gpt-4'') ms) \<le> 20000"
    and "chat (summary_request ''gpt-4'' ms) w = (Inr resp, w')"
  shows "needs_compaction bpe ms ''gpt-4'' default_compaction_config
    \<and> (\<exists>r. compact_history chat bpe ''gpt-4'' ms default_compaction_config w = Some (Inr r, w')
         \<and> (\<forall>m \<in> set (summary r # kept_messages r). role m = System))"
proof
  show "needs_compaction bpe ms ''gpt-4'' default_compaction_config"
    by (simp add: needs_compaction_def max_tokens_gpt4 default_compaction_config_def estimate_messages_def)
  have k: "split_index bpe ''gpt-4'' ms (keep_recent_tokens default_compaction_config) = length ms"
    using split_index_cases [OF assms(1), of bpe "''gpt-4''" "keep_recent_tokens default_compaction_config"] assms(2)
    by (simp add: Let_def default_compaction_config_def)
  have sys: "role m = System" if "find (\<lambda>m. role m = System) ms = Some m" for m
    using that by (auto simp: find_Some_iff)
  obtain body where "generate_summary chat (summary_request ''gpt-4'' ms) (retry default_compaction_config) w = (Inr body, w')"
    using assms(3) by (simp add: generate_summary_def default_compaction_config_def default_retry_config_def numeral_3_eq_3)
  then show "\<exists>r. compact_history chat bpe ''gpt-4'' ms default_compaction_config w = Some (Inr r, w')
      \<and> (\<forall>m \<in> set (summary r # kept_messages r). role m = System)"
    using k sys by (cases "find (\<lambda>m. role m = System) ms")
      (auto simp: compact_history_def Let_def summary_message_def)
qed

theorem default_compaction_forgets_user_witness:
  "\<exists>r w'. compact_history echo_llm (\<lambda>_. None) ''gpt-4'' [plain_message System ''be nice'', plain_message User ''hi'']
      default_compaction_config 0 = Some (Inr r, w')
    \<and> (\<forall>m \<in> set (summary r # kept_messages r). role m = System)"
proof -
  let ?ms = "[plain_message System ''be nice'', plain_message User ''hi'']"
  obtain resp where "echo_llm (summary_request ''gpt-4'' ?ms) 0 = (Inr resp, 1)"
    by (simp add: echo_llm_def)
  then show ?thesis
    using default_compaction_forgets_user [of ?ms "\<lambda>_. None" echo_llm 0 resp 1]
    by (auto simp: recent_cost_def tc_estimate_def tc_count_def encode_len_def estimate_fallback_def)
qed

end
