(* ===== verification/Loop_Detect.thy ===== *)
theory Loop_Detect
  imports Prelude
begin

text \<open>
  \<^verbatim>\<open>agent-core/src/loop_detect.rs\<close>: the sliding window of recent tool calls and its four
  detectors (global circuit breaker, known-poll no-progress, ping-pong, generic repeat).
  \<^verbatim>\<open>hash_str\<close> uses the standard library's \<^verbatim>\<open>DefaultHasher\<close>, whose algorithm is unspecified;
  it is the parameter \<open>h\<close>.
\<close>

section \<open>State\<close>

definition HISTORY_SIZE :: nat where "HISTORY_SIZE = 30"
definition WARNING_THRESHOLD :: nat where "WARNING_THRESHOLD = 10"
definition CRITICAL_THRESHOLD :: nat where "CRITICAL_THRESHOLD = 20"
definition CIRCUIT_BREAKER_THRESHOLD :: nat where "CIRCUIT_BREAKER_THRESHOLD = 30"

lemmas thresholds = HISTORY_SIZE_def WARNING_THRESHOLD_def CRITICAL_THRESHOLD_def
  CIRCUIT_BREAKER_THRESHOLD_def

definition is_known_poll_tool :: "string \<Rightarrow> string \<Rightarrow> bool" where
  "is_known_poll_tool name args =
     (if name = ''command_status'' then True
      else if name = ''process''
      then contains args (CHR 0x22 # ''poll'' @ [CHR 0x22]) \<or> contains args (CHR 0x22 # ''log'' @ [CHR 0x22])
      else False)"

datatype loop_level = LNone | Warning | Critical

record loop_detection_result =
  level :: loop_level
  detection_message :: "string option"

definition ldr_ok :: loop_detection_result where
  "ldr_ok = \<lparr>level = LNone, detection_message = None\<rparr>"

definition ldr_warn :: "string \<Rightarrow> loop_detection_result" where
  "ldr_warn msg = \<lparr>level = Warning, detection_message = Some msg\<rparr>"

definition ldr_critical :: "string \<Rightarrow> loop_detection_result" where
  "ldr_critical msg = \<lparr>level = Critical, detection_message = Some msg\<rparr>"

record tool_call_record =
  rec_tool_name :: string
  args_hash :: nat
  result_hash :: "nat option"

record loop_detector =
  ld_history :: "tool_call_record list"
  ld_history_size :: nat

definition default_loop_detector :: loop_detector where
  "default_loop_detector = \<lparr>ld_history = [], ld_history_size = HISTORY_SIZE\<rparr>"

record ping_pong_result =
  pp_count :: nat
  pp_no_progress :: bool


section \<open>Operations\<close>

definition call_hash :: "(string \<Rightarrow> nat) \<Rightarrow> string \<Rightarrow> string \<Rightarrow> nat" where
  "call_hash h tool_name args = h (tool_name @ '':'' @ args)"

definition ld_record :: "(string \<Rightarrow> nat) \<Rightarrow> string \<Rightarrow> string \<Rightarrow> loop_detector \<Rightarrow> loop_detector" where
  "ld_record h tool_name args ld =
     (let hist = ld_history ld @ [\<lparr>rec_tool_name = tool_name, args_hash = call_hash h tool_name args,
                                   result_hash = None\<rparr>]
      in ld\<lparr>ld_history := (if length hist > ld_history_size ld then tl hist else hist)\<rparr>)"

definition ld_record_outcome :: "(string \<Rightarrow> nat) \<Rightarrow> string \<Rightarrow> loop_detector \<Rightarrow> loop_detector" where
  "ld_record_outcome h result ld =
     (if ld_history ld = [] then ld
      else ld\<lparr>ld_history := butlast (ld_history ld)
                 @ [(last (ld_history ld))\<lparr>result_hash := Some (h result)\<rparr>]\<rparr>)"

text \<open>The loop of \<^verbatim>\<open>no_progress_streak\<close> over the reversed history.\<close>

fun streak_loop ::
  "string \<Rightarrow> nat \<Rightarrow> tool_call_record list \<Rightarrow> nat \<Rightarrow> nat option \<Rightarrow> nat" where
  "streak_loop tool_name ah [] streak expected = streak"
| "streak_loop tool_name ah (r # rs) streak expected =
     (if rec_tool_name r \<noteq> tool_name \<or> args_hash r \<noteq> ah then streak
      else case result_hash r of
             None \<Rightarrow> streak
           | Some rh \<Rightarrow>
               (case expected of
                  None \<Rightarrow> streak_loop tool_name ah rs 1 (Some rh)
                | Some e \<Rightarrow> if rh = e then streak_loop tool_name ah rs (streak + 1) expected
                            else streak))"

definition no_progress_streak :: "loop_detector \<Rightarrow> string \<Rightarrow> nat \<Rightarrow> nat" where
  "no_progress_streak ld tool_name ah = streak_loop tool_name ah (rev (ld_history ld)) 0 None"

text \<open>The three loops of \<^verbatim>\<open>ping_pong_streak\<close>: the other signature, the alternating tail and the
  comparison of the outcomes of each side.\<close>

fun find_other :: "nat \<Rightarrow> tool_call_record list \<Rightarrow> nat option" where
  "find_other lh [] = None"
| "find_other lh (r # rs) = (if args_hash r \<noteq> lh then Some (args_hash r) else find_other lh rs)"

fun alt_loop :: "nat \<Rightarrow> nat \<Rightarrow> tool_call_record list \<Rightarrow> nat \<Rightarrow> nat" where
  "alt_loop lh other [] n = n"
| "alt_loop lh other (r # rs) n =
     (if args_hash r \<noteq> (if n mod 2 = 0 then lh else other) then n
      else alt_loop lh other rs (n + 1))"

fun progress_loop ::
  "nat \<Rightarrow> tool_call_record list \<Rightarrow> nat option \<Rightarrow> nat option \<Rightarrow> bool \<times> nat option \<times> nat option" where
  "progress_loop lh [] ha hb = (True, ha, hb)"
| "progress_loop lh (r # rs) ha hb =
     (case result_hash r of
        None \<Rightarrow> (False, ha, hb)
      | Some rh \<Rightarrow>
          if args_hash r = lh then
            (case ha of
               None \<Rightarrow> progress_loop lh rs (Some rh) hb
             | Some x \<Rightarrow> if x \<noteq> rh then (False, ha, hb) else progress_loop lh rs ha hb)
          else
            (case hb of
               None \<Rightarrow> progress_loop lh rs ha (Some rh)
             | Some x \<Rightarrow> if x \<noteq> rh then (False, ha, hb) else progress_loop lh rs ha hb))"

definition ping_pong_streak :: "loop_detector \<Rightarrow> nat \<Rightarrow> ping_pong_result" where
  "ping_pong_streak ld current_hash =
     (let hist = ld_history ld;
          empty = \<lparr>pp_count = 0, pp_no_progress = False\<rparr>
      in if hist = [] then empty
         else
           let lh = args_hash (last hist)
           in case find_other lh (tl (rev hist)) of
                None \<Rightarrow> empty
              | Some other \<Rightarrow>
                  let alt_count = alt_loop lh other (rev hist) 0
                  in if alt_count < 2 then empty
                     else if current_hash \<noteq> other then empty
                     else
                       let (np, ha, hb) =
                             progress_loop lh (drop (length hist - alt_count) hist) None None
                       in \<lparr>pp_count = alt_count + 1,
                           pp_no_progress = (if ha = None \<or> hb = None then False else np)\<rparr>)"

definition repeat_count :: "loop_detector \<Rightarrow> string \<Rightarrow> nat \<Rightarrow> nat" where
  "repeat_count ld tool_name ch =
     length (filter (\<lambda>r. rec_tool_name r = tool_name \<and> args_hash r = ch) (ld_history ld))"

definition detect :: "(string \<Rightarrow> nat) \<Rightarrow> string \<Rightarrow> string \<Rightarrow> loop_detector \<Rightarrow> loop_detection_result" where
  "detect h tool_name args ld =
     (let current_hash = call_hash h tool_name args;
          is_poll = is_known_poll_tool tool_name args;
          no_progress = no_progress_streak ld tool_name current_hash;
          pp = ping_pong_streak ld current_hash;
          rc = repeat_count ld tool_name current_hash
      in if no_progress \<ge> CIRCUIT_BREAKER_THRESHOLD then
           ldr_critical (''CRITICAL: '' @ tool_name @ '' has repeated identical no-progress outcomes ''
             @ show_nat no_progress @ '' times. Session execution blocked by global circuit breaker.'')
         else if is_poll \<and> no_progress \<ge> CRITICAL_THRESHOLD then
           ldr_critical (''CRITICAL: Called '' @ tool_name @ '' with identical arguments and no progress ''
             @ show_nat no_progress @ '' times. This appears to be a stuck polling loop.'')
         else if is_poll \<and> no_progress \<ge> WARNING_THRESHOLD then
           ldr_warn (''WARNING: You have called '' @ tool_name @ '' '' @ show_nat no_progress
             @ '' times with identical arguments and no progress. Stop polling and either increase wait time or report the task as failed.'')
         else if pp_count pp \<ge> CRITICAL_THRESHOLD \<and> pp_no_progress pp then
           ldr_critical (''CRITICAL: You are alternating between repeated tool-call patterns (''
             @ show_nat (pp_count pp)
             @ '' consecutive calls) with no progress. Stuck ping-pong loop detected.'')
         else if pp_count pp \<ge> WARNING_THRESHOLD then
           ldr_warn (''WARNING: You are alternating between repeated tool-call patterns (''
             @ show_nat (pp_count pp)
             @ '' consecutive calls). This looks like a ping-pong loop; stop retrying and report the task as failed.'')
         else if \<not> is_poll \<and> rc \<ge> WARNING_THRESHOLD then
           ldr_warn (''WARNING: You have called '' @ tool_name @ '' '' @ show_nat rc
             @ '' times with identical arguments. If this is not making progress, stop retrying and report the task as failed.'')
         else ldr_ok)"

lemma level_simps [simp]:
  "level ldr_ok = LNone" "level (ldr_warn m) = Warning" "level (ldr_critical m) = Critical"
  by (simp_all add: ldr_ok_def ldr_warn_def ldr_critical_def)

lemma detect_level:
  "level (detect h t a ld) =
     (let ch = call_hash h t a; p = is_known_poll_tool t a; n = no_progress_streak ld t ch;
          pp = ping_pong_streak ld ch
      in if n \<ge> 30 \<or> p \<and> n \<ge> 20 then Critical
         else if p \<and> n \<ge> 10 then Warning
         else if pp_count pp \<ge> 20 \<and> pp_no_progress pp then Critical
         else if pp_count pp \<ge> 10 then Warning
         else if \<not> p \<and> repeat_count ld t ch \<ge> 10 then Warning else LNone)"
  by (simp add: detect_def thresholds Let_def)


section \<open>The window\<close>

definition ld_inv :: "loop_detector \<Rightarrow> bool" where
  "ld_inv ld = (length (ld_history ld) \<le> ld_history_size ld)"

lemma ld_inv_default: "ld_inv default_loop_detector"
  by (simp add: ld_inv_def default_loop_detector_def)

lemma ld_record_history:
  "ld_history (ld_record h t a ld) =
     (let hist = ld_history ld @ [\<lparr>rec_tool_name = t, args_hash = call_hash h t a, result_hash = None\<rparr>]
      in if length hist > ld_history_size ld then tl hist else hist)"
  by (simp add: ld_record_def Let_def)

lemma ld_record_size [simp]: "ld_history_size (ld_record h t a ld) = ld_history_size ld"
  by (simp add: ld_record_def Let_def)

lemma ld_record_outcome_size [simp]: "ld_history_size (ld_record_outcome h r ld) = ld_history_size ld"
  by (simp add: ld_record_outcome_def)

lemma ld_inv_record: "ld_inv ld \<Longrightarrow> ld_inv (ld_record h t a ld)"
  by (simp add: ld_inv_def ld_record_history Let_def)

lemma ld_inv_record_outcome: "ld_inv ld \<Longrightarrow> ld_inv (ld_record_outcome h r ld)"
  by (cases "ld_history ld" rule: rev_cases) (simp_all add: ld_inv_def ld_record_outcome_def)


section \<open>The no-progress streak\<close>

lemma streak_loop_Some:
  "streak_loop t a rs n (Some e) =
     n + length (takeWhile (\<lambda>r. rec_tool_name r = t \<and> args_hash r = a \<and> result_hash r = Some e) rs)"
  by (induction rs arbitrary: n) (auto split: option.splits)

lemma no_progress_streak_eq:
  "no_progress_streak ld t a =
     (case rev (ld_history ld) of
        [] \<Rightarrow> 0
      | r # _ \<Rightarrow>
          if result_hash r = None then 0
          else length (takeWhile
            (\<lambda>q. rec_tool_name q = t \<and> args_hash q = a \<and> result_hash q = result_hash r)
            (rev (ld_history ld))))"
  by (auto simp: no_progress_streak_def streak_loop_Some split: list.splits option.splits)


lemma no_progress_streak_suffix:
  assumes "no_progress_streak ld t a = n"
  shows "n \<le> length (ld_history ld)
    \<and> (\<exists>oc. oc \<noteq> None \<and> (\<forall>r \<in> set (drop (length (ld_history ld) - n) (ld_history ld)).
           args_hash r = a \<and> result_hash r = oc))"
proof -
  let ?hist = "ld_history ld"
  have *: "set (drop (length ?hist - k) ?hist) = set (take k (rev ?hist))" for k
    by (simp add: take_rev)
  show ?thesis
  proof (cases "rev ?hist")
    case Nil
    then show ?thesis using assms by (auto simp: no_progress_streak_eq)
  next
    case (Cons r rs)
    let ?P = "\<lambda>q. rec_tool_name q = t \<and> args_hash q = a \<and> result_hash q = result_hash r"
    show ?thesis
    proof (cases "result_hash r")
      case None
      then show ?thesis using assms Cons by (auto simp: no_progress_streak_eq)
    next
      case (Some x)
      then have n: "n = length (takeWhile ?P (rev ?hist))"
        using assms Cons by (simp add: no_progress_streak_eq)
      then have "n \<le> length ?hist"
        by (metis length_rev length_takeWhile_le)
      moreover have "take n (rev ?hist) = takeWhile ?P (rev ?hist)"
        by (simp add: n takeWhile_eq_take [symmetric])
      then have "\<forall>q \<in> set (take n (rev ?hist)). args_hash q = a \<and> result_hash q = Some x"
        using Some by (auto dest: set_takeWhileD)
      ultimately show ?thesis
        unfolding * by blast
    qed
  qed
qed


section \<open>The ping-pong streak\<close>

lemma find_other_neq: "find_other lh rs = Some x \<Longrightarrow> x \<noteq> lh"
  by (induction rs) (auto split: if_splits)

lemma alt_loop_bound: "n \<le> alt_loop lh x rs n \<and> alt_loop lh x rs n \<le> n + length rs"
proof (induction rs arbitrary: n)
  case Nil
  then show ?case by simp
next
  case (Cons r rs)
  show ?case using Cons [of "n + 1"] by auto
qed

lemma alt_loop_set:
  "r \<in> set (take (alt_loop lh x rs n - n) rs) \<Longrightarrow> args_hash r = lh \<or> args_hash r = x"
proof (induction rs arbitrary: n)
  case Nil
  then show ?case by simp
next
  case (Cons q rs)
  let ?k = "alt_loop lh x rs (n + 1)"
  have "n + 1 \<le> ?k"
    using alt_loop_bound by blast
  then have k: "?k - n = Suc (?k - (n + 1))"
    by simp
  show ?case
  proof (cases "args_hash q = (if n mod 2 = 0 then lh else x)")
    case True
    then have "r = q \<or> r \<in> set (take (?k - (n + 1)) rs)"
      using Cons.prems k by simp
    with True Cons.IH [of "n + 1"] show ?thesis
      by (auto split: if_splits)
  next
    case False
    with Cons.prems show ?thesis by simp
  qed
qed

lemma progress_loop_True:
  assumes "progress_loop lh rs ha hb = (True, ha', hb')"
  shows "(ha \<noteq> None \<longrightarrow> ha' = ha) \<and> (hb \<noteq> None \<longrightarrow> hb' = hb)
    \<and> (\<forall>r \<in> set rs. result_hash r \<noteq> None \<and> result_hash r = (if args_hash r = lh then ha' else hb'))"
  using assms
proof (induction rs arbitrary: ha hb)
  case Nil
  then show ?case by simp
next
  case (Cons r rs)
  then show ?case
    by (fastforce split: option.splits if_splits)
qed

lemma ping_pong_suffix:
  assumes "pp_no_progress (ping_pong_streak ld c)"
  shows "let n = pp_count (ping_pong_streak ld c) - 1 in
    n \<le> length (ld_history ld) \<and>
    (\<exists>x y u v. \<forall>r \<in> set (drop (length (ld_history ld) - n) (ld_history ld)).
       result_hash r \<noteq> None \<and> (args_hash r, result_hash r) \<in> {(x, u), (y, v)})"
proof -
  let ?hist = "ld_history ld"
  let ?lh = "args_hash (last ?hist)"
  have ne: "?hist \<noteq> []"
    using assms by (auto simp: ping_pong_streak_def)
  then obtain y where y: "find_other ?lh (tl (rev ?hist)) = Some y"
    using assms by (auto simp: ping_pong_streak_def Let_def split: option.splits)
  let ?n = "alt_loop ?lh y (rev ?hist) 0"
  obtain np u v where pl: "progress_loop ?lh (drop (length ?hist - ?n) ?hist) None None = (np, u, v)"
    by (metis prod_cases3)
  have res: "np" "pp_count (ping_pong_streak ld c) = ?n + 1"
    using assms ne y pl by (auto simp: ping_pong_streak_def Let_def split: if_splits)
  have "\<forall>r \<in> set (take ?n (rev ?hist)). args_hash r = ?lh \<or> args_hash r = y"
    using alt_loop_set [of _ ?lh y "rev ?hist" 0] by simp
  then have sig: "\<forall>r \<in> set (drop (length ?hist - ?n) ?hist). args_hash r = ?lh \<or> args_hash r = y"
    by (simp add: take_rev)
  have out: "\<forall>r \<in> set (drop (length ?hist - ?n) ?hist).
      result_hash r \<noteq> None \<and> result_hash r = (if args_hash r = ?lh then u else v)"
    using progress_loop_True [of ?lh _ None None u v] pl res(1) by metis
  have "\<forall>r \<in> set (drop (length ?hist - ?n) ?hist).
      result_hash r \<noteq> None \<and> (args_hash r, result_hash r) \<in> {(?lh, u), (y, v)}"
    using sig out by fastforce
  moreover have "?n \<le> length ?hist"
    using alt_loop_bound [of 0 ?lh y "rev ?hist"] by simp
  ultimately show ?thesis
    unfolding Let_def res(2) add_diff_cancel_right' by blast
qed


section \<open>Repeating one call\<close>

text \<open>One turn of the agent's tool loop for a call whose execution returns \<open>res\<close>.\<close>

definition ld_round :: "(string \<Rightarrow> nat) \<Rightarrow> string \<Rightarrow> string \<Rightarrow> string \<Rightarrow> loop_detector \<Rightarrow> loop_detector" where
  "ld_round h t a res ld = ld_record_outcome h res (ld_record h t a ld)"

lemma ld_round_replicate:
  fixes h t a res
  defines "r \<equiv> \<lparr>rec_tool_name = t, args_hash = call_hash h t a, result_hash = Some (h res)\<rparr>"
  assumes "k \<le> Suc m"
  shows "ld_round h t a res \<lparr>ld_history = replicate k r, ld_history_size = Suc m\<rparr> =
    \<lparr>ld_history = replicate (min (Suc k) (Suc m)) r, ld_history_size = Suc m\<rparr>"
proof (cases "k = Suc m")
  case True
  then show ?thesis
    by (simp add: ld_round_def ld_record_def ld_record_outcome_def r_def replicate_append_same)
next
  case False
  with assms(2) show ?thesis
    by (simp add: ld_round_def ld_record_def ld_record_outcome_def r_def replicate_append_same)
qed

lemma ld_rounds_history:
  "(ld_round h t a res ^^ n) default_loop_detector =
     \<lparr>ld_history = replicate (min n 30)
        \<lparr>rec_tool_name = t, args_hash = call_hash h t a, result_hash = Some (h res)\<rparr>,
      ld_history_size = 30\<rparr>"
proof (induction n)
  case 0
  then show ?case by (simp add: default_loop_detector_def thresholds)
next
  case (Suc n)
  then show ?case
    using ld_round_replicate [of "min n 30" 29 h t a res] by simp
qed

lemma find_other_replicate: "find_other (args_hash r) (replicate n r) = None"
  by (induction n) auto

lemma streak_replicate:
  "no_progress_streak \<lparr>ld_history = replicate k \<lparr>rec_tool_name = t, args_hash = c, result_hash = Some x\<rparr>,
     ld_history_size = m\<rparr> t c = k"
  by (cases k) (simp_all add: no_progress_streak_def streak_loop_Some rev_replicate replicate_app_Cons_same)

lemma rounds_streak:
  "no_progress_streak ((ld_round h t a res ^^ n) default_loop_detector) t (call_hash h t a) = min n 30"
  by (simp add: ld_rounds_history streak_replicate)

lemma rounds_ping_pong:
  "pp_count (ping_pong_streak ((ld_round h t a res ^^ n) default_loop_detector) c) = 0"
proof -
  let ?r = "\<lparr>rec_tool_name = t, args_hash = call_hash h t a, result_hash = Some (h res)\<rparr>"
  have "find_other (args_hash ?r) (tl (replicate (min n 30) ?r)) = None"
    using find_other_replicate [of ?r "min n 30 - 1"] by (cases "min n 30") simp_all
  then show ?thesis
    by (simp add: ld_rounds_history ping_pong_streak_def Let_def)
qed

lemma rounds_repeat:
  "repeat_count ((ld_round h t a res ^^ n) default_loop_detector) t (call_hash h t a) = min n 30"
  by (simp add: ld_rounds_history repeat_count_def)


section \<open>Properties\<close>

text \<open>Exact escalation of the detector.  When the agent loop makes the same tool call \<open>n\<close>
  times and each execution returns the same result, the detection made before the next call is
  silent below 10 calls, a warning from 10 on, and critical from 30 calls on, or already from 20
  calls on for a known polling tool.\<close>

theorem repeat_escalation:
  "level (detect h t a ((ld_round h t a res ^^ n) default_loop_detector)) =
     (if n \<ge> (if is_known_poll_tool t a then 20 else 30) then Critical
      else if n \<ge> 10 then Warning else LNone)"
  by (simp add: detect_level Let_def rounds_streak rounds_ping_pong rounds_repeat)

text \<open>No false alarm at the critical level.  If a call is blocked, then the window ends with at
  least 19 consecutive completed calls that show at most two distinct combinations of call
  signature and outcome: one repeated call, or two alternating ones, without progress.\<close>

theorem critical_means_no_progress:
  assumes "level (detect h t a ld) = Critical"
  shows "\<exists>n \<ge> 19. n \<le> length (ld_history ld)
    \<and> (\<forall>r \<in> set (drop (length (ld_history ld) - n) (ld_history ld)). result_hash r \<noteq> None)
    \<and> card ((\<lambda>r. (args_hash r, result_hash r)) `
        set (drop (length (ld_history ld) - n) (ld_history ld))) \<le> 2"
proof -
  let ?hist = "ld_history ld" and ?c = "call_hash h t a"
  let ?img = "\<lambda>n. (\<lambda>r. (args_hash r, result_hash r)) ` set (drop (length ?hist - n) ?hist)"
  let ?n = "no_progress_streak ld t ?c" and ?pp = "ping_pong_streak ld ?c"
  from assms consider "20 \<le> ?n" | "20 \<le> pp_count ?pp" "pp_no_progress ?pp"
    by (auto simp: detect_level Let_def split: if_splits)
  then show ?thesis
  proof cases
    case 1
    from no_progress_streak_suffix [OF refl, of ld t ?c] obtain o'
      where "?n \<le> length ?hist" "o' \<noteq> None"
        and all: "\<forall>r \<in> set (drop (length ?hist - ?n) ?hist). args_hash r = ?c \<and> result_hash r = o'"
      by blast
    moreover have "card (?img ?n) \<le> card {(?c, o')}"
      using all by (intro card_mono) auto
    ultimately show ?thesis
      using 1 by (intro exI [of _ ?n]) auto
  next
    case 2
    let ?m = "pp_count ?pp - 1"
    from ping_pong_suffix [OF 2(2)] obtain x y u v where "?m \<le> length ?hist"
      and all: "\<forall>r \<in> set (drop (length ?hist - ?m) ?hist).
        result_hash r \<noteq> None \<and> (args_hash r, result_hash r) \<in> {(x, u), (y, v)}"
      by (auto simp: Let_def)
    moreover have "card (?img ?m) \<le> card {(x, u), (y, v)}"
      using all by (intro card_mono) auto
    moreover have "card {(x, u), (y, v)} \<le> 2"
      by (simp add: card_insert_if)
    ultimately show ?thesis
      using 2(1) by (intro exI [of _ ?m]) auto
  qed
qed

theorem critical_means_no_progress_witness:
  "\<exists>n \<ge> 19. n \<le> length (ld_history ((ld_round length ''bash'' ''ls'' ''x'' ^^ 30) default_loop_detector))"
  using critical_means_no_progress [of length "''bash''" "''ls''"
      "(ld_round length ''bash'' ''ls'' ''x'' ^^ 30) default_loop_detector"]
  by (auto simp: detect_level Let_def rounds_streak)

text \<open>The protocol in the comment of \<^verbatim>\<open>detect\<close> ("Call after \<^verbatim>\<open>record()\<close>") would disable the
  detector: directly after recording a call, detection of that same call is never critical, since
  the fresh record has no outcome and ends every streak.  The agent loop detects first.\<close>

theorem detect_after_record_never_critical:
  "level (detect h t a (ld_record h t a ld)) \<noteq> Critical"
proof -
  let ?ld = "ld_record h t a ld" and ?c = "call_hash h t a"
  have hist: "ld_history ?ld = [] \<or> (last (ld_history ?ld) =
      \<lparr>rec_tool_name = t, args_hash = ?c, result_hash = None\<rparr> \<and> ld_history ?ld \<noteq> [])"
    by (cases "ld_history ld") (auto simp: ld_record_history Let_def)
  then have "no_progress_streak ?ld t ?c = 0"
    by (cases "ld_history ?ld" rule: rev_cases) (auto simp: no_progress_streak_eq)
  moreover have "pp_count (ping_pong_streak ?ld ?c) = 0"
    using hist find_other_neq
    by (fastforce simp: ping_pong_streak_def Let_def split: option.splits)
  ultimately show ?thesis
    by (simp add: detect_level Let_def)
qed

end
