(* ===== verification/History.thy ===== *)
theory History
  imports Chat Str_Util
begin

text \<open>
  What the agent sends to the model instead of its raw history:
  \<^verbatim>\<open>agent-core/src/history.rs\<close> (keep the last user turns),
  \<^verbatim>\<open>agent-core/src/pruning.rs\<close> (shorten old tool results) and
  \<^verbatim>\<open>agent-core/src/auto_recall.rs\<close> (recalled memories as a system message).
\<close>

section \<open>limit_history_turns\<close>

text \<open>The loop over \<^verbatim>\<open>rest.iter().enumerate().rev()\<close>; \<open>cut_idx\<close> is the value left when no turn is found.\<close>

fun cut_loop :: "nat \<Rightarrow> (nat \<times> chat_message) list \<Rightarrow> nat \<Rightarrow> nat \<Rightarrow> nat" where
  "cut_loop max_turns [] user_count cut_idx = cut_idx"
| "cut_loop max_turns ((i, m) # xs) user_count cut_idx =
     (if role m = User
      then (if user_count + 1 \<ge> max_turns then i
            else cut_loop max_turns xs (user_count + 1) cut_idx)
      else cut_loop max_turns xs user_count cut_idx)"

definition keep_message :: "string set \<Rightarrow> chat_message \<Rightarrow> bool" where
  "keep_message kept_tc_ids m =
     (if role m = Tool
      then (case tool_call_id m of None \<Rightarrow> True | Some i \<Rightarrow> i \<in> kept_tc_ids)
      else True)"

definition limit_history_turns :: "chat_message list \<Rightarrow> nat \<Rightarrow> chat_message list" where
  "limit_history_turns messages max_turns =
     (if max_turns = 0 \<or> messages = [] then messages
      else
        let prefix_end = length (takeWhile (\<lambda>m. role m = System) messages);
            rest = drop prefix_end messages;
            cut_idx = cut_loop max_turns (rev (enumerate 0 rest)) 0 (length rest);
            result = take prefix_end messages @ drop cut_idx rest
        in filter (keep_message (set (call_ids result))) result)"


subsection \<open>Facts\<close>

definition user_turns :: "chat_message list \<Rightarrow> nat" where
  "user_turns ms = length (filter (\<lambda>m. role m = User) ms)"

lemma user_turns_simps [simp]:
  "user_turns [] = 0"
  "user_turns (m # ms) = (if role m = User then 1 else 0) + user_turns ms"
  "user_turns (ms @ ns) = user_turns ms + user_turns ns"
  by (simp_all add: user_turns_def)

lemma cut_loop_few:
  "u + user_turns ms < k \<Longrightarrow> cut_loop k (rev (enumerate n ms)) u c = c"
proof (induction ms arbitrary: u rule: rev_induct)
  case Nil
  then show ?case by simp
next
  case (snoc m ms)
  then show ?case by (auto simp: enumerate_append_eq)
qed

lemma cut_loop_enough:
  assumes "u < k" and "k \<le> u + user_turns ms"
  shows "\<exists>i < length ms. cut_loop k (rev (enumerate n ms)) u c = n + i
    \<and> role (ms ! i) = User \<and> u + user_turns (drop i ms) = k"
  using assms
proof (induction ms arbitrary: u rule: rev_induct)
  case Nil
  then show ?case by simp
next
  case (snoc m ms)
  show ?case
  proof (cases "role m = User \<and> u + 1 \<ge> k")
    case True
    with snoc.prems show ?thesis
      by (intro exI [of _ "length ms"]) (simp add: enumerate_append_eq)
  next
    case False
    let ?u = "if role m = User then u + 1 else u"
    have "?u < k" "k \<le> ?u + user_turns ms"
      using snoc.prems False by (auto split: if_splits)
    then obtain i where i: "i < length ms" "cut_loop k (rev (enumerate n ms)) ?u c = n + i"
      "role (ms ! i) = User" "?u + user_turns (drop i ms) = k"
      using snoc.IH by blast
    have "cut_loop k (rev (enumerate n (ms @ [m]))) u c = cut_loop k (rev (enumerate n ms)) ?u c"
      using False by (auto simp: enumerate_append_eq)
    with i show ?thesis
      by (intro exI [of _ i]) (auto simp: nth_append split: if_splits)
  qed
qed

lemma keep_message_user: "role m = User \<Longrightarrow> keep_message S m"
  by (simp add: keep_message_def)

lemma user_turns_filter_keep [simp]: "user_turns (filter (keep_message S) ms) = user_turns ms"
  by (induction ms) (auto simp: keep_message_def)

lemma takeWhile_system_simps:
  "take (length (takeWhile (\<lambda>m. role m = System) ms)) ms = takeWhile (\<lambda>m. role m = System) ms"
  "drop (length (takeWhile (\<lambda>m. role m = System) ms)) ms = dropWhile (\<lambda>m. role m = System) ms"
  by (simp_all add: takeWhile_eq_take [symmetric] dropWhile_eq_drop [symmetric])

lemma limit_history_turns_unfold:
  assumes "0 < n" and "ms \<noteq> []"
    and "base = takeWhile (\<lambda>m. role m = System) ms
       @ drop (cut_loop n (rev (enumerate 0 (dropWhile (\<lambda>m. role m = System) ms))) 0
           (length (dropWhile (\<lambda>m. role m = System) ms))) (dropWhile (\<lambda>m. role m = System) ms)"
  shows "limit_history_turns ms n = filter (keep_message (set (call_ids base))) base"
  using assms unfolding limit_history_turns_def Let_def takeWhile_system_simps by simp

lemma filter_keep_system:
  "filter (keep_message S) (takeWhile (\<lambda>m. role m = System) ms) = takeWhile (\<lambda>m. role m = System) ms"
  by (rule filter_True) (auto simp: keep_message_def dest!: set_takeWhileD)

lemma user_turns_system: "user_turns (takeWhile (\<lambda>m. role m = System) ms) = 0"
  by (induction ms) auto

lemma user_turns_dropWhile: "user_turns (dropWhile (\<lambda>m. role m = System) ms) = user_turns ms"
  by (induction ms) auto

text \<open>When Tool messages carry no calls themselves, dropping orphans removes no call id.\<close>

lemma call_ids_filter_keep:
  assumes "\<forall>m \<in> set ms. role m = Tool \<longrightarrow> tool_calls m = None"
  shows "call_ids (filter (keep_message S) ms) = call_ids ms"
  using assms by (induction ms) (auto simp: keep_message_def call_ids_of_def)



section \<open>prune_tool_results\<close>

record pruning_config =
  soft_trim_max_chars :: nat
  head_chars :: nat
  tail_chars :: nat
  hard_clear_max_chars :: nat
  keep_last_assistants :: nat

definition default_pruning_config :: pruning_config where
  "default_pruning_config =
     \<lparr>soft_trim_max_chars = 4000, head_chars = 1500, tail_chars = 1500,
      hard_clear_max_chars = 50000, keep_last_assistants = 3\<rparr>"

definition protected_tc_ids :: "chat_message list \<Rightarrow> pruning_config \<Rightarrow> string set" where
  "protected_tc_ids messages config =
     set (call_ids (take (keep_last_assistants config) (filter (\<lambda>m. role m = Assistant) (rev messages))))"

text \<open>The body of the loop over the messages.\<close>

definition prune_message :: "string set \<Rightarrow> pruning_config \<Rightarrow> chat_message \<Rightarrow> chat_message option" where
  "prune_message ids config m =
     (if role m \<noteq> Tool then Some m
      else if (case tool_call_id m of Some i \<Rightarrow> i \<in> ids | None \<Rightarrow> False) then Some m
      else
        let len = length (content m)
        in if len > hard_clear_max_chars config then
             Some (m\<lparr>content := ''[Tool result cleared '' @ em_dash @ '' '' @ show_nat len @ '' chars]''\<rparr>)
           else if len > soft_trim_max_chars config then
             let head_end = floor_char_boundary (content m) (min (head_chars config) len);
                 tail_start = floor_char_boundary (content m) (len - tail_chars config)
             in (case (slice_to (content m) head_end, slice_from (content m) tail_start) of
                   (Some hd_part, Some tl_part) \<Rightarrow>
                     Some (m\<lparr>content := hd_part @ ''...'' @ [newline] @ ''[trimmed '' @ em_dash @ '' ''
                        @ show_nat len @ '' chars total]'' @ [newline] @ ''...'' @ tl_part\<rparr>)
                 | _ \<Rightarrow> None)
           else Some m)"

definition prune_tool_results :: "chat_message list \<Rightarrow> pruning_config \<Rightarrow> chat_message list option" where
  "prune_tool_results messages config =
     those (map (prune_message (protected_tc_ids messages config) config) messages)"

lemma those_map_Some:
  assumes "\<And>x. x \<in> set xs \<Longrightarrow> \<exists>y. f x = Some y"
  shows "those (map f xs) = Some (map (\<lambda>x. the (f x)) xs)"
  using assms by (induction xs) fastforce+

text \<open>What pruning of one message may change: the content of an unprotected, long tool result.\<close>

definition prune_exempt :: "string set \<Rightarrow> pruning_config \<Rightarrow> chat_message \<Rightarrow> bool" where
  "prune_exempt ids config m =
     (role m \<noteq> Tool \<or> (\<exists>i \<in> ids. tool_call_id m = Some i)
      \<or> length (content m) \<le> min (soft_trim_max_chars config) (hard_clear_max_chars config))"

lemma prune_message_exempt: "prune_exempt ids config m \<Longrightarrow> prune_message ids config m = Some m"
  by (auto simp: prune_exempt_def prune_message_def split: option.splits)

lemma prune_message_content: "\<exists>c. prune_message ids config m = Some (m\<lparr>content := c\<rparr>)"
proof (cases "prune_exempt ids config m")
  case True
  then show ?thesis
    by (intro exI [of _ "content m"]) (simp add: prune_message_exempt)
next
  case False
  then have "role m = Tool" and "\<not> (case tool_call_id m of Some i \<Rightarrow> i \<in> ids | None \<Rightarrow> False)"
    and "hard_clear_max_chars config < length (content m) \<or> soft_trim_max_chars config < length (content m)"
    by (auto simp: prune_exempt_def split: option.splits)
  then show ?thesis
    by (cases "hard_clear_max_chars config < length (content m)")
      (simp_all add: prune_message_def Let_def, blast+)
qed

lemma prune_message_frame:
  "\<exists>c. prune_message ids config m = Some (m\<lparr>content := c\<rparr>)
     \<and> (prune_exempt ids config m \<longrightarrow> c = content m)"
  using prune_message_exempt [of ids config m] prune_message_content [of ids config m]
  by (cases "prune_exempt ids config m") (auto intro!: exI [of _ "content m"])


section \<open>Auto-recall\<close>

text \<open>The printed score (\<^verbatim>\<open>{:.2}\<close> of an \<^verbatim>\<open>f32\<close>) is carried as text.\<close>

record recall_result =
  rr_key :: string
  rr_content :: string
  rr_score :: string

record auto_recall_config =
  recall_enabled :: bool
  recall_max_results :: nat

definition format_recall_context :: "recall_result list \<Rightarrow> chat_message option" where
  "format_recall_context results =
     (if results = [] then None
      else Some \<lparr>role = System,
        content = ''## Recalled from memory'' @ [newline]
          @ concat (map (\<lambda>r. ''- ['' @ rr_key r @ ''] (score '' @ rr_score r @ ''): ''
              @ rr_content r @ [newline]) results),
        msg_name = Some ''memory_recall'', tool_calls = None, tool_call_id = None\<rparr>)"


section \<open>Properties\<close>

text \<open>A history with fewer user turns than the limit is emptied.  The scan for the cut starts
  from \<^verbatim>\<open>rest.len()\<close> and only lowers it once \<open>n\<close> user turns are found, so when the conversation
  has fewer than \<open>n\<close> of them everything after the leading system messages is dropped.\<close>

theorem limit_drops_short_history:
  assumes "0 < n" and "user_turns ms < n"
  shows "limit_history_turns ms n = takeWhile (\<lambda>m. role m = System) ms"
proof (cases "ms = []")
  case True
  then show ?thesis by (simp add: limit_history_turns_def)
next
  case False
  have "user_turns (dropWhile (\<lambda>m. role m = System) ms) < n"
    using assms(2) by (simp add: user_turns_dropWhile)
  then show ?thesis
    using limit_history_turns_unfold [OF assms(1) False refl]
      cut_loop_few [of 0 "dropWhile (\<lambda>m. role m = System) ms" n 0]
    by (simp add: filter_keep_system)
qed

theorem limit_drops_short_history_witness:
  "limit_history_turns [plain_message System ''s'', plain_message User ''hi''] 2 = [plain_message System ''s'']"
  using limit_drops_short_history [of 2 "[plain_message System ''s'', plain_message User ''hi'']"] by simp

text \<open>With enough turns the limit is exact.  If the history has at least \<open>n\<close> user turns, the
  result is the leading system messages followed by a suffix of the history that starts at a user
  message and holds exactly \<open>n\<close> user turns, from which only orphaned tool results are removed;
  every tool result that is kept answers a tool call that is kept.\<close>

theorem limit_keeps_last_turns:
  assumes "0 < n" and "n \<le> user_turns ms"
    and "\<forall>m \<in> set ms. role m = Tool \<longrightarrow> tool_calls m = None"
  shows "\<exists>kept. suffix kept ms \<and> kept \<noteq> [] \<and> role (hd kept) = User \<and> user_turns kept = n
    \<and> (let base = takeWhile (\<lambda>m. role m = System) ms @ kept in
        limit_history_turns ms n = filter (keep_message (set (call_ids base))) base
        \<and> (\<forall>m \<in> set (limit_history_turns ms n). \<forall>i. role m = Tool \<and> tool_call_id m = Some i
              \<longrightarrow> i \<in> set (call_ids (limit_history_turns ms n))))"
proof -
  let ?sys = "takeWhile (\<lambda>m. role m = System) ms" and ?rest = "dropWhile (\<lambda>m. role m = System) ms"
  obtain i where i: "i < length ?rest" "cut_loop n (rev (enumerate 0 ?rest)) 0 (length ?rest) = i"
    "role (?rest ! i) = User" "user_turns (drop i ?rest) = n"
    using cut_loop_enough [of 0 n ?rest 0 "length ?rest"] assms
    by (auto simp: user_turns_dropWhile)
  let ?kept = "drop i ?rest"
  let ?base = "?sys @ ?kept"
  have ne: "ms \<noteq> []"
    using assms by auto
  have eq: "limit_history_turns ms n = filter (keep_message (set (call_ids ?base))) ?base"
    by (rule limit_history_turns_unfold [OF assms(1) ne]) (simp only: i(2))
  have suf: "suffix ?kept ms"
    using suffix_drop [of i ?rest] suffix_dropWhile [of _ ms] suffix_order.trans by blast
  have "set ?base \<subseteq> set ms"
    using set_takeWhileD [of _ _ ms] suf by (auto dest: set_mono_suffix in_set_dropD set_dropWhileD)
  then have "call_ids (filter (keep_message (set (call_ids ?base))) ?base) = call_ids ?base"
    using assms(3) by (intro call_ids_filter_keep) blast
  then have "\<forall>m \<in> set (limit_history_turns ms n). \<forall>j. role m = Tool \<and> tool_call_id m = Some j
      \<longrightarrow> j \<in> set (call_ids (limit_history_turns ms n))"
    unfolding eq by (auto simp: keep_message_def)
  moreover have "hd ?kept = ?rest ! i"
    using i(1) by (simp add: hd_drop_conv_nth)
  ultimately show ?thesis
    using eq suf i by (intro exI [of _ ?kept]) (auto simp: Let_def)
qed

theorem limit_keeps_last_turns_witness:
  "\<exists>kept. suffix kept [plain_message User ''a'', plain_message User ''b''] \<and> kept \<noteq> []
     \<and> user_turns kept = 1"
  using limit_keeps_last_turns [of 1 "[plain_message User ''a'', plain_message User ''b'']"]
  by auto

text \<open>Pruning never panics and only rewrites the content of long, unprotected tool results.
  Every slice is taken at a character boundary, the list keeps its length and order, and a message
  that is not a tool result, answers a call of one of the last assistants, or is short stays as it
  is.\<close>

theorem prune_total_and_framed:
  "\<exists>out. prune_tool_results ms config = Some out \<and> length out = length ms
     \<and> (\<forall>k < length ms. \<exists>c. out ! k = (ms ! k)\<lparr>content := c\<rparr>
          \<and> (prune_exempt (protected_tc_ids ms config) config (ms ! k) \<longrightarrow> c = content (ms ! k)))"
proof -
  let ?f = "prune_message (protected_tc_ids ms config) config"
  have "prune_tool_results ms config = Some (map (\<lambda>x. the (?f x)) ms)"
    unfolding prune_tool_results_def
    using prune_message_frame by (intro those_map_Some) blast
  moreover have "\<exists>c. the (?f m) = m\<lparr>content := c\<rparr>
      \<and> (prune_exempt (protected_tc_ids ms config) config m \<longrightarrow> c = content m)" for m
    using prune_message_frame [of "protected_tc_ids ms config" config m]
    by (elim exE conjE) (auto intro!: exI)
  ultimately show ?thesis
    by auto
qed

theorem prune_total_and_framed_witness:
  "\<exists>out. prune_tool_results [plain_message Tool ''x''] default_pruning_config = Some out \<and> length out = 1"
  using prune_total_and_framed [of "[plain_message Tool ''x'']" default_pruning_config] by auto

end
