(* ===== verification/Transcript_Repair.thy ===== *)
theory Transcript_Repair
  imports Chat
begin

text \<open>
  \<^verbatim>\<open>agent-core/src/transcript_repair.rs\<close>: pairing of tool calls and tool results in a loaded
  history, cleaning of tool calls and of JSONL lines.  The JSON decoder (\<^verbatim>\<open>serde_json\<close>) is the
  parameter \<open>from_str\<close>.  \<open>repair_spec\<close> is the abstract specification of the repair;
  \<open>repair_refines\<close> shows that the loops with their pool, seen set and flags implement it.
\<close>

section \<open>The program\<close>

record repair_report =
  added_synthetic :: nat
  dropped_duplicates :: nat
  dropped_orphans :: nat
  moved_results :: bool

definition SYNTHETIC_ERROR :: string where
  "SYNTHETIC_ERROR = ''[oclaw] missing tool result in session history; inserted synthetic error result for transcript repair.''"

definition make_synthetic_result :: "string \<Rightarrow> string \<Rightarrow> chat_message" where
  "make_synthetic_result call_id tool_name =
     \<lparr>role = Tool, content = SYNTHETIC_ERROR, msg_name = Some tool_name, tool_calls = None,
      tool_call_id = Some call_id\<rparr>"

text \<open>The mutable variables of the main loop.\<close>

record repair_state =
  rs_result :: "chat_message list"
  rs_seen :: "string set"
  rs_added :: nat
  rs_dups :: nat

definition pool_push ::
  "chat_message \<Rightarrow> (string, chat_message list) hash_map \<Rightarrow> (string, chat_message list) hash_map" where
  "pool_push m pool =
     (if role m = Tool then
        (case tool_call_id m of
           Some i \<Rightarrow> hm_insert i ((case hm_get pool i of None \<Rightarrow> [] | Some l \<Rightarrow> l) @ [m]) pool
         | None \<Rightarrow> pool)
      else pool)"

definition result_pool :: "chat_message list \<Rightarrow> (string, chat_message list) hash_map" where
  "result_pool messages = fold pool_push messages []"

fun place_loop :: "string \<Rightarrow> chat_message list \<Rightarrow> repair_state \<Rightarrow> repair_state \<times> bool" where
  "place_loop i [] st = (st, False)"
| "place_loop i (tr # trs) st =
     (if i \<in> rs_seen st then place_loop i trs (st\<lparr>rs_dups := rs_dups st + 1\<rparr>)
      else (st\<lparr>rs_seen := insert i (rs_seen st), rs_result := rs_result st @ [tr]\<rparr>, True))"

definition push_synthetic :: "tool_call \<Rightarrow> repair_state \<Rightarrow> repair_state" where
  "push_synthetic tc st =
     st\<lparr>rs_result := rs_result st @ [make_synthetic_result (tc_id tc) (fn_name (tc_function tc))],
        rs_added := rs_added st + 1, rs_seen := insert (tc_id tc) (rs_seen st)\<rparr>"

definition pair_call ::
  "(string, chat_message list) hash_map \<Rightarrow> tool_call \<Rightarrow> repair_state \<Rightarrow> repair_state" where
  "pair_call pool tc st =
     (case hm_get pool (tc_id tc) of
        Some results \<Rightarrow>
          let (st', placed) = place_loop (tc_id tc) results st
          in if \<not> placed \<and> tc_id tc \<notin> rs_seen st' then push_synthetic tc st' else st'
      | None \<Rightarrow> if tc_id tc \<notin> rs_seen st then push_synthetic tc st else st)"

definition repair_message ::
  "(string, chat_message list) hash_map \<Rightarrow> chat_message \<Rightarrow> repair_state \<Rightarrow> repair_state" where
  "repair_message pool m st =
     (if role m = Tool then st
      else
        let st' = st\<lparr>rs_result := rs_result st @ [m]\<rparr>
        in if role m = Assistant then
             (case tool_calls m of Some tcs \<Rightarrow> fold (pair_call pool) tcs st' | None \<Rightarrow> st')
           else st')"

definition tool_result_ids :: "chat_message list \<Rightarrow> string list" where
  "tool_result_ids ms =
     List.map_filter (\<lambda>m. if role m = Tool then tool_call_id m else None) ms"

definition check_results_moved :: "chat_message list \<Rightarrow> chat_message list \<Rightarrow> bool" where
  "check_results_moved original repaired = (tool_result_ids original \<noteq> tool_result_ids repaired)"

definition repair_tool_use_result_pairing ::
  "chat_message list \<Rightarrow> chat_message list \<times> repair_report" where
  "repair_tool_use_result_pairing messages =
     (let st = fold (repair_message (result_pool messages)) messages
                 \<lparr>rs_result = [], rs_seen = {}, rs_added = 0, rs_dups = 0\<rparr>;
          orphans = length (filter (\<lambda>i. i \<notin> rs_seen st) (tool_result_ids messages))
      in (rs_result st,
          \<lparr>added_synthetic = rs_added st, dropped_duplicates = rs_dups st, dropped_orphans = orphans,
           moved_results = check_results_moved messages (rs_result st)\<rparr>))"

definition valid_tool_call :: "string set option \<Rightarrow> tool_call \<Rightarrow> bool" where
  "valid_tool_call allowed tc =
     (if tc_id tc = [] \<or> fn_name (tc_function tc) = [] then False
      else if length (fn_name (tc_function tc)) > 64 then False
      else case allowed of Some s \<Rightarrow> fn_name (tc_function tc) \<in> s | None \<Rightarrow> True)"

definition sanitize_message :: "string set option \<Rightarrow> chat_message \<Rightarrow> chat_message option" where
  "sanitize_message allowed m =
     (if role m \<noteq> Assistant then Some m
      else case tool_calls m of
             None \<Rightarrow> Some m
           | Some tcs \<Rightarrow>
               let tcs' = filter (valid_tool_call allowed) tcs
               in if tcs' = [] \<and> content m = [] then None
                  else Some (m\<lparr>tool_calls := (if tcs' = [] then None else Some tcs')\<rparr>))"

definition sanitize_tool_call_inputs ::
  "chat_message list \<Rightarrow> string set option \<Rightarrow> chat_message list" where
  "sanitize_tool_call_inputs messages allowed = List.map_filter (sanitize_message allowed) messages"

definition repair_jsonl_lines ::
  "(string \<Rightarrow> chat_message option) \<Rightarrow> string \<Rightarrow> chat_message list \<times> nat" where
  "repair_jsonl_lines from_str raw =
     fold (\<lambda>line (valid, dropped).
        let trimmed = trim line
        in if trimmed = [] then (valid, dropped)
           else case from_str trimmed of
                  Some m \<Rightarrow> (valid @ [m], dropped)
                | None \<Rightarrow> (valid, dropped + 1)) (lines_of raw) ([], 0)"


section \<open>The specification\<close>

text \<open>The calls that get a result: the first call of each id not answered yet.\<close>

fun first_calls :: "string set \<Rightarrow> tool_call list \<Rightarrow> tool_call list" where
  "first_calls S [] = []"
| "first_calls S (tc # tcs) =
     (if tc_id tc \<in> S then first_calls S tcs else tc # first_calls (insert (tc_id tc) S) tcs)"

definition asst_calls :: "chat_message \<Rightarrow> tool_call list" where
  "asst_calls m = (if role m = Assistant then (case tool_calls m of Some tcs \<Rightarrow> tcs | None \<Rightarrow> []) else [])"

definition all_calls :: "chat_message list \<Rightarrow> tool_call list" where
  "all_calls ms = concat (map asst_calls ms)"

text \<open>Each non-tool message is kept in order and directly followed by the answers to its new calls.\<close>

fun repair_spec :: "(tool_call \<Rightarrow> chat_message) \<Rightarrow> string set \<Rightarrow> chat_message list \<Rightarrow> chat_message list" where
  "repair_spec f S [] = []"
| "repair_spec f S (m # ms) =
     (if role m = Tool then repair_spec f S ms
      else m # map f (first_calls S (asst_calls m)) @ repair_spec f (S \<union> tc_id ` set (asst_calls m)) ms)"

text \<open>The answer to a call: the first recorded result with its id, else a synthetic error.\<close>

definition answer :: "chat_message list \<Rightarrow> tool_call \<Rightarrow> chat_message" where
  "answer ms tc =
     (case filter (\<lambda>m. role m = Tool \<and> tool_call_id m = Some (tc_id tc)) ms of
        r # _ \<Rightarrow> r
      | [] \<Rightarrow> make_synthetic_result (tc_id tc) (fn_name (tc_function tc)))"


section \<open>Refinement\<close>

lemma result_pool_fold:
  "hm_get (fold pool_push ms pool) i =
     (let new = filter (\<lambda>m. role m = Tool \<and> tool_call_id m = Some i) ms
      in if new = [] then hm_get pool i
         else Some ((case hm_get pool i of None \<Rightarrow> [] | Some l \<Rightarrow> l) @ new))"
proof (induction ms arbitrary: pool)
  case Nil
  then show ?case by simp
next
  case (Cons m ms)
  then show ?case
    by (auto simp: pool_push_def Let_def split: option.splits)
qed

lemma result_pool_get:
  "hm_get (result_pool ms) i =
     (let rs = filter (\<lambda>m. role m = Tool \<and> tool_call_id m = Some i) ms
      in if rs = [] then None else Some rs)"
  by (simp add: result_pool_def result_pool_fold Let_def)

lemma place_loop_seen:
  "i \<in> rs_seen st \<Longrightarrow> \<exists>d. place_loop i trs st = (st\<lparr>rs_dups := d\<rparr>, False)"
proof (induction trs arbitrary: st)
  case Nil
  then show ?case by (intro exI [of _ "rs_dups st"]) simp
next
  case (Cons tr trs)
  then show ?case
    using Cons.IH [of "st\<lparr>rs_dups := rs_dups st + 1\<rparr>"] by auto
qed

lemma pair_call_result:
  "rs_result (pair_call (result_pool ms) tc st) =
     rs_result st @ map (answer ms) (first_calls (rs_seen st) [tc])
   \<and> rs_seen (pair_call (result_pool ms) tc st) = insert (tc_id tc) (rs_seen st)"
proof (cases "filter (\<lambda>m. role m = Tool \<and> tool_call_id m = Some (tc_id tc)) ms")
  case Nil
  then show ?thesis
    by (simp add: pair_call_def result_pool_get push_synthetic_def answer_def insert_absorb)
next
  case (Cons r rs)
  show ?thesis
  proof (cases "tc_id tc \<in> rs_seen st")
    case True
    then obtain d where "place_loop (tc_id tc) (r # rs) st = (st\<lparr>rs_dups := d\<rparr>, False)"
      using place_loop_seen by blast
    with True Cons show ?thesis
      by (simp add: pair_call_def result_pool_get insert_absorb)
  next
    case False
    with Cons show ?thesis
      by (simp add: pair_call_def result_pool_get answer_def)
  qed
qed

lemma first_calls_append:
  "first_calls S (xs @ ys) = first_calls S xs @ first_calls (S \<union> tc_id ` set xs) ys"
proof (induction xs arbitrary: S)
  case Nil
  then show ?case by simp
next
  case (Cons x xs)
  then show ?case by (simp add: insert_absorb Un_assoc)
qed

lemma pair_calls_result:
  "rs_result (fold (pair_call (result_pool ms)) tcs st) =
     rs_result st @ map (answer ms) (first_calls (rs_seen st) tcs)
   \<and> rs_seen (fold (pair_call (result_pool ms)) tcs st) = rs_seen st \<union> tc_id ` set tcs"
proof (induction tcs arbitrary: st)
  case Nil
  then show ?case by simp
next
  case (Cons tc tcs)
  then show ?case
    using first_calls_append [of "rs_seen st" "[tc]" tcs]
    by (simp add: pair_call_result Un_commute)
qed

lemma repair_message_result:
  "rs_result (repair_message (result_pool all) m st) = rs_result st @ repair_spec (answer all) (rs_seen st) [m]
   \<and> rs_seen (repair_message (result_pool all) m st) = rs_seen st \<union> tc_id ` set (asst_calls m)"
proof -
  let ?st = "st\<lparr>rs_result := rs_result st @ [m]\<rparr>"
  have "role m \<noteq> Tool \<Longrightarrow>
      repair_message (result_pool all) m st = fold (pair_call (result_pool all)) (asst_calls m) ?st"
    by (simp add: repair_message_def asst_calls_def split: option.split)
  moreover have "role m = Tool \<Longrightarrow> repair_message (result_pool all) m st = st \<and> asst_calls m = []"
    by (simp add: repair_message_def asst_calls_def)
  ultimately show ?thesis
    using pair_calls_result [of all "asst_calls m" ?st] by (cases "role m = Tool") simp_all
qed

lemma repair_loop_result:
  "rs_result (fold (repair_message (result_pool all)) ms st) =
     rs_result st @ repair_spec (answer all) (rs_seen st) ms
   \<and> rs_seen (fold (repair_message (result_pool all)) ms st) = rs_seen st \<union> tc_id ` set (all_calls ms)"
proof (induction ms arbitrary: st)
  case Nil
  then show ?case by (simp add: all_calls_def)
next
  case (Cons m ms)
  let ?st = "repair_message (result_pool all) m st"
  have seen: "rs_seen ?st = rs_seen st \<union> tc_id ` set (asst_calls m)"
    using repair_message_result by blast
  have "role m = Tool \<Longrightarrow> asst_calls m = []"
    by (simp add: asst_calls_def)
  then have "repair_spec (answer all) (rs_seen st) [m] @ repair_spec (answer all) (rs_seen ?st) ms =
      repair_spec (answer all) (rs_seen st) (m # ms)"
    unfolding seen by (cases "role m = Tool") simp_all
  then show ?case
    using Cons.IH [of ?st] repair_message_result [of all m st]
    by (simp add: all_calls_def image_Un Un_assoc)
qed

lemma repair_eq_spec:
  "fst (repair_tool_use_result_pairing ms) = repair_spec (answer ms) {} ms"
  by (simp add: repair_tool_use_result_pairing_def Let_def repair_loop_result)



section \<open>Facts about the specification\<close>

definition answers :: "(tool_call \<Rightarrow> chat_message) \<Rightarrow> bool" where
  "answers f = (\<forall>tc. role (f tc) = Tool \<and> tool_call_id (f tc) = Some (tc_id tc))"

lemma answers_answer: "answers (answer ms)"
proof -
  have "role (answer ms tc) = Tool \<and> tool_call_id (answer ms tc) = Some (tc_id tc)" for tc
  proof (cases "filter (\<lambda>m. role m = Tool \<and> tool_call_id m = Some (tc_id tc)) ms")
    case Nil
    then show ?thesis by (simp add: answer_def make_synthetic_result_def)
  next
    case (Cons r rs)
    then have "role r = Tool \<and> tool_call_id r = Some (tc_id tc)"
      by (metis (mono_tags, lifting) filter_eq_ConsD)
    with Cons show ?thesis by (simp add: answer_def)
  qed
  then show ?thesis by (simp add: answers_def)
qed

lemma first_calls_ids:
  "distinct (map tc_id (first_calls S tcs)) \<and> tc_id ` set (first_calls S tcs) = tc_id ` set tcs - S"
  by (induction tcs arbitrary: S) auto

lemma asst_calls_Tool: "role m = Tool \<Longrightarrow> asst_calls m = []"
  by (simp add: asst_calls_def)

lemma all_calls_Cons: "all_calls (m # ms) = asst_calls m @ all_calls ms"
  by (simp add: all_calls_def)

lemma tool_messages_spec:
  assumes "answers f"
  shows "filter (\<lambda>m. role m = Tool) (repair_spec f S ms) = map f (first_calls S (all_calls ms))"
proof (induction ms arbitrary: S)
  case Nil
  then show ?case by (simp add: all_calls_def)
next
  case (Cons m ms)
  have "filter (\<lambda>m. role m = Tool) (map f xs) = map f xs" for xs
    using assms by (simp add: answers_def)
  with Cons show ?case
    by (simp add: all_calls_Cons first_calls_append asst_calls_Tool)
qed

lemma other_messages_spec:
  assumes "answers f"
  shows "filter (\<lambda>m. role m \<noteq> Tool) (repair_spec f S ms) = filter (\<lambda>m. role m \<noteq> Tool) ms"
proof (induction ms arbitrary: S)
  case (Cons m ms)
  have "filter (\<lambda>m. role m \<noteq> Tool) (map f xs) = []" for xs
    using assms by (simp add: answers_def)
  with Cons show ?case by simp
qed simp

lemma repair_spec_other: "repair_spec f S ms = repair_spec f S (filter (\<lambda>m. role m \<noteq> Tool) ms)"
  by (induction ms arbitrary: S) auto

lemma repair_spec_cong:
  "(\<And>tc. tc \<in> set (first_calls S (all_calls ms)) \<Longrightarrow> f tc = g tc) \<Longrightarrow> repair_spec f S ms = repair_spec g S ms"
proof (induction ms arbitrary: S)
  case (Cons m ms)
  show ?case
  proof (cases "role m = Tool")
    case True
    with Cons show ?thesis by (simp add: all_calls_Cons asst_calls_Tool)
  next
    case False
    have "\<And>tc. tc \<in> set (first_calls S (asst_calls m)) \<Longrightarrow> f tc = g tc"
      and "repair_spec f (S \<union> tc_id ` set (asst_calls m)) ms = repair_spec g (S \<union> tc_id ` set (asst_calls m)) ms"
      using Cons by (auto simp: all_calls_Cons first_calls_append)
    with False show ?thesis by simp
  qed
qed simp

lemma filter_single:
  "distinct (map g xs) \<Longrightarrow> x \<in> set xs \<Longrightarrow> filter (\<lambda>y. g y = g x) xs = [x]"
proof (induction xs)
  case (Cons y ys)
  show ?case
  proof (cases "x = y")
    case True
    with Cons.prems have "\<forall>z \<in> set ys. g z \<noteq> g x" by (metis distinct.simps(2) image_eqI list.set_map list.simps(9))
    with True show ?thesis by simp
  next
    case False
    with Cons have "x \<in> set ys" and "g y \<noteq> g x" by auto
    with Cons show ?thesis by simp
  qed
qed simp

lemma answer_of_repaired:
  assumes "answers f" and "tc \<in> set (first_calls {} (all_calls ms))"
  shows "answer (repair_spec f {} ms) tc = f tc"
proof -
  let ?tcs = "first_calls {} (all_calls ms)"
  have "filter (\<lambda>m. role m = Tool \<and> tool_call_id m = Some (tc_id tc)) (repair_spec f {} ms) =
      filter (\<lambda>m. tool_call_id m = Some (tc_id tc)) (map f ?tcs)"
    by (simp add: tool_messages_spec [OF assms(1), symmetric] conj_commute)
  also have "\<dots> = map f (filter (\<lambda>c. tc_id c = tc_id tc) ?tcs)"
    using assms(1) by (simp add: filter_map o_def answers_def)
  also have "\<dots> = [f tc]"
    using filter_single [of tc_id ?tcs tc] first_calls_ids assms(2) by auto
  finally show ?thesis by (simp add: answer_def)
qed

lemma tool_result_ids_eq:
  assumes "answers f"
  shows "tool_result_ids (repair_spec f S ms) = map tc_id (first_calls S (all_calls ms))"
proof -
  have "tool_result_ids xs = List.map_filter tool_call_id (filter (\<lambda>m. role m = Tool) xs)" for xs
    by (induction xs) (simp_all add: tool_result_ids_def map_filter_simps split: option.split)
  then have "tool_result_ids (repair_spec f S ms) = List.map_filter tool_call_id (map f (first_calls S (all_calls ms)))"
    using tool_messages_spec [OF assms] by simp
  also have "\<dots> = map tc_id (first_calls S (all_calls ms))"
    using assms by (induction "first_calls S (all_calls ms)") (simp_all add: map_filter_def answers_def)
  finally show ?thesis .
qed


section \<open>Properties\<close>


text \<open>After the repair every assistant tool call has exactly one result and every result
  belongs to a call: the ids of the tool results are distinct, they are exactly the ids called by
  assistant messages, and no message other than a tool result is lost, added or moved.\<close>

theorem repair_pairs_calls_and_results:
  "distinct (tool_result_ids (fst (repair_tool_use_result_pairing ms)))
   \<and> set (tool_result_ids (fst (repair_tool_use_result_pairing ms))) = tc_id ` set (all_calls ms)
   \<and> filter (\<lambda>m. role m \<noteq> Tool) (fst (repair_tool_use_result_pairing ms)) = filter (\<lambda>m. role m \<noteq> Tool) ms"
  using first_calls_ids [of "{}" "all_calls ms"]
  by (simp add: repair_eq_spec tool_result_ids_eq answers_answer other_messages_spec)

text \<open>Repairing twice is repairing once: a repaired history is a fixed point of the repair.\<close>

theorem repair_idempotent:
  "fst (repair_tool_use_result_pairing (fst (repair_tool_use_result_pairing ms))) =
     fst (repair_tool_use_result_pairing ms)"
proof -
  let ?f = "answer ms"
  let ?out = "repair_spec ?f {} ms"
  have "repair_spec (answer ?out) {} ?out = repair_spec (answer ?out) {} ms"
    using repair_spec_other [of _ _ ?out] repair_spec_other [of _ _ ms]
      other_messages_spec [OF answers_answer, of ms "{}" ms] by metis
  also have "\<dots> = ?out"
    by (rule repair_spec_cong) (rule answer_of_repaired [OF answers_answer])
  finally show ?thesis by (simp add: repair_eq_spec)
qed

end
