(* ===== verification/Tool_Policy.thy ===== *)
theory Tool_Policy
  imports Prelude
begin

text \<open>
  \<^verbatim>\<open>tools-core/src/groups.rs\<close>, \<^verbatim>\<open>profiles.rs\<close> and \<^verbatim>\<open>policy.rs\<close>: tool groups, preset profiles,
  the three-level policy merge and the seven-layer pipeline.  The locale \<open>deny_first\<close> is the
  contract the callers of any of these gates rely on; it is interpreted here for \<^verbatim>\<open>ToolPolicy\<close>,
  \<^verbatim>\<open>ToolPolicyPipeline\<close> and \<^verbatim>\<open>LayeredPolicyPipeline\<close>, and in the theory of the approval gate.
\<close>

section \<open>Groups\<close>

definition resolve_tool_group :: "string \<Rightarrow> string list" where
  "resolve_tool_group grp =
     (if grp = ''group:memory'' then [''memory_search'', ''memory_get'']
      else if grp = ''group:web'' then [''web_search'', ''web_fetch'', ''link_reader'']
      else if grp = ''group:fs'' then [''read_file'', ''write_file'', ''list_dir'']
      else if grp = ''group:runtime'' then [''bash'']
      else if grp = ''group:sessions'' then
        [''sessions_list'', ''sessions_history'', ''sessions_send'', ''sessions_spawn'',
         ''subagents'', ''session_status'']
      else if grp = ''group:ui'' then [''browse'']
      else if grp = ''group:automation'' then [''cron'']
      else if grp = ''group:messaging'' then [''message'']
      else if grp = ''group:media'' then [''media_describe'', ''tts'']
      else [])"

definition is_group_ref :: "string \<Rightarrow> bool" where
  "is_group_ref name = starts_with name ''group:''"

text \<open>The recurring \<^verbatim>\<open>if !out.contains(x) { out.push(x) }\<close>.\<close>

definition push_new :: "string \<Rightarrow> string list \<Rightarrow> string list" where
  "push_new x out = (if x \<in> set out then out else out @ [x])"

definition expand_item :: "string \<Rightarrow> string list \<Rightarrow> string list" where
  "expand_item item out =
     (if is_group_ref item then fold push_new (resolve_tool_group item) out else push_new item out)"

definition expand_tool_list :: "string list \<Rightarrow> string list" where
  "expand_tool_list items = fold expand_item items []"

definition resolve_tool_alias :: "string \<Rightarrow> string" where
  "resolve_tool_alias name =
     (if name = ''exec'' then ''bash'' else if name = ''apply-patch'' then ''apply_patch'' else name)"

definition owner_only_tools :: "string list" where
  "owner_only_tools = [''cron'', ''gateway'', ''sessions_spawn'']"

definition is_owner_only_tool :: "string \<Rightarrow> bool" where
  "is_owner_only_tool name = (name \<in> set owner_only_tools)"


section \<open>Profiles\<close>

datatype tool_profile = Minimal | Coding | Messaging | Full

fun allowed_tools :: "tool_profile \<Rightarrow> string list" where
  "allowed_tools Minimal = [''session_status'']"
| "allowed_tools Coding =
     [''group:fs'', ''group:runtime'', ''group:sessions'', ''group:memory'', ''group:web'', ''media_describe'']"
| "allowed_tools Messaging =
     [''group:messaging'', ''sessions_list'', ''sessions_history'', ''sessions_send'', ''session_status'']"
| "allowed_tools Full = [''*'']"

definition allows_tool :: "tool_profile \<Rightarrow> string \<Rightarrow> bool" where
  "allows_tool profile tool_name =
     (let allowed = allowed_tools profile
      in if ''*'' \<in> set allowed then True
         else if tool_name \<in> set allowed then True
         else list_ex (\<lambda>entry. is_group_ref entry \<and> tool_name \<in> set (resolve_tool_group entry)) allowed)"


section \<open>Policies\<close>

record tool_policy =
  allow :: "string list option"
  deny :: "string list"
  require_approval :: "string list"

datatype tool_policy_decision = Allowed | Denied string | NeedsApproval

definition is_allowed :: "tool_policy \<Rightarrow> string \<Rightarrow> tool_policy_decision" where
  "is_allowed p tool_name =
     (if tool_name \<in> set (deny p) then Denied (''Tool '' @ [CHR 0x27] @ tool_name @ [CHR 0x27] @ '' is denied by policy'')
      else if (case allow p of Some al \<Rightarrow> tool_name \<notin> set al | None \<Rightarrow> False)
      then Denied (''Tool '' @ [CHR 0x27] @ tool_name @ [CHR 0x27] @ '' is not in the allow list'')
      else if tool_name \<in> set (require_approval p) then NeedsApproval
      else Allowed)"

definition merge_policy :: "tool_policy \<Rightarrow> tool_policy \<Rightarrow> tool_policy" where
  "merge_policy self override_policy =
     \<lparr>allow = (case allow override_policy of Some al \<Rightarrow> Some al | None \<Rightarrow> allow self),
      deny = fold push_new (deny override_policy) (deny self),
      require_approval = fold push_new (require_approval override_policy) (require_approval self)\<rparr>"

record tool_policy_pipeline =
  global_policy :: tool_policy
  channel_policies :: "(string, tool_policy) hash_map"
  session_policies :: "(string, tool_policy) hash_map"

definition pipeline_new :: "tool_policy \<Rightarrow> tool_policy_pipeline" where
  "pipeline_new g = \<lparr>global_policy = g, channel_policies = [], session_policies = []\<rparr>"

definition merge_opt :: "tool_policy \<Rightarrow> (string, tool_policy) hash_map \<Rightarrow> string option \<Rightarrow> tool_policy" where
  "merge_opt merged policies key =
     (case key of
        None \<Rightarrow> merged
      | Some k \<Rightarrow> (case hm_get policies k of None \<Rightarrow> merged | Some p \<Rightarrow> merge_policy merged p))"

definition pipeline_check ::
  "tool_policy_pipeline \<Rightarrow> string option \<Rightarrow> string option \<Rightarrow> string \<Rightarrow> tool_policy_decision" where
  "pipeline_check pl channel session tool_name =
     is_allowed (merge_opt (merge_opt (global_policy pl) (channel_policies pl) channel)
       (session_policies pl) session) tool_name"


section \<open>The seven-layer pipeline\<close>

record policy_context =
  ctx_channel :: "string option"
  ctx_session :: "string option"
  ctx_agent_id :: "string option"
  ctx_provider :: "string option"

datatype policy_layer =
    Profile tool_profile
  | ProviderProfile string tool_profile
  | GlobalAllow "string list"
  | GlobalProviderAllow string "string list"
  | AgentAllow string "string list"
  | AgentProviderAllow string string "string list"
  | GroupAllow string "string list"

record layered_policy_pipeline =
  layers :: "policy_layer list"
  fallback :: tool_policy

definition layered_new :: "tool_policy \<Rightarrow> layered_policy_pipeline" where
  "layered_new fb = \<lparr>layers = [], fallback = fb\<rparr>"

definition add_layer :: "policy_layer \<Rightarrow> layered_policy_pipeline \<Rightarrow> layered_policy_pipeline" where
  "add_layer l p = p\<lparr>layers := layers p @ [l]\<rparr>"

fun show_profile :: "tool_profile \<Rightarrow> string" where
  "show_profile Minimal = ''Minimal''"
| "show_profile Coding = ''Coding''"
| "show_profile Messaging = ''Messaging''"
| "show_profile Full = ''Full''"

definition list_allows :: "string list \<Rightarrow> string \<Rightarrow> tool_policy_decision option" where
  "list_allows l tool_name =
     (if list_ex (\<lambda>t. t = tool_name \<or> t = ''*'') (expand_tool_list l) then Some Allowed else None)"

fun evaluate_layer :: "policy_layer \<Rightarrow> string \<Rightarrow> policy_context \<Rightarrow> tool_policy_decision option" where
  "evaluate_layer (Profile profile) tool_name ctx =
     (if allows_tool profile tool_name then Some Allowed
      else Some (Denied (''Tool '' @ [CHR 0x27] @ tool_name @ [CHR 0x27] @ '' not in profile '' @ show_profile profile)))"
| "evaluate_layer (ProviderProfile provider profile) tool_name ctx =
     (if ctx_provider ctx \<noteq> Some provider then None
      else if allows_tool profile tool_name then Some Allowed
      else Some (Denied (''Tool '' @ [CHR 0x27] @ tool_name @ [CHR 0x27] @ '' not in provider profile'')))"
| "evaluate_layer (GlobalAllow l) tool_name ctx = list_allows l tool_name"
| "evaluate_layer (GlobalProviderAllow provider l) tool_name ctx =
     (if ctx_provider ctx \<noteq> Some provider then None else list_allows l tool_name)"
| "evaluate_layer (AgentAllow agent l) tool_name ctx =
     (if ctx_agent_id ctx \<noteq> Some agent then None else list_allows l tool_name)"
| "evaluate_layer (AgentProviderAllow agent provider l) tool_name ctx =
     (if ctx_agent_id ctx \<noteq> Some agent \<or> ctx_provider ctx \<noteq> Some provider then None
      else list_allows l tool_name)"
| "evaluate_layer (GroupAllow channel l) tool_name ctx =
     (if ctx_channel ctx \<noteq> Some channel then None else list_allows l tool_name)"

definition evaluate :: "layered_policy_pipeline \<Rightarrow> policy_context \<Rightarrow> string \<Rightarrow> tool_policy_decision" where
  "evaluate pl ctx tool_name =
     (if tool_name \<in> set (deny (fallback pl))
      then Denied (''Tool '' @ [CHR 0x27] @ tool_name @ [CHR 0x27] @ '' is denied by policy'')
      else
        let last_decision =
              fold (\<lambda>layer d. case evaluate_layer layer tool_name ctx of Some x \<Rightarrow> Some x | None \<Rightarrow> d)
                (layers pl) None
        in (case last_decision of Some d \<Rightarrow> d | None \<Rightarrow> is_allowed (fallback pl) tool_name))"


section \<open>Facts\<close>

lemma set_push_new [simp]: "set (push_new x out) = insert x (set out)"
  by (auto simp: push_new_def)

lemma distinct_push_new [simp]: "distinct (push_new x out) = distinct out"
  by (simp add: push_new_def)

lemma set_fold_push_new [simp]: "set (fold push_new xs out) = set out \<union> set xs"
  by (induction xs arbitrary: out) auto

lemma distinct_fold_push_new [simp]: "distinct (fold push_new xs out) = distinct out"
  by (induction xs arbitrary: out) auto

lemma fold_push_new_absorb: "set xs \<subseteq> set out \<Longrightarrow> fold push_new xs out = out"
  by (induction xs) (auto simp: push_new_def)

lemma push_new_fold_swap:
  "x \<in> set out \<Longrightarrow> fold push_new (push_new x xs) out = fold push_new xs out"
  by (auto simp: push_new_def fold_push_new_absorb)

lemma fold_push_new_assoc:
  "fold push_new (fold push_new ys xs) out = fold push_new ys (fold push_new xs out)"
proof (induction ys arbitrary: xs)
  case Nil
  then show ?case by simp
next
  case (Cons y ys)
  have "fold push_new (push_new y xs) out = push_new y (fold push_new xs out)"
    by (auto simp: push_new_def)
  with Cons [of "push_new y xs"] show ?case by simp
qed

lemma set_expand_item:
  "set (expand_item i out) = set out \<union> (if is_group_ref i then set (resolve_tool_group i) else {i})"
  by (simp add: expand_item_def)

lemma expand_fold:
  "set (fold expand_item items out) =
     set out \<union> (\<Union>i \<in> set items. if is_group_ref i then set (resolve_tool_group i) else {i})
   \<and> (distinct out \<longrightarrow> distinct (fold expand_item items out))"
  by (induction items arbitrary: out) (auto simp: set_expand_item expand_item_def)

lemma fold_last_Some:
  "fold (\<lambda>x d. case g x of Some y \<Rightarrow> Some y | None \<Rightarrow> d) xs d =
     (case List.map_filter g (rev xs) of y # _ \<Rightarrow> Some y | [] \<Rightarrow> d)"
  by (induction xs rule: rev_induct) (auto simp: map_filter_simps split: option.splits)

lemma evaluate_eq:
  "evaluate pl ctx t =
     (if t \<in> set (deny (fallback pl))
      then Denied (''Tool '' @ [CHR 0x27] @ t @ [CHR 0x27] @ '' is denied by policy'')
      else case List.map_filter (\<lambda>l. evaluate_layer l t ctx) (rev (layers pl)) of
             d # _ \<Rightarrow> d
           | [] \<Rightarrow> is_allowed (fallback pl) t)"
  by (auto simp: evaluate_def fold_last_Some split: list.splits)


section \<open>Deny first\<close>

text \<open>
  The contract of a gate: a tool on the deny list is never permitted, whatever else the gate's
  state says.  Clients only need that the tools they go on with are disjoint from the deny list.
\<close>

locale deny_first =
  fixes decide :: "'g \<Rightarrow> string \<Rightarrow> 'd"
    and denied_tools :: "'g \<Rightarrow> string set"
    and permits :: "'d \<Rightarrow> bool"
  assumes deny_wins: "t \<in> denied_tools g \<Longrightarrow> \<not> permits (decide g t)"
begin

lemma permitted_disjoint: "{t. permits (decide g t)} \<inter> denied_tools g = {}"
  using deny_wins by blast

lemma filter_permitted_disjoint: "set (filter (\<lambda>t. permits (decide g t)) ts) \<inter> denied_tools g = {}"
  using deny_wins by auto

lemma permitted_not_denied: "permits (decide g t) \<Longrightarrow> t \<notin> denied_tools g"
  using deny_wins by blast

end

definition not_denied :: "tool_policy_decision \<Rightarrow> bool" where
  "not_denied d = (d = Allowed \<or> d = NeedsApproval)"

lemma deny_merge_opt:
  "set (deny (merge_opt p ps k)) =
     set (deny p) \<union> (case Option.bind k (hm_get ps) of None \<Rightarrow> {} | Some q \<Rightarrow> set (deny q))"
  by (auto simp: merge_opt_def merge_policy_def split: option.splits)

text \<open>The policies that apply to a channel and a session, most general first.\<close>

definition applicable :: "tool_policy_pipeline \<Rightarrow> string option \<Rightarrow> string option \<Rightarrow> tool_policy list" where
  "applicable pl channel session =
     global_policy pl
     # (case Option.bind channel (hm_get (channel_policies pl)) of None \<Rightarrow> [] | Some p \<Rightarrow> [p])
     @ (case Option.bind session (hm_get (session_policies pl)) of None \<Rightarrow> [] | Some p \<Rightarrow> [p])"

interpretation policy_gate: deny_first is_allowed "\<lambda>p. set (deny p)" not_denied
  by unfold_locales (simp add: is_allowed_def not_denied_def)

interpretation pipeline_gate: deny_first
  "\<lambda>pl. pipeline_check pl channel session"
  "\<lambda>pl. \<Union> (set (map (\<lambda>p. set (deny p)) (applicable pl channel session)))" not_denied
  for channel session
  by unfold_locales
    (auto simp: pipeline_check_def is_allowed_def not_denied_def deny_merge_opt applicable_def split: option.splits)

interpretation layered_gate: deny_first
  "\<lambda>pl. evaluate pl ctx" "\<lambda>pl. set (deny (fallback pl))" not_denied
  for ctx
  by unfold_locales (simp add: evaluate_def not_denied_def)


section \<open>Properties\<close>

text \<open>Merging policies is associative, so the layering global, channel, session has one meaning
  whichever pair is merged first (the deny and approval lists are equal as lists, without
  duplicates added).\<close>

theorem merge_policy_assoc:
  "merge_policy (merge_policy a b) c = merge_policy a (merge_policy b c)"
  by (simp add: merge_policy_def fold_push_new_assoc split: option.split)

text \<open>The allow list in force: that of the most specific policy that has one.\<close>

definition effective_allow :: "tool_policy list \<Rightarrow> string list option" where
  "effective_allow ps = (case List.map_filter allow (rev ps) of [] \<Rightarrow> None | al # _ \<Rightarrow> Some al)"

lemma allow_fold_merge: "effective_allow [p] = allow p"
  by (simp add: effective_allow_def map_filter_simps split: option.split)

text \<open>The decision of the three-level pipeline.  A tool denied at any applicable level is
  denied; otherwise it is denied when the most specific allow list exists and lacks it (a session
  allow list replaces the global one, it does not narrow it); otherwise it needs approval when any
  applicable level asks for it, and else it is allowed.\<close>

theorem pipeline_check_decision:
  "pipeline_check pl channel session t =
     (let ps = applicable pl channel session
      in if list_ex (\<lambda>p. t \<in> set (deny p)) ps
         then Denied (''Tool '' @ [CHR 0x27] @ t @ [CHR 0x27] @ '' is denied by policy'')
         else if (case effective_allow ps of Some al \<Rightarrow> t \<notin> set al | None \<Rightarrow> False)
         then Denied (''Tool '' @ [CHR 0x27] @ t @ [CHR 0x27] @ '' is not in the allow list'')
         else if list_ex (\<lambda>p. t \<in> set (require_approval p)) ps then NeedsApproval
         else Allowed)"
proof -
  let ?m = "merge_opt (merge_opt (global_policy pl) (channel_policies pl) channel) (session_policies pl) session"
  let ?ps = "applicable pl channel session"
  have "t \<in> set (deny ?m) \<longleftrightarrow> list_ex (\<lambda>p. t \<in> set (deny p)) ?ps"
    and "t \<in> set (require_approval ?m) \<longleftrightarrow> list_ex (\<lambda>p. t \<in> set (require_approval p)) ?ps"
    and "allow ?m = effective_allow ?ps"
    by (auto simp: merge_opt_def merge_policy_def applicable_def effective_allow_def map_filter_simps
        split: option.splits)
  then show ?thesis
    by (simp add: pipeline_check_def is_allowed_def Let_def)
qed

text \<open>In the seven-layer pipeline an approval requirement is honoured only when no layer
  applies.  As soon as one layer allows the tool the decision is Allowed (or the denial of a later
  profile), although the fallback policy lists the tool under \<^verbatim>\<open>require_approval\<close>.\<close>

theorem layered_approval_bypassed:
  "evaluate pl ctx t = NeedsApproval \<longleftrightarrow>
     t \<notin> set (deny (fallback pl))
     \<and> list_all (\<lambda>l. evaluate_layer l t ctx = None) (layers pl)
     \<and> is_allowed (fallback pl) t = NeedsApproval"
proof -
  have no: "evaluate_layer l t ctx \<noteq> Some NeedsApproval" for l
    by (cases l) (auto simp: list_allows_def)
  have none: "List.map_filter g xs = [] \<longleftrightarrow> list_all (\<lambda>l. g l = None) xs"
    for g :: "policy_layer \<Rightarrow> tool_policy_decision option" and xs
    by (induction xs) (auto simp: map_filter_simps split: option.splits)
  have mem: "d \<in> set (List.map_filter g xs) \<Longrightarrow> \<exists>l. g l = Some d"
    for g :: "policy_layer \<Rightarrow> tool_policy_decision option" and xs d
    by (induction xs) (auto simp: map_filter_simps split: option.splits)
  show ?thesis
  proof (cases "List.map_filter (\<lambda>l. evaluate_layer l t ctx) (rev (layers pl))")
    case Nil
    then show ?thesis
      using none [of "\<lambda>l. evaluate_layer l t ctx" "rev (layers pl)"] by (auto simp: evaluate_eq)
  next
    case (Cons d ds)
    then have "d \<noteq> NeedsApproval"
      using no mem [of d "\<lambda>l. evaluate_layer l t ctx" "rev (layers pl)"] by auto
    with Cons show ?thesis
      using none [of "\<lambda>l. evaluate_layer l t ctx" "rev (layers pl)"] by (auto simp: evaluate_eq)
  qed
qed

text \<open>Later layers override earlier ones, except for the deny list of the fallback policy: the
  decision is that of the last layer that applies, whether it allows or denies, and that of the
  fallback policy when none does.\<close>

theorem layered_last_applicable_wins:
  "evaluate (add_layer l pl) ctx t =
     (if t \<in> set (deny (fallback pl))
      then Denied (''Tool '' @ [CHR 0x27] @ t @ [CHR 0x27] @ '' is denied by policy'')
      else case evaluate_layer l t ctx of Some d \<Rightarrow> d | None \<Rightarrow> evaluate pl ctx t)"
  by (simp add: evaluate_def add_layer_def Let_def split: option.split)

text \<open>Expanding a mixed list of tools and groups yields, without duplicates, exactly the plain
  names and the members of the groups; group references themselves never survive.\<close>

theorem expand_tool_list_correct:
  "distinct (expand_tool_list items)
   \<and> set (expand_tool_list items) =
       {t. t \<in> set items \<and> \<not> is_group_ref t}
       \<union> (\<Union>i \<in> {i. i \<in> set items \<and> is_group_ref i}. set (resolve_tool_group i))
   \<and> list_all (\<lambda>t. \<not> is_group_ref t) (expand_tool_list items)"
proof -
  have members: "list_all (\<lambda>t. \<not> is_group_ref t) (resolve_tool_group i)" for i
    by (simp add: resolve_tool_group_def is_group_ref_def starts_with_def)
  have s: "set (expand_tool_list items) =
      (\<Union>i \<in> set items. if is_group_ref i then set (resolve_tool_group i) else {i})"
    using expand_fold [of items "[]"] by (simp add: expand_tool_list_def)
  moreover have "distinct (expand_tool_list items)"
    using expand_fold [of items "[]"] by (simp add: expand_tool_list_def)
  moreover have "list_all (\<lambda>t. \<not> is_group_ref t) (expand_tool_list items)"
    using members unfolding list_all_iff s by (auto split: if_splits)
  ultimately show ?thesis by auto
qed

end
