(* ===== verification/Approval.thy ===== *)
theory Approval
  imports Tool_Policy
begin

text \<open>
  \<^verbatim>\<open>tools-core/src/approval.rs\<close>: the approval gate in front of tool execution and its list of
  approval requests.  Fresh request ids (\<^verbatim>\<open>uuid\<close>) and the clock are arguments.
\<close>

record approval_policy =
  ap_require :: "string set"
  ap_auto :: "string set"
  ap_deny :: "string set"

definition default_approval_policy :: approval_policy where
  "default_approval_policy = \<lparr>ap_require = {''bash'', ''write_file''}, ap_auto = {}, ap_deny = {}\<rparr>"

datatype approval_decision = Approved | ApprovalDenied | Pending

definition APPROVAL_TTL_MS :: nat where "APPROVAL_TTL_MS = 5 * 60 * 1000"

record approval_request =
  req_id :: string
  req_tool :: string
  arguments_summary :: string
  decision :: approval_decision
  created_at_ms :: nat
  resolved_at_ms :: "nat option"
  resolved_by :: "string option"

record approval_gate =
  gate_policy :: approval_policy
  gate_pending :: "approval_request list"
  auto_approve_all :: bool

definition gate_new :: "approval_policy \<Rightarrow> approval_gate" where
  "gate_new p = \<lparr>gate_policy = p, gate_pending = [], auto_approve_all = False\<rparr>"

definition gate_auto_approve :: "approval_gate \<Rightarrow> approval_gate" where
  "gate_auto_approve g = g\<lparr>auto_approve_all := True\<rparr>"

definition gate_check :: "approval_gate \<Rightarrow> string \<Rightarrow> approval_decision" where
  "gate_check g tool_name =
     (if tool_name \<in> ap_deny (gate_policy g) then ApprovalDenied
      else if auto_approve_all g \<or> tool_name \<in> ap_auto (gate_policy g) then Approved
      else if tool_name \<in> ap_require (gate_policy g) then Pending
      else Approved)"

text \<open>\<^verbatim>\<open>args.chars().take(n)\<close>: whole characters, a continuation byte stays with its character.\<close>

fun take_chars :: "nat \<Rightarrow> string \<Rightarrow> string" where
  "take_chars n [] = []"
| "take_chars 0 (c # s) = (if continuation c then c # take_chars 0 s else [])"
| "take_chars (Suc n) (c # s) = (if continuation c then c # take_chars (Suc n) s else c # take_chars n s)"

definition request_approval ::
  "string \<Rightarrow> nat \<Rightarrow> string \<Rightarrow> string \<Rightarrow> approval_gate \<Rightarrow> approval_request \<times> approval_gate" where
  "request_approval uuid now tool args g =
     (let req = \<lparr>req_id = uuid, req_tool = tool, arguments_summary = take_chars 200 args,
                 decision = Pending, created_at_ms = now, resolved_at_ms = None, resolved_by = None\<rparr>
      in (req, g\<lparr>gate_pending := gate_pending g @ [req]\<rparr>))"

definition resolve_request :: "approval_decision \<Rightarrow> string option \<Rightarrow> nat \<Rightarrow> approval_request \<Rightarrow> approval_request" where
  "resolve_request d by_whom now r =
     (if d \<noteq> Pending then r\<lparr>decision := d, resolved_at_ms := Some now, resolved_by := by_whom\<rparr>
      else r\<lparr>decision := d, resolved_at_ms := None, resolved_by := None\<rparr>)"

definition gate_resolve ::
  "string \<Rightarrow> approval_decision \<Rightarrow> string option \<Rightarrow> nat \<Rightarrow> approval_gate \<Rightarrow> bool \<times> approval_gate" where
  "gate_resolve i d by_whom now g =
     (case update_first (\<lambda>r. req_id r = i) (resolve_request d by_whom now) (gate_pending g) of
        Some rs \<Rightarrow> (True, g\<lparr>gate_pending := rs\<rparr>)
      | None \<Rightarrow> (False, g))"

definition gate_approve :: "string \<Rightarrow> nat \<Rightarrow> approval_gate \<Rightarrow> bool \<times> approval_gate" where
  "gate_approve i now g = gate_resolve i Approved None now g"

definition gate_deny :: "string \<Rightarrow> nat \<Rightarrow> approval_gate \<Rightarrow> bool \<times> approval_gate" where
  "gate_deny i now g = gate_resolve i ApprovalDenied None now g"

definition evict_expired_pending :: "nat \<Rightarrow> approval_gate \<Rightarrow> approval_gate" where
  "evict_expired_pending now g =
     g\<lparr>gate_pending := filter (\<lambda>r. decision r \<noteq> Pending \<or> now - created_at_ms r < APPROVAL_TTL_MS)
        (gate_pending g)\<rparr>"

definition get_request :: "string \<Rightarrow> nat \<Rightarrow> approval_gate \<Rightarrow> approval_request option \<times> approval_gate" where
  "get_request i now g =
     (let g' = evict_expired_pending now g in (find (\<lambda>r. req_id r = i) (gate_pending g'), g'))"

definition list_requests :: "nat \<Rightarrow> approval_gate \<Rightarrow> approval_request list \<times> approval_gate" where
  "list_requests now g = (let g' = evict_expired_pending now g in (gate_pending g', g'))"

definition pending_requests :: "nat \<Rightarrow> approval_gate \<Rightarrow> approval_request list \<times> approval_gate" where
  "pending_requests now g =
     (let g' = evict_expired_pending now g in (filter (\<lambda>r. decision r = Pending) (gate_pending g'), g'))"


section \<open>The operations as steps\<close>

inductive gate_step :: "approval_gate \<Rightarrow> approval_gate \<Rightarrow> bool" where
  gs_request: "gate_step g (snd (request_approval uuid now tool args g))"
| gs_resolve: "gate_step g (snd (gate_resolve i d by_whom now g))"
| gs_evict: "gate_step g (evict_expired_pending now g)"

text \<open>A request is resolved exactly when it carries a resolution time.\<close>

definition gate_inv :: "approval_gate \<Rightarrow> bool" where
  "gate_inv g = list_all (\<lambda>r. (decision r = Pending) = (resolved_at_ms r = None)) (gate_pending g)"

lemma gate_inv_request: "gate_inv g \<Longrightarrow> gate_inv (snd (request_approval u n t a g))"
  by (simp add: gate_inv_def request_approval_def Let_def)

lemma gate_inv_resolve: "gate_inv g \<Longrightarrow> gate_inv (snd (gate_resolve i d b n g))"
  by (cases "update_first (\<lambda>r. req_id r = i) (resolve_request d b n) (gate_pending g)")
    (simp_all add: gate_inv_def gate_resolve_def update_first_list_all resolve_request_def)

lemma gate_inv_evict: "gate_inv g \<Longrightarrow> gate_inv (evict_expired_pending n g)"
  by (auto simp: gate_inv_def evict_expired_pending_def list_all_iff)

lemmas gate_frame_defs = request_approval_def gate_resolve_def evict_expired_pending_def Let_def

lemma gate_step_frame:
  "gate_step g g' \<Longrightarrow> gate_policy g' = gate_policy g \<and> auto_approve_all g' = auto_approve_all g"
  by (induction rule: gate_step.induct) (auto simp: gate_frame_defs split: option.splits)

interpretation gate_sys: invariant_system "\<lambda>g. gate_pending g = []" gate_step gate_inv
proof
  show "gate_inv g" if "gate_pending g = []" for g
    using that by (simp add: gate_inv_def)
  show "gate_inv g'" if "gate_inv g" "gate_step g g'" for g g'
    using that(2,1)
    by (induction rule: gate_step.induct) (auto intro: gate_inv_request gate_inv_resolve gate_inv_evict)
qed

interpretation approval_gate_deny: deny_first
  gate_check "\<lambda>g. ap_deny (gate_policy g)" "\<lambda>d. d = Approved"
  by unfold_locales (simp add: gate_check_def)

lemma find_fresh: "list_all (\<lambda>x. \<not> P x) xs \<Longrightarrow> P y \<Longrightarrow> find P (filter Q xs @ [y]) = Some y"
  by (induction xs) auto


section \<open>Properties\<close>

text \<open>Resolving an approval request never changes what the gate decides.  \<^verbatim>\<open>check\<close> reads only
  the policy, so along any sequence of requests, approvals, denials and evictions a tool that
  requires approval stays Pending: approving a request does not let the tool run.\<close>

theorem approval_never_unlocks:
  assumes "gate_step\<^sup>*\<^sup>* g g'"
  shows "gate_check g' t = gate_check g t"
  using assms
proof (induction rule: rtranclp_induct)
  case base
  then show ?case by simp
next
  case (step x y)
  have "gate_check y t = gate_check x t"
    using gate_step_frame [OF step.hyps(2)] by (simp add: gate_check_def)
  with step.IH show ?case by simp
qed

theorem approval_never_unlocks_witness:
  "gate_check (snd (gate_approve ''r1'' 7 (snd (request_approval ''r1'' 3 ''bash'' ''ls'' (gate_new default_approval_policy)))))
     ''bash'' = gate_check (snd (request_approval ''r1'' 3 ''bash'' ''ls'' (gate_new default_approval_policy))) ''bash''"
  unfolding gate_approve_def
  by (rule approval_never_unlocks) (rule r_into_rtranclp, rule gs_resolve)

text \<open>A request that was just filed can be approved and read back.  Whatever the gate held
  before, if the fresh id is unused, approving it succeeds and a later lookup at any time returns
  the request with the decision Approved and its resolution time: resolved requests never expire.\<close>

theorem approve_roundtrip:
  assumes "list_all (\<lambda>r. req_id r \<noteq> uuid) (gate_pending g)"
  shows "fst (gate_approve uuid t1 (snd (request_approval uuid t0 tool args g)))
    \<and> map_option (\<lambda>r. (req_tool r, decision r, resolved_at_ms r))
        (fst (get_request uuid t2 (snd (gate_approve uuid t1 (snd (request_approval uuid t0 tool args g))))))
      = Some (tool, Approved, Some t1)"
proof -
  let ?req = "fst (request_approval uuid t0 tool args g)"
  let ?f = "resolve_request Approved None t1"
  have upd: "update_first (\<lambda>r. req_id r = uuid) ?f (gate_pending g @ [?req]) = Some (gate_pending g @ [?f ?req])"
    using assms by (intro update_first_fresh) (simp_all add: request_approval_def Let_def)
  have fnd: "find (\<lambda>r. req_id r = uuid) (filter Q (gate_pending g) @ [?f ?req]) = Some (?f ?req)" for Q
    using assms by (intro find_fresh) (simp_all add: request_approval_def resolve_request_def Let_def)
  show ?thesis
    using upd fnd
    by (simp add: gate_approve_def gate_resolve_def get_request_def evict_expired_pending_def
        request_approval_def resolve_request_def Let_def)
qed

theorem approve_roundtrip_witness:
  "fst (gate_approve ''r1'' 7 (snd (request_approval ''r1'' 3 ''bash'' ''ls'' (gate_new default_approval_policy))))"
  using approve_roundtrip [of "''r1''" "gate_new default_approval_policy" 7 3 "''bash''" "''ls''"]
  by (simp add: gate_new_def)

end
