(* ===== verification/Agent.thy ===== *)
theory Agent
  imports Context_Guard Loop_Detect History Transcript_Repair Approval Tool_Mutation
begin

text \<open>
  \<^verbatim>\<open>agent-core/src/agent.rs\<close>: the agent, its conversation state and its two drivers, \<^verbatim>\<open>run\<close> (one
  answer) and \<^verbatim>\<open>run_with_tools\<close> (the tool loop).  The components of the other theories are composed here
  as the code composes them: transcript repair on start, compaction and the context guard before
  each request, pruning and history limiting on the request, error classification in the retry
  loop, and loop detection, approval and truncation around each tool call.

  The outside world is the record \<open>agent_env\<close>: the language model, the tool executor, the memory recaller,
  the source of fresh ids and times, the BPE tables, the hasher and the \<^verbatim>\<open>Debug\<close> printer, on an arbitrary world state.
  The transcript file is the list of its entries; a failed write only logs a warning and is not
  modelled, nor are the delays between retries.  \<open>executed\<close> is not in the code: it records the tool calls
  handed to the executor.  \<^const>\<open>None\<close> as the result of a driver would be a panic.
\<close>

section \<open>Configuration and state\<close>

record agent_config =
  ac_name :: string
  ac_model :: string
  ac_provider :: string
  ac_system_prompt :: "string option"
  ac_max_tokens :: "int option"
  ac_temperature :: "rat option"
  ac_tools :: "string list option"
  ac_max_retries :: "int option"
  ac_timeout_ms :: "int option"
  ac_max_iterations :: "nat option"

definition agent_config_new :: "string \<Rightarrow> string \<Rightarrow> string \<Rightarrow> agent_config" where
  "agent_config_new name model provider =
     \<lparr>ac_name = name, ac_model = model, ac_provider = provider, ac_system_prompt = None,
      ac_max_tokens = None, ac_temperature = None, ac_tools = None, ac_max_retries = Some 3,
      ac_timeout_ms = Some 60000, ac_max_iterations = Some 32\<rparr>"

definition with_system_prompt :: "string \<Rightarrow> agent_config \<Rightarrow> agent_config" where
  "with_system_prompt p c = c\<lparr>ac_system_prompt := Some p\<rparr>"

definition with_temperature :: "rat \<Rightarrow> agent_config \<Rightarrow> agent_config" where
  "with_temperature t c = c\<lparr>ac_temperature := Some t\<rparr>"

datatype agent_state = Idle | Initializing | Running | WaitingForResponse | ErrorState | Stopped

datatype transcript_entry = TMessage chat_message | TCompaction string

record agent =
  ag_config :: agent_config
  ag_state :: agent_state
  history :: "chat_message list"
  ag_context :: "(string, string) hash_map"
  ag_gate :: "approval_gate option"
  ag_transcript :: "transcript_entry list option"
  history_limit :: "nat option"
  ag_compaction :: "compaction_config option"
  ag_pruning :: "pruning_config option"
  ag_recall :: "auto_recall_config option"
  ag_guard :: "context_guard_config option"
  ag_usage :: usage_summary
  executed :: "(string \<times> string) list"

definition agent_new :: "agent_config \<Rightarrow> agent" where
  "agent_new c =
     \<lparr>ag_config = c, ag_state = Idle, history = [], ag_context = [], ag_gate = None,
      ag_transcript = None, history_limit = None, ag_compaction = None, ag_pruning = None,
      ag_recall = None, ag_guard = None, ag_usage = default_usage, executed = []\<rparr>"

definition set_context :: "string \<Rightarrow> string \<Rightarrow> agent \<Rightarrow> agent" where
  "set_context k v ag = ag\<lparr>ag_context := hm_insert k v (ag_context ag)\<rparr>"

definition get_context :: "string \<Rightarrow> agent \<Rightarrow> string option" where
  "get_context k ag = hm_get (ag_context ag) k"

definition with_approval_gate :: "approval_gate \<Rightarrow> agent \<Rightarrow> agent" where
  "with_approval_gate g ag = ag\<lparr>ag_gate := Some g\<rparr>"

definition clear_history :: "agent \<Rightarrow> agent" where
  "clear_history ag = ag\<lparr>history := []\<rparr>"

definition clone_with_history :: "agent \<Rightarrow> agent" where
  "clone_with_history ag =
     ag\<lparr>ag_transcript := None, ag_compaction := None, ag_pruning := None, ag_recall := None,
        ag_guard := None, ag_usage := default_usage\<rparr>"

record ('w, 'tool) agent_env =
  env_chat :: "('w, 'tool) llm"
  env_execute :: "string \<Rightarrow> string \<Rightarrow> 'w \<Rightarrow> (string, string) result \<times> 'w"
  env_tools :: "'tool list"
  env_recall :: "(string \<Rightarrow> auto_recall_config \<Rightarrow> 'w \<Rightarrow> recall_result list \<times> 'w) option"
  env_fresh :: "'w \<Rightarrow> (string \<times> nat) \<times> 'w"
  env_bpe :: bpe_table
  env_hash :: "string \<Rightarrow> nat"
  env_debug :: "llm_error option \<Rightarrow> string"


section \<open>Building blocks\<close>

definition push_message :: "chat_message \<Rightarrow> agent \<Rightarrow> agent" where
  "push_message m ag = ag\<lparr>history := history ag @ [m]\<rparr>"

definition transcript_append :: "chat_message \<Rightarrow> agent \<Rightarrow> agent" where
  "transcript_append m ag = ag\<lparr>ag_transcript := map_option (\<lambda>t. t @ [TMessage m]) (ag_transcript ag)\<rparr>"

text \<open>\<^verbatim>\<open>Transcript::load\<close>: lines that are not messages (compaction markers) are discarded.\<close>

definition transcript_load :: "transcript_entry list \<Rightarrow> chat_message list" where
  "transcript_load t = concat (map (\<lambda>e. case e of TMessage m \<Rightarrow> [m] | TCompaction _ \<Rightarrow> []) t)"

definition replace_system_prompt :: "string option \<Rightarrow> chat_message list \<Rightarrow> chat_message list" where
  "replace_system_prompt prompt h =
     (case prompt of
        None \<Rightarrow> h
      | Some p \<Rightarrow>
          (let fresh = plain_message System p in
           case h of [] \<Rightarrow> [fresh] | m # ms \<Rightarrow> if role m = System then fresh # ms else fresh # h))"

definition initialize :: "agent \<Rightarrow> agent" where
  "initialize ag =
     (let loaded = (case ag_transcript ag of None \<Rightarrow> [] | Some t \<Rightarrow> transcript_load t);
          ag1 = ag\<lparr>ag_state := Initializing\<rparr>
      in if loaded \<noteq> [] then
           ag1\<lparr>history := replace_system_prompt (ac_system_prompt (ag_config ag))
                  (fst (repair_tool_use_result_pairing loaded)), ag_state := Idle\<rparr>
         else
           (case ac_system_prompt (ag_config ag) of None \<Rightarrow> ag1 | Some p \<Rightarrow> push_message (plain_message System p) ag1)
             \<lparr>ag_state := Idle\<rparr>)"

definition prepare_messages :: "agent \<Rightarrow> chat_message list option" where
  "prepare_messages ag =
     (case (case ag_pruning ag of None \<Rightarrow> Some (history ag) | Some cfg \<Rightarrow> prune_tool_results (history ag) cfg) of
        None \<Rightarrow> None
      | Some msgs \<Rightarrow>
          Some (case history_limit ag of None \<Rightarrow> msgs | Some limit \<Rightarrow> limit_history_turns msgs limit))"

definition record_usage :: "chat_completion \<Rightarrow> agent \<Rightarrow> agent" where
  "record_usage resp ag =
     (case completion_usage resp of
        None \<Rightarrow> ag
      | Some u \<Rightarrow> ag\<lparr>ag_usage := usage_record (prompt_tokens u) (completion_tokens u) (ag_usage ag)\<rparr>)"

definition make_request :: "agent \<Rightarrow> chat_message list \<Rightarrow> 'tool list option \<Rightarrow> 'tool chat_request" where
  "make_request ag msgs tools =
     \<lparr>req_model = ac_model (ag_config ag), req_messages = msgs,
      req_temperature = ac_temperature (ag_config ag), req_max_tokens = ac_max_tokens (ag_config ag),
      req_tools = tools\<rparr>"

definition retries_of :: "agent \<Rightarrow> int" where
  "retries_of ag = (case ac_max_retries (ag_config ag) of Some n \<Rightarrow> n | None \<Rightarrow> 3)"


section \<open>run\<close>

fun run_attempts ::
  "('w, 'tool) agent_env \<Rightarrow> 'tool chat_request \<Rightarrow> nat \<Rightarrow> llm_error option \<Rightarrow> agent \<Rightarrow> 'w
    \<Rightarrow> (agent_error, string) result \<times> agent \<times> 'w" where
  "run_attempts env req 0 last_error ag w =
     (Inl (ModelError (''Failed after '' @ show_int (retries_of ag) @ '' attempts: '' @ env_debug env last_error)),
      ag\<lparr>ag_state := ErrorState\<rparr>, w)"
| "run_attempts env req (Suc left) last_error ag w =
     (case env_chat env req w of
        (Inr resp, w') \<Rightarrow>
          (let ag1 = record_usage resp ag in
           case choices resp of
             [] \<Rightarrow> run_attempts env req left last_error ag1 w'
           | c # _ \<Rightarrow>
               (let asst = plain_message Assistant (content (message c))
                in (Inr (content (message c)),
                    (push_message asst (transcript_append asst ag1))\<lparr>ag_state := Idle\<rparr>, w')))
      | (Inl e, w') \<Rightarrow> run_attempts env req left (Some e) ag w')"

definition run ::
  "('w, 'tool) agent_env \<Rightarrow> string \<Rightarrow> agent \<Rightarrow> 'w \<Rightarrow> ((agent_error, string) result \<times> agent \<times> 'w) option" where
  "run env inp ag w =
     (let user = plain_message User inp;
          ag1 = (push_message user (transcript_append user (ag\<lparr>ag_state := Running\<rparr>)))
                  \<lparr>ag_state := WaitingForResponse\<rparr>
      in case prepare_messages ag1 of
           None \<Rightarrow> None
         | Some msgs \<Rightarrow>
             Some (run_attempts env (make_request ag1 msgs None) (nat (retries_of ag1)) None ag1 w))"


section \<open>chat\_with\_retry\<close>

fun retry_loop ::
  "('w, 'tool) agent_env \<Rightarrow> 'tool chat_request \<Rightarrow> nat \<Rightarrow> string \<Rightarrow> agent \<Rightarrow> 'w
    \<Rightarrow> (agent_error, chat_completion) result \<times> agent \<times> 'w" where
  "retry_loop env req 0 last_err ag w =
     (Inl (ModelError (''Failed after '' @ show_int (retries_of ag) @ '' retries: '' @ last_err)), ag, w)"
| "retry_loop env req (Suc left) last_err ag w =
     (case env_chat env req w of
        (Inr resp, w') \<Rightarrow> (Inr resp, record_usage resp ag, w')
      | (Inl e, w') \<Rightarrow>
          (let err = show_llm_error e; cls = classify_error err in
           if cls = ContextOverflowClass then (Inl (ContextOverflow err), ag, w')
           else if cls = AuthFailure then (Inl (AgentAuthError err), ag, w')
           else if cls = RateLimit then retry_loop env req left err ag w'
           else if \<not> should_retry cls then (Inl (ModelError err), ag, w')
           else retry_loop env req left err ag w'))"

definition chat_with_retry ::
  "('w, 'tool) agent_env \<Rightarrow> 'tool chat_request \<Rightarrow> agent \<Rightarrow> 'w
    \<Rightarrow> (agent_error, chat_completion) result \<times> agent \<times> 'w" where
  "chat_with_retry env req ag w = retry_loop env req (nat (retries_of ag)) [] ag w"


section \<open>Recovering from a context overflow\<close>

definition limit_notice :: "nat \<Rightarrow> string" where
  "limit_notice n = ''...'' @ [newline] @ ''[truncated for context limit, '' @ show_nat n @ '' chars total]''"

definition truncate_history_tool_results :: "agent \<Rightarrow> agent option" where
  "truncate_history_tool_results ag =
     (case largest_tool (history ag) of
        None \<Rightarrow> Some ag
      | Some idx \<Rightarrow>
          (let m = history ag ! idx; c = content m in
           map_option (\<lambda>h. ag\<lparr>history := (history ag)[idx := m\<lparr>content := h @ limit_notice (length c)\<rparr>]\<rparr>)
             (line_prefix c (length c div 2))))"

definition try_compact :: "('w, 'tool) agent_env \<Rightarrow> agent \<Rightarrow> 'w \<Rightarrow> (agent \<times> 'w) option" where
  "try_compact env ag w =
     (case ag_compaction ag of
        None \<Rightarrow> Some (ag, w)
      | Some cfg \<Rightarrow>
          if \<not> needs_compaction (env_bpe env) (history ag) (ac_model (ag_config ag)) cfg then Some (ag, w)
          else
            (case compact_history (env_chat env) (env_bpe env) (ac_model (ag_config ag)) (history ag) cfg w of
               None \<Rightarrow> None
             | Some (Inl e, w') \<Rightarrow> Some (ag, w')
             | Some (Inr r, w') \<Rightarrow>
                 Some (ag\<lparr>history := summary r # kept_messages r,
                          ag_transcript := map_option (\<lambda>t. t @ [TCompaction (content (summary r))]) (ag_transcript ag)\<rparr>,
                       w')))"

definition apply_guard :: "('w, 'tool) agent_env \<Rightarrow> agent \<Rightarrow> agent option" where
  "apply_guard env ag =
     (case ag_guard ag of
        None \<Rightarrow> Some ag
      | Some cfg \<Rightarrow>
          (case check_budget (env_bpe env) cfg (history ag) (ac_model (ag_config ag)) of
             TruncateNeeded used budget \<Rightarrow>
               map_option (\<lambda>h. ag\<lparr>history := h\<rparr>)
                 (guard_truncate (env_bpe env) cfg (history ag) (ac_model (ag_config ag)))
           | GuardWarning used budget \<Rightarrow> Some ag
           | GuardOk \<Rightarrow> Some ag))"


section \<open>One tool call\<close>

definition MAX_TOOL_CHARS :: nat where "MAX_TOOL_CHARS = 400000"
definition MAX_OVERFLOW_COMPACTION_ATTEMPTS :: nat where "MAX_OVERFLOW_COMPACTION_ATTEMPTS = 3"

definition tool_message :: "tool_call \<Rightarrow> string \<Rightarrow> chat_message" where
  "tool_message tc c =
     \<lparr>role = Tool, content = c, msg_name = Some (fn_name (tc_function tc)), tool_calls = None,
      tool_call_id = Some (tc_id tc)\<rparr>"

definition warning_message :: "string \<Rightarrow> chat_message" where
  "warning_message msg = (plain_message User msg)\<lparr>msg_name := Some ''system''\<rparr>"

text \<open>The approval gate: whether to go on to the executor, and the agent afterwards.\<close>

definition gate_call :: "('w, 'tool) agent_env \<Rightarrow> tool_call \<Rightarrow> agent \<Rightarrow> 'w \<Rightarrow> bool \<times> agent \<times> 'w" where
  "gate_call env tc ag w =
     (let name = fn_name (tc_function tc); args = fn_arguments (tc_function tc) in
      case ag_gate ag of
        None \<Rightarrow> (True, ag, w)
      | Some gate \<Rightarrow>
          (case gate_check gate name of
             Approved \<Rightarrow> (True, ag, w)
           | ApprovalDenied \<Rightarrow>
               (False, push_message (tool_message tc (''Tool '' @ quoted name @ '' denied by approval policy'')) ag, w)
           | Pending \<Rightarrow>
               (case env_fresh env w of
                  ((uuid, now), w') \<Rightarrow>
                    (case request_approval uuid now name args gate of
                       (req, gate') \<Rightarrow>
                         (False,
                          push_message (tool_message tc (''Tool '' @ quoted name @ '' requires approval (request_id=''
                            @ req_id req @ '')'')) (ag\<lparr>ag_gate := Some gate'\<rparr>),
                          w')))))"

definition execute_call ::
  "('w, 'tool) agent_env \<Rightarrow> tool_call \<Rightarrow> agent \<Rightarrow> loop_detector \<Rightarrow> 'w \<Rightarrow> (agent \<times> loop_detector \<times> 'w) option" where
  "execute_call env tc ag ld w =
     (let name = fn_name (tc_function tc); args = fn_arguments (tc_function tc) in
      case env_execute env name args w of
        (res, w') \<Rightarrow>
          (case (case res of
                   Inr output \<Rightarrow> agent_truncate_tool_result output MAX_TOOL_CHARS
                 | Inl err \<Rightarrow> Some (''Error: '' @ err)) of
             None \<Rightarrow> None
           | Some c \<Rightarrow>
               (let m = tool_message tc c; ag1 = ag\<lparr>executed := executed ag @ [(name, args)]\<rparr>
                in Some (push_message m (transcript_append m ag1), ld_record_outcome (env_hash env) c ld, w'))))"

text \<open>The body of the loop over the tool calls of one response; \<^const>\<open>Inl\<close> is the early return on a
  critical loop.\<close>

definition loop_warning :: "loop_detection_result \<Rightarrow> agent \<Rightarrow> agent" where
  "loop_warning d ag =
     (if level d = Warning
      then (case detection_message d of None \<Rightarrow> ag | Some msg \<Rightarrow> push_message (warning_message msg) ag)
      else ag)"

definition process_call ::
  "('w, 'tool) agent_env \<Rightarrow> tool_call \<Rightarrow> agent \<Rightarrow> loop_detector \<Rightarrow> 'w
    \<Rightarrow> ((agent_error \<times> agent \<times> 'w) + (agent \<times> loop_detector \<times> 'w)) option" where
  "process_call env tc ag ld w =
     (let name = fn_name (tc_function tc); args = fn_arguments (tc_function tc);
          d = detect (env_hash env) name args ld;
          ld1 = ld_record (env_hash env) name args ld
      in if level d = Critical then
           Some (Inl (ExecutionError (case detection_message d of Some m \<Rightarrow> m | None \<Rightarrow> ''Tool loop detected''),
                      ag\<lparr>ag_state := ErrorState\<rparr>, w))
         else
           (case gate_call env tc (loop_warning d ag) w of
              (False, ag1, w') \<Rightarrow> Some (Inr (ag1, ld1, w'))
            | (True, ag1, w') \<Rightarrow> map_option Inr (execute_call env tc ag1 ld1 w')))"

fun process_calls ::
  "('w, 'tool) agent_env \<Rightarrow> tool_call list \<Rightarrow> agent \<Rightarrow> loop_detector \<Rightarrow> 'w
    \<Rightarrow> ((agent_error \<times> agent \<times> 'w) + (agent \<times> loop_detector \<times> 'w)) option" where
  "process_calls env [] ag ld w = Some (Inr (ag, ld, w))"
| "process_calls env (tc # tcs) ag ld w =
     (case process_call env tc ag ld w of
        None \<Rightarrow> None
      | Some (Inl r) \<Rightarrow> Some (Inl r)
      | Some (Inr (ag', ld', w')) \<Rightarrow> process_calls env tcs ag' ld' w')"


section \<open>run\_with\_tools\<close>

text \<open>One pass of the \<^verbatim>\<open>while\<close> loop: it returns from the function or goes on.\<close>

datatype 'w iter_outcome =
    Return "(agent_error, string) result" agent 'w
  | GoOn agent loop_detector nat 'w

text \<open>What happens after a response has arrived.\<close>

definition handle_response ::
  "('w, 'tool) agent_env \<Rightarrow> chat_completion \<Rightarrow> agent \<Rightarrow> loop_detector \<Rightarrow> nat \<Rightarrow> 'w \<Rightarrow> 'w iter_outcome option" where
  "handle_response env resp ag ld overflow w =
     (case choices resp of
        [] \<Rightarrow> Some (Return (Inl (ModelError ''No choices in response'')) ag w)
      | choice # _ \<Rightarrow>
          (let asst = (plain_message Assistant (content (message choice)))
                        \<lparr>tool_calls := tool_calls (message choice)\<rparr>;
               ag1 = push_message asst (transcript_append asst ag)
           in case tool_calls (message choice) of
                Some (tc # tcs) \<Rightarrow>
                  (case process_calls env (tc # tcs) ag1 ld w of
                     None \<Rightarrow> None
                   | Some (Inl (e, ag2, w')) \<Rightarrow> Some (Return (Inl e) ag2 w')
                   | Some (Inr (ag2, ld2, w')) \<Rightarrow> Some (GoOn ag2 ld2 overflow w'))
              | _ \<Rightarrow> Some (Return (Inr (content (message choice))) (ag1\<lparr>ag_state := Idle\<rparr>) w)))"

definition iteration ::
  "('w, 'tool) agent_env \<Rightarrow> agent \<Rightarrow> loop_detector \<Rightarrow> nat \<Rightarrow> 'w \<Rightarrow> 'w iter_outcome option" where
  "iteration env ag ld overflow w =
     (case try_compact env (ag\<lparr>ag_state := WaitingForResponse\<rparr>) w of
        None \<Rightarrow> None
      | Some (ag1, w1) \<Rightarrow>
     (case apply_guard env ag1 of
        None \<Rightarrow> None
      | Some ag2 \<Rightarrow>
     (case prepare_messages ag2 of
        None \<Rightarrow> None
      | Some msgs \<Rightarrow>
     (case chat_with_retry env (make_request ag2 msgs (Some (env_tools env))) ag2 w1 of
        (Inr resp, ag3, w2) \<Rightarrow> handle_response env resp ag3 ld overflow w2
      | (Inl e, ag3, w2) \<Rightarrow>
          (case e of
             ContextOverflow _ \<Rightarrow>
               if overflow < MAX_OVERFLOW_COMPACTION_ATTEMPTS
               then map_option (\<lambda>ag4. GoOn ag4 ld (overflow + 1) w2) (truncate_history_tool_results ag3)
               else Some (Return (Inl e) (ag3\<lparr>ag_state := ErrorState\<rparr>) w2)
           | _ \<Rightarrow> Some (Return (Inl e) (ag3\<lparr>ag_state := ErrorState\<rparr>) w2))))))"

definition iterations_of :: "agent \<Rightarrow> nat" where
  "iterations_of ag = (case ac_max_iterations (ag_config ag) of Some n \<Rightarrow> n | None \<Rightarrow> 32)"

fun tool_loop ::
  "('w, 'tool) agent_env \<Rightarrow> nat \<Rightarrow> nat \<Rightarrow> agent \<Rightarrow> loop_detector \<Rightarrow> nat \<Rightarrow> 'w
    \<Rightarrow> ((agent_error, string) result \<times> agent \<times> 'w) option" where
  "tool_loop env mx 0 ag ld overflow w =
     Some (Inl (ExecutionError (''Max tool iterations ('' @ show_nat mx @ '') reached without final response'')),
           ag\<lparr>ag_state := ErrorState\<rparr>, w)"
| "tool_loop env mx (Suc left) ag ld overflow w =
     (case iteration env ag ld overflow w of
        None \<Rightarrow> None
      | Some (Return r ag' w') \<Rightarrow> Some (r, ag', w')
      | Some (GoOn ag' ld' overflow' w') \<Rightarrow> tool_loop env mx left ag' ld' overflow' w')"

definition recall_context :: "('w, 'tool) agent_env \<Rightarrow> string \<Rightarrow> agent \<Rightarrow> 'w \<Rightarrow> agent \<times> 'w" where
  "recall_context env inp ag w =
     (case (ag_recall ag, env_recall env) of
        (Some cfg, Some recaller) \<Rightarrow>
          if recall_enabled cfg then
            (case recaller inp cfg w of
               (results, w') \<Rightarrow>
                 (case format_recall_context results of
                    None \<Rightarrow> (ag, w')
                  | Some m \<Rightarrow> (push_message m ag, w')))
          else (ag, w)
      | _ \<Rightarrow> (ag, w))"

definition run_with_tools ::
  "('w, 'tool) agent_env \<Rightarrow> string \<Rightarrow> agent \<Rightarrow> 'w \<Rightarrow> ((agent_error, string) result \<times> agent \<times> 'w) option" where
  "run_with_tools env inp ag w =
     (let user = plain_message User inp;
          ag1 = push_message user (transcript_append user (ag\<lparr>ag_state := Running\<rparr>))
      in case recall_context env inp ag1 w of
           (ag2, w') \<Rightarrow> tool_loop env (iterations_of ag2) (iterations_of ag2) ag2 default_loop_detector 0 w')"


section \<open>Relations kept by the whole loop\<close>

text \<open>
  Many facts about a run relate the agent before and after it.  The contract: a preorder on agents
  that every primitive write of the drivers respects, where a tool call is only recorded as executed
  when the gate allows it.  Then both drivers respect it.
\<close>

definition allowed_by :: "approval_gate option \<Rightarrow> string \<Rightarrow> bool" where
  "allowed_by g name = (case g of None \<Rightarrow> True | Some gate \<Rightarrow> gate_check gate name = Approved)"

fun outcome_agent :: "'w iter_outcome \<Rightarrow> agent" where
  "outcome_agent (Return r ag w) = ag"
| "outcome_agent (GoOn ag ld k w) = ag"

locale agent_relation =
  fixes R :: "agent \<Rightarrow> agent \<Rightarrow> bool"
  assumes R_refl: "R a a"
    and R_trans: "R a b \<Longrightarrow> R b c \<Longrightarrow> R a c"
    and R_state: "R a (a\<lparr>ag_state := st\<rparr>)"
    and R_history: "R a (a\<lparr>history := h\<rparr>)"
    and R_append: "R a (transcript_append m a)"
    and R_marker: "R a (a\<lparr>ag_transcript := map_option (\<lambda>t. t @ [TCompaction s]) (ag_transcript a)\<rparr>)"
    and R_usage: "R a (a\<lparr>ag_usage := usage_record pt ct (ag_usage a)\<rparr>)"
    and R_ask: "ag_gate a = Some g \<Longrightarrow> R a (a\<lparr>ag_gate := Some (snd (request_approval u n t x g))\<rparr>)"
    and R_execute: "allowed_by (ag_gate a) name \<Longrightarrow> R a (a\<lparr>executed := executed a @ [(name, args)]\<rparr>)"
begin

lemma R_push: "R a b \<Longrightarrow> R a (push_message m b)"
  using R_trans R_history unfolding push_message_def by blast

lemma R_then_state: "R a b \<Longrightarrow> R a (b\<lparr>ag_state := st\<rparr>)"
  using R_trans R_state by blast

lemma R_then_append: "R a b \<Longrightarrow> R a (transcript_append m b)"
  using R_trans R_append by blast

lemma R_record_usage: "R a b \<Longrightarrow> R a (record_usage resp b)"
  using R_trans R_usage by (auto simp: record_usage_def split: option.splits)

lemma R_loop_warning: "R a (loop_warning d a)"
  using R_refl R_push by (auto simp: loop_warning_def split: option.splits)

lemma R_gate_call:
  assumes "gate_call env tc ag w = (go, ag', w')"
  shows "R ag ag' \<and> (go \<longrightarrow> allowed_by (ag_gate ag') (fn_name (tc_function tc)))"
proof (cases "ag_gate ag")
  case None
  then show ?thesis
    using assms R_refl by (simp add: gate_call_def allowed_by_def)
next
  case (Some g)
  note R_pushed = R_push [OF R_refl] R_push [OF R_ask [OF Some]]
  show ?thesis
    using assms Some R_refl R_pushed
    by (cases "gate_check g (fn_name (tc_function tc))")
      (auto simp: gate_call_def allowed_by_def Let_def request_approval_def split: prod.splits)
qed

lemma R_execute_call:
  assumes "execute_call env tc ag ld w = Some (ag', ld', w')" and "allowed_by (ag_gate ag) (fn_name (tc_function tc))"
  shows "R ag ag'"
proof -
  obtain c where "ag' = push_message (tool_message tc c) (transcript_append (tool_message tc c)
      (ag\<lparr>executed := executed ag @ [(fn_name (tc_function tc), fn_arguments (tc_function tc))]\<rparr>))"
    using assms(1) by (auto simp: execute_call_def Let_def split: prod.splits option.splits)
  then show ?thesis
    using R_push R_then_append R_execute [OF assms(2)] by metis
qed

lemma R_process_call:
  "process_call env tc ag ld w = Some (Inl (e, ag', w')) \<Longrightarrow> R ag ag'"
  "process_call env tc ag ld w = Some (Inr (ag', ld', w')) \<Longrightarrow> R ag ag'"
proof -
  let ?d = "detect (env_hash env) (fn_name (tc_function tc)) (fn_arguments (tc_function tc)) ld"
  obtain go ag1 w1 where g: "gate_call env tc (loop_warning ?d ag) w = (go, ag1, w1)"
    by (cases "gate_call env tc (loop_warning ?d ag) w") auto
  have R1: "R ag ag1"
    using R_gate_call [OF g] R_loop_warning R_trans by blast
  show "process_call env tc ag ld w = Some (Inl (e, ag', w')) \<Longrightarrow> R ag ag'"
    using g R_state by (auto simp: process_call_def Let_def split: if_splits bool.splits)
  show "process_call env tc ag ld w = Some (Inr (ag', ld', w')) \<Longrightarrow> R ag ag'"
    using g R1 R_gate_call [OF g]
    by (auto simp: process_call_def Let_def split: if_splits bool.splits intro: R_trans R_execute_call)
qed

lemma R_process_calls:
  "process_calls env tcs ag ld w = Some (Inl (e, ag', w')) \<Longrightarrow> R ag ag'"
  "process_calls env tcs ag ld w = Some (Inr (ag', ld', w')) \<Longrightarrow> R ag ag'"
proof (induction tcs arbitrary: ag ld w)
  case Nil
  { case 1 then show ?case by simp next case 2 then show ?case using R_refl by simp }
next
  case (Cons tc tcs)
  note step = R_process_call(2) [where env = env and tc = tc]
  {
    case 1
    then consider (stop) "process_call env tc ag ld w = Some (Inl (e, ag', w'))"
      | (go) a l v where "process_call env tc ag ld w = Some (Inr (a, l, v))" "process_calls env tcs a l v = Some (Inl (e, ag', w'))"
      by (auto split: option.splits sum.splits)
    then show ?case
    proof cases
      case stop
      then show ?thesis by (rule R_process_call(1))
    next
      case go
      show ?thesis by (rule R_trans [OF step [OF go(1)] Cons.IH(1) [OF go(2)]])
    qed
  next
    case 2
    then obtain a l v where "process_call env tc ag ld w = Some (Inr (a, l, v))"
        "process_calls env tcs a l v = Some (Inr (ag', ld', w'))"
      by (auto split: option.splits sum.splits)
    then show ?case
      by (rule R_trans [OF step Cons.IH(2)])
  }
qed

lemma R_retry_loop: "retry_loop env req n err ag w = (r, ag', w') \<Longrightarrow> R ag ag'"
proof (induction n arbitrary: err w)
  case 0
  then show ?case using R_refl by simp
next
  case (Suc n)
  then show ?case
    using R_refl R_record_usage by (auto simp: Let_def split: prod.splits sum.splits if_splits)
qed

lemma R_try_compact:
  assumes "try_compact env ag w = Some (ag', w')"
  shows "R ag ag'"
proof -
  have "R ag (ag\<lparr>history := h, ag_transcript := map_option (\<lambda>t. t @ [TCompaction s]) (ag_transcript ag)\<rparr>)" for h s
    using R_trans [OF R_history [of ag h] R_marker [of "ag\<lparr>history := h\<rparr>" s]] by simp
  then show ?thesis
    using assms R_refl
    by (auto simp: try_compact_def split: option.splits if_splits prod.splits sum.splits)
qed

lemma R_apply_guard: "apply_guard env ag = Some ag' \<Longrightarrow> R ag ag'"
  using R_refl R_history by (auto simp: apply_guard_def split: option.splits guard_action.splits)

lemma R_truncate_history: "truncate_history_tool_results ag = Some ag' \<Longrightarrow> R ag ag'"
  using R_refl R_history by (auto simp: truncate_history_tool_results_def Let_def split: option.splits)

lemma R_handle_response:
  assumes "handle_response env resp ag ld k w = Some out"
  shows "R ag (outcome_agent out)"
proof (cases "choices resp")
  case Nil
  then show ?thesis using assms R_refl by (auto simp: handle_response_def)
next
  case (Cons ch rest)
  let ?asst = "(plain_message Assistant (content (message ch)))\<lparr>tool_calls := tool_calls (message ch)\<rparr>"
  let ?ag = "push_message ?asst (transcript_append ?asst ag)"
  have R1: "R ag ?ag" using R_push R_then_append R_refl by blast
  note calls = R_trans [OF R1 R_process_calls(1)] R_trans [OF R1 R_process_calls(2)]
  show ?thesis
    using assms Cons R_then_state [OF R1]
    by (auto simp: handle_response_def Let_def simp del: process_calls.simps
        split: option.splits list.splits sum.splits prod.splits intro: calls)
qed

lemma R_iteration:
  assumes "iteration env ag ld k w = Some out"
  shows "R ag (outcome_agent out)"
proof -
  obtain ag1 w1 where c: "try_compact env (ag\<lparr>ag_state := WaitingForResponse\<rparr>) w = Some (ag1, w1)"
    using assms by (auto simp: iteration_def split: option.splits)
  obtain ag2 where g: "apply_guard env ag1 = Some ag2"
    using assms c by (auto simp: iteration_def split: option.splits)
  obtain msgs where m: "prepare_messages ag2 = Some msgs"
    using assms c g by (auto simp: iteration_def split: option.splits)
  obtain r ag3 w2 where q: "chat_with_retry env (make_request ag2 msgs (Some (env_tools env))) ag2 w1 = (r, ag3, w2)"
    by (metis prod_cases3)
  have R3: "R ag ag3"
    using R_state R_try_compact [OF c] R_apply_guard [OF g] R_retry_loop [OF q [unfolded chat_with_retry_def]] R_trans
    by metis
  show ?thesis
  proof (cases r)
    case (Inr resp)
    then have "handle_response env resp ag3 ld k w2 = Some out"
      using assms c g m q by (simp add: iteration_def)
    from R_trans [OF R3 R_handle_response [OF this]] show ?thesis .
  next
    case (Inl e)
    have trunc: "R ag ag4" if "truncate_history_tool_results ag3 = Some ag4" for ag4
      using R_trans [OF R3 R_truncate_history [OF that]] .
    show ?thesis
      using assms c g m q Inl R_then_state [OF R3]
      by (auto simp: iteration_def split: agent_error.splits if_splits intro: trunc)
  qed
qed

lemma R_tool_loop: "tool_loop env mx n ag ld k w = Some (r, ag', w') \<Longrightarrow> R ag ag'"
proof (induction n arbitrary: ag ld k w)
  case 0
  then show ?case using R_state by auto
next
  case (Suc n)
  obtain out where out: "iteration env ag ld k w = Some out"
    using Suc.prems by (auto split: option.splits)
  show ?case
  proof (cases out)
    case (Return r1 ag1 w1)
    then show ?thesis using Suc.prems out R_iteration [OF out] by simp
  next
    case (GoOn ag1 ld1 k1 w1)
    then have "tool_loop env mx n ag1 ld1 k1 w1 = Some (r, ag', w')"
      using Suc.prems out by simp
    then show ?thesis using Suc.IH R_iteration [OF out] GoOn R_trans by (metis outcome_agent.simps(2))
  qed
qed

lemma R_recall: "recall_context env inp ag w = (ag', w') \<Longrightarrow> R ag ag'"
  using R_refl R_push by (auto simp: recall_context_def split: option.splits if_splits prod.splits)

lemma R_run_with_tools:
  assumes "run_with_tools env inp ag w = Some (r, ag', w')"
  shows "R ag ag'"
proof -
  let ?u = "plain_message User inp"
  let ?ag = "push_message ?u (transcript_append ?u (ag\<lparr>ag_state := Running\<rparr>))"
  obtain ag2 w2 where rc: "recall_context env inp ?ag w = (ag2, w2)"
    by (metis prod.collapse)
  then have "tool_loop env (iterations_of ag2) (iterations_of ag2) ag2 default_loop_detector 0 w2 = Some (r, ag', w')"
    using assms by (simp add: run_with_tools_def)
  from R_tool_loop [OF this] show ?thesis
    using R_recall [OF rc] R_push R_then_append R_state R_trans by metis
qed

lemma R_run_attempts: "run_attempts env req n err ag w = (r, ag', w') \<Longrightarrow> R ag ag'"
proof (induction n arbitrary: err ag w)
  case 0
  then show ?case using R_state by auto
next
  case (Suc n)
  have rec: "R ag ag'" if "run_attempts env req n err' (record_usage resp ag) v = (r, ag', w')" for err' resp v
    using R_trans [OF R_record_usage [OF R_refl] Suc.IH [OF that]] .
  have fin: "R ag ((push_message m (transcript_append m (record_usage resp ag)))\<lparr>ag_state := st\<rparr>)" for m resp st
    by (intro R_then_state R_push R_then_append R_record_usage R_refl)
  show ?case
    using Suc.prems Suc.IH fin
    by (auto simp: Let_def split: prod.splits sum.splits list.splits intro: rec)
qed

lemma R_run:
  assumes "run env inp ag w = Some (r, ag', w')"
  shows "R ag ag'"
proof -
  let ?u = "plain_message User inp"
  let ?ag = "(push_message ?u (transcript_append ?u (ag\<lparr>ag_state := Running\<rparr>)))\<lparr>ag_state := WaitingForResponse\<rparr>"
  have "R ag ?ag"
    using R_then_state R_push R_then_append R_state by metis
  then show ?thesis
    using assms by (auto simp: run_def Let_def split: option.splits intro: R_trans [OF _ R_run_attempts])
qed

end


section \<open>Three relations\<close>

lemma request_keeps_check: "gate_check (snd (request_approval u n t x g)) name = gate_check g name"
  by (simp add: request_approval_def gate_check_def Let_def)

text \<open>Only allowed tools are executed, and what is allowed does not change.\<close>

definition gate_respected :: "agent \<Rightarrow> agent \<Rightarrow> bool" where
  "gate_respected a b =
     ((\<forall>name. allowed_by (ag_gate b) name = allowed_by (ag_gate a) name)
      \<and> (\<exists>es. executed b = executed a @ es \<and> (\<forall>e \<in> set es. allowed_by (ag_gate a) (fst e))))"

interpretation gate_rel: agent_relation gate_respected
proof unfold_locales
  show "gate_respected a c" if "gate_respected a b" "gate_respected b c" for a b c
    using that by (force simp: gate_respected_def)
qed (auto simp: gate_respected_def transcript_append_def allowed_by_def request_keeps_check split: option.splits)

text \<open>The transcript is append-only.\<close>

definition transcript_grows :: "agent \<Rightarrow> agent \<Rightarrow> bool" where
  "transcript_grows a b =
     (case ag_transcript a of
        None \<Rightarrow> ag_transcript b = None
      | Some t \<Rightarrow> (\<exists>u. ag_transcript b = Some (t @ u)))"

interpretation transcript_rel: agent_relation transcript_grows
  by unfold_locales (auto simp: transcript_grows_def transcript_append_def split: option.splits)

text \<open>The configuration is read only.\<close>

definition config_kept :: "agent \<Rightarrow> agent \<Rightarrow> bool" where
  "config_kept a b = (ag_config b = ag_config a \<and> ag_compaction b = ag_compaction a)"

interpretation config_rel: agent_relation config_kept
  by unfold_locales (auto simp: config_kept_def transcript_append_def)


section \<open>The drivers do not panic\<close>

lemma prune_total: "\<exists>ms'. prune_tool_results ms cfg = Some ms'"
proof -
  have "\<exists>y. prune_message (protected_tc_ids ms cfg) cfg x = Some y" for x
    using prune_message_content by blast
  then show ?thesis
    using those_map_Some [of ms "prune_message (protected_tc_ids ms cfg) cfg"]
    by (auto simp: prune_tool_results_def)
qed

lemma prepare_total: "\<exists>msgs. prepare_messages ag = Some msgs"
  using prune_total by (fastforce simp: prepare_messages_def split: option.splits)

lemma execute_call_total: "\<exists>ag' ld' w'. execute_call env tc ag ld w = Some (ag', ld', w')
    \<and> history ag' \<noteq> []"
proof -
  obtain res w1 where x: "env_execute env (fn_name (tc_function tc)) (fn_arguments (tc_function tc)) w = (res, w1)"
    by (metis prod.collapse)
  obtain t where "\<And>v. res = Inr v \<Longrightarrow> agent_truncate_tool_result v MAX_TOOL_CHARS = Some t"
    using agent_truncate_total by (cases res) auto
  then show ?thesis
    using x by (cases res) (simp_all add: execute_call_def push_message_def Let_def)
qed

lemma gate_call_history: "gate_call env tc ag w = (go, ag', w') \<Longrightarrow> history ag \<noteq> [] \<Longrightarrow> history ag' \<noteq> []"
  by (auto simp: gate_call_def push_message_def Let_def split: option.splits approval_decision.splits prod.splits)

lemma loop_warning_history: "history ag \<noteq> [] \<Longrightarrow> history (loop_warning d ag) \<noteq> []"
  by (simp add: loop_warning_def push_message_def split: option.splits)

lemma process_call_total:
  assumes "history ag \<noteq> []"
  shows "\<exists>r. process_call env tc ag ld w = Some r \<and> (\<forall>ag' ld' w'. r = Inr (ag', ld', w') \<longrightarrow> history ag' \<noteq> [])"
proof -
  let ?d = "detect (env_hash env) (fn_name (tc_function tc)) (fn_arguments (tc_function tc)) ld"
  obtain go ag1 w1 where g: "gate_call env tc (loop_warning ?d ag) w = (go, ag1, w1)"
    by (metis prod_cases3)
  have h1: "history ag1 \<noteq> []"
    using gate_call_history [OF g] loop_warning_history assms by blast
  obtain ag2 ld2 w2 where "execute_call env tc ag1
      (ld_record (env_hash env) (fn_name (tc_function tc)) (fn_arguments (tc_function tc)) ld) w1 = Some (ag2, ld2, w2)"
      "history ag2 \<noteq> []"
    using execute_call_total by metis
  then show ?thesis
    using g h1 by (auto simp: process_call_def Let_def split: bool.splits)
qed

lemma process_calls_total:
  "history ag \<noteq> [] \<Longrightarrow> \<exists>r. process_calls env tcs ag ld w = Some r \<and> (\<forall>ag' ld' w'. r = Inr (ag', ld', w') \<longrightarrow> history ag' \<noteq> [])"
proof (induction tcs arbitrary: ag ld w)
  case (Cons tc tcs)
  obtain r where r: "process_call env tc ag ld w = Some r" "\<forall>ag' ld' w'. r = Inr (ag', ld', w') \<longrightarrow> history ag' \<noteq> []"
    using process_call_total [OF Cons.prems, of env tc ld w] by blast
  show ?case
  proof (cases r)
    case (Inl x)
    then show ?thesis using r by simp
  next
    case (Inr y)
    obtain ag' ld' w' where "y = (ag', ld', w')" by (cases y)
    then show ?thesis using r Inr Cons.IH [of ag' ld' w'] by simp
  qed
qed simp

lemma try_compact_total:
  assumes "history ag \<noteq> []"
  shows "\<exists>ag' w'. try_compact env ag w = Some (ag', w') \<and> history ag' \<noteq> []"
proof (cases "ag_compaction ag")
  case (Some cfg)
  obtain r w' where "compact_history (env_chat env) (env_bpe env) (ac_model (ag_config ag)) (history ag) cfg w = Some (r, w')"
    using compact_history_total [OF assms, of "env_chat env" "env_bpe env" "ac_model (ag_config ag)" cfg w] by blast
  then show ?thesis
    using Some assms by (cases r) (auto simp: try_compact_def)
qed (use assms in \<open>simp add: try_compact_def\<close>)

lemma apply_guard_total: "\<exists>ag'. apply_guard env ag = Some ag' \<and> length (history ag') = length (history ag)"
proof (cases "ag_guard ag")
  case (Some cfg)
  then show ?thesis
    using guard_truncate_total [of "env_bpe env" cfg "history ag" "ac_model (ag_config ag)"]
    by (auto simp: apply_guard_def split: guard_action.splits)
qed (simp add: apply_guard_def)

lemma truncate_history_total:
  "\<exists>ag'. truncate_history_tool_results ag = Some ag' \<and> length (history ag') = length (history ag)"
  by (auto simp: truncate_history_tool_results_def line_prefix_defined Let_def split: option.splits)

lemma retry_loop_history: "retry_loop env req n err ag w = (r, ag', w') \<Longrightarrow> history ag' = history ag"
proof (induction n arbitrary: err w)
  case (Suc n)
  then show ?case
    by (auto simp: Let_def record_usage_def split: prod.splits sum.splits if_splits option.splits)
qed simp

lemma handle_response_total:
  "\<exists>out. handle_response env resp ag ld k w = Some out \<and> (\<forall>ag' ld' k' w'. out = GoOn ag' ld' k' w' \<longrightarrow> history ag' \<noteq> [])"
proof (cases "choices resp")
  case (Cons ch rest)
  let ?asst = "(plain_message Assistant (content (message ch)))\<lparr>tool_calls := tool_calls (message ch)\<rparr>"
  let ?ag = "push_message ?asst (transcript_append ?asst ag)"
  have "history ?ag \<noteq> []" by (simp add: push_message_def)
  then obtain r where "process_calls env (case tool_calls (message ch) of Some tcs \<Rightarrow> tcs | None \<Rightarrow> []) ?ag ld w = Some r"
      "\<forall>ag' ld' w'. r = Inr (ag', ld', w') \<longrightarrow> history ag' \<noteq> []"
    using process_calls_total [of ?ag env "case tool_calls (message ch) of Some tcs \<Rightarrow> tcs | None \<Rightarrow> []" ld w]
    by blast
  then show ?thesis
    using Cons
    by (cases r) (auto simp: handle_response_def Let_def simp del: process_calls.simps split: option.splits list.splits)
qed (simp add: handle_response_def)

lemma iteration_total:
  assumes "history ag \<noteq> []"
  shows "\<exists>out. iteration env ag ld k w = Some out \<and> (\<forall>ag' ld' k' w'. out = GoOn ag' ld' k' w' \<longrightarrow> history ag' \<noteq> [])"
proof -
  obtain ag1 w1 where c: "try_compact env (ag\<lparr>ag_state := WaitingForResponse\<rparr>) w = Some (ag1, w1)" "history ag1 \<noteq> []"
    using try_compact_total [of "ag\<lparr>ag_state := WaitingForResponse\<rparr>"] assms by force
  obtain ag2 where g: "apply_guard env ag1 = Some ag2" "history ag2 \<noteq> []"
    using apply_guard_total c(2) by (metis length_0_conv)
  obtain msgs where m: "prepare_messages ag2 = Some msgs"
    using prepare_total by blast
  obtain r ag3 w2 where q: "chat_with_retry env (make_request ag2 msgs (Some (env_tools env))) ag2 w1 = (r, ag3, w2)"
    by (metis prod_cases3)
  then have h3: "history ag3 \<noteq> []"
    using retry_loop_history g(2) unfolding chat_with_retry_def by metis
  obtain ag4 where t: "truncate_history_tool_results ag3 = Some ag4" "history ag4 \<noteq> []"
    using truncate_history_total h3 by (metis length_0_conv)
  show ?thesis
  proof (cases r)
    case (Inr resp)
    then show ?thesis
      using c g m q handle_response_total [of env resp ag3 ld k w2] by (simp add: iteration_def)
  next
    case (Inl e)
    then show ?thesis
      using c g m q t by (cases e) (auto simp: iteration_def)
  qed
qed

lemma tool_loop_total: "history ag \<noteq> [] \<Longrightarrow> \<exists>x. tool_loop env mx n ag ld k w = Some x"
proof (induction n arbitrary: ag ld k w)
  case (Suc n)
  obtain out where out: "iteration env ag ld k w = Some out"
      "\<forall>ag' ld' k' w'. out = GoOn ag' ld' k' w' \<longrightarrow> history ag' \<noteq> []"
    using iteration_total [OF Suc.prems, of env ld k w] by blast
  then show ?case
    using Suc.IH by (cases out) auto
qed simp



section \<open>Final states, answers and the number of requests\<close>

text \<open>In which state a run may return.\<close>

definition returned_ok :: "(agent_error, string) result \<Rightarrow> agent \<Rightarrow> bool" where
  "returned_ok r ag =
     (case r of
        Inr _ \<Rightarrow> ag_state ag = Idle
      | Inl e \<Rightarrow> ag_state ag = ErrorState
          \<or> ag_state ag = WaitingForResponse \<and> e = ModelError ''No choices in response'')"

lemma gate_call_state: "gate_call env tc ag w = (go, ag', w') \<Longrightarrow> ag_state ag' = ag_state ag"
  by (auto simp: gate_call_def push_message_def Let_def split: option.splits approval_decision.splits prod.splits)

lemma process_calls_error_state:
  "process_calls env tcs ag ld w = Some (Inl (e, ag', w')) \<Longrightarrow> ag_state ag' = ErrorState"
proof (induction tcs arbitrary: ag ld w)
  case (Cons tc tcs)
  have "process_call env tc ag ld w = Some (Inl (e, ag', w')) \<Longrightarrow> ag_state ag' = ErrorState"
    by (auto simp: process_call_def Let_def split: if_splits prod.splits bool.splits)
  then show ?case
    using Cons by (auto split: option.splits sum.splits)
qed simp

lemma retry_loop_state: "retry_loop env req n err ag w = (r, ag', w') \<Longrightarrow> ag_state ag' = ag_state ag"
proof (induction n arbitrary: err w)
  case (Suc n)
  then show ?case
    by (auto simp: Let_def record_usage_def split: prod.splits sum.splits if_splits option.splits)
qed simp

lemma try_compact_state: "try_compact env ag w = Some (ag', w') \<Longrightarrow> ag_state ag' = ag_state ag"
  by (auto simp: try_compact_def split: option.splits if_splits sum.splits prod.splits)

lemma apply_guard_state: "apply_guard env ag = Some ag' \<Longrightarrow> ag_state ag' = ag_state ag"
  by (auto simp: apply_guard_def split: option.splits guard_action.splits)

lemma handle_response_state:
  assumes "handle_response env resp ag ld k w = Some (Return r ag' w')" and "ag_state ag = WaitingForResponse"
  shows "returned_ok r ag'"
  using assms
  by (auto simp: handle_response_def returned_ok_def Let_def simp del: process_calls.simps
      dest: process_calls_error_state split: list.splits option.splits sum.splits prod.splits)

lemma iteration_state:
  assumes "iteration env ag ld k w = Some (Return r ag' w')"
  shows "returned_ok r ag'"
proof -
  obtain ag1 w1 where c: "try_compact env (ag\<lparr>ag_state := WaitingForResponse\<rparr>) w = Some (ag1, w1)"
    using assms by (auto simp: iteration_def split: option.splits)
  obtain ag2 where g: "apply_guard env ag1 = Some ag2"
    using assms c by (auto simp: iteration_def split: option.splits)
  obtain msgs where m: "prepare_messages ag2 = Some msgs"
    using assms c g by (auto simp: iteration_def split: option.splits)
  obtain r1 ag3 w2 where q: "chat_with_retry env (make_request ag2 msgs (Some (env_tools env))) ag2 w1 = (r1, ag3, w2)"
    by (metis prod_cases3)
  have "ag_state ag3 = WaitingForResponse"
    using try_compact_state [OF c] apply_guard_state [OF g] retry_loop_state [OF q [unfolded chat_with_retry_def]] by simp
  then show ?thesis
    using assms c g m q handle_response_state
    by (cases r1) (auto simp: iteration_def returned_ok_def split: agent_error.splits if_splits)
qed

lemma tool_loop_state: "tool_loop env mx n ag ld k w = Some (r, ag', w') \<Longrightarrow> returned_ok r ag'"
proof (induction n arbitrary: ag ld k w)
  case 0
  then show ?case by (auto simp: returned_ok_def)
next
  case (Suc n)
  then show ?case
    by (auto split: option.splits iter_outcome.splits dest: iteration_state)
qed

text \<open>The messages a list of tool calls adds to the history: warnings, and one tool result per
  call, in the order of the calls.\<close>

definition answers :: "tool_call list \<Rightarrow> chat_message list \<Rightarrow> bool" where
  "answers tcs ms =
     (map tool_call_id (filter (\<lambda>m. role m = Tool) ms) = map (\<lambda>tc. Some (tc_id tc)) tcs
      \<and> (\<forall>m \<in> set ms. role m = Tool \<or> role m = User \<and> msg_name m = Some ''system''))"

lemma answers_append: "answers xs ms \<Longrightarrow> answers ys ns \<Longrightarrow> answers (xs @ ys) (ms @ ns)"
  by (auto simp: answers_def)

lemma answers_warning: "\<exists>ms. history (loop_warning d ag) = history ag @ ms \<and> answers [] ms"
  by (auto simp: loop_warning_def push_message_def warning_message_def answers_def split: option.splits)

lemma answers_tool: "answers [tc] [tool_message tc c]"
  by (simp add: answers_def tool_message_def)

lemma gate_call_answers:
  assumes "gate_call env tc ag w = (go, ag', w')"
  shows "if go then history ag' = history ag else \<exists>c. history ag' = history ag @ [tool_message tc c]"
  using assms
  by (auto simp: gate_call_def push_message_def Let_def split: option.splits approval_decision.splits prod.splits)

lemma execute_call_answers:
  "execute_call env tc ag ld w = Some (ag', ld', w') \<Longrightarrow> \<exists>c. history ag' = history ag @ [tool_message tc c]"
  by (auto simp: execute_call_def push_message_def transcript_append_def Let_def split: prod.splits option.splits)

lemma process_call_answers:
  assumes "process_call env tc ag ld w = Some (Inr (ag', ld', w'))"
  shows "\<exists>ms. history ag' = history ag @ ms \<and> answers [tc] ms"
proof -
  let ?d = "detect (env_hash env) (fn_name (tc_function tc)) (fn_arguments (tc_function tc)) ld"
  obtain go ag1 w1 where g: "gate_call env tc (loop_warning ?d ag) w = (go, ag1, w1)"
    by (metis prod_cases3)
  obtain ms where ms: "history (loop_warning ?d ag) = history ag @ ms" "answers [] ms"
    using answers_warning by blast
  have "\<exists>c. history ag' = history (loop_warning ?d ag) @ [tool_message tc c]"
    using assms g gate_call_answers [OF g] execute_call_answers
    by (fastforce simp: process_call_def Let_def split: if_splits bool.splits)
  then show ?thesis
    using ms answers_append [OF ms(2) answers_tool] by fastforce
qed

lemma process_calls_answers:
  "process_calls env tcs ag ld w = Some (Inr (ag', ld', w')) \<Longrightarrow> \<exists>ms. history ag' = history ag @ ms \<and> answers tcs ms"
proof (induction tcs arbitrary: ag ld w)
  case Nil
  then show ?case by (auto simp: answers_def)
next
  case (Cons tc tcs)
  then obtain a l v where "process_call env tc ag ld w = Some (Inr (a, l, v))"
      "process_calls env tcs a l v = Some (Inr (ag', ld', w'))"
    by (auto split: option.splits sum.splits)
  then show ?case
    using process_call_answers Cons.IH answers_append [of "[tc]" _ tcs] by fastforce
qed

text \<open>Counting the requests to the language model: \<open>f\<close> reads a counter off the world state that only
  the model advances.\<close>

definition counts_chats :: "('w \<Rightarrow> nat) \<Rightarrow> ('w, 'tool) agent_env \<Rightarrow> bool" where
  "counts_chats f env =
     ((\<forall>req w. f (snd (env_chat env req w)) \<le> Suc (f w))
      \<and> (\<forall>name args w. f (snd (env_execute env name args w)) = f w)
      \<and> (\<forall>w. f (snd (env_fresh env w)) = f w)
      \<and> (\<forall>rc q cfg w. env_recall env = Some rc \<longrightarrow> f (snd (rc q cfg w)) = f w))"

fun outcome_world :: "'w iter_outcome \<Rightarrow> 'w" where
  "outcome_world (Return r ag w) = w"
| "outcome_world (GoOn ag ld k w) = w"

definition requests_per_iteration :: "agent \<Rightarrow> nat" where
  "requests_per_iteration ag =
     (case ag_compaction ag of None \<Rightarrow> 0 | Some cfg \<Rightarrow> attempts (retry cfg)) + nat (retries_of ag)"

lemma counts_chatsD:
  assumes "counts_chats f env"
  shows "env_chat env req w = (r, w') \<Longrightarrow> f w' \<le> Suc (f w)"
    and "env_execute env name args w = (x, w') \<Longrightarrow> f w' = f w"
    and "env_fresh env w = (u, w') \<Longrightarrow> f w' = f w"
    and "env_recall env = Some rc \<Longrightarrow> rc q cfg w = (l, w') \<Longrightarrow> f w' = f w"
  using assms unfolding counts_chats_def by (metis snd_conv)+

lemma retry_loop_requests:
  assumes "counts_chats f env"
  shows "retry_loop env req n err ag w = (r, ag', w') \<Longrightarrow> f w' \<le> f w + n"
proof (induction n arbitrary: err w)
  case (Suc n)
  obtain x v where x: "env_chat env req w = (x, v)" by (metis prod.collapse)
  have v: "f v \<le> Suc (f w)" using counts_chatsD(1) [OF assms x] .
  have ih: "retry_loop env req n err' ag v = (r, ag', w') \<Longrightarrow> f w' \<le> f w + Suc n" for err'
    using Suc.IH [of err' v] v by simp
  show ?case
    using Suc.prems x v ih by (cases x) (auto simp: Let_def split: if_splits)
qed simp

lemma summary_loop_requests:
  assumes "counts_chats f env"
  shows "summary_loop (env_chat env) req cap n err w = (r, w') \<Longrightarrow> f w' \<le> f w + n"
proof (induction n arbitrary: err w)
  case (Suc n)
  obtain x v where x: "env_chat env req w = (x, v)" by (metis prod.collapse)
  have v: "f v \<le> Suc (f w)" using counts_chatsD(1) [OF assms x] .
  have ih: "summary_loop (env_chat env) req cap n err' v = (r, w') \<Longrightarrow> f w' \<le> f w + Suc n" for err'
    using Suc.IH [of err' v] v by simp
  show ?case
    using Suc.prems x v ih by (cases x) auto
qed simp

lemma try_compact_requests:
  assumes "counts_chats f env" and "try_compact env ag w = Some (ag', w')"
  shows "f w' \<le> f w + (case ag_compaction ag of None \<Rightarrow> 0 | Some cfg \<Rightarrow> attempts (retry cfg))"
proof (cases "ag_compaction ag")
  case (Some cfg)
  have "f v \<le> f w + attempts (retry cfg)"
    if "compact_history (env_chat env) bpe model ms cfg w = Some (r, v)" for bpe model ms r v
    using that summary_loop_requests [OF assms(1)]
    by (auto simp: compact_history_def generate_summary_def Let_def split: if_splits prod.splits sum.splits)
  then show ?thesis
    using Some assms(2) by (auto simp: try_compact_def split: if_splits option.splits sum.splits prod.splits)
qed (use assms(2) in \<open>simp add: try_compact_def\<close>)

lemma process_call_requests:
  assumes "counts_chats f env" and "process_call env tc ag ld w = Some r"
  shows "f (case r of Inl (e, ag', w') \<Rightarrow> w' | Inr (ag', ld', w') \<Rightarrow> w') = f w"
proof -
  let ?d = "detect (env_hash env) (fn_name (tc_function tc)) (fn_arguments (tc_function tc)) ld"
  obtain go ag1 w1 where g: "gate_call env tc (loop_warning ?d ag) w = (go, ag1, w1)"
    by (metis prod_cases3)
  have w1: "f w1 = f w"
    using g counts_chatsD(3) [OF assms(1)]
    by (auto simp: gate_call_def Let_def split: option.splits approval_decision.splits prod.splits)
  have "f w2 = f w1" if "execute_call env tc ag1 l w1 = Some (ag2, l2, w2)" for l ag2 l2 w2
    using that counts_chatsD(2) [OF assms(1)] by (auto simp: execute_call_def Let_def split: prod.splits option.splits)
  then show ?thesis
    using assms(2) g w1 by (auto simp: process_call_def Let_def split: if_splits bool.splits)
qed

lemma process_calls_requests:
  assumes "counts_chats f env"
  shows "process_calls env tcs ag ld w = Some r \<Longrightarrow> f (case r of Inl (e, ag', w') \<Rightarrow> w' | Inr (ag', ld', w') \<Rightarrow> w') = f w"
proof (induction tcs arbitrary: ag ld w)
  case (Cons tc tcs)
  obtain x where x: "process_call env tc ag ld w = Some x"
    using Cons.prems by (auto split: option.splits)
  show ?case
    using Cons process_call_requests [OF assms x] x by (cases x) (auto split: prod.splits)
qed auto

lemma handle_response_requests:
  assumes "counts_chats f env" and "handle_response env resp ag ld k w = Some out"
  shows "f (outcome_world out) = f w"
  using assms(2)
  by (auto simp: handle_response_def Let_def simp del: process_calls.simps
      dest: process_calls_requests [OF assms(1)] split: list.splits option.splits sum.splits prod.splits)

lemma iteration_requests:
  assumes cnt: "counts_chats f env" and "iteration env ag ld k w = Some out"
  shows "f (outcome_world out) \<le> f w + requests_per_iteration ag"
proof -
  let ?ag = "ag\<lparr>ag_state := WaitingForResponse\<rparr>"
  obtain ag1 w1 where c: "try_compact env ?ag w = Some (ag1, w1)"
    using assms by (auto simp: iteration_def split: option.splits)
  obtain ag2 where g: "apply_guard env ag1 = Some ag2"
    using assms c by (auto simp: iteration_def split: option.splits)
  obtain msgs where m: "prepare_messages ag2 = Some msgs"
    using assms c g by (auto simp: iteration_def split: option.splits)
  obtain r1 ag3 w2 where q: "chat_with_retry env (make_request ag2 msgs (Some (env_tools env))) ag2 w1 = (r1, ag3, w2)"
    by (metis prod_cases3)
  have "config_kept ?ag ag2"
    using config_rel.R_trans [OF config_rel.R_try_compact [OF c] config_rel.R_apply_guard [OF g]] .
  then have "retries_of ag2 = retries_of ag"
    by (simp add: config_kept_def retries_of_def)
  moreover have "f w2 \<le> f w1 + nat (retries_of ag2)"
    using retry_loop_requests [OF cnt q [unfolded chat_with_retry_def]] .
  ultimately have "f w2 \<le> f w + requests_per_iteration ag"
    using try_compact_requests [OF cnt c] by (simp add: requests_per_iteration_def)
  then show ?thesis
    using assms(2) c g m q handle_response_requests [OF cnt]
    by (cases r1) (auto simp: iteration_def split: agent_error.splits if_splits)
qed

lemma tool_loop_requests:
  assumes cnt: "counts_chats f env"
  shows "tool_loop env mx n ag ld k w = Some (r, ag', w') \<Longrightarrow> f w' \<le> f w + n * requests_per_iteration ag"
proof (induction n arbitrary: ag ld k w)
  case (Suc n)
  obtain out where out: "iteration env ag ld k w = Some out"
    using Suc.prems by (auto split: option.splits)
  have it: "f (outcome_world out) \<le> f w + requests_per_iteration ag"
    using iteration_requests [OF cnt out] .
  show ?case
  proof (cases out)
    case (Return r1 ag1 w1)
    then show ?thesis using Suc.prems out it by simp
  next
    case (GoOn ag1 ld1 k1 w1)
    have "requests_per_iteration ag1 = requests_per_iteration ag"
      using config_rel.R_iteration [OF out] GoOn by (simp add: config_kept_def requests_per_iteration_def retries_of_def)
    then show ?thesis
      using Suc.IH [of ag1 ld1 k1 w1] Suc.prems out it GoOn by simp
  qed
qed simp



section \<open>Properties\<close>

lemma run_with_tools_total: "\<exists>r ag' w'. run_with_tools env inp ag w = Some (r, ag', w')"
proof -
  let ?u = "plain_message User inp"
  let ?ag = "push_message ?u (transcript_append ?u (ag\<lparr>ag_state := Running\<rparr>))"
  obtain ag2 w2 where rc: "recall_context env inp ?ag w = (ag2, w2)"
    by (metis prod.collapse)
  then have "history ag2 \<noteq> []"
    by (auto simp: recall_context_def push_message_def split: option.splits if_splits prod.splits)
  from tool_loop_total [OF this, of env "iterations_of ag2" "iterations_of ag2" default_loop_detector 0 w2]
  show ?thesis
    using rc by (auto simp: run_with_tools_def)
qed

lemma run_with_tools_loop:
  assumes "run_with_tools env inp ag w = Some (r, ag', w')"
  obtains ag2 w2 where "config_kept ag ag2"
    and "tool_loop env (iterations_of ag2) (iterations_of ag2) ag2 default_loop_detector 0 w2 = Some (r, ag', w')"
    and "\<And>f. counts_chats f env \<Longrightarrow> f w2 = f w"
proof -
  let ?u = "plain_message User inp"
  let ?ag = "push_message ?u (transcript_append ?u (ag\<lparr>ag_state := Running\<rparr>))"
  obtain ag2 w2 where rc: "recall_context env inp ?ag w = (ag2, w2)"
    by (metis prod.collapse)
  have "config_kept ag ?ag"
    by (simp add: config_kept_def push_message_def transcript_append_def)
  then have "config_kept ag ag2"
    using config_rel.R_recall [OF rc] config_rel.R_trans by blast
  moreover have "f w2 = f w" if "counts_chats f env" for f
    using rc counts_chatsD(4) [OF that]
    by (auto simp: recall_context_def split: option.splits if_splits prod.splits)
  ultimately show thesis
    using that assms rc by (simp add: run_with_tools_def)
qed

text \<open>C2: the tool loop always returns, in a definite state.  For every language model, executor,
  recaller and agent, \<^verbatim>\<open>run_with_tools\<close> neither panics nor runs on: it returns an answer in state \<^verbatim>\<open>Idle\<close>,
  or an error in state \<^verbatim>\<open>Error\<close> \<^emph>\<open>or\<close>, for a response without choices only, in state
  \<^verbatim>\<open>WaitingForResponse\<close>; its configuration is unchanged.\<close>

theorem run_with_tools_returns:
  "case run_with_tools env inp ag w of
     None \<Rightarrow> False
   | Some (r, ag', w') \<Rightarrow>
       ag_config ag' = ag_config ag
       \<and> (case r of
            Inr _ \<Rightarrow> ag_state ag' = Idle
          | Inl e \<Rightarrow> ag_state ag' = ErrorState
              \<or> ag_state ag' = WaitingForResponse \<and> e = ModelError ''No choices in response'')"
proof -
  obtain r ag' w' where run: "run_with_tools env inp ag w = Some (r, ag', w')"
    using run_with_tools_total by metis
  have "ag_config ag' = ag_config ag"
    using config_rel.R_run_with_tools [OF run] by (simp add: config_kept_def)
  moreover have "returned_ok r ag'"
    using run_with_tools_loop [OF run] tool_loop_state by metis
  ultimately show ?thesis
    using run by (cases r) (simp_all add: returned_ok_def)
qed

text \<open>C3: no tool is executed past the approval gate.  Every call that a run hands to the executor
  names a tool the gate's check approves; tools that are denied or need approval are never
  executed, whatever the language model asks for.\<close>

theorem only_approved_tools_executed:
  "case run_with_tools env inp ag w of
     None \<Rightarrow> False
   | Some (r, ag', w') \<Rightarrow>
       (\<exists>es. executed ag' = executed ag @ es
          \<and> list_all (\<lambda>e. case ag_gate ag of
                None \<Rightarrow> True | Some gate \<Rightarrow> gate_check gate (fst e) = Approved) es)"
proof -
  obtain r ag' w' where run: "run_with_tools env inp ag w = Some (r, ag', w')"
    using run_with_tools_total by metis
  then show ?thesis
    using gate_rel.R_run_with_tools [OF run]
    by (auto simp: gate_respected_def allowed_by_def list_all_iff)
qed

text \<open>The transcript is append-only.  A run, with tools or without, only appends entries to the
  transcript, also when it compacts the history in memory or fails.\<close>

theorem transcript_append_only:
  "case run_with_tools env inp ag w of
     None \<Rightarrow> False
   | Some (r, ag', w') \<Rightarrow>
       (case ag_transcript ag of
          None \<Rightarrow> ag_transcript ag' = None
        | Some t \<Rightarrow> \<exists>u. ag_transcript ag' = Some (t @ u))"
proof -
  obtain r ag' w' where run: "run_with_tools env inp ag w = Some (r, ag', w')"
    using run_with_tools_total by metis
  then show ?thesis
    using transcript_rel.R_run_with_tools [OF run] by (simp add: transcript_grows_def)
qed


text \<open>C9: bounded use of the language model.  A run sends at most as many requests as the iteration
  limit times the retry limit plus the compaction attempts per iteration, even when the model keeps asking for tools
  or keeps failing.\<close>

theorem run_with_tools_requests_bounded:
  assumes "counts_chats f env"
  shows "case run_with_tools env inp ag w of
      None \<Rightarrow> False
    | Some (r, ag', w') \<Rightarrow>
        f w' \<le> f w + iterations_of ag *
          ((case ag_compaction ag of None \<Rightarrow> 0 | Some cfg \<Rightarrow> attempts (retry cfg)) + nat (retries_of ag))"
proof -
  obtain r ag' w' where run: "run_with_tools env inp ag w = Some (r, ag', w')"
    using run_with_tools_total by metis
  obtain ag2 w2 where l: "config_kept ag ag2" "f w2 = f w"
      "tool_loop env (iterations_of ag2) (iterations_of ag2) ag2 default_loop_detector 0 w2 = Some (r, ag', w')"
    using run_with_tools_loop [OF run] assms by metis
  then have "iterations_of ag2 = iterations_of ag" "requests_per_iteration ag2 = requests_per_iteration ag"
    by (simp_all add: config_kept_def iterations_of_def requests_per_iteration_def retries_of_def)
  then show ?thesis
    using run l(2) tool_loop_requests [OF assms l(3)] by (simp add: requests_per_iteration_def)
qed

definition silent_env :: "(nat, unit) agent_env" where
  "silent_env =
     \<lparr>env_chat = (\<lambda>req w. (Inr \<lparr>completion_id = [], completion_model = [], choices = [], completion_usage = None\<rparr>, Suc w)),
      env_execute = (\<lambda>name args w. (Inr [], w)), env_tools = [], env_recall = None,
      env_fresh = (\<lambda>w. (([], 0), w)), env_bpe = (\<lambda>_. None), env_hash = length, env_debug = (\<lambda>_. [])\<rparr>"

theorem run_with_tools_requests_bounded_witness:
  "case run_with_tools silent_env ''hi'' (agent_new (agent_config_new ''n'' ''m'' ''p'')) 0 of
     None \<Rightarrow> False
   | Some (r, ag', w') \<Rightarrow> w' \<le> 96"
proof -
  have "counts_chats id silent_env"
    by (simp add: counts_chats_def silent_env_def)
  from run_with_tools_requests_bounded [OF this, where inp = "''hi''" and w = 0
      and ag = "agent_new (agent_config_new ''n'' ''m'' ''p'')"]
  show ?thesis
    by (simp add: agent_new_def agent_config_new_def iterations_of_def retries_of_def split: option.splits prod.splits)
qed

lemma silent_iteration:
  assumes "ag_compaction ag = None" and "ag_guard ag = None" and "0 < retries_of ag"
  shows "iteration silent_env ag ld k w = Some (Return (Inl (ModelError ''No choices in response''))
      (ag\<lparr>ag_state := WaitingForResponse\<rparr>) (Suc w))"
proof -
  let ?ag = "ag\<lparr>ag_state := WaitingForResponse\<rparr>"
  obtain msgs where msgs: "prepare_messages ?ag = Some msgs"
    using prepare_total by blast
  obtain n where n: "nat (retries_of ?ag) = Suc n"
    using assms(3) by (cases "nat (retries_of ?ag)") (simp_all add: retries_of_def)
  have "try_compact silent_env ?ag w = Some (?ag, w)" "apply_guard silent_env ?ag = Some ?ag"
    using assms(1,2) by (simp_all add: try_compact_def apply_guard_def)
  then show ?thesis
    using msgs n
    by (simp add: iteration_def chat_with_retry_def silent_env_def record_usage_def handle_response_def)
qed

text \<open>A response without choices leaves the agent hanging.  The early return for it skips the
  state change of the other error paths: the call fails and the agent stays in state
  \<^verbatim>\<open>WaitingForResponse\<close>.\<close>

theorem no_choices_leaves_waiting:
  "case run_with_tools silent_env inp (agent_new (agent_config_new n m p)) w of
     None \<Rightarrow> False
   | Some (r, ag', w') \<Rightarrow>
       r = Inl (ModelError ''No choices in response'') \<and> ag_state ag' = WaitingForResponse"
proof -
  let ?ag = "agent_new (agent_config_new n m p)"
  let ?u = "plain_message User inp"
  let ?ag2 = "push_message ?u (transcript_append ?u (?ag\<lparr>ag_state := Running\<rparr>))"
  have cfg: "ag_config ?ag2 = agent_config_new n m p" "ag_compaction ?ag2 = None" "ag_guard ?ag2 = None"
    "ag_recall ?ag2 = None"
    by (simp_all add: push_message_def transcript_append_def agent_new_def)
  then have it: "0 < iterations_of ?ag2" "0 < retries_of ?ag2"
    by (simp_all add: iterations_of_def retries_of_def agent_config_new_def)
  then obtain j where j: "iterations_of ?ag2 = Suc j"
    using gr0_implies_Suc by blast
  have "iteration silent_env ?ag2 default_loop_detector 0 w = Some (Return (Inl (ModelError ''No choices in response''))
      (?ag2\<lparr>ag_state := WaitingForResponse\<rparr>) (Suc w))"
    by (rule silent_iteration) (use cfg it in simp_all)
  then show ?thesis
    using j cfg(4) by (simp add: run_with_tools_def recall_context_def Let_def)
qed

lemma run_attempts_history:
  assumes "run_attempts env req n err ag w = (r, ag', w')"
  shows "case r of
      Inr ans \<Rightarrow> history ag' = history ag @ [plain_message Assistant ans] \<and> ag_state ag' = Idle
    | Inl e \<Rightarrow> history ag' = history ag \<and> ag_state ag' = ErrorState"
  using assms
proof (induction n arbitrary: err ag w)
  case (Suc n)
  have usage: "history (record_usage resp ag) = history ag" for resp
    by (simp add: record_usage_def split: option.splits)
  show ?case
    using Suc.prems Suc.IH usage
    by (fastforce simp: Let_def push_message_def transcript_append_def split: prod.splits sum.splits list.splits)
qed auto

text \<open>What a plain run adds to the conversation.  A successful \<^verbatim>\<open>run\<close> appends the user's message and
  the answer and ends in state \<^verbatim>\<open>Idle\<close>; a failed one ends in state \<^verbatim>\<open>Error\<close> with the user's message
  left in the history.\<close>

theorem run_history:
  "case run env inp ag w of
     None \<Rightarrow> False
   | Some (Inr ans, ag', w') \<Rightarrow>
       history ag' = history ag @ [plain_message User inp, plain_message Assistant ans] \<and> ag_state ag' = Idle
   | Some (Inl e, ag', w') \<Rightarrow>
       history ag' = history ag @ [plain_message User inp] \<and> ag_state ag' = ErrorState"
proof -
  let ?u = "plain_message User inp"
  let ?ag = "(push_message ?u (transcript_append ?u (ag\<lparr>ag_state := Running\<rparr>)))\<lparr>ag_state := WaitingForResponse\<rparr>"
  obtain msgs where "prepare_messages ?ag = Some msgs"
    using prepare_total by blast
  moreover obtain r ag' w' where a: "run_attempts env (make_request ?ag msgs None) (nat (retries_of ?ag)) None ?ag w = (r, ag', w')"
    by (metis prod_cases3)
  ultimately have "run env inp ag w = Some (r, ag', w')"
    by (simp add: run_def Let_def)
  moreover have "history ?ag = history ag @ [?u]"
    by (simp add: push_message_def transcript_append_def)
  ultimately show ?thesis
    using run_attempts_history [OF a] by (cases r) simp_all
qed

end
