(* ===== verification/Trackers.thy ===== *)
theory Trackers
  imports Prelude
begin

text \<open>
  The time-based trackers of the agent core: \<^verbatim>\<open>agent-core/src/auth_cooldown.rs\<close>,
  \<^verbatim>\<open>command_poll.rs\<close> and \<^verbatim>\<open>thread_ownership.rs\<close>.  The locale \<open>cooldown_store\<close> is the contract of
  a store that blocks a key for a period after a failure; \<^verbatim>\<open>AuthCooldownTracker\<close> provides it here
  and the \<^verbatim>\<open>CooldownTracker\<close> of the model fallback in its own theory.  Times are milliseconds.
\<close>

section \<open>Cooldown stores\<close>

locale cooldown_store =
  fixes mark :: "string \<Rightarrow> nat \<Rightarrow> 's \<Rightarrow> 's"
    and blocked :: "'s \<Rightarrow> string \<Rightarrow> nat \<Rightarrow> bool"
    and period :: "'s \<Rightarrow> string \<Rightarrow> nat \<Rightarrow> nat"
  assumes blocked_mark: "blocked (mark k now s) k t \<longleftrightarrow> t < now + period s k now"
    and blocked_mark_other: "j \<noteq> k \<Longrightarrow> blocked (mark k now s) j t = blocked s j t"
begin

lemma marked_expires: "\<not> blocked (mark k now s) k (now + period s k now)"
  by (simp add: blocked_mark)

lemma marked_blocks: "0 < period s k now \<Longrightarrow> blocked (mark k now s) k now"
  by (simp add: blocked_mark)

lemma blocked_fold_mark_other:
  "j \<notin> set ks \<Longrightarrow> blocked (fold (\<lambda>k. mark k now) ks s) j t = blocked s j t"
  by (induction ks arbitrary: s) (auto simp: blocked_mark_other)

lemma blocked_fold_mark:
  assumes "distinct ks" and "k \<in> set ks" and "\<And>s. t < now + period s k now"
  shows "blocked (fold (\<lambda>k. mark k now) ks s) k t"
  using assms(1,2)
proof (induction ks arbitrary: s)
  case (Cons x xs)
  show ?case
  proof (cases "k = x")
    case True
    with Cons.prems have "k \<notin> set xs" by auto
    then show ?thesis
      using True assms(3) by (simp add: blocked_fold_mark_other blocked_mark)
  next
    case False
    with Cons show ?thesis by simp
  qed
qed simp

end


section \<open>AuthCooldownTracker\<close>

definition MAX_COOLDOWN_MS :: nat where "MAX_COOLDOWN_MS = 3600000"
definition FAILURE_WINDOW_MS :: nat where "FAILURE_WINDOW_MS = 24 * 3600000"

record profile_usage_stats =
  cooldown_until :: "nat option"
  error_count :: nat
  last_failure_at :: "nat option"

definition default_stats :: profile_usage_stats where
  "default_stats = \<lparr>cooldown_until = None, error_count = 0, last_failure_at = None\<rparr>"

type_synonym auth_cooldown_tracker = "(string, profile_usage_stats) hash_map"

definition cooldown_ms :: "nat \<Rightarrow> nat" where
  "cooldown_ms error_cnt =
     (let n = max error_cnt 1;
          e = min (n - 1) 3;
          raw = sat_mul u64_max 60000 (min (5 ^ e) u64_max)
      in min raw MAX_COOLDOWN_MS)"

definition fail_stats :: "nat \<Rightarrow> profile_usage_stats \<Rightarrow> profile_usage_stats" where
  "fail_stats now_ms stats =
     (let c = (case last_failure_at stats of
                 Some lst \<Rightarrow> if now_ms - lst > FAILURE_WINDOW_MS then 0 else error_count stats
               | None \<Rightarrow> error_count stats) + 1
      in \<lparr>cooldown_until = Some (now_ms + cooldown_ms c), error_count = c, last_failure_at = Some now_ms\<rparr>)"

definition record_failure ::
  "string \<Rightarrow> nat \<Rightarrow> auth_cooldown_tracker \<Rightarrow> nat \<times> auth_cooldown_tracker" where
  "record_failure profile_id now_ms profiles =
     (let stats = (case hm_get profiles profile_id of Some s \<Rightarrow> s | None \<Rightarrow> default_stats);
          stats' = fail_stats now_ms stats
      in (cooldown_ms (error_count stats'), hm_insert profile_id stats' profiles))"

definition in_cooldown :: "auth_cooldown_tracker \<Rightarrow> string \<Rightarrow> nat \<Rightarrow> bool" where
  "in_cooldown profiles profile_id now_ms =
     (case hm_get profiles profile_id of
        None \<Rightarrow> False
      | Some s \<Rightarrow> (case cooldown_until s of None \<Rightarrow> False | Some until \<Rightarrow> now_ms < until))"

definition expired :: "nat \<Rightarrow> profile_usage_stats \<Rightarrow> bool" where
  "expired now_ms s = (case cooldown_until s of None \<Rightarrow> False | Some until \<Rightarrow> now_ms \<ge> until)"

definition clear_expired :: "nat \<Rightarrow> auth_cooldown_tracker \<Rightarrow> bool \<times> auth_cooldown_tracker" where
  "clear_expired now_ms profiles =
     (list_ex (\<lambda>(_, s). expired now_ms s) profiles,
      hm_map_values (\<lambda>s. if expired now_ms s then default_stats else s) profiles)"

lemma cooldown_ms_table:
  "cooldown_ms n = (if n \<le> 1 then 60000 else if n = 2 then 300000 else if n = 3 then 1500000 else 3600000)"
proof -
  have "n \<le> 1 \<or> n = 2 \<or> n = 3 \<or> min (max n 1 - 1) 3 = 3 \<and> 4 \<le> n"
    by auto
  then show ?thesis
    by (elim disjE) (auto simp: cooldown_ms_def sat_mul_def MAX_COOLDOWN_MS_def)
qed

lemma cooldown_ms_mono: "m \<le> n \<Longrightarrow> cooldown_ms m \<le> cooldown_ms n"
  by (auto simp: cooldown_ms_table)

interpretation auth_store: cooldown_store
  "\<lambda>k now s. snd (record_failure k now s)" in_cooldown
  "\<lambda>s k now. fst (record_failure k now s)"
  by unfold_locales
    (auto simp: record_failure_def in_cooldown_def fail_stats_def Let_def split: option.splits)


section \<open>CommandPollTracker\<close>

definition BACKOFF_SCHEDULE :: "nat list" where
  "BACKOFF_SCHEDULE = [5000, 10000, 30000, 60000]"

record poll_state =
  poll_count :: nat
  last_poll_at :: nat

type_synonym command_poll_tracker = "(string, poll_state) hash_map"

definition backoff_ms :: "nat \<Rightarrow> nat" where
  "backoff_ms consecutive_no_output =
     BACKOFF_SCHEDULE ! (min consecutive_no_output (length BACKOFF_SCHEDULE - 1))"

definition poll_record ::
  "string \<Rightarrow> bool \<Rightarrow> nat \<Rightarrow> command_poll_tracker \<Rightarrow> nat \<times> command_poll_tracker" where
  "poll_record command_id has_new_output now_ms polls =
     (let st = (case hm_get polls command_id of
                  Some s \<Rightarrow> s | None \<Rightarrow> \<lparr>poll_count = 0, last_poll_at = now_ms\<rparr>);
          st' = st\<lparr>last_poll_at := now_ms,
                   poll_count := (if has_new_output then 0 else poll_count st + 1)\<rparr>
      in (backoff_ms (poll_count st'), hm_insert command_id st' polls))"

definition poll_suggestion :: "command_poll_tracker \<Rightarrow> string \<Rightarrow> nat" where
  "poll_suggestion polls command_id =
     (case hm_get polls command_id of
        None \<Rightarrow> BACKOFF_SCHEDULE ! 0 | Some s \<Rightarrow> backoff_ms (poll_count s))"

definition poll_reset :: "string \<Rightarrow> command_poll_tracker \<Rightarrow> command_poll_tracker" where
  "poll_reset command_id polls = hm_remove command_id polls"

definition prune_stale :: "nat \<Rightarrow> nat \<Rightarrow> command_poll_tracker \<Rightarrow> command_poll_tracker" where
  "prune_stale now_ms max_age_ms polls =
     hm_retain (\<lambda>_ s. now_ms - last_poll_at s < max_age_ms) polls"

lemma backoff_ms_table:
  "backoff_ms n = (if n = 0 then 5000 else if n = 1 then 10000 else if n = 2 then 30000 else 60000)"
proof -
  have "n = 0 \<or> n = 1 \<or> n = 2 \<or> min n 3 = 3 \<and> 3 \<le> n"
    by auto
  then show ?thesis
    by (elim disjE) (auto simp: backoff_ms_def BACKOFF_SCHEDULE_def)
qed


section \<open>ThreadOwnership\<close>

text \<open>\<^verbatim>\<open>Instant::duration_since\<close> saturates at zero, as subtraction on \<^typ>\<open>nat\<close> does.\<close>

record thread_ownership =
  owners :: "(string, string \<times> nat) hash_map"
  mentions :: "(string, nat) hash_map"
  ttl :: nat

definition ownership_new :: "nat \<Rightarrow> thread_ownership" where
  "ownership_new ttl_secs = \<lparr>owners = [], mentions = [], ttl = ttl_secs * 1000\<rparr>"

definition default_ownership :: thread_ownership where
  "default_ownership = ownership_new 300"

definition clean_expired :: "nat \<Rightarrow> thread_ownership \<Rightarrow> thread_ownership" where
  "clean_expired now st =
     st\<lparr>mentions := hm_retain (\<lambda>_ ts. now - ts < ttl st) (mentions st),
        owners := hm_retain (\<lambda>_ (_, ts). now - ts < ttl st) (owners st)\<rparr>"

definition record_mention :: "string \<Rightarrow> nat \<Rightarrow> thread_ownership \<Rightarrow> thread_ownership" where
  "record_mention thread_key now st =
     (let st' = clean_expired now st
      in st'\<lparr>mentions := hm_insert thread_key now (mentions st')\<rparr>)"

definition was_mentioned :: "string \<Rightarrow> nat \<Rightarrow> thread_ownership \<Rightarrow> bool" where
  "was_mentioned thread_key now st =
     (case hm_get (mentions st) thread_key of None \<Rightarrow> False | Some ts \<Rightarrow> now - ts < ttl st)"

definition try_claim :: "string \<Rightarrow> string \<Rightarrow> nat \<Rightarrow> thread_ownership \<Rightarrow> bool \<times> thread_ownership" where
  "try_claim thread_key agent_id now st =
     (let st' = clean_expired now st
      in case hm_get (owners st') thread_key of
           Some (owner, _) \<Rightarrow> (owner = agent_id, st')
         | None \<Rightarrow> (True, st'\<lparr>owners := hm_insert thread_key (agent_id, now) (owners st')\<rparr>))"

definition can_send :: "string \<Rightarrow> string \<Rightarrow> nat \<Rightarrow> thread_ownership \<Rightarrow> bool \<times> thread_ownership" where
  "can_send thread_key agent_id now st =
     (if was_mentioned thread_key now st then (True, st) else try_claim thread_key agent_id now st)"

text \<open>The mutating operations as steps at a given time.\<close>

datatype ownership_op = Mention string | Claim string string | Send string string

fun own_op :: "nat \<times> ownership_op \<Rightarrow> thread_ownership \<Rightarrow> thread_ownership" where
  "own_op (now, Mention k) st = record_mention k now st"
| "own_op (now, Claim k a) st = snd (try_claim k a now st)"
| "own_op (now, Send k a) st = snd (can_send k a now st)"

definition own_wf :: "thread_ownership \<Rightarrow> bool" where
  "own_wf st = (hm_wf (owners st) \<and> hm_wf (mentions st))"

lemmas own_defs = record_mention_def try_claim_def can_send_def clean_expired_def Let_def

lemma own_op_ttl [simp]: "ttl (own_op op st) = ttl st"
  by (cases "(op, st)" rule: own_op.cases) (auto simp: own_defs split: option.splits)

lemma own_op_wf: "own_wf st \<Longrightarrow> own_wf (own_op op st)"
  by (cases "(op, st)" rule: own_op.cases) (auto simp: own_wf_def own_defs split: option.splits)

lemma own_op_keeps_owner:
  assumes "own_wf st" and "hm_get (owners st) k = Some (a, ts)" and "fst op < ts + ttl st" and "0 < ttl st"
  shows "hm_get (owners (own_op op st)) k = Some (a, ts)"
proof -
  have "fst op - ts < ttl st"
    using assms(3,4) by linarith
  then show ?thesis
    using assms(1,2)
    by (cases "(op, st)" rule: own_op.cases) (auto simp: own_wf_def own_defs split: option.splits)
qed

lemma own_run_keeps_owner:
  assumes "own_wf st" and "hm_get (owners st) k = Some (a, ts)" and "0 < ttl st"
    and "list_all (\<lambda>op. fst op < ts + ttl st) ops"
  shows "own_wf (fold own_op ops st) \<and> ttl (fold own_op ops st) = ttl st
    \<and> hm_get (owners (fold own_op ops st)) k = Some (a, ts)"
  using assms
proof (induction ops arbitrary: st)
  case (Cons op ops)
  then show ?case
    using own_op_keeps_owner [of st k a ts op] own_op_wf [of st op] by simp
qed simp


section \<open>Properties\<close>

text \<open>A cooldown always ends after at most an hour and grows with repeated failures.  A failure
  blocks the profile for exactly the reported period, which lies between one minute and one hour
  and depends on nothing but that profile's recent failures; other profiles are not affected.\<close>

theorem cooldown_exact:
  "(in_cooldown (snd (record_failure p now s)) q t \<longleftrightarrow>
      (if q = p then t < now + fst (record_failure p now s) else in_cooldown s q t))
   \<and> 60000 \<le> fst (record_failure p now s) \<and> fst (record_failure p now s) \<le> MAX_COOLDOWN_MS"
proof -
  have "60000 \<le> fst (record_failure p now s) \<and> fst (record_failure p now s) \<le> MAX_COOLDOWN_MS"
    by (simp add: record_failure_def cooldown_ms_table MAX_COOLDOWN_MS_def Let_def)
  then show ?thesis
    using auth_store.blocked_mark auth_store.blocked_mark_other by auto
qed

text \<open>Clearing expired cooldowns is unobservable for blocking.  At every time from \<open>now\<close> on, a
  profile is in cooldown after \<^verbatim>\<open>clear_expired(now)\<close> exactly when it was before, and the returned
  flag tells whether any entry changed.\<close>

theorem clear_expired_keeps_active:
  assumes "now \<le> t"
  shows "in_cooldown (snd (clear_expired now s)) p t = in_cooldown s p t
    \<and> (\<not> fst (clear_expired now s) \<longrightarrow> snd (clear_expired now s) = s)"
proof
  show "in_cooldown (snd (clear_expired now s)) p t = in_cooldown s p t"
    using assms by (auto simp: clear_expired_def in_cooldown_def expired_def default_stats_def
        split: option.splits)
  show "\<not> fst (clear_expired now s) \<longrightarrow> snd (clear_expired now s) = s"
    by (auto simp: clear_expired_def hm_map_values_def list_ex_iff intro!: map_idI)
qed

theorem clear_expired_keeps_active_witness:
  "in_cooldown (snd (clear_expired 10 (snd (record_failure ''p'' 0 [])))) ''p'' 20 =
     in_cooldown (snd (record_failure ''p'' 0 [])) ''p'' 20"
  using clear_expired_keeps_active [of 10 20 "snd (record_failure ''p'' 0 [])" "''p''"] by simp

text \<open>Exclusive thread ownership.  Once an agent owns a thread since time \<open>ts\<close>, no sequence of
  mentions, claims and sends before \<open>ts + ttl\<close> changes the owner, and a claim in that period
  succeeds for the owner and fails for every other agent.\<close>

theorem ownership_exclusive:
  assumes "own_wf st" and "hm_get (owners st) k = Some (a, ts)" and "0 < ttl st"
    and "list_all (\<lambda>op. fst op < ts + ttl st) ops" and "now < ts + ttl st"
  shows "fst (try_claim k b now (fold own_op ops st)) \<longleftrightarrow> b = a"
proof -
  let ?st = "fold own_op ops st"
  have run: "own_wf ?st" "ttl ?st = ttl st" "hm_get (owners ?st) k = Some (a, ts)"
    using own_run_keeps_owner [OF assms(1-4)] by auto
  have "now - ts < ttl ?st"
    using assms(3,5) run(2) by linarith
  then show ?thesis
    using run by (auto simp: try_claim_def clean_expired_def own_wf_def Let_def)
qed

theorem ownership_exclusive_witness:
  "\<not> fst (try_claim ''t'' ''b'' 9 (fold own_op [(5, Claim ''t'' ''b''), (7, Mention ''t'')]
      (snd (try_claim ''t'' ''a'' 0 default_ownership))))"
  using ownership_exclusive [of "snd (try_claim ''t'' ''a'' 0 default_ownership)" "''t''" "''a''" 0
      "[(5, Claim ''t'' ''b''), (7, Mention ''t'')]" 9 "''b''"]
  by (simp add: default_ownership_def ownership_new_def own_wf_def own_defs hm_retain_def)

text \<open>The polling advice follows the backoff schedule.  After \<open>n\<close> polls without new output
  since the last output, both the value returned by the last \<^verbatim>\<open>record\<close> and a later
  \<^verbatim>\<open>suggestion\<close> are the schedule entry for \<open>n\<close>, capped at a minute.\<close>

theorem poll_backoff_schedule:
  "poll_suggestion
     (((\<lambda>s. snd (poll_record c False now s)) ^^ n) (snd (poll_record c True t0 polls))) c =
     (if n = 0 then 5000 else if n = 1 then 10000 else if n = 2 then 30000 else 60000)
   \<and> fst (poll_record c out now polls) = poll_suggestion (snd (poll_record c out now polls)) c"
proof -
  let ?s = "\<lambda>n. ((\<lambda>s. snd (poll_record c False now s)) ^^ n) (snd (poll_record c True t0 polls))"
  have "\<exists>st. hm_get (?s n) c = Some st \<and> poll_count st = n"
    by (induction n) (auto simp: poll_record_def Let_def)
  then have "poll_suggestion (?s n) c = backoff_ms n"
    by (auto simp: poll_suggestion_def)
  then show ?thesis
    by (simp add: backoff_ms_table) (simp add: poll_suggestion_def poll_record_def Let_def)
qed

end
