(* ===== verification/Model_Fallback.thy ===== *)
theory Model_Fallback
  imports Errors Trackers "HOL-Library.Multiset"
begin

text \<open>
  \<^verbatim>\<open>agent-core/src/model_fallback.rs\<close>: the cooldown tracker of failed candidates, the generic
  fallback executor \<^verbatim>\<open>run_with_fallback\<close>, the priority-ordered \<^verbatim>\<open>ModelChain\<close> and
  \<^verbatim>\<open>ModelFallback::execute_with_agent\<close>.

  The closure \<^verbatim>\<open>run\<close> is a parameter that receives provider, model and the current time and
  returns its outcome and the time at which it ended; \<^verbatim>\<open>agent.run\<close> is a parameter that receives the
  agent and the input and returns the outcome and the changed agent.  Times are milliseconds and
  \<^verbatim>\<open>tokio::time::sleep\<close> advances the clock by its argument.
\<close>

section \<open>Configuration and results\<close>

record model_candidate =
  cand_provider :: string
  cand_model :: string

record fallback_config =
  fb_enabled :: bool
  fb_max_retries :: int
  retry_delay_ms :: int
  fallback_on_error :: bool
  cooldown_secs :: nat
  candidates :: "model_candidate list"

definition default_fallback_config :: fallback_config where
  "default_fallback_config =
     \<lparr>fb_enabled = True, fb_max_retries = 3, retry_delay_ms = 1000, fallback_on_error = True,
      cooldown_secs = 60, candidates = []\<rparr>"

record fallback_attempt =
  att_provider :: string
  att_model :: string
  att_error :: string

record 'a fallback_result =
  fr_result :: 'a
  fr_provider :: string
  fr_model :: string
  fr_attempts :: "fallback_attempt list"


section \<open>CooldownTracker\<close>

type_synonym cooldown_tracker = "(string, nat) hash_map"

definition mark_failed :: "string \<Rightarrow> nat \<Rightarrow> cooldown_tracker \<Rightarrow> cooldown_tracker" where
  "mark_failed key now s = hm_insert key now s"

definition is_cooled_down :: "cooldown_tracker \<Rightarrow> string \<Rightarrow> nat \<Rightarrow> nat \<Rightarrow> bool" where
  "is_cooled_down s key secs now =
     (case hm_get s key of None \<Rightarrow> True | Some t \<Rightarrow> (now - t) div 1000 \<ge> secs)"

definition clear_key :: "string \<Rightarrow> cooldown_tracker \<Rightarrow> cooldown_tracker" where
  "clear_key key s = hm_remove key s"

lemma elapsed_secs_less: "(n - t) div 1000 < Suc cd \<longleftrightarrow> n < t + Suc cd * 1000" for n t :: nat
  by (auto simp: div_less_iff_less_mult)

text \<open>With a positive period the tracker meets the contract of a cooldown store.\<close>

interpretation fallback_store: cooldown_store
  mark_failed "\<lambda>s k now. \<not> is_cooled_down s k (Suc cd) now" "\<lambda>_ _ _. Suc cd * 1000" for cd
proof unfold_locales
  fix k now s t
  show "(\<not> is_cooled_down (mark_failed k now s) k (Suc cd) t) = (t < now + Suc cd * 1000)"
    using elapsed_secs_less [of t now cd] by (simp add: is_cooled_down_def mark_failed_def not_le)
next
  fix j k now s t
  assume "j \<noteq> (k :: string)"
  then show "(\<not> is_cooled_down (mark_failed k now s) j (Suc cd) t) = (\<not> is_cooled_down s j (Suc cd) t)"
    by (simp add: is_cooled_down_def mark_failed_def)
qed


section \<open>run\_with\_fallback\<close>

definition candidate_key :: "model_candidate \<Rightarrow> string" where
  "candidate_key c = cand_provider c @ '':'' @ cand_model c"

definition failed_attempt :: "model_candidate \<Rightarrow> agent_error \<Rightarrow> fallback_attempt" where
  "failed_attempt c e =
     \<lparr>att_provider = cand_provider c, att_model = cand_model c, att_error = show_agent_error e\<rparr>"

type_synonym 'a candidate_run = "string \<Rightarrow> string \<Rightarrow> nat \<Rightarrow> (agent_error, 'a) result \<times> nat"

fun fallback_loop ::
  "fallback_config \<Rightarrow> 'a candidate_run \<Rightarrow> model_candidate list \<Rightarrow> fallback_attempt list
    \<Rightarrow> cooldown_tracker \<Rightarrow> nat
    \<Rightarrow> (agent_error, 'a fallback_result) result \<times> cooldown_tracker \<times> nat" where
  "fallback_loop cfg run [] attempts s now =
     (Inl (ModelError (''All '' @ show_nat (length attempts) @ '' fallback candidates exhausted'')), s, now)"
| "fallback_loop cfg run (c # cs) attempts s now =
     (let key = candidate_key c in
      if \<not> is_cooled_down s key (cooldown_secs cfg) now then fallback_loop cfg run cs attempts s now
      else case run (cand_provider c) (cand_model c) now of
        (Inr res, now') \<Rightarrow>
          (Inr \<lparr>fr_result = res, fr_provider = cand_provider c, fr_model = cand_model c,
                fr_attempts = attempts\<rparr>, clear_key key s, now')
      | (Inl e, now') \<Rightarrow>
          fallback_loop cfg run cs (attempts @ [failed_attempt c e]) (mark_failed key now' s)
            (if retry_delay_ms cfg > 0 then now' + nat (retry_delay_ms cfg) else now'))"

definition run_with_fallback ::
  "fallback_config \<Rightarrow> cooldown_tracker \<Rightarrow> 'a candidate_run \<Rightarrow> nat
    \<Rightarrow> (agent_error, 'a fallback_result) result \<times> cooldown_tracker \<times> nat" where
  "run_with_fallback cfg s run now = fallback_loop cfg run (candidates cfg) [] s now"

text \<open>A run's clock does not go backwards.\<close>

definition run_time_ok :: "'a candidate_run \<Rightarrow> bool" where
  "run_time_ok run = (\<forall>p m t. t \<le> snd (run p m t))"

lemma run_time_okD: "run_time_ok run \<Longrightarrow> run p m t = (r, t') \<Longrightarrow> t \<le> t'"
  by (metis run_time_ok_def snd_conv)

lemma fallback_loop_success:
  assumes "fallback_loop cfg run cs atts s now = (Inr r, s', now')" and "run_time_ok run"
  shows "\<exists>pre c post t sc fs. cs = pre @ c # post \<and> now \<le> t
    \<and> fr_provider r = cand_provider c \<and> fr_model r = cand_model c
    \<and> is_cooled_down sc (candidate_key c) (cooldown_secs cfg) t
    \<and> run (cand_provider c) (cand_model c) t = (Inr (fr_result r), now')
    \<and> s' = clear_key (candidate_key c) sc
    \<and> fr_attempts r = atts @ map (\<lambda>(d, e). failed_attempt d e) fs \<and> subseq (map fst fs) pre"
  using assms(1)
proof (induction cs arbitrary: atts s now)
  case Nil
  then show ?case by simp
next
  case (Cons c cs)
  let ?k = "candidate_key c"
  show ?case
  proof (cases "is_cooled_down s ?k (cooldown_secs cfg) now")
    case False
    with Cons.prems have "fallback_loop cfg run cs atts s now = (Inr r, s', now')"
      by simp
    from Cons.IH [OF this] show ?thesis
      by (metis append_Cons list_emb_Cons)
  next
    case True
    obtain oc t1 where run: "run (cand_provider c) (cand_model c) now = (oc, t1)"
      by (cases "run (cand_provider c) (cand_model c) now")
    show ?thesis
    proof (cases oc)
      case (Inr res)
      with True run Cons.prems show ?thesis
        by (intro exI [of _ "[]"] exI [of _ c] exI [of _ cs] exI [of _ now] exI [of _ s] exI [of _ "[]"]) auto
    next
      case (Inl e)
      let ?t2 = "if retry_delay_ms cfg > 0 then t1 + nat (retry_delay_ms cfg) else t1"
      have rec: "fallback_loop cfg run cs (atts @ [failed_attempt c e]) (mark_failed ?k t1 s) ?t2 = (Inr r, s', now')"
        using Cons.prems True run Inl by (simp add: Let_def)
      have "now \<le> ?t2"
        using run_time_okD [OF assms(2) run] by simp
      then show ?thesis
        using Cons.IH [OF rec]
        apply (elim exE conjE)
        subgoal for pre d post t sc fs
          by (intro exI [of _ "c # pre"] exI [of _ d] exI [of _ post] exI [of _ t] exI [of _ sc]
              exI [of _ "(c, e) # fs"]) (auto split: if_splits)
        done
    qed
  qed
qed

text \<open>Every candidate of an exhausted round is left marked with a time of that round.\<close>

lemma fallback_loop_marks:
  assumes "fallback_loop cfg run cs atts s now = (Inl e, s', now')" and "run_time_ok run"
    and "\<And>k t. hm_get s k = Some t \<Longrightarrow> from \<le> t" and "from \<le> now"
  shows "(\<forall>k t. hm_get s' k = Some t \<longrightarrow> from \<le> t) \<and> (\<forall>k. hm_get s k \<noteq> None \<longrightarrow> hm_get s' k \<noteq> None)
    \<and> (\<forall>c \<in> set cs. hm_get s' (candidate_key c) \<noteq> None) \<and> from \<le> now'"
  using assms(1,3,4)
proof (induction cs arbitrary: atts s now)
  case Nil
  then show ?case by auto
next
  case (Cons c cs)
  let ?k = "candidate_key c"
  show ?case
  proof (cases "is_cooled_down s ?k (cooldown_secs cfg) now")
    case False
    then have "hm_get s ?k \<noteq> None"
      by (auto simp: is_cooled_down_def split: option.splits)
    moreover have "fallback_loop cfg run cs atts s now = (Inl e, s', now')"
      using Cons.prems False by simp
    ultimately show ?thesis
      using Cons.IH [of atts s now] Cons.prems(2,3) by auto
  next
    case True
    obtain oc t1 where run: "run (cand_provider c) (cand_model c) now = (oc, t1)"
      by (cases "run (cand_provider c) (cand_model c) now")
    with True Cons.prems(1) obtain e' where oc: "oc = Inl e'"
      by (cases oc) (auto simp: Let_def)
    let ?t2 = "if retry_delay_ms cfg > 0 then t1 + nat (retry_delay_ms cfg) else t1"
    have rec: "fallback_loop cfg run cs (atts @ [failed_attempt c e']) (mark_failed ?k t1 s) ?t2 = (Inl e, s', now')"
      using Cons.prems(1) True run oc by (simp add: Let_def)
    have t1: "from \<le> t1"
      using run_time_okD [OF assms(2) run] Cons.prems(3) by simp
    have "\<And>k t. hm_get (mark_failed ?k t1 s) k = Some t \<Longrightarrow> from \<le> t"
      using Cons.prems(2) t1 by (auto simp: mark_failed_def split: if_splits)
    moreover have "from \<le> ?t2"
      using t1 by simp
    ultimately have ih: "(\<forall>k t. hm_get s' k = Some t \<longrightarrow> from \<le> t)"
        "\<And>k. hm_get (mark_failed ?k t1 s) k \<noteq> None \<Longrightarrow> hm_get s' k \<noteq> None"
        "\<forall>c \<in> set cs. hm_get s' (candidate_key c) \<noteq> None" "from \<le> now'"
      using Cons.IH [OF rec] by blast+
    have "hm_get s' ?k \<noteq> None" "\<And>k. hm_get s k \<noteq> None \<Longrightarrow> hm_get s' k \<noteq> None"
      by (rule ih(2); simp add: mark_failed_def)+
    then show ?thesis
      using ih by simp
  qed
qed

lemma fallback_loop_all_blocked:
  assumes "\<forall>c \<in> set cs. \<not> is_cooled_down s (candidate_key c) (cooldown_secs cfg) now"
  shows "fallback_loop cfg run cs atts s now =
     (Inl (ModelError (''All '' @ show_nat (length atts) @ '' fallback candidates exhausted'')), s, now)"
  using assms by (induction cs) auto


section \<open>ModelChain\<close>

datatype provider_type =
    OpenAi | Anthropic | Ollama | Google | Cohere | Voyage | OpenRouter | Together | Bedrock | Qwen
  | Volcengine | Moonshot | Xai | HuggingFace | Vllm | Cloudflare | Litellm | Copilot | Minimax

record model_chain_entry =
  entry_provider :: provider_type
  entry_model :: string
  priority :: int

record model_chain =
  entries :: "model_chain_entry list"
  current_index :: nat

definition chain_new :: model_chain where
  "chain_new = \<lparr>entries = [], current_index = 0\<rparr>"

text \<open>\<^verbatim>\<open>Vec::sort_by\<close> is stable, as \<^const>\<open>sort_key\<close> is.\<close>

definition add_model :: "provider_type \<Rightarrow> string \<Rightarrow> int \<Rightarrow> model_chain \<Rightarrow> model_chain" where
  "add_model p m pr ch =
     ch\<lparr>entries := sort_key (\<lambda>e. - priority e)
          (entries ch @ [\<lparr>entry_provider = p, entry_model = m, priority = pr\<rparr>])\<rparr>"

definition chain_current :: "model_chain \<Rightarrow> model_chain_entry option" where
  "chain_current ch =
     (if current_index ch < length (entries ch) then Some (entries ch ! current_index ch) else None)"

definition advance :: "model_chain \<Rightarrow> bool \<times> model_chain" where
  "advance ch =
     (if current_index ch < usize_sub (length (entries ch)) 1
      then (True, ch\<lparr>current_index := current_index ch + 1\<rparr>) else (False, ch))"

definition chain_reset :: "model_chain \<Rightarrow> model_chain" where
  "chain_reset ch = ch\<lparr>current_index := 0\<rparr>"

definition is_exhausted :: "model_chain \<Rightarrow> bool" where
  "is_exhausted ch = (current_index ch \<ge> length (entries ch))"

lemma advance_measure:
  "\<not> is_exhausted ch \<Longrightarrow> advance ch = (True, ch') \<Longrightarrow>
     length (entries ch') - current_index ch' < length (entries ch) - current_index ch"
  by (auto simp: advance_def is_exhausted_def usize_sub_def split: if_splits)


section \<open>ModelFallback\<close>

text \<open>\<^verbatim>\<open>i32\<close> multiplication in a release build.\<close>

definition i32_wrap :: "int \<Rightarrow> int" where
  "i32_wrap x = (x + 2 ^ 31) mod 2 ^ 32 - 2 ^ 31"

record model_fallback =
  chain :: model_chain
  fb_config :: fallback_config

definition fallback_new :: "fallback_config \<Rightarrow> model_fallback" where
  "fallback_new cfg = \<lparr>chain = chain_new, fb_config = cfg\<rparr>"

definition with_chain :: "model_chain \<Rightarrow> model_fallback \<Rightarrow> model_fallback" where
  "with_chain ch f = f\<lparr>chain := ch\<rparr>"

definition fallback_add_model :: "provider_type \<Rightarrow> string \<Rightarrow> int \<Rightarrow> model_fallback \<Rightarrow> model_fallback" where
  "fallback_add_model p m pr f = f\<lparr>chain := add_model p m pr (chain f)\<rparr>"

definition chain_failed :: "int \<Rightarrow> agent_error" where
  "chain_failed attempts =
     ModelError (''All models in chain failed after '' @ show_int attempts @ '' attempts'')"

text \<open>The loop of \<^verbatim>\<open>execute_with_agent\<close>.  \<^verbatim>\<open>chain.current()\<close> is \<^verbatim>\<open>Some\<close> whenever the chain is not
  exhausted, so the last equation's \<^const>\<open>None\<close> branch is never taken.  The entry itself is only
  logged.\<close>

function exec_loop ::
  "('ag \<Rightarrow> string \<Rightarrow> (agent_error, string) result \<times> 'ag) \<Rightarrow> string \<Rightarrow> int \<Rightarrow> int \<Rightarrow> model_chain \<Rightarrow> 'ag
    \<Rightarrow> (agent_error, string) result \<times> model_chain \<times> 'ag" where
  "exec_loop run inp mx attempts ch ag =
     (if \<not> is_exhausted ch \<and> attempts < mx then
        case chain_current ch of
          None \<Rightarrow> (Inl (chain_failed attempts), ch, ag)
        | Some entry \<Rightarrow>
            (case run ag inp of
               (Inr res, ag') \<Rightarrow> (Inr res, chain_reset ch, ag')
             | (Inl e, ag') \<Rightarrow>
                 (case advance ch of
                    (False, ch') \<Rightarrow> (Inl (chain_failed (attempts + 1)), ch', ag')
                  | (True, ch') \<Rightarrow> exec_loop run inp mx (attempts + 1) ch' ag'))
      else (Inl (chain_failed attempts), ch, ag))"
  by pat_completeness auto
termination
  by (relation "measure (\<lambda>(run, inp, mx, attempts, ch, ag). length (entries ch) - current_index ch)")
    (auto intro: advance_measure)

declare exec_loop.simps [simp del]

definition execute_with_agent ::
  "('ag \<Rightarrow> string \<Rightarrow> (agent_error, string) result \<times> 'ag) \<Rightarrow> model_fallback \<Rightarrow> 'ag \<Rightarrow> string
    \<Rightarrow> (agent_error, string) result \<times> model_fallback \<times> 'ag" where
  "execute_with_agent run f ag inp =
     (if \<not> fb_enabled (fb_config f) then (Inl (ModelError ''Fallback not enabled''), f, ag)
      else let ch = chain_reset (chain f);
               mx = i32_wrap (fb_max_retries (fb_config f) * int (length (entries ch)));
               (r, ch', ag') = exec_loop run inp mx 0 ch ag
           in (r, f\<lparr>chain := ch'\<rparr>, ag'))"

definition get_chain_status :: "(provider_type \<Rightarrow> string) \<Rightarrow> model_fallback \<Rightarrow> (string \<times> string \<times> bool) list" where
  "get_chain_status show_provider f =
     map (\<lambda>(i, e). (entry_model e, show_provider (entry_provider e), i = current_index (chain f)))
       (enumerate 0 (entries (chain f)))"


subsection \<open>Facts\<close>

text \<open>Running the agent \<open>n\<close> times on the same input until the first success: the reference for the
  loop.\<close>

fun retry_spec ::
  "('ag \<Rightarrow> string \<Rightarrow> (agent_error, string) result \<times> 'ag) \<Rightarrow> string \<Rightarrow> nat \<Rightarrow> 'ag
    \<Rightarrow> string option \<times> 'ag" where
  "retry_spec run inp 0 ag = (None, ag)"
| "retry_spec run inp (Suc n) ag =
     (case run ag inp of (Inr res, ag') \<Rightarrow> (Some res, ag') | (Inl e, ag') \<Rightarrow> retry_spec run inp n ag')"

lemma exec_loop_retry:
  assumes "current_index ch < length (entries ch)" and "length (entries ch) \<le> 2 ^ 64"
    and "mx = attempts + int k" and "0 < k" and "n = min k (length (entries ch) - current_index ch)"
  shows "(case exec_loop run inp mx attempts ch ag of (r, ch', ag') \<Rightarrow>
      (case r of Inr res \<Rightarrow> Some res | Inl _ \<Rightarrow> None, ag')
       = retry_spec run inp n ag
      \<and> entries ch' = entries ch
      \<and> (\<forall>e. r = Inl e \<longrightarrow> e = chain_failed (attempts + int n)))"
  using assms
proof (induction k arbitrary: attempts ch ag n)
  case (Suc k)
  have cur: "chain_current ch = Some (entries ch ! current_index ch)" and ne: "\<not> is_exhausted ch"
    using Suc.prems(1) by (auto simp: chain_current_def is_exhausted_def)
  have lt: "attempts < mx"
    using Suc.prems(3) by simp
  obtain m where n: "n = Suc m"
    using Suc.prems(1,5) by (metis (no_types, lifting) Suc_diff_Suc min_Suc_Suc)
  obtain oc ag1 where run: "run ag inp = (oc, ag1)" by (cases "run ag inp")
  show ?case
  proof (cases oc)
    case (Inr res)
    then show ?thesis
      using cur ne lt run n by (simp add: exec_loop.simps [of run inp mx attempts ch ag] chain_reset_def)
  next
    case (Inl e)
    show ?thesis
    proof (cases "current_index ch + 1 < length (entries ch)")
      case False
      then have adv: "advance ch = (False, ch)" and "m = 0"
        using Suc.prems(1,5) n by (auto simp: advance_def usize_sub_def)
      then show ?thesis
        using cur ne lt run Inl n by (simp add: exec_loop.simps [of run inp mx attempts ch ag])
    next
      case True
      let ?ch = "ch\<lparr>current_index := current_index ch + 1\<rparr>"
      have adv: "advance ch = (True, ?ch)"
        using True by (auto simp: advance_def usize_sub_def)
      have unf: "exec_loop run inp mx attempts ch ag = exec_loop run inp mx (attempts + 1) ?ch ag1"
        using cur ne lt run Inl adv by (simp add: exec_loop.simps [of run inp mx attempts ch ag])
      show ?thesis
      proof (cases "k = 0")
        case True
        then have "m = 0" using Suc.prems(5) n by simp
        moreover have "exec_loop run inp mx (attempts + 1) ?ch ag1 = (Inl (chain_failed (attempts + 1)), ?ch, ag1)"
          using True Suc.prems(3) by (subst exec_loop.simps) simp
        ultimately show ?thesis
          using unf run Inl n by simp
      next
        case False
        have "m = min k (length (entries ?ch) - current_index ?ch)"
          using Suc.prems(5) n by simp
        then show ?thesis
          using Suc.IH [of ?ch "attempts + 1" m ag1] \<open>current_index ch + 1 < length (entries ch)\<close>
            False Suc.prems(2,3) unf run Inl n
          by (auto simp: add.assoc split: prod.splits)
      qed
    qed
  qed
qed simp

lemma execute_retry:
  assumes "fb_enabled (fb_config f)" and "entries (chain f) \<noteq> []" and "0 < fb_max_retries (fb_config f)"
    and "fb_max_retries (fb_config f) * int (length (entries (chain f))) < 2 ^ 31"
  shows "case execute_with_agent run f ag inp of (r, f', ag') \<Rightarrow>
      (case r of Inr res \<Rightarrow> Some res | Inl _ \<Rightarrow> None, ag') = retry_spec run inp (length (entries (chain f))) ag
      \<and> entries (chain f') = entries (chain f)
      \<and> (\<forall>e. r = Inl e \<longrightarrow> e = chain_failed (int (length (entries (chain f)))))"
proof -
  let ?len = "length (entries (chain f))" and ?ch = "chain_reset (chain f)"
  let ?p = "fb_max_retries (fb_config f) * int ?len"
  have len: "0 < ?len" using assms(2) by simp
  have ge: "int ?len \<le> ?p"
    using assms(3) by (simp add: mult_le_cancel_right1)
  have small: "?len \<le> 2 ^ 64"
    using ge assms(4) by (simp add: order.strict_trans1)
  have wrap: "i32_wrap ?p = ?p"
    using ge assms(4) by (simp add: i32_wrap_def)
  have "min (nat ?p) (length (entries ?ch) - current_index ?ch) = ?len"
    using ge by (simp add: chain_reset_def)
  then show ?thesis
    using exec_loop_retry [of ?ch "0 + int (nat ?p)" 0 "nat ?p" ?len run inp ag] assms(1,4) len ge wrap small
    by (simp add: execute_with_agent_def chain_reset_def split: prod.splits)
qed


section \<open>Properties\<close>

text \<open>Fail-over picks an available candidate and reports honestly.  When the fallback executor
  succeeds, the answer is the outcome of running the reported candidate, which is in the list and
  was not in cooldown at its turn; its cooldown entry is cleared; and the reported attempts are
  the failures of candidates that stand before it, in order.\<close>

theorem fallback_success_reports_winner:
  assumes "run_with_fallback cfg s run now = (Inr r, s', now')" and "run_time_ok run"
  shows "\<exists>pre c post t sc fs. candidates cfg = pre @ c # post \<and> now \<le> t
    \<and> fr_provider r = cand_provider c \<and> fr_model r = cand_model c
    \<and> is_cooled_down sc (candidate_key c) (cooldown_secs cfg) t
    \<and> run (cand_provider c) (cand_model c) t = (Inr (fr_result r), now')
    \<and> hm_get s' (candidate_key c) = None
    \<and> fr_attempts r = map (\<lambda>(d, e). failed_attempt d e) fs \<and> subseq (map fst fs) pre"
  using fallback_loop_success [OF assms(1) [unfolded run_with_fallback_def] assms(2)]
  by (auto simp: clear_key_def) blast

definition flaky_run :: "nat candidate_run" where
  "flaky_run p m t = (if p = ''a'' then (Inl (ModelError ''down''), t + 5) else (Inr 7, t + 5))"

theorem fallback_success_reports_winner_witness:
  "\<exists>r s' now'. run_with_fallback
      (default_fallback_config\<lparr>candidates := [\<lparr>cand_provider = ''a'', cand_model = ''x''\<rparr>,
         \<lparr>cand_provider = ''b'', cand_model = ''y''\<rparr>]\<rparr>) [] flaky_run 0 = (Inr r, s', now')
    \<and> hm_get s' (fr_provider r @ '':'' @ fr_model r) = None"
proof -
  let ?cfg = "default_fallback_config\<lparr>candidates := [\<lparr>cand_provider = ''a'', cand_model = ''x''\<rparr>,
         \<lparr>cand_provider = ''b'', cand_model = ''y''\<rparr>]\<rparr>"
  obtain r s' now' where r: "run_with_fallback ?cfg [] flaky_run 0 = (Inr r, s', now')"
    by (simp add: run_with_fallback_def default_fallback_config_def flaky_run_def is_cooled_down_def
        mark_failed_def candidate_key_def)
  have "run_time_ok flaky_run"
    by (simp add: run_time_ok_def flaky_run_def)
  from fallback_success_reports_winner [OF r this] r show ?thesis
    by (fastforce simp: candidate_key_def)
qed

text \<open>C37: circuit breaking.  A call on a fresh tracker in which every candidate fails leaves each of
  them in cooldown: any later call that starts afterwards but before the period is over runs no candidate at
  all, whatever the closure would do, and changes nothing.\<close>

theorem fallback_circuit_breaker:
  assumes "run_with_fallback cfg [] run now = (Inl e, s', now')" and "run_time_ok run"
    and "now' \<le> later" and "later < now + cooldown_secs cfg * 1000"
  shows "run_with_fallback cfg s' run2 later =
     (Inl (ModelError (''All 0 fallback candidates exhausted'')), s', later)"
proof -
  have later: "now \<le> later"
    using fallback_loop_marks [OF assms(1) [unfolded run_with_fallback_def] assms(2), of now] assms(3) by auto
  have marked: "hm_get s' (candidate_key c) \<noteq> None \<and> (\<forall>t. hm_get s' (candidate_key c) = Some t \<longrightarrow> now \<le> t)"
    if "c \<in> set (candidates cfg)" for c
    using fallback_loop_marks [OF assms(1) [unfolded run_with_fallback_def] assms(2), of now] that by auto
  have "\<not> is_cooled_down s' (candidate_key c) (cooldown_secs cfg) later" if c: "c \<in> set (candidates cfg)" for c
  proof -
    obtain t where t: "hm_get s' (candidate_key c) = Some t" "now \<le> t"
      using marked [OF c] by auto
    obtain cd where cd: "cooldown_secs cfg = Suc cd"
      using assms(4) later by (cases "cooldown_secs cfg") auto
    have "later < t + Suc cd * 1000"
      using assms(4) t(2) cd by simp
    then show ?thesis
      using t(1) cd elapsed_secs_less [of later t cd] by (simp add: is_cooled_down_def not_le)
  qed
  then show ?thesis
    using fallback_loop_all_blocked [of "candidates cfg" s' cfg later run2 "[]"]
    by (simp add: run_with_fallback_def)
qed

theorem fallback_circuit_breaker_witness:
  "fst (run_with_fallback
      (default_fallback_config\<lparr>candidates := [\<lparr>cand_provider = ''a'', cand_model = ''x''\<rparr>]\<rparr>)
      [(''a:x'', 5)] flaky_run 2000) = Inl (ModelError ''All 0 fallback candidates exhausted'')"
proof -
  let ?cfg = "default_fallback_config\<lparr>candidates := [\<lparr>cand_provider = ''a'', cand_model = ''x''\<rparr>]\<rparr>"
  have "run_with_fallback ?cfg [] flaky_run 0 =
      (Inl (ModelError ''All 1 fallback candidates exhausted''), [(''a:x'', 5)], 1005)"
    by (simp add: run_with_fallback_def default_fallback_config_def flaky_run_def is_cooled_down_def
        mark_failed_def candidate_key_def)
  moreover have "run_time_ok flaky_run"
    by (simp add: run_time_ok_def flaky_run_def)
  ultimately show ?thesis
    using fallback_circuit_breaker [of ?cfg flaky_run 0 _ "[(''a:x'', 5)]" 1005 2000 flaky_run]
    by (simp add: default_fallback_config_def)
qed

text \<open>The chain fallback is a plain retry.  With fallback enabled, a non-empty chain and a
  positive retry count (both small enough for their product to fit an \<^verbatim>\<open>i32\<close>), executing with the chain is the same
  as running the agent on the input up to as many times as the chain has entries, until the first
  success; neither the entries' models nor the retry count matter, and the chain's entries are
  not changed.\<close>

theorem chain_is_plain_retry:
  assumes "fb_enabled (fb_config f)" and "entries (chain f) \<noteq> []" and "0 < fb_max_retries (fb_config f)"
    and "fb_max_retries (fb_config f) * int (length (entries (chain f))) < 2 ^ 31"
  shows "case execute_with_agent run f ag inp of (r, f', ag') \<Rightarrow>
      (case r of Inr res \<Rightarrow> Some res | Inl _ \<Rightarrow> None, ag') = retry_spec run inp (length (entries (chain f))) ag
      \<and> entries (chain f') = entries (chain f)
      \<and> (\<forall>e. r = Inl e \<longrightarrow> e = chain_failed (int (length (entries (chain f)))))"
  using assms by (rule execute_retry)

definition third_time :: "nat \<Rightarrow> string \<Rightarrow> (agent_error, string) result \<times> nat" where
  "third_time n inp = (if n < 2 then (Inl (ModelError ''busy''), n + 1) else (Inr inp, n + 1))"

theorem chain_is_plain_retry_witness:
  "fst (execute_with_agent third_time
      (fallback_add_model OpenAi ''a'' 1 (fallback_add_model Xai ''b'' 2 (fallback_add_model Qwen ''c'' 3
        (fallback_new default_fallback_config)))) 0 ''hi'') = Inr ''hi''"
proof -
  let ?f = "fallback_add_model OpenAi ''a'' 1 (fallback_add_model Xai ''b'' 2 (fallback_add_model Qwen ''c'' 3
        (fallback_new default_fallback_config)))"
  have len: "length (entries (chain ?f)) = 3"
    by (simp add: fallback_add_model_def fallback_new_def add_model_def chain_new_def)
  have cfg: "fb_config ?f = default_fallback_config"
    by (simp add: fallback_add_model_def fallback_new_def)
  have ne: "entries (chain ?f) \<noteq> []"
    using len by (metis list.size(3) zero_neq_numeral)
  have "retry_spec third_time ''hi'' 3 0 = (Some ''hi'', 3)"
    by (simp add: third_time_def numeral_3_eq_3)
  then show ?thesis
    using chain_is_plain_retry [of ?f third_time "''hi''" 0] len ne cfg
    by (auto simp: default_fallback_config_def split: prod.splits sum.splits)
qed

lemma sorted_dropWhile_low:
  assumes "sorted_wrt (\<lambda>a b. priority a \<ge> priority b) xs" and "e \<in> set (dropWhile (\<lambda>e. priority e \<ge> pr) xs)"
  shows "priority e < pr"
  using assms by (induction xs) (auto split: if_splits)

lemma sort_append_last:
  assumes "sorted_wrt (\<lambda>a b. priority a \<ge> priority b) xs"
  shows "sort_key (\<lambda>e. - priority e) (xs @ [x]) =
    takeWhile (\<lambda>e. priority e \<ge> priority x) xs @ x # dropWhile (\<lambda>e. priority e \<ge> priority x) xs"
    (is "_ = ?tw @ x # ?dw")
proof (rule properties_for_sort_key)
  have xs: "?tw @ ?dw = xs" by (rule takeWhile_dropWhile_id)
  have tw: "\<forall>e \<in> set ?tw. priority x \<le> priority e" by (auto dest: set_takeWhileD)
  have dw: "\<forall>e \<in> set ?dw. priority e < priority x" using sorted_dropWhile_low [OF assms] by blast
  have flt: "filter Q xs = filter Q ?tw @ filter Q ?dw" for Q
    by (simp flip: filter_append)
  show "mset (?tw @ x # ?dw) = mset (xs @ [x])"
    using arg_cong [OF xs, of mset] by (metis add_mset_add_single mset.simps(1,2) mset_append union_mset_add_mset_right)
  show "filter (\<lambda>y. - priority k = - priority y) (?tw @ x # ?dw) = filter (\<lambda>y. - priority k = - priority y) (xs @ [x])"
    if "k \<in> set (?tw @ x # ?dw)" for k
  proof (cases "priority k = priority x")
    case True
    then have "filter (\<lambda>y. - priority k = - priority y) ?dw = []"
      using dw by (auto simp: filter_empty_conv)
    then show ?thesis
      using flt True by simp
  next
    case False
    then show ?thesis
      using flt by simp
  qed
  have "sorted_wrt (\<lambda>a b. priority a \<ge> priority b) (?tw @ ?dw)"
    using assms xs by simp
  then show "sorted (map (\<lambda>e. - priority e) (?tw @ x # ?dw))"
    using tw dw by (fastforce simp: sorted_wrt_append sorted_wrt_map less_imp_le)
qed

text \<open>The chain is kept in priority order, and equal priorities keep insertion order.  Starting
  from a chain in order, adding a model puts it behind every entry of the same or a higher priority and
  before every entry of a lower one, and leaves the others where they are.\<close>

theorem add_model_inserts_by_priority:
  assumes "sorted_wrt (\<lambda>a b. priority a \<ge> priority b) (entries ch)"
  shows "entries (add_model p m pr ch) =
      takeWhile (\<lambda>e. priority e \<ge> pr) (entries ch)
      @ \<lparr>entry_provider = p, entry_model = m, priority = pr\<rparr>
      # dropWhile (\<lambda>e. priority e \<ge> pr) (entries ch)
    \<and> sorted_wrt (\<lambda>a b. priority a \<ge> priority b) (entries (add_model p m pr ch))"
proof
  show "entries (add_model p m pr ch) =
      takeWhile (\<lambda>e. priority e \<ge> pr) (entries ch)
      @ \<lparr>entry_provider = p, entry_model = m, priority = pr\<rparr>
      # dropWhile (\<lambda>e. priority e \<ge> pr) (entries ch)"
    using sort_append_last [OF assms] by (simp add: add_model_def)
  have "sorted (map (\<lambda>e. - priority e) (entries (add_model p m pr ch)))"
    by (simp add: add_model_def)
  then show "sorted_wrt (\<lambda>a b. priority a \<ge> priority b) (entries (add_model p m pr ch))"
    by (simp add: sorted_wrt_map)
qed

theorem add_model_inserts_by_priority_witness:
  "map entry_model (entries (add_model Xai ''b'' 1 (add_model OpenAi ''a'' 1 chain_new))) = [''a'', ''b'']"
proof -
  have "entries (add_model OpenAi ''a'' 1 chain_new) = [\<lparr>entry_provider = OpenAi, entry_model = ''a'', priority = 1\<rparr>]"
    by (simp add: add_model_def chain_new_def)
  then show ?thesis
    using add_model_inserts_by_priority [of "add_model OpenAi ''a'' 1 chain_new" Xai "''b''" 1] by simp
qed

end
