(* ===== verification/Subagent.thy ===== *)
theory Subagent
  imports Prelude
begin

text \<open>
  \<^verbatim>\<open>agent-core/src/subagent.rs\<close>: subagents, their registry and the background task that runs one.
  The run of the inner agent (provider, tools, timeout, panic) is the environment: its outcome is
  an argument of the step that consumes it.  Registry operations and the writes of the background
  tasks each hold the registry's lock once, so they are the atomic steps of \<open>reg_step\<close>, in any
  order.
\<close>

section \<open>Subagents\<close>

datatype subagent_status =
  SaPending | SaInitializing | SaReady | SaRunning | SaCompleted | SaFailed | SaTerminated

record subagent_config =
  sc_name :: string
  sc_description :: "string option"
  sc_system_prompt :: string
  sc_model :: string
  sc_provider :: string
  sc_max_iterations :: "int option"
  sc_timeout_seconds :: "int option"
  sc_capabilities :: "string list"

definition subagent_config_new :: "string \<Rightarrow> string \<Rightarrow> string \<Rightarrow> string \<Rightarrow> subagent_config" where
  "subagent_config_new name system_prompt model provider =
     \<lparr>sc_name = name, sc_description = None, sc_system_prompt = system_prompt, sc_model = model,
      sc_provider = provider, sc_max_iterations = Some 10, sc_timeout_seconds = Some 300,
      sc_capabilities = []\<rparr>"

definition with_description :: "string \<Rightarrow> subagent_config \<Rightarrow> subagent_config" where
  "with_description d c = c\<lparr>sc_description := Some d\<rparr>"

definition with_capabilities :: "string list \<Rightarrow> subagent_config \<Rightarrow> subagent_config" where
  "with_capabilities cs c = c\<lparr>sc_capabilities := cs\<rparr>"

record subagent =
  sa_id :: string
  sa_config :: subagent_config
  sa_status :: subagent_status
  sa_parent :: "string option"
  sa_created_at :: nat
  sa_started_at :: "nat option"
  sa_completed_at :: "nat option"
  sa_result :: "string option"
  sa_error :: "string option"

definition subagent_new :: "string \<Rightarrow> nat \<Rightarrow> subagent_config \<Rightarrow> subagent" where
  "subagent_new uuid now config =
     \<lparr>sa_id = uuid, sa_config = config, sa_status = SaPending, sa_parent = None, sa_created_at = now,
      sa_started_at = None, sa_completed_at = None, sa_result = None, sa_error = None\<rparr>"

definition with_parent :: "string \<Rightarrow> subagent \<Rightarrow> subagent" where
  "with_parent p sa = sa\<lparr>sa_parent := Some p\<rparr>"

definition sa_is_completed :: "subagent \<Rightarrow> bool" where
  "sa_is_completed sa = (sa_status sa \<in> {SaCompleted, SaFailed, SaTerminated})"

definition set_running :: "nat \<Rightarrow> subagent \<Rightarrow> subagent" where
  "set_running now sa = sa\<lparr>sa_status := SaRunning, sa_started_at := Some now\<rparr>"

definition set_completed :: "string \<Rightarrow> nat \<Rightarrow> subagent \<Rightarrow> subagent" where
  "set_completed res now sa =
     sa\<lparr>sa_status := SaCompleted, sa_completed_at := Some now, sa_result := Some res\<rparr>"

definition set_failed :: "string \<Rightarrow> nat \<Rightarrow> subagent \<Rightarrow> subagent" where
  "set_failed err now sa =
     sa\<lparr>sa_status := SaFailed, sa_completed_at := Some now, sa_error := Some err\<rparr>"

definition sa_terminate :: "nat \<Rightarrow> subagent \<Rightarrow> subagent" where
  "sa_terminate now sa = sa\<lparr>sa_status := SaTerminated, sa_completed_at := Some now\<rparr>"

lemmas sa_ops = set_running_def set_completed_def set_failed_def sa_terminate_def


section \<open>The registry\<close>

type_synonym registry = "(string, subagent) hash_map"

definition reg_register :: "subagent \<Rightarrow> registry \<Rightarrow> string \<times> registry" where
  "reg_register sa r = (sa_id sa, hm_insert (sa_id sa) sa r)"

definition reg_get :: "registry \<Rightarrow> string \<Rightarrow> subagent option" where
  "reg_get r i = hm_get r i"

definition reg_update :: "subagent \<Rightarrow> registry \<Rightarrow> registry" where
  "reg_update sa r = hm_insert (sa_id sa) sa r"

definition reg_remove :: "string \<Rightarrow> registry \<Rightarrow> registry" where
  "reg_remove i r = hm_remove i r"

definition reg_list :: "registry \<Rightarrow> subagent list" where
  "reg_list r = map snd r"

definition reg_list_by_parent :: "string \<Rightarrow> registry \<Rightarrow> subagent list" where
  "reg_list_by_parent p r = filter (\<lambda>a. sa_parent a = Some p) (map snd r)"

definition reg_list_by_status :: "subagent_status \<Rightarrow> registry \<Rightarrow> subagent list" where
  "reg_list_by_status s r = filter (\<lambda>a. sa_status a = s) (map snd r)"

definition reg_count :: "registry \<Rightarrow> nat" where
  "reg_count r = length r"

definition reg_clear_completed :: "registry \<Rightarrow> registry" where
  "reg_clear_completed r = hm_retain (\<lambda>_ a. \<not> sa_is_completed a) r"

definition reg_terminate :: "string \<Rightarrow> nat \<Rightarrow> registry \<Rightarrow> bool \<times> registry" where
  "reg_terminate i now r =
     (case hm_get r i of
        Some sa \<Rightarrow> if \<not> sa_is_completed sa then (True, hm_insert i (sa_terminate now sa) r) else (False, r)
      | None \<Rightarrow> (False, r))"


section \<open>The background task\<close>

text \<open>What running the inner agent ends with: its result, its error (a timeout included), or a panic.\<close>

datatype run_outcome = RunOk string | RunErr string | RunPanic "string option"

definition spawn_register :: "string \<Rightarrow> nat \<Rightarrow> subagent_config \<Rightarrow> string option \<Rightarrow> registry \<Rightarrow> string \<times> registry" where
  "spawn_register uuid now config parent r =
     (let sa = subagent_new uuid now config
      in reg_register (case parent of Some p \<Rightarrow> with_parent p sa | None \<Rightarrow> sa) r)"

text \<open>First write of the task: mark running, whatever the status is.\<close>

definition task_start :: "string \<Rightarrow> nat \<Rightarrow> registry \<Rightarrow> registry" where
  "task_start i now r = hm_modify i (set_running now) r"

text \<open>Last write of the task: the outcome, unless the subagent was terminated.\<close>

definition outcome_update :: "run_outcome \<Rightarrow> nat \<Rightarrow> subagent \<Rightarrow> subagent" where
  "outcome_update oc now sa =
     (if sa_status sa = SaTerminated then sa
      else case oc of
             RunOk res \<Rightarrow> set_completed res now sa
           | RunErr e \<Rightarrow> set_failed e now sa
           | RunPanic m \<Rightarrow> set_failed (''Panic: '' @ (case m of Some t \<Rightarrow> t | None \<Rightarrow> ''unknown panic'')) now sa)"

definition task_finish :: "string \<Rightarrow> run_outcome \<Rightarrow> nat \<Rightarrow> registry \<Rightarrow> registry" where
  "task_finish i oc now r = hm_modify i (outcome_update oc now) r"

text \<open>The inner agent's iteration limit: a positive \<^verbatim>\<open>max_iterations\<close> overrides the default of 32.\<close>

definition spawn_max_iterations :: "subagent_config \<Rightarrow> nat" where
  "spawn_max_iterations c =
     (case sc_max_iterations c of Some v \<Rightarrow> if v > 0 then nat v else 32 | None \<Rightarrow> 32)"

text \<open>One poll of the loop of \<^verbatim>\<open>spawn_and_wait\<close>; \<^const>\<open>None\<close> means the loop continues.\<close>

definition wait_poll :: "string \<Rightarrow> registry \<Rightarrow> (string, string) result option" where
  "wait_poll i r =
     (case reg_get r i of
        Some sa \<Rightarrow>
          (case sa_status sa of
             SaCompleted \<Rightarrow> Some (Inr (case sa_result sa of Some x \<Rightarrow> x | None \<Rightarrow> []))
           | SaFailed \<Rightarrow> Some (Inl (case sa_error sa of Some e \<Rightarrow> e | None \<Rightarrow> []))
           | SaTerminated \<Rightarrow> Some (Inl ''Terminated'')
           | _ \<Rightarrow> None)
      | None \<Rightarrow> Some (Inl ''Subagent not found''))"

text \<open>
  The global state: the registry, the tasks not started yet and the tasks between their two writes.
\<close>

record reg_state =
  rg_map :: registry
  rg_spawned :: "string set"
  rg_started :: "string set"

definition reg_init :: reg_state where
  "reg_init = \<lparr>rg_map = [], rg_spawned = {}, rg_started = {}\<rparr>"

inductive reg_step :: "reg_state \<Rightarrow> reg_state \<Rightarrow> bool" where
  rs_spawn: "uuid \<notin> rg_spawned s \<union> rg_started s \<Longrightarrow> hm_get (rg_map s) uuid = None \<Longrightarrow>
     reg_step s (s\<lparr>rg_map := snd (spawn_register uuid now config parent (rg_map s)),
                   rg_spawned := insert uuid (rg_spawned s)\<rparr>)"
| rs_start: "i \<in> rg_spawned s \<Longrightarrow>
     reg_step s (s\<lparr>rg_map := task_start i now (rg_map s), rg_spawned := rg_spawned s - {i},
                   rg_started := insert i (rg_started s)\<rparr>)"
| rs_finish: "i \<in> rg_started s \<Longrightarrow>
     reg_step s (s\<lparr>rg_map := task_finish i oc now (rg_map s), rg_started := rg_started s - {i}\<rparr>)"
| rs_terminate: "reg_step s (s\<lparr>rg_map := snd (reg_terminate i now (rg_map s))\<rparr>)"
| rs_clear: "reg_step s (s\<lparr>rg_map := reg_clear_completed (rg_map s)\<rparr>)"

inductive_cases reg_stepE: "reg_step s t"


section \<open>Invariant\<close>

text \<open>Every entry sits under its own id, and a subagent is unfinished only while a task for it is
  alive; a finished one carries its completion time and its result or error.\<close>

definition sa_ok :: "subagent \<Rightarrow> bool" where
  "sa_ok sa =
     ((sa_is_completed sa \<longrightarrow> sa_completed_at sa \<noteq> None)
      \<and> (sa_status sa = SaCompleted \<longrightarrow> sa_result sa \<noteq> None)
      \<and> (sa_status sa = SaFailed \<longrightarrow> sa_error sa \<noteq> None))"

definition reg_inv :: "reg_state \<Rightarrow> bool" where
  "reg_inv s =
     (hm_wf (rg_map s) \<and> rg_spawned s \<inter> rg_started s = {}
      \<and> (\<forall>i sa. hm_get (rg_map s) i = Some sa \<longrightarrow>
           sa_ok sa \<and> (\<not> sa_is_completed sa \<longrightarrow> i \<in> rg_spawned s \<union> rg_started s)))"

lemma reg_invI:
  assumes "hm_wf (rg_map s)" and "rg_spawned s \<inter> rg_started s = {}"
    and "\<And>i sa. hm_get (rg_map s) i = Some sa \<Longrightarrow>
       sa_ok sa \<and> (\<not> sa_is_completed sa \<longrightarrow> i \<in> rg_spawned s \<union> rg_started s)"
  shows "reg_inv s"
  using assms by (simp add: reg_inv_def)

lemma sa_ok_ops:
  "sa_ok sa \<Longrightarrow> sa_ok (set_running now sa)"
  "sa_ok (sa_terminate now sa)" "sa_is_completed (sa_terminate now sa)"
  "sa_ok sa \<Longrightarrow> sa_ok (outcome_update oc now sa)" "sa_is_completed (outcome_update oc now sa)"
  by (auto simp: sa_ok_def sa_is_completed_def sa_ops outcome_update_def split: run_outcome.splits)

lemma reg_inv_step:
  assumes "reg_step s t" and inv: "reg_inv s"
  shows "reg_inv t"
  using assms(1)
proof (cases rule: reg_step.cases)
  case (rs_spawn uuid now config parent)
  then show ?thesis
    using inv
    by (auto intro!: reg_invI simp: reg_inv_def spawn_register_def reg_register_def with_parent_def
        subagent_new_def sa_ok_def sa_is_completed_def Let_def split: option.splits if_splits)
next
  case (rs_start i now)
  then show ?thesis
    using inv by (auto intro!: reg_invI simp: reg_inv_def task_start_def sa_ok_ops split: if_splits)
next
  case (rs_finish i oc now)
  then show ?thesis
    using inv by (auto intro!: reg_invI simp: reg_inv_def task_finish_def sa_ok_ops split: if_splits)
next
  case (rs_terminate i now)
  then show ?thesis
    using inv by (auto intro!: reg_invI simp: reg_inv_def reg_terminate_def sa_ok_ops split: option.splits if_splits)
next
  case rs_clear
  then show ?thesis
    using inv by (auto intro!: reg_invI simp: reg_inv_def reg_clear_completed_def split: option.splits if_splits)
qed

lemma reg_inv_init: "reg_inv reg_init"
  by (simp add: reg_inv_def reg_init_def)

interpretation reg_sys: invariant_system "\<lambda>s. s = reg_init" reg_step reg_inv
  by unfold_locales (simp add: reg_inv_init, rule reg_inv_step)


section \<open>Properties\<close>

text \<open>C34: a waiting caller is never left behind.  In every reachable state of the registry, under
  any interleaving of spawns, task writes, terminations and cleanups, a subagent for which no task
  is alive any more has an answer: the poll of \<^verbatim>\<open>spawn_and_wait\<close> returns.\<close>

theorem waiter_gets_answer:
  assumes "reg_step\<^sup>*\<^sup>* reg_init s" and "i \<notin> rg_spawned s \<union> rg_started s"
  shows "wait_poll i (rg_map s) \<noteq> None"
proof -
  have "reg_inv s"
    using reg_sys.reachable_inv [OF refl assms(1)] .
  show ?thesis
  proof (cases "hm_get (rg_map s) i")
    case None
    then show ?thesis by (simp add: wait_poll_def reg_get_def)
  next
    case (Some sa)
    then have "sa_is_completed sa"
      using \<open>reg_inv s\<close> assms(2) by (auto simp: reg_inv_def)
    then show ?thesis
      using Some by (cases "sa_status sa") (simp_all add: wait_poll_def reg_get_def sa_is_completed_def)
  qed
qed

theorem waiter_gets_answer_witness:
  "wait_poll ''x'' (rg_map reg_init) \<noteq> None"
  using waiter_gets_answer [of reg_init "''x''"] by (simp add: reg_init_def)

text \<open>A completed outcome is final and truthful.  Once a task has finished, a subagent that
  was not terminated reports exactly the outcome of its run to the waiting caller, and neither a
  later termination request nor a second finish write changes the report of a finished run.\<close>

theorem finish_reports_outcome:
  assumes "hm_get r i = Some sa" and "sa_status sa \<noteq> SaTerminated"
  shows "wait_poll i (task_finish i oc now r) =
      Some (case oc of
         RunOk res \<Rightarrow> Inr res
       | RunErr e \<Rightarrow> Inl e
       | RunPanic m \<Rightarrow> Inl (''Panic: '' @ (case m of Some t \<Rightarrow> t | None \<Rightarrow> ''unknown panic'')))
    \<and> snd (reg_terminate i now' (task_finish i oc now r)) = task_finish i oc now r"
  using assms
  by (auto simp: wait_poll_def reg_get_def task_finish_def outcome_update_def sa_ops
      reg_terminate_def sa_is_completed_def split: run_outcome.splits option.splits)

theorem finish_reports_outcome_witness:
  "wait_poll ''x'' (task_finish ''x'' (RunOk ''done'') 5
     (snd (spawn_register ''x'' 1 (subagent_config_new ''n'' ''p'' ''m'' ''q'') None []))) = Some (Inr ''done'')"
proof -
  let ?r = "snd (spawn_register ''x'' 1 (subagent_config_new ''n'' ''p'' ''m'' ''q'') None [])"
  obtain sa where "hm_get ?r ''x'' = Some sa" "sa_status sa \<noteq> SaTerminated"
    by (auto simp: spawn_register_def reg_register_def subagent_new_def)
  then show ?thesis
    using finish_reports_outcome [of ?r "''x''" sa "RunOk ''done''" 5] by simp
qed

text \<open>A termination request can be lost.  The task's first write marks the subagent running
  without looking at its status, so a subagent terminated between its registration and that write
  runs to completion: the registry accepts the termination (it answers true) and later reports the
  run's result as if it had never been terminated.\<close>

theorem early_termination_lost:
  "\<exists>s. reg_step\<^sup>*\<^sup>* reg_init s
     \<and> fst (reg_terminate i t1 (rg_map s))
     \<and> (\<exists>s'. reg_step\<^sup>*\<^sup>* (s\<lparr>rg_map := snd (reg_terminate i t1 (rg_map s))\<rparr>) s'
          \<and> wait_poll i (rg_map s') = Some (Inr res))"
proof -
  let ?s1 = "reg_init\<lparr>rg_map := snd (spawn_register i 0 (subagent_config_new [] [] [] []) None (rg_map reg_init)),
     rg_spawned := insert i (rg_spawned reg_init)\<rparr>"
  have s1: "reg_step reg_init ?s1"
    by (rule rs_spawn) (auto simp: reg_init_def)
  let ?s2 = "?s1\<lparr>rg_map := snd (reg_terminate i t1 (rg_map ?s1))\<rparr>"
  let ?s3 = "?s2\<lparr>rg_map := task_start i t1 (rg_map ?s2), rg_spawned := rg_spawned ?s2 - {i},
     rg_started := insert i (rg_started ?s2)\<rparr>"
  have s3: "reg_step ?s2 ?s3"
    by (rule rs_start) simp
  let ?s4 = "?s3\<lparr>rg_map := task_finish i (RunOk res) t1 (rg_map ?s3), rg_started := rg_started ?s3 - {i}\<rparr>"
  have s4: "reg_step ?s3 ?s4"
    by (rule rs_finish) simp
  have acc: "fst (reg_terminate i t1 (rg_map ?s1))"
    by (simp add: reg_terminate_def spawn_register_def reg_register_def subagent_new_def sa_is_completed_def)
  obtain sa where sa: "hm_get (rg_map ?s3) i = Some sa" "sa_status sa = SaRunning"
    by (auto simp: task_start_def reg_terminate_def spawn_register_def reg_register_def
        subagent_new_def sa_is_completed_def sa_ops)
  have ans: "wait_poll i (rg_map ?s4) = Some (Inr res)"
    using finish_reports_outcome [of "rg_map ?s3" i sa "RunOk res" t1] sa by simp
  show ?thesis
    using s1 s3 s4 acc ans by (intro exI [of _ ?s1] conjI exI [of _ ?s4]) auto
qed

end
