(* ===== verification/Task_Graph.thy ===== *)
theory Task_Graph
  imports Subagent "HOL-Library.Multiset"
begin

text \<open>
  \<^verbatim>\<open>agent-core/src/task_graph.rs\<close>: nodes, the graph builder and its validation (Kahn's algorithm over
  the \<^verbatim>\<open>depends_on\<close> edges), \<^verbatim>\<open>ready_nodes\<close> and \<^verbatim>\<open>resolve_input\<close>.

  \<open>iter\<close> is the order in which a \<^verbatim>\<open>HashMap\<close> is iterated, which Rust leaves open: an arbitrary function
  that permutes the entries (\<open>iter_ok\<close>).  Validation returns \<^const>\<open>None\<close> where the code would panic
  (\<^verbatim>\<open>expect\<close>) or the fuel of the queue loop would run out; the properties show that neither happens.
  The fuel is the number of nodes plus one: a node enters the queue at most once.
\<close>

section \<open>Nodes and graphs\<close>

record task_node =
  node_id :: string
  node_config :: subagent_config
  depends_on :: "string list"
  on_success :: "string list"
  on_failure :: "string list"
  input_from :: "string option"
  input_template :: "string option"
  base_input :: "string option"

record task_graph =
  nodes :: "task_node list"

definition graph_new :: task_graph where
  "graph_new = \<lparr>nodes = []\<rparr>"

definition with_node :: "task_node \<Rightarrow> task_graph \<Rightarrow> task_graph" where
  "with_node n g = g\<lparr>nodes := nodes g @ [n]\<rparr>"


section \<open>Validation\<close>

fun check_ids :: "string list \<Rightarrow> task_node list \<Rightarrow> (string, unit) result" where
  "check_ids ids [] = Inr ()"
| "check_ids ids (n # ns) =
     (let id = trim (node_id n) in
      if id = [] then Inl ''task graph node id cannot be empty''
      else if id \<in> set ids then Inl (''task graph has duplicate node id '' @ quoted id)
      else check_ids (id # ids) ns)"

definition check_known :: "string list \<Rightarrow> task_node \<Rightarrow> string \<Rightarrow> string list \<Rightarrow> (string, unit) result" where
  "check_known id_set n what targets =
     (case find (\<lambda>t. t \<notin> set id_set) targets of
        None \<Rightarrow> Inr ()
      | Some t \<Rightarrow> Inl (''node '' @ quoted (node_id n) @ what @ quoted t))"

definition check_node :: "string list \<Rightarrow> task_node \<Rightarrow> (string, unit) result" where
  "check_node id_set n =
     (case check_known id_set n '' depends on unknown node '' (depends_on n) of
        Inl e \<Rightarrow> Inl e
      | Inr _ \<Rightarrow>
     (case check_known id_set n '' on_success targets unknown node '' (on_success n) of
        Inl e \<Rightarrow> Inl e
      | Inr _ \<Rightarrow>
     (case check_known id_set n '' on_failure targets unknown node '' (on_failure n) of
        Inl e \<Rightarrow> Inl e
      | Inr _ \<Rightarrow>
      check_known id_set n '' input_from references unknown node ''
        (case input_from n of None \<Rightarrow> [] | Some from \<Rightarrow> [from]))))"

fun check_refs :: "string list \<Rightarrow> task_node list \<Rightarrow> (string, unit) result" where
  "check_refs id_set [] = Inr ()"
| "check_refs id_set (n # ns) =
     (case check_node id_set n of Inl e \<Rightarrow> Inl e | Inr _ \<Rightarrow> check_refs id_set ns)"

definition build_indegree :: "task_node list \<Rightarrow> (string, nat) hash_map" where
  "build_indegree ns = fold (\<lambda>n m. hm_insert (node_id n) (length (depends_on n)) m) ns []"

definition edge_list :: "(string, string list) hash_map \<Rightarrow> string \<Rightarrow> string list" where
  "edge_list edges x = (case hm_get edges x of None \<Rightarrow> [] | Some cs \<Rightarrow> cs)"

definition push_edge ::
  "string \<Rightarrow> string \<Rightarrow> (string, string list) hash_map \<Rightarrow> (string, string list) hash_map" where
  "push_edge i dep edges = hm_insert dep (edge_list edges dep @ [i]) edges"

definition build_edges :: "task_node list \<Rightarrow> (string, string list) hash_map" where
  "build_edges ns = fold (\<lambda>n. fold (push_edge (node_id n)) (depends_on n)) ns []"

fun relax ::
  "string list \<Rightarrow> (string, nat) hash_map \<Rightarrow> string list \<Rightarrow> ((string, nat) hash_map \<times> string list) option" where
  "relax [] indegree q = Some (indegree, q)"
| "relax (child # cs) indegree q =
     (case hm_get indegree child of
        None \<Rightarrow> None
      | Some d \<Rightarrow>
          (let nxt = d - 1
           in relax cs (hm_insert child nxt indegree) (if nxt = 0 then q @ [child] else q)))"

fun kahn ::
  "nat \<Rightarrow> (string, string list) hash_map \<Rightarrow> (string, nat) hash_map \<Rightarrow> string list \<Rightarrow> nat \<Rightarrow> nat option" where
  "kahn 0 edges indegree q visited = None"
| "kahn (Suc fuel) edges indegree [] visited = Some visited"
| "kahn (Suc fuel) edges indegree (i # q) visited =
     (case hm_get edges i of
        None \<Rightarrow> kahn fuel edges indegree q (visited + 1)
      | Some children \<Rightarrow>
          (case relax children indegree q of
             None \<Rightarrow> None
           | Some (indegree', q') \<Rightarrow> kahn fuel edges indegree' q' (visited + 1)))"

type_synonym iter_order = "(string \<times> nat) list \<Rightarrow> (string \<times> nat) list"

definition iter_ok :: "iter_order \<Rightarrow> bool" where
  "iter_ok iter = (\<forall>m. mset (iter m) = mset m)"

definition validate_dag :: "iter_order \<Rightarrow> task_node list \<Rightarrow> (string, unit) result option" where
  "validate_dag iter ns =
     (let indegree = build_indegree ns;
          q = map fst (filter (\<lambda>(_, degree). degree = 0) (iter indegree))
      in case kahn (Suc (length ns)) (build_edges ns) indegree q 0 of
           None \<Rightarrow> None
         | Some visited \<Rightarrow>
             Some (if visited \<noteq> length ns then Inl ''task graph dependency cycle detected'' else Inr ()))"

definition validate :: "iter_order \<Rightarrow> task_graph \<Rightarrow> (string, unit) result option" where
  "validate iter g =
     (case check_ids [] (nodes g) of
        Inl e \<Rightarrow> Some (Inl e)
      | Inr _ \<Rightarrow>
          (case check_refs (map node_id (nodes g)) (nodes g) of
             Inl e \<Rightarrow> Some (Inl e)
           | Inr _ \<Rightarrow> validate_dag iter (nodes g)))"


section \<open>Scheduling queries\<close>

definition ready_nodes :: "task_graph \<Rightarrow> (string, string) hash_map \<Rightarrow> string set \<Rightarrow> task_node list" where
  "ready_nodes g completed failed =
     filter (\<lambda>n. \<not> hm_contains_key completed (node_id n) \<and> node_id n \<notin> failed
                 \<and> list_all (\<lambda>dep. hm_contains_key completed dep) (depends_on n)) (nodes g)"

definition resolve_input :: "task_node \<Rightarrow> (string, string) hash_map \<Rightarrow> string \<Rightarrow> string" where
  "resolve_input n completed initial =
     (case input_from n of
        Some from_id \<Rightarrow>
          (let output = (case hm_get completed from_id of Some s \<Rightarrow> s | None \<Rightarrow> [])
           in case input_template n of
                Some template \<Rightarrow> replace_all ''{output}'' output template
              | None \<Rightarrow> output)
      | None \<Rightarrow> (case base_input n of Some base \<Rightarrow> base | None \<Rightarrow> initial))"


section \<open>The static checks\<close>

definition ids_ok :: "task_node list \<Rightarrow> bool" where
  "ids_ok ns = (distinct (map (trim \<circ> node_id) ns) \<and> (\<forall>n \<in> set ns. trim (node_id n) \<noteq> []))"

definition node_refs :: "task_node \<Rightarrow> string list" where
  "node_refs n = depends_on n @ on_success n @ on_failure n
     @ (case input_from n of None \<Rightarrow> [] | Some from \<Rightarrow> [from])"

definition refs_ok :: "task_node list \<Rightarrow> bool" where
  "refs_ok ns = (\<forall>n \<in> set ns. set (node_refs n) \<subseteq> node_id ` set ns)"

lemma check_ids_iff:
  "check_ids ids ns = Inr () \<longleftrightarrow> ids_ok ns \<and> set (map (trim \<circ> node_id) ns) \<inter> set ids = {}"
  by (induction ns arbitrary: ids) (auto simp: ids_ok_def Let_def)

lemma check_known_iff: "check_known id_set n what ts = Inr () \<longleftrightarrow> set ts \<subseteq> set id_set"
proof (cases "find (\<lambda>t. t \<notin> set id_set) ts")
  case None
  then show ?thesis
    using find_None_iff [of "\<lambda>t. t \<notin> set id_set" ts] by (auto simp: check_known_def)
next
  case (Some t)
  then have "t \<in> set ts - set id_set"
    by (auto simp: find_Some_iff)
  with Some show ?thesis
    by (auto simp: check_known_def)
qed

lemma result_then_ok:
  "(case r of Inl e \<Rightarrow> Inl e | Inr _ \<Rightarrow> r2) = Inr () \<longleftrightarrow> r = Inr () \<and> r2 = (Inr () :: (string, unit) result)"
  by (cases r) auto

lemma check_node_iff: "check_node id_set n = Inr () \<longleftrightarrow> set (node_refs n) \<subseteq> set id_set"
  by (auto simp: check_node_def result_then_ok check_known_iff node_refs_def split: option.splits)

lemma check_refs_iff:
  "check_refs id_set ns = Inr () \<longleftrightarrow> (\<forall>n \<in> set ns. set (node_refs n) \<subseteq> set id_set)"
  by (induction ns) (simp_all add: result_then_ok check_node_iff)

lemma ids_ok_distinct: "ids_ok ns \<Longrightarrow> distinct (map node_id ns)"
  by (auto simp: ids_ok_def distinct_map inj_on_def)


section \<open>Correctness of the cycle check\<close>

text \<open>The dependencies of the node with a given id, and the dependency relation.\<close>

definition deps_of :: "task_node list \<Rightarrow> string \<Rightarrow> string list" where
  "deps_of ns i = concat (map depends_on (filter (\<lambda>n. node_id n = i) ns))"

definition dep_rel :: "task_node list \<Rightarrow> (string \<times> string) set" where
  "dep_rel ns = {(d, i). d \<in> set (deps_of ns i)}"

lemma deps_of_simps [simp]:
  "deps_of [] i = []"
  "deps_of (n # ns) i = (if node_id n = i then depends_on n @ deps_of ns i else deps_of ns i)"
  by (auto simp: deps_of_def)

lemma deps_of_unknown: "i \<notin> node_id ` set ns \<Longrightarrow> deps_of ns i = []"
  by (induction ns) auto

lemma deps_of_node:
  "distinct (map node_id ns) \<Longrightarrow> n \<in> set ns \<Longrightarrow> deps_of ns (node_id n) = depends_on n"
  by (induction ns) (auto simp: deps_of_unknown)

lemma deps_of_known: "refs_ok ns \<Longrightarrow> d \<in> set (deps_of ns i) \<Longrightarrow> d \<in> node_id ` set ns"
  by (fastforce simp: deps_of_def refs_ok_def node_refs_def)

lemma build_indegree_get:
  "distinct (map node_id ns) \<Longrightarrow>
     hm_get (fold (\<lambda>n m. hm_insert (node_id n) (length (depends_on n)) m) ns m) i =
       (if i \<in> node_id ` set ns then Some (length (deps_of ns i)) else hm_get m i)"
  by (induction ns arbitrary: m) (auto simp: deps_of_unknown)

lemma build_indegree_wf: "hm_wf m \<Longrightarrow> hm_wf (fold (\<lambda>n m. hm_insert (node_id n) (length (depends_on n)) m) ns m)"
  by (induction ns arbitrary: m) auto

lemma edge_list_push: "edge_list (push_edge i d edges) x = (if x = d then edge_list edges d @ [i] else edge_list edges x)"
  by (cases "x = d") (simp_all add: push_edge_def edge_list_def)

lemma edge_list_Nil [simp]: "edge_list [] x = []"
  by (simp add: edge_list_def)

lemma push_edges_count:
  "count_list (edge_list (fold (push_edge i) ds edges) x) c =
     count_list (edge_list edges x) c + (if c = i then count_list ds x else 0)"
proof (induction ds arbitrary: edges)
  case (Cons d ds)
  have "count_list (edge_list (push_edge i d edges) x) c =
      count_list (edge_list edges x) c + (if c = i \<and> x = d then 1 else 0)"
    by (cases "x = d"; cases "c = i") (auto simp: edge_list_push)
  then show ?case
    using Cons.IH [of "push_edge i d edges"] by simp
qed simp

lemma build_edges_count:
  "count_list (edge_list (build_edges ns) x) c = count_list (deps_of ns c) x"
proof -
  have "count_list (edge_list (fold (\<lambda>n. fold (push_edge (node_id n)) (depends_on n)) ns e) x) c =
      count_list (edge_list e x) c + count_list (deps_of ns c) x" for e
  proof (induction ns arbitrary: e)
    case (Cons n ns)
    show ?case
      using Cons.IH [of "fold (push_edge (node_id n)) (depends_on n) e"]
      by (cases "node_id n = c") (simp_all add: push_edges_count)
  qed simp
  then show ?thesis
    by (simp add: build_edges_def)
qed

text \<open>One round of relaxing the children of a node.\<close>

lemma relax_spec:
  assumes "\<And>c. c \<in> set cs \<Longrightarrow> \<exists>d. hm_get ind c = Some d \<and> count_list cs c \<le> d"
  shows "\<exists>ind' new. relax cs ind q = Some (ind', q @ new)
    \<and> (\<forall>c. hm_get ind' c = map_option (\<lambda>d. d - count_list cs c) (hm_get ind c))
    \<and> distinct new \<and> set new = {c \<in> set cs. hm_get ind c = Some (count_list cs c)}"
  using assms
proof (induction cs arbitrary: ind q)
  case Nil
  then show ?case by (simp add: option.map_ident)
next
  case (Cons c cs)
  obtain d where d: "hm_get ind c = Some d" "Suc (count_list cs c) \<le> d"
    using Cons.prems [of c] by auto
  let ?ind = "hm_insert c (d - 1) ind" and ?q = "if d - 1 = 0 then q @ [c] else q"
  have pre: "\<exists>e. hm_get ?ind x = Some e \<and> count_list cs x \<le> e" if "x \<in> set cs" for x
    using Cons.prems [of x] that d by auto
  obtain ind' new where ih: "relax cs ?ind ?q = Some (ind', ?q @ new)"
      "\<And>x. hm_get ind' x = map_option (\<lambda>d. d - count_list cs x) (hm_get ?ind x)"
      "distinct new" "set new = {x \<in> set cs. hm_get ?ind x = Some (count_list cs x)}"
    using Cons.IH [OF pre, of ?q] by blast
  have get: "hm_get ind' x = map_option (\<lambda>d. d - count_list (c # cs) x) (hm_get ind x)" for x
    using ih(2) [of x] d by auto
  have ind: "hm_get ?ind x = Some (count_list cs x) \<longleftrightarrow> hm_get ind x = Some (count_list (c # cs) x)" for x
    using d by auto
  show ?case
  proof (cases "d = 1")
    case True
    then have c: "c \<notin> set cs" using d(2) by (simp add: count_list_0_iff)
    have "relax (c # cs) ind q = Some (ind', q @ (c # new))"
      using ih(1) d(1) True by simp
    moreover have "distinct (c # new)" using ih(3,4) c by simp
    moreover have "set (c # new) = {x \<in> set (c # cs). hm_get ind x = Some (count_list (c # cs) x)}"
      using ih(4) ind c d True by (auto simp: count_list_0_iff)
    ultimately show ?thesis using get by blast
  next
    case False
    have "relax (c # cs) ind q = Some (ind', q @ new)"
      using ih(1) d False by simp
    moreover have "set new = {x \<in> set (c # cs). hm_get ind x = Some (count_list (c # cs) x)}"
      using ih(4) ind d False by (auto simp: count_list_0_iff)
    ultimately show ?thesis using get ih(3) by blast
  qed
qed

text \<open>The loop invariant: \<open>p\<close> is the list of the nodes taken from the queue so far.\<close>

definition open_deps :: "task_node list \<Rightarrow> string list \<Rightarrow> string \<Rightarrow> string list" where
  "open_deps ns p i = filter (\<lambda>d. d \<notin> set p) (deps_of ns i)"

definition kahn_inv :: "task_node list \<Rightarrow> string list \<Rightarrow> (string, nat) hash_map \<Rightarrow> string list \<Rightarrow> bool" where
  "kahn_inv ns p ind q =
     ((\<forall>i. hm_get ind i = (if i \<in> node_id ` set ns then Some (length (open_deps ns p i)) else None))
      \<and> distinct (p @ q) \<and> set (p @ q) \<subseteq> node_id ` set ns
      \<and> (\<forall>i \<in> node_id ` set ns. i \<in> set (p @ q) \<longleftrightarrow> open_deps ns p i = [])
      \<and> (\<forall>k < length p. set (deps_of ns (p ! k)) \<subseteq> set (take k p)))"

lemma length_filter_count:
  "x \<notin> P \<Longrightarrow> length (filter (\<lambda>d. d \<notin> P) xs) = count_list xs x + length (filter (\<lambda>d. d \<notin> insert x P) xs)"
  by (induction xs) auto

lemma open_deps_snoc:
  assumes "x \<notin> set p"
  shows "length (open_deps ns p i) = count_list (deps_of ns i) x + length (open_deps ns (p @ [x]) i)"
  using length_filter_count [OF assms, of "deps_of ns i"] by (simp add: open_deps_def)

lemma kahn_inv_step:
  assumes inv: "kahn_inv ns p ind (x # q)"
    and rl: "relax (edge_list (build_edges ns) x) ind q = Some (ind', q')"
  shows "kahn_inv ns (p @ [x]) ind' q'"
proof -
  let ?cs = "edge_list (build_edges ns) x" and ?N = "node_id ` set ns"
  have get: "hm_get ind i = (if i \<in> ?N then Some (length (open_deps ns p i)) else None)" for i
    using inv by (simp add: kahn_inv_def)
  have x: "x \<notin> set p" "x \<notin> set q" "x \<in> ?N" "open_deps ns p x = []" and dist: "distinct (p @ q)"
    and sub: "set (p @ q) \<subseteq> ?N"
    using inv by (auto simp: kahn_inv_def)
  have qiff: "i \<in> set (p @ x # q) \<longleftrightarrow> open_deps ns p i = []" if "i \<in> ?N" for i
    using inv that by (auto simp: kahn_inv_def)
  have cnt: "count_list ?cs i = count_list (deps_of ns i) x" for i
    by (rule build_edges_count)
  have len: "length (open_deps ns p i) = count_list ?cs i + length (open_deps ns (p @ [x]) i)" for i
    using open_deps_snoc [OF x(1)] cnt by simp
  have inN: "i \<in> ?N" if "i \<in> set ?cs" for i
  proof (rule ccontr)
    assume "i \<notin> ?N"
    then have "count_list ?cs i = 0" using cnt by (simp add: deps_of_unknown)
    with that show False by (simp add: count_list_0_iff)
  qed
  have pre: "\<exists>d. hm_get ind c = Some d \<and> count_list ?cs c \<le> d" if "c \<in> set ?cs" for c
    using inN [OF that] get len [of c] by simp
  obtain new where q': "q' = q @ new"
    and get': "\<And>i. hm_get ind' i = map_option (\<lambda>d. d - count_list ?cs i) (hm_get ind i)"
    and new: "distinct new" "set new = {c \<in> set ?cs. hm_get ind c = Some (count_list ?cs c)}"
    using relax_spec [of ?cs ind q, OF pre] rl by auto
  have new_iff: "i \<in> set new \<longleftrightarrow> i \<in> set ?cs \<and> open_deps ns (p @ [x]) i = []" for i
    using new(2) get inN len [of i] by auto
  have fresh: "i \<notin> set (p @ x # q)" if "i \<in> set ?cs" for i
  proof -
    have "length (open_deps ns p i) \<noteq> 0"
      using len [of i] that by (simp add: count_list_0_iff)
    then show ?thesis
      using qiff inN [OF that] by auto
  qed
  have empty_iff: "open_deps ns (p @ [x]) i = [] \<longleftrightarrow> open_deps ns p i = [] \<or> i \<in> set new" for i
    using len [of i] new_iff [of i] count_list_0_iff [of ?cs i] by auto
  have deps_x: "set (deps_of ns x) \<subseteq> set p"
    using x(4) by (auto simp: open_deps_def filter_empty_conv)
  have order: "set (deps_of ns ((p @ [x]) ! k)) \<subseteq> set (take k (p @ [x]))" if "k < length (p @ [x])" for k
    using inv that deps_x by (cases "k < length p") (auto simp: kahn_inv_def nth_append less_Suc_eq)
  have "hm_get ind' i = (if i \<in> ?N then Some (length (open_deps ns (p @ [x]) i)) else None)" for i
    using get' [of i] get [of i] len [of i] by simp
  moreover have "distinct ((p @ [x]) @ q')" "set ((p @ [x]) @ q') \<subseteq> ?N"
    using dist x(1,2,3) sub new(1) new_iff fresh inN q' by auto
  moreover have "i \<in> set ((p @ [x]) @ q') \<longleftrightarrow> open_deps ns (p @ [x]) i = []" if "i \<in> ?N" for i
    using qiff [OF that] empty_iff [of i] q' by auto
  ultimately show ?thesis
    using order unfolding kahn_inv_def by blast
qed

lemma kahn_inv_relax:
  assumes "kahn_inv ns p ind (x # q)"
  shows "\<exists>ind' q'. relax (edge_list (build_edges ns) x) ind q = Some (ind', q')"
proof -
  have "\<exists>d. hm_get ind c = Some d \<and> count_list (edge_list (build_edges ns) x) c \<le> d"
    if "c \<in> set (edge_list (build_edges ns) x)" for c
  proof -
    have x: "x \<notin> set p" using assms by (auto simp: kahn_inv_def)
    have cnt: "count_list (edge_list (build_edges ns) x) c = count_list (deps_of ns c) x"
      by (rule build_edges_count)
    then have "deps_of ns c \<noteq> []"
      using that by (auto simp: count_list_0_iff dest: arg_cong [of _ _ "\<lambda>n. n = 0"])
    then have "c \<in> node_id ` set ns"
      using deps_of_unknown by blast
    then show ?thesis
      using assms cnt open_deps_snoc [OF x, of ns c] by (simp add: kahn_inv_def)
  qed
  then show ?thesis
    using relax_spec [of "edge_list (build_edges ns) x" ind q] by blast
qed

lemma kahn_run:
  assumes "kahn_inv ns p ind q" and "length ns < fuel + length p" and "distinct (map node_id ns)"
  shows "\<exists>p' ind'. kahn fuel (build_edges ns) ind q (length p) = Some (length p') \<and> kahn_inv ns p' ind' []"
  using assms(1,2)
proof (induction fuel arbitrary: p ind q)
  case 0
  have "length p \<le> length ns"
    using 0(1) distinct_card [of p] card_mono [of "node_id ` set ns" "set p"]
      card_image_le [of "set ns" node_id] card_length [of ns]
    by (auto simp: kahn_inv_def)
  with 0 show ?case by simp
next
  case (Suc fuel)
  show ?case
  proof (cases q)
    case Nil
    with Suc.prems show ?thesis by auto
  next
    case (Cons x xs)
    obtain ind' q' where rl: "relax (edge_list (build_edges ns) x) ind xs = Some (ind', q')"
      using kahn_inv_relax Suc.prems(1) Cons by blast
    have "kahn (Suc fuel) (build_edges ns) ind q (length p) = kahn fuel (build_edges ns) ind' q' (length (p @ [x]))"
      using rl Cons by (auto simp: edge_list_def split: option.splits)
    moreover have "kahn_inv ns (p @ [x]) ind' q'"
      using kahn_inv_step [OF Suc.prems(1) [unfolded Cons] rl] .
    ultimately show ?thesis
      using Suc.IH [of "p @ [x]" ind' q'] Suc.prems(2) by simp
  qed
qed

text \<open>At the end of the loop all nodes were visited exactly when the dependencies are acyclic.\<close>

lemma kahn_end_acyclic:
  assumes inv: "kahn_inv ns p ind []" and all: "set p = node_id ` set ns"
  shows "acyclic (dep_rel ns)"
proof -
  let ?pos = "\<lambda>i. LEAST k. k < length p \<and> p ! k = i"
  have dist: "distinct p" and order: "\<And>k. k < length p \<Longrightarrow> set (deps_of ns (p ! k)) \<subseteq> set (take k p)"
    using inv by (auto simp: kahn_inv_def)
  have pos: "?pos (p ! k) = k" if "k < length p" for k
    using that dist by (intro Least_equality) (auto simp: nth_eq_iff_index_eq)
  have "?pos d < ?pos i" if "(d, i) \<in> dep_rel ns" for d i
  proof -
    have "d \<in> set (deps_of ns i)" using that by (simp add: dep_rel_def)
    then have "i \<in> set p" using all deps_of_unknown by fastforce
    then obtain k where k: "k < length p" "p ! k = i" by (auto simp: in_set_conv_nth)
    then have "d \<in> set (take k p)"
      using order [OF k(1)] \<open>d \<in> set (deps_of ns i)\<close> by blast
    then obtain j where "j < k" "p ! j = d"
      by (auto simp: in_set_conv_nth)
    then show ?thesis
      using pos k by auto
  qed
  then have "dep_rel ns \<subseteq> measure ?pos" by auto
  then show ?thesis
    using wf_acyclic wf_measure wf_subset by blast
qed

lemma kahn_end_complete:
  assumes inv: "kahn_inv ns p ind []" and "acyclic (dep_rel ns)" and "refs_ok ns"
  shows "set p = node_id ` set ns"
proof (rule ccontr)
  let ?N = "node_id ` set ns"
  assume "set p \<noteq> ?N"
  then have ne: "?N - set p \<noteq> {}"
    using inv by (auto simp: kahn_inv_def)
  have "dep_rel ns \<subseteq> ?N \<times> ?N"
    using deps_of_known [OF assms(3)] deps_of_unknown by (fastforce simp: dep_rel_def)
  then have "wf (dep_rel ns)"
    using assms(2) finite_acyclic_wf finite_subset by blast
  then obtain i where i: "i \<in> ?N - set p" "\<And>d. (d, i) \<in> dep_rel ns \<Longrightarrow> d \<notin> ?N - set p"
    using ne wf_eq_minimal by (metis ex_in_conv)
  have "open_deps ns p i \<noteq> []"
    using inv i(1) by (auto simp: kahn_inv_def)
  then obtain d where "d \<in> set (deps_of ns i)" "d \<notin> set p"
    by (auto simp: open_deps_def filter_empty_conv)
  with i(2) deps_of_known [OF assms(3)] show False
    by (auto simp: dep_rel_def)
qed

lemma kahn_inv_init:
  assumes "distinct (map node_id ns)" and "iter_ok iter"
  shows "kahn_inv ns [] (build_indegree ns)
    (map fst (filter (\<lambda>(_, degree). degree = 0) (iter (build_indegree ns))))"
proof -
  let ?ind = "build_indegree ns"
  let ?q = "map fst (filter (\<lambda>(_, degree). degree = 0) (iter ?ind))"
  have get: "hm_get ?ind i = (if i \<in> node_id ` set ns then Some (length (deps_of ns i)) else None)" for i
    using build_indegree_get [OF assms(1), of "[]" i] by (simp add: build_indegree_def)
  have wf: "hm_wf ?ind"
    by (simp add: build_indegree_def build_indegree_wf)
  have perm: "mset (iter ?ind) = mset ?ind" using assms(2) by (simp add: iter_ok_def)
  have "distinct (map fst (iter ?ind))"
    using wf perm by (metis hm_wf_def mset_map mset_eq_imp_distinct_iff)
  then have dq: "distinct ?q" by (rule distinct_map_filter)
  have q0: "i \<in> set ?q \<longleftrightarrow> hm_get ?ind i = Some 0" for i
  proof -
    have "i \<in> set ?q \<longleftrightarrow> (i, 0) \<in> set (iter ?ind)" by force
    also have "\<dots> \<longleftrightarrow> (i, 0) \<in> set ?ind" using perm by (metis mset_eq_setD)
    also have "\<dots> \<longleftrightarrow> hm_get ?ind i = Some 0" using wf by (simp add: hm_wf_def)
    finally show ?thesis .
  qed
  have qN: "i \<in> set ?q \<longleftrightarrow> i \<in> node_id ` set ns \<and> deps_of ns i = []" for i
    using q0 [of i] get [of i] by (simp split: if_splits)
  then have "set ?q \<subseteq> node_id ` set ns" by blast
  with dq qN get show ?thesis
    unfolding kahn_inv_def open_deps_def by (simp del: set_map set_filter)
qed

lemma validate_dag_iff:
  assumes "ids_ok ns" and "refs_ok ns" and "iter_ok iter"
  shows "validate_dag iter ns =
    Some (if acyclic (dep_rel ns) then Inr () else Inl ''task graph dependency cycle detected'')"
proof -
  have dist: "distinct (map node_id ns)" using assms(1) by (rule ids_ok_distinct)
  obtain p ind where run: "kahn (Suc (length ns)) (build_edges ns) (build_indegree ns)
      (map fst (filter (\<lambda>(_, degree). degree = 0) (iter (build_indegree ns)))) 0 = Some (length p)"
    and inv: "kahn_inv ns p ind []"
    using kahn_run [OF kahn_inv_init [OF dist assms(3)] _ dist, of "Suc (length ns)"] by auto
  have p: "distinct p" "set p \<subseteq> node_id ` set ns" using inv by (auto simp: kahn_inv_def)
  have cardN: "card (node_id ` set ns) = length ns"
    using dist by (metis distinct_card length_map list.set_map)
  have "length p = length ns \<longleftrightarrow> set p = node_id ` set ns"
    using p cardN distinct_card [OF p(1)] card_subset_eq [of "node_id ` set ns" "set p"] by auto
  moreover have "set p = node_id ` set ns \<longleftrightarrow> acyclic (dep_rel ns)"
    using kahn_end_acyclic [OF inv] kahn_end_complete [OF inv _ assms(2)] by blast
  ultimately show ?thesis
    using run by (simp add: validate_dag_def Let_def)
qed


section \<open>Properties\<close>

text \<open>C1: validation is total and exact.  Whatever the iteration order of the hash map, validating a
  graph never panics and its queue loop ends; it accepts exactly the graphs whose trimmed ids are
  non-empty and distinct, whose references all name nodes of the graph, and whose dependency
  relation is acyclic.\<close>

theorem validate_correct:
  assumes "iter_ok iter"
  shows "\<exists>r. validate iter g = Some r
    \<and> (r = Inr () \<longleftrightarrow> ids_ok (nodes g) \<and> refs_ok (nodes g) \<and> acyclic (dep_rel (nodes g)))"
proof (cases "ids_ok (nodes g) \<and> refs_ok (nodes g)")
  case True
  then have "check_ids [] (nodes g) = Inr ()" "check_refs (map node_id (nodes g)) (nodes g) = Inr ()"
    by (simp_all add: check_ids_iff check_refs_iff refs_ok_def)
  then show ?thesis
    using True validate_dag_iff [OF _ _ assms, of "nodes g"] by (simp add: validate_def)
next
  case False
  have ids: "check_ids [] (nodes g) = Inr () \<longleftrightarrow> ids_ok (nodes g)"
    by (simp add: check_ids_iff)
  have refs: "check_refs (map node_id (nodes g)) (nodes g) = Inr () \<longleftrightarrow> refs_ok (nodes g)"
    by (simp add: check_refs_iff refs_ok_def)
  show ?thesis
    using False ids refs
    by (cases "check_ids [] (nodes g)"; cases "check_refs (map node_id (nodes g)) (nodes g)")
      (auto simp: validate_def)
qed

definition sample_node :: "string \<Rightarrow> string list \<Rightarrow> task_node" where
  "sample_node i ds =
     \<lparr>node_id = i, node_config = subagent_config_new i [] [] [], depends_on = ds, on_success = [],
      on_failure = [], input_from = None, input_template = None, base_input = None\<rparr>"

theorem validate_correct_witness:
  "iter_ok rev \<and> validate rev \<lparr>nodes = [sample_node ''a'' [''b''], sample_node ''b'' [''a'']]\<rparr> \<noteq> Some (Inr ())
   \<and> (\<exists>r. validate rev \<lparr>nodes = [sample_node ''a'' [''b''], sample_node ''b'' [''a'']]\<rparr> = Some r)"
proof -
  let ?g = "\<lparr>nodes = [sample_node ''a'' [''b''], sample_node ''b'' [''a'']]\<rparr>"
  have ok: "iter_ok rev" by (simp add: iter_ok_def)
  have "(''a'', ''a'') \<in> (dep_rel (nodes ?g))\<^sup>+"
    by (rule trancl_trans [of _ "''b''"]) (auto simp: dep_rel_def sample_node_def)
  then have "\<not> acyclic (dep_rel (nodes ?g))"
    by (auto simp: acyclic_def)
  then show ?thesis
    using validate_correct [OF ok, of ?g] ok by auto
qed

end
