(* ===== verification/Task_Runner.thy ===== *)
theory Task_Runner
  imports Task_Graph
begin

text \<open>
  \<^verbatim>\<open>TaskGraphRunner::run\<close> of \<^verbatim>\<open>agent-core/src/task_graph.rs\<close> as a step relation.  The coordinating
  loop is in one of the phases of \<open>run_phase\<close>; a spawned task holds a semaphore permit while it is
  in \<open>rn_running\<close> and gives it back when its block exits, which can happen at any time, also while
  the loop is waiting for a permit with a list of collected nodes in its hands.  What a task returns
  (the outcome of \<^verbatim>\<open>spawn_and_wait\<close>, or \<^const>\<open>None\<close> for a task that panicked) and the order in which tasks
  end and are joined are left open.  \<open>rn_log\<close> records the spawned nodes with their inputs.
\<close>

section \<open>State\<close>

datatype run_phase = Collecting | Spawning | Waiting | Finished | JoinFailed

type_synonym task_outcome = "(string, string) result option"

record runner_state =
  rn_completed :: "(string, string) hash_map"
  rn_failed :: "(string, string) hash_map"
  rn_activated :: "string set"
  rn_in_flight :: "string set"
  rn_running :: "string set"
  rn_ended :: "(string \<times> task_outcome) set"
  rn_to_spawn :: "(string \<times> subagent_config \<times> string) list"
  rn_phase :: run_phase
  rn_log :: "(string \<times> string) list"

datatype task_graph_result =
    AllSucceeded "(string, string) hash_map"
  | PartialSuccess "(string, string) hash_map" "(string, string) hash_map"

definition DEFAULT_MAX_CONCURRENT :: nat where "DEFAULT_MAX_CONCURRENT = 3"

definition with_max_concurrent :: "nat \<Rightarrow> nat" where
  "with_max_concurrent mx = max mx 1"

definition run_init :: "task_graph \<Rightarrow> runner_state" where
  "run_init g =
     \<lparr>rn_completed = [], rn_failed = [],
      rn_activated = set (map node_id (filter (\<lambda>n. depends_on n = []) (nodes g))),
      rn_in_flight = {}, rn_running = {}, rn_ended = {}, rn_to_spawn = [], rn_phase = Collecting,
      rn_log = []\<rparr>"


section \<open>The pieces of the loop\<close>

definition collect_nodes :: "task_graph \<Rightarrow> runner_state \<Rightarrow> task_node list" where
  "collect_nodes g s =
     filter (\<lambda>n. node_id n \<in> rn_activated s \<and> node_id n \<notin> rn_in_flight s)
       (ready_nodes g (rn_completed s) (set (map fst (rn_failed s))))"

definition collect :: "task_graph \<Rightarrow> string \<Rightarrow> runner_state \<Rightarrow> runner_state" where
  "collect g initial s =
     s\<lparr>rn_to_spawn := map (\<lambda>n. (node_id n, node_config n, resolve_input n (rn_completed s) initial))
          (collect_nodes g s),
       rn_phase := Spawning\<rparr>"

definition spawn_next :: "runner_state \<Rightarrow> runner_state" where
  "spawn_next s =
     (case rn_to_spawn s of
        [] \<Rightarrow> s
      | (i, c, inp) # rest \<Rightarrow>
          s\<lparr>rn_to_spawn := rest, rn_in_flight := insert i (rn_in_flight s),
            rn_running := insert i (rn_running s), rn_log := rn_log s @ [(i, inp)]\<rparr>)"

definition after_spawn :: "runner_state \<Rightarrow> runner_state" where
  "after_spawn s =
     s\<lparr>rn_phase := (if rn_running s = {} \<and> rn_ended s = {} then Finished else Waiting)\<rparr>"

definition task_ends :: "string \<Rightarrow> task_outcome \<Rightarrow> runner_state \<Rightarrow> runner_state" where
  "task_ends i oc s =
     s\<lparr>rn_running := rn_running s - {i}, rn_ended := insert (i, oc) (rn_ended s)\<rparr>"

definition targets_of :: "task_graph \<Rightarrow> (task_node \<Rightarrow> string list) \<Rightarrow> string \<Rightarrow> string list" where
  "targets_of g f i = (case find (\<lambda>n. node_id n = i) (nodes g) of Some n \<Rightarrow> f n | None \<Rightarrow> [])"

fun join_task :: "task_graph \<Rightarrow> string \<Rightarrow> task_outcome \<Rightarrow> runner_state \<Rightarrow> runner_state" where
  "join_task g i (Some (Inr output)) s =
     s\<lparr>rn_ended := rn_ended s - {(i, Some (Inr output))}, rn_in_flight := rn_in_flight s - {i},
       rn_activated := rn_activated s \<union> set (targets_of g on_success i),
       rn_completed := hm_insert i output (rn_completed s), rn_phase := Collecting\<rparr>"
| "join_task g i (Some (Inl error)) s =
     s\<lparr>rn_ended := rn_ended s - {(i, Some (Inl error))}, rn_in_flight := rn_in_flight s - {i},
       rn_activated := rn_activated s \<union> set (targets_of g on_failure i),
       rn_failed := hm_insert i error (rn_failed s), rn_phase := Collecting\<rparr>"
| "join_task g i None s = s\<lparr>rn_phase := JoinFailed\<rparr>"

definition run_result :: "runner_state \<Rightarrow> task_graph_result" where
  "run_result s =
     (if rn_failed s = [] then AllSucceeded (rn_completed s)
      else PartialSuccess (rn_completed s) (rn_failed s))"

inductive run_step :: "task_graph \<Rightarrow> nat \<Rightarrow> string \<Rightarrow> runner_state \<Rightarrow> runner_state \<Rightarrow> bool"
  for g mx initial where
  rs_collect: "rn_phase s = Collecting \<Longrightarrow> run_step g mx initial s (collect g initial s)"
| rs_spawn: "rn_phase s = Spawning \<Longrightarrow> rn_to_spawn s \<noteq> [] \<Longrightarrow> card (rn_running s) < mx
     \<Longrightarrow> run_step g mx initial s (spawn_next s)"
| rs_spawned: "rn_phase s = Spawning \<Longrightarrow> rn_to_spawn s = [] \<Longrightarrow> run_step g mx initial s (after_spawn s)"
| rs_end: "i \<in> rn_running s \<Longrightarrow> rn_phase s \<notin> {Finished, JoinFailed}
     \<Longrightarrow> run_step g mx initial s (task_ends i oc s)"
| rs_join: "rn_phase s = Waiting \<Longrightarrow> (i, oc) \<in> rn_ended s \<Longrightarrow> run_step g mx initial s (join_task g i oc s)"

inductive_cases run_stepE: "run_step g mx initial s t"

text \<open>\<^verbatim>\<open>run\<close> starts after validation, with at least one permit.\<close>

definition run_start :: "iter_order \<Rightarrow> task_graph \<Rightarrow> nat \<Rightarrow> runner_state \<Rightarrow> bool" where
  "run_start iter g mx s = (validate iter g = Some (Inr ()) \<and> 1 \<le> mx \<and> s = run_init g)"


section \<open>Invariant\<close>

abbreviation logged :: "runner_state \<Rightarrow> string set" where
  "logged s \<equiv> fst ` set (rn_log s)"

abbreviation settled :: "runner_state \<Rightarrow> string set" where
  "settled s \<equiv> fst ` set (rn_completed s) \<union> fst ` set (rn_failed s)"

abbreviation deps_done :: "task_graph \<Rightarrow> runner_state \<Rightarrow> string \<Rightarrow> bool" where
  "deps_done g s i \<equiv> set (deps_of (nodes g) i) \<subseteq> fst ` set (rn_completed s)"

text \<open>A node that the next collection would pick.\<close>

definition runnable :: "task_graph \<Rightarrow> runner_state \<Rightarrow> string \<Rightarrow> bool" where
  "runnable g s i =
     (i \<in> node_id ` set (nodes g) \<and> i \<in> rn_activated s \<and> i \<notin> rn_in_flight s \<and> i \<notin> settled s \<and> deps_done g s i)"

definition tasks_inv :: "runner_state \<Rightarrow> bool" where
  "tasks_inv s =
     (finite (rn_running s) \<and> finite (rn_ended s)
      \<and> rn_in_flight s = rn_running s \<union> fst ` rn_ended s
      \<and> rn_running s \<inter> fst ` rn_ended s = {} \<and> inj_on fst (rn_ended s)
      \<and> rn_in_flight s \<inter> settled s = {} \<and> logged s = rn_in_flight s \<union> settled s)"

definition log_inv :: "task_graph \<Rightarrow> runner_state \<Rightarrow> bool" where
  "log_inv g s =
     (distinct (map fst (rn_log s)) \<and> logged s \<subseteq> node_id ` set (nodes g)
      \<and> (\<forall>i \<in> logged s. deps_done g s i))"

definition spawn_inv :: "task_graph \<Rightarrow> runner_state \<Rightarrow> bool" where
  "spawn_inv g s =
     (let ts = map fst (rn_to_spawn s) in
      distinct ts \<and> set ts \<inter> logged s = {} \<and> set ts \<subseteq> node_id ` set (nodes g)
      \<and> (\<forall>i \<in> set ts. deps_done g s i) \<and> (rn_phase s \<noteq> Spawning \<longrightarrow> ts = [])
      \<and> (rn_phase s = Spawning \<longrightarrow> (\<forall>i. runnable g s i \<longrightarrow> i \<in> set ts)))"

definition phase_inv :: "task_graph \<Rightarrow> runner_state \<Rightarrow> bool" where
  "phase_inv g s =
     ((rn_phase s = Waiting \<longrightarrow> rn_in_flight s \<noteq> {})
      \<and> (rn_phase s = Finished \<longrightarrow> rn_in_flight s = {} \<and> (\<forall>i. \<not> runnable g s i)))"

definition run_inv :: "task_graph \<Rightarrow> nat \<Rightarrow> runner_state \<Rightarrow> bool" where
  "run_inv g mx s =
     (distinct (map node_id (nodes g)) \<and> 1 \<le> mx \<and> card (rn_running s) \<le> mx
      \<and> tasks_inv s \<and> log_inv g s \<and> spawn_inv g s \<and> phase_inv g s)"

lemmas run_inv_defs = run_inv_def tasks_inv_def log_inv_def spawn_inv_def phase_inv_def

lemma hm_keys_insert [simp]: "fst ` set (AList.update k v m) = insert k (fst ` set m)"
  by (simp add: dom_update)

lemma tasks_invD:
  assumes "tasks_inv s"
  shows "finite (rn_running s)" "finite (rn_ended s)" "rn_in_flight s = rn_running s \<union> fst ` rn_ended s"
    "rn_running s \<inter> fst ` rn_ended s = {}" "inj_on fst (rn_ended s)"
    "rn_in_flight s \<inter> settled s = {}" "logged s = rn_in_flight s \<union> settled s"
  by (insert assms [unfolded tasks_inv_def], (elim conjE, assumption)+)

lemma tasks_invI:
  assumes "finite (rn_running s)" "finite (rn_ended s)" "rn_in_flight s = rn_running s \<union> fst ` rn_ended s"
    "rn_running s \<inter> fst ` rn_ended s = {}" "inj_on fst (rn_ended s)"
    "rn_in_flight s \<inter> settled s = {}" "logged s = rn_in_flight s \<union> settled s"
  shows "tasks_inv s"
  using assms by (simp only: tasks_inv_def simp_thms)

lemma collect_nodes_iff:
  assumes "distinct (map node_id (nodes g))"
  shows "node_id ` set (collect_nodes g s) = {i. runnable g s i}"
proof -
  have "map_of m k \<noteq> None \<longleftrightarrow> k \<in> fst ` set m" for m :: "(string, string) hash_map" and k
    by (simp add: map_of_eq_None_iff)
  then have "n \<in> set (collect_nodes g s) \<longleftrightarrow> n \<in> set (nodes g) \<and> runnable g s (node_id n)" for n
    using deps_of_node [OF assms, of n]
    by (auto simp: collect_nodes_def ready_nodes_def runnable_def list_all_iff simp del: map_of_eq_None_iff)
  moreover have "\<exists>n \<in> set (nodes g). node_id n = i" if "runnable g s i" for i
    using that by (auto simp: runnable_def)
  ultimately show ?thesis
    by blast
qed

lemma run_inv_init: "run_start iter g mx s \<Longrightarrow> run_inv g mx s"
  by (auto simp: run_start_def run_inv_defs run_init_def validate_def check_ids_iff ids_ok_distinct
      split: sum.splits)

lemma run_inv_collect:
  assumes "run_inv g mx s" and "rn_phase s = Collecting"
  shows "run_inv g mx (collect g initial s)"
proof -
  have dist: "distinct (map node_id (nodes g))" using assms(1) by (simp add: run_inv_def)
  have "distinct (map node_id (collect_nodes g s))"
    using dist by (simp add: collect_nodes_def ready_nodes_def distinct_map_filter)
  moreover have ts: "map fst (rn_to_spawn (collect g initial s)) = map node_id (collect_nodes g s)"
    by (simp add: collect_def comp_def)
  moreover have "runnable g (collect g initial s) i = runnable g s i" for i
    by (simp add: runnable_def collect_def)
  ultimately have "spawn_inv g (collect g initial s)"
    using assms collect_nodes_iff [OF dist, of s] unfolding spawn_inv_def Let_def ts
    by (auto simp: collect_def runnable_def run_inv_def tasks_inv_def)
  moreover have "tasks_inv (collect g initial s) = tasks_inv s" "log_inv g (collect g initial s) = log_inv g s"
    "phase_inv g (collect g initial s)" "rn_running (collect g initial s) = rn_running s"
    by (simp_all add: tasks_inv_def log_inv_def phase_inv_def collect_def)
  ultimately show ?thesis
    using assms by (simp add: run_inv_def)
qed

lemma run_inv_spawn_next:
  assumes "run_inv g mx s" and "rn_phase s = Spawning" and "rn_to_spawn s = (i, c, inp) # rest"
    and "card (rn_running s) < mx"
  shows "run_inv g mx (spawn_next s)"
proof -
  let ?t = "spawn_next s"
  have t: "?t = s\<lparr>rn_to_spawn := rest, rn_in_flight := insert i (rn_in_flight s),
            rn_running := insert i (rn_running s), rn_log := rn_log s @ [(i, inp)]\<rparr>"
    using assms(3) by (simp add: spawn_next_def)
  have tasks: "tasks_inv s" and log: "log_inv g s" and spawn: "spawn_inv g s"
    using assms(1) by (simp_all add: run_inv_def)
  have i: "i \<notin> logged s" "i \<in> node_id ` set (nodes g)" "deps_done g s i" "i \<notin> fst ` set rest"
    using spawn assms(3) by (auto simp: spawn_inv_def Let_def)
  have inf: "i \<notin> rn_in_flight s" "i \<notin> settled s"
    using i(1) tasks by (auto simp: tasks_inv_def)
  have "tasks_inv ?t"
    using tasks i inf unfolding t tasks_inv_def by simp blast
  moreover have "log_inv g ?t"
    using log i unfolding t by (auto simp: log_inv_def)
  moreover have "spawn_inv g ?t"
    using spawn assms(2,3) i unfolding t by (auto simp: spawn_inv_def Let_def runnable_def)
  moreover have "phase_inv g ?t" "card (rn_running ?t) \<le> mx"
    using assms(2,4) tasks unfolding t by (auto simp: phase_inv_def tasks_inv_def card_insert_if)
  ultimately show ?thesis
    using assms(1) by (simp add: run_inv_def)
qed

lemma run_inv_after_spawn:
  assumes "run_inv g mx s" and "rn_phase s = Spawning" and "rn_to_spawn s = []"
  shows "run_inv g mx (after_spawn s)"
proof -
  have tasks: "tasks_inv s" and spawn: "spawn_inv g s"
    using assms(1) by (simp_all add: run_inv_def)
  have "\<not> runnable g s i" for i
    using spawn assms(2,3) by (simp add: spawn_inv_def Let_def)
  then have "\<not> runnable g (s\<lparr>rn_phase := ph\<rparr>) i" for i ph
    by (simp add: runnable_def)
  moreover have "rn_in_flight s = {} \<longleftrightarrow> rn_running s = {} \<and> rn_ended s = {}"
    using tasks by (auto simp: tasks_inv_def)
  ultimately have "phase_inv g (after_spawn s)"
    by (simp add: phase_inv_def after_spawn_def)
  moreover have "spawn_inv g (after_spawn s)"
    using assms(3) by (simp add: spawn_inv_def after_spawn_def)
  moreover have "tasks_inv (after_spawn s) = tasks_inv s" "log_inv g (after_spawn s) = log_inv g s"
    "rn_running (after_spawn s) = rn_running s"
    by (simp_all add: tasks_inv_def log_inv_def after_spawn_def)
  ultimately show ?thesis
    using assms(1) by (simp add: run_inv_def)
qed

lemma run_inv_task_ends:
  assumes "run_inv g mx s" and "i \<in> rn_running s"
  shows "run_inv g mx (task_ends i oc s)"
proof -
  have tasks: "tasks_inv s" using assms(1) by (simp add: run_inv_def)
  then have fresh: "i \<notin> fst ` rn_ended s" using assms(2) by (auto simp: tasks_inv_def)
  have "inj_on fst (insert (i, oc) (rn_ended s))"
    using tasks fresh by (force simp: tasks_inv_def inj_on_insert)
  moreover have "rn_running s - {i} \<union> insert i (fst ` rn_ended s) = rn_in_flight s"
    using tasks_invD(3) [OF tasks] assms(2) by blast
  ultimately have "tasks_inv (task_ends i oc s)"
    using tasks_invD [OF tasks] assms(2) fresh
    by (intro tasks_invI) (simp_all add: task_ends_def, blast+)
  moreover have "runnable g (task_ends i oc s) j = runnable g s j" for j
    by (simp add: runnable_def task_ends_def)
  then have "spawn_inv g (task_ends i oc s) = spawn_inv g s" "phase_inv g (task_ends i oc s) = phase_inv g s"
    "log_inv g (task_ends i oc s) = log_inv g s"
    by (simp_all add: spawn_inv_def phase_inv_def log_inv_def task_ends_def)
  moreover have "card (rn_running (task_ends i oc s)) \<le> card (rn_running s)"
    using tasks by (simp add: task_ends_def tasks_inv_def card_mono)
  ultimately show ?thesis
    using assms(1) by (simp add: run_inv_def)
qed

text \<open>A join moves one task from the in-flight set to the settled nodes, or fails.\<close>

lemma join_fields:
  assumes "oc \<noteq> None"
  shows "rn_in_flight (join_task g i oc s) = rn_in_flight s - {i}"
    "rn_ended (join_task g i oc s) = rn_ended s - {(i, oc)}"
    "rn_running (join_task g i oc s) = rn_running s" "rn_log (join_task g i oc s) = rn_log s"
    "rn_to_spawn (join_task g i oc s) = rn_to_spawn s" "rn_phase (join_task g i oc s) = Collecting"
    "settled (join_task g i oc s) = insert i (settled s)"
    "fst ` set (rn_completed s) \<subseteq> fst ` set (rn_completed (join_task g i oc s))"
  using assms by (cases "(g, i, oc, s)" rule: join_task.cases; auto)+

lemma run_inv_join:
  assumes "run_inv g mx s" and "rn_phase s = Waiting" and "(i, oc) \<in> rn_ended s"
  shows "run_inv g mx (join_task g i oc s)"
proof (cases "oc = None")
  case True
  then have "tasks_inv (join_task g i oc s) = tasks_inv s" "log_inv g (join_task g i oc s) = log_inv g s"
    "spawn_inv g (join_task g i oc s) = spawn_inv g s" "phase_inv g (join_task g i oc s)"
    using assms(2) by (simp_all add: tasks_inv_def log_inv_def spawn_inv_def phase_inv_def)
  then show ?thesis
    using assms(1) True by (simp add: run_inv_def)
next
  case False
  let ?t = "join_task g i oc s"
  note jf = join_fields [OF False, where g = g and i = i and s = s]
  have tasks: "tasks_inv s" and log: "log_inv g s" and spawn: "spawn_inv g s"
    using assms(1) by (simp_all add: run_inv_def)
  have ended: "fst ` (rn_ended s - {(i, oc)}) = fst ` rn_ended s - {i}"
    using tasks assms(3) by (force simp: tasks_inv_def inj_on_def)
  have i: "i \<in> rn_in_flight s" "i \<notin> rn_running s" "i \<notin> settled s"
  proof -
    have "i \<in> fst ` rn_ended s" using assms(3) by force
    then show "i \<in> rn_in_flight s" "i \<notin> rn_running s" "i \<notin> settled s"
      using tasks_invD(3,4,6) [OF tasks] by blast+
  qed
  have "tasks_inv ?t"
  proof (rule tasks_invI, unfold jf ended)
    show "rn_in_flight s - {i} = rn_running s \<union> (fst ` rn_ended s - {i})"
      using tasks_invD(3) [OF tasks] i(2) by blast
    show "(rn_in_flight s - {i}) \<inter> insert i (settled s) = {}"
      using tasks_invD(6) [OF tasks] by blast
    show "logged s = rn_in_flight s - {i} \<union> insert i (settled s)"
      using tasks_invD(7) [OF tasks] i(1) by blast
    show "rn_running s \<inter> (fst ` rn_ended s - {i}) = {}"
      using tasks_invD(4) [OF tasks] by blast
  qed (use tasks_invD [OF tasks] in \<open>auto intro: inj_on_diff\<close>)
  moreover have "log_inv g ?t"
    using log jf(8) unfolding log_inv_def jf(4) by blast
  moreover have "rn_to_spawn s = []"
    using spawn assms(2) by (simp add: spawn_inv_def Let_def)
  then have "spawn_inv g ?t" "phase_inv g ?t"
    by (simp_all add: spawn_inv_def phase_inv_def jf)
  ultimately show ?thesis
    using assms(1) by (simp add: run_inv_def jf)
qed

lemma run_inv_step: "run_inv g mx s \<Longrightarrow> run_step g mx initial s t \<Longrightarrow> run_inv g mx t"
  by (erule run_stepE)
    (auto simp: neq_Nil_conv intro: run_inv_collect run_inv_spawn_next run_inv_after_spawn
      run_inv_task_ends run_inv_join)

interpretation runner_sys: invariant_system "run_start iter g mx" "run_step g mx initial" "run_inv g mx"
  for iter g mx initial
  by unfold_locales (rule run_inv_init, assumption, rule run_inv_step, assumption+)


section \<open>Termination and progress\<close>

fun phase_weight :: "run_phase \<Rightarrow> nat" where
  "phase_weight Collecting = 3"
| "phase_weight Spawning = 2"
| "phase_weight Waiting = 1"
| "phase_weight Finished = 0"
| "phase_weight JoinFailed = 0"

text \<open>Every node pays for its spawn, its end and its join; every join for one more round.\<close>

definition work_left :: "task_graph \<Rightarrow> runner_state \<Rightarrow> nat" where
  "work_left g s =
     5 * (length (nodes g) - length (rn_log s)) + 4 * card (rn_running s) + 3 * card (rn_ended s)
     + phase_weight (rn_phase s)"

lemma log_length:
  assumes "run_inv g mx s"
  shows "length (rn_log s) + length (rn_to_spawn s) \<le> length (nodes g)"
proof -
  let ?xs = "map fst (rn_log s) @ map fst (rn_to_spawn s)"
  have "distinct ?xs" "set ?xs \<subseteq> node_id ` set (nodes g)"
    using assms by (auto simp: run_inv_def log_inv_def spawn_inv_def Let_def)
  then have "length ?xs \<le> card (node_id ` set (nodes g))"
    by (metis card_mono distinct_card finite_imageI finite_set)
  also have "\<dots> \<le> length (nodes g)"
    by (metis card_image_le card_length finite_set le_trans)
  finally show ?thesis by simp
qed

lemma work_decreases:
  assumes inv: "run_inv g mx s" and "run_step g mx initial s t"
  shows "work_left g t < work_left g s"
  using assms(2)
proof cases
  case rs_collect
  then show ?thesis by (simp add: work_left_def collect_def)
next
  case rs_spawn
  obtain i c inp rest where ts: "rn_to_spawn s = (i, c, inp) # rest"
    using rs_spawn(3) by (metis list.exhaust prod_cases3)
  have fin: "finite (rn_running s)" and new: "i \<notin> rn_running s"
  proof -
    have tasks: "tasks_inv s" using inv by (simp add: run_inv_def)
    have "i \<notin> logged s"
      using inv ts by (auto simp: run_inv_def spawn_inv_def Let_def)
    then show "finite (rn_running s)" "i \<notin> rn_running s"
      using tasks_invD [OF tasks] by blast+
  qed
  show ?thesis
    using rs_spawn(1) ts fin new log_length [OF inv] by (simp add: work_left_def spawn_next_def)
next
  case rs_spawned
  then show ?thesis by (simp add: work_left_def after_spawn_def)
next
  case (rs_end i oc)
  have tasks: "tasks_inv s" using inv by (simp add: run_inv_def)
  have "card (rn_running s - {i}) + 1 = card (rn_running s)"
    using tasks_invD(1) [OF tasks] rs_end(2) by (metis Suc_eq_plus1 card_Suc_Diff1)
  moreover have "card (insert (i, oc) (rn_ended s)) = card (rn_ended s) + 1"
    using tasks_invD(2,4) [OF tasks] rs_end(2) by (subst card_insert_disjoint) force+
  ultimately show ?thesis
    using rs_end(1) by (simp add: work_left_def task_ends_def)
next
  case (rs_join i oc)
  have tasks: "tasks_inv s" using inv by (simp add: run_inv_def)
  have crd: "card (rn_ended s - {(i, oc)}) + 1 = card (rn_ended s)"
    using tasks_invD(2) [OF tasks] rs_join(3) by (metis Suc_eq_plus1 card_Suc_Diff1)
  show ?thesis
  proof (cases "oc = None")
    case True
    then show ?thesis
      using rs_join(1,2) by (simp add: work_left_def)
  next
    case False
    show ?thesis
      using rs_join(1,2) crd join_fields [OF False, where g = g and i = i and s = s] by (simp add: work_left_def)
  qed
qed

lemma steps_work:
  "(run_step g mx initial ^^ n) s t \<Longrightarrow> run_inv g mx s \<Longrightarrow> run_inv g mx t \<and> n + work_left g t \<le> work_left g s"
proof (induction n arbitrary: t)
  case (Suc n)
  then obtain u where u: "(run_step g mx initial ^^ n) s u" "run_step g mx initial u t"
    by (auto elim: relpowp_Suc_E)
  then have "run_inv g mx u" "n + work_left g u \<le> work_left g s"
    using Suc by blast+
  then show ?case
    using work_decreases [OF _ u(2)] run_inv_step [OF _ u(2)] by fastforce
qed simp

lemma run_progress:
  assumes inv: "run_inv g mx s" and "rn_phase s \<notin> {Finished, JoinFailed}"
  shows "\<exists>t. run_step g mx initial s t"
proof (cases "rn_phase s")
  case Collecting
  then show ?thesis using rs_collect by blast
next
  case Spawning
  show ?thesis
  proof (cases "rn_to_spawn s = [] \<or> card (rn_running s) < mx")
    case True
    then show ?thesis using Spawning rs_spawn rs_spawned by blast
  next
    case False
    then have "rn_running s \<noteq> {}"
      using inv by (auto simp: run_inv_def)
    then show ?thesis using Spawning rs_end by (metis assms(2) ex_in_conv)
  qed
next
  case Waiting
  then have "rn_in_flight s \<noteq> {}" "tasks_inv s"
    using inv by (simp_all add: run_inv_def phase_inv_def)
  then have "rn_running s \<noteq> {} \<or> rn_ended s \<noteq> {}"
    using tasks_invD(3) by fastforce
  then show ?thesis
    using Waiting rs_end rs_join by (metis assms(2) ex_in_conv surj_pair)
qed (use assms(2) in auto)


section \<open>Properties\<close>

text \<open>C5: dependency order, at-most-once execution and bounded concurrency.  In every reachable state of
  a run of a validated graph, under any interleaving of task ends and joins: no node has been
  spawned twice, every spawned node is a node of the graph all of whose dependencies have completed
  successfully (so a node that depends on a failed one never runs), and at most \<open>mx\<close> tasks hold a
  permit.\<close>

theorem runner_safe:
  assumes "validate iter g = Some (Inr ())" and "1 \<le> mx"
    and "(run_step g mx initial)\<^sup>*\<^sup>* (run_init g) s"
  shows "distinct (map fst (rn_log s)) \<and> card (rn_running s) \<le> mx
    \<and> (\<forall>n \<in> set (nodes g). node_id n \<in> fst ` set (rn_log s) \<longrightarrow>
         (\<forall>d \<in> set (depends_on n). hm_contains_key (rn_completed s) d))"
proof -
  have inv: "run_inv g mx s"
    using runner_sys.reachable_inv [of iter g mx "run_init g"] assms by (simp add: run_start_def)
  then have dist: "distinct (map node_id (nodes g))" by (simp add: run_inv_def)
  have "hm_contains_key (rn_completed s) d"
    if "n \<in> set (nodes g)" "node_id n \<in> fst ` set (rn_log s)" "d \<in> set (depends_on n)" for n d
  proof -
    have "deps_done g s (node_id n)"
      using inv that(2) unfolding run_inv_def log_inv_def by blast
    then have "set (depends_on n) \<subseteq> fst ` set (rn_completed s)"
      using deps_of_node [OF dist that(1)] by simp
    then show ?thesis
      using that(3) by (auto simp: map_of_eq_None_iff)
  qed
  then show ?thesis
    using inv by (auto simp: run_inv_def log_inv_def)
qed

lemma validate_one: "validate (\<lambda>m. m) \<lparr>nodes = [sample_node ''a'' []]\<rparr> = Some (Inr ())"
  by code_simp

theorem runner_safe_witness:
  "distinct (map fst (rn_log (collect \<lparr>nodes = [sample_node ''a'' []]\<rparr> ''x''
      (run_init \<lparr>nodes = [sample_node ''a'' []]\<rparr>))))"
proof -
  let ?g = "\<lparr>nodes = [sample_node ''a'' []]\<rparr>"
  have "run_step ?g 3 ''x'' (run_init ?g) (collect ?g ''x'' (run_init ?g))"
    by (rule rs_collect) (simp add: run_init_def)
  then show ?thesis
    using runner_safe [OF validate_one, where mx = 3 and initial = "''x''" and s = "collect ?g ''x'' (run_init ?g)"] by auto
qed

text \<open>C7: the run terminates and cannot get stuck.  A run of a validated graph takes at most
  five steps per node plus three, whatever the tasks do; as long as it is neither finished nor
  aborted by a task that panicked, some step is possible, the loop waiting for a permit or
  for a task included.\<close>

theorem runner_terminates:
  assumes "validate iter g = Some (Inr ())" and "1 \<le> mx"
    and "(run_step g mx initial ^^ n) (run_init g) s"
  shows "n \<le> 5 * length (nodes g) + 3
    \<and> (rn_phase s \<in> {Finished, JoinFailed} \<or> (\<exists>t. run_step g mx initial s t))"
proof -
  have "run_inv g mx (run_init g)"
    using run_inv_init assms(1,2) by (simp add: run_start_def)
  then have "run_inv g mx s" "n + work_left g s \<le> work_left g (run_init g)"
    using steps_work [OF assms(3)] by blast+
  moreover have "work_left g (run_init g) = 5 * length (nodes g) + 3"
    by (simp add: work_left_def run_init_def)
  ultimately show ?thesis
    using run_progress by fastforce
qed

theorem runner_terminates_witness:
  "\<exists>t. run_step \<lparr>nodes = [sample_node ''a'' []]\<rparr> 3 ''x'' (run_init \<lparr>nodes = [sample_node ''a'' []]\<rparr>) t"
  using runner_terminates [OF validate_one, where mx = 3 and initial = "''x''" and n = 0] by (simp add: run_init_def)

text \<open>A finished run leaves nothing runnable.  When the loop ends, no task is in flight and
  every activated node has completed, has failed, or waits for a dependency that has not
  completed.\<close>

theorem runner_complete:
  assumes "validate iter g = Some (Inr ())" and "1 \<le> mx"
    and "(run_step g mx initial)\<^sup>*\<^sup>* (run_init g) s" and "rn_phase s = Finished"
    and "n \<in> set (nodes g)" and "node_id n \<in> rn_activated s"
  shows "rn_in_flight s = {}
    \<and> (hm_contains_key (rn_completed s) (node_id n) \<or> hm_contains_key (rn_failed s) (node_id n)
       \<or> (\<exists>d \<in> set (depends_on n). \<not> hm_contains_key (rn_completed s) d))"
proof -
  have inv: "run_inv g mx s"
    using runner_sys.reachable_inv [of iter g mx "run_init g"] assms by (simp add: run_start_def)
  then have dist: "distinct (map node_id (nodes g))" by (simp add: run_inv_def)
  have "rn_in_flight s = {}" "\<not> runnable g s (node_id n)"
    using inv assms(4) by (auto simp: run_inv_def phase_inv_def)
  then show ?thesis
    using assms(5,6) deps_of_node [OF dist assms(5)] by (auto simp: runnable_def map_of_eq_None_iff)
qed

text \<open>The graph used to exercise the final states: \<open>b\<close> is activated by \<open>a\<close> but also depends on
  \<open>c\<close>, which no node activates.\<close>

definition stranded_graph :: task_graph where
  "stranded_graph =
     \<lparr>nodes = [(sample_node ''a'' [])\<lparr>on_success := [''b'']\<rparr>, sample_node ''b'' [''a'', ''c''],
               sample_node ''c'' [''a'']]\<rparr>"

definition stranded_end :: runner_state where
  "stranded_end =
     \<lparr>rn_completed = [(''a'', ''ok'')], rn_failed = [], rn_activated = {''a'', ''b''}, rn_in_flight = {},
      rn_running = {}, rn_ended = {}, rn_to_spawn = [], rn_phase = Finished, rn_log = [(''a'', ''x'')]\<rparr>"

lemma stranded_run: "(run_step stranded_graph 3 ''x'')\<^sup>*\<^sup>* (run_init stranded_graph) stranded_end"
proof -
  let ?g = stranded_graph and ?oc = "Some (Inr ''ok'') :: task_outcome"
  let ?st = "run_step ?g 3 ''x''"
  let ?sa = "collect ?g ''x'' (run_init ?g)"
  let ?sb = "spawn_next ?sa"
  let ?sc = "after_spawn ?sb"
  let ?sd = "task_ends ''a'' ?oc ?sc"
  let ?se = "join_task ?g ''a'' ?oc ?sd"
  let ?sf = "collect ?g ''x'' ?se"
  note defs = run_init_def collect_def collect_nodes_def ready_nodes_def stranded_graph_def
    sample_node_def spawn_next_def after_spawn_def task_ends_def resolve_input_def targets_of_def
  have step_a: "?st (run_init ?g) ?sa" by (rule rs_collect) (simp add: defs)
  have step_b: "?st ?sa ?sb" by (rule rs_spawn) (simp_all add: defs)
  have step_c: "?st ?sb ?sc" by (rule rs_spawned) (simp_all add: defs)
  have step_d: "?st ?sc ?sd" by (rule rs_end) (simp_all add: defs)
  have step_e: "?st ?sd ?se" by (rule rs_join) (simp_all add: defs)
  have step_f: "?st ?se ?sf" by (rule rs_collect) (simp add: defs)
  have step_g: "?st ?sf (after_spawn ?sf)" by (rule rs_spawned) (simp_all add: defs)
  have fin: "after_spawn ?sf = stranded_end"
    by (auto simp: defs stranded_end_def)
  have more: "?st\<^sup>*\<^sup>* u v \<Longrightarrow> ?st v w \<Longrightarrow> ?st\<^sup>*\<^sup>* u w" for u v w
    by (rule rtranclp.rtrancl_into_rtrancl)
  show ?thesis
    using more [OF more [OF more [OF more [OF more [OF more [OF more [OF rtranclp.rtrancl_refl
      step_a] step_b] step_c] step_d] step_e] step_f] step_g]
    unfolding fin .
qed

lemma validate_stranded: "validate (\<lambda>m. m) stranded_graph = Some (Inr ())"
  by code_simp

theorem runner_complete_witness:
  "\<exists>d \<in> {''a'', ''c''}. \<not> hm_contains_key (rn_completed stranded_end) d"
  using runner_complete [OF validate_stranded _ stranded_run, where n = "sample_node ''b'' [''a'', ''c'']"]
  by (simp add: stranded_graph_def stranded_end_def sample_node_def)

text \<open>\<^verbatim>\<open>AllSucceeded\<close> does not mean that every activated node completed, as its documentation says.  There is a
  valid graph and a run of it that ends without any failure, is reported as \<^verbatim>\<open>AllSucceeded\<close>, and has
  activated a node that was never run.\<close>

theorem all_succeeded_with_stranded_node:
  "\<exists>g s i outputs. validate (\<lambda>m. m) g = Some (Inr ()) \<and> (run_step g 3 ''x'')\<^sup>*\<^sup>* (run_init g) s
     \<and> rn_phase s = Finished \<and> run_result s = AllSucceeded outputs
     \<and> i \<in> rn_activated s \<and> i \<notin> fst ` set (rn_log s) \<and> \<not> hm_contains_key outputs i"
  using validate_stranded stranded_run
  by (intro exI [of _ stranded_graph] exI [of _ stranded_end] exI [of _ "''b''"] exI [of _ "[(''a'', ''ok'')]"])
    (simp add: stranded_end_def run_result_def)

end
