(* ===== verification/Echo_Detect.thy ===== *)
theory Echo_Detect
  imports Prelude
begin

text \<open>
  \<^verbatim>\<open>agent-core/src/echo_detect.rs\<close>: the bounded memory of messages sent by the agent itself, a
  queue and a set that must hold the same keys.
\<close>

section \<open>Normalised keys\<close>

text \<open>\<^verbatim>\<open>split_whitespace\<close>: the maximal runs of non-white-space characters.\<close>

function split_ws :: "string \<Rightarrow> string \<Rightarrow> string list" where
  "split_ws [] w = (if w = [] then [] else [w])"
| "split_ws (c # s) w =
     (if ws_len (c # s) = 0 then split_ws s (w @ [c])
      else (if w = [] then [] else [w]) @ split_ws (drop (ws_len (c # s)) (c # s)) [])"
  by pat_completeness auto
termination
  by (relation "measure (\<lambda>(s, w). length s)") (auto dest: ws_len_drop)

definition normalize :: "string \<Rightarrow> string" where
  "normalize txt = join_with '' '' (map to_lowercase (split_ws txt []))"

definition norm_key :: "string \<Rightarrow> string" where
  "norm_key txt = ''~:'' @ normalize txt"


section \<open>The tracker\<close>

record echo_tracker =
  recent :: "string list"
  keys :: "string set"
  capacity :: nat

definition echo_new :: "nat \<Rightarrow> echo_tracker" where
  "echo_new cap = \<lparr>recent = [], keys = {}, capacity = cap\<rparr>"

definition insert_entry :: "string \<Rightarrow> echo_tracker \<Rightarrow> echo_tracker" where
  "insert_entry key et =
     (if key \<in> keys et then et
      else
        let et' = (if length (recent et) \<ge> capacity et
                   then (case recent et of
                           old # rest \<Rightarrow> et\<lparr>recent := rest, keys := keys et - {old}\<rparr>
                         | [] \<Rightarrow> et)
                   else et)
        in et'\<lparr>keys := insert key (keys et'), recent := recent et' @ [key]\<rparr>)"

definition remember :: "string \<Rightarrow> echo_tracker \<Rightarrow> echo_tracker" where
  "remember txt et =
     (if txt \<in> keys et then et else insert_entry (norm_key txt) (insert_entry txt et))"

definition drop_key :: "string \<Rightarrow> echo_tracker \<Rightarrow> echo_tracker" where
  "drop_key k et = et\<lparr>keys := keys et - {k}, recent := filter (\<lambda>s. s \<noteq> k) (recent et)\<rparr>"

definition echo_has :: "string \<Rightarrow> echo_tracker \<Rightarrow> bool \<times> echo_tracker" where
  "echo_has txt et =
     (let nk = norm_key txt
      in if txt \<in> keys et then
           let et1 = drop_key txt et
           in (True, if nk \<in> keys et1 then drop_key nk et1 else et1)
         else if nk \<in> keys et then (True, drop_key nk et)
         else (False, et))"

text \<open>\<^verbatim>\<open>forget\<close> updates the set only.\<close>

definition forget :: "string \<Rightarrow> echo_tracker \<Rightarrow> echo_tracker" where
  "forget txt et = et\<lparr>keys := keys et - {txt} - {norm_key txt}\<rparr>"

definition combined_key :: "string \<Rightarrow> string \<Rightarrow> string" where
  "combined_key session_key body = session_key @ '':'' @ body"


section \<open>The queue and the set agree\<close>

definition echo_inv :: "echo_tracker \<Rightarrow> bool" where
  "echo_inv et = (distinct (recent et) \<and> keys et = set (recent et)
     \<and> length (recent et) \<le> max 1 (capacity et))"

lemma echo_inv_new: "echo_inv (echo_new cap)"
  by (simp add: echo_inv_def echo_new_def)

lemma echo_inv_insert: "echo_inv et \<Longrightarrow> echo_inv (insert_entry k et)"
  by (cases "recent et") (auto simp: echo_inv_def insert_entry_def Let_def)

lemma echo_inv_drop: "echo_inv et \<Longrightarrow> echo_inv (drop_key k et)"
  by (auto simp: echo_inv_def drop_key_def intro: order.trans [OF length_filter_le])

lemma echo_inv_remember: "echo_inv et \<Longrightarrow> echo_inv (remember txt et)"
  by (simp add: remember_def echo_inv_insert)

lemma echo_inv_has: "echo_inv et \<Longrightarrow> echo_inv (snd (echo_has txt et))"
  by (simp add: echo_has_def echo_inv_drop Let_def)

lemma insert_entry_mem: "k \<in> keys (insert_entry k et)"
  by (simp add: insert_entry_def Let_def)

lemma insert_entry_capacity [simp]: "capacity (insert_entry k et) = capacity et"
  by (cases "recent et") (auto simp: insert_entry_def Let_def)

inductive echo_step :: "echo_tracker \<Rightarrow> echo_tracker \<Rightarrow> bool" where
  es_remember: "echo_step et (remember txt et)"
| es_has: "echo_step et (snd (echo_has txt et))"

interpretation echo_sys: invariant_system "\<lambda>et. \<exists>cap. et = echo_new cap" echo_step echo_inv
proof
  show "echo_inv et" if "\<exists>cap. et = echo_new cap" for et
    using that echo_inv_new by blast
  show "echo_inv et'" if "echo_inv et" "echo_step et et'" for et et'
    using that(2,1) by (induction rule: echo_step.induct) (auto intro: echo_inv_remember echo_inv_has)
qed


section \<open>Properties\<close>

text \<open>The tracker stays bounded and consistent.  In every state reached from a new tracker by
  remembering and checking messages, the queue holds exactly the keys of the set, without
  duplicates, and no more than the capacity (at least one).\<close>

theorem echo_bounded_and_consistent:
  assumes "echo_step\<^sup>*\<^sup>* (echo_new cap) et"
  shows "distinct (recent et) \<and> keys et = set (recent et) \<and> length (recent et) \<le> max 1 (capacity et)"
  using echo_sys.reachable_inv [of "echo_new cap" et] assms by (auto simp: echo_inv_def)

theorem echo_bounded_and_consistent_witness:
  "keys (remember ''Hi'' (echo_new 2)) = set (recent (remember ''Hi'' (echo_new 2)))"
  using echo_bounded_and_consistent [of 2 "remember ''Hi'' (echo_new 2)"]
  by (auto intro: r_into_rtranclp es_remember)

text \<open>An echo is recognised once.  Directly after a message was remembered it is recognised as
  an echo in every state of the tracker; a recognised echo is consumed, so a second check of the
  same text answers no.\<close>

theorem echo_detected_once:
  "fst (echo_has txt (remember txt et)) \<and> \<not> fst (echo_has txt (snd (echo_has txt et)))"
proof
  have "txt \<in> keys (remember txt et) \<or> norm_key txt \<in> keys (remember txt et)"
    by (auto simp: remember_def insert_entry_mem)
  then show "fst (echo_has txt (remember txt et))"
    by (auto simp: echo_has_def Let_def)
  show "\<not> fst (echo_has txt (snd (echo_has txt et)))"
    by (auto simp: echo_has_def drop_key_def Let_def)
qed

text \<open>\<^verbatim>\<open>forget\<close> leaves the queue behind.  It removes the keys from the set but not from the
  queue, so a message that is forgotten and remembered again is queued twice, and the eviction of
  the stale copy makes the tracker lose a message it still holds in the queue: with capacity 4 the
  message is sent, forgotten and sent again, another one follows, and the echo of the first is
  no longer recognised although only four keys are live.\<close>

theorem forget_breaks_echo:
  "\<not> distinct (recent (remember ''a'' (forget ''a'' (remember ''a'' (echo_new 4)))))
   \<and> \<not> fst (echo_has ''a'' (remember ''b'' (remember ''a'' (forget ''a'' (remember ''a'' (echo_new 4))))))
   \<and> fst (echo_has ''a'' (remember ''b'' (remember ''a'' (echo_new 4))))"
proof -
  have k: "norm_key ''a'' = ''~:a''" "norm_key ''b'' = ''~:b''"
    by (simp_all add: norm_key_def normalize_def to_lowercase_def lower_char_def ws1_def)
  have r: "remember ''a'' (echo_new 4) = \<lparr>recent = [''a'', ''~:a''], keys = {''~:a'', ''a''}, capacity = 4\<rparr>"
    by (simp add: remember_def insert_entry_def echo_new_def k)
  have f: "remember ''a'' (forget ''a'' (remember ''a'' (echo_new 4))) =
      \<lparr>recent = [''a'', ''~:a'', ''a'', ''~:a''], keys = {''~:a'', ''a''}, capacity = 4\<rparr>"
    unfolding r by (auto simp: forget_def remember_def insert_entry_def k)
  have b: "remember ''b'' \<lparr>recent = [''a'', ''~:a'', ''a'', ''~:a''], keys = {''~:a'', ''a''}, capacity = 4\<rparr> =
      \<lparr>recent = [''a'', ''~:a'', ''b'', ''~:b''], keys = {''~:b'', ''b''}, capacity = 4\<rparr>"
    by (auto simp: remember_def insert_entry_def k)
  show ?thesis
    unfolding f b unfolding r
    by (simp add: echo_has_def remember_def insert_entry_def k Let_def)
qed

end
