(* ===== verification/Auth.thy ===== *)
theory Auth
  imports Prelude
begin

text \<open>
  \<^verbatim>\<open>agent-core/src/auth.rs\<close>: provider credentials, the authentication manager, the choice among
  several providers and the rotation of API keys.  The trait \<^verbatim>\<open>AuthProvider\<close> is the parameter
  \<open>refresh\<close> function stored per provider.  All clock reads of one operation return the same instant
  \<open>now\<close> (seconds); each operation runs under its locks and is one step.
\<close>

section \<open>Credentials\<close>

record provider_credentials =
  cred_provider :: string
  api_key :: "string option"
  api_secret :: "string option"
  access_token :: "string option"
  refresh_token :: "string option"
  expires_at :: "int option"

definition credentials_new :: "string \<Rightarrow> provider_credentials" where
  "credentials_new provider =
     \<lparr>cred_provider = provider, api_key = None, api_secret = None, access_token = None,
      refresh_token = None, expires_at = None\<rparr>"

definition with_api_key :: "string \<Rightarrow> provider_credentials \<Rightarrow> provider_credentials" where
  "with_api_key key c = c\<lparr>api_key := Some key\<rparr>"

definition is_expired :: "int \<Rightarrow> provider_credentials \<Rightarrow> bool" where
  "is_expired now c = (case expires_at c of Some e \<Rightarrow> now \<ge> e | None \<Rightarrow> False)"

definition is_valid :: "provider_credentials \<Rightarrow> bool" where
  "is_valid c = (api_key c \<noteq> None \<or> access_token c \<noteq> None)"

text \<open>\<^verbatim>\<open>api_key.or(access_token).unwrap_or_default()\<close>.\<close>

definition token_of :: "provider_credentials \<Rightarrow> string" where
  "token_of c =
     (case api_key c of Some k \<Rightarrow> k | None \<Rightarrow> (case access_token c of Some t \<Rightarrow> t | None \<Rightarrow> []))"


section \<open>AuthManager\<close>

type_synonym refresh_fn = "provider_credentials \<Rightarrow> (string, provider_credentials) result"

record auth_manager =
  credentials :: "(string, provider_credentials) hash_map"
  providers :: "(string, refresh_fn) hash_map"

definition auth_manager_new :: auth_manager where
  "auth_manager_new = \<lparr>credentials = [], providers = []\<rparr>"

definition register_credentials :: "provider_credentials \<Rightarrow> auth_manager \<Rightarrow> auth_manager" where
  "register_credentials c am = am\<lparr>credentials := hm_insert (cred_provider c) c (credentials am)\<rparr>"

definition get_credentials :: "auth_manager \<Rightarrow> string \<Rightarrow> provider_credentials option" where
  "get_credentials am provider = hm_get (credentials am) provider"

definition remove_credentials :: "string \<Rightarrow> auth_manager \<Rightarrow> auth_manager" where
  "remove_credentials provider am = am\<lparr>credentials := hm_remove provider (credentials am)\<rparr>"

definition list_providers :: "auth_manager \<Rightarrow> string list" where
  "list_providers am = map fst (credentials am)"

definition has_valid_credentials :: "int \<Rightarrow> auth_manager \<Rightarrow> string \<Rightarrow> bool" where
  "has_valid_credentials now am provider =
     (case hm_get (credentials am) provider of
        Some c \<Rightarrow> is_valid c \<and> \<not> is_expired now c | None \<Rightarrow> False)"

definition register_provider :: "string \<Rightarrow> refresh_fn \<Rightarrow> auth_manager \<Rightarrow> auth_manager" where
  "register_provider name r am = am\<lparr>providers := hm_insert name r (providers am)\<rparr>"

definition authenticate :: "int \<Rightarrow> string \<Rightarrow> auth_manager \<Rightarrow> (string, string) result \<times> auth_manager" where
  "authenticate now provider am =
     (case hm_get (credentials am) provider of
        None \<Rightarrow> (Inl (''No credentials for provider: '' @ provider), am)
      | Some creds \<Rightarrow>
          if \<not> is_valid creds then (Inl ''Invalid credentials'', am)
          else if is_expired now creds then
            (case hm_get (providers am) provider of
               Some refresh \<Rightarrow>
                 (case refresh creds of
                    Inl e \<Rightarrow> (Inl e, am)
                  | Inr new_creds \<Rightarrow>
                      (Inr (token_of new_creds),
                       am\<lparr>credentials := hm_insert provider new_creds (credentials am)\<rparr>))
             | None \<Rightarrow> (Inr (token_of creds), am))
          else (Inr (token_of creds), am))"

definition validate_all :: "int \<Rightarrow> auth_manager \<Rightarrow> (string, bool) hash_map" where
  "validate_all now am = map (\<lambda>(p, c). (p, is_valid c \<and> \<not> is_expired now c)) (credentials am)"

definition auth_clear_expired :: "int \<Rightarrow> auth_manager \<Rightarrow> auth_manager" where
  "auth_clear_expired now am =
     am\<lparr>credentials := hm_retain (\<lambda>_ c. \<not> is_expired now c \<or> api_key c \<noteq> None) (credentials am)\<rparr>"


section \<open>MultiProviderAuth\<close>

record multi_provider_auth =
  default_provider :: string
  fallback_providers :: "string list"

definition multi_new :: "string \<Rightarrow> multi_provider_auth" where
  "multi_new d = \<lparr>default_provider = d, fallback_providers = []\<rparr>"

definition add_fallback :: "string \<Rightarrow> multi_provider_auth \<Rightarrow> multi_provider_auth" where
  "add_fallback p m = m\<lparr>fallback_providers := fallback_providers m @ [p]\<rparr>"

fun token_loop :: "int \<Rightarrow> string list \<Rightarrow> auth_manager \<Rightarrow> string option \<times> auth_manager" where
  "token_loop now [] am = (None, am)"
| "token_loop now (p # ps) am =
     (if has_valid_credentials now am p then
        (case authenticate now p am of
           (Inr t, am') \<Rightarrow> (Some t, am')
         | (Inl _, am') \<Rightarrow> token_loop now ps am')
      else token_loop now ps am)"

text \<open>The default provider is tried like the fallbacks, first.\<close>

definition get_valid_token :: "int \<Rightarrow> multi_provider_auth \<Rightarrow> auth_manager \<Rightarrow> string option \<times> auth_manager" where
  "get_valid_token now m am = token_loop now (default_provider m # fallback_providers m) am"


section \<open>KeyRotator\<close>

record key_slot =
  key :: string
  slot_cooldown_until :: "int option"

record key_rotator =
  slots :: "key_slot list"
  current :: nat

definition rotator_new :: "string list \<Rightarrow> key_rotator" where
  "rotator_new ks = \<lparr>slots = map (\<lambda>k. \<lparr>key = k, slot_cooldown_until = None\<rparr>) ks, current = 0\<rparr>"

definition slot_ready :: "int \<Rightarrow> key_slot \<Rightarrow> bool" where
  "slot_ready now s = (case slot_cooldown_until s of None \<Rightarrow> True | Some t \<Rightarrow> now \<ge> t)"

text \<open>The loop \<^verbatim>\<open>for i in 0..len\<close> of \<^verbatim>\<open>get_key\<close>: the first ready slot from the current index on.\<close>

definition next_slot :: "int \<Rightarrow> key_rotator \<Rightarrow> nat option" where
  "next_slot now r =
     map_option (\<lambda>i. (current r + i) mod length (slots r))
       (find (\<lambda>i. slot_ready now (slots r ! ((current r + i) mod length (slots r)))) [0..<length (slots r)])"

definition get_key :: "int \<Rightarrow> key_rotator \<Rightarrow> string option \<times> key_rotator" where
  "get_key now r =
     (case next_slot now r of
        Some idx \<Rightarrow> (Some (key (slots r ! idx)), r\<lparr>current := (idx + 1) mod length (slots r)\<rparr>)
      | None \<Rightarrow> (None, r))"

text \<open>\<^const>\<open>None\<close> where the code panics: the remainder by zero for a rotator without keys.\<close>

definition mark_limited :: "int \<Rightarrow> int \<Rightarrow> key_rotator \<Rightarrow> key_rotator option" where
  "mark_limited now cooldown_secs r =
     (let idx = current r;
          r' = (if idx < length (slots r)
                then r\<lparr>slots := (slots r)[idx := (slots r ! idx)\<lparr>slot_cooldown_until := Some (now + cooldown_secs)\<rparr>]\<rparr>
                else r)
      in if length (slots r) = 0 then None
         else Some (r'\<lparr>current := (current r + 1) mod length (slots r)\<rparr>))"

definition rotator_count :: "key_rotator \<Rightarrow> nat" where
  "rotator_count r = length (slots r)"

definition rotator_inv :: "key_rotator \<Rightarrow> bool" where
  "rotator_inv r = (slots r = [] \<and> current r = 0 \<or> current r < length (slots r))"


section \<open>Facts\<close>

lemma authenticate_valid:
  "has_valid_credentials now am p \<Longrightarrow>
     \<exists>c. hm_get (credentials am) p = Some c \<and> authenticate now p am = (Inr (token_of c), am)"
  by (auto simp: has_valid_credentials_def authenticate_def split: option.splits)

lemma token_loop_eq:
  "token_loop now ps am =
     (case find (has_valid_credentials now am) ps of
        None \<Rightarrow> (None, am)
      | Some p \<Rightarrow> (map_option token_of (get_credentials am p), am))"
proof (induction ps)
  case (Cons p ps)
  show ?case
  proof (cases "has_valid_credentials now am p")
    case True
    with authenticate_valid [OF True] show ?thesis
      by (auto simp: get_credentials_def)
  next
    case False
    with Cons show ?thesis by simp
  qed
qed simp

lemma find_index_Some:
  "find P xs = Some x \<Longrightarrow> x \<in> set xs \<and> P x"
  by (induction xs) (auto split: if_splits)

lemma find_index_None: "find P xs = None \<longleftrightarrow> (\<forall>x \<in> set xs. \<not> P x)"
  by (induction xs) auto

lemma mod_cover:
  assumes "c < n" and "j < n"
  shows "\<exists>i < n. (c + i) mod n = (j :: nat)"
proof (cases "c \<le> j")
  case True
  with assms show ?thesis by (intro exI [of _ "j - c"]) auto
next
  case False
  with assms have "(c + (n - c + j)) mod n = j" "n - c + j < n" by auto
  then show ?thesis by blast
qed

lemma next_slot_Some:
  "next_slot now r = Some idx \<Longrightarrow> idx < length (slots r) \<and> slot_ready now (slots r ! idx)"
  by (auto simp: next_slot_def dest!: find_index_Some intro: mod_less_divisor)

lemma next_slot_None:
  assumes "rotator_inv r"
  shows "next_slot now r = None \<longleftrightarrow> (\<forall>s \<in> set (slots r). \<not> slot_ready now s)"
proof -
  have "next_slot now r = None \<longleftrightarrow>
      (\<forall>i < length (slots r). \<not> slot_ready now (slots r ! ((current r + i) mod length (slots r))))"
    by (auto simp: next_slot_def find_index_None)
  also have "\<dots> \<longleftrightarrow> (\<forall>j < length (slots r). \<not> slot_ready now (slots r ! j))"
  proof (intro iffI allI impI)
    fix j
    assume all: "\<forall>i < length (slots r). \<not> slot_ready now (slots r ! ((current r + i) mod length (slots r)))"
      and j: "j < length (slots r)"
    then have "current r < length (slots r)"
      using assms by (auto simp: rotator_inv_def)
    then obtain i where "i < length (slots r)" "(current r + i) mod length (slots r) = j"
      using mod_cover j by blast
    with all show "\<not> slot_ready now (slots r ! j)" by blast
  next
    fix i
    assume all: "\<forall>j < length (slots r). \<not> slot_ready now (slots r ! j)" and "i < length (slots r)"
    then have "(current r + i) mod length (slots r) < length (slots r)"
      by (intro mod_less_divisor) linarith
    with all show "\<not> slot_ready now (slots r ! ((current r + i) mod length (slots r)))" by blast
  qed
  finally show ?thesis
    by (metis in_set_conv_nth)
qed

lemma rotator_inv_new: "rotator_inv (rotator_new ks)"
  by (auto simp: rotator_inv_def rotator_new_def)

lemma rotator_inv_get: "rotator_inv r \<Longrightarrow> rotator_inv (snd (get_key now r))"
  using next_slot_Some [of now r]
  by (cases "next_slot now r") (auto simp: rotator_inv_def get_key_def intro!: mod_less_divisor)

lemma rotator_inv_mark: "rotator_inv r \<Longrightarrow> mark_limited now cd r = Some r' \<Longrightarrow> rotator_inv r'"
  by (auto simp: rotator_inv_def mark_limited_def Let_def intro!: mod_less_divisor split: if_splits)



section \<open>Properties\<close>

text \<open>The first provider with valid credentials is used.  The token returned is that of the
  first provider, default before fallbacks, whose credentials are valid and not expired; there is
  none exactly when no listed provider has such credentials; and asking changes no state.\<close>

theorem get_valid_token_first_valid:
  "get_valid_token now m am =
     (case find (has_valid_credentials now am) (default_provider m # fallback_providers m) of
        None \<Rightarrow> (None, am)
      | Some p \<Rightarrow> (map_option token_of (get_credentials am p), am))"
  unfolding get_valid_token_def by (rule token_loop_eq)

text \<open>Key rotation finds a usable key whenever there is one.  From any consistent rotator a key
  is returned exactly when some slot is not cooling down, and the returned key is one of those.\<close>

theorem get_key_complete:
  assumes "rotator_inv r"
  shows "(fst (get_key now r) = None \<longleftrightarrow> (\<forall>s \<in> set (slots r). \<not> slot_ready now s))
    \<and> (\<forall>k. fst (get_key now r) = Some k \<longrightarrow> (\<exists>s \<in> set (slots r). slot_ready now s \<and> key s = k))"
proof (cases "next_slot now r")
  case None
  with next_slot_None [OF assms, of now] show ?thesis by (simp add: get_key_def)
next
  case (Some idx)
  then have "slots r ! idx \<in> set (slots r) \<and> slot_ready now (slots r ! idx)"
    using next_slot_Some by simp
  with Some next_slot_None [OF assms, of now] show ?thesis
    by (auto simp: get_key_def)
qed

theorem get_key_complete_witness:
  "\<exists>s \<in> set (slots (rotator_new [''k1'', ''k2''])). slot_ready 5 s \<and> key s = ''k1''"
  using get_key_complete [of "rotator_new [''k1'', ''k2'']" 5] rotator_inv_new [of "[''k1'', ''k2'']"]
  by (simp add: rotator_new_def get_key_def next_slot_def slot_ready_def upt_rec)

text \<open>Limiting "the current key" limits the wrong one.  \<^verbatim>\<open>get_key\<close> has already advanced the
  index past the key it handed out, so with two or more keys a following \<^verbatim>\<open>mark_limited\<close> leaves
  that key untouched and puts its successor into cooldown.\<close>

theorem mark_limited_hits_successor:
  assumes "2 \<le> length (slots r)" and "next_slot now r = Some idx"
    and "mark_limited now' cd (snd (get_key now r)) = Some r'"
  shows "slots r' ! idx = slots r ! idx
    \<and> slot_cooldown_until (slots r' ! ((idx + 1) mod length (slots r))) = Some (now' + cd)"
proof -
  let ?n = "length (slots r)"
  let ?j = "(idx + 1) mod ?n"
  have idx: "idx < ?n"
    using next_slot_Some [OF assms(2)] by simp
  have "?j < ?n"
    using assms(1) by (intro mod_less_divisor) linarith
  moreover have "?j \<noteq> idx"
  proof (cases "idx + 1 = ?n")
    case True
    with assms(1) show ?thesis by simp
  next
    case False
    with idx show ?thesis by simp
  qed
  ultimately show ?thesis
    using assms(2,3) by (auto simp: mark_limited_def get_key_def Let_def split: if_splits)
qed

theorem mark_limited_hits_successor_witness:
  "\<exists>r'. mark_limited 5 60 (snd (get_key 5 (rotator_new [''k1'', ''k2'']))) = Some r'
     \<and> slots r' ! 0 = slots (rotator_new [''k1'', ''k2'']) ! 0
     \<and> slot_cooldown_until (slots r' ! 1) = Some 65"
proof -
  let ?r = "rotator_new [''k1'', ''k2'']"
  have n: "next_slot 5 ?r = Some 0"
    by (simp add: rotator_new_def next_slot_def slot_ready_def upt_rec)
  obtain r' where r': "mark_limited 5 60 (snd (get_key 5 ?r)) = Some r'"
    by (simp add: mark_limited_def get_key_def n) (simp add: rotator_new_def Let_def)
  show ?thesis
    using mark_limited_hits_successor [OF _ n r'] r' by (simp add: rotator_new_def)
qed

end
