(* ===== verification/Spec2Isabelle.thy ===== *)
theory Spec2Isabelle
  imports Stream_Chunker Cron_Scheduler Sessions Pairing OAuth_Profiles Message_Pipeline Gateway_Auth Channel_Core Workspace_Triggers Memory_Index Plugins System_Events Subagent_Runs Acp Agent Model_Fallback Task_Runner Trackers Echo_Detect Auth
begin

text \<open>
  A verification library for the core of \<^verbatim>\<open>oclaw\<close>, an AI agent server written in Rust.

  \<^bold>\<open>The program.\<close>  An agent (\<^verbatim>\<open>agent-core/src/agent.rs\<close>) holds a conversation and drives a language
  model (\<^verbatim>\<open>llm-core\<close>) in a loop: it prepares a request from its history, sends it with retries, appends the answer,
  and executes the tool calls the answer asks for, until the model stops asking or a limit is
  reached.  Around this loop stand the components that keep it within bounds: loop detection, the
  approval gate and tool policies (\<^verbatim>\<open>tools-core\<close>), history limiting and pruning, the context guard and compaction, and transcript
  repair on restart.  Above it, subagents run agents in background tasks, a task graph runs
  subagents concurrently, and a model fallback retries an agent over several models.  Below it, the gateway receives
  messages from channels, decides who may speak to which agent, queues them per session and runs the turns; a cron service starts
  jobs; security components issue sessions, device tokens and pairing codes; a memory store is
  indexed and searched.

  \<^bold>\<open>The theories,\<close> in the order of the imports, with the files under \<^verbatim>\<open>src/crates/\<close> they model:

  \<^item> \<open>Prelude\<close>: strings as UTF-8 bytes with slices that can fail, saturating integers, hash maps,
    and the locale \<open>invariant_system\<close>, the contract of every step relation below.
  \<^item> \<open>Errors\<close>: \<^verbatim>\<open>AgentError\<close> (\<^verbatim>\<open>agent-core/src/lib.rs\<close>) and \<^verbatim>\<open>LlmError\<close> (\<^verbatim>\<open>llm-core/src/error.rs\<close>).
  \<^item> \<open>Chat\<close>: messages, requests, completions and token estimates (\<^verbatim>\<open>llm-core/src/chat.rs\<close>, \<^verbatim>\<open>tokenizer.rs\<close>).
  \<^item> \<open>Str_Util\<close>: cutting texts at character and line boundaries (\<^verbatim>\<open>str_util.rs\<close>, \<^verbatim>\<open>tools-core/src/truncation.rs\<close>);
    the locale \<open>safe_cut\<close> is what every caller of a slice relies on.
  \<^item> \<open>Loop_Detect\<close>: the detector of tool-call loops (\<^verbatim>\<open>loop_detect.rs\<close>), its escalation thresholds and that a critical verdict
    rests on recorded outcomes without progress.
  \<^item> \<open>History\<close>: history limiting, pruning of tool results, recalled memories (\<^verbatim>\<open>history.rs\<close>, \<^verbatim>\<open>pruning.rs\<close>,
    \<^verbatim>\<open>auto_recall.rs\<close>).
  \<^item> \<open>Transcript_Repair\<close>: pairing of tool calls and results (\<^verbatim>\<open>transcript_repair.rs\<close>), refining an abstract
    specification, idempotent.
  \<^item> \<open>Tool_Policy\<close>, \<open>Approval\<close>: tool policies, groups, profiles, the two policy pipelines and the approval gate
    (\<^verbatim>\<open>tools-core/src/policy.rs\<close>, \<^verbatim>\<open>groups.rs\<close>, \<^verbatim>\<open>profiles.rs\<close>, \<^verbatim>\<open>approval.rs\<close>); the locale \<open>deny_first\<close> is the contract the
    gates share.
  \<^item> \<open>Tool_Mutation\<close>: mutating tool calls, error classes, usage totals (\<^verbatim>\<open>tool_mutation.rs\<close>, \<^verbatim>\<open>error_classify.rs\<close>,
    \<^verbatim>\<open>usage.rs\<close>).
  \<^item> \<open>Context_Guard\<close>: the token budget and compaction (\<^verbatim>\<open>context_guard.rs\<close>, \<^verbatim>\<open>compaction.rs\<close>).
  \<^item> \<open>Agent\<close>: the agent and its drivers (\<^verbatim>\<open>agent.rs\<close>); the locale \<open>agent_relation\<close> lifts a relation from
    the primitive writes to whole runs and is interpreted for gate safety, the append-only
    transcript and the unchanged configuration.
  \<^item> \<open>Trackers\<close>, \<open>Echo_Detect\<close>, \<open>Auth\<close>: cooldowns, polling backoff, thread ownership, echo detection, credentials and key
    rotation (\<^verbatim>\<open>auth_cooldown.rs\<close>, \<^verbatim>\<open>command_poll.rs\<close>, \<^verbatim>\<open>thread_ownership.rs\<close>, \<^verbatim>\<open>echo_detect.rs\<close>, \<^verbatim>\<open>auth.rs\<close>); the locale
    \<open>cooldown_store\<close> is shared by the two cooldown trackers.
  \<^item> \<open>Model_Fallback\<close>: fallback over candidates and model chains (\<^verbatim>\<open>model_fallback.rs\<close>).
  \<^item> \<open>Subagent\<close>: the registry and its background tasks as a step relation (\<^verbatim>\<open>subagent.rs\<close>).
  \<^item> \<open>Task_Graph\<close>, \<open>Task_Runner\<close>: validation of task graphs and their concurrent execution as a step relation
    (\<^verbatim>\<open>task_graph.rs\<close>).
  \<^item> \<open>Stream_Chunker\<close>: splitting streamed text at paragraphs, lines and code fences (\<^verbatim>\<open>stream_chunker.rs\<close>).
  \<^item> \<open>Cron_Service\<close>, \<open>Cron_Scheduler\<close>: schedules, the job service, run log and scheduling loop (\<^verbatim>\<open>cron-core\<close>); the service refines a
    map, the loop is a step relation.
  \<^item> \<open>Rw_Locks\<close>: reader-writer locks and deadlock; tasks that take their locks in one order never deadlock.
  \<^item> \<open>Sessions\<close>, \<open>Pairing\<close>, \<open>OAuth_Profiles\<close>: login sessions, audit log, pairing requests, device tokens, setup codes, OAuth states
    and auth profiles (\<^verbatim>\<open>security-core\<close>, \<^verbatim>\<open>pairing\<close>).
  \<^item> \<open>Reply_Queue\<close>: the per-session queue, debouncing, deduplication and reply normalisation (\<^verbatim>\<open>auto-reply\<close>).
  \<^item> \<open>Session_Routing\<close>, \<open>Message_Pipeline\<close>: session keys, bindings, access checks, and the message pipeline of a session as a step
    relation (\<^verbatim>\<open>gateway-core/src/session_key.rs\<close>, \<^verbatim>\<open>binding.rs\<close>, \<^verbatim>\<open>channel_access.rs\<close>, \<^verbatim>\<open>pipeline.rs\<close>).
  \<^item> \<open>Sliding_Window\<close>, \<open>Gateway_Auth\<close>, \<open>Acp\<close>: the locale \<open>sliding_window\<close> and the two limiters that provide it; HTTP authentication
    (\<^verbatim>\<open>gateway-core/src/http/auth.rs\<close>, \<^verbatim>\<open>rate_limit.rs\<close>, \<^verbatim>\<open>middleware.rs\<close>) and the client protocol (\<^verbatim>\<open>acp\<close>).
  \<^item> \<open>Channel_Core\<close>: coalescing, draft streams, routing, send limits, reconnection, health and the channel registry (\<^verbatim>\<open>channel-core\<close>).
  \<^item> \<open>Workspace_Triggers\<close>: heartbeats, memory flush, evolution and capture triggers (\<^verbatim>\<open>workspace-core\<close>, \<^verbatim>\<open>gateway-core\<close>).
  \<^item> \<open>Memory_Search\<close>, \<open>Memory_Index\<close>: reranking, the embedding cache, splitting, indexing and hybrid search (\<^verbatim>\<open>memory-core\<close>).
  \<^item> \<open>Plugins\<close>: manifests, the plugin registry, its life cycle and the hook runner (\<^verbatim>\<open>plugin-core\<close>).
  \<^item> \<open>System_Events\<close>: the queue of system events, coalesced wakes and the presence list (\<^verbatim>\<open>gateway-core/src/http.rs\<close>).
  \<^item> \<open>Session_Store\<close>: the store of sessions, messages, metadata and agents (\<^verbatim>\<open>gateway-core/src/message.rs\<close>); it refines a map of
    conversations and its message counts are exact.
  \<^item> \<open>Session_Access\<close>: which sessions a session's tools may see and write, the configured limits and the spawn depth;
    \<open>Announce_Queue\<close>: the queue of completion announcements with its drain loop as a step relation; \<open>Delivery_Routes\<close>: where a completion
    is delivered; \<open>Subagent_Runs\<close>: the registry of runs, their end, the cleanup flow with its retries and \<^verbatim>\<open>sessions_spawn\<close>
    (\<^verbatim>\<open>gateway-core/src/http/agent_bridge.rs\<close>).
  \<^item> this theory: the properties that span components.

  \<^bold>\<open>Modelling decisions.\<close>  Each definition has the name of the Rust item it translates, with a prefix where
  HOL or another component uses the name.  Structs are records, enums are datatypes, a
  \<^verbatim>\<open>HashMap\<close> is an association list with distinct keys, \<^verbatim>\<open>Result\<close> is a sum, and a function whose
  slices, indexing or \<^verbatim>\<open>expect\<close> can panic returns an option, with \<^const>\<open>None\<close> for the panic.  Code outside the repository is a
  parameter: the language model and the tool executor (functions on a world state), the BPE tables, the
  standard library's hasher, the iteration order of hash maps, fresh ids and the clock.
  Operations that hold a lock are atomic steps; tasks interleave between them.

  \<^bold>\<open>What the theorems show.\<close>  The texts before the theorems marked \<open>C1\<close> to \<open>C40\<close> state them.  In short: the agent's loops return for every
  behaviour of model and tools, without panic, within the configured number of requests; tools run
  only with the gate's approval and every call is answered; the repair, truncation, pruning,
  limiting and compaction of conversations keep exactly what they should; task graphs are validated
  exactly, and run each node at most once, after its dependencies, to completion; waiting callers
  get answers; the message pipeline loses and reorders nothing by itself, the limits on requests, sessions,
  jobs and queues hold, tokens, sessions and OAuth states are accepted exactly when they should be;
  cooldowns, ownership and policies decide as specified.  A few theorems record
  behaviour that differs from the code's intention or comments.

  \<^bold>\<open>Bounds and fuel.\<close>  Loops are structural recursions (retries, iterations, messages) or have a
  termination measure.  The queue loop of the graph validation has fuel, the number of nodes plus
  one, and the drain loop of the stream chunker has fuel, the length of the buffer plus one; the theorems show that this is enough (for the
  chunker on plain text; a lemma shows an input on which the code's loop never ends).  The loop that splits a
  text for the memory index is a \<^verbatim>\<open>partial_function\<close>, so that not ending is a value.

  \<^bold>\<open>Not modelled.\<close>  Logging, delays between retries, floating-point rounding (ratios, scores and costs are
  rational or real numbers or texts), lower-casing of non-ASCII letters, the bytes of JSON files, cron expressions and the
  SQLite full-text index (parameters), the HTTP providers, the channel adapters, the route handlers and
  the channel actions of the tool bridge (network I/O), the built-in tools, browser, media, speech, skills, the loading of plugins, user interfaces, diagnostics and
  service installation.
\<close>

section \<open>The agent behind the model fallback\<close>

text \<open>\<^verbatim>\<open>ModelFallback::execute_with_agent\<close> calls \<^verbatim>\<open>agent.run(input)\<close>; \<open>run\<close> is total, so the last branch is never
  taken.\<close>

definition agent_runner ::
  "('w, 'tool) agent_env \<Rightarrow> agent \<times> 'w \<Rightarrow> string \<Rightarrow> (agent_error, string) result \<times> (agent \<times> 'w)" where
  "agent_runner env s inp =
     (case run env inp (fst s) (snd s) of
        Some (r, ag', w') \<Rightarrow> (r, (ag', w'))
      | None \<Rightarrow> (Inl (ExecutionError ''unreachable''), s))"

definition chat_always_fails :: "('w, 'tool) agent_env \<Rightarrow> bool" where
  "chat_always_fails env = (\<forall>req w. \<exists>e w'. env_chat env req w = (Inl e, w'))"

lemma run_attempts_fail:
  assumes "chat_always_fails env"
  shows "\<exists>e ag' w'. run_attempts env req n err ag w = (Inl e, ag', w') \<and> history ag' = history ag"
proof (induction n arbitrary: err w)
  case (Suc n)
  obtain e v where "env_chat env req w = (Inl e, v)"
    using assms unfolding chat_always_fails_def by blast
  then show ?case
    using Suc.IH [of "Some e" v] by simp
qed simp

lemma agent_runner_fail:
  assumes "chat_always_fails env"
  shows "\<exists>e ag' w'. agent_runner env s inp = (Inl e, (ag', w'))
    \<and> history ag' = history (fst s) @ [plain_message User inp]"
proof -
  let ?u = "plain_message User inp"
  let ?ag = "(push_message ?u (transcript_append ?u ((fst s)\<lparr>ag_state := Running\<rparr>)))\<lparr>ag_state := WaitingForResponse\<rparr>"
  obtain msgs where m: "prepare_messages ?ag = Some msgs"
    using prepare_total by blast
  obtain e ag' w' where "run_attempts env (make_request ?ag msgs None) (nat (retries_of ?ag)) None ?ag (snd s) = (Inl e, ag', w')"
      "history ag' = history ?ag"
    using run_attempts_fail [OF assms] by blast
  then show ?thesis
    using m by (simp add: agent_runner_def run_def Let_def) (simp add: push_message_def transcript_append_def)
qed

lemma retry_spec_fail:
  assumes "chat_always_fails env"
  shows "\<exists>s'. retry_spec (agent_runner env) inp n s = (None, s')
    \<and> history (fst s') = history (fst s) @ replicate n (plain_message User inp)"
proof (induction n arbitrary: s)
  case (Suc n)
  obtain e ag' w' where r: "agent_runner env s inp = (Inl e, (ag', w'))"
      "history ag' = history (fst s) @ [plain_message User inp]"
    using agent_runner_fail [OF assms] by metis
  obtain s' where "retry_spec (agent_runner env) inp n (ag', w') = (None, s')"
      "history (fst s') = history ag' @ replicate n (plain_message User inp)"
    using Suc.IH [of "(ag', w')"] by auto
  then show ?case
    using r by (simp add: replicate_app_Cons_same)
qed simp

text \<open>The model fallback repeats the user's message.  While every request fails, each entry of the chain
  runs the same agent again, and each of these runs leaves its copy of the user's message in
  the history: after the fallback over a chain of \<open>n\<close> models has failed, the conversation has
  grown by \<open>n\<close> copies of the message.\<close>

theorem fallback_repeats_user_message:
  assumes "chat_always_fails env" and "fb_enabled (fb_config f)" and "entries (chain f) \<noteq> []"
    and "0 < fb_max_retries (fb_config f)"
    and "fb_max_retries (fb_config f) * int (length (entries (chain f))) < 2 ^ 31"
  shows "case execute_with_agent (agent_runner env) f (ag, w) inp of (r, f', (ag', w')) \<Rightarrow>
      (\<exists>e. r = Inl e)
      \<and> history ag' = history ag @ replicate (length (entries (chain f))) (plain_message User inp)"
proof -
  obtain s' where s': "retry_spec (agent_runner env) inp (length (entries (chain f))) (ag, w) = (None, s')"
      "history (fst s') = history ag @ replicate (length (entries (chain f))) (plain_message User inp)"
    using retry_spec_fail [OF assms(1), of inp "length (entries (chain f))" "(ag, w)"] by auto
  obtain r f' s2 where x: "execute_with_agent (agent_runner env) f (ag, w) inp = (r, f', s2)"
    by (metis prod_cases3)
  have "(case r of Inr res \<Rightarrow> Some res | Inl _ \<Rightarrow> None, s2) = (None, s')"
    using execute_retry [OF assms(2-5), where run = "agent_runner env" and ag = "(ag, w)" and inp = inp] x s'(1) by simp
  then show ?thesis
    using x s'(2) by (cases r) auto
qed

definition failing_env :: "(nat, unit) agent_env" where
  "failing_env = silent_env\<lparr>env_chat := (\<lambda>req w. (Inl (ApiError ''down''), Suc w))\<rparr>"

theorem fallback_repeats_user_message_witness:
  "case execute_with_agent (agent_runner failing_env)
      (fallback_add_model OpenAi ''a'' 1 (fallback_add_model Xai ''b'' 2 (fallback_new default_fallback_config)))
      (agent_new (agent_config_new ''n'' ''m'' ''p''), 0) ''hi'' of
    (r, f', (ag', w')) \<Rightarrow> history ag' = [plain_message User ''hi'', plain_message User ''hi'']"
proof -
  let ?f = "fallback_add_model OpenAi ''a'' 1 (fallback_add_model Xai ''b'' 2 (fallback_new default_fallback_config))"
  have f: "length (entries (chain ?f)) = 2" "fb_config ?f = default_fallback_config"
    by (simp_all add: fallback_add_model_def fallback_new_def add_model_def chain_new_def)
  then have "entries (chain ?f) \<noteq> []" by (metis list.size(3) zero_neq_numeral)
  moreover have "chat_always_fails failing_env"
    by (simp add: chat_always_fails_def failing_env_def)
  ultimately show ?thesis
    using fallback_repeats_user_message [where env = failing_env and f = ?f and w = 0
        and ag = "agent_new (agent_config_new ''n'' ''m'' ''p'')" and inp = "''hi''"] f
    by (simp add: default_fallback_config_def agent_new_def numeral_2_eq_2 split: prod.splits)
qed

end
